(* ===== verification/Prelude.thy ===== *)
theory Prelude
  imports Main "HOL-Library.Word" "HOL-Library.Char_ord"
begin

text \<open>
  What every component theory shares: the names of the model's scalar types, the C++ integer
  conversions the sources use on \<open>std::chrono\<close> values, and the generic list lemmas.

  A \<open>std::string\<close> is a list of \<open>char\<close>, one per byte. Durations and time points are \<open>int\<close>
  counts of their unit, the unit being in the name of the definition that reads them.
\<close>

unbundle bit_operations_syntax

named_theorems inv_intro \<open>introduction rules of the components' invariants\<close>
named_theorems step_simps \<open>equations of the components' step functions\<close>

type_synonym bytes = "char list"
type_synonym u64 = "64 word"
type_synonym u32 = "32 word"

section \<open>Integer conversions\<close>

text \<open>C++ integer division, which truncates towards zero (\<open>std::chrono::duration_cast\<close>).\<close>

definition cdiv :: "int \<Rightarrow> int \<Rightarrow> int" where
  "cdiv a b = (if a \<ge> 0 then a div b else - ((- a) div b))"

lemma cdiv_nonneg [simp]: "a \<ge> 0 \<Longrightarrow> cdiv a b = a div b"
  by (simp add: cdiv_def)

lemma cdiv_pos_iff: "b > 0 \<Longrightarrow> 0 < cdiv a b \<longleftrightarrow> b \<le> a"
proof -
  assume b: "b > 0"
  show ?thesis
  proof (cases "a \<ge> 0")
    case True
    with b show ?thesis by (simp add: pos_imp_zdiv_pos_iff)
  next
    case False
    with b have "(- a) div b \<ge> 0" by (simp add: pos_imp_zdiv_nonneg_iff)
    with False b show ?thesis by (simp add: cdiv_def)
  qed
qed

lemma cdiv_zero [simp]: "cdiv 0 b = 0"
  by (simp add: cdiv_def)

lemma cdiv_nonneg_iff: "b > 0 \<Longrightarrow> a \<ge> 0 \<Longrightarrow> 0 \<le> cdiv a b"
  by (simp add: pos_imp_zdiv_nonneg_iff)

lemma cdiv_mult_cancel [simp]: "b > 0 \<Longrightarrow> cdiv (a * b) b = a"
proof (cases "a \<ge> 0")
  case False
  assume b: "b > 0"
  with False have "\<not> a * b \<ge> 0" by (simp add: not_le mult_neg_pos)
  moreover have "(- (a * b)) div b = - a"
    using b by (metis mult_minus_left nonzero_mult_div_cancel_right less_irrefl)
  ultimately show ?thesis by (simp add: cdiv_def)
qed simp

text \<open>\<open>std::clamp\<close>.\<close>

definition clamp :: "'a::linorder \<Rightarrow> 'a \<Rightarrow> 'a \<Rightarrow> 'a" where
  "clamp lo hi x = (if x < lo then lo else if hi < x then hi else x)"

lemma clamp_bounds: "lo \<le> hi \<Longrightarrow> lo \<le> clamp lo hi x \<and> clamp lo hi x \<le> hi"
  by (auto simp: clamp_def)

lemma clamp_id: "lo \<le> x \<Longrightarrow> x \<le> hi \<Longrightarrow> clamp lo hi x = x"
  by (auto simp: clamp_def)


section \<open>Bytes\<close>

abbreviation byte :: "char \<Rightarrow> nat" where
  "byte c \<equiv> of_char c"

lemma byte_eq_iff: "byte c = byte d \<longleftrightarrow> c = d"
  by (rule of_char_eq_iff)

definition IsDigit :: "char \<Rightarrow> bool" where
  "IsDigit c \<longleftrightarrow> CHR ''0'' \<le> c \<and> c \<le> CHR ''9''"

lemma IsDigit_byte: "IsDigit c \<longleftrightarrow> 48 \<le> byte c \<and> byte c \<le> 57"
  by (simp add: IsDigit_def less_eq_char_def)

definition starts_with :: "bytes \<Rightarrow> bytes \<Rightarrow> bool" where
  "starts_with word s \<longleftrightarrow> take (length word) s = word"

lemma starts_with_append [simp]: "starts_with w (w @ r)"
  by (simp add: starts_with_def)

text \<open>\<open>std::to_string\<close> on an integer.\<close>

definition digit_char :: "nat \<Rightarrow> char" where
  "digit_char d = char_of (48 + d)"

fun dec_of_nat :: "nat \<Rightarrow> bytes" where
  "dec_of_nat n = (if n < 10 then [digit_char n] else dec_of_nat (n div 10) @ [digit_char (n mod 10)])"

declare dec_of_nat.simps [simp del]

definition to_string :: "int \<Rightarrow> bytes" where
  "to_string i = (if i < 0 then CHR ''-'' # dec_of_nat (nat (- i)) else dec_of_nat (nat i))"

lemma byte_digit_char: "d < 10 \<Longrightarrow> byte (digit_char d) = 48 + d"
  by (simp add: digit_char_def of_char_of)

lemma IsDigit_digit_char [simp]: "d < 10 \<Longrightarrow> IsDigit (digit_char d)"
  by (simp add: IsDigit_byte byte_digit_char)

lemma dec_of_nat_digits: "list_all IsDigit (dec_of_nat n)"
proof (induction n rule: dec_of_nat.induct)
  case (1 n)
  then show ?case by (subst dec_of_nat.simps) (auto simp: list_all_iff)
qed

lemma dec_of_nat_not_Nil [simp]: "dec_of_nat n \<noteq> []"
  by (subst dec_of_nat.simps) simp

text \<open>Reading the digits back, most significant first.\<close>

definition nat_of_dec :: "bytes \<Rightarrow> nat" where
  "nat_of_dec ds = foldl (\<lambda>n c. n * 10 + (byte c - 48)) 0 ds"

lemma nat_of_dec_snoc: "nat_of_dec (ds @ [c]) = nat_of_dec ds * 10 + (byte c - 48)"
  by (simp add: nat_of_dec_def)

lemma nat_of_dec_dec_of_nat [simp]: "nat_of_dec (dec_of_nat n) = n"
proof (induction n rule: dec_of_nat.induct)
  case (1 n)
  show ?case
  proof (cases "n < 10")
    case True
    then show ?thesis
      by (subst dec_of_nat.simps) (simp add: nat_of_dec_def byte_digit_char)
  next
    case False
    then have "nat_of_dec (dec_of_nat (n div 10) @ [digit_char (n mod 10)]) = n div 10 * 10 + n mod 10"
      using 1 by (simp only: nat_of_dec_snoc) (simp add: byte_digit_char)
    with False show ?thesis by (subst dec_of_nat.simps) simp
  qed
qed

lemma dec_of_nat_hd: "0 < n \<Longrightarrow> hd (dec_of_nat n) \<noteq> CHR ''0''"
proof (induction n rule: dec_of_nat.induct)
  case (1 n)
  show ?case
  proof (cases "n < 10")
    case True
    have "byte (digit_char n) \<noteq> byte (CHR ''0'')" using True "1.prems" by (simp add: byte_digit_char)
    then have "digit_char n \<noteq> CHR ''0''" by metis
    with True show ?thesis by (subst dec_of_nat.simps) simp
  next
    case False
    then have "hd (dec_of_nat (n div 10)) \<noteq> CHR ''0''" using 1 by simp
    with False show ?thesis by (subst dec_of_nat.simps) (simp add: hd_append)
  qed
qed

lemma dec_of_nat_0: "dec_of_nat 0 = ''0''"
  by (simp add: dec_of_nat.simps digit_char_def char_of_def bit_Suc_0_iff)

end
