(* ===== verification/Backoff.thy ===== *)
theory Backoff
  imports Prelude Complex_Main
begin

text \<open>
  \<open>core/src/backoff.cpp\<close> and \<open>core/include/rommsync/backoff.hpp\<close>: the retry curve, and
  \<open>core/src/call_policy.cpp\<close>, the curve one call builds from its policy.

  Milliseconds are \<open>int\<close>. A \<open>double\<close> is a rational, and every \<open>double\<close> operation of the source
  that can round goes through \<open>dround\<close>, IEEE 754 binary64 round-to-nearest-even (subnormals
  included; no value here comes near the overflow threshold). What the injected \<open>Random\<close> answers
  and what the steady clock reads are inputs of the step that asks for them (\<open>roll_input\<close>).
\<close>

section \<open>binary64 rounding\<close>

definition round_half_even :: "rat \<Rightarrow> int" where
  "round_half_even y =
     (let f = \<lfloor>y\<rfloor>; r = y - of_int f
      in if r < 1/2 then f else if r > 1/2 then f + 1 else if even f then f else f + 1)"

fun quantum_down :: "nat \<Rightarrow> rat \<Rightarrow> rat \<Rightarrow> rat" where
  "quantum_down 0 q x = q"
| "quantum_down (Suc n) q x = (if x / q \<ge> 2 ^ 52 then q else quantum_down n (q / 2) x)"

fun quantum_up :: "nat \<Rightarrow> rat \<Rightarrow> rat \<Rightarrow> rat" where
  "quantum_up 0 q x = q"
| "quantum_up (Suc n) q x = (if x / q < 2 ^ 53 then q else quantum_up n (2 * q) x)"

definition dround_pos :: "rat \<Rightarrow> rat" where
  "dround_pos x =
     (let q = (if x \<ge> 2 ^ 53 then quantum_up 971 1 x else quantum_down 1074 1 x)
      in of_int (round_half_even (x / q)) * q)"

definition dround :: "rat \<Rightarrow> rat" where
  "dround x = (if x < 0 then - dround_pos (- x) else dround_pos x)"

definition dmul :: "rat \<Rightarrow> rat \<Rightarrow> rat" where
  "dmul x y = dround (x * y)"

text \<open>A \<open>double\<close> to integer conversion drops the fraction.\<close>

definition dtrunc :: "rat \<Rightarrow> int" where
  "dtrunc x = (if x < 0 then - \<lfloor>- x\<rfloor> else \<lfloor>x\<rfloor>)"

section \<open>The curve\<close>

record BackoffConfig =
  floor_ms :: int
  cap_ms :: int
  jitter :: rat

definition default_BackoffConfig :: BackoffConfig where
  "default_BackoffConfig = \<lparr>floor_ms = 30000, cap_ms = 300000, jitter = 1/4\<rparr>"

record Backoff =
  bo_config :: BackoffConfig
  bo_state :: u64
  bo_failures :: int
  bo_delay :: int

text \<open>
  One roll's inputs: what the injected \<open>Random\<close> answers (\<open>None\<close> when it is null) and the
  \<open>steady_clock\<close> count the built-in generator seeds itself from.
\<close>

type_synonym roll_input = "rat option \<times> u64"

definition SeedFromClock :: "u64 \<Rightarrow> u64" where
  "SeedFromClock ticks = (if ticks = 0 then 0x9E3779B97F4A7C15 else ticks)"

definition NextBits :: "u64 \<Rightarrow> u64 \<times> u64" where
  "NextBits x0 =
     (let x1 = x0 XOR drop_bit 12 x0;
          x2 = x1 XOR push_bit 25 x1;
          x3 = x2 XOR drop_bit 27 x2
      in (x3 * 0x2545F4914F6CDD1D, x3))"

definition Configure :: "BackoffConfig \<Rightarrow> Backoff \<Rightarrow> Backoff" where
  "Configure config b =
     (let fl = (if floor_ms config < 0 then 0 else floor_ms config);
          cp = (if cap_ms config < fl then fl else cap_ms config)
      in b\<lparr>bo_config := \<lparr>floor_ms = fl, cap_ms = cp, jitter = clamp 0 1 (jitter config)\<rparr>\<rparr>)"

definition make_Backoff :: "BackoffConfig \<Rightarrow> Backoff" where
  "make_Backoff config =
     Configure config
       \<lparr>bo_config = default_BackoffConfig, bo_state = 0, bo_failures = 0, bo_delay = 0\<rparr>"

fun base_loop :: "int \<Rightarrow> nat \<Rightarrow> int \<Rightarrow> int" where
  "base_loop cap 0 base = base"
| "base_loop cap (Suc n) base = (if base < cap then base_loop cap n (base * 2) else base)"

definition Base :: "Backoff \<Rightarrow> int \<Rightarrow> int" where
  "Base b failures =
     (if failures \<le> 0 then 0
      else let base = base_loop (cap_ms (bo_config b)) (nat (failures - 1)) (floor_ms (bo_config b))
           in if base > cap_ms (bo_config b) then cap_ms (bo_config b) else base)"

definition Roll :: "roll_input \<Rightarrow> Backoff \<Rightarrow> rat \<times> Backoff" where
  "Roll i b =
     (case fst i of
        Some r \<Rightarrow> (clamp 0 1 r, b)
      | None \<Rightarrow>
          let seed = (if bo_state b = 0 then SeedFromClock (snd i) else bo_state b);
              (bits, next) = NextBits seed
          in (of_nat (unat (drop_bit 11 bits)) / 2 ^ 53, b\<lparr>bo_state := next\<rparr>))"

definition int_max :: int where "int_max = 2 ^ 31 - 1"

definition Fail :: "roll_input \<Rightarrow> Backoff \<Rightarrow> int \<times> Backoff" where
  "Fail i b =
     (let b1 = (if bo_failures b < int_max then b\<lparr>bo_failures := bo_failures b + 1\<rparr> else b);
          base = Base b1 (bo_failures b1);
          (r, b2) = Roll i b1;
          extra = dtrunc (dmul (dmul (dround (of_int base)) (jitter (bo_config b2))) r);
          d = base + extra
      in (d, b2\<lparr>bo_delay := d\<rparr>))"

definition Succeed :: "Backoff \<Rightarrow> Backoff" where
  "Succeed b = b\<lparr>bo_failures := 0, bo_delay := 0\<rparr>"

section \<open>The policy of one call\<close>

record CallPolicy =
  cp_backoff :: int
  cp_max_backoff :: int
  cp_jitter :: rat

definition BackoffFor :: "CallPolicy \<Rightarrow> Backoff" where
  "BackoffFor policy =
     make_Backoff
       \<lparr>floor_ms = (if cp_backoff policy > cp_max_backoff policy then cp_max_backoff policy
                   else cp_backoff policy),
        cap_ms = cp_max_backoff policy,
        jitter = cp_jitter policy\<rparr>"

text \<open>The wait itself is the caller's; what the program decides is its length.\<close>

definition WaitToRetry :: "roll_input \<Rightarrow> Backoff \<Rightarrow> int \<times> Backoff" where
  "WaitToRetry i b = Fail i b"

section \<open>Rounding: what the bounds need of it\<close>

lemma round_half_even_int [simp]: "round_half_even (of_int k) = k"
  by (simp add: round_half_even_def)

lemma round_half_even_le: "y \<le> of_int k \<Longrightarrow> round_half_even y \<le> k"
proof -
  assume le: "y \<le> of_int k"
  then have f: "\<lfloor>y\<rfloor> \<le> k" by (simp add: floor_le_iff)
  show ?thesis
  proof (cases "\<lfloor>y\<rfloor> = k")
    case True
    with le have "y = of_int k" by (metis le_floor_iff order_antisym order_refl)
    then show ?thesis by simp
  next
    case False
    with f show ?thesis by (auto simp: round_half_even_def Let_def)
  qed
qed

lemma round_half_even_nonneg: "0 \<le> y \<Longrightarrow> 0 \<le> round_half_even y"
  by (auto simp: round_half_even_def Let_def)

lemma quantum_down_power:
  "q = 1 / 2 ^ j \<Longrightarrow>
     \<exists>i \<le> n. quantum_down n q x = 1 / 2 ^ (j + i) \<and> (i = n \<or> x / (1 / 2 ^ (j + i)) \<ge> 2 ^ 52)"
proof (induction n arbitrary: q j)
  case 0
  then show ?case by simp
next
  case (Suc n)
  show ?case
  proof (cases "x / q \<ge> 2 ^ 52")
    case True
    with Suc.prems show ?thesis by (intro exI [of _ 0]) simp
  next
    case False
    from Suc.prems have "q / 2 = 1 / 2 ^ (Suc j)" by simp
    from Suc.IH [OF this] obtain i where "i \<le> n"
      "quantum_down n (q / 2) x = 1 / 2 ^ (Suc j + i)"
      "i = n \<or> x / (1 / 2 ^ (Suc j + i)) \<ge> 2 ^ 52" by blast
    with False show ?thesis by (intro exI [of _ "Suc i"]) simp
  qed
qed

text \<open>The quantum of a non-negative value below \<open>2^53\<close>.\<close>

lemma quantum_small:
  obtains j where "j \<le> 1074" "quantum_down 1074 1 x = 1 / 2 ^ j" "j = 1074 \<or> x \<ge> 2 ^ 52 / 2 ^ j"
  using quantum_down_power [of 1 0 1074 x] by (auto simp: field_simps)

lemma dround_small:
  assumes "0 \<le> x" "x < 2 ^ 53"
  obtains j where "j \<le> 1074" "j = 1074 \<or> x \<ge> 2 ^ 52 / 2 ^ j"
    "dround x = of_int (round_half_even (x * 2 ^ j)) / 2 ^ j"
proof -
  obtain j where j: "j \<le> 1074" "quantum_down 1074 1 x = 1 / 2 ^ j" "j = 1074 \<or> x \<ge> 2 ^ 52 / 2 ^ j"
    by (rule quantum_small)
  have "dround x = of_int (round_half_even (x * 2 ^ j)) / 2 ^ j"
    using assms j(2) by (simp add: dround_def dround_pos_def)
  with j that show thesis by blast
qed

text \<open>
  Rounding never passes a representable value: \<open>k / 2^m\<close> with fewer than 53 significant bits is a
  multiple of the quantum of anything below it.
\<close>

lemma dround_le:
  assumes x: "0 \<le> x" "x \<le> of_int k / 2 ^ m" and k: "k < 2 ^ 53" and m: "m \<le> 1074"
  shows "dround x \<le> of_int k / 2 ^ m"
proof -
  have k0: "0 \<le> (of_int k :: rat)"
  proof (rule ccontr)
    assume "\<not> 0 \<le> (of_int k :: rat)"
    then have "of_int k / (2 ^ m :: rat) < 0" by (simp add: divide_neg_pos not_le)
    with x show False by simp
  qed
  have "of_int k * 1 \<le> of_int k * (2 ^ m :: rat)"
    using k0 by (intro mult_left_mono) auto
  then have "of_int k / (2 ^ m :: rat) \<le> of_int k"
    by (simp add: divide_le_eq)
  moreover have k53: "(of_int k :: rat) < 2 ^ 53"
    using k by (metis of_int_less_iff of_int_numeral of_int_power)
  ultimately have "x < 2 ^ 53" using x by simp
  with x obtain j where j: "j \<le> 1074" "j = 1074 \<or> x \<ge> 2 ^ 52 / 2 ^ j"
    "dround x = of_int (round_half_even (x * 2 ^ j)) / 2 ^ j"
    by (rule_tac dround_small) auto
  have mj: "m \<le> j"
  proof (rule ccontr)
    assume "\<not> m \<le> j"
    then obtain d where d: "m = Suc j + d" by (metis add_Suc less_iff_Suc_add not_le)
    with j m have "(2 :: rat) ^ 52 / 2 ^ j \<le> of_int k / 2 ^ m" using x by auto
    then have "(2 :: rat) ^ 52 * 2 ^ Suc d \<le> of_int k"
      by (simp add: d power_add field_simps)
    moreover have "(2 :: rat) ^ 52 * 2 ^ 1 \<le> 2 ^ 52 * 2 ^ Suc d"
      by (intro mult_left_mono power_increasing) auto
    ultimately have "(2 :: rat) ^ 52 * 2 ^ 1 \<le> of_int k" by (rule order_trans [rotated])
    with k53 show False by simp
  qed
  have "x * 2 ^ j \<le> of_int (k * 2 ^ (j - m))"
  proof -
    have "x * 2 ^ j \<le> of_int k / 2 ^ m * 2 ^ j" using x by (intro mult_right_mono) auto
    also have "\<dots> = of_int k * 2 ^ (j - m)" using mj by (simp add: power_diff)
    finally show ?thesis by simp
  qed
  then have "round_half_even (x * 2 ^ j) \<le> k * 2 ^ (j - m)" by (rule round_half_even_le)
  then have "(of_int (round_half_even (x * 2 ^ j)) :: rat) \<le> of_int (k * 2 ^ (j - m))"
    by (simp only: of_int_le_iff)
  then have "dround x \<le> of_int (k * 2 ^ (j - m)) / 2 ^ j"
    unfolding j(3) by (rule divide_right_mono) simp
  also have "\<dots> = of_int k / 2 ^ m"
  proof -
    have "(2 :: rat) ^ j = 2 ^ (j - m) * 2 ^ m" using mj by (simp flip: power_add)
    then show ?thesis by simp
  qed
  finally show ?thesis .
qed

lemma dround_nonneg:
  assumes "0 \<le> x" "x < 2 ^ 53" shows "0 \<le> dround x"
proof -
  obtain j where j: "dround x = of_int (round_half_even (x * 2 ^ j)) / 2 ^ j"
    by (rule dround_small [OF assms])
  have "0 \<le> round_half_even (x * 2 ^ j)" using assms by (intro round_half_even_nonneg) simp
  then show ?thesis by (simp add: j)
qed

lemma dround_of_int: "0 \<le> k \<Longrightarrow> k < 2 ^ 53 \<Longrightarrow> dround (of_int k) = of_int k"
proof -
  assume k: "0 \<le> k" "k < 2 ^ 53"
  then have "(of_int k :: rat) < of_int (2 ^ 53)" by (simp only: of_int_less_iff)
  with k obtain j where j: "dround (of_int k) = of_int (round_half_even (of_int k * 2 ^ j)) / 2 ^ j"
    using dround_small [of "of_int k :: rat"] by auto
  have "(of_int k * 2 ^ j :: rat) = of_int (k * 2 ^ j)" by simp
  then show ?thesis unfolding j by (simp only: round_half_even_int) simp
qed


lemma dmul_unit_le:
  assumes "0 \<le> x" "0 \<le> y" "y \<le> 1" "x \<le> of_int k" "k < 2 ^ 53"
  shows "0 \<le> dmul x y \<and> dmul x y \<le> of_int k"
proof -
  have "x * y \<le> of_int k * 1" using assms by (intro mult_mono) auto
  moreover have "0 \<le> x * y" using assms by simp
  moreover have "(of_int k :: rat) < of_int (2 ^ 53)" using assms by (simp only: of_int_less_iff)
  ultimately show ?thesis
    using dround_le [of "x * y" k 0] dround_nonneg [of "x * y"] assms by (simp add: dmul_def)
qed

section \<open>The curve's shape\<close>

definition backoff_ok :: "Backoff \<Rightarrow> bool" where
  "backoff_ok b \<longleftrightarrow>
     0 \<le> floor_ms (bo_config b) \<and> floor_ms (bo_config b) \<le> cap_ms (bo_config b) \<and>
     0 \<le> jitter (bo_config b) \<and> jitter (bo_config b) \<le> 1 \<and>
     0 \<le> bo_failures b \<and> bo_failures b \<le> int_max"

lemma Configure_ok [inv_intro]:
  "0 \<le> bo_failures b \<Longrightarrow> bo_failures b \<le> int_max \<Longrightarrow> backoff_ok (Configure c b)"
  by (auto simp: backoff_ok_def Configure_def Let_def clamp_def)

lemma make_Backoff_ok [inv_intro]: "backoff_ok (make_Backoff c)"
  by (auto simp: make_Backoff_def int_max_def intro: Configure_ok)

lemma Succeed_ok [inv_intro]: "backoff_ok b \<Longrightarrow> backoff_ok (Succeed b)"
  by (simp add: backoff_ok_def Succeed_def int_max_def)

lemma Roll_frame:
  "bo_config (snd (Roll i b)) = bo_config b" "bo_failures (snd (Roll i b)) = bo_failures b"
  by (auto simp: Roll_def Let_def split: option.splits prod.splits)

lemma Fail_config [simp]: "bo_config (snd (Fail i b)) = bo_config b"
  by (simp add: Fail_def Let_def split_beta Roll_frame)

lemma Fail_failures: "bo_failures (snd (Fail i b)) = min int_max (bo_failures b + 1) \<or> bo_failures b > int_max"
  by (auto simp: Fail_def Let_def split_beta Roll_frame)

lemma Fail_delay [simp]: "bo_delay (snd (Fail i b)) = fst (Fail i b)"
  by (simp add: Fail_def Let_def split_beta)

lemma Fail_ok [inv_intro]: "backoff_ok b \<Longrightarrow> backoff_ok (snd (Fail i b))"
  by (auto simp: backoff_ok_def Fail_def Let_def split_beta Roll_frame)

lemma Fail_failures_pos: "backoff_ok b \<Longrightarrow> 0 < bo_failures (snd (Fail i b))"
  using Fail_failures [of i b] by (auto simp: backoff_ok_def int_max_def)

text \<open>The doubling loop in closed form: repeated doubling, stopped at the cap.\<close>

lemma base_loop_eq:
  "0 \<le> base \<Longrightarrow> min cap (base_loop cap n base) = min cap (base * 2 ^ n)"
proof (induction n arbitrary: base)
  case 0
  then show ?case by simp
next
  case (Suc n)
  show ?case
  proof (cases "base < cap")
    case True
    with Suc show ?thesis by (simp add: mult.assoc)
  next
    case False
    have "(1 :: int) \<le> 2 ^ Suc n" by (rule one_le_power) simp
    then have "base * 1 \<le> base * 2 ^ Suc n" using Suc.prems by (rule mult_left_mono)
    with False show ?thesis by simp
  qed
qed

lemma Base_eq:
  assumes "backoff_ok b" "0 < n"
  shows "Base b n = min (cap_ms (bo_config b)) (floor_ms (bo_config b) * 2 ^ nat (n - 1))"
  using assms base_loop_eq [of "floor_ms (bo_config b)" "cap_ms (bo_config b)" "nat (n - 1)"]
  by (auto simp: Base_def Let_def backoff_ok_def min_def split: if_splits)

lemma Base_bounds:
  assumes "backoff_ok b" "0 < n"
  shows "floor_ms (bo_config b) \<le> Base b n \<and> Base b n \<le> cap_ms (bo_config b)"
proof -
  have "floor_ms (bo_config b) * 1 \<le> floor_ms (bo_config b) * 2 ^ nat (n - 1)"
    using assms by (intro mult_left_mono) (auto simp: backoff_ok_def)
  with assms show ?thesis by (auto simp: Base_eq) (auto simp: backoff_ok_def)
qed

lemma Base_mono:
  assumes "backoff_ok b" "m \<le> n" shows "Base b m \<le> Base b n"
proof (cases "0 < m")
  case True
  have "floor_ms (bo_config b) * 2 ^ nat (m - 1) \<le> floor_ms (bo_config b) * 2 ^ nat (n - 1)"
    using assms by (intro mult_left_mono power_increasing) (auto simp: backoff_ok_def)
  with True assms show ?thesis by (auto simp: Base_eq)
next
  case False
  then have "Base b m = 0" by (simp add: Base_def)
  then show ?thesis
    using Base_bounds [of b n] assms False by (cases "0 < n") (auto simp: backoff_ok_def Base_def)
qed

section \<open>The built-in generator\<close>

lemma xor_zeroD: "x XOR y = 0 \<Longrightarrow> y = (x :: u64)"
  by (auto simp: bit_eq_iff bit_xor_iff)

lemma unat_drop_bit: "unat (drop_bit n (x :: u64)) = unat x div 2 ^ n"
  by (subst unat_drop_bit_eq) (rule drop_bit_eq_div)

lemma xor_shift_right_zero:
  fixes x :: u64 assumes "x XOR drop_bit n x = 0" "0 < n" shows "x = 0"
proof (rule ccontr)
  assume "x \<noteq> 0"
  then have "0 < unat x" by (simp add: unat_gt_0)
  moreover have "unat x = unat x div 2 ^ n"
    using xor_zeroD [OF assms(1)] unat_drop_bit [of n x] by simp
  moreover have "(1 :: nat) < 2 ^ n" using assms(2) by (metis one_less_numeral_iff one_less_power semiring_norm(76))
  ultimately show False by (metis div_less_dividend less_irrefl)
qed

lemma xor_shift_left_zero:
  fixes x :: u64 assumes "x XOR push_bit 25 x = 0" shows "x = 0"
proof -
  have eq: "push_bit 25 x = x" by (rule xor_zeroD [OF assms])
  then have "push_bit 25 (push_bit 25 (push_bit 25 x)) = x" by simp
  then have "push_bit 75 x = x" by simp
  moreover have "push_bit 75 x = 0" by (rule bit_word_eqI) (simp add: bit_simps)
  ultimately show ?thesis by simp
qed

lemma NextBits_nonzero:
  assumes "x \<noteq> 0" shows "snd (NextBits x) \<noteq> 0"
proof -
  define x1 where "x1 = x XOR drop_bit 12 x"
  define x2 where "x2 = x1 XOR push_bit 25 x1"
  have "x1 \<noteq> 0" using assms xor_shift_right_zero [of x 12] unfolding x1_def by auto
  then have "x2 \<noteq> 0" using xor_shift_left_zero [of x1] unfolding x2_def by blast
  then have "x2 XOR drop_bit 27 x2 \<noteq> 0" using xor_shift_right_zero [of x2 27] by auto
  moreover have "snd (NextBits x) = x2 XOR drop_bit 27 x2"
    unfolding NextBits_def Let_def x1_def x2_def by (simp only: snd_conv)
  ultimately show ?thesis by simp
qed

lemma SeedFromClock_nonzero: "SeedFromClock t \<noteq> 0"
  by (simp add: SeedFromClock_def)

lemma mantissa_bound: "unat (drop_bit 11 (w :: u64)) < 2 ^ 53"
proof -
  have "unat w < 2 ^ 53 * 2 ^ 11" using unsigned_less [of w, where 'a = nat] by simp
  then show ?thesis unfolding unat_drop_bit by (rule less_mult_imp_div_less)
qed

lemma Roll_range: "0 \<le> fst (Roll i b) \<and> fst (Roll i b) \<le> 1"
proof (cases "fst i")
  case None
  have "0 \<le> (of_nat (unat (drop_bit 11 (w :: u64))) :: rat) / 2 ^ 53 \<and>
        (of_nat (unat (drop_bit 11 w)) :: rat) / 2 ^ 53 \<le> 1" for w
  proof -
    have "(of_nat (unat (drop_bit 11 w)) :: rat) \<le> of_nat (2 ^ 53)"
      using mantissa_bound [of w] by (simp only: of_nat_le_iff less_imp_le)
    then show ?thesis by (simp del: of_nat_unat)
  qed
  with None show ?thesis by (simp add: Roll_def Let_def split_beta del: of_nat_unat)
qed (simp add: Roll_def clamp_def)


section \<open>The contract of a retry curve\<close>

text \<open>
  What a retry loop relies on, whatever draws the curve: a failure answers a wait inside a band,
  failures are counted, and a success forgets them. \<open>WaitToRetry\<close> and the scheduler are clients.
\<close>

locale retry_curve =
  fixes fail :: "'i \<Rightarrow> 'b \<Rightarrow> int \<times> 'b"
    and succeed :: "'b \<Rightarrow> 'b"
    and failures :: "'b \<Rightarrow> int"
    and delay :: "'b \<Rightarrow> int"
    and lo :: "'b \<Rightarrow> int"
    and inv :: "'b \<Rightarrow> bool"
  assumes fail_inv: "inv b \<Longrightarrow> inv (snd (fail i b))"
    and succeed_inv: "inv b \<Longrightarrow> inv (succeed b)"
    and fail_delay: "inv b \<Longrightarrow> delay (snd (fail i b)) = fst (fail i b)"
    and fail_lo: "inv b \<Longrightarrow> lo b \<le> fst (fail i b)"
    and fail_same_lo: "inv b \<Longrightarrow> lo (snd (fail i b)) = lo b"
    and fail_counts: "inv b \<Longrightarrow> failures b < int_max \<Longrightarrow> failures (snd (fail i b)) = failures b + 1"
    and fail_saturates: "inv b \<Longrightarrow> int_max \<le> failures b \<Longrightarrow> failures (snd (fail i b)) = failures b"
    and succeed_clears: "inv b \<Longrightarrow> failures (succeed b) = 0 \<and> delay (succeed b) = 0"
    and lo_nonneg: "inv b \<Longrightarrow> 0 \<le> lo b"
begin

primrec fails :: "'i list \<Rightarrow> 'b \<Rightarrow> 'b" where
  "fails [] b = b"
| "fails (i # is) b = fails is (snd (fail i b))"

lemma fails_inv: "inv b \<Longrightarrow> inv (fails is b)"
  by (induction "is" arbitrary: b) (auto intro: fail_inv)

lemma fails_count:
  "inv b \<Longrightarrow> failures b \<le> int_max \<Longrightarrow> failures (fails is b) = min int_max (failures b + int (length is))"
proof (induction "is" arbitrary: b)
  case Nil
  then show ?case by simp
next
  case (Cons i "is")
  show ?case
  proof (cases "failures b < int_max")
    case True
    with Cons show ?thesis by (simp add: fail_counts fail_inv)
  next
    case False
    with Cons show ?thesis by (simp add: fail_saturates fail_inv)
  qed
qed

lemma fails_lo: "inv b \<Longrightarrow> lo (fails is b) = lo b"
  by (induction "is" arbitrary: b) (auto simp: fail_same_lo fail_inv)

lemma wait_nonneg: "inv b \<Longrightarrow> 0 \<le> fst (fail i b)"
  using fail_lo lo_nonneg order_trans by blast

text \<open>Every wait of a run of failures respects the floor the run started with.\<close>

lemma fails_wait: "inv b \<Longrightarrow> lo b \<le> fst (fail i (fails is b))"
  using fail_lo [OF fails_inv] fails_lo by metis

end

lemma Fail_split:
  obtains r where "fst (Fail i b) =
      Base b (min int_max (bo_failures b + 1)) +
      dtrunc (dmul (dmul (dround (of_int (Base b (min int_max (bo_failures b + 1)))))
        (jitter (bo_config b))) r)" "0 \<le> r" "r \<le> 1" | "bo_failures b > int_max"
proof (cases "bo_failures b > int_max")
  case False
  define b1 where "b1 = (if bo_failures b < int_max then b\<lparr>bo_failures := bo_failures b + 1\<rparr> else b)"
  have f: "bo_failures b1 = min int_max (bo_failures b + 1)" "bo_config b1 = bo_config b"
    using False by (auto simp: b1_def)
  have B: "Base b1 n = Base b n" for n unfolding Base_def f ..
  have "fst (Fail i b) = Base b1 (bo_failures b1) +
      dtrunc (dmul (dmul (dround (of_int (Base b1 (bo_failures b1)))) (jitter (bo_config b1)))
        (fst (Roll i b1)))"
    by (simp add: Fail_def Let_def split_beta Roll_frame flip: b1_def)
  with that(1) Roll_range [of i b1] show thesis by (simp add: f B)
qed (rule that)

text \<open>One failure's wait: at least the curve, at most twice it.\<close>

lemma Fail_band:
  assumes ok: "backoff_ok b" and cap: "cap_ms (bo_config b) < 2 ^ 53"
  defines "n \<equiv> min int_max (bo_failures b + 1)"
  shows "Base b n \<le> fst (Fail i b) \<and> fst (Fail i b) \<le> 2 * Base b n"
proof -
  let ?B = "Base b n" and ?j = "jitter (bo_config b)"
  have n: "0 < n" using ok by (auto simp: n_def int_max_def backoff_ok_def)
  have B: "0 \<le> ?B" "?B < 2 ^ 53"
    using Base_bounds [OF ok n] ok cap by (auto simp: backoff_ok_def)
  obtain r where r: "fst (Fail i b) = ?B + dtrunc (dmul (dmul (dround (of_int ?B)) ?j) r)" "0 \<le> r" "r \<le> 1"
    by (rule Fail_split [of i b]) (use ok in \<open>auto simp: n_def backoff_ok_def\<close>)
  have j: "0 \<le> ?j" "?j \<le> 1" using ok by (auto simp: backoff_ok_def)
  have "0 \<le> dmul (of_int ?B) ?j \<and> dmul (of_int ?B) ?j \<le> of_int ?B"
    using dmul_unit_le [of "of_int ?B" ?j ?B] B j by simp
  then have "0 \<le> dmul (dmul (of_int ?B) ?j) r \<and> dmul (dmul (of_int ?B) ?j) r \<le> of_int ?B"
    using dmul_unit_le [of "dmul (of_int ?B) ?j" r ?B] B r by simp
  then have "0 \<le> dtrunc (dmul (dmul (of_int ?B) ?j) r) \<and> dtrunc (dmul (dmul (of_int ?B) ?j) r) \<le> ?B"
    by (auto simp: dtrunc_def floor_le_iff)
  then show ?thesis using B by (simp add: r(1) dround_of_int)
qed

text \<open>The invariant a curve keeps when its cap is one a \<open>double\<close> holds exactly.\<close>

definition curve_ok :: "Backoff \<Rightarrow> bool" where
  "curve_ok b \<longleftrightarrow> backoff_ok b \<and> cap_ms (bo_config b) < 2 ^ 53"

interpretation bo: retry_curve Fail Succeed bo_failures bo_delay "\<lambda>b. floor_ms (bo_config b)" curve_ok
proof
  fix b i assume ok: "curve_ok b"
  show "curve_ok (snd (Fail i b))" "curve_ok (Succeed b)"
    using ok by (auto simp: curve_ok_def intro: inv_intro) (simp add: Succeed_def)
  show "bo_failures (Succeed b) = 0 \<and> bo_delay (Succeed b) = 0" by (simp add: Succeed_def)
  have "0 < min int_max (bo_failures b + 1)"
    using ok by (auto simp: curve_ok_def backoff_ok_def int_max_def)
  then show "floor_ms (bo_config b) \<le> fst (Fail i b)"
    using Fail_band [of b i] Base_bounds [of b "min int_max (bo_failures b + 1)"] ok
    by (auto simp: curve_ok_def)
qed (use Fail_failures in \<open>auto simp: curve_ok_def backoff_ok_def Fail_def Let_def split_beta Roll_frame\<close>)

lemma make_Backoff_curve_ok [inv_intro]:
  "cap_ms c < 2 ^ 53 \<Longrightarrow> floor_ms c < 2 ^ 53 \<Longrightarrow> curve_ok (make_Backoff c)"
  using make_Backoff_ok [of c] by (auto simp: curve_ok_def make_Backoff_def Configure_def Let_def)


section \<open>Properties\<close>

lemma fails_fold: "bo.fails is b = fold (\<lambda>i b. snd (Fail i b)) is b"
  by (induction "is" arbitrary: b) auto

lemma fails_config: "bo_config (fold (\<lambda>i b. snd (Fail i b)) is b) = bo_config b"
  by (induction "is" arbitrary: b) auto

lemma make_Backoff_config:
  "bo_config (make_Backoff c) =
     \<lparr>floor_ms = max 0 (floor_ms c), cap_ms = max (max 0 (floor_ms c)) (cap_ms c),
      jitter = clamp 0 1 (jitter c)\<rparr>"
  "bo_failures (make_Backoff c) = 0"
  by (auto simp: make_Backoff_def Configure_def Let_def)

text \<open>The wait after the \<open>n\<close>-th consecutive failure of a curve built from any configuration
  whose floor and cap a \<open>double\<close> holds is at least the doubled floor capped at the cap, and at
  most twice that: the jitter only goes upward, never under the floor, and the doubling never
  overflows or passes the cap.\<close>

theorem backoff_wait_band:
  assumes "cap_ms c < 2 ^ 53" "floor_ms c < 2 ^ 53" "length is < nat int_max"
  shows "let b = fold (\<lambda>i b. snd (Fail i b)) is (make_Backoff c);
             lo = max 0 (floor_ms c);
             base = min (max lo (cap_ms c)) (lo * 2 ^ length is)
         in base \<le> fst (Fail i b) \<and> fst (Fail i b) \<le> 2 * base \<and>
            bo_failures (snd (Fail i b)) = int (length is) + 1"
proof -
  define b where "b = fold (\<lambda>i b. snd (Fail i b)) is (make_Backoff c)"
  have ok0: "curve_ok (make_Backoff c)" using assms by (intro inv_intro)
  then have ok: "curve_ok b" using bo.fails_inv unfolding b_def fails_fold by blast
  have lt: "int (length is) < int_max" using assms(3) by simp
  have fl: "bo_failures b = int (length is)"
    using bo.fails_count [OF ok0, of "is"] lt unfolding b_def fails_fold
    by (simp add: make_Backoff_config int_max_def)
  have cfg: "bo_config b = bo_config (make_Backoff c)" unfolding b_def by (rule fails_config)
  have "Base b (int (length is) + 1) =
      min (max (max 0 (floor_ms c)) (cap_ms c)) (max 0 (floor_ms c) * 2 ^ length is)"
    using Base_eq [of b "int (length is) + 1"] ok by (simp add: curve_ok_def cfg make_Backoff_config)
  moreover have "bo_failures (snd (Fail i b)) = int (length is) + 1"
    using bo.fail_counts [OF ok, of i] lt fl by simp
  moreover have "min int_max (bo_failures b + 1) = int (length is) + 1"
    using fl lt by simp
  ultimately show ?thesis
    using Fail_band [of b i] ok unfolding b_def [symmetric] curve_ok_def by (simp add: Let_def)
qed

theorem backoff_wait_band_witness:
  "let b = fold (\<lambda>i b. snd (Fail i b)) [(Some (1/2), 0), (None, 7)] (make_Backoff default_BackoffConfig);
       lo = max 0 (floor_ms default_BackoffConfig);
       base = min (max lo (cap_ms default_BackoffConfig)) (lo * 2 ^ length [(Some (1/2 :: rat), 0 :: u64), (None, 7)])
   in base \<le> fst (Fail (Some 1, 0) b) \<and> fst (Fail (Some 1, 0) b) \<le> 2 * base \<and>
      bo_failures (snd (Fail (Some 1, 0) b)) =
        int (length [(Some (1/2 :: rat), 0 :: u64), (None, 7)]) + 1"
  by (rule backoff_wait_band) (simp_all add: default_BackoffConfig_def int_max_def)

text \<open>Whatever the injected source answers, a roll is in \<open>[0,1]\<close>; the built-in xorshift64*
  generator answers strictly below one and never falls into its degenerate zero state.\<close>

theorem backoff_roll_range:
  "0 \<le> fst (Roll i b) \<and> fst (Roll i b) \<le> 1 \<and>
   fst (Roll (None, t) b) < 1 \<and> bo_state (snd (Roll (None, t) b)) \<noteq> 0"
proof -
  define seed where "seed = (if bo_state b = 0 then SeedFromClock t else bo_state b)"
  have nz: "snd (NextBits seed) \<noteq> 0"
    by (rule NextBits_nonzero) (simp add: seed_def SeedFromClock_nonzero)
  have "(of_nat (unat (drop_bit 11 (fst (NextBits seed)))) :: rat) < of_nat (2 ^ 53)"
    using mantissa_bound by (simp only: of_nat_less_iff)
  moreover have "Roll (None, t) b =
      (of_nat (unat (drop_bit 11 (fst (NextBits seed)))) / 2 ^ 53, b\<lparr>bo_state := snd (NextBits seed)\<rparr>)"
    by (simp add: Roll_def Let_def split_beta seed_def)
  ultimately have "fst (Roll (None, t) b) < 1 \<and> bo_state (snd (Roll (None, t) b)) \<noteq> 0"
    using nz by (simp del: of_nat_unat)
  with Roll_range [of i b] show ?thesis by simp
qed

end
