(* ===== verification/AtomicFile.thy ===== *)
theory AtomicFile
  imports Prelude
begin

text \<open>
  \<open>core/src/atomic_file.cpp\<close> and \<open>core/src/disk.cpp\<close>: every byte the engine puts on the card. The
  card is a map from paths to files; what it answers to each call (refusals, short writes) is a list
  that is part of the state, so a theorem over every list is a theorem over every card. Every state the
  card is left in between two calls is kept in \<open>seen\<close>: a power cut leaves the card as one of them,
  with whatever it made of the bytes nothing synced.
\<close>

section \<open>The card\<close>

text \<open>The \<open>errno\<close> values the code tells apart.\<close>

datatype Errno = ENOENT | ENOTDIR | ENOSPC | EFBIG | Errno_other int

text \<open>What the card answers to one call: it does it, refuses it, or takes only the first bytes of it.\<close>

datatype CardAnswer = Does | Refuses Errno | TakesOnly nat Errno

record File =
  data :: bytes
  on_card :: bool

record Card =
  files :: "bytes \<rightharpoonup> File"
  seen :: "(bytes \<rightharpoonup> File) list"
  answers :: "CardAnswer list"
  rename_replaces :: bool
  file_sync :: bool

text \<open>\<open>rename_replaces\<close>: POSIX's rename replaces its destination, Horizon's refuses one that exists.
  \<open>file_sync\<close>: whether \<open>main\<close> installed a \<open>FileSync\<close> hook.\<close>

definition next_answer :: "Card \<Rightarrow> CardAnswer \<times> Card" where
  "next_answer w = (case answers w of [] \<Rightarrow> (Does, w) | a # as \<Rightarrow> (a, w\<lparr>answers := as\<rparr>))"

definition leave :: "(bytes \<rightharpoonup> File) \<Rightarrow> Card \<Rightarrow> Card" where
  "leave fs w = w\<lparr>files := fs, seen := fs # seen w\<rparr>"

text \<open>\<open>Stdio::Open\<close> with \<open>"wb"\<close>.\<close>

definition OpenForWriting :: "bytes \<Rightarrow> Card \<Rightarrow> Errno option \<times> Card" where
  "OpenForWriting path w =
     (case next_answer w of
        (Refuses e, w1) \<Rightarrow> (Some e, w1)
      | (_, w1) \<Rightarrow> (None, leave ((files w1)(path \<mapsto> \<lparr>data = [], on_card = False\<rparr>)) w1))"

definition appended :: "bytes \<Rightarrow> bytes \<Rightarrow> (bytes \<rightharpoonup> File) \<Rightarrow> (bytes \<rightharpoonup> File)" where
  "appended path d fs =
     (case fs path of None \<Rightarrow> fs
      | Some f \<Rightarrow> fs(path \<mapsto> \<lparr>data = data f @ d, on_card = False\<rparr>))"

text \<open>\<open>Stdio::Write\<close>: the bytes taken, and the \<open>errno\<close> a short write leaves.\<close>

definition Write :: "bytes \<Rightarrow> bytes \<Rightarrow> Card \<Rightarrow> (nat \<times> Errno option) \<times> Card" where
  "Write path d w =
     (case next_answer w of
        (Does, w1) \<Rightarrow> ((length d, None), leave (appended path d (files w1)) w1)
      | (Refuses e, w1) \<Rightarrow> ((0, Some e), w1)
      | (TakesOnly n e, w1) \<Rightarrow>
          ((length (take n d), if n < length d then Some e else None),
           leave (appended path (take n d) (files w1)) w1))"

text \<open>\<open>fflush\<close> and \<open>fclose\<close>: whether they said zero, and the \<open>errno\<close> if not.\<close>

definition Flush :: "Card \<Rightarrow> Errno option \<times> Card" where
  "Flush w = (case next_answer w of (Does, w1) \<Rightarrow> (None, w1)
     | (Refuses e, w1) \<Rightarrow> (Some e, w1) | (TakesOnly _ e, w1) \<Rightarrow> (Some e, w1))"

definition Close :: "Card \<Rightarrow> bool \<times> Card" where
  "Close w = (case next_answer w of (Does, w1) \<Rightarrow> (True, w1) | (_, w1) \<Rightarrow> (False, w1))"

text \<open>\<open>Stdio::Sync\<close>: with no hook the answer is yes and nothing is promised.\<close>

definition Sync :: "bytes \<Rightarrow> Card \<Rightarrow> bool \<times> Card" where
  "Sync path w =
     (if \<not> file_sync w then (True, w)
      else case next_answer w of
        (Does, w1) \<Rightarrow>
          (True, leave ((files w1)(path := map_option (\<lambda>f. f\<lparr>on_card := True\<rparr>) (files w1 path))) w1)
      | (_, w1) \<Rightarrow> (False, w1))"

text \<open>\<open>Stdio::Rename\<close> (true: it answered zero) and \<open>Stdio::Remove\<close>.\<close>

definition Rename :: "bytes \<Rightarrow> bytes \<Rightarrow> Card \<Rightarrow> bool \<times> Card" where
  "Rename from to w =
     (case next_answer w of
        (Does, w1) \<Rightarrow>
          if files w1 from = None \<or> (files w1 to \<noteq> None \<and> \<not> rename_replaces w1) then (False, w1)
          else (True, leave ((files w1)(from := None, to := files w1 from)) w1)
      | (_, w1) \<Rightarrow> (False, w1))"

definition Remove :: "bytes \<Rightarrow> Card \<Rightarrow> Card" where
  "Remove path w =
     (case next_answer w of
        (Does, w1) \<Rightarrow> leave ((files w1)(path := None)) w1
      | (_, w1) \<Rightarrow> w1)"

text \<open>A file that exists and refuses to open reads as absent.\<close>

definition Exists :: "bytes \<Rightarrow> Card \<Rightarrow> bool \<times> Card" where
  "Exists path w =
     (case next_answer w of (Does, w1) \<Rightarrow> (files w1 path \<noteq> None, w1) | (_, w1) \<Rightarrow> (False, w1))"

text \<open>\<open>fopen\<close> for reading, and one \<open>fread\<close>: whether it failed (\<open>ferror\<close>).\<close>

definition OpenForReading :: "bytes \<Rightarrow> Card \<Rightarrow> (Errno + bytes) \<times> Card" where
  "OpenForReading path w =
     (case next_answer w of
        (Does, w1) \<Rightarrow> ((case files w1 path of None \<Rightarrow> Inl ENOENT | Some f \<Rightarrow> Inr (data f)), w1)
      | (Refuses e, w1) \<Rightarrow> (Inl e, w1)
      | (TakesOnly _ e, w1) \<Rightarrow> (Inl e, w1))"

definition ReadFails :: "Card \<Rightarrow> bool \<times> Card" where
  "ReadFails w = (case next_answer w of (Does, w1) \<Rightarrow> (False, w1) | (_, w1) \<Rightarrow> (True, w1))"

section \<open>Why the card refused\<close>

datatype Refusal = Refusal_kFull | Refusal_kFileTooLarge | Refusal_kRefused

fun RefusalOf :: "Errno \<Rightarrow> Refusal" where
  "RefusalOf ENOSPC = Refusal_kFull"
| "RefusalOf EFBIG = Refusal_kFileTooLarge"
| "RefusalOf _ = Refusal_kRefused"

fun Explain :: "Refusal \<Rightarrow> bytes" where
  "Explain Refusal_kFull = ''the card is full''"
| "Explain Refusal_kFileTooLarge = ''the file is larger than the card's format allows in one file''"
| "Explain Refusal_kRefused = ''the card refused the write''"

section \<open>Writing\<close>

datatype WriteError = WriteError_kNone | WriteError_kOpenFailed | WriteError_kWriteFailed
  | WriteError_kCommitFailed

record WriteResult =
  wr_error :: WriteError
  wr_message :: bytes
  wr_name_durable :: bool

definition wr_ok :: "WriteResult \<Rightarrow> bool" where
  "wr_ok r \<longleftrightarrow> wr_error r = WriteError_kNone"

definition wr_failed :: "WriteError \<Rightarrow> bytes \<Rightarrow> WriteResult" where
  "wr_failed e m = \<lparr>wr_error = e, wr_message = m, wr_name_durable = True\<rparr>"

fun WriteError_ToString :: "WriteError \<Rightarrow> bytes" where
  "WriteError_ToString WriteError_kNone = ''none''"
| "WriteError_ToString WriteError_kOpenFailed = ''open_failed''"
| "WriteError_ToString WriteError_kWriteFailed = ''write_failed''"
| "WriteError_ToString WriteError_kCommitFailed = ''commit_failed''"

text \<open>\<open>find_last_of('/')\<close> and the part before it.\<close>

definition DirectoryOf :: "bytes \<Rightarrow> bytes" where
  "DirectoryOf path =
     (if CHR ''/'' \<notin> set path then []
      else let d = rev (drop 1 (dropWhile (\<lambda>c. c \<noteq> CHR ''/'') (rev path)))
           in if d = [] then ''/'' else d)"

definition TempPathFor :: "bytes \<Rightarrow> bytes" where
  "TempPathFor path = path @ ''.tmp''"

definition PreviousPathFor :: "bytes \<Rightarrow> bytes" where
  "PreviousPathFor path = path @ ''.old''"

definition Describe_path :: "bytes \<Rightarrow> bytes \<Rightarrow> bytes" where
  "Describe_path path what = path @ '': '' @ what"

definition Incomplete :: "bool \<Rightarrow> Errno option \<Rightarrow> bytes" where
  "Incomplete card_refused e =
     ''could not be written completely'' @
     (if card_refused
      then '': '' @ Explain (case e of None \<Rightarrow> Refusal_kRefused | Some n \<Rightarrow> RefusalOf n) else [])"

fun Absent :: "Errno \<Rightarrow> bool" where
  "Absent ENOENT = True"
| "Absent ENOTDIR = True"
| "Absent _ = False"

definition CommitStaged :: "bytes \<Rightarrow> bytes \<Rightarrow> Card \<Rightarrow> WriteResult \<times> Card" where
  "CommitStaged staged path w =
     (let (there, w) = Exists staged w in
      if \<not> there
      then (wr_failed WriteError_kOpenFailed (Describe_path staged ''is not there to commit''), w)
      else
        let previous = PreviousPathFor path;
            (replacing, w) = Exists path w;
            (aside, w) = (if replacing then Rename path previous (Remove previous w) else (True, w))
        in
        if \<not> aside
        then (wr_failed WriteError_kCommitFailed
                (Describe_path path (''could not be moved aside to '' @ previous)), Remove staged w)
        else
          let (published, w) = Rename staged path w in
          if \<not> published
          then
            let (restored, w) = (if replacing then Rename previous path w else (True, w));
                detail = ''could not be replaced by '' @ staged @
                  (if \<not> restored
                   then '', and the previous record could not be put back -- it is at '' @ previous
                   else [])
            in (wr_failed WriteError_kCommitFailed (Describe_path path detail), Remove staged w)
          else
            let w = Remove previous w;
                directory = DirectoryOf path;
                (durable, w) = (if directory \<noteq> [] then Sync directory w else (True, w))
            in (\<lparr>wr_error = WriteError_kNone, wr_message = [], wr_name_durable = durable\<rparr>, w))"

text \<open>\<open>WriteStaged\<close>: \<open>write\<close> puts the whole record into the temp file, and says whether every byte went
  and what \<open>errno\<close> it left.\<close>

definition WriteStaged ::
  "bytes \<Rightarrow> (bytes \<Rightarrow> Card \<Rightarrow> (bool \<times> Errno option) \<times> Card) \<Rightarrow> Card \<Rightarrow> WriteResult \<times> Card" where
  "WriteStaged path write w =
     (let temp = TempPathFor path;
          (open_error, w) = OpenForWriting temp w
      in
      if open_error \<noteq> None
      then (wr_failed WriteError_kOpenFailed
              (Describe_path temp ''could not be created (does the directory exist?)''), w)
      else
        let ((written, write_errno), w) = write temp w;
            (flush_errno, w) = (if written then Flush w else (write_errno, w));
            flushed = (written \<and> flush_errno = None);
            refused = (if flushed then None else flush_errno);
            (closed, w) = Close w;
            (synced, w) = (if flushed \<and> closed then Sync temp w else (False, w))
        in
        if \<not> flushed \<or> \<not> closed \<or> \<not> synced
        then (wr_failed WriteError_kWriteFailed
                (Describe_path temp (Incomplete (\<not> flushed) refused)), Remove temp w)
        else CommitStaged temp path w)"

definition write_contents :: "bytes \<Rightarrow> bytes \<Rightarrow> Card \<Rightarrow> (bool \<times> Errno option) \<times> Card" where
  "write_contents contents temp w =
     (let ((n, e), w) = Write temp contents w in ((n = length contents, e), w))"

text \<open>The second overload: \<open>next\<close> is the list of the pieces it hands out.\<close>

fun write_pieces :: "bytes list \<Rightarrow> bytes \<Rightarrow> Card \<Rightarrow> (bool \<times> Errno option) \<times> Card" where
  "write_pieces [] temp w = ((True, None), w)"
| "write_pieces (piece # pieces) temp w =
     (let ((n, e), w) = Write temp piece w in
      if n \<noteq> length piece then ((False, e), w) else write_pieces pieces temp w)"

definition WriteAtomically :: "bytes \<Rightarrow> bytes \<Rightarrow> Card \<Rightarrow> WriteResult \<times> Card" where
  "WriteAtomically path contents = WriteStaged path (write_contents contents)"

definition WriteAtomically_pieces :: "bytes \<Rightarrow> bytes list \<Rightarrow> Card \<Rightarrow> WriteResult \<times> Card" where
  "WriteAtomically_pieces path pieces = WriteStaged path (write_pieces pieces)"

section \<open>Copying\<close>

datatype CopyError = CopyError_kNone | CopyError_kSourceMissing | CopyError_kSourceUnreadable
  | CopyError_kOpenFailed | CopyError_kWriteFailed | CopyError_kCommitFailed

fun CopyError_ToString :: "CopyError \<Rightarrow> bytes" where
  "CopyError_ToString CopyError_kNone = ''none''"
| "CopyError_ToString CopyError_kSourceMissing = ''source_missing''"
| "CopyError_ToString CopyError_kSourceUnreadable = ''source_unreadable''"
| "CopyError_ToString CopyError_kOpenFailed = ''open_failed''"
| "CopyError_ToString CopyError_kWriteFailed = ''write_failed''"
| "CopyError_ToString CopyError_kCommitFailed = ''commit_failed''"

record CopyResult =
  cr_error :: CopyError
  cr_message :: bytes
  bytes_copied :: nat
  cr_name_durable :: bool

definition cr_ok :: "CopyResult \<Rightarrow> bool" where
  "cr_ok r \<longleftrightarrow> cr_error r = CopyError_kNone"

definition cr_failed :: "CopyError \<Rightarrow> bytes \<Rightarrow> CopyResult" where
  "cr_failed e m = \<lparr>cr_error = e, cr_message = m, bytes_copied = 0, cr_name_durable = True\<rparr>"

text \<open>What the read loop leaves: a read that failed, or a short write and its \<open>errno\<close>, and the bytes
  that went.\<close>

record CopyLoop =
  read_failed :: bool
  short_write :: bool
  cl_refused :: "Errno option"
  copied :: nat

function copy_loop :: "bytes \<Rightarrow> bytes \<Rightarrow> nat \<Rightarrow> Card \<Rightarrow> CopyLoop \<times> Card" where
  "copy_loop temp rest done w =
     (let (failed, w) = ReadFails w in
      if failed then (\<lparr>read_failed = True, short_write = False, cl_refused = None, copied = done\<rparr>, w)
      else if rest = []
      then (\<lparr>read_failed = False, short_write = False, cl_refused = None, copied = done\<rparr>, w)
      else
        let buffer = take 4096 rest;
            ((n, e), w) = Write temp buffer w
        in if n \<noteq> length buffer
           then (\<lparr>read_failed = False, short_write = True, cl_refused = e, copied = done\<rparr>, w)
           else copy_loop temp (drop 4096 rest) (done + length buffer) w)"
  by pat_completeness auto
termination by (relation "measure (\<lambda>(_, rest, _). length rest)") auto

declare copy_loop.simps [simp del]

definition CopyStaged :: "bytes \<Rightarrow> bytes \<Rightarrow> Card \<Rightarrow> CopyResult \<times> Card" where
  "CopyStaged from to w =
     (let (source, w) = OpenForReading from w in
      case source of
        Inl e \<Rightarrow>
          (if Absent e then cr_failed CopyError_kSourceMissing (Describe_path from ''does not exist'')
           else cr_failed CopyError_kSourceUnreadable (Describe_path from ''could not be opened''), w)
      | Inr d \<Rightarrow>
          let temp = TempPathFor to;
              (open_error, w) = OpenForWriting temp w
          in
          if open_error \<noteq> None
          then (cr_failed CopyError_kOpenFailed
                  (Describe_path temp ''could not be created (does the directory exist?)''), w)
          else
            let (l, w) = copy_loop temp d 0 w;
                (flush_errno, w) = Flush w;
                flushed = (flush_errno = None);
                refused = (if \<not> short_write l \<and> \<not> flushed then flush_errno else cl_refused l);
                (closed, w) = Close w
            in
            if read_failed l
            then (cr_failed CopyError_kSourceUnreadable
                    (Describe_path from ''could not be read to the end''), Remove temp w)
            else
              let (synced, w) =
                    (if \<not> short_write l \<and> flushed \<and> closed then Sync temp w else (False, w))
              in
              if short_write l \<or> \<not> flushed \<or> \<not> closed \<or> \<not> synced
              then (cr_failed CopyError_kWriteFailed
                      (Describe_path temp (Incomplete (short_write l \<or> \<not> flushed) refused)),
                    Remove temp w)
              else (\<lparr>cr_error = CopyError_kNone, cr_message = [], bytes_copied = copied l,
                     cr_name_durable = True\<rparr>, w))"

definition CopyAtomically :: "bytes \<Rightarrow> bytes \<Rightarrow> Card \<Rightarrow> CopyResult \<times> Card" where
  "CopyAtomically from to w =
     (let (result, w) = CopyStaged from to w in
      if \<not> cr_ok result then (result, w)
      else
        let (committed, w) = CommitStaged (TempPathFor to) to w in
        if \<not> wr_ok committed
        then (cr_failed (if wr_error committed = WriteError_kOpenFailed then CopyError_kOpenFailed
                         else CopyError_kCommitFailed) (wr_message committed), w)
        else (result\<lparr>cr_name_durable := wr_name_durable committed\<rparr>, w))"

section \<open>Reading\<close>

datatype ReadError = ReadError_kNone | ReadError_kMissing | ReadError_kUnreadable

fun ReadError_ToString :: "ReadError \<Rightarrow> bytes" where
  "ReadError_ToString ReadError_kNone = ''none''"
| "ReadError_ToString ReadError_kMissing = ''missing''"
| "ReadError_ToString ReadError_kUnreadable = ''unreadable''"

record ReadResult =
  rr_contents :: bytes
  rr_error :: ReadError
  rr_message :: bytes

definition rr_ok :: "ReadResult \<Rightarrow> bool" where
  "rr_ok r \<longleftrightarrow> rr_error r = ReadError_kNone"

text \<open>The \<open>fread\<close> loop of \<open>ReadFile\<close>: what arrived, and whether it failed.\<close>

function read_loop :: "nat \<Rightarrow> bytes \<Rightarrow> bytes \<Rightarrow> Card \<Rightarrow> (bytes \<times> bool) \<times> Card" where
  "read_loop chunk rest got w =
     (let (failed, w) = ReadFails w in
      if failed then ((got, True), w)
      else if rest = [] \<or> chunk = 0 then ((got, False), w)
      else read_loop chunk (drop chunk rest) (got @ take chunk rest) w)"
  by pat_completeness auto
termination by (relation "measure (\<lambda>(_, rest, _). length rest)") auto

declare read_loop.simps [simp del]

definition ReadFile :: "bytes \<Rightarrow> Card \<Rightarrow> ReadResult \<times> Card" where
  "ReadFile path w =
     (let (source, w) = OpenForReading path w in
      case source of
        Inl e \<Rightarrow>
          (if Absent e
           then \<lparr>rr_contents = [], rr_error = ReadError_kMissing,
                  rr_message = Describe_path path ''does not exist''\<rparr>
           else \<lparr>rr_contents = [], rr_error = ReadError_kUnreadable,
                  rr_message = Describe_path path ''could not be opened''\<rparr>, w)
      | Inr d \<Rightarrow>
          let ((got, failed), w) = read_loop 512 d [] w in
          (if failed
           then \<lparr>rr_contents = [], rr_error = ReadError_kUnreadable,
                  rr_message = Describe_path path ''could not be read''\<rparr>
           else \<lparr>rr_contents = got, rr_error = ReadError_kNone, rr_message = []\<rparr>, w))"

datatype BoundedRead = BoundedRead_kOk | BoundedRead_kMissing | BoundedRead_kUnreadable
  | BoundedRead_kTooLarge

fun BoundedRead_ToString :: "BoundedRead \<Rightarrow> bytes" where
  "BoundedRead_ToString BoundedRead_kOk = ''ok''"
| "BoundedRead_ToString BoundedRead_kMissing = ''missing''"
| "BoundedRead_ToString BoundedRead_kUnreadable = ''unreadable''"
| "BoundedRead_ToString BoundedRead_kTooLarge = ''too_large''"

text \<open>The loop of \<open>ReadBounded\<close>: \<open>None\<close> once the bound is passed.\<close>

function bounded_loop :: "nat \<Rightarrow> bytes \<Rightarrow> bytes \<Rightarrow> Card \<Rightarrow> (bytes option \<times> bool) \<times> Card" where
  "bounded_loop limit rest got w =
     (let (failed, w) = ReadFails w in
      if failed then ((Some got, True), w)
      else if rest = [] then ((Some got, False), w)
      else if length got + length (take 4096 rest) > limit then ((None, False), w)
      else bounded_loop limit (drop 4096 rest) (got @ take 4096 rest) w)"
  by pat_completeness auto
termination by (relation "measure (\<lambda>(_, rest, _). length rest)") auto

declare bounded_loop.simps [simp del]

text \<open>The answer and \<open>*out\<close>, with no \<open>past_limit\<close> reader.\<close>

definition ReadBounded :: "bytes \<Rightarrow> nat \<Rightarrow> Card \<Rightarrow> (BoundedRead \<times> bytes) \<times> Card" where
  "ReadBounded path limit w =
     (let (source, w) = OpenForReading path w in
      case source of
        Inl e \<Rightarrow> ((if Absent e then BoundedRead_kMissing else BoundedRead_kUnreadable, []), w)
      | Inr d \<Rightarrow>
          let ((got, failed), w) = bounded_loop limit d [] w in
          (case got of
             None \<Rightarrow> ((BoundedRead_kTooLarge, []), w)
           | Some s \<Rightarrow> if failed then ((BoundedRead_kUnreadable, []), w)
                       else ((BoundedRead_kOk, s), w)))"

section \<open>Removing for good\<close>

text \<open>The zeroing loop of \<open>ShredOne\<close>: 512 bytes at a time over the file's own length, until a write
  comes up short.\<close>

definition zeroed :: "nat \<Rightarrow> bytes \<Rightarrow> bytes" where
  "zeroed n d = replicate (min n (length d)) (char_of (0::nat)) @ drop n d"

function zero_loop :: "bytes \<Rightarrow> nat \<Rightarrow> nat \<Rightarrow> Card \<Rightarrow> Card" where
  "zero_loop path len written w =
     (if written \<ge> len then w
      else
        let chunk = min (len - written) 512 in
        case next_answer w of
          (Does, w) \<Rightarrow>
            zero_loop path len (written + chunk)
              (leave ((files w)(path := map_option
                 (\<lambda>f. \<lparr>data = zeroed (written + chunk) (data f), on_card = False\<rparr>) (files w path))) w)
        | (Refuses _, w) \<Rightarrow> w
        | (TakesOnly n _, w) \<Rightarrow>
            leave ((files w)(path := map_option
                 (\<lambda>f. \<lparr>data = zeroed (written + min n chunk) (data f), on_card = False\<rparr>)
                 (files w path))) w)"
  by pat_completeness auto
termination by (relation "measure (\<lambda>(_, len, written, _). len - written)") (auto simp: min_def)

declare zero_loop.simps [simp del]

definition ShredOne :: "bytes \<Rightarrow> Card \<Rightarrow> bool \<times> Card" where
  "ShredOne path w =
     (let (source, w) = OpenForReading path w;
          w = (case source of Inl _ \<Rightarrow> w
            | Inr d \<Rightarrow> snd (Close (if d = [] then w else snd (Flush (zero_loop path (length d) 0 w)))));
          w = Remove path w;
          (there, w) = Exists path w
      in (\<not> there, w))"

definition Shred :: "bytes \<Rightarrow> Card \<Rightarrow> bool \<times> Card" where
  "Shred path w =
     (let (gone, w) = ShredOne path w;
          (gone1, w) = ShredOne (TempPathFor path) w;
          (gone2, w) = ShredOne (PreviousPathFor path) w
      in (gone2 \<and> gone1 \<and> gone, w))"

section \<open>What a call can do to the card\<close>

text \<open>Nothing changed but the answers left, or the card was left as \<open>fs\<close>.\<close>

definition same :: "Card \<Rightarrow> Card \<Rightarrow> bool" where
  "same w w' \<longleftrightarrow> files w' = files w \<and> seen w' = seen w \<and> rename_replaces w' = rename_replaces w \<and>
     file_sync w' = file_sync w"

definition left_as :: "(bytes \<rightharpoonup> File) \<Rightarrow> Card \<Rightarrow> Card \<Rightarrow> bool" where
  "left_as fs w w' \<longleftrightarrow> files w' = fs \<and> seen w' = fs # seen w \<and> rename_replaces w' = rename_replaces w \<and>
     file_sync w' = file_sync w"

text \<open>Every state the card was left in on the way, and the one it ends in, has \<open>P\<close>.\<close>

definition leaves :: "((bytes \<rightharpoonup> File) \<Rightarrow> bool) \<Rightarrow> Card \<Rightarrow> Card \<Rightarrow> bool" where
  "leaves P w w' \<longleftrightarrow> P (files w') \<and> file_sync w' = file_sync w \<and>
     (\<exists>ss. seen w' = ss @ seen w \<and> (\<forall>fs \<in> set ss. P fs))"

lemma leaves_files: "leaves P w w' \<Longrightarrow> P (files w')"
  by (simp add: leaves_def)

lemma leaves_sync: "leaves P w w' \<Longrightarrow> file_sync w' = file_sync w"
  by (simp add: leaves_def)

lemma leaves_seen: "leaves P w w' \<Longrightarrow> fs \<in> set (seen w') \<Longrightarrow> fs \<in> set (seen w) \<or> P fs"
  by (auto simp: leaves_def)

lemma leaves_trans: "leaves P w1 w2 \<Longrightarrow> leaves P w2 w3 \<Longrightarrow> leaves P w1 w3"
  by (force simp: leaves_def)

lemma leaves_mono: "leaves P w w' \<Longrightarrow> (\<And>fs. P fs \<Longrightarrow> Q fs) \<Longrightarrow> leaves Q w w'"
  by (auto simp: leaves_def)

lemma same_leaves: "same w w' \<Longrightarrow> P (files w) \<Longrightarrow> leaves P w w'"
  by (auto simp: leaves_def same_def)

lemma left_as_leaves: "left_as fs w w' \<Longrightarrow> P fs \<Longrightarrow> leaves P w w'"
  by (auto simp: leaves_def left_as_def)

lemma next_answer_same: "next_answer w = (a, w') \<Longrightarrow> same w w'"
  by (auto simp: next_answer_def same_def split: list.splits)

lemma leave_left_as: "same w w' \<Longrightarrow> left_as fs w (leave fs w')"
  by (simp add: left_as_def same_def leave_def)

lemma same_files: "same w w' \<Longrightarrow> files w' = files w"
  by (simp add: same_def)

lemma left_as_files: "left_as fs w w' \<Longrightarrow> files w' = fs"
  by (simp add: left_as_def)

lemma same_flags: "same w w' \<Longrightarrow> rename_replaces w' = rename_replaces w \<and> file_sync w' = file_sync w"
  by (simp add: same_def)

lemma left_as_flags:
  "left_as fs w w' \<Longrightarrow> rename_replaces w' = rename_replaces w \<and> file_sync w' = file_sync w"
  by (simp add: left_as_def)

lemma answered:
  obtains a w1 where "next_answer w = (a, w1)" "same w w1" "files w1 = files w"
  using next_answer_same [of w] same_files [of w] by (cases "next_answer w") blast

lemma Exists_effect:
  assumes "Exists p w = (r, w')"
  shows "same w w' \<and> (r \<longrightarrow> files w p \<noteq> None)"
proof -
  obtain a w1 where "next_answer w = (a, w1)" "same w w1" "files w1 = files w" by (rule answered)
  with assms show ?thesis by (cases a) (auto simp: Exists_def)
qed

lemma Remove_effect: "same w (Remove p w) \<or> left_as ((files w)(p := None)) w (Remove p w)"
proof -
  obtain a w1 where "next_answer w = (a, w1)" "same w w1" "files w1 = files w" by (rule answered)
  then show ?thesis
    by (cases a) (auto simp: Remove_def same_files leave_left_as)
qed

lemma Rename_effect:
  assumes "Rename a b w = (r, w')"
  shows "(\<not> r \<and> same w w') \<or>
    (r \<and> files w a \<noteq> None \<and> left_as ((files w)(a := None, b := files w a)) w w')"
proof -
  obtain x w1 where "next_answer w = (x, w1)" "same w w1" "files w1 = files w" by (rule answered)
  with assms show ?thesis
    by (cases x) (auto simp: Rename_def same_files leave_left_as split: if_splits)
qed

lemma OpenForWriting_effect:
  assumes "OpenForWriting p w = (r, w')"
  shows "(r \<noteq> None \<and> same w w') \<or>
    (r = None \<and> left_as ((files w)(p \<mapsto> \<lparr>data = [], on_card = False\<rparr>)) w w')"
proof -
  obtain x w1 where "next_answer w = (x, w1)" "same w w1" "files w1 = files w" by (rule answered)
  with assms show ?thesis
    by (cases x) (auto simp: OpenForWriting_def same_files leave_left_as split: if_splits)
qed

lemma Write_effect:
  assumes "Write p d w = ((n, e), w')"
  shows "n \<le> length d \<and> ((n = 0 \<and> same w w') \<or> left_as (appended p (take n d) (files w)) w w')"
proof -
  obtain x w1 where "next_answer w = (x, w1)" "same w w1" "files w1 = files w" by (rule answered)
  with assms show ?thesis
    by (cases x) (auto simp: Write_def leave_left_as simp flip: take_take)
qed

lemma Flush_effect: "Flush w = (r, w') \<Longrightarrow> same w w'"
  by (auto simp: Flush_def split: prod.splits CardAnswer.splits dest: next_answer_same)

lemma Close_effect: "Close w = (r, w') \<Longrightarrow> same w w'"
  by (auto simp: Close_def split: prod.splits CardAnswer.splits dest: next_answer_same)

lemma ReadFails_effect: "ReadFails w = (r, w') \<Longrightarrow> same w w'"
  by (auto simp: ReadFails_def split: prod.splits CardAnswer.splits dest: next_answer_same)

lemma OpenForReading_effect:
  assumes "OpenForReading p w = (r, w')"
  shows "same w w' \<and> (\<forall>d. r = Inr d \<longrightarrow> (\<exists>f. files w p = Some f \<and> data f = d))"
proof -
  obtain x w1 where "next_answer w = (x, w1)" "same w w1" "files w1 = files w" by (rule answered)
  with assms show ?thesis by (cases x) (auto simp: OpenForReading_def split: option.splits)
qed

lemma Sync_effect:
  assumes "Sync p w = (r, w')"
  shows "same w w' \<and> (r \<longrightarrow> \<not> file_sync w) \<or>
    (r \<and> file_sync w \<and> left_as ((files w)(p := map_option (\<lambda>f. f\<lparr>on_card := True\<rparr>) (files w p))) w w')"
proof (cases "file_sync w")
  case False
  then show ?thesis using assms by (simp add: Sync_def same_def)
next
  case True
  obtain x w1 where "next_answer w = (x, w1)" "same w w1" "files w1 = files w" by (rule answered)
  with True assms show ?thesis
    by (cases x) (auto simp: Sync_def same_files leave_left_as)
qed

lemmas effects = Exists_effect Rename_effect OpenForWriting_effect Write_effect Flush_effect
  Close_effect ReadFails_effect OpenForReading_effect Sync_effect

section \<open>The commit\<close>

text \<open>What a reader that consults the previous name finds.\<close>

definition recoverable :: "bytes \<Rightarrow> (bytes \<rightharpoonup> File) \<Rightarrow> File option" where
  "recoverable path fs = (case fs path of Some f \<Rightarrow> Some f | None \<Rightarrow> fs (PreviousPathFor path))"

lemma names_distinct [simp]:
  "TempPathFor p \<noteq> p" "PreviousPathFor p \<noteq> p" "TempPathFor p \<noteq> PreviousPathFor p"
  "p \<noteq> TempPathFor p" "p \<noteq> PreviousPathFor p" "PreviousPathFor p \<noteq> TempPathFor p"
  by (auto simp: TempPathFor_def PreviousPathFor_def)

lemma recoverable_elsewhere [simp]:
  "q \<noteq> path \<Longrightarrow> q \<noteq> PreviousPathFor path \<Longrightarrow> recoverable path (fs(q := x)) = recoverable path fs"
  by (auto simp: recoverable_def split: option.splits)

text \<open>The name a commit publishes is one of two files at every moment of it.\<close>

abbreviation old_or_new :: "bytes \<Rightarrow> File option \<Rightarrow> File option \<Rightarrow> (bytes \<rightharpoonup> File) \<Rightarrow> bool" where
  "old_or_new path old new fs \<equiv> recoverable path fs \<in> {old, new}"

text \<open>What a writer of \<open>path\<close> owes: every moment is old or new, success is new, failure is old.\<close>

definition commits :: "bytes \<Rightarrow> File option \<Rightarrow> Card \<Rightarrow> bool \<Rightarrow> Card \<Rightarrow> bool" where
  "commits path new w ok w' \<longleftrightarrow>
     leaves (old_or_new path (recoverable path (files w)) new) w w' \<and>
     (if ok then new \<noteq> None \<and> files w' path = new
      else recoverable path (files w') = recoverable path (files w))"

lemma Remove_leaves:
  "P (files w) \<Longrightarrow> P ((files w)(p := None)) \<Longrightarrow> leaves P w (Remove p w)"
  using Remove_effect [of w p] by (auto intro: same_leaves left_as_leaves)

lemma Remove_files: "q \<noteq> p \<Longrightarrow> files (Remove p w) q = files w q"
  using Remove_effect [of w p] by (auto simp: same_files left_as_files)

lemma Remove_recoverable:
  "q \<noteq> path \<Longrightarrow> q \<noteq> PreviousPathFor path \<Longrightarrow> recoverable path (files (Remove q w)) = recoverable path (files w)"
  by (metis recoverable_def Remove_files)

lemma Sync_files: "Sync p w = (r, w') \<Longrightarrow> q \<noteq> p \<Longrightarrow> files w' q = files w q"
  by (auto dest!: Sync_effect simp: same_files left_as_files)

lemma recoverable_present: "fs path = Some f \<Longrightarrow> recoverable path fs = Some f"
  by (simp add: recoverable_def)

lemma recoverable_drop_previous:
  "fs path \<noteq> None \<Longrightarrow> recoverable path (fs(PreviousPathFor path := x)) = recoverable path fs"
  by (auto simp: recoverable_def)

text \<open>The three renames of a commit, each from a card where \<open>path\<close> still holds what was there.\<close>

lemma aside_leaves:
  assumes "files w path \<noteq> None" "Rename path (PreviousPathFor path) w = (r, w')"
  shows "leaves (\<lambda>fs. recoverable path fs = recoverable path (files w)) w w' \<and>
    (\<not> r \<longrightarrow> files w' = files w) \<and>
    (r \<longrightarrow> files w' = (files w)(path := None, PreviousPathFor path := files w path))"
  using Rename_effect [OF assms(2)] assms(1)
  by (auto simp: same_files left_as_files recoverable_def intro: same_leaves left_as_leaves)

lemma publish_leaves:
  assumes "Rename staged path w = (r, w')" "staged \<noteq> path" "staged \<noteq> PreviousPathFor path"
  shows "leaves (old_or_new path (recoverable path (files w)) (files w staged)) w w' \<and>
    (\<not> r \<longrightarrow> files w' = files w) \<and>
    (r \<longrightarrow> files w staged \<noteq> None \<and> files w' = (files w)(staged := None, path := files w staged))"
  using Rename_effect [OF assms(1)] assms(2, 3)
  by (auto simp: same_files left_as_files recoverable_def intro: same_leaves left_as_leaves)

lemma leaves_old: "leaves (\<lambda>fs. recoverable path fs = x) w w' \<Longrightarrow> leaves (old_or_new path x y) w w'"
  by (auto elim: leaves_mono)

lemma Remove_old:
  assumes "q \<noteq> path" "q \<noteq> PreviousPathFor path \<or> files w path \<noteq> None"
  shows "leaves (\<lambda>fs. recoverable path fs = recoverable path (files w)) w (Remove q w)"
  using assms
  by (cases "q = PreviousPathFor path")
    (intro Remove_leaves, auto simp: recoverable_def split: option.splits)+

lemma Sync_old:
  assumes "Sync p w = (r, w')" "p \<noteq> path" "p \<noteq> PreviousPathFor path"
  shows "leaves (\<lambda>fs. recoverable path fs = recoverable path (files w)) w w'"
  using Sync_effect [OF assms(1)] assms by (auto intro: same_leaves left_as_leaves)

lemma DirectoryOf_length: "path \<noteq> [] \<Longrightarrow> length (DirectoryOf path) \<le> length path"
proof -
  assume "path \<noteq> []"
  moreover have "length (drop 1 (dropWhile (\<lambda>c. c \<noteq> CHR ''/'') (rev path))) \<le> length path"
    using length_dropWhile_le [of "\<lambda>c. c \<noteq> CHR ''/''" "rev path"] by simp
  ultimately show ?thesis by (auto simp: DirectoryOf_def Let_def Suc_le_eq)
qed

text \<open>A path that ends in a slash names no file, and a directory's own name is not one of its files.\<close>

definition file_path :: "bytes \<Rightarrow> bool" where
  "file_path path \<longleftrightarrow> path \<noteq> [] \<and> last path \<noteq> CHR ''/''"

lemma DirectoryOf_ne:
  assumes "file_path path"
  shows "DirectoryOf path \<noteq> path \<and> DirectoryOf path \<noteq> PreviousPathFor path"
proof -
  have "DirectoryOf path \<noteq> path"
  proof
    let ?d = "drop 1 (dropWhile (\<lambda>c. c \<noteq> CHR ''/'') (rev path))"
    assume eq: "DirectoryOf path = path"
    have "length (dropWhile (\<lambda>c. c \<noteq> CHR ''/'') (rev path)) \<le> length path"
      using length_dropWhile_le [of "\<lambda>c. c \<noteq> CHR ''/''" "rev path"] by simp
    moreover have "length path > 0" using assms by (simp add: file_path_def)
    ultimately have "length ?d < length path" unfolding length_drop by linarith
    then have "rev ?d \<noteq> path" by (metis length_rev less_irrefl)
    moreover have "path \<noteq> [] \<and> path \<noteq> ''/''" using assms by (auto simp: file_path_def)
    ultimately show False using eq unfolding DirectoryOf_def Let_def by metis
  qed
  moreover have "length (DirectoryOf path) < length (PreviousPathFor path)"
    using DirectoryOf_length [of path] assms by (simp add: file_path_def PreviousPathFor_def)
  ultimately show ?thesis by auto
qed

lemma restore_leaves:
  assumes "Rename (PreviousPathFor path) path w = (r, w')" "files w path = None"
  shows "leaves (\<lambda>fs. recoverable path fs = recoverable path (files w)) w w'"
  using Rename_effect [OF assms(1)] assms(2)
  by (auto simp: recoverable_def intro: same_leaves left_as_leaves split: option.splits)

lemma leaves_const:
  assumes "leaves (\<lambda>fs. recoverable path fs = x) w1 w2"
    "leaves (\<lambda>fs. recoverable path fs = recoverable path (files w2)) w2 w3"
  shows "leaves (\<lambda>fs. recoverable path fs = x) w1 w3"
  using leaves_trans [OF assms(1)] assms(2) leaves_files [OF assms(1)] by simp

lemma same_old: "same w w' \<Longrightarrow> leaves (\<lambda>fs. recoverable path fs = recoverable path (files w)) w w'"
  by (auto intro: same_leaves)

lemma failed_commits:
  assumes "leaves (\<lambda>fs. recoverable path fs = recoverable path (files w)) w w'"
  shows "commits path new w False w'"
  using leaves_files [OF assms] leaves_old [OF assms] by (simp add: commits_def)

lemma CommitStaged_commits:
  assumes run: "CommitStaged staged path w = (r, w')"
    and names: "staged \<noteq> path" "staged \<noteq> PreviousPathFor path" "file_path path"
  shows "commits path (files w staged) w (wr_ok r) w'"
proof -
  let ?prev = "PreviousPathFor path"
  let ?const = "\<lambda>fs. recoverable path fs = recoverable path (files w)"
  obtain there w1 where w1: "Exists staged w = (there, w1)" by fastforce
  obtain replacing w2 where w2: "Exists path w1 = (replacing, w2)" by fastforce
  obtain a w3 where w3: "(if replacing then Rename path ?prev (Remove ?prev w2) else (True, w2)) = (a, w3)"
    by fastforce
  obtain p w4 where w4: "Rename staged path w3 = (p, w4)" by fastforce
  obtain b w5 where w5: "(if replacing then Rename ?prev path w4 else (True, w4)) = (b, w5)" by fastforce
  obtain d w6 where w6: "(if DirectoryOf path \<noteq> [] then Sync (DirectoryOf path) (Remove ?prev w4)
      else (True, Remove ?prev w4)) = (d, w6)" by fastforce
  note run' = run [unfolded CommitStaged_def Let_def w1 w2 prod.case w3 w4 w5 w6]
  have s1: "same w w1" and s2: "same w1 w2" using Exists_effect w1 w2 by blast+
  have s12: "leaves ?const w w2" and f2: "files w2 = files w"
    using s1 s2 by (auto simp: same_def leaves_def)
  have at3: "leaves ?const w w3 \<and> files w3 staged = files w staged \<and>
    (replacing \<and> a \<longrightarrow> files w3 path = None)"
  proof (cases replacing)
    case False
    with w3 s12 f2 show ?thesis by simp
  next
    case True
    then have there_path: "files w2 path \<noteq> None" using Exists_effect [OF w2] s2 by (simp add: same_files)
    let ?w = "Remove ?prev w2"
    have r: "leaves ?const w ?w" using Remove_old [of ?prev path w2] there_path leaves_const [OF s12] by simp
    have "files ?w path \<noteq> None" "files ?w staged = files w staged"
      using there_path names f2 by (simp_all add: Remove_files)
    moreover from True w3 have w3': "Rename path ?prev ?w = (a, w3)" by simp
    ultimately show ?thesis
      using aside_leaves [OF _ w3'] leaves_const [OF r] names by (cases a) auto
  qed
  then have c3: "leaves ?const w w3" and r3: "recoverable path (files w3) = recoverable path (files w)"
    using leaves_files by auto
  have drop: "leaves ?const w (Remove staged v)" if "leaves ?const w v" for v
    using leaves_const [OF that] Remove_old [of staged path v] names by simp
  have pub: "leaves (old_or_new path (recoverable path (files w)) (files w staged)) w3 w4"
    "\<not> p \<Longrightarrow> files w4 = files w3"
    "p \<Longrightarrow> files w staged \<noteq> None \<and> files w4 path = files w staged"
    using publish_leaves [OF w4 names(1, 2)] at3 r3 by auto
  consider "\<not> there" | "there" "\<not> a" | "there" "a" "\<not> p" | "there" "a" "p" by blast
  then show ?thesis
  proof cases
    case 1
    with run' have "\<not> wr_ok r" "w' = w1" by (auto simp: wr_failed_def wr_ok_def)
    then show ?thesis using failed_commits [OF same_old [OF s1]] by simp
  next
    case 2
    with run' have "\<not> wr_ok r" "w' = Remove staged w3" by (auto simp: wr_failed_def wr_ok_def)
    then show ?thesis using failed_commits [OF drop [OF c3]] by simp
  next
    case 3
    with run' have r: "\<not> wr_ok r" "w' = Remove staged w5" by (auto simp: wr_failed_def wr_ok_def)
    have c4: "leaves ?const w w4"
      using Rename_effect [OF w4] 3 c3 leaves_const [OF c3] same_old by blast
    have "leaves ?const w w5"
    proof (cases replacing)
      case True
      with w5 restore_leaves [of path w4 b w5] pub(2) 3 at3 leaves_const [OF c4] show ?thesis by simp
    qed (use w5 c4 in simp)
    then show ?thesis using failed_commits [OF drop] r by simp
  next
    case 4
    with run' have r: "wr_ok r" "w' = w6" by (auto simp: wr_ok_def)
    have present: "files w staged \<noteq> None" "files w4 path = files w staged" using pub(3) 4 by auto
    let ?w = "Remove ?prev w4"
    let ?new = "\<lambda>fs. recoverable path fs = files w staged"
    have new: "recoverable path (files w4) = files w staged" using present by (auto simp: recoverable_def)
    have n: "leaves ?new w4 ?w" "files ?w path = files w staged"
      using Remove_old [of ?prev path w4] present new by (simp_all add: Remove_files)
    have "leaves ?new w4 w6 \<and> files w6 path = files w staged"
    proof (cases "DirectoryOf path = []")
      case False
      with w6 have w6': "Sync (DirectoryOf path) ?w = (d, w6)" by simp
      then have "leaves ?new ?w w6"
        using Sync_old [OF w6', of path] DirectoryOf_ne [OF names(3)] leaves_files [OF n(1)] by simp
      then show ?thesis
        using leaves_trans [OF n(1)] Sync_files [OF w6', of path] n(2) DirectoryOf_ne [OF names(3)]
        by auto
    qed (use w6 n in simp)
    then have "leaves (old_or_new path (recoverable path (files w)) (files w staged)) w4 w6 \<and>
      files w6 path = files w staged" by (auto elim: leaves_mono)
    with leaves_trans [OF leaves_trans [OF leaves_old [OF c3] pub(1)]] present r show ?thesis
      by (simp add: commits_def)
  qed
qed

section \<open>Writing a record\<close>

abbreviation elsewhere :: "bytes \<Rightarrow> Card \<Rightarrow> (bytes \<rightharpoonup> File) \<Rightarrow> bool" where
  "elsewhere temp w fs \<equiv> \<forall>q. q \<noteq> temp \<longrightarrow> fs q = files w q"

lemma same_elsewhere: "same w w' \<Longrightarrow> leaves (elsewhere p w) w w'"
  by (auto intro: same_leaves)

lemma Write_elsewhere: "Write p d w = (x, w') \<Longrightarrow> leaves (elsewhere p w) w w'"
  using Write_effect [of p d w "fst x" "snd x" w']
  by (cases x) (auto simp: appended_def intro: same_leaves left_as_leaves split: option.splits)

lemma Open_elsewhere: "OpenForWriting p w = (x, w') \<Longrightarrow> leaves (elsewhere p w) w w'"
  by (auto dest!: OpenForWriting_effect intro: same_leaves left_as_leaves)

lemma Sync_elsewhere: "Sync p w = (x, w') \<Longrightarrow> leaves (elsewhere p w) w w'"
  by (auto dest!: Sync_effect intro: same_leaves left_as_leaves)

lemma Remove_elsewhere: "leaves (elsewhere p w) w (Remove p w)"
  by (intro Remove_leaves) auto

lemma elsewhere_trans:
  assumes "leaves (elsewhere p w1) w1 w2" "leaves (elsewhere p w2) w2 w3"
  shows "leaves (elsewhere p w1) w1 w3"
proof (rule leaves_trans [OF assms(1)])
  show "leaves (elsewhere p w1) w2 w3"
    using assms(2) leaves_files [OF assms(1)] by (auto elim: leaves_mono)
qed

lemma elsewhere_recoverable: "elsewhere (TempPathFor path) w fs \<Longrightarrow> recoverable path fs = recoverable path (files w)"
  by (auto simp: recoverable_def split: option.splits)

lemma elsewhere_old:
  "leaves (elsewhere (TempPathFor path) w) w w' \<Longrightarrow>
     leaves (\<lambda>fs. recoverable path fs = recoverable path (files w)) w w'"
  by (erule leaves_mono) (rule elsewhere_recoverable)

text \<open>What \<open>WriteStaged\<close> relies on in the function that fills the temp file.\<close>

locale staged_writer =
  fixes put :: "'c \<Rightarrow> bytes \<Rightarrow> Card \<Rightarrow> (bool \<times> Errno option) \<times> Card"
    and bytes_of :: "'c \<Rightarrow> bytes"
  assumes only_temp: "put c temp w = (x, w') \<Longrightarrow> leaves (elsewhere temp w) w w'"
    and fills: "put c temp w = ((True, e), w') \<Longrightarrow> files w temp = Some \<lparr>data = d, on_card = False\<rparr> \<Longrightarrow>
      files w' temp = Some \<lparr>data = d @ bytes_of c, on_card = False\<rparr>"
    and healthy: "answers w = [] \<Longrightarrow> \<exists>w'. put c temp w = ((True, None), w') \<and> answers w' = []"
begin

lemma WriteStaged_stages:
  assumes run: "WriteStaged path (put c) w = (r, w')"
  obtains (failed) "\<not> wr_ok r" "wr_error r \<noteq> WriteError_kCommitFailed"
      "leaves (elsewhere (TempPathFor path) w) w w'"
  | (staged) w1 where "leaves (elsewhere (TempPathFor path) w) w w1"
      "files w1 (TempPathFor path) = Some \<lparr>data = bytes_of c, on_card = file_sync w\<rparr>"
      "CommitStaged (TempPathFor path) path w1 = (r, w')"
proof -
  let ?temp = "TempPathFor path"
  obtain ope w1 where w1: "OpenForWriting ?temp w = (ope, w1)" by fastforce
  obtain written we w2 where w2: "put c ?temp w1 = ((written, we), w2)" by (metis surj_pair)
  obtain fe w3 where w3: "(if written then Flush w2 else (we, w2)) = (fe, w3)" by fastforce
  obtain closed w4 where w4: "Close w3 = (closed, w4)" by fastforce
  obtain synced w5 where w5: "(if (written \<and> fe = None) \<and> closed then Sync ?temp w4 else (False, w4)) = (synced, w5)"
    by fastforce
  note run' = run [unfolded WriteStaged_def Let_def w1 w2 prod.case w3 w4 w5]
  have e1: "leaves (elsewhere ?temp w) w w1" using w1 by (rule Open_elsewhere)
  have e2: "leaves (elsewhere ?temp w) w w2" using elsewhere_trans [OF e1 only_temp [OF w2]] .
  have s23: "same w2 w3" using w3 Flush_effect [of w2 fe w3] by (cases written) (auto simp: same_def)
  have e4: "leaves (elsewhere ?temp w) w w4"
    using elsewhere_trans [OF elsewhere_trans [OF e2 same_elsewhere [OF s23]]
        same_elsewhere [OF Close_effect [OF w4]]] .
  have e5: "leaves (elsewhere ?temp w) w w5"
  proof (cases "(written \<and> fe = None) \<and> closed")
    case True
    with w5 have "Sync ?temp w4 = (synced, w5)" by simp
    then show ?thesis using elsewhere_trans [OF e4] Sync_elsewhere by blast
  qed (use w5 e4 in auto)
  show thesis
  proof (cases "ope \<noteq> None")
    case True
    with run' have "\<not> wr_ok r" "wr_error r \<noteq> WriteError_kCommitFailed" "w' = w1"
      by (auto simp: wr_failed_def wr_ok_def)
    then show thesis using failed e1 by simp
  next
    case False
    then have opened: "files w1 ?temp = Some \<lparr>data = [], on_card = False\<rparr>"
      using OpenForWriting_effect [OF w1] by (auto simp: left_as_files)
    show thesis
    proof (cases "written \<and> fe = None \<and> closed \<and> synced")
      case False
      with run' \<open>\<not> ope \<noteq> None\<close> have "\<not> wr_ok r" "wr_error r \<noteq> WriteError_kCommitFailed" "w' = Remove ?temp w5"
        by (auto simp: wr_failed_def wr_ok_def)
      then show thesis using failed elsewhere_trans [OF e5 Remove_elsewhere] by simp
    next
      case True
      with w2 have "put c ?temp w1 = ((True, we), w2)" by simp
      from fills [OF this opened] have "files w2 ?temp = Some \<lparr>data = bytes_of c, on_card = False\<rparr>"
        by simp
      then have at4: "files w4 ?temp = Some \<lparr>data = bytes_of c, on_card = False\<rparr>"
        using s23 Close_effect [OF w4] by (simp add: same_files)
      moreover have "file_sync w4 = file_sync w" using e4 by (rule leaves_sync)
      moreover from True w5 have "Sync ?temp w4 = (True, w5)" by simp
      ultimately have "files w5 ?temp = Some \<lparr>data = bytes_of c, on_card = file_sync w\<rparr>"
        by (auto dest!: Sync_effect simp: same_files left_as_files)
      moreover from True run' \<open>\<not> ope \<noteq> None\<close> have "CommitStaged ?temp path w5 = (r, w')" by simp
      ultimately show thesis using staged e5 by blast
    qed
  qed
qed

lemma WriteStaged_commits:
  assumes "WriteStaged path (put c) w = (r, w')" "file_path path"
  shows "commits path (Some \<lparr>data = bytes_of c, on_card = file_sync w\<rparr>) w (wr_ok r) w'"
  using assms(1)
proof (cases rule: WriteStaged_stages)
  case failed
  then show ?thesis using failed_commits [OF elsewhere_old] by simp
next
  case (staged w1)
  have old: "recoverable path (files w1) = recoverable path (files w)"
    using leaves_files [OF staged(1)] by (rule elsewhere_recoverable)
  have "commits path (files w1 (TempPathFor path)) w1 (wr_ok r) w'"
    using CommitStaged_commits [OF staged(3)] assms(2) by simp
  with staged(2) old leaves_trans [OF leaves_old [OF elsewhere_old [OF staged(1)]]]
  show ?thesis by (simp add: commits_def)
qed

end

lemma Write_full: "Write p d w = ((length d, e), w') \<Longrightarrow> files w p = Some f \<Longrightarrow> \<not> on_card f \<Longrightarrow>
    files w' p = Some \<lparr>data = data f @ d, on_card = False\<rparr>"
  using Write_effect [of p d w "length d" e w']
  by (auto simp: same_files left_as_files appended_def)

lemma Write_healthy: "answers w = [] \<Longrightarrow> \<exists>w'. Write p d w = ((length d, None), w') \<and> answers w' = []"
  by (auto simp: Write_def next_answer_def leave_def)

interpretation one_piece: staged_writer write_contents "\<lambda>c. c"
proof (unfold_locales, goal_cases)
  case (1 c temp w x w')
  then show ?case by (auto simp: write_contents_def Let_def split: prod.splits dest: Write_elsewhere)
next
  case (2 c temp w e w' d)
  then show ?case by (auto simp: write_contents_def Let_def split: prod.splits dest!: Write_full)
next
  case (3 w c temp)
  then show ?case using Write_healthy [of w temp c] by (auto simp: write_contents_def)
qed

lemma write_pieces_elsewhere: "write_pieces ps temp w = (x, w') \<Longrightarrow> leaves (elsewhere temp w) w w'"
proof (induction ps arbitrary: w)
  case Nil
  then show ?case by (auto simp: leaves_def)
next
  case (Cons piece ps)
  obtain n e w1 where w1: "Write temp piece w = ((n, e), w1)" by (metis surj_pair)
  note e1 = Write_elsewhere [OF w1]
  with Cons.prems w1 elsewhere_trans [OF e1 Cons.IH] show ?case by (auto split: if_splits)
qed

lemma write_pieces_fills:
  "write_pieces ps temp w = ((True, e), w') \<Longrightarrow> files w temp = Some \<lparr>data = d, on_card = False\<rparr> \<Longrightarrow>
     files w' temp = Some \<lparr>data = d @ concat ps, on_card = False\<rparr>"
proof (induction ps arbitrary: w d)
  case (Cons piece ps)
  obtain n e1 w1 where w1: "Write temp piece w = ((n, e1), w1)" by (metis surj_pair)
  with Cons.prems Write_full [of temp piece w e1 w1] Cons.IH [of w1 "d @ piece"] show ?case
    by (auto split: if_splits)
qed simp

lemma write_pieces_healthy:
  "answers w = [] \<Longrightarrow> \<exists>w'. write_pieces ps temp w = ((True, None), w') \<and> answers w' = []"
proof (induction ps arbitrary: w)
  case (Cons piece ps)
  then show ?case using Write_healthy [of w temp piece] by fastforce
qed simp

interpretation pieces: staged_writer write_pieces concat
  by unfold_locales (auto intro: write_pieces_elsewhere write_pieces_fills write_pieces_healthy)

section \<open>Copying a save\<close>

lemma copy_loop_elsewhere: "copy_loop temp rest got w = (l, w') \<Longrightarrow> leaves (elsewhere temp w) w w'"
proof (induction temp rest got w rule: copy_loop.induct)
  case (1 temp rest got w)
  obtain f w1 where w1: "ReadFails w = (f, w1)" by fastforce
  obtain n e w2 where w2: "Write temp (take 4096 rest) w1 = ((n, e), w2)" by (metis surj_pair)
  have s1: "leaves (elsewhere temp w) w w1" using ReadFails_effect [OF w1] by (rule same_elsewhere)
  note e2 = elsewhere_trans [OF s1 Write_elsewhere [OF w2]]
  consider "f \<or> rest = []" | "\<not> f" "rest \<noteq> []" "n \<noteq> length (take 4096 rest)"
    | "\<not> f" "rest \<noteq> []" "n = length (take 4096 rest)" by blast
  then show ?case
  proof cases
    case 1
    then show ?thesis using "1.prems" s1 w1 by (subst (asm) copy_loop.simps) (auto split: if_splits)
  next
    case 2
    then show ?thesis using "1.prems" e2 w1 w2
      by (subst (asm) copy_loop.simps) (simp add: Let_def)
  next
    case 3
    then have "copy_loop temp (drop 4096 rest) (got + n) w2 = (l, w')"
      using "1.prems" w1 w2 by (subst (asm) copy_loop.simps) (simp add: Let_def)
    then show ?thesis
      using "1.IH" [OF w1 [symmetric] refl] 3 w2 elsewhere_trans [OF e2] by (simp add: Let_def)
  qed
qed

lemma copy_loop_fills:
  "copy_loop temp rest got w = (l, w') \<Longrightarrow> \<not> read_failed l \<Longrightarrow> \<not> short_write l \<Longrightarrow>
     files w temp = Some \<lparr>data = d, on_card = False\<rparr> \<Longrightarrow>
     files w' temp = Some \<lparr>data = d @ rest, on_card = False\<rparr> \<and> copied l = got + length rest"
proof (induction temp rest got w arbitrary: d rule: copy_loop.induct)
  case (1 temp rest got w)
  obtain f w1 where w1: "ReadFails w = (f, w1)" by fastforce
  have at1: "files w1 temp = Some \<lparr>data = d, on_card = False\<rparr>"
    using ReadFails_effect [OF w1] "1.prems"(4) by (simp add: same_files)
  obtain n e w2 where w2: "Write temp (take 4096 rest) w1 = ((n, e), w2)" by (metis surj_pair)
  from "1.prems"(1,2) w1 have f: "\<not> f" by (subst (asm) copy_loop.simps) auto
  show ?case
  proof (cases "rest = []")
    case True
    then show ?thesis using "1.prems"(1) w1 f at1 by (subst (asm) copy_loop.simps) auto
  next
    case False
    then have n: "n = length (take 4096 rest)" and
      rec: "copy_loop temp (drop 4096 rest) (got + n) w2 = (l, w')"
      using "1.prems"(1,3) w1 w2 f
      by (subst (asm) copy_loop.simps, auto simp: Let_def split: if_splits)+
    have "files w2 temp = Some \<lparr>data = d @ take 4096 rest, on_card = False\<rparr>"
      using Write_full [OF w2 [unfolded n] at1] by simp
    then show ?thesis
      using "1.IH" [OF w1 [symmetric] refl f False refl w2 [symmetric] refl refl] n rec "1.prems"(2, 3)
      by (auto simp: min_def)
  qed
qed

lemma CopyStaged_stages:
  assumes run: "CopyStaged from to w = (r, w')"
  shows "leaves (elsewhere (TempPathFor to) w) w w' \<and>
    (cr_ok r \<longrightarrow> (\<exists>f. files w from = Some f \<and> bytes_copied r = length (data f) \<and>
       files w' (TempPathFor to) = Some \<lparr>data = data f, on_card = file_sync w\<rparr>))"
proof -
  let ?temp = "TempPathFor to"
  obtain source w1 where w1: "OpenForReading from w = (source, w1)" by fastforce
  have s1: "same w w1" using OpenForReading_effect [OF w1] by simp
  note e1 = same_elsewhere [OF s1, of ?temp]
  show ?thesis
  proof (cases source)
    case (Inl e)
    with run w1 have "w' = w1" "\<not> cr_ok r"
      by (auto simp: CopyStaged_def cr_failed_def cr_ok_def split: if_splits)
    with e1 show ?thesis by simp
  next
    case (Inr d)
    then obtain f where f: "files w from = Some f" "data f = d" using OpenForReading_effect [OF w1] by auto
    obtain ope w2 where w2: "OpenForWriting ?temp w1 = (ope, w2)" by fastforce
    obtain l w3 where w3: "copy_loop ?temp d 0 w2 = (l, w3)" by fastforce
    obtain fe w4 where w4: "Flush w3 = (fe, w4)" by fastforce
    obtain closed w5 where w5: "Close w4 = (closed, w5)" by fastforce
    obtain synced w6 where w6: "(if \<not> short_write l \<and> fe = None \<and> closed then Sync ?temp w5
        else (False, w5)) = (synced, w6)" by fastforce
    note run' = run [unfolded CopyStaged_def Let_def w1 Inr sum.case w2 prod.case w3 w4 w5 w6]
    note e2 = elsewhere_trans [OF e1 Open_elsewhere [OF w2]]
    note e3 = elsewhere_trans [OF e2 copy_loop_elsewhere [OF w3]]
    have s35: "same w3 w5" using Flush_effect [OF w4] Close_effect [OF w5] by (simp add: same_def)
    note e5 = elsewhere_trans [OF e3 same_elsewhere [OF s35]]
    have e6: "leaves (elsewhere ?temp w) w w6"
    proof (cases "\<not> short_write l \<and> fe = None \<and> closed")
      case True
      with w6 have "Sync ?temp w5 = (synced, w6)" by simp
      then show ?thesis using elsewhere_trans [OF e5] Sync_elsewhere by blast
    qed (use w6 e5 in auto)
    consider "ope \<noteq> None" | "ope = None" "read_failed l"
      | "ope = None" "\<not> read_failed l" "\<not> (\<not> short_write l \<and> fe = None \<and> closed \<and> synced)"
      | "ope = None" "\<not> read_failed l" "\<not> short_write l" "fe = None" "closed" "synced" by blast
    then show ?thesis
    proof cases
      case 1
      with run' have "w' = w2" "\<not> cr_ok r" by (auto simp: cr_failed_def cr_ok_def)
      with e2 show ?thesis by simp
    next
      case 2
      with run' have "w' = Remove ?temp w5" "\<not> cr_ok r" by (auto simp: cr_failed_def cr_ok_def)
      with elsewhere_trans [OF e5 Remove_elsewhere] show ?thesis by simp
    next
      case 3
      with run' have "w' = Remove ?temp w6" "\<not> cr_ok r" by (auto simp: cr_failed_def cr_ok_def)
      with elsewhere_trans [OF e6 Remove_elsewhere] show ?thesis by simp
    next
      case 4
      then have "files w2 ?temp = Some \<lparr>data = [], on_card = False\<rparr>"
        using OpenForWriting_effect [OF w2] by (simp add: left_as_files)
      then have "files w5 ?temp = Some \<lparr>data = d, on_card = False\<rparr>" "copied l = length d"
        using copy_loop_fills [OF w3 4(2, 3)] s35 by (simp_all add: same_files)
      moreover have "Sync ?temp w5 = (True, w6)" using 4 w6 by simp
      moreover have "file_sync w5 = file_sync w" using e5 by (rule leaves_sync)
      ultimately have "files w6 ?temp = Some \<lparr>data = d, on_card = file_sync w\<rparr>" "copied l = length d"
        by (auto dest!: Sync_effect simp: same_files left_as_files)
      moreover from run' 4 have "w' = w6" "bytes_copied r = copied l" by auto
      ultimately show ?thesis using e6 f by simp
    qed
  qed
qed

text \<open>What \<open>BackUpFirst\<close> relies on: a copy that says it succeeded is the whole source, and one that did
  not leaves the backup already there.\<close>

lemma CopyAtomically_commits:
  assumes run: "CopyAtomically from to w = (r, w')" and to: "file_path to"
  shows "if cr_ok r
    then \<exists>f. files w from = Some f \<and> bytes_copied r = length (data f) \<and>
      commits to (Some \<lparr>data = data f, on_card = file_sync w\<rparr>) w True w'
    else commits to new w False w' \<or>
      (\<exists>f. files w from = Some f \<and> commits to (Some \<lparr>data = data f, on_card = file_sync w\<rparr>) w False w')"
proof -
  obtain s w1 where w1: "CopyStaged from to w = (s, w1)" by fastforce
  obtain c w2 where w2: "CommitStaged (TempPathFor to) to w1 = (c, w2)" by fastforce
  note st = CopyStaged_stages [OF w1]
  note e1 = st [THEN conjunct1]
  show ?thesis
  proof (cases "cr_ok s")
    case False
    then have "r = s" "w' = w1" using run w1 by (simp_all add: CopyAtomically_def)
    with False failed_commits [OF elsewhere_old [OF e1]] show ?thesis by simp
  next
    case True
    with st obtain f where f: "files w from = Some f" "bytes_copied s = length (data f)"
      "files w1 (TempPathFor to) = Some \<lparr>data = data f, on_card = file_sync w\<rparr>" by auto
    have old: "recoverable to (files w1) = recoverable to (files w)"
      using leaves_files [OF e1] by (rule elsewhere_recoverable)
    have "commits to (files w1 (TempPathFor to)) w1 (wr_ok c) w2"
      using CommitStaged_commits [OF w2] to by simp
    then have *: "commits to (Some \<lparr>data = data f, on_card = file_sync w\<rparr>) w (wr_ok c) w2"
      using f(3) old leaves_trans [OF leaves_old [OF elsewhere_old [OF e1]]] by (simp add: commits_def)
    have "w' = w2" "cr_ok r = wr_ok c" "wr_ok c \<Longrightarrow> bytes_copied r = bytes_copied s"
      using run w1 w2 True by (auto simp: CopyAtomically_def cr_failed_def cr_ok_def split: if_splits)
    with * f show ?thesis by auto
  qed
qed

section \<open>Reading back\<close>

lemma ReadFails_healthy [simp]: "answers w = [] \<Longrightarrow> ReadFails w = (False, w)"
  by (simp add: ReadFails_def next_answer_def)

lemma read_loop_healthy: "answers w = [] \<Longrightarrow> chunk > 0 \<Longrightarrow> read_loop chunk rest got w = ((got @ rest, False), w)"
proof (induction chunk rest got w rule: read_loop.induct)
  case (1 chunk rest got w)
  then show ?case by (subst read_loop.simps) auto
qed

lemma OpenForReading_healthy: "answers w = [] \<Longrightarrow>
    OpenForReading p w = ((case files w p of None \<Rightarrow> Inl ENOENT | Some f \<Rightarrow> Inr (data f)), w)"
  by (simp add: OpenForReading_def next_answer_def)

lemma ReadFile_healthy: "answers w = [] \<Longrightarrow> ReadFile p w =
    ((case files w p of
        None \<Rightarrow> \<lparr>rr_contents = [], rr_error = ReadError_kMissing,
                  rr_message = Describe_path p ''does not exist''\<rparr>
      | Some f \<Rightarrow> \<lparr>rr_contents = data f, rr_error = ReadError_kNone, rr_message = []\<rparr>), w)"
  by (simp add: ReadFile_def OpenForReading_healthy read_loop_healthy split: option.splits)

lemma read_loop_whole: "read_loop chunk rest got w = ((out, False), w') \<Longrightarrow> chunk > 0 \<Longrightarrow> out = got @ rest"
proof (induction chunk rest got w rule: read_loop.induct)
  case (1 chunk rest got w)
  obtain f w1 where w1: "ReadFails w = (f, w1)" by fastforce
  with "1.prems" have f: "\<not> f" by (subst (asm) read_loop.simps) auto
  show ?case
  proof (cases "rest = []")
    case True
    with "1.prems" f w1 show ?thesis by (subst (asm) read_loop.simps) auto
  next
    case False
    with "1.prems" f w1 have "read_loop chunk (drop chunk rest) (got @ take chunk rest) w1 = ((out, False), w')"
      by (subst (asm) read_loop.simps) simp
    with "1.IH" [OF w1 [symmetric] refl f] False "1.prems"(2) show ?thesis by simp
  qed
qed

lemma bounded_loop_whole:
  "bounded_loop limit rest got w = ((Some out, False), w') \<Longrightarrow> length got \<le> limit \<Longrightarrow>
     out = got @ rest \<and> length out \<le> limit"
proof (induction limit rest got w rule: bounded_loop.induct)
  case (1 limit rest got w)
  obtain f w1 where w1: "ReadFails w = (f, w1)" by fastforce
  with "1.prems" have f: "\<not> f" by (subst (asm) bounded_loop.simps) auto
  show ?case
  proof (cases "rest = []")
    case True
    with "1.prems" f w1 show ?thesis by (subst (asm) bounded_loop.simps) auto
  next
    case False
    with "1.prems" f w1 have fits: "\<not> length got + length (take 4096 rest) > limit" and
      rec: "bounded_loop limit (drop 4096 rest) (got @ take 4096 rest) w1 = ((Some out, False), w')"
      by (subst (asm) bounded_loop.simps, simp split: if_splits)+
    from "1.IH" [OF w1 [symmetric] refl f False fits rec] fits show ?thesis by auto
  qed
qed

lemma bounded_loop_healthy:
  "answers w = [] \<Longrightarrow> length got \<le> limit \<Longrightarrow> bounded_loop limit rest got w =
     (if length got + length rest \<le> limit then (Some (got @ rest), False) else (None, False), w)"
proof (induction limit rest got w rule: bounded_loop.induct)
  case (1 limit rest got w)
  show ?case
  proof (cases "rest = [] \<or> length got + length (take 4096 rest) > limit")
    case True
    with "1.prems" show ?thesis by (subst bounded_loop.simps) auto
  next
    case False
    then have "bounded_loop limit (drop 4096 rest) (got @ take 4096 rest) w =
      (if length got + length rest \<le> limit then (Some (got @ rest), False) else (None, False), w)"
      using "1.IH" [of "(False, w)" False w] "1.prems" by (auto simp: min_def split: if_splits)
    with False "1.prems" show ?thesis by (subst bounded_loop.simps) simp
  qed
qed

lemma ReadBounded_healthy: "answers w = [] \<Longrightarrow> ReadBounded p limit w =
    (case files w p of
       None \<Rightarrow> (BoundedRead_kMissing, [])
     | Some f \<Rightarrow> if length (data f) \<le> limit then (BoundedRead_kOk, data f) else (BoundedRead_kTooLarge, []), w)"
  by (simp add: ReadBounded_def OpenForReading_healthy bounded_loop_healthy split: option.splits)

section \<open>A card that answers every call\<close>

lemma healthy_calls [simp]:
  assumes "answers w = []"
  shows "next_answer w = (Does, w)" "Flush w = (None, w)" "Close w = (True, w)"
    "Exists p w = (files w p \<noteq> None, w)" "Remove p w = leave ((files w)(p := None)) w"
    "OpenForWriting p w = (None, leave ((files w)(p \<mapsto> \<lparr>data = [], on_card = False\<rparr>)) w)"
  using assms by (simp_all add: next_answer_def Flush_def Close_def Exists_def Remove_def OpenForWriting_def)

lemma leave_simps [simp]:
  "answers (leave fs w) = answers w" "files (leave fs w) = fs" "file_sync (leave fs w) = file_sync w"
  "rename_replaces (leave fs w) = rename_replaces w"
  by (simp_all add: leave_def)

lemma Rename_healthy: "answers w = [] \<Longrightarrow> files w a \<noteq> None \<Longrightarrow> files w b = None \<or> rename_replaces w \<Longrightarrow>
    Rename a b w = (True, leave ((files w)(a := None, b := files w a)) w)"
  by (auto simp: Rename_def)

lemma Sync_healthy: "answers w = [] \<Longrightarrow> \<exists>w'. Sync p w = (True, w') \<and> answers w' = [] \<and>
    (\<forall>q. (files w' q = None) = (files w q = None))"
  by (auto simp: Sync_def)

lemma CommitStaged_healthy:
  assumes h: "answers w = []" and staged: "files w staged \<noteq> None"
    and names: "staged \<noteq> path" "staged \<noteq> PreviousPathFor path"
  shows "\<exists>w'. CommitStaged staged path w =
    (\<lparr>wr_error = WriteError_kNone, wr_message = [], wr_name_durable = True\<rparr>, w') \<and> answers w' = []"
proof -
  let ?prev = "PreviousPathFor path"
  define w3 where "w3 = (if files w path \<noteq> None
    then leave ((files w)(path := None, ?prev := files w path)) (leave ((files w)(?prev := None)) w) else w)"
  have a: "(if files w path \<noteq> None then Rename path ?prev (Remove ?prev w) else (True, w)) = (True, w3)"
    using h by (auto simp: w3_def Rename_healthy fun_upd_twist)
  have h3: "answers w3 = []" and n3: "files w3 path = None" "files w3 staged \<noteq> None"
    using h staged names by (auto simp: w3_def)
  define w4 where "w4 = leave ((files w3)(staged := None, path := files w3 staged)) w3"
  have p: "Rename staged path w3 = (True, w4)" and h4: "answers w4 = []"
    using Rename_healthy [OF h3 n3(2)] n3 h3 by (auto simp: w4_def)
  obtain w6 where "(if DirectoryOf path \<noteq> [] then Sync (DirectoryOf path) (Remove ?prev w4)
      else (True, Remove ?prev w4)) = (True, w6)" "answers w6 = []"
    using Sync_healthy [of "Remove ?prev w4"] h4 by (cases "DirectoryOf path = []") auto
  then show ?thesis
    using h staged a p by (auto simp: CommitStaged_def)
qed

context staged_writer
begin

lemma WriteStaged_healthy:
  assumes h: "answers w = []"
  shows "\<exists>w'. WriteStaged path (put c) w =
    (\<lparr>wr_error = WriteError_kNone, wr_message = [], wr_name_durable = True\<rparr>, w') \<and> answers w' = []"
proof -
  let ?temp = "TempPathFor path"
  define w1 where "w1 = leave ((files w)(?temp \<mapsto> \<lparr>data = [], on_card = False\<rparr>)) w"
  have h1: "answers w1 = []" and opened: "files w1 ?temp = Some \<lparr>data = [], on_card = False\<rparr>"
    using h by (simp_all add: w1_def)
  obtain w2 where w2: "put c ?temp w1 = ((True, None), w2)" "answers w2 = []" using healthy [OF h1] by blast
  obtain w3 where w3: "Sync ?temp w2 = (True, w3)" "answers w3 = []" "files w3 ?temp \<noteq> None"
    using Sync_healthy [OF w2(2), of ?temp] fills [OF w2(1) opened]
    by (metis option.distinct(1))
  obtain w4 where "CommitStaged ?temp path w3 =
      (\<lparr>wr_error = WriteError_kNone, wr_message = [], wr_name_durable = True\<rparr>, w4)" "answers w4 = []"
    using CommitStaged_healthy [OF w3(2, 3), of path] by auto
  with h w2 w3 show ?thesis by (auto simp: WriteStaged_def Let_def simp flip: w1_def)
qed

lemma write_then_read:
  assumes "answers w = []" "file_path path" "WriteStaged path (put c) w = (r, w')"
  shows "wr_ok r \<and> answers w' = [] \<and> (\<exists>b. files w' path = Some \<lparr>data = bytes_of c, on_card = b\<rparr>)"
  using WriteStaged_healthy [OF assms(1), of path c] assms(3)
    WriteStaged_commits [OF assms(3, 2)] by (auto simp: commits_def wr_ok_def)

end

section \<open>A power cut\<close>

text \<open>What the next boot finds of the state the card was left in: the bytes nothing synced are
  whatever \<open>torn\<close> makes of them.\<close>

definition cut :: "(bytes \<Rightarrow> bytes \<Rightarrow> bytes) \<Rightarrow> (bytes \<rightharpoonup> File) \<Rightarrow> (bytes \<rightharpoonup> File)" where
  "cut torn fs = (\<lambda>p. map_option (\<lambda>f. if on_card f then f else f\<lparr>data := torn p (data f)\<rparr>) (fs p))"

lemma recoverable_cut:
  "recoverable path fs = Some f \<Longrightarrow> on_card f \<Longrightarrow> recoverable path (cut torn fs) = Some f"
  "recoverable path fs = None \<Longrightarrow> recoverable path (cut torn fs) = None"
  by (auto simp: recoverable_def cut_def split: option.splits)

text \<open>C2: On any card, whatever it refuses and whenever (an open, a write, the sync, either rename, the
  removals), a reader that consults \<open>.old\<close> finds the old record or the whole new one in every state
  the card passes through; \<open>WriteAtomically\<close> says it succeeded exactly when the new record is in place,
  and a failure leaves the old one recoverable.\<close>

theorem WriteAtomically_old_or_new:
  assumes "WriteAtomically path c w = (r, w')" "file_path path"
  shows "(\<forall>fs \<in> set (seen w'). fs \<in> set (seen w) \<or>
       recoverable path fs \<in> {recoverable path (files w), Some \<lparr>data = c, on_card = file_sync w\<rparr>}) \<and>
     (if wr_ok r then files w' path = Some \<lparr>data = c, on_card = file_sync w\<rparr>
      else recoverable path (files w') = recoverable path (files w))"
proof -
  have "commits path (Some \<lparr>data = c, on_card = file_sync w\<rparr>) w (wr_ok r) w'"
    using one_piece.WriteStaged_commits assms by (simp add: WriteAtomically_def)
  then show ?thesis by (auto simp: commits_def dest: leaves_seen split: if_splits)
qed

text \<open>C1: With a sync hook installed, a power cut at any moment of a write, with everything unsynced
  torn in any way, leaves the old record or the whole new one for the next boot to read.\<close>

theorem power_cut_keeps_a_record:
  assumes "WriteAtomically path c w = (r, w')" "file_path path" "file_sync w"
    and old: "\<forall>f. recoverable path (files w) = Some f \<longrightarrow> on_card f"
    and at: "fs \<in> set (seen w')" "fs \<notin> set (seen w)"
  shows "recoverable path (cut torn fs) \<in>
    {recoverable path (files w), Some \<lparr>data = c, on_card = True\<rparr>}"
proof -
  have "commits path (Some \<lparr>data = c, on_card = True\<rparr>) w (wr_ok r) w'"
    using one_piece.WriteStaged_commits [OF assms(1, 2) [unfolded WriteAtomically_def]] assms(3) by (simp add: WriteAtomically_def)
  then have "recoverable path fs \<in> {recoverable path (files w), Some \<lparr>data = c, on_card = True\<rparr>}"
    using leaves_seen at by (auto simp: commits_def)
  then show ?thesis
    using old recoverable_cut(1) [of path fs _ torn] recoverable_cut(2) [of path fs torn]
    by (cases "recoverable path fs") auto
qed

text \<open>The same for a record written a piece at a time: the pieces are never published one by one.\<close>

theorem pieces_old_or_new:
  assumes "WriteAtomically_pieces path ps w = (r, w')" "file_path path"
  shows "(\<forall>fs \<in> set (seen w'). fs \<in> set (seen w) \<or>
       recoverable path fs \<in> {recoverable path (files w), Some \<lparr>data = concat ps, on_card = file_sync w\<rparr>}) \<and>
     (if wr_ok r then files w' path = Some \<lparr>data = concat ps, on_card = file_sync w\<rparr>
      else recoverable path (files w') = recoverable path (files w))"
proof -
  have "commits path (Some \<lparr>data = concat ps, on_card = file_sync w\<rparr>) w (wr_ok r) w'"
    using pieces.WriteStaged_commits assms by (simp add: WriteAtomically_pieces_def)
  then show ?thesis by (auto simp: commits_def dest: leaves_seen split: if_splits)
qed

text \<open>A backup that says it succeeded holds every byte of the save and says how many; one that did
  not leaves the backup that was there, on any card, at every moment.\<close>

theorem CopyAtomically_whole_or_nothing:
  assumes "CopyAtomically from to w = (r, w')" "file_path to"
  shows "if cr_ok r
    then \<exists>f. files w from = Some f \<and> files w' to = Some \<lparr>data = data f, on_card = file_sync w\<rparr> \<and>
      bytes_copied r = length (data f)
    else recoverable to (files w') = recoverable to (files w)"
  using CopyAtomically_commits [OF assms, of None] by (auto simp: commits_def split: if_splits)

text \<open>A bounded read returns the whole file or nothing: never a prefix that a read error or the
  bound cut off, and never more than the bound.\<close>

theorem ReadBounded_whole_or_nothing:
  "fst (ReadBounded path limit w) = (outcome, s) \<Longrightarrow>
     if outcome = BoundedRead_kOk
     then length s \<le> limit \<and> (\<exists>f. files w path = Some f \<and> s = data f) else s = []"
proof -
  assume read: "fst (ReadBounded path limit w) = (outcome, s)"
  obtain source w1 where w1: "OpenForReading path w = (source, w1)" by fastforce
  show ?thesis
  proof (cases source)
    case (Inr d)
    then obtain f where f: "files w path = Some f" "data f = d" using OpenForReading_effect [OF w1] by auto
    obtain got failed w2 where w2: "bounded_loop limit d [] w1 = ((got, failed), w2)" by (metis surj_pair)
    then show ?thesis
      using read w1 Inr f bounded_loop_whole [of limit d "[]" w1 _ w2]
      by (cases got) (auto simp: ReadBounded_def split: if_splits)
  qed (use read w1 in \<open>auto simp: ReadBounded_def split: if_splits\<close>)
qed

section \<open>Witnesses\<close>

text \<open>A card that runs Horizon's rename, holds an old record, and refuses the second rename.\<close>

definition sample_card :: Card where
  "sample_card = \<lparr>files = [''/a'' \<mapsto> \<lparr>data = ''old'', on_card = True\<rparr>], seen = [],
     answers = [Does, Does, Does, Does, Does, Does, Does, Does, Does, Refuses ENOSPC],
     rename_replaces = False, file_sync = True\<rparr>"

lemma sample_path: "file_path ''/a''" "file_path ''/b''"
  by (simp_all add: file_path_def)

lemma sample_write: "wr_error (fst (WriteAtomically ''/a'' ''new'' sample_card)) = WriteError_kCommitFailed"
  by code_simp

theorem WriteAtomically_old_or_new_witness:
  "recoverable ''/a'' (files (snd (WriteAtomically ''/a'' ''new'' sample_card))) =
     recoverable ''/a'' (files sample_card)"
  using WriteAtomically_old_or_new [OF surjective_pairing sample_path(1), of "''new''" sample_card]
  by (simp add: sample_write wr_ok_def)

theorem power_cut_keeps_a_record_witness:
  "recoverable ''/a'' (cut (\<lambda>_ _. ''torn'') (seen (snd (WriteAtomically ''/a'' ''new'' sample_card)) ! 0)) \<in>
     {recoverable ''/a'' (files sample_card), Some \<lparr>data = ''new'', on_card = True\<rparr>}"
proof (rule power_cut_keeps_a_record [OF surjective_pairing sample_path(1)])
  show "\<forall>f. recoverable ''/a'' (files sample_card) = Some f \<longrightarrow> on_card f"
    by (simp add: sample_card_def recoverable_def)
  have "length (seen (snd (WriteAtomically ''/a'' ''new'' sample_card))) > 0" by code_simp
  then show "seen (snd (WriteAtomically ''/a'' ''new'' sample_card)) ! 0 \<in>
    set (seen (snd (WriteAtomically ''/a'' ''new'' sample_card)))" by simp
qed (simp_all add: sample_card_def)

theorem pieces_old_or_new_witness:
  "files (snd (WriteAtomically_pieces ''/b'' [''ne'', ''w''] (sample_card\<lparr>answers := []\<rparr>))) ''/b'' =
     Some \<lparr>data = ''new'', on_card = True\<rparr>"
proof -
  have "wr_ok (fst (WriteAtomically_pieces ''/b'' [''ne'', ''w''] (sample_card\<lparr>answers := []\<rparr>)))"
    by code_simp
  then show ?thesis
    using pieces_old_or_new [OF surjective_pairing sample_path(2), of "[''ne'', ''w'']" "sample_card\<lparr>answers := []\<rparr>"]
    by (simp add: sample_card_def)
qed

theorem CopyAtomically_whole_or_nothing_witness:
  "files (snd (CopyAtomically ''/a'' ''/b'' (sample_card\<lparr>answers := []\<rparr>))) ''/b'' =
     Some \<lparr>data = ''old'', on_card = True\<rparr>"
proof -
  have "cr_ok (fst (CopyAtomically ''/a'' ''/b'' (sample_card\<lparr>answers := []\<rparr>)))" by code_simp
  then show ?thesis
    using CopyAtomically_whole_or_nothing [OF surjective_pairing sample_path(2), of "''/a''" "sample_card\<lparr>answers := []\<rparr>"]
    by (simp add: sample_card_def)
qed

theorem ReadBounded_whole_or_nothing_witness:
  "snd (fst (ReadBounded ''/a'' 2 sample_card)) = []"
proof -
  have "fst (fst (ReadBounded ''/a'' 2 sample_card)) = BoundedRead_kTooLarge" by code_simp
  then show ?thesis using ReadBounded_whole_or_nothing [OF surjective_pairing, of "''/a''" 2 sample_card] by simp
qed

lemma refusing_card:
  assumes "answers w = a # as" "a \<noteq> Does"
  shows "\<exists>e. OpenForReading p w = (Inl e, w\<lparr>answers := as\<rparr>)" "Remove p w = w\<lparr>answers := as\<rparr>"
    "Exists p w = (False, w\<lparr>answers := as\<rparr>)"
  using assms by (cases a; simp add: OpenForReading_def Remove_def Exists_def next_answer_def)+

lemma ShredOne_refused:
  assumes "answers w = a # b # c # as" "a \<noteq> Does" "b \<noteq> Does" "c \<noteq> Does"
  shows "ShredOne p w = (True, w\<lparr>answers := as\<rparr>)"
proof -
  obtain e where "OpenForReading p w = (Inl e, w\<lparr>answers := b # c # as\<rparr>)"
    using refusing_card(1) [OF assms(1, 2)] by blast
  then show ?thesis
    using refusing_card(2) [of "w\<lparr>answers := b # c # as\<rparr>" b "c # as"]
      refusing_card(3) [of "w\<lparr>answers := c # as\<rparr>" c as] assms(3, 4) by (simp add: ShredOne_def)
qed

text \<open>C35: \<open>Shred\<close>'s answer is no evidence on a card that stopped answering: whatever the record and whatever is
  beside it, if the card refuses the nine calls \<open>Shred\<close> then comes to, it says that nothing is left and has
  removed nothing. \<open>ShredOne\<close> ends with \<open>Exists\<close>, which reads a file that refuses to open as absent.\<close>

theorem Shred_says_gone_of_a_refusing_card:
  assumes "answers w = refusals @ later" "length refusals = 9" "list_all (\<lambda>a. a \<noteq> Does) refusals"
  shows "fst (Shred path w) \<and> files (snd (Shred path w)) = files w"
proof -
  obtain a1 b1 c1 a2 b2 c2 a3 b3 c3 where r: "refusals = [a1, b1, c1, a2, b2, c2, a3, b3, c3]"
    using assms(2) by (auto simp: length_Suc_conv eval_nat_numeral)
  note refused = assms(1, 3) [unfolded r, simplified]
  have "ShredOne path w = (True, w\<lparr>answers := a2 # b2 # c2 # a3 # b3 # c3 # later\<rparr>)"
    "ShredOne (TempPathFor path) (w\<lparr>answers := a2 # b2 # c2 # a3 # b3 # c3 # later\<rparr>) =
      (True, w\<lparr>answers := a3 # b3 # c3 # later\<rparr>)"
    "ShredOne (PreviousPathFor path) (w\<lparr>answers := a3 # b3 # c3 # later\<rparr>) = (True, w\<lparr>answers := later\<rparr>)"
    using refused by (simp_all add: ShredOne_refused [of w a1 b1 c1 "a2 # b2 # c2 # a3 # b3 # c3 # later"]
        ShredOne_refused [of _ a2 b2 c2 "a3 # b3 # c3 # later"] ShredOne_refused [of _ a3 b3 c3 later])
  then show ?thesis by (simp add: Shred_def)
qed

theorem Shred_says_gone_of_a_refusing_card_witness:
  "fst (Shred ''/a'' (sample_card\<lparr>answers := replicate 9 (Refuses (Errno_other 5))\<rparr>)) \<and>
    files (snd (Shred ''/a'' (sample_card\<lparr>answers := replicate 9 (Refuses (Errno_other 5))\<rparr>))) ''/a'' \<noteq> None"
  using Shred_says_gone_of_a_refusing_card
      [of "sample_card\<lparr>answers := replicate 9 (Refuses (Errno_other 5))\<rparr>" "replicate 9 (Refuses (Errno_other 5))" "[]" "''/a''"]
  by (simp add: sample_card_def list_all_iff)

end
