(* ===== verification/Http.thy ===== *)
theory Http
  imports AtomicFile
begin

text \<open>
  \<open>core/src/http.cpp\<close> and the types of \<open>http.hpp\<close>: what every backend answers in. The transport
  itself (\<open>HttpClient\<close>) is not under \<open>core/\<close> and is an argument of the code that uses it.
\<close>

datatype HttpError = Http_kNone | Http_kInvalidRequest | Http_kUnresolvedHost | Http_kConnectFailed
  | Http_kTls | Http_kTimeout | Http_kCanceled | Http_kTruncated | Http_kWriteFailed | Http_kDiskFull
  | Http_kFileTooLarge | Http_kTransport | Http_kTooLarge

record Header =
  h_name :: bytes
  h_value :: bytes

record Response =
  status :: int
  headers :: "Header list"
  body :: bytes
  bytes_received :: nat
  declared_size :: nat

record HttpResult =
  http_error :: HttpError
  http_message :: bytes
  response :: Response

definition http_ok :: "HttpResult \<Rightarrow> bool" where
  "http_ok r \<longleftrightarrow> http_error r = Http_kNone"

definition successful :: "HttpResult \<Rightarrow> bool" where
  "successful r \<longleftrightarrow> http_ok r \<and> status (response r) \<ge> 200 \<and> status (response r) < 300"

definition Lower :: "char \<Rightarrow> char" where
  "Lower c = (if CHR ''A'' \<le> c \<and> c \<le> CHR ''Z'' then char_of (byte c - 65 + 97) else c)"

definition EqualsIgnoreCase :: "bytes \<Rightarrow> bytes \<Rightarrow> bool" where
  "EqualsIgnoreCase a b \<longleftrightarrow> length a = length b \<and> list_all2 (\<lambda>x y. Lower x = Lower y) a b"

definition ErrorForWrite :: "Errno \<Rightarrow> HttpError" where
  "ErrorForWrite e =
     (case RefusalOf e of Refusal_kFull \<Rightarrow> Http_kDiskFull | Refusal_kFileTooLarge \<Rightarrow> Http_kFileTooLarge
      | Refusal_kRefused \<Rightarrow> Http_kWriteFailed)"

definition AnsweredTooLarge :: "HttpResult \<Rightarrow> bool" where
  "AnsweredTooLarge r \<longleftrightarrow>
     http_error r = Http_kTooLarge \<and> status (response r) \<ge> 200 \<and> status (response r) < 300"

definition TransientStatus :: "int \<Rightarrow> bool" where
  "TransientStatus s \<longleftrightarrow> s \<ge> 500 \<or> s = 408 \<or> s = 429"

fun HttpError_ToString :: "HttpError \<Rightarrow> bytes" where
  "HttpError_ToString Http_kNone = ''ok''"
| "HttpError_ToString Http_kInvalidRequest = ''invalid request''"
| "HttpError_ToString Http_kUnresolvedHost = ''host could not be resolved''"
| "HttpError_ToString Http_kConnectFailed = ''connection failed''"
| "HttpError_ToString Http_kTls = ''TLS failure''"
| "HttpError_ToString Http_kTimeout = ''timed out''"
| "HttpError_ToString Http_kCanceled = ''canceled''"
| "HttpError_ToString Http_kTruncated = ''body ended early''"
| "HttpError_ToString Http_kWriteFailed = ''the card refused the write to the destination file''"
| "HttpError_ToString Http_kDiskFull = ''the card is full''"
| "HttpError_ToString Http_kFileTooLarge = ''the file is too large for the card's format''"
| "HttpError_ToString Http_kTransport = ''transport failure''"
| "HttpError_ToString Http_kTooLarge = ''the response is larger than this client holds''"

definition JoinUrl :: "bytes \<Rightarrow> bytes \<Rightarrow> bytes" where
  "JoinUrl server_url path = rev (dropWhile (\<lambda>c. c = CHR ''/'') (rev server_url)) @ path"

text \<open>The bytes RFC 3986 leaves unreserved, as both functions below test them.\<close>

definition unreserved :: "char \<Rightarrow> bool" where
  "unreserved c \<longleftrightarrow> (CHR ''a'' \<le> c \<and> c \<le> CHR ''z'') \<or> (CHR ''A'' \<le> c \<and> c \<le> CHR ''Z'') \<or>
     (CHR ''0'' \<le> c \<and> c \<le> CHR ''9'') \<or> c = CHR ''-'' \<or> c = CHR ''.'' \<or> c = CHR ''_'' \<or> c = CHR ''~''"

definition IsUrlPathSegment :: "bytes \<Rightarrow> bool" where
  "IsUrlPathSegment v \<longleftrightarrow> list_all unreserved v \<and> v \<noteq> []"

definition FindHeader :: "Header list \<Rightarrow> bytes \<Rightarrow> bytes option" where
  "FindHeader hs name = map_option h_value (find (\<lambda>h. EqualsIgnoreCase (h_name h) name) hs)"

definition PartialPathFor :: "bytes \<Rightarrow> bytes" where
  "PartialPathFor path = path @ ''.part''"

definition kHexUpper :: bytes where "kHexUpper = ''0123456789ABCDEF''"

definition encode_byte :: "char \<Rightarrow> bytes" where
  "encode_byte c =
     (if unreserved c then [c]
      else [CHR ''%'', kHexUpper ! (drop_bit 4 (byte c)), kHexUpper ! (byte c AND 0x0F)])"

definition EncodeQueryValue :: "bytes \<Rightarrow> bytes" where
  "EncodeQueryValue v = concat (map encode_byte v)"

section \<open>Query values\<close>

text \<open>What a server's decoder does (RFC 3986, section 2.1): \<open>%\<close> and two hexadecimal digits are a byte.\<close>

definition hex_digit_value :: "char \<Rightarrow> nat" where
  "hex_digit_value c = (if IsDigit c then byte c - 48 else byte c - 55)"

fun percent_decode :: "bytes \<Rightarrow> bytes" where
  "percent_decode (p # a # b # s) =
     (if p = CHR ''%'' then char_of (16 * hex_digit_value a + hex_digit_value b) # percent_decode s
      else p # percent_decode (a # b # s))"
| "percent_decode s = s"

lemma percent_decode_plain: "c \<noteq> CHR ''%'' \<Longrightarrow> percent_decode (c # s) = c # percent_decode s"
  by (cases "(c # s)" rule: percent_decode.cases) auto

lemma hex_digit_upper:
  "d < 16 \<Longrightarrow> hex_digit_value (kHexUpper ! d) = d \<and> unreserved (kHexUpper ! d)"
proof -
  have "\<forall>d \<in> set [0..<16]. hex_digit_value (kHexUpper ! d) = d \<and> unreserved (kHexUpper ! d)"
    by code_simp
  then show "d < 16 \<Longrightarrow> ?thesis" by simp
qed

lemma nibbles: "drop_bit 4 n = n div 16" "n AND 0x0F = n mod 16" for n :: nat
  using take_bit_eq_mask [of 4 n] by (simp_all add: drop_bit_eq_div take_bit_eq_mod mask_eq_exp_minus_1)

lemma hex_digits_value:
  assumes "n < 256"
  shows "16 * hex_digit_value (kHexUpper ! drop_bit 4 n) + hex_digit_value (kHexUpper ! (n AND 0x0F)) = n"
  using assms hex_digit_upper [of "n div 16"] hex_digit_upper [of "n mod 16"] by (simp add: nibbles)

lemma byte_less: "byte c < 256"
  by simp

lemma percent_decode_byte: "percent_decode (encode_byte c @ s) = c # percent_decode s"
proof (cases "unreserved c")
  case True
  then have "c \<noteq> CHR ''%''" by (auto simp: unreserved_def less_eq_char_def)
  with True show ?thesis by (simp add: encode_byte_def percent_decode_plain)
next
  case False
  then show ?thesis using hex_digits_value [OF byte_less, of c] by (simp add: encode_byte_def)
qed

lemma encode_byte_safe: "list_all (\<lambda>c. unreserved c \<or> c = CHR ''%'') (encode_byte c)"
proof -
  have "byte c div 16 < 16" using byte_less [of c] by linarith
  then show ?thesis
    using hex_digit_upper [of "byte c div 16"] hex_digit_upper [of "byte c mod 16"]
    by (simp add: encode_byte_def nibbles)
qed

text \<open>Any bytes at all (a save's name is the user's) become a query value that no parser can read as
  anything but one value (only unreserved bytes and \<open>%\<close>), and the server decodes them back exactly.\<close>

theorem EncodeQueryValue_exact:
  "percent_decode (EncodeQueryValue v) = v \<and>
     list_all (\<lambda>c. unreserved c \<or> c = CHR ''%'') (EncodeQueryValue v)"
proof (induction v)
  case Nil
  then show ?case by (simp add: EncodeQueryValue_def)
next
  case (Cons c v)
  then show ?case
    using encode_byte_safe [of c] percent_decode_byte [of c "EncodeQueryValue v"]
    by (simp add: EncodeQueryValue_def)
qed

end
