(* ===== verification/Scheduler.thy ===== *)
theory Scheduler
  imports Backoff Http
begin

text \<open>
  \<open>core/src/scheduler.cpp\<close>: the one object that decides when a tick runs. Clock readings are
  arguments: a monotonic one and the console's own, both counts of nanoseconds, as
  \<open>steady_clock\<close> and \<open>system_clock\<close> give them.
\<close>

datatype Trigger = Trigger_kNone | Trigger_kBoot | Trigger_kInterval | Trigger_kOnDemand

fun Trigger_ToString :: "Trigger \<Rightarrow> bytes" where
  "Trigger_ToString Trigger_kNone = ''none''"
| "Trigger_ToString Trigger_kBoot = ''boot''"
| "Trigger_ToString Trigger_kInterval = ''interval''"
| "Trigger_ToString Trigger_kOnDemand = ''on_demand''"

text \<open>\<open>sync_tick.hpp\<close>'s outcomes.\<close>

datatype TickOutcome = Tick_kCompleted | Tick_kPartial | Tick_kUnreported | Tick_kOffline
  | Tick_kRefused | Tick_kUnsupported | Tick_kServerDisabled | Tick_kUnauthorized | Tick_kRescanNeeded
  | Tick_kCanceled | Tick_kDisabled

record SchedulerConfig =
  enabled :: bool
  on_boot :: bool
  interval_min :: int
  sc_backoff :: BackoffConfig
  max_tls_attempts :: int
  max_rescans :: int

definition default_SchedulerConfig :: SchedulerConfig where
  "default_SchedulerConfig =
     \<lparr>enabled = True, on_boot = True, interval_min = 30,
      sc_backoff = \<lparr>floor_ms = 30000, cap_ms = 1800000, jitter = 1 / 4\<rparr>,
      max_tls_attempts = 3, max_rescans = 2\<rparr>"

record Decision =
  trigger :: Trigger
  parked :: bool
  sleep_for :: int

definition no_decision :: Decision where
  "no_decision = \<lparr>trigger = Trigger_kNone, parked = False, sleep_for = 0\<rparr>"

definition run_tick :: "Decision \<Rightarrow> bool" where
  "run_tick d \<longleftrightarrow> trigger d \<noteq> Trigger_kNone"

record Scheduler =
  config :: SchedulerConfig
  backoff :: Backoff
  booted :: bool
  on_demand :: bool
  rerun :: bool
  held :: Trigger
  retry_at :: int
  last_steady :: int
  last_wall :: int
  tls_failures :: int
  rescans :: int

text \<open>2020-01-01T00:00:00Z.\<close>

definition kEarliestCredibleWall :: int where "kEarliestCredibleWall = 1577836800"

definition ns_per_ms :: int where "ns_per_ms = 1000000"

text \<open>\<open>duration_cast\<close> from nanoseconds: towards zero.\<close>

definition to_ms :: "int \<Rightarrow> int" where "to_ms ns = cdiv ns ns_per_ms"

definition non_negative_interval :: "SchedulerConfig \<Rightarrow> SchedulerConfig" where
  "non_negative_interval c = (if interval_min c < 0 then c\<lparr>interval_min := 0\<rparr> else c)"

definition make_Scheduler :: "SchedulerConfig \<Rightarrow> Scheduler" where
  "make_Scheduler c =
     \<lparr>config = non_negative_interval c, backoff = make_Backoff (sc_backoff c), booted = False,
      on_demand = False, rerun = False, held = Trigger_kNone, retry_at = 0, last_steady = 0,
      last_wall = 0, tls_failures = 0, rescans = 0\<rparr>"

definition Reconfigure :: "SchedulerConfig \<Rightarrow> Scheduler \<Rightarrow> Scheduler" where
  "Reconfigure c s =
     s\<lparr>config := non_negative_interval c, backoff := Configure (sc_backoff c) (backoff s),
       tls_failures := 0\<rparr>"

definition RequestNow :: "Scheduler \<Rightarrow> bool \<times> Scheduler" where
  "RequestNow s = (if \<not> enabled (config s) then (False, s) else (True, s\<lparr>on_demand := True\<rparr>))"

definition RunSoon :: "Scheduler \<Rightarrow> Scheduler" where
  "RunSoon s = (if enabled (config s) then s\<lparr>rerun := True\<rparr> else s)"

definition Elapsed :: "int \<Rightarrow> int \<Rightarrow> Scheduler \<Rightarrow> int" where
  "Elapsed steady_now wall_now s =
     (let elapsed = to_ms (steady_now - last_steady s);
          elapsed = (if elapsed < 0 then 0 else elapsed)
      in if last_wall s \<ge> kEarliestCredibleWall * 1000 * ns_per_ms
         then max elapsed (to_ms (wall_now - last_wall s)) else elapsed)"

definition MarkRan :: "int \<Rightarrow> int \<Rightarrow> Scheduler \<Rightarrow> Scheduler" where
  "MarkRan steady_now wall_now s = s\<lparr>last_steady := steady_now, last_wall := wall_now\<rparr>"

definition tls_parked :: "Scheduler \<Rightarrow> bool" where
  "tls_parked s \<longleftrightarrow> tls_failures s \<ge> max_tls_attempts (config s)"

text \<open>\<open>Poll\<close> past the boot tick: what the schedule itself says.\<close>

definition Poll_schedule :: "int \<Rightarrow> int \<Rightarrow> Scheduler \<Rightarrow> Decision" where
  "Poll_schedule steady_now wall_now s =
     (if tls_parked s then no_decision\<lparr>parked := True\<rparr>
      else if bo_failures (backoff s) > 0
      then (if steady_now < retry_at s
            then no_decision\<lparr>sleep_for := to_ms (retry_at s - steady_now)\<rparr>
            else no_decision\<lparr>trigger := Trigger_kInterval\<rparr>)
      else if interval_min (config s) = 0 then no_decision\<lparr>parked := True\<rparr>
      else
        let interval = interval_min (config s) * 60000;
            elapsed = Elapsed steady_now wall_now s
        in if elapsed \<ge> interval then no_decision\<lparr>trigger := Trigger_kInterval\<rparr>
           else no_decision\<lparr>sleep_for := interval - elapsed\<rparr>)"

definition Poll :: "int \<Rightarrow> int \<Rightarrow> Scheduler \<Rightarrow> Decision \<times> Scheduler" where
  "Poll steady_now wall_now s =
     (if \<not> enabled (config s)
      then (no_decision\<lparr>parked := True\<rparr>, s\<lparr>on_demand := False, rerun := False, held := Trigger_kNone\<rparr>)
      else if on_demand s
      then (no_decision\<lparr>trigger := Trigger_kOnDemand\<rparr>,
            s\<lparr>on_demand := False, booted := True, held := Trigger_kNone\<rparr>)
      else if held s \<noteq> Trigger_kNone
      then (no_decision\<lparr>trigger := held s\<rparr>, s\<lparr>held := Trigger_kNone\<rparr>)
      else if rerun s
      then (no_decision\<lparr>trigger := Trigger_kInterval\<rparr>, s\<lparr>rerun := False\<rparr>)
      else if \<not> booted s \<and> on_boot (config s)
      then (no_decision\<lparr>trigger := Trigger_kBoot\<rparr>, s\<lparr>booted := True\<rparr>)
      else
        let s = (if \<not> booted s then MarkRan steady_now wall_now (s\<lparr>booted := True\<rparr>) else s)
        in (Poll_schedule steady_now wall_now s, s))"

definition Defer :: "Trigger \<Rightarrow> Scheduler \<Rightarrow> Scheduler" where
  "Defer t s =
     (if t = Trigger_kNone \<or> \<not> enabled (config s) then s
      else if t = Trigger_kOnDemand then s\<lparr>on_demand := True\<rparr>
      else s\<lparr>held := t\<rparr>)"

text \<open>The end of \<open>Finished\<close>, for a tick that failed.\<close>

definition failed_tick :: "HttpError \<Rightarrow> int \<Rightarrow> roll_input \<Rightarrow> Scheduler \<Rightarrow> Scheduler" where
  "failed_tick transport steady_now roll s =
     (let s = (if transport = Http_kTls
               then (if tls_failures s < max_tls_attempts (config s)
                     then s\<lparr>tls_failures := tls_failures s + 1\<rparr> else s)
               else s\<lparr>tls_failures := 0\<rparr>);
          (delay, b) = Fail roll (backoff s)
      in s\<lparr>backoff := b, retry_at := steady_now + delay * ns_per_ms\<rparr>)"

fun Finished ::
  "TickOutcome \<Rightarrow> HttpError \<Rightarrow> int \<Rightarrow> int \<Rightarrow> roll_input \<Rightarrow> Scheduler \<Rightarrow> Scheduler" where
  "Finished Tick_kRescanNeeded transport steady_now wall_now roll s =
     (if rescans s < max_rescans (config s) then s\<lparr>rescans := rescans s + 1, rerun := True\<rparr>
      else failed_tick transport steady_now roll (s\<lparr>rescans := 0\<rparr>))"
| "Finished Tick_kOffline transport steady_now wall_now roll s =
     failed_tick transport steady_now roll (s\<lparr>rescans := 0\<rparr>)"
| "Finished Tick_kRefused transport steady_now wall_now roll s =
     failed_tick transport steady_now roll (s\<lparr>rescans := 0\<rparr>)"
| "Finished Tick_kUnsupported transport steady_now wall_now roll s =
     failed_tick transport steady_now roll (s\<lparr>rescans := 0\<rparr>)"
| "Finished Tick_kUnauthorized transport steady_now wall_now roll s =
     MarkRan steady_now wall_now (s\<lparr>backoff := Succeed (backoff s), rescans := 0\<rparr>)"
| "Finished Tick_kCanceled transport steady_now wall_now roll s = s"
| "Finished Tick_kDisabled transport steady_now wall_now roll s = s\<lparr>rescans := 0\<rparr>"
| "Finished _ transport steady_now wall_now roll s =
     MarkRan steady_now wall_now
       (s\<lparr>backoff := Succeed (backoff s), tls_failures := 0, rescans := 0\<rparr>)"

definition requested :: "Scheduler \<Rightarrow> bool" where
  "requested s = on_demand s"

section \<open>Every event a scheduler sees\<close>

inductive sched_step :: "Scheduler \<Rightarrow> Scheduler \<Rightarrow> bool" where
  polls: "Poll t w s = (d, s') \<Longrightarrow> sched_step s s'"
| finishes: "sched_step s (Finished outcome transport t w roll s)"
| is_requested: "sched_step s (snd (RequestNow s))"
| runs_soon: "sched_step s (RunSoon s)"
| defers: "sched_step s (Defer tr s)"

text \<open>Every scheduler a program that does not change its settings can hold.\<close>

inductive reachable :: "SchedulerConfig \<Rightarrow> Scheduler \<Rightarrow> bool" for c where
  starts: "reachable c (make_Scheduler c)"
| steps: "reachable c s \<Longrightarrow> sched_step s s' \<Longrightarrow> reachable c s'"

inductive_cases sched_stepE: "sched_step s s'"

definition sched_ok :: "SchedulerConfig \<Rightarrow> Scheduler \<Rightarrow> bool" where
  "sched_ok c s \<longleftrightarrow> config s = non_negative_interval c \<and> backoff_ok (backoff s) \<and>
     bo_config (backoff s) = bo_config (make_Backoff (sc_backoff c)) \<and>
     0 \<le> tls_failures s \<and> tls_failures s \<le> max 0 (max_tls_attempts c) \<and>
     0 \<le> rescans s \<and> rescans s \<le> max 0 (max_rescans c)"

lemma non_negative_interval_simps [simp]:
  "enabled (non_negative_interval c) = enabled c" "max_rescans (non_negative_interval c) = max_rescans c"
  "max_tls_attempts (non_negative_interval c) = max_tls_attempts c" "on_boot (non_negative_interval c) = on_boot c"
  "interval_min (non_negative_interval c) = max 0 (interval_min c)"
  by (auto simp: non_negative_interval_def)

lemma Poll_frame:
  "Poll t w s = (d, s') \<Longrightarrow> config s' = config s \<and> backoff s' = backoff s \<and>
     tls_failures s' = tls_failures s \<and> rescans s' = rescans s"
  by (auto simp: Poll_def MarkRan_def Let_def split: if_splits)

lemma Succeed_config [simp]: "bo_config (Succeed b) = bo_config b"
  by (simp add: Succeed_def)

lemma failed_tick_ok:
  "sched_ok c s \<Longrightarrow> sched_ok c (failed_tick transport t roll s)"
  using Fail_ok [of "backoff s" roll]
  by (auto simp: sched_ok_def failed_tick_def Let_def split_beta)

lemma Finished_ok: "sched_ok c s \<Longrightarrow> sched_ok c (Finished outcome transport t w roll s)"
proof -
  assume ok: "sched_ok c s"
  then have r: "sched_ok c (s\<lparr>rescans := 0\<rparr>)" by (simp add: sched_ok_def)
  show ?thesis
  proof (cases outcome)
    case Tick_kRescanNeeded
    then show ?thesis using ok failed_tick_ok [OF r] by (auto simp: sched_ok_def)
  qed (use ok failed_tick_ok [OF r] in \<open>auto simp: sched_ok_def MarkRan_def Succeed_ok\<close>)
qed

lemma reachable_ok: "reachable c s \<Longrightarrow> sched_ok c s"
proof (induction rule: reachable.induct)
  case starts
  then show ?case by (simp add: sched_ok_def make_Scheduler_def make_Backoff_ok)
next
  case (steps s s')
  from steps(2) show ?case
  proof cases
    case (polls t w d)
    with Poll_frame [OF polls] steps(3) show ?thesis by (auto simp: sched_ok_def)
  next
    case finishes
    with steps(3) Finished_ok show ?thesis by simp
  qed (use steps(3) in \<open>auto simp: sched_ok_def RequestNow_def RunSoon_def Defer_def\<close>)
qed

section \<open>When a tick runs\<close>

text \<open>Nothing is waiting to run but the schedule itself.\<close>

definition quiet :: "Scheduler \<Rightarrow> bool" where
  "quiet s \<longleftrightarrow> enabled (config s) \<and> booted s \<and> \<not> on_demand s \<and> \<not> rerun s \<and> held s = Trigger_kNone"

lemma Poll_quiet: "quiet s \<Longrightarrow> Poll t w s = (Poll_schedule t w s, s)"
  by (simp add: Poll_def quiet_def)

lemma le_div_iff: "0 < k \<Longrightarrow> i \<le> x div k \<longleftrightarrow> i * k \<le> x" for i k x :: int
proof
  assume k: "0 < k" and le: "i \<le> x div k"
  have "i * k \<le> x div k * k" using k le by (intro mult_right_mono) auto
  also have "\<dots> = x - x mod k" by (simp add: minus_mod_eq_div_mult)
  also have "\<dots> \<le> x" using k by simp
  finally show "i * k \<le> x" .
next
  assume k: "0 < k" and le: "i * k \<le> x"
  then have "i * k div k \<le> x div k" by (intro zdiv_mono1)
  with k show "i \<le> x div k" by simp
qed

lemma to_ms_ge: "0 < i \<Longrightarrow> i \<le> to_ms x \<longleftrightarrow> i * ns_per_ms \<le> x"
proof -
  assume i: "0 < i"
  show ?thesis
  proof (cases "0 \<le> x")
    case True
    then show ?thesis using le_div_iff [of ns_per_ms i x] by (simp add: to_ms_def ns_per_ms_def)
  next
    case False
    then have "to_ms x \<le> 0" by (simp add: to_ms_def cdiv_def ns_per_ms_def pos_imp_zdiv_nonneg_iff)
    moreover have "0 < i * ns_per_ms" using i by (simp add: ns_per_ms_def)
    ultimately show ?thesis using i False by linarith
  qed
qed

text \<open>The interval is over by one clock or the other.\<close>

definition interval_over :: "int \<Rightarrow> int \<Rightarrow> int \<Rightarrow> int \<Rightarrow> int \<Rightarrow> bool" where
  "interval_over minutes t w t' w' \<longleftrightarrow>
     t' - t \<ge> minutes * 60000 * ns_per_ms \<or>
     (w \<ge> kEarliestCredibleWall * 1000 * ns_per_ms \<and> w' - w \<ge> minutes * 60000 * ns_per_ms)"

lemma Elapsed_ge:
  assumes "0 < i"
  shows "i \<le> Elapsed t' w' s \<longleftrightarrow> i * ns_per_ms \<le> t' - last_steady s \<or>
    (last_wall s \<ge> kEarliestCredibleWall * 1000 * ns_per_ms \<and> i * ns_per_ms \<le> w' - last_wall s)"
  using assms by (auto simp: Elapsed_def Let_def to_ms_ge [OF assms, symmetric] max_def)

definition ran :: "TickOutcome \<Rightarrow> bool" where
  "ran outcome \<longleftrightarrow> outcome \<in> {Tick_kCompleted, Tick_kPartial, Tick_kUnreported, Tick_kServerDisabled}"

lemma Finished_ran:
  "ran outcome \<Longrightarrow> Finished outcome transport t w roll s =
     MarkRan t w (s\<lparr>backoff := Succeed (backoff s), tls_failures := 0, rescans := 0\<rparr>)"
  by (auto simp: ran_def)

text \<open>C30: After a tick that ran, the next one is the interval's: with nothing else asked for, a poll at
  any later moment hands one out exactly when an interval has passed on the monotonic clock, or on a
  console clock that was set when the tick ended. A suspend of eleven hours is one catch-up tick, and
  setting the clock back brings none.\<close>

theorem one_tick_per_interval:
  assumes s: "quiet s" "0 < interval_min (config s)" "0 < max_tls_attempts (config s)"
    and "ran outcome"
  shows "run_tick (fst (Poll t' w' (Finished outcome transport t w roll s))) \<longleftrightarrow>
    interval_over (interval_min (config s)) t w t' w'"
proof -
  let ?s = "Finished outcome transport t w roll s"
  have f: "?s = MarkRan t w (s\<lparr>backoff := Succeed (backoff s), tls_failures := 0, rescans := 0\<rparr>)"
    using assms(4) by (rule Finished_ran)
  then have "quiet ?s" using s(1) by (simp add: quiet_def MarkRan_def)
  moreover have "interval_min (config s) * 60000 \<le> Elapsed t' w' ?s \<longleftrightarrow>
      interval_over (interval_min (config s)) t w t' w'"
    using s(2) by (subst Elapsed_ge) (simp_all add: f MarkRan_def interval_over_def)
  ultimately show ?thesis
    using s by (simp add: Poll_quiet Poll_schedule_def Let_def f MarkRan_def tls_parked_def Succeed_def
        run_tick_def no_decision_def)
qed

definition failed :: "TickOutcome \<Rightarrow> bool" where
  "failed outcome \<longleftrightarrow> outcome \<in> {Tick_kOffline, Tick_kRefused, Tick_kUnsupported}"

lemma Finished_failed:
  "failed outcome \<Longrightarrow> Finished outcome transport t w roll s = failed_tick transport t roll (s\<lparr>rescans := 0\<rparr>)"
  by (auto simp: failed_def)

lemma failed_tick_quiet: "quiet s \<Longrightarrow> quiet (failed_tick transport t roll s)"
  by (auto simp: quiet_def failed_tick_def Let_def split_beta)

lemma failed_tick_fields:
  "config (failed_tick transport t roll s) = config s"
  "backoff (failed_tick transport t roll s) = snd (Fail roll (backoff s))"
  "retry_at (failed_tick transport t roll s) = t + fst (Fail roll (backoff s)) * ns_per_ms"
  by (auto simp: failed_tick_def Let_def split_beta)

text \<open>A failed tick is retried when its backoff is up and not before, and the backoff is never
  under the floor: an offline console polled as often as anybody likes makes at most one attempt per
  floor.\<close>

theorem failed_tick_waits_out_the_backoff:
  assumes s: "reachable c s" "quiet s" and "failed outcome" "transport \<noteq> Http_kTls"
    and tls: "0 < max_tls_attempts c"
    and curve: "floor_ms (sc_backoff c) < 2 ^ 53" "cap_ms (sc_backoff c) < 2 ^ 53"
  shows "let s' = Finished outcome transport t w roll s in
    (run_tick (fst (Poll t' w' s')) \<longleftrightarrow> t + bo_delay (backoff s') * ns_per_ms \<le> t') \<and>
    max 0 (floor_ms (sc_backoff c)) \<le> bo_delay (backoff s')"
proof -
  let ?s = "Finished outcome transport t w roll s"
  have ok: "sched_ok c s" using s(1) by (rule reachable_ok)
  have f: "?s = failed_tick transport t roll (s\<lparr>rescans := 0\<rparr>)" using assms(3) by (rule Finished_failed)
  have q: "quiet ?s" unfolding f using s(2) by (intro failed_tick_quiet) (simp add: quiet_def)
  have np: "\<not> tls_parked ?s"
    using assms(4) tls ok by (simp add: f failed_tick_def Let_def split_beta tls_parked_def sched_ok_def)
  have b: "curve_ok (backoff s)" and fl: "floor_ms (bo_config (backoff s)) = max 0 (floor_ms (sc_backoff c))"
    using ok make_Backoff_curve_ok [OF curve(2, 1)]
    by (auto simp: sched_ok_def curve_ok_def make_Backoff_config)
  have "0 < bo_failures (snd (Fail roll (backoff s)))"
    using b by (intro Fail_failures_pos) (simp add: curve_ok_def)
  moreover have "floor_ms (bo_config (backoff s)) \<le> fst (Fail roll (backoff s))"
    using bo.fails_wait [OF b, of roll "[]"] by simp
  ultimately show ?thesis
    using fl np q
    by (simp add: Poll_quiet Poll_schedule_def f failed_tick_fields run_tick_def no_decision_def Let_def)
qed

definition rescan_round :: "int \<times> int \<times> HttpError \<times> roll_input \<Rightarrow> Scheduler \<Rightarrow> Scheduler" where
  "rescan_round e s = (case e of (t, w, transport, roll) \<Rightarrow>
     Finished Tick_kRescanNeeded transport t w roll (snd (Poll t w s)))"

lemma rescan_round_within:
  assumes "enabled (config s)" "booted s" "\<not> on_demand s" "held s = Trigger_kNone"
    "rescans s < max_rescans (config s)"
  shows "rescan_round e s = s\<lparr>rescans := rescans s + 1, rerun := True\<rparr>"
  using assms by (cases e) (auto simp: rescan_round_def Poll_def)

lemma rescan_rounds_within:
  "enabled (config s) \<Longrightarrow> booted s \<Longrightarrow> \<not> on_demand s \<Longrightarrow> held s = Trigger_kNone \<Longrightarrow>
     rescans s + int (length es) \<le> max_rescans (config s) \<Longrightarrow> es \<noteq> [] \<Longrightarrow>
     fold rescan_round es s = s\<lparr>rescans := rescans s + int (length es), rerun := True\<rparr>"
proof (induction es arbitrary: s)
  case (Cons e es)
  then have r: "rescan_round e s = s\<lparr>rescans := rescans s + 1, rerun := True\<rparr>"
    by (intro rescan_round_within) auto
  show ?case
  proof (cases "es = []")
    case False
    have "fold rescan_round es (rescan_round e s) =
        (rescan_round e s)\<lparr>rescans := rescans (rescan_round e s) + int (length es), rerun := True\<rparr>"
      using Cons.prems False by (intro Cons.IH) (auto simp: r)
    then show ?thesis by (simp add: r)
  qed (simp add: r)
qed simp

text \<open>C34: A tick that keeps asking to be run again (\<open>kRescanNeeded\<close>) is run again at once at most
  \<open>max_rescans\<close> times in a row; the answer after that is a failure like any other, with a backoff.\<close>

theorem rescans_are_bounded:
  assumes s: "reachable c s" "quiet s" "rescans s = 0" "0 \<le> max_rescans c" and n: "0 < length es"
  shows "(if int (length es) \<le> max_rescans c then rerun (fold rescan_round es s)
    else int (length es) = max_rescans c + 1 \<longrightarrow>
      \<not> rerun (fold rescan_round es s) \<and> 0 < bo_failures (backoff (fold rescan_round es s)))"
proof (cases "int (length es) \<le> max_rescans c")
  case True
  have "config s = non_negative_interval c" using reachable_ok [OF s(1)] by (simp add: sched_ok_def)
  with True s n show ?thesis by (subst rescan_rounds_within) (auto simp: quiet_def)
next
  case False
  have cfg: "config s = non_negative_interval c" and b: "backoff_ok (backoff s)"
    using reachable_ok [OF s(1)] by (simp_all add: sched_ok_def)
  have "\<not> rerun (fold rescan_round es s) \<and> 0 < bo_failures (backoff (fold rescan_round es s))"
    if len: "int (length es) = max_rescans c + 1"
  proof -
    obtain es' e where es: "es = es' @ [e]" using n by (cases es rule: rev_cases) auto
    obtain t w transport roll where e: "e = (t, w, transport, roll)" by (cases e)
    have m: "int (length es') = max_rescans c" using len es by simp
    define s1 where "s1 = fold rescan_round es' s"
    have s1: "s1 = s\<lparr>rescans := max_rescans c, rerun := es' \<noteq> []\<rparr>"
    proof (cases "es' = []")
      case True
      with m s show ?thesis by (cases s) (simp add: s1_def quiet_def)
    next
      case False
      with m s cfg show ?thesis
        using rescan_rounds_within [of s es'] by (auto simp: s1_def quiet_def)
    qed
    have "snd (Poll t w s1) = s1\<lparr>rerun := False\<rparr>"
      using s(2) by (cases s) (auto simp: s1 quiet_def Poll_def Let_def)
    then have "rescan_round e s1 = failed_tick transport t roll (s1\<lparr>rerun := False, rescans := 0\<rparr>)"
      using cfg by (simp add: rescan_round_def e s1)
    then have "rerun (rescan_round e s1) = False"
      "backoff (rescan_round e s1) = snd (Fail roll (backoff s))"
      by (auto simp: failed_tick_def Let_def split_beta s1)
    then show ?thesis using Fail_failures_pos [OF b, of roll] by (simp add: es s1_def)
  qed
  with False show ?thesis by simp
qed

section \<open>The TLS park\<close>

definition tls_fail :: "int \<times> roll_input \<Rightarrow> Scheduler \<Rightarrow> Scheduler" where
  "tls_fail e s = (case e of (t, roll) \<Rightarrow> Finished Tick_kOffline Http_kTls t 0 roll s)"

lemma tls_fail_fields:
  "config (tls_fail e s) = config s"
  "tls_failures (tls_fail e s) =
     (if tls_failures s < max_tls_attempts (config s) then tls_failures s + 1 else tls_failures s)"
  "quiet (tls_fail e s) = quiet s"
  by (cases e; simp add: tls_fail_def failed_tick_def Let_def split_beta quiet_def)+

lemma tls_fails_fields:
  "0 \<le> tls_failures s \<Longrightarrow> min (max_tls_attempts (config s)) (int (length es)) \<le> tls_failures (fold tls_fail es s) \<and>
     config (fold tls_fail es s) = config s \<and> quiet (fold tls_fail es s) = quiet s"
proof -
  have "min (max_tls_attempts (config s)) (tls_failures s + int (length es)) \<le> tls_failures (fold tls_fail es s) \<and>
      config (fold tls_fail es s) = config s \<and> quiet (fold tls_fail es s) = quiet s"
  proof (induction es arbitrary: s)
    case (Cons e es)
    show ?case using Cons.IH [of "tls_fail e s"] by (auto simp: tls_fail_fields split: if_splits)
  qed simp
  then show "0 \<le> tls_failures s \<Longrightarrow> ?thesis" by linarith
qed

text \<open>A certificate the console does not trust costs \<open>max_tls_attempts\<close> handshakes and no more: after
  that many failures every poll parks, at any time and however often it is asked, and changes nothing.\<close>

theorem tls_failures_park:
  assumes "reachable c s" "quiet s" "max_tls_attempts c \<le> int (length es)"
  shows "Poll t w (fold tls_fail es s) = (no_decision\<lparr>parked := True\<rparr>, fold tls_fail es s)"
proof -
  have "config s = non_negative_interval c" "0 \<le> tls_failures s"
    using reachable_ok [OF assms(1)] by (simp_all add: sched_ok_def)
  with tls_fails_fields [of s es] assms(2, 3) show ?thesis
    by (auto simp: Poll_quiet Poll_schedule_def tls_parked_def)
qed

text \<open>The park is lifted by no tick that reached the server and was refused for its token, although its
  handshake succeeded: \<open>Finished\<close> clears \<open>tls_failures_\<close> on every answer of a server but that one.\<close>

lemma park_outlives_a_401:
  "tls_parked s \<Longrightarrow> tls_parked (Finished Tick_kUnauthorized Http_kNone t w roll s)"
  by (simp add: tls_parked_def MarkRan_def)

section \<open>A tick that could not start\<close>

text \<open>A tick handed back because a game is running is not lost: the next poll, whenever it is, hands
  the same one out again, and with it the boot tick or the press it was.\<close>

theorem deferred_tick_comes_back:
  assumes "Poll t w s = (d, s')" "run_tick d"
  shows "fst (Poll t' w' (Defer (trigger d) s')) = d"
  using assms
  by (auto simp: Poll_def Poll_schedule_def Defer_def run_tick_def no_decision_def MarkRan_def Let_def
      split: if_splits)

text \<open>While sync is switched off nothing is handed out and nothing is queued: a press, a rescan or a
  held tick that was waiting is dropped by the poll that finds the switch off, so turning it back on
  runs none of them.\<close>

theorem switched_off_drops_what_waits:
  assumes "\<not> enabled (config s)"
  shows "fst (Poll t w s) = no_decision\<lparr>parked := True\<rparr> \<and>
    Poll t' w' (Reconfigure c (snd (Poll t w s))) =
      Poll t' w' ((Reconfigure c s)\<lparr>on_demand := False, rerun := False, held := Trigger_kNone\<rparr>)"
proof -
  have "Reconfigure c (snd (Poll t w s)) =
      (Reconfigure c s)\<lparr>on_demand := False, rerun := False, held := Trigger_kNone\<rparr>"
    using assms by (cases s) (simp add: Poll_def Reconfigure_def)
  with assms show ?thesis by (simp add: Poll_def)
qed

section \<open>Witnesses\<close>

text \<open>A console that polled once after boot.\<close>

definition sample_scheduler :: Scheduler where
  "sample_scheduler = snd (Poll 0 0 (make_Scheduler default_SchedulerConfig))"

lemma sample_reachable: "reachable default_SchedulerConfig sample_scheduler"
  unfolding sample_scheduler_def
  by (rule reachable.steps [OF reachable.starts]) (rule sched_step.polls, rule surjective_pairing)

lemma sample_scheduler_fields:
  "quiet sample_scheduler" "rescans sample_scheduler = 0" "config sample_scheduler = default_SchedulerConfig"
  by (simp_all add: sample_scheduler_def Poll_def make_Scheduler_def default_SchedulerConfig_def
      non_negative_interval_def quiet_def)

theorem one_tick_per_interval_witness:
  "run_tick (fst (Poll 1800000000000 0 (Finished Tick_kPartial Http_kNone 0 0 (None, 7) sample_scheduler)))"
proof -
  have "interval_over 30 0 0 1800000000000 0" by (simp add: interval_over_def ns_per_ms_def)
  then show ?thesis
    using one_tick_per_interval [OF sample_scheduler_fields(1), of Tick_kPartial]
    by (simp add: sample_scheduler_fields default_SchedulerConfig_def ran_def del: Finished.simps)
qed

theorem failed_tick_waits_out_the_backoff_witness:
  "let s' = Finished Tick_kOffline Http_kTimeout 0 0 (Some 1, 0) sample_scheduler in
    (run_tick (fst (Poll 5 0 s')) \<longleftrightarrow> 0 + bo_delay (backoff s') * ns_per_ms \<le> 5) \<and>
    max 0 (floor_ms (sc_backoff default_SchedulerConfig)) \<le> bo_delay (backoff s')"
  by (rule failed_tick_waits_out_the_backoff [OF sample_reachable sample_scheduler_fields(1)])
    (simp_all add: failed_def default_SchedulerConfig_def)

theorem rescans_are_bounded_witness:
  "rerun (fold rescan_round [(0, 0, Http_kNone, (None, 7)), (1, 1, Http_kNone, (None, 7))] sample_scheduler)"
  using rescans_are_bounded [OF sample_reachable sample_scheduler_fields(1, 2),
      of "[(0, 0, Http_kNone, (None, 7)), (1, 1, Http_kNone, (None, 7))]"]
  by (simp add: default_SchedulerConfig_def)

theorem tls_failures_park_witness:
  "parked (fst (Poll 9 9 (fold tls_fail [(0, (None, 7)), (1, (None, 7)), (2, (None, 7))] sample_scheduler)))"
  using tls_failures_park [OF sample_reachable sample_scheduler_fields(1), of "[(0, (None, 7)), (1, (None, 7)), (2, (None, 7))]" 9 9]
  by (simp add: default_SchedulerConfig_def del: fold_simps)

theorem deferred_tick_comes_back_witness:
  "trigger (fst (Poll 5 5 (Defer Trigger_kBoot (snd (Poll 0 0 (make_Scheduler default_SchedulerConfig)))))) =
     Trigger_kBoot"
proof -
  have "trigger (fst (Poll 0 0 (make_Scheduler default_SchedulerConfig))) = Trigger_kBoot"
    by (simp add: Poll_def make_Scheduler_def default_SchedulerConfig_def non_negative_interval_def no_decision_def)
  then show ?thesis
    using deferred_tick_comes_back [OF surjective_pairing, of 0 0 "make_Scheduler default_SchedulerConfig" 5 5]
    by (simp add: run_tick_def)
qed

theorem switched_off_drops_what_waits_witness:
  "fst (Poll 0 0 (sample_scheduler\<lparr>config := default_SchedulerConfig\<lparr>enabled := False\<rparr>\<rparr>)) =
     no_decision\<lparr>parked := True\<rparr>"
  using switched_off_drops_what_waits [of "sample_scheduler\<lparr>config := default_SchedulerConfig\<lparr>enabled := False\<rparr>\<rparr>" 0 0]
  by simp

end
