(* ===== verification/Hashes.thy ===== *)
theory Hashes
  imports AtomicFile
begin

text \<open>
  \<open>core/src/md5.cpp\<close>, \<open>sha1.cpp\<close> and \<open>sha256.cpp\<close>, and the streaming of a file through a hasher
  (\<open>hash_file.hpp\<close>, \<open>state::HashFile\<close>). The two hashers buffer a partial block in the same way, so
  \<open>Update\<close> is one definition over the compression.
\<close>

section \<open>Words and bytes\<close>

definition RotateLeft :: "u32 \<Rightarrow> nat \<Rightarrow> u32" where
  "RotateLeft v by = push_bit by v OR drop_bit (32 - by) v"

definition RotateRight :: "u32 \<Rightarrow> nat \<Rightarrow> u32" where
  "RotateRight v by = drop_bit by v OR push_bit (32 - by) v"

definition byte32 :: "char \<Rightarrow> u32" where
  "byte32 c = of_nat (byte c)"

text \<open>The \<open>at\<close>-th 32 bit word of a block, little-endian (MD5) and big-endian (SHA).\<close>

definition word_le :: "bytes \<Rightarrow> nat \<Rightarrow> u32" where
  "word_le b at = byte32 (b ! (at * 4)) OR push_bit 8 (byte32 (b ! (at * 4 + 1))) OR
     push_bit 16 (byte32 (b ! (at * 4 + 2))) OR push_bit 24 (byte32 (b ! (at * 4 + 3)))"

definition word_be :: "bytes \<Rightarrow> nat \<Rightarrow> u32" where
  "word_be b at = push_bit 24 (byte32 (b ! (at * 4))) OR push_bit 16 (byte32 (b ! (at * 4 + 1))) OR
     push_bit 8 (byte32 (b ! (at * 4 + 2))) OR byte32 (b ! (at * 4 + 3))"

definition low_byte :: "'a::len word \<Rightarrow> char" where
  "low_byte w = char_of (unat (w AND 0xff))"

definition bytes_le :: "u32 \<Rightarrow> bytes" where
  "bytes_le w = map (\<lambda>k. low_byte (drop_bit (k * 8) w)) [0..<4]"

definition bytes_be :: "u32 \<Rightarrow> bytes" where
  "bytes_be w = map (\<lambda>k. low_byte (drop_bit (24 - k * 8) w)) [0..<4]"

definition length_le :: "u64 \<Rightarrow> bytes" where
  "length_le bits = map (\<lambda>k. low_byte (drop_bit (k * 8) bits)) [0..<8]"

definition kDigits :: bytes where "kDigits = ''0123456789abcdef''"

definition ToHex :: "bytes \<Rightarrow> bytes" where
  "ToHex bs = concat (map (\<lambda>c. [kDigits ! drop_bit 4 (byte c), kDigits ! (byte c AND 0x0f)]) bs)"

section \<open>Buffering\<close>

record 's Hasher =
  hash_state :: 's
  pending :: bytes
  absorbed :: u64

text \<open>The loop over whole blocks: the state, and what is left over.\<close>

function absorb_blocks :: "('s \<Rightarrow> bytes \<Rightarrow> 's) \<Rightarrow> 's \<Rightarrow> bytes \<Rightarrow> 's \<times> bytes" where
  "absorb_blocks compress st d =
     (if length d < 64 then (st, d) else absorb_blocks compress (compress st (take 64 d)) (drop 64 d))"
  by pat_completeness auto
termination by (relation "measure (\<lambda>(_, _, d). length d)") auto

declare absorb_blocks.simps [simp del]

text \<open>Topping up a partial block first: the hasher, and the bytes not taken.\<close>

definition top_up :: "('s \<Rightarrow> bytes \<Rightarrow> 's) \<Rightarrow> bytes \<Rightarrow> 's Hasher \<Rightarrow> 's Hasher \<times> bytes" where
  "top_up compress d h =
     (if pending h = [] then (h, d)
      else
        let room = 64 - length (pending h);
            p = pending h @ take room d
        in (if length p = 64 then h\<lparr>hash_state := compress (hash_state h) p, pending := []\<rparr>
            else h\<lparr>pending := p\<rparr>, drop room d))"

definition Update :: "('s \<Rightarrow> bytes \<Rightarrow> 's) \<Rightarrow> bytes \<Rightarrow> 's Hasher \<Rightarrow> 's Hasher" where
  "Update compress d h =
     (let (h, rest) = top_up compress d h;
          (st, rest) = absorb_blocks compress (hash_state h) rest
      in h\<lparr>hash_state := st, pending := pending h @ rest, absorbed := absorbed h + of_nat (length d)\<rparr>)"

text \<open>The padded tail: what is buffered, a 0x80 byte, zeroes and the length, in one block or two.\<close>

definition padded :: "bytes \<Rightarrow> bytes \<Rightarrow> bytes" where
  "padded buffered len_bytes =
     (let blocks = (if length buffered + 9 \<le> 64 then 1 else 2 :: nat)
      in buffered @ [char_of (0x80 :: nat)] @
         replicate (blocks * 64 - 8 - (length buffered + 1)) (char_of (0 :: nat)) @ len_bytes)"

definition finish_state :: "('s \<Rightarrow> bytes \<Rightarrow> 's) \<Rightarrow> (u64 \<Rightarrow> bytes) \<Rightarrow> 's Hasher \<Rightarrow> 's" where
  "finish_state compress len_bytes h =
     fst (absorb_blocks compress (hash_state h) (padded (pending h) (len_bytes (absorbed h * 8))))"

section \<open>MD5\<close>

definition kSineTable :: "u32 list" where
  "kSineTable =
    [0xd76aa478, 0xe8c7b756, 0x242070db, 0xc1bdceee, 0xf57c0faf, 0x4787c62a, 0xa8304613, 0xfd469501] @
    [0x698098d8, 0x8b44f7af, 0xffff5bb1, 0x895cd7be, 0x6b901122, 0xfd987193, 0xa679438e, 0x49b40821] @
    [0xf61e2562, 0xc040b340, 0x265e5a51, 0xe9b6c7aa, 0xd62f105d, 0x02441453, 0xd8a1e681, 0xe7d3fbc8] @
    [0x21e1cde6, 0xc33707d6, 0xf4d50d87, 0x455a14ed, 0xa9e3e905, 0xfcefa3f8, 0x676f02d9, 0x8d2a4c8a] @
    [0xfffa3942, 0x8771f681, 0x6d9d6122, 0xfde5380c, 0xa4beea44, 0x4bdecfa9, 0xf6bb4b60, 0xbebfbc70] @
    [0x289b7ec6, 0xeaa127fa, 0xd4ef3085, 0x04881d05, 0xd9d4d039, 0xe6db99e5, 0x1fa27cf8, 0xc4ac5665] @
    [0xf4292244, 0x432aff97, 0xab9423a7, 0xfc93a039, 0x655b59c3, 0x8f0ccc92, 0xffeff47d, 0x85845dd1] @
    [0x6fa87e4f, 0xfe2ce6e0, 0xa3014314, 0x4e0811a1, 0xf7537e82, 0xbd3af235, 0x2ad7d2bb, 0xeb86d391]"

definition kShifts :: "nat list" where
  "kShifts =
    [7, 12, 17, 22, 7, 12, 17, 22, 7, 12, 17, 22, 7, 12, 17, 22,
     5, 9, 14, 20, 5, 9, 14, 20, 5, 9, 14, 20, 5, 9, 14, 20,
     4, 11, 16, 23, 4, 11, 16, 23, 4, 11, 16, 23, 4, 11, 16, 23,
     6, 10, 15, 21, 6, 10, 15, 21, 6, 10, 15, 21, 6, 10, 15, 21]"

type_synonym md5_state = "u32 \<times> u32 \<times> u32 \<times> u32"

definition md5_round :: "bytes \<Rightarrow> nat \<Rightarrow> md5_state \<Rightarrow> md5_state" where
  "md5_round block at s =
     (case s of (a, b, c, d) \<Rightarrow>
        let (mixed, word) =
              (if at < 16 then ((b AND c) OR (NOT b AND d), at)
               else if at < 32 then ((d AND b) OR (NOT d AND c), (5 * at + 1) mod 16)
               else if at < 48 then (b XOR c XOR d, (3 * at + 5) mod 16)
               else (c XOR (b OR NOT d), (7 * at) mod 16));
            rotated = RotateLeft (a + mixed + kSineTable ! at + word_le block word) (kShifts ! at)
        in (d, b + rotated, b, c))"

definition md5_Compress :: "md5_state \<Rightarrow> bytes \<Rightarrow> md5_state" where
  "md5_Compress s block =
     (case s of (a0, b0, c0, d0) \<Rightarrow>
        case fold (md5_round block) [0..<64] s of (a, b, c, d) \<Rightarrow> (a0 + a, b0 + b, c0 + c, d0 + d))"

definition Md5Hasher :: "md5_state Hasher" where
  "Md5Hasher = \<lparr>hash_state = (0x67452301, 0xefcdab89, 0x98badcfe, 0x10325476), pending = [], absorbed = 0\<rparr>"

definition Md5_Update :: "bytes \<Rightarrow> md5_state Hasher \<Rightarrow> md5_state Hasher" where
  "Md5_Update = Update md5_Compress"

definition Md5_Finish :: "md5_state Hasher \<Rightarrow> bytes" where
  "Md5_Finish h =
     (case finish_state md5_Compress length_le h of (a, b, c, d) \<Rightarrow>
        bytes_le a @ bytes_le b @ bytes_le c @ bytes_le d)"

definition Md5_FinishHex :: "md5_state Hasher \<Rightarrow> bytes" where
  "Md5_FinishHex h = ToHex (Md5_Finish h)"

definition Md5 :: "bytes \<Rightarrow> bytes" where
  "Md5 d = Md5_Finish (Md5_Update d Md5Hasher)"

definition Md5Hex :: "bytes \<Rightarrow> bytes" where
  "Md5Hex d = ToHex (Md5 d)"

section \<open>SHA-1\<close>

type_synonym sha1_state = "u32 \<times> u32 \<times> u32 \<times> u32 \<times> u32"

definition sha1_schedule :: "bytes \<Rightarrow> u32 list" where
  "sha1_schedule block =
     fold (\<lambda>at ws. ws @ [RotateLeft (ws ! (at - 3) XOR ws ! (at - 8) XOR ws ! (at - 14) XOR ws ! (at - 16)) 1])
       [16..<80] (map (word_be block) [0..<16])"

definition sha1_round :: "u32 list \<Rightarrow> nat \<Rightarrow> sha1_state \<Rightarrow> sha1_state" where
  "sha1_round words at s =
     (case s of (a, b, c, d, e) \<Rightarrow>
        let (mixed, constant) =
              (if at < 20 then ((b AND c) OR (NOT b AND d), 0x5a827999)
               else if at < 40 then (b XOR c XOR d, 0x6ed9eba1)
               else if at < 60 then ((b AND c) OR (b AND d) OR (c AND d), 0x8f1bbcdc)
               else (b XOR c XOR d, 0xca62c1d6));
            rotated = RotateLeft a 5 + mixed + e + constant + words ! at
        in (rotated, a, RotateLeft b 30, c, d))"

definition sha1_Compress :: "sha1_state \<Rightarrow> bytes \<Rightarrow> sha1_state" where
  "sha1_Compress s block =
     (case s of (a0, b0, c0, d0, e0) \<Rightarrow>
        case fold (sha1_round (sha1_schedule block)) [0..<80] s of (a, b, c, d, e) \<Rightarrow>
          (a0 + a, b0 + b, c0 + c, d0 + d, e0 + e))"

definition Sha1Hasher :: "sha1_state Hasher" where
  "Sha1Hasher = \<lparr>hash_state = (0x67452301, 0xefcdab89, 0x98badcfe, 0x10325476, 0xc3d2e1f0),
     pending = [], absorbed = 0\<rparr>"

definition Sha1_Update :: "bytes \<Rightarrow> sha1_state Hasher \<Rightarrow> sha1_state Hasher" where
  "Sha1_Update = Update sha1_Compress"

definition Sha1_Finish :: "sha1_state Hasher \<Rightarrow> bytes" where
  "Sha1_Finish h =
     (case finish_state sha1_Compress (\<lambda>bits. rev (length_le bits)) h of (a, b, c, d, e) \<Rightarrow>
        bytes_be a @ bytes_be b @ bytes_be c @ bytes_be d @ bytes_be e)"

definition Sha1 :: "bytes \<Rightarrow> bytes" where
  "Sha1 d = Sha1_Finish (Sha1_Update d Sha1Hasher)"

definition Sha1Hex :: "bytes \<Rightarrow> bytes" where
  "Sha1Hex d = ToHex (Sha1 d)"

section \<open>SHA-256\<close>

definition kRoundConstants :: "u32 list" where
  "kRoundConstants =
    [0x428a2f98, 0x71374491, 0xb5c0fbcf, 0xe9b5dba5, 0x3956c25b, 0x59f111f1, 0x923f82a4, 0xab1c5ed5] @
    [0xd807aa98, 0x12835b01, 0x243185be, 0x550c7dc3, 0x72be5d74, 0x80deb1fe, 0x9bdc06a7, 0xc19bf174] @
    [0xe49b69c1, 0xefbe4786, 0x0fc19dc6, 0x240ca1cc, 0x2de92c6f, 0x4a7484aa, 0x5cb0a9dc, 0x76f988da] @
    [0x983e5152, 0xa831c66d, 0xb00327c8, 0xbf597fc7, 0xc6e00bf3, 0xd5a79147, 0x06ca6351, 0x14292967] @
    [0x27b70a85, 0x2e1b2138, 0x4d2c6dfc, 0x53380d13, 0x650a7354, 0x766a0abb, 0x81c2c92e, 0x92722c85] @
    [0xa2bfe8a1, 0xa81a664b, 0xc24b8b70, 0xc76c51a3, 0xd192e819, 0xd6990624, 0xf40e3585, 0x106aa070] @
    [0x19a4c116, 0x1e376c08, 0x2748774c, 0x34b0bcb5, 0x391c0cb3, 0x4ed8aa4a, 0x5b9cca4f, 0x682e6ff3] @
    [0x748f82ee, 0x78a5636f, 0x84c87814, 0x8cc70208, 0x90befffa, 0xa4506ceb, 0xbef9a3f7, 0xc67178f2]"

type_synonym sha256_state = "u32 \<times> u32 \<times> u32 \<times> u32 \<times> u32 \<times> u32 \<times> u32 \<times> u32"

definition sha256_schedule :: "bytes \<Rightarrow> u32 list" where
  "sha256_schedule block =
     fold (\<lambda>at ws.
         let s0 = RotateRight (ws ! (at - 15)) 7 XOR RotateRight (ws ! (at - 15)) 18 XOR drop_bit 3 (ws ! (at - 15));
             s1 = RotateRight (ws ! (at - 2)) 17 XOR RotateRight (ws ! (at - 2)) 19 XOR drop_bit 10 (ws ! (at - 2))
         in ws @ [ws ! (at - 16) + s0 + ws ! (at - 7) + s1])
       [16..<64] (map (word_be block) [0..<16])"

definition sha256_round :: "u32 list \<Rightarrow> nat \<Rightarrow> sha256_state \<Rightarrow> sha256_state" where
  "sha256_round schedule at s =
     (case s of (a, b, c, d, e, f, g, h) \<Rightarrow>
        let s1 = RotateRight e 6 XOR RotateRight e 11 XOR RotateRight e 25;
            choice = (e AND f) XOR (NOT e AND g);
            temp1 = h + s1 + choice + kRoundConstants ! at + schedule ! at;
            s0 = RotateRight a 2 XOR RotateRight a 13 XOR RotateRight a 22;
            majority = (a AND b) XOR (a AND c) XOR (b AND c);
            temp2 = s0 + majority
        in (temp1 + temp2, a, b, c, d + temp1, e, f, g))"

definition sha256_Compress :: "sha256_state \<Rightarrow> bytes \<Rightarrow> sha256_state" where
  "sha256_Compress s block =
     (case s of (a0, b0, c0, d0, e0, f0, g0, h0) \<Rightarrow>
        case fold (sha256_round (sha256_schedule block)) [0..<64] s of (a, b, c, d, e, f, g, h) \<Rightarrow>
          (a0 + a, b0 + b, c0 + c, d0 + d, e0 + e, f0 + f, g0 + g, h0 + h))"

definition Sha256 :: "bytes \<Rightarrow> bytes" where
  "Sha256 d =
     (let (st, rest) = absorb_blocks sha256_Compress
            (0x6a09e667, 0xbb67ae85, 0x3c6ef372, 0xa54ff53a, 0x510e527f, 0x9b05688c, 0x1f83d9ab, 0x5be0cd19) d;
          tail = padded rest (rev (length_le (of_nat (length d) * 8)))
      in case fst (absorb_blocks sha256_Compress st tail) of (a, b, c, d, e, f, g, h) \<Rightarrow>
        bytes_be a @ bytes_be b @ bytes_be c @ bytes_be d @
        bytes_be e @ bytes_be f @ bytes_be g @ bytes_be h)"

definition Sha256Hex :: "bytes \<Rightarrow> nat \<Rightarrow> bytes" where
  "Sha256Hex d n = ToHex (take (if n < 32 then n else 32) (Sha256 d))"

section \<open>Hashing a file\<close>

text \<open>\<open>StreamFile\<close>'s loop, 4 KiB at a time: the hasher, and whether a read failed.\<close>

function stream_loop :: "bytes \<Rightarrow> md5_state Hasher \<Rightarrow> Card \<Rightarrow> (md5_state Hasher \<times> bool) \<times> Card" where
  "stream_loop rest h w =
     (let (failed, w) = ReadFails w in
      if failed then ((h, True), w)
      else if rest = [] then ((h, False), w)
      else stream_loop (drop 4096 rest) (Md5_Update (take 4096 rest) h) w)"
  by pat_completeness auto
termination by (relation "measure (\<lambda>(rest, _, _). length rest)") auto

declare stream_loop.simps [simp del]

datatype HashError = HashError_kNone | HashError_kUnreadable

record HashOutcome =
  ho_content_hash :: bytes
  ho_error :: HashError
  ho_reused :: bool
  ho_message :: bytes

definition ho_ok :: "HashOutcome \<Rightarrow> bool" where
  "ho_ok r \<longleftrightarrow> ho_error r = HashError_kNone"

definition HashFile :: "bytes \<Rightarrow> Card \<Rightarrow> HashOutcome \<times> Card" where
  "HashFile path w =
     (let (source, w) = OpenForReading path w in
      case source of
        Inl _ \<Rightarrow> (\<lparr>ho_content_hash = [], ho_error = HashError_kUnreadable, ho_reused = False,
                   ho_message = Describe_path path ''could not be opened to hash''\<rparr>, w)
      | Inr d \<Rightarrow>
          let ((h, failed), w) = stream_loop d Md5Hasher w in
          (if failed
           then \<lparr>ho_content_hash = [], ho_error = HashError_kUnreadable, ho_reused = False,
                  ho_message = Describe_path path ''could not be read to hash''\<rparr>
           else \<lparr>ho_content_hash = Md5_FinishHex h, ho_error = HashError_kNone, ho_reused = False, ho_message = []\<rparr>, w))"

section \<open>However it arrives\<close>

lemma absorb_blocks_short: "length d < 64 \<Longrightarrow> absorb_blocks compress st d = (st, d)"
  by (simp add: absorb_blocks.simps)

lemma absorb_blocks_block:
  "length b = 64 \<Longrightarrow> absorb_blocks compress st (b @ d) = absorb_blocks compress (compress st b) d"
  by (simp add: absorb_blocks.simps [of compress st "b @ d"])

lemma absorb_blocks_rest: "length (snd (absorb_blocks compress st d)) < 64"
proof (induction compress st d rule: absorb_blocks.induct)
  case (1 compress st d)
  then show ?case by (subst absorb_blocks.simps) simp
qed

text \<open>What a hasher stands for: the blocks of everything absorbed so far, and the bytes left over.\<close>

definition stands_for :: "('s \<Rightarrow> bytes \<Rightarrow> 's) \<Rightarrow> 's \<Rightarrow> bytes \<Rightarrow> 's Hasher \<Rightarrow> bool" where
  "stands_for compress init d h \<longleftrightarrow>
     absorb_blocks compress init d = (hash_state h, pending h) \<and> absorbed h = of_nat (length d)"

lemma absorb_blocks_append:
  "absorb_blocks compress st (d @ e) =
     (case absorb_blocks compress st d of (st', rest) \<Rightarrow> absorb_blocks compress st' (rest @ e))"
proof (induction compress st d rule: absorb_blocks.induct)
  case (1 compress st d)
  show ?case
  proof (cases "length d < 64")
    case True
    then show ?thesis by (simp add: absorb_blocks_short)
  next
    case False
    then have "absorb_blocks compress st (d @ e) = absorb_blocks compress (compress st (take 64 d)) (drop 64 d @ e)"
      using absorb_blocks_block [of "take 64 d" compress st "drop 64 d @ e"]
      by (simp add: append_assoc [symmetric] del: append_assoc)
    with False 1 show ?thesis by (simp add: absorb_blocks.simps [of compress st d])
  qed
qed

lemma Update_absorbs:
  assumes "length (pending h) < 64"
  shows "(hash_state (Update compress d h), pending (Update compress d h)) =
    absorb_blocks compress (hash_state h) (pending h @ d)"
proof (cases "pending h = []")
  case True
  then show ?thesis by (simp add: Update_def top_up_def split: prod.splits)
next
  case False
  let ?room = "64 - length (pending h)"
  show ?thesis
  proof (cases "length d < ?room")
    case True
    with False assms show ?thesis
      by (simp add: Update_def top_up_def Let_def absorb_blocks_short min_def)
  next
    case le: False
    then have "length (pending h @ take ?room d) = 64" using assms by simp
    with absorb_blocks_block [OF this, of compress "hash_state h" "drop ?room d"] False
    show ?thesis by (simp add: Update_def top_up_def Let_def split: prod.splits)
  qed
qed

lemma Update_stands_for:
  assumes "stands_for compress init d h"
  shows "stands_for compress init (d @ e) (Update compress e h)"
proof -
  have a: "absorb_blocks compress init d = (hash_state h, pending h)"
    using assms by (simp add: stands_for_def)
  have "absorbed (Update compress e h) = absorbed h + of_nat (length e)"
    by (auto simp: Update_def top_up_def Let_def split: prod.splits)
  moreover have "length (pending h) < 64" using absorb_blocks_rest [of compress init d] by (simp add: a)
  ultimately show ?thesis
    using assms Update_absorbs [of h compress e] absorb_blocks_append [of compress init d e]
    by (simp add: stands_for_def)
qed

lemma stands_for_unique:
  "stands_for compress init d h \<Longrightarrow> stands_for compress init d h' \<Longrightarrow> h = h'"
  by (simp add: stands_for_def)

lemma Updates_concat:
  assumes "stands_for compress init d h"
  shows "fold (Update compress) ds h = Update compress (concat ds) h"
proof -
  have "stands_for compress init (d @ concat ds) (fold (Update compress) ds h)"
    using assms
  proof (induction ds arbitrary: d h)
    case (Cons e ds)
    have "stands_for compress init ((d @ e) @ concat ds) (fold (Update compress) ds (Update compress e h))"
      by (rule Cons.IH [OF Update_stands_for [OF Cons.prems]])
    then show ?case by simp
  qed simp
  then show ?thesis using Update_stands_for [OF assms] by (rule stands_for_unique)
qed

lemma fresh_stands_for:
  "stands_for md5_Compress (hash_state Md5Hasher) [] Md5Hasher"
  "stands_for sha1_Compress (hash_state Sha1Hasher) [] Sha1Hasher"
  by (simp_all add: stands_for_def Md5Hasher_def Sha1Hasher_def absorb_blocks_short)

text \<open>C36: A digest does not depend on how the bytes arrived: hashed in pieces of any sizes (the 4 KiB
  reads of a save on a console, one byte at a time, empty reads between them), a file's MD5 and SHA-1
  are those of its bytes hashed at once.\<close>

theorem digest_of_pieces:
  "Md5_Finish (fold Md5_Update ds Md5Hasher) = Md5 (concat ds) \<and>
     Sha1_Finish (fold Sha1_Update ds Sha1Hasher) = Sha1 (concat ds)"
  using Updates_concat [OF fresh_stands_for(1)] Updates_concat [OF fresh_stands_for(2)]
  by (simp add: Md5_def Sha1_def Md5_Update_def Sha1_Update_def)

lemma stream_loop_whole:
  assumes "stream_loop rest h w = ((h', False), w')" "stands_for md5_Compress init d h"
  shows "stands_for md5_Compress init (d @ rest) h'"
  using assms
proof (induction rest h w arbitrary: d rule: stream_loop.induct)
  case (1 rest h w)
  obtain f w1 where w1: "ReadFails w = (f, w1)" by fastforce
  with "1.prems"(1) have f: "\<not> f" by (subst (asm) stream_loop.simps) auto
  show ?case
  proof (cases "rest = []")
    case True
    with "1.prems" w1 f show ?thesis by (subst (asm) stream_loop.simps) auto
  next
    case False
    with "1.prems"(1) w1 f have "stream_loop (drop 4096 rest) (Md5_Update (take 4096 rest) h) w1 = ((h', False), w')"
      by (subst (asm) stream_loop.simps) simp
    moreover have "stands_for md5_Compress init (d @ take 4096 rest) (Md5_Update (take 4096 rest) h)"
      using Update_stands_for [OF "1.prems"(2)] by (simp add: Md5_Update_def)
    ultimately have "stands_for md5_Compress init ((d @ take 4096 rest) @ drop 4096 rest) h'"
      by (rule "1.IH" [OF w1 [symmetric] refl f False])
    then show ?thesis by (simp only: append_assoc append_take_drop_id)
  qed
qed

lemma stream_loop_effect: "stream_loop rest h w = (x, w') \<Longrightarrow> same w w'"
proof (induction rest h w rule: stream_loop.induct)
  case (1 rest h w)
  obtain f w1 where w1: "ReadFails w = (f, w1)" by fastforce
  have s: "same w w1" using ReadFails_effect [OF w1] .
  show ?case
  proof (cases "f \<or> rest = []")
    case True
    with "1.prems" w1 s show ?thesis by (subst (asm) stream_loop.simps) (auto split: if_splits)
  next
    case False
    with "1.prems" w1 have "stream_loop (drop 4096 rest) (Md5_Update (take 4096 rest) h) w1 = (x, w')"
      by (subst (asm) stream_loop.simps) simp
    with "1.IH" [OF w1 [symmetric] refl] False s show ?thesis by (simp add: same_def)
  qed
qed

lemma HashFile_effect:
  assumes "HashFile path w = (r, w')"
  shows "same w w' \<and> (ho_ok r \<longrightarrow> (\<exists>f. files w path = Some f \<and> ho_content_hash r = Md5Hex (data f)))"
proof -
  obtain source w1 where w1: "OpenForReading path w = (source, w1)" by fastforce
  note o = OpenForReading_effect [OF w1]
  show ?thesis
  proof (cases source)
    case (Inl e)
    with assms w1 o show ?thesis by (auto simp: HashFile_def ho_ok_def)
  next
    case (Inr d)
    with o obtain f where f: "files w path = Some f" "data f = d" by auto
    obtain h failed w2 where w2: "stream_loop d Md5Hasher w1 = ((h, failed), w2)" by (metis surj_pair)
    have "same w w2" using o stream_loop_effect [OF w2] by (simp add: same_def)
    moreover have "Md5_FinishHex h = Md5Hex d" if "\<not> failed"
    proof -
      have "stands_for md5_Compress (hash_state Md5Hasher) ([] @ d) h"
        using w2 that by (intro stream_loop_whole [of _ Md5Hasher w1 _ w2] fresh_stands_for) simp
      moreover have "stands_for md5_Compress (hash_state Md5Hasher) ([] @ d) (Md5_Update d Md5Hasher)"
        using Update_stands_for [OF fresh_stands_for(1)] by (simp add: Md5_Update_def)
      ultimately have "h = Md5_Update d Md5Hasher" by (rule stands_for_unique)
      then show ?thesis by (simp add: Md5_FinishHex_def Md5Hex_def Md5_def)
    qed
    ultimately show ?thesis using assms w1 w2 Inr f by (auto simp: HashFile_def ho_ok_def split: if_splits)
  qed
qed

end
