(* ===== verification/Json.thy ===== *)
theory Json
  imports Prelude
begin

text \<open>
  \<open>core/src/json.cpp\<close> and \<open>core/include/rommsync/json.hpp\<close>: the strict JSON reader, its
  streaming forms, and \<open>Quote\<close>.

  The \<open>Parser\<close> object's position is the list of bytes still to read: \<open>text_\<close> without its
  first \<open>at_\<close> bytes. A failure records how many bytes were left, which \<open>Run\<close> turns into the
  offset; every failure path of the source unwinds at once, so the first error is the only one
  and \<open>Fail\<close> is the left side of a sum. \<open>Value\<close> is a datatype: the fields a kind does not use are
  unreachable through its accessors.
\<close>

section \<open>Values and errors\<close>

datatype Type = kNull | kBool | kNumber | kString | kArray | kObject

definition kMaxDepth :: nat where "kMaxDepth = 16"

datatype Value =
    VNull
  | VBool bool
  | VNumber "int option" \<comment> \<open>the value when it is integral and fits an \<open>int64_t\<close>\<close>
  | VString bytes
  | VArray "Value list"
  | VObject "(bytes \<times> Value) list"

record Error =
  offset :: nat
  field :: bytes
  message :: bytes

definition no_error :: Error where
  "no_error = \<lparr>offset = 0, field = [], message = []\<rparr>"

definition error_ok :: "Error \<Rightarrow> bool" where
  "error_ok e \<longleftrightarrow> message e = []"

fun Type_ToString :: "Type \<Rightarrow> bytes" where
  "Type_ToString kNull = ''a null''"
| "Type_ToString kBool = ''a bool''"
| "Type_ToString kNumber = ''a number''"
| "Type_ToString kString = ''a string''"
| "Type_ToString kArray = ''an array''"
| "Type_ToString kObject = ''an object''"

fun Value_type :: "Value \<Rightarrow> Type" where
  "Value_type VNull = kNull"
| "Value_type (VBool _) = kBool"
| "Value_type (VNumber _) = kNumber"
| "Value_type (VString _) = kString"
| "Value_type (VArray _) = kArray"
| "Value_type (VObject _) = kObject"

definition boolean :: "Value \<Rightarrow> bool" where
  "boolean v = (case v of VBool b \<Rightarrow> b | _ \<Rightarrow> False)"

definition is_integer :: "Value \<Rightarrow> bool" where
  "is_integer v = (case v of VNumber (Some _) \<Rightarrow> True | _ \<Rightarrow> False)"

definition integer :: "Value \<Rightarrow> int" where
  "integer v = (case v of VNumber (Some i) \<Rightarrow> i | _ \<Rightarrow> 0)"

definition string_of :: "Value \<Rightarrow> bytes" where
  "string_of v = (case v of VString s \<Rightarrow> s | _ \<Rightarrow> [])"

definition elements :: "Value \<Rightarrow> Value list" where
  "elements v = (case v of VArray vs \<Rightarrow> vs | _ \<Rightarrow> [])"

definition members :: "Value \<Rightarrow> (bytes \<times> Value) list" where
  "members v = (case v of VObject ms \<Rightarrow> ms | _ \<Rightarrow> [])"

definition Value_size :: "Value \<Rightarrow> nat" where
  "Value_size v = (case v of VArray vs \<Rightarrow> length vs | VObject ms \<Rightarrow> length ms | _ \<Rightarrow> 0)"

definition Find :: "Value \<Rightarrow> bytes \<Rightarrow> Value option" where
  "Find v key = (case v of VObject ms \<Rightarrow> map_of ms key | _ \<Rightarrow> None)"

definition Describe :: "Error \<Rightarrow> bytes" where
  "Describe e =
     (if error_ok e then []
      else if field e \<noteq> [] then ''field '' @ field e @ '': '' @ message e
      else ''at offset '' @ to_string (int (offset e)) @ '': '' @ message e)"

section \<open>The scanner\<close>

text \<open>What failed, and how many bytes were left: or an error a callback answered, kept as it is.\<close>

datatype perr = Fail_at nat bytes bytes | Refused Error

type_synonym 'a pres = "perr + 'a \<times> bytes"

abbreviation fail :: "bytes \<Rightarrow> bytes \<Rightarrow> perr + 'a" where
  "fail s msg \<equiv> Inl (Fail_at (length s) [] msg)"

definition is_space :: "char \<Rightarrow> bool" where
  "is_space c \<longleftrightarrow> c = CHR '' '' \<or> c = CHR 0x09 \<or> c = CHR 0x0A \<or> c = CHR 0x0D"

definition SkipWhitespace :: "bytes \<Rightarrow> bytes" where
  "SkipWhitespace s = dropWhile is_space s"

definition KindAt :: "char \<Rightarrow> bytes option" where
  "KindAt c =
     (if c = CHR ''{'' then Some (Type_ToString kObject)
      else if c = CHR ''['' then Some (Type_ToString kArray)
      else if c = CHR 0x22 then Some (Type_ToString kString)
      else if c = CHR ''t'' \<or> c = CHR ''f'' then Some (Type_ToString kBool)
      else if c = CHR ''n'' then Some (Type_ToString kNull)
      else if c = CHR ''-'' \<or> IsDigit c then Some (Type_ToString kNumber)
      else None)"

definition Literal :: "bytes \<Rightarrow> bytes \<Rightarrow> unit pres" where
  "Literal word s =
     (if \<not> starts_with word s then fail s ''not a JSON value'' else Inr ((), drop (length word) s))"

definition AppendUtf8 :: "nat \<Rightarrow> bytes \<Rightarrow> bytes" where
  "AppendUtf8 cp out =
     (if cp < 0x80 then out @ [char_of cp]
      else if cp < 0x800 then
        out @ [char_of (0xC0 OR drop_bit 6 cp), char_of (0x80 OR (cp AND 0x3F))]
      else if cp < 0x10000 then
        out @ [char_of (0xE0 OR drop_bit 12 cp), char_of (0x80 OR (drop_bit 6 cp AND 0x3F)),
               char_of (0x80 OR (cp AND 0x3F))]
      else
        out @ [char_of (0xF0 OR drop_bit 18 cp), char_of (0x80 OR (drop_bit 12 cp AND 0x3F)),
               char_of (0x80 OR (drop_bit 6 cp AND 0x3F)), char_of (0x80 OR (cp AND 0x3F))])"

definition hex_digit :: "char \<Rightarrow> nat option" where
  "hex_digit c =
     (if IsDigit c then Some (byte c - byte (CHR ''0''))
      else if CHR ''a'' \<le> c \<and> c \<le> CHR ''f'' then Some (byte c - byte (CHR ''a'') + 10)
      else if CHR ''A'' \<le> c \<and> c \<le> CHR ''F'' then Some (byte c - byte (CHR ''A'') + 10)
      else None)"

fun hex_value :: "bytes \<Rightarrow> nat \<Rightarrow> nat option" where
  "hex_value [] v = Some v"
| "hex_value (c # cs) v =
     (case hex_digit c of None \<Rightarrow> None | Some d \<Rightarrow> hex_value cs (push_bit 4 v OR d))"

abbreviation "u_escape \<equiv> CHR 0x5C # ''u escape''"

definition ParseHex4 :: "bytes \<Rightarrow> nat pres" where
  "ParseHex4 s =
     (if length s < 4 then fail s (''truncated '' @ u_escape)
      else case hex_value (take 4 s) 0 of
        None \<Rightarrow> fail s (''non-hex digit in a '' @ u_escape)
      | Some v \<Rightarrow> Inr (v, drop 4 s))"

text \<open>
  The escape is read to its end before anything is appended, so it answers the bytes to append
  (\<open>SkipValue\<close>'s null \<open>out\<close> drops them).
\<close>

definition ParseUnicodeEscape :: "bytes \<Rightarrow> bytes \<Rightarrow> bytes pres" where
  "ParseUnicodeEscape out s =
     (case ParseHex4 s of Inl e \<Rightarrow> Inl e
      | Inr (u, s1) \<Rightarrow>
          if 0xD800 \<le> u \<and> u \<le> 0xDBFF then
            (if \<not> starts_with [CHR 0x5C, CHR ''u''] s1
             then fail s1 (''high surrogate without its pair in a '' @ u_escape)
             else case ParseHex4 (drop 2 s1) of Inl e \<Rightarrow> Inl e
               | Inr (low, s2) \<Rightarrow>
                   if low < 0xDC00 \<or> low > 0xDFFF
                   then fail s2 (''high surrogate followed by a non-surrogate in a '' @ u_escape)
                   else Inr (AppendUtf8 (0x10000 + push_bit 10 (u - 0xD800) + (low - 0xDC00)) out, s2))
          else if 0xDC00 \<le> u \<and> u \<le> 0xDFFF
          then fail s1 (''lone low surrogate in a '' @ u_escape)
          else Inr (AppendUtf8 u out, s1))"

definition plain_escape :: "char \<Rightarrow> char option" where
  "plain_escape c =
     (if c = CHR 0x22 \<or> c = CHR 0x5C \<or> c = CHR ''/'' then Some c
      else if c = CHR ''b'' then Some (CHR 0x08)
      else if c = CHR ''f'' then Some (CHR 0x0C)
      else if c = CHR ''n'' then Some (CHR 0x0A)
      else if c = CHR ''r'' then Some (CHR 0x0D)
      else if c = CHR ''t'' then Some (CHR 0x09)
      else None)"

lemma ParseHex4_length: "ParseHex4 s = Inr (v, r) \<Longrightarrow> length r + 4 = length s"
  by (auto simp: ParseHex4_def split: if_splits option.splits)

lemma ParseUnicodeEscape_length: "ParseUnicodeEscape out s = Inr (o', r) \<Longrightarrow> length r + 4 \<le> length s"
  by (auto simp: ParseUnicodeEscape_def split: sum.splits prod.splits if_splits
      dest!: ParseHex4_length)

text \<open>The loop of \<open>ParseString\<close>, after the opening quote.\<close>

function string_loop :: "bytes \<Rightarrow> bytes \<Rightarrow> bytes pres" where
  "string_loop out s =
     (case s of [] \<Rightarrow> fail s ''unterminated string''
      | c # cs \<Rightarrow>
          if c = CHR 0x22 then Inr (out, cs)
          else if byte c < 0x20 then fail s ''unescaped control character in a string''
          else if c \<noteq> CHR 0x5C then string_loop (out @ [c]) cs
          else (case cs of [] \<Rightarrow> fail cs ''unterminated escape in a string''
            | e # es \<Rightarrow>
                if e = CHR ''u'' then
                  (case ParseUnicodeEscape out es of Inl err \<Rightarrow> Inl err
                   | Inr (out', r) \<Rightarrow> string_loop out' r)
                else (case plain_escape e of
                    None \<Rightarrow> fail es ''unknown escape in a string''
                  | Some p \<Rightarrow> string_loop (out @ [p]) es)))"
  by pat_completeness auto
termination
  by (relation "measure (\<lambda>(out, s). length s)") (auto dest!: ParseUnicodeEscape_length)

declare string_loop.simps [simp del]

definition ParseString :: "bytes \<Rightarrow> bytes pres" where
  "ParseString s = string_loop [] (tl s)"

text \<open>\<open>std::from_chars\<close> into an \<open>int64_t\<close>, on text the number grammar has accepted.\<close>

definition in_int64 :: "int \<Rightarrow> bool" where
  "in_int64 i \<longleftrightarrow> - (2 ^ 63) \<le> i \<and> i < 2 ^ 63"

definition from_chars :: "bytes \<Rightarrow> int option" where
  "from_chars t =
     (let i = (if take 1 t = ''-'' then - int (nat_of_dec (drop 1 t)) else int (nat_of_dec t))
      in if in_int64 i then Some i else None)"

definition number_frac :: "bytes \<Rightarrow> bool pres" where
  "number_frac s =
     (if take 1 s = ''.'' then
        (case drop 1 s of [] \<Rightarrow> fail [] ''digit expected after the decimal point''
         | c # cs \<Rightarrow> if \<not> IsDigit c then fail (c # cs) ''digit expected after the decimal point''
             else Inr (False, dropWhile IsDigit (c # cs)))
      else Inr (True, s))"

definition number_exp :: "bool \<Rightarrow> bytes \<Rightarrow> bool pres" where
  "number_exp integral s =
     (if take 1 s = ''e'' \<or> take 1 s = ''E'' then
        (let s1 = drop 1 s; s2 = (if take 1 s1 = ''+'' \<or> take 1 s1 = ''-'' then drop 1 s1 else s1)
         in case s2 of [] \<Rightarrow> fail [] ''digit expected in the exponent''
            | c # cs \<Rightarrow> if \<not> IsDigit c then fail s2 ''digit expected in the exponent''
                else Inr (False, dropWhile IsDigit s2))
      else Inr (integral, s))"

definition ParseNumber :: "bytes \<Rightarrow> Value pres" where
  "ParseNumber s =
     (let s1 = (if take 1 s = ''-'' then drop 1 s else s)
      in case s1 of [] \<Rightarrow> fail s ''not a JSON value''
         | c # cs \<Rightarrow>
             if \<not> IsDigit c then fail s ''not a JSON value''
             else let s2 = (if c = CHR ''0'' then cs else dropWhile IsDigit s1)
                  in case number_frac s2 of Inl e \<Rightarrow> Inl e
                     | Inr (integral, s3) \<Rightarrow>
                         (case number_exp integral s3 of Inl e \<Rightarrow> Inl e
                          | Inr (integral', s4) \<Rightarrow>
                              Inr (VNumber (if integral'
                                            then from_chars (take (length s - length s4) s)
                                            else None), s4)))"

section \<open>What the scanner consumes\<close>

lemma SkipWhitespace_length: "length (SkipWhitespace s) \<le> length s"
  by (simp add: SkipWhitespace_def length_dropWhile_le)

lemma string_loop_length: "string_loop out s = Inr (v, r) \<Longrightarrow> length r < length s"
proof (induction s arbitrary: out rule: measure_induct_rule [of length])
  case (less s)
  from less.prems show ?case
    by (subst (asm) string_loop.simps)
      (auto split: list.splits if_splits option.splits sum.splits dest!: ParseUnicodeEscape_length;
       drule less.IH [rotated]; simp)
qed

lemma ParseString_length: "ParseString s = Inr (v, r) \<Longrightarrow> length r < length s"
  by (cases s) (auto simp: ParseString_def dest: string_loop_length)

lemma Literal_length: "Literal w s = Inr (u, r) \<Longrightarrow> length r + length w = length s"
  by (auto simp: Literal_def starts_with_def split: if_splits dest!: arg_cong [where f = length])

lemma digits_rest_length: "drop (Suc 0) s = t \<Longrightarrow> length (dropWhile IsDigit t) \<le> length s"
  by (metis length_dropWhile_le length_drop diff_le_self order_trans)

lemma number_frac_length: "number_frac s = Inr (b, r) \<Longrightarrow> length r \<le> length s"
  unfolding number_frac_def
  by (split if_splits, cases "drop 1 s") (auto split: if_splits dest: digits_rest_length simp del: dropWhile.simps)

lemma number_exp_length: "number_exp i s = Inr (b, r) \<Longrightarrow> length r \<le> length s"
proof -
  assume e: "number_exp i s = Inr (b, r)"
  define s1 where "s1 = drop 1 s"
  define s2 where "s2 = (if take 1 s1 = ''+'' \<or> take 1 s1 = ''-'' then drop 1 s1 else s1)"
  have "length (dropWhile IsDigit s2) \<le> length s"
    using length_dropWhile_le [of IsDigit s2] by (auto simp: s2_def s1_def split: if_splits)
  with e show ?thesis
    unfolding number_exp_def Let_def s1_def [symmetric] s2_def [symmetric]
    by (cases s2) (auto split: if_splits simp del: dropWhile.simps)
qed

lemma ParseNumber_length:
  assumes "ParseNumber s = Inr (v, r)" shows "length r < length s"
proof -
  define s1 where "s1 = (if take 1 s = ''-'' then drop 1 s else s)"
  have s1: "length s1 \<le> length s" by (simp add: s1_def)
  from assms obtain c cs where c: "s1 = c # cs" "IsDigit c"
    unfolding ParseNumber_def Let_def s1_def [symmetric] by (cases s1) (auto split: if_splits)
  define s2 where "s2 = (if c = CHR ''0'' then cs else dropWhile IsDigit s1)"
  have "length s2 < length s"
    using c s1 length_dropWhile_le [of IsDigit cs] by (auto simp: s2_def)
  moreover from assms c obtain i3 s3 i4 where "number_frac s2 = Inr (i3, s3)" "number_exp i3 s3 = Inr (i4, r)"
    unfolding ParseNumber_def Let_def s1_def [symmetric]
    by (auto simp: s2_def [symmetric] split: sum.splits prod.splits)
  ultimately show ?thesis using number_frac_length number_exp_length by (metis le_less_trans)
qed

section \<open>The recursive descent\<close>

text \<open>
  \<open>ParseValue\<close>, and the loops of \<open>ParseArray\<close> and \<open>ParseObject<false>\<close> after their opening bracket.
  \<open>keep\<close> is \<open>None\<close> for the plain parser and \<open>Some keep_\<close> where \<open>kKeeps\<close> is true. \<open>SkipValue\<close> is the
  same descent with nothing built.
\<close>

abbreviation too_deep :: "bytes" where
  "too_deep \<equiv> ''nested deeper than '' @ to_string (int kMaxDepth) @ '' levels''"

abbreviation items_fail :: "bool \<Rightarrow> bytes" where
  "items_fail obj \<equiv>
     (if obj then ''expected ',' or '}' in an object'' else ''expected ',' or ']' in an array'')"

definition skip_close :: "bool \<Rightarrow> char" where
  "skip_close obj = (if obj then CHR ''}'' else CHR '']'')"

text \<open>The key of one skipped object member, up to its value.\<close>

definition skip_key :: "bool \<Rightarrow> bytes \<Rightarrow> unit pres" where
  "skip_key obj s =
     (if \<not> obj then Inr ((), s)
      else if take 1 s \<noteq> [CHR 0x22] then fail s ''expected a quoted key in an object''
      else case ParseString s of Inl e \<Rightarrow> Inl e
        | Inr (_, s1) \<Rightarrow>
            let s2 = SkipWhitespace s1
            in if take 1 s2 \<noteq> '':'' then fail s2 ''expected ':' after an object key''
               else Inr ((), SkipWhitespace (drop 1 s2)))"

text \<open>The arms of \<open>SkipValue\<close>'s switch that end there.\<close>

definition skip_scalar :: "bytes \<Rightarrow> unit pres" where
  "skip_scalar s =
     (if take 1 s = ''n'' then Literal ''null'' s
      else if take 1 s = ''t'' then Literal ''true'' s
      else if take 1 s = ''f'' then Literal ''false'' s
      else if take 1 s = [CHR 0x22] then
        (case ParseString s of Inl e \<Rightarrow> Inl e | Inr (_, r) \<Rightarrow> Inr ((), r))
      else (case ParseNumber s of Inl e \<Rightarrow> Inl e | Inr (_, r) \<Rightarrow> Inr ((), r)))"

function (domintros) SkipValue :: "nat \<Rightarrow> bytes \<Rightarrow> unit pres"
  and skip_items :: "bool \<Rightarrow> nat \<Rightarrow> bytes \<Rightarrow> unit pres" where
  "SkipValue depth s =
     (if depth \<ge> kMaxDepth then fail s too_deep
      else if s = [] then fail s ''value expected, body ended''
      else if take 1 s = ''['' \<or> take 1 s = ''{'' then
        (if take 1 (SkipWhitespace (drop 1 s)) = [skip_close (take 1 s = ''{'')]
         then Inr ((), drop 1 (SkipWhitespace (drop 1 s)))
         else skip_items (take 1 s = ''{'') depth (SkipWhitespace (drop 1 s)))
      else skip_scalar s)"
| "skip_items obj depth s =
     (case skip_key obj (SkipWhitespace s) of Inl e \<Rightarrow> Inl e
      | Inr (_, s1) \<Rightarrow>
          (case SkipValue (depth + 1) s1 of Inl e \<Rightarrow> Inl e
           | Inr (_, s2) \<Rightarrow>
               (case SkipWhitespace s2 of
                  [] \<Rightarrow> fail [] (if obj then ''unterminated object'' else ''unterminated array'')
                | c # r \<Rightarrow>
                    if c = CHR '','' then skip_items obj depth r
                    else if c = skip_close obj then Inr ((), r)
                    else fail (c # r) (items_fail obj))))"
  by pat_completeness auto

lemma skip_key_length: "skip_key obj s = Inr (u, r) \<Longrightarrow> length r \<le> length s"
proof (cases obj)
  case True
  assume e: "skip_key obj s = Inr (u, r)"
  with True obtain k s1 where k: "ParseString s = Inr (k, s1)"
      "r = SkipWhitespace (drop 1 (SkipWhitespace s1))"
    by (auto simp: skip_key_def Let_def split: if_splits sum.splits)
  have "length r \<le> length (SkipWhitespace s1)"
    unfolding k(2) by (rule order_trans [OF SkipWhitespace_length]) simp
  with SkipWhitespace_length [of s1] ParseString_length [OF k(1)] show ?thesis by simp
qed (simp add: skip_key_def)

lemma skip_scalar_length: "skip_scalar s = Inr (u, r) \<Longrightarrow> length r < length s"
  unfolding skip_scalar_def
  by (auto split: if_splits sum.splits dest!: Literal_length ParseString_length ParseNumber_length)

lemma drop_SkipWhitespace_length: "s \<noteq> [] \<Longrightarrow> length (drop 1 (SkipWhitespace (drop 1 s))) < length s"
  using SkipWhitespace_length [of "drop 1 s"] by (cases s) auto

lemma SkipWhitespace_drop_length: "s \<noteq> [] \<Longrightarrow> length (SkipWhitespace (drop 1 s)) < length s"
  using SkipWhitespace_length [of "drop 1 s"] by (cases s) auto

lemma skip_partial_length:
  "SkipValue_skip_items_dom (Inl (depth, s)) \<Longrightarrow> SkipValue depth s = Inr (u, r) \<Longrightarrow> length r < length s"
  "SkipValue_skip_items_dom (Inr (obj, depth, s)) \<Longrightarrow> skip_items obj depth s = Inr (u, r) \<Longrightarrow> length r < length s"
proof (induction arbitrary: u r and u r rule: SkipValue_skip_items.pinduct)
  case (1 depth s)
  from "1.prems" show ?case
    using drop_SkipWhitespace_length [of s] SkipWhitespace_drop_length [of s]
    by (auto simp: SkipValue.psimps [OF 1(1)] split: if_splits
      dest: skip_scalar_length "1.IH" less_trans)
next
  case (2 obj depth s)
  from "2.prems" obtain s1 u2 s2 c t where
    s1: "skip_key obj (SkipWhitespace s) = Inr ((), s1)" "SkipValue (depth + 1) s1 = Inr (u2, s2)"
      "SkipWhitespace s2 = c # t" "(if c = CHR '','' then skip_items obj depth t else if c = skip_close obj then Inr ((), t) else fail (c # t) (items_fail obj)) = Inr (u, r)"
    by (auto simp: skip_items.psimps [OF 2(1)] split: sum.splits list.splits)
  have "length s1 \<le> length s"
    using skip_key_length [OF s1(1)] SkipWhitespace_length [of s] by simp
  moreover have "length s2 < length s1" using "2.IH"(1) [OF s1(1) _ s1(2)] by simp
  moreover have "length t < length s2" using SkipWhitespace_length [of s2] s1(3) by simp
  moreover have "length r \<le> length t"
    using s1(4) "2.IH"(2) [OF s1(1) _ s1(2) _ s1(3)] by (auto split: if_splits intro: less_imp_le)
  ultimately show ?case by simp
qed

termination SkipValue
proof (relation "measure (case_sum (\<lambda>(d, s). 2 * length s) (\<lambda>(ob, d, s). 2 * length s + 1))", goal_cases)
  case 1 then show ?case by simp
next
  case (2 depth s) then show ?case using SkipWhitespace_drop_length [of s] by simp
next
  case (3 obj depth s b u s1) then show ?case
    using skip_key_length [of obj "SkipWhitespace s" u s1] SkipWhitespace_length [of s] by simp
next
  case (4 obj depth s b u s1 b' u2 s2 c t)
  then show ?case
    using skip_key_length [of obj "SkipWhitespace s" u s1] SkipWhitespace_length [of s]
      skip_partial_length(1) [of "depth + 1" s1 u2 s2] SkipWhitespace_length [of s2]
    by simp
qed

lemma skip_dom:
  "SkipValue_skip_items_dom (Inl (depth, s))" "SkipValue_skip_items_dom (Inr (obj, depth, s))"
proof (induction depth s and obj depth s rule: SkipValue_skip_items.induct)
  case (1 depth s)
  show ?case by (rule SkipValue_skip_items.domintros(1)) (use "1.IH" in simp_all)
next
  case (2 obj depth s)
  show ?case
  proof (rule SkipValue_skip_items.domintros(2), goal_cases)
    case (1 b)
    then show ?case using "2.IH"(1) [of "((), b)" "()" b] by simp
  next
    case (2 b ba x)
    then show ?case using "2.IH"(2) [of "((), b)" "()" b "((), ba)" "()" ba "CHR '',''" x] by simp
  qed
qed

declare SkipValue.simps [simp del] skip_items.simps [simp del]

lemma SkipValue_length: "SkipValue depth s = Inr (u, r) \<Longrightarrow> length r < length s"
  by (rule skip_partial_length(1)) (rule skip_dom)

text \<open>The arms of \<open>ParseValue\<close>'s switch that end there.\<close>

definition parse_scalar :: "bytes \<Rightarrow> Value pres" where
  "parse_scalar s =
     (if take 1 s = ''n'' then map_sum id (apfst (\<lambda>_. VNull)) (Literal ''null'' s)
      else if take 1 s = ''t'' then map_sum id (apfst (\<lambda>_. VBool True)) (Literal ''true'' s)
      else if take 1 s = ''f'' then map_sum id (apfst (\<lambda>_. VBool False)) (Literal ''false'' s)
      else if take 1 s = [CHR 0x22] then map_sum id (apfst VString) (ParseString s)
      else ParseNumber s)"

definition Kept :: "bytes list option \<Rightarrow> bytes \<Rightarrow> bool" where
  "Kept keep key = (case keep of None \<Rightarrow> True | Some ks \<Rightarrow> key \<in> set ks)"

text \<open>
  The key of one object member, up to its value: refused when a member built already has it, at
  the key's own offset.
\<close>

definition member_key :: "(bytes \<times> Value) list \<Rightarrow> bytes \<Rightarrow> bytes pres" where
  "member_key ms s =
     (if take 1 s \<noteq> [CHR 0x22] then fail s ''expected a quoted key in an object''
      else case ParseString s of Inl e \<Rightarrow> Inl e
        | Inr (key, s1) \<Rightarrow>
            if key \<in> fst ` set ms then fail s ''duplicate key in an object''
            else let s2 = SkipWhitespace s1
                 in if take 1 s2 \<noteq> '':'' then fail s2 ''expected ':' after an object key''
                    else Inr (key, SkipWhitespace (drop 1 s2)))"

text \<open>A value that is read past: no member to add.\<close>

definition skip_member :: "nat \<Rightarrow> bytes \<Rightarrow> Value option pres" where
  "skip_member depth s = map_sum id (apfst (\<lambda>_. None)) (SkipValue depth s)"

definition add_member :: "(bytes \<times> Value) list \<Rightarrow> bytes \<Rightarrow> Value option \<Rightarrow> (bytes \<times> Value) list" where
  "add_member ms key v = (case v of None \<Rightarrow> ms | Some v \<Rightarrow> ms @ [(key, v)])"

function (domintros) ParseValue :: "bytes list option \<Rightarrow> nat \<Rightarrow> bytes \<Rightarrow> Value pres"
  and array_items :: "bytes list option \<Rightarrow> nat \<Rightarrow> Value list \<Rightarrow> bytes \<Rightarrow> Value pres"
  and object_items :: "bytes list option \<Rightarrow> nat \<Rightarrow> (bytes \<times> Value) list \<Rightarrow> bytes \<Rightarrow> Value pres" where
  "ParseValue keep depth s =
     (if depth \<ge> kMaxDepth then fail s too_deep
      else if s = [] then fail s ''value expected, body ended''
      else if take 1 s = ''['' then
        (if take 1 (SkipWhitespace (drop 1 s)) = '']''
         then Inr (VArray [], drop 1 (SkipWhitespace (drop 1 s)))
         else array_items keep depth [] (SkipWhitespace (drop 1 s)))
      else if take 1 s = ''{'' then
        (if take 1 (SkipWhitespace (drop 1 s)) = ''}''
         then Inr (VObject [], drop 1 (SkipWhitespace (drop 1 s)))
         else object_items keep depth [] (SkipWhitespace (drop 1 s)))
      else parse_scalar s)"
| "array_items keep depth vs s =
     (case ParseValue keep (depth + 1) (SkipWhitespace s) of Inl e \<Rightarrow> Inl e
      | Inr (v, s1) \<Rightarrow>
          (case SkipWhitespace s1 of
             [] \<Rightarrow> fail [] ''unterminated array''
           | c # r \<Rightarrow>
               if c = CHR '','' then array_items keep depth (vs @ [v]) r
               else if c = CHR '']'' then Inr (VArray (vs @ [v]), r)
               else fail (c # r) (items_fail False)))"
| "object_items keep depth ms s =
     (case member_key ms (SkipWhitespace s) of Inl e \<Rightarrow> Inl e
      | Inr (key, s1) \<Rightarrow>
          (case (if Kept keep key then map_sum id (apfst Some) (ParseValue keep (depth + 1) s1)
                 else skip_member (depth + 1) s1) of Inl e \<Rightarrow> Inl e
           | Inr (v, s2) \<Rightarrow>
               (case SkipWhitespace s2 of
                  [] \<Rightarrow> fail [] ''unterminated object''
                | c # r \<Rightarrow>
                    if c = CHR '','' then object_items keep depth (add_member ms key v) r
                    else if c = CHR ''}'' then Inr (VObject (add_member ms key v), r)
                    else fail (c # r) (items_fail True))))"
  by pat_completeness auto

lemma member_key_length: "member_key ms s = Inr (k, r) \<Longrightarrow> length r \<le> length s"
proof -
  assume "member_key ms s = Inr (k, r)"
  then obtain s1 where k: "ParseString s = Inr (k, s1)" "r = SkipWhitespace (drop 1 (SkipWhitespace s1))"
    by (auto simp: member_key_def Let_def split: if_splits sum.splits)
  have "length r \<le> length (SkipWhitespace s1)"
    unfolding k(2) by (rule order_trans [OF SkipWhitespace_length]) simp
  with SkipWhitespace_length [of s1] ParseString_length [OF k(1)] show ?thesis by simp
qed

lemma map_sum_Inr_iff: "map_sum id (apfst f) x = Inr (a, r) \<longleftrightarrow> (\<exists>b. x = Inr (b, r) \<and> a = f b)"
  by (cases x) (auto simp: apfst_def map_prod_def split: prod.splits)

lemma parse_scalar_length: "parse_scalar s = Inr (v, r) \<Longrightarrow> length r < length s"
  unfolding parse_scalar_def
  by (auto simp: map_sum_Inr_iff split: if_splits
      dest!: Literal_length ParseString_length ParseNumber_length)

lemma skip_member_length: "skip_member depth s = Inr (v, r) \<Longrightarrow> length r < length s"
  by (auto simp: skip_member_def map_sum_Inr_iff dest: SkipValue_length)


lemma parse_partial_length:
  "ParseValue_array_items_object_items_dom (Inl (keep, depth, s)) \<Longrightarrow>
     ParseValue keep depth s = Inr (v, r) \<Longrightarrow> length r < length s"
  "ParseValue_array_items_object_items_dom (Inr (Inl (keep, depth, vs, s))) \<Longrightarrow>
     array_items keep depth vs s = Inr (v, r) \<Longrightarrow> length r < length s"
  "ParseValue_array_items_object_items_dom (Inr (Inr (keep, depth, ms, s))) \<Longrightarrow>
     object_items keep depth ms s = Inr (v, r) \<Longrightarrow> length r < length s"
proof (induction arbitrary: v r and v r and v r rule: ParseValue_array_items_object_items.pinduct)
  case (1 keep depth s)
  from "1.prems" show ?case
    using drop_SkipWhitespace_length [of s] SkipWhitespace_drop_length [of s]
    by (auto simp: ParseValue.psimps [OF 1(1)] split: if_splits
      dest: parse_scalar_length "1.IH" less_trans)
next
  case (2 keep depth vs s)
  from "2.prems" obtain v1 s1 c t where
    s1: "ParseValue keep (depth + 1) (SkipWhitespace s) = Inr (v1, s1)" "SkipWhitespace s1 = c # t"
      "(if c = CHR '','' then array_items keep depth (vs @ [v1]) t
        else if c = CHR '']'' then Inr (VArray (vs @ [v1]), t) else fail (c # t) (items_fail False)) = Inr (v, r)"
    by (auto simp: array_items.psimps [OF 2(1)] split: sum.splits list.splits)
  have "length s1 < length s" using "2.IH"(1) [OF s1(1)] SkipWhitespace_length [of s] by simp
  moreover have "length t < length s1" using SkipWhitespace_length [of s1] s1(2) by simp
  moreover have "length r \<le> length t"
    using s1(3) "2.IH"(2) [OF s1(1) _ s1(2)] by (auto split: if_splits intro: less_imp_le)
  ultimately show ?case by simp
next
  case (3 keep depth ms s)
  let ?sub = "\<lambda>key s1. if Kept keep key then map_sum id (apfst Some) (ParseValue keep (depth + 1) s1)
                 else skip_member (depth + 1) s1"
  let ?rest = "\<lambda>key s2 v1. case SkipWhitespace s2 of
                  [] \<Rightarrow> fail [] ''unterminated object''
                | c # r \<Rightarrow>
                    if c = CHR '','' then object_items keep depth (add_member ms key v1) r
                    else if c = CHR ''}'' then Inr (VObject (add_member ms key v1), r)
                    else fail (c # r) (items_fail True)"
  from "3.prems" obtain key s1 where m: "member_key ms (SkipWhitespace s) = Inr (key, s1)"
    by (auto simp only: object_items.psimps [OF 3(1)] split: sum.splits)
  from "3.prems" have e0: "(case ?sub key s1 of Inl e \<Rightarrow> Inl e | Inr (v1, s2) \<Rightarrow> ?rest key s2 v1) = Inr (v, r)"
    by (simp only: object_items.psimps [OF 3(1)] m sum.case prod.case)
  then obtain v1 s2 where e: "?sub key s1 = Inr (v1, s2)"
    by (cases "?sub key s1") (simp only: sum.case sum.distinct, metis surj_pair)
  from e0 have "?rest key s2 v1 = Inr (v, r)" by (simp only: e sum.case prod.case)
  then obtain c t where ct: "SkipWhitespace s2 = c # t"
    "(if c = CHR '','' then object_items keep depth (add_member ms key v1) t
        else if c = CHR ''}'' then Inr (VObject (add_member ms key v1), t)
        else fail (c # t) (items_fail True)) = Inr (v, r)"
    by (cases "SkipWhitespace s2") simp_all
  note s1 = m e ct
  have "length s1 \<le> length s"
    using member_key_length [OF s1(1)] SkipWhitespace_length [of s] by simp
  moreover have "length s2 < length s1"
    using s1(2) "3.IH"(1) [OF s1(1) _] skip_member_length
    by (auto simp: map_sum_Inr_iff split: if_splits)
  moreover have "length t < length s2" using SkipWhitespace_length [of s2] s1(3) by simp
  moreover have "length r \<le> length t"
    using s1(4) "3.IH"(2) [OF s1(1) _ s1(2) _ s1(3)] by (auto split: if_splits intro: less_imp_le)
  ultimately show ?case by simp
qed

termination ParseValue
proof (relation "measure (case_sum (\<lambda>(k, d, s). 2 * length s)
           (case_sum (\<lambda>(k, d, vs, s). 2 * length s + 1) (\<lambda>(k, d, ms, s). 2 * length s + 1)))",
    goal_cases)
  case 1 then show ?case by simp
next
  case (2 keep depth s) then show ?case using SkipWhitespace_drop_length [of s] by simp
next
  case (3 keep depth s) then show ?case using SkipWhitespace_drop_length [of s] by simp
next
  case (4 keep depth vs s) then show ?case using SkipWhitespace_length [of s] by simp
next
  case (5 keep depth vs s b v1 s1 c t)
  then show ?case
    using parse_partial_length(1) [of keep "depth + 1" "SkipWhitespace s" v1 s1]
      SkipWhitespace_length [of s] SkipWhitespace_length [of s1] by simp
next
  case (6 keep depth ms s b key s1)
  then show ?case
    using member_key_length [of ms "SkipWhitespace s" key s1] SkipWhitespace_length [of s] by simp
next
  case (7 keep depth ms s b key s1 b' v1 s2 c t)
  moreover have "length s2 < length s1"
    using 7 skip_member_length [of "depth + 1" s1]
    by (auto simp: map_sum_Inr_iff split: if_splits dest: parse_partial_length(1))
  ultimately show ?case
    using member_key_length [of ms "SkipWhitespace s" key s1]
      SkipWhitespace_length [of s] SkipWhitespace_length [of s2] by simp
qed

lemma parse_dom:
  "ParseValue_array_items_object_items_dom (Inl (keep, depth, s))"
  "ParseValue_array_items_object_items_dom (Inr (Inl (keep, depth, vs, s)))"
  "ParseValue_array_items_object_items_dom (Inr (Inr (keep, depth, ms, s)))"
proof (induction keep depth s and keep depth vs s and keep depth ms s
    rule: ParseValue_array_items_object_items.induct)
  case (1 keep depth s)
  show ?case by (rule ParseValue_array_items_object_items.domintros(1)) (use "1.IH" in simp_all)
next
  case (2 keep depth vs s)
  show ?case
  proof (rule ParseValue_array_items_object_items.domintros(2), goal_cases)
    case 1
    then show ?case using "2.IH"(1) by simp
  next
    case (2 v s1 x)
    then show ?case using "2.IH"(2) [of "(v, s1)" v s1 "CHR '',''" x] by simp
  qed
next
  case (3 keep depth ms s)
  show ?case
  proof (rule ParseValue_array_items_object_items.domintros(3), goal_cases)
    case (1 key s1)
    then show ?case using "3.IH"(1) [of "(key, s1)" key s1] by simp
  next
    case (2 key s1 v s2 x)
    then show ?case using "3.IH"(2) [OF 2(1) refl 2(2) refl 2(3) refl] by simp
  qed
qed

declare ParseValue.simps [simp del] array_items.simps [simp del] object_items.simps [simp del]


lemma ParseValue_length: "ParseValue keep depth s = Inr (v, r) \<Longrightarrow> length r < length s"
  by (rule parse_partial_length(1)) (rule parse_dom)

section \<open>Streaming\<close>

text \<open>
  What \<open>ParseEach\<close> calls with each element: it answers an error (\<open>no_error\<close> to go on) and the
  new state of whatever it closes over.
\<close>

type_synonym 's each = "Value \<Rightarrow> nat \<Rightarrow> 's \<Rightarrow> Error \<times> 's"

function each_items ::
  "bytes list option \<Rightarrow> 's each \<Rightarrow> nat \<Rightarrow> nat \<Rightarrow> 's \<Rightarrow> bytes \<Rightarrow> 's \<times> Value pres" where
  "each_items keep each depth index st s =
     (case ParseValue keep (depth + 1) (SkipWhitespace s) of Inl e \<Rightarrow> (st, Inl e)
      | Inr (v, s1) \<Rightarrow>
          if \<not> error_ok (fst (each v index st))
          then (snd (each v index st), Inl (Refused (fst (each v index st))))
          else (case SkipWhitespace s1 of
              [] \<Rightarrow> (snd (each v index st), fail [] ''unterminated array'')
            | c # r \<Rightarrow>
                if c = CHR '','' then each_items keep each depth (index + 1) (snd (each v index st)) r
                else if c = CHR '']'' then (snd (each v index st), Inr (VArray [], r))
                else (snd (each v index st), fail (c # r) (items_fail False))))"
  by pat_completeness auto
termination
proof (relation "measure (\<lambda>(k, e, d, i, st, s). length s)", goal_cases)
  case (2 keep each depth index st s b v s1 c r)
  then show ?case
    using ParseValue_length [of keep "depth + 1" "SkipWhitespace s" v s1]
      SkipWhitespace_length [of s] SkipWhitespace_length [of s1] by simp
qed simp

declare each_items.simps [simp del]

definition Parser_ParseEach ::
  "bytes list option \<Rightarrow> bytes \<Rightarrow> 's each \<Rightarrow> nat \<Rightarrow> 's \<Rightarrow> bytes \<Rightarrow> 's \<times> Value pres" where
  "Parser_ParseEach keep each_key each depth st s =
     (if depth \<ge> kMaxDepth \<or> take 1 s \<noteq> ''['' then
        (if depth < kMaxDepth \<and> s \<noteq> [] \<and> KindAt (hd s) \<noteq> None
         then (st, Inl (Fail_at (length s) each_key (''expected an array, got '' @ the (KindAt (hd s)))))
         else (st, ParseValue keep depth s))
      else let s1 = SkipWhitespace (drop 1 s)
           in if take 1 s1 = '']'' then (st, Inr (VArray [], drop 1 s1))
              else each_items keep each depth 0 st s1)"

lemma each_items_length: "each_items keep each depth index st s = (st', Inr (v, r)) \<Longrightarrow> length r < length s"
proof (induction keep each depth index st s rule: each_items.induct)
  case (1 keep each depth index st s)
  from "1.prems" obtain v1 s1 where p: "ParseValue keep (depth + 1) (SkipWhitespace s) = Inr (v1, s1)"
    by (subst (asm) each_items.simps) (auto split: sum.splits)
  with "1.prems" obtain c t where ct: "SkipWhitespace s1 = c # t" "error_ok (fst (each v1 index st))"
    by (subst (asm) each_items.simps) (auto split: if_splits list.splits)
  have "length s1 < length s" using ParseValue_length [OF p] SkipWhitespace_length [of s] by simp
  moreover have "length t < length s1" using SkipWhitespace_length [of s1] ct by simp
  moreover have "length r \<le> length t"
    using "1.prems" "1.IH" [OF p _ _ ct(1)] p ct
    by (subst (asm) each_items.simps) (auto split: if_splits intro: less_imp_le)
  ultimately show ?case by simp
qed

lemma Parser_ParseEach_length:
  "Parser_ParseEach keep key each depth st s = (st', Inr (v, r)) \<Longrightarrow> length r < length s"
  using SkipWhitespace_length [of "tl s"]
  by (cases s) (auto simp: Parser_ParseEach_def Let_def split: if_splits
      dest: each_items_length ParseValue_length less_le_trans)

text \<open>\<open>ParseObject<true>\<close>: the loop over the root object's members.\<close>

definition stream_member ::
  "bytes list option \<Rightarrow> bytes \<Rightarrow> 's each \<Rightarrow> bytes \<Rightarrow> 's \<Rightarrow> bytes \<Rightarrow> 's \<times> Value option pres" where
  "stream_member keep each_key each key st s =
     (if \<not> (Kept keep key \<or> key = each_key) then (st, skip_member 1 s)
      else if key = each_key then
        (let (st', res) = Parser_ParseEach keep each_key each 1 st s in (st', map_sum id (apfst Some) res))
      else (st, map_sum id (apfst Some) (ParseValue keep 1 s)))"

lemma stream_member_length:
  "stream_member keep ek each key st s = (st', Inr (v, r)) \<Longrightarrow> length r < length s"
  by (auto simp: stream_member_def map_sum_Inr_iff split: if_splits prod.splits
      dest: skip_member_length ParseValue_length Parser_ParseEach_length)

function stream_items ::
  "bytes list option \<Rightarrow> bytes \<Rightarrow> 's each \<Rightarrow> (bytes \<times> Value) list \<Rightarrow> 's \<Rightarrow> bytes \<Rightarrow> 's \<times> Value pres" where
  "stream_items keep each_key each ms st s =
     (case member_key ms (SkipWhitespace s) of Inl e \<Rightarrow> (st, Inl e)
      | Inr (key, s1) \<Rightarrow>
          (case stream_member keep each_key each key st s1 of
             (st1, Inl e) \<Rightarrow> (st1, Inl e)
           | (st1, Inr (v, s2)) \<Rightarrow>
               (case SkipWhitespace s2 of
                  [] \<Rightarrow> (st1, fail [] ''unterminated object'')
                | c # r \<Rightarrow>
                    if c = CHR '','' then stream_items keep each_key each (add_member ms key v) st1 r
                    else if c = CHR ''}'' then (st1, Inr (VObject (add_member ms key v), r))
                    else (st1, fail (c # r) (items_fail True)))))"
  by pat_completeness auto
termination
proof (relation "measure (\<lambda>(k, ek, e, ms, st, s). length s)", goal_cases)
  case (2 keep ek each ms st s b key s1 st1 y b' v s2 c r)
  then show ?case
    using member_key_length [of ms "SkipWhitespace s" key s1] stream_member_length [of keep ek each key st s1]
      SkipWhitespace_length [of s] SkipWhitespace_length [of s2]
    by (auto simp: prod_eq_iff) (metis (no_types, opaque_lifting) Suc_le_lessD le_trans length_Cons less_or_eq_imp_le less_trans_Suc not_less_eq_eq prod.collapse)
qed simp

declare stream_items.simps [simp del]


section \<open>Whole documents\<close>

record ParseResult =
  pr_value :: Value
  pr_error :: Error

definition pr_ok :: "ParseResult \<Rightarrow> bool" where
  "pr_ok p \<longleftrightarrow> error_ok (pr_error p)"

fun finish_error :: "bytes \<Rightarrow> perr \<Rightarrow> Error" where
  "finish_error text (Fail_at left f m) = \<lparr>offset = length text - left, field = f, message = m\<rparr>"
| "finish_error text (Refused e) = e"

definition failed :: "bytes \<Rightarrow> perr \<Rightarrow> ParseResult" where
  "failed text e = \<lparr>pr_value = VNull, pr_error = finish_error text e\<rparr>"

definition finish :: "bytes \<Rightarrow> Value pres \<Rightarrow> ParseResult" where
  "finish text res =
     (case res of Inl e \<Rightarrow> failed text e
      | Inr (root, r) \<Rightarrow>
          let r1 = SkipWhitespace r
          in if r1 \<noteq> [] then failed text (Fail_at (length r1) [] ''trailing content after the document'')
             else \<lparr>pr_value = root, pr_error = no_error\<rparr>)"

definition Parse :: "bytes \<Rightarrow> ParseResult" where
  "Parse text =
     (let s = SkipWhitespace text
      in if s = [] then failed text (Fail_at 0 [] ''empty body'')
         else finish text (ParseValue None 0 s))"

definition wrong_root :: "bytes \<Rightarrow> bytes \<Rightarrow> bytes \<Rightarrow> bytes" where
  "wrong_root context each_key kind =
     (if context = [] then ''the document'' else context) @ '' is '' @ kind @ '', not the '' @
     (if each_key = [] then ''array'' else ''object'') @ '' it must be''"

text \<open>\<open>Run<true, kKeeps>\<close>: both forms of \<open>json::ParseEach\<close>.\<close>

definition ParseEach ::
  "bytes list option \<Rightarrow> bytes \<Rightarrow> bytes \<Rightarrow> 's each \<Rightarrow> bytes \<Rightarrow> 's \<Rightarrow> 's \<times> ParseResult" where
  "ParseEach keep text each_key each context st =
     (let s = SkipWhitespace text
      in if s = [] then (st, failed text (Fail_at 0 [] ''empty body''))
         else if hd s \<noteq> (if each_key = [] then CHR ''['' else CHR ''{'') \<and> KindAt (hd s) \<noteq> None
         then (st, failed text (Fail_at (length s) [] (wrong_root context each_key (the (KindAt (hd s))))))
         else if each_key = [] then
           (let (st', res) = Parser_ParseEach keep each_key each 0 st s in (st', finish text res))
         else
           (let s1 = SkipWhitespace (drop 1 s);
                (st', res) =
                  (if take 1 s1 = ''}'' then (st, Inr (VObject [], drop 1 s1))
                   else stream_items keep each_key each [] st s1)
            in (st', finish text res)))"

section \<open>Writing\<close>

definition kHex :: bytes where "kHex = ''0123456789abcdef''"

definition quote_byte :: "char \<Rightarrow> bytes" where
  "quote_byte c =
     (if c = CHR 0x22 then [CHR 0x5C, CHR 0x22]
      else if c = CHR 0x5C then [CHR 0x5C, CHR 0x5C]
      else if c = CHR 0x08 then [CHR 0x5C, CHR ''b'']
      else if c = CHR 0x0C then [CHR 0x5C, CHR ''f'']
      else if c = CHR 0x0A then [CHR 0x5C, CHR ''n'']
      else if c = CHR 0x0D then [CHR 0x5C, CHR ''r'']
      else if c = CHR 0x09 then [CHR 0x5C, CHR ''t'']
      else if byte c < 0x20 then
        CHR 0x5C # ''u00'' @ [kHex ! (drop_bit 4 (byte c) AND 0xF), kHex ! (byte c AND 0xF)]
      else [c])"

definition Quote :: "bytes \<Rightarrow> bytes" where
  "Quote value = CHR 0x22 # concat (map quote_byte value) @ [CHR 0x22]"

fun quote_items :: "bytes list \<Rightarrow> bytes" where
  "quote_items [] = []"
| "quote_items [v] = Quote v"
| "quote_items (v # vs) = Quote v @ '','' @ quote_items vs"

definition QuoteArray :: "bytes list \<Rightarrow> bytes" where
  "QuoteArray values = ''['' @ quote_items values @ '']''"

section \<open>Reader\<close>

record Reader =
  rd_object :: "Value option"
  rd_error :: Error

definition make_Reader :: "Value \<Rightarrow> bytes \<Rightarrow> Reader" where
  "make_Reader value context =
     (if Value_type value = kObject then \<lparr>rd_object = Some value, rd_error = no_error\<rparr>
      else \<lparr>rd_object = None, rd_error = no_error\<lparr>message :=
        context @ '' is '' @ Type_ToString (Value_type value) @ '', not the object it must be''\<rparr>\<rparr>)"

definition Reader_ok :: "Reader \<Rightarrow> bool" where
  "Reader_ok rd \<longleftrightarrow> error_ok (rd_error rd)"

definition Reader_Fail :: "bytes \<Rightarrow> bytes \<Rightarrow> Reader \<Rightarrow> Reader" where
  "Reader_Fail key msg rd =
     (if Reader_ok rd then rd\<lparr>rd_error := (rd_error rd)\<lparr>field := key, message := msg\<rparr>\<rparr> else rd)"

text \<open>A getter answers the value it read (\<open>None\<close>: false, and the caller's variable untouched).\<close>

definition Lookup :: "bytes \<Rightarrow> Reader \<Rightarrow> Value option \<times> Reader" where
  "Lookup key rd =
     (if \<not> Reader_ok rd then (None, rd)
      else case Option.bind (rd_object rd) (\<lambda>v. Find v key) of
        None \<Rightarrow> (None, Reader_Fail key ''missing'' rd)
      | Some member \<Rightarrow> (Some member, rd))"

definition UsableString :: "bytes \<Rightarrow> bytes \<Rightarrow> Reader \<Rightarrow> bool \<times> Reader" where
  "UsableString key value rd =
     (if value = [] then (False, Reader_Fail key ''is empty'' rd)
      else if CHR 0x00 \<in> set value then (False, Reader_Fail key ''contains an embedded NUL'' rd)
      else (True, rd))"

definition Required_string :: "bytes \<Rightarrow> Reader \<Rightarrow> bytes option \<times> Reader" where
  "Required_string key rd =
     (case Lookup key rd of (None, rd1) \<Rightarrow> (None, rd1)
      | (Some m, rd1) \<Rightarrow>
          if Value_type m \<noteq> kString
          then (None, Reader_Fail key (''expected a string, got '' @ Type_ToString (Value_type m)) rd1)
          else case UsableString key (string_of m) rd1 of
            (False, rd2) \<Rightarrow> (None, rd2) | (True, rd2) \<Rightarrow> (Some (string_of m), rd2))"

definition Required_int :: "bytes \<Rightarrow> Reader \<Rightarrow> int option \<times> Reader" where
  "Required_int key rd =
     (case Lookup key rd of (None, rd1) \<Rightarrow> (None, rd1)
      | (Some m, rd1) \<Rightarrow>
          if Value_type m \<noteq> kNumber
          then (None, Reader_Fail key (''expected a number, got '' @ Type_ToString (Value_type m)) rd1)
          else if \<not> is_integer m
          then (None, Reader_Fail key ''expected a whole number that fits 64 bits'' rd1)
          else (Some (integer m), rd1))"

definition Required_bool :: "bytes \<Rightarrow> Reader \<Rightarrow> bool option \<times> Reader" where
  "Required_bool key rd =
     (case Lookup key rd of (None, rd1) \<Rightarrow> (None, rd1)
      | (Some m, rd1) \<Rightarrow>
          if Value_type m \<noteq> kBool
          then (None, Reader_Fail key (''expected a boolean, got '' @ Type_ToString (Value_type m)) rd1)
          else (Some (boolean m), rd1))"

definition Required_strings :: "bytes \<Rightarrow> Reader \<Rightarrow> bytes list option \<times> Reader" where
  "Required_strings key rd =
     (case Lookup key rd of (None, rd1) \<Rightarrow> (None, rd1)
      | (Some m, rd1) \<Rightarrow>
          if Value_type m \<noteq> kArray
          then (None, Reader_Fail key (''expected an array, got '' @ Type_ToString (Value_type m)) rd1)
          else case find (\<lambda>v. Value_type v \<noteq> kString) (elements m) of
            Some bad \<Rightarrow> (None, Reader_Fail key (''expected an array of strings, found '' @
                           Type_ToString (Value_type bad) @ '' in it'') rd1)
          | None \<Rightarrow> (Some (map string_of (elements m)), rd1))"

definition RequiredNullable_string :: "bytes \<Rightarrow> Reader \<Rightarrow> bytes option option \<times> Reader" where
  "RequiredNullable_string key rd =
     (case Lookup key rd of (None, rd1) \<Rightarrow> (None, rd1)
      | (Some m, rd1) \<Rightarrow>
          if Value_type m = kNull then (Some None, rd1)
          else if Value_type m \<noteq> kString
          then (None, Reader_Fail key (''expected a string or null, got '' @ Type_ToString (Value_type m)) rd1)
          else case UsableString key (string_of m) rd1 of
            (False, rd2) \<Rightarrow> (None, rd2) | (True, rd2) \<Rightarrow> (Some (Some (string_of m)), rd2))"

definition RequiredNullable_int :: "bytes \<Rightarrow> Reader \<Rightarrow> int option option \<times> Reader" where
  "RequiredNullable_int key rd =
     (case Lookup key rd of (None, rd1) \<Rightarrow> (None, rd1)
      | (Some m, rd1) \<Rightarrow>
          if Value_type m = kNull then (Some None, rd1)
          else if Value_type m \<noteq> kNumber
          then (None, Reader_Fail key (''expected a number or null, got '' @ Type_ToString (Value_type m)) rd1)
          else if \<not> is_integer m
          then (None, Reader_Fail key ''expected a whole number that fits 64 bits, or null'' rd1)
          else (Some (Some (integer m)), rd1))"

end
