(* ===== verification/Timestamps.thy ===== *)
theory Timestamps
  imports Json "HOL-Library.Monad_Syntax"
begin

text \<open>
  The timestamps of \<open>core/src/sync.cpp\<close>: civil dates, the spelling RomM reads and the one it sends.

  A \<open>Timestamp\<close> is a \<open>system_clock::time_point\<close>; its tick is the nanosecond of libstdc++,
  which the console build uses. It is an \<open>int\<close> here, and where the count leaves an \<open>int64_t\<close> is
  a theorem. What is left of \<open>text\<close> from \<open>at\<close> on is passed along in place of the index.
\<close>

type_synonym Timestamp = int

definition ticks_per_second :: int where "ticks_per_second = 1000000000"

definition kMinTimestampSeconds :: int where "kMinTimestampSeconds = 1"
definition kMaxTimestampSeconds :: int where "kMaxTimestampSeconds = 253402300799"

definition UnixSeconds :: "Timestamp \<Rightarrow> int" where
  "UnixSeconds at_time = at_time div ticks_per_second"

section \<open>Civil dates\<close>

definition DaysFromCivil :: "int \<Rightarrow> int \<Rightarrow> int \<Rightarrow> int" where
  "DaysFromCivil year month day =
     (let shifted = year - (if month \<le> 2 then 1 else 0);
          era = cdiv (if shifted \<ge> 0 then shifted else shifted - 399) 400;
          year_of_era = shifted - era * 400;
          day_of_year = cdiv (153 * (month + (if month > 2 then - 3 else 9)) + 2) 5 + day - 1;
          day_of_era = year_of_era * 365 + cdiv year_of_era 4 - cdiv year_of_era 100 + day_of_year
      in era * 146097 + day_of_era - 719468)"

definition kLengths :: "int list" where
  "kLengths = [31, 28, 31, 30, 31, 30, 31, 31, 30, 31, 30, 31]"

definition leap :: "int \<Rightarrow> bool" where
  "leap year \<longleftrightarrow> year mod 4 = 0 \<and> year mod 100 \<noteq> 0 \<or> year mod 400 = 0"

definition DaysInMonth :: "int \<Rightarrow> int \<Rightarrow> int" where
  "DaysInMonth year month = (if month = 2 \<and> leap year then 29 else kLengths ! nat (month - 1))"

text \<open>The year, month and day of a day counted from the epoch.\<close>

definition year_of_era :: "int \<Rightarrow> int" where
  "year_of_era doe = cdiv (doe - cdiv doe 1460 + cdiv doe 36524 - cdiv doe 146096) 365"

definition civil :: "int \<Rightarrow> int \<times> int \<times> int" where
  "civil epoch_days =
     (let days = epoch_days + 719468;
          era = cdiv (if days \<ge> 0 then days else days - 146096) 146097;
          day_of_era = days - era * 146097;
          yoe = year_of_era day_of_era;
          day_of_year = day_of_era - (365 * yoe + cdiv yoe 4 - cdiv yoe 100);
          march_month = cdiv (5 * day_of_year + 2) 153;
          day = day_of_year - cdiv (153 * march_month + 2) 5 + 1;
          month = march_month + (if march_month < 10 then 3 else - 9);
          year = yoe + era * 400 + (if month \<le> 2 then 1 else 0)
      in (year, month, day))"

section \<open>Reading\<close>

definition TakeDigits :: "nat \<Rightarrow> bytes \<Rightarrow> (int \<times> bytes) option" where
  "TakeDigits count s =
     (if count > length s then None
      else if list_all IsDigit (take count s)
      then Some (int (nat_of_dec (take count s)), drop count s) else None)"

definition Expect :: "char list \<Rightarrow> bytes \<Rightarrow> bytes option" where
  "Expect cs s = (case s of c # r \<Rightarrow> if c \<in> set cs then Some r else None | [] \<Rightarrow> None)"

definition fraction :: "bytes \<Rightarrow> bytes option" where
  "fraction s =
     (case s of c # r \<Rightarrow>
        (if c = CHR ''.''
         then (if takeWhile IsDigit r = [] then None else Some (dropWhile IsDigit r))
         else Some s)
      | [] \<Rightarrow> Some s)"

definition utc_offset :: "bytes \<Rightarrow> (int \<times> bytes) option" where
  "utc_offset s =
     (case s of [] \<Rightarrow> Some (0, s)
      | c # r \<Rightarrow>
        if c = CHR ''Z'' \<or> c = CHR ''z'' then Some (0, r)
        else if c = CHR ''+'' \<or> c = CHR ''-'' then
          do {
            let sign = (if c = CHR ''-'' then - 1 else 1 :: int);
            (offset_hours, s) \<leftarrow> TakeDigits 2 r;
            s \<leftarrow> Expect '':'' s;
            (offset_minutes, s) \<leftarrow> TakeDigits 2 s;
            if offset_hours > 23 \<or> offset_minutes > 59 then None
            else Some (sign * (offset_hours * 3600 + offset_minutes * 60), s)
          }
        else Some (0, s))"

definition ParseTimestamp :: "bytes \<Rightarrow> Timestamp option" where
  "ParseTimestamp text =
     do {
       (year, s) \<leftarrow> TakeDigits 4 text;
       s \<leftarrow> Expect ''-'' s;
       (month, s) \<leftarrow> TakeDigits 2 s;
       s \<leftarrow> Expect ''-'' s;
       (day, s) \<leftarrow> TakeDigits 2 s;
       s \<leftarrow> Expect ''T '' s;
       (hour, s) \<leftarrow> TakeDigits 2 s;
       s \<leftarrow> Expect '':'' s;
       (minute, s) \<leftarrow> TakeDigits 2 s;
       s \<leftarrow> Expect '':'' s;
       (second, s) \<leftarrow> TakeDigits 2 s;
       s \<leftarrow> fraction s;
       (offset_seconds, s) \<leftarrow> utc_offset s;
       if s \<noteq> [] then None
       else if month < 1 \<or> month > 12 \<or> day < 1 \<or> day > DaysInMonth year month \<or> hour > 23 \<or>
         minute > 59 \<or> second > 59 then None
       else
         let seconds = DaysFromCivil year month day * 86400 + hour * 3600 + minute * 60 + second -
               offset_seconds
         in (if seconds < kMinTimestampSeconds \<or> seconds > kMaxTimestampSeconds then None
             else Some (seconds * ticks_per_second))
     }"

section \<open>Writing\<close>

definition put :: "int \<Rightarrow> nat \<Rightarrow> bytes" where
  "put v width = replicate (width - length (to_string v)) (CHR ''0'') @ to_string v"

definition FormatTimestamp :: "Timestamp \<Rightarrow> bytes" where
  "FormatTimestamp at_time =
     (let seconds = UnixSeconds at_time in
      if seconds < kMinTimestampSeconds \<or> seconds > kMaxTimestampSeconds then []
      else
        let days = cdiv seconds 86400;
            rest = seconds - cdiv seconds 86400 * 86400;
            (days, rest) = (if rest < 0 then (days - 1, rest + 86400) else (days, rest));
            (year, month, day) = civil days
        in put year 4 @ ''-'' @ put month 2 @ ''-'' @ put day 2 @ ''T'' @
           put (cdiv rest 3600) 2 @ '':'' @ put (cdiv rest 60 mod 60) 2 @ '':'' @ put (rest mod 60) 2 @ ''Z'')"

section \<open>A day and its date\<close>

text \<open>Where the years of an era begin and end, counted from its first of March.\<close>

definition year_start :: "int \<Rightarrow> int" where
  "year_start y = 365 * y + y div 4 - y div 100"

definition year_end :: "int \<Rightarrow> int" where
  "year_end y = (if y = 399 then 146097 else year_start (y + 1))"

definition counted :: "int \<Rightarrow> int" where
  "counted n = n - n div 1460 + n div 36524 - n div 146096"

lemma year_of_era_counted: "doe \<ge> 0 \<Longrightarrow> counted doe \<ge> 0 \<Longrightarrow> year_of_era doe = counted doe div 365"
  by (simp add: year_of_era_def counted_def)

lemma div_step: "0 < k \<Longrightarrow> (n + 1) div k = n div k + (if (n + 1) mod k = 0 then 1 else 0)" for n k :: int
proof -
  assume k: "0 < k"
  have a: "(n + 1) div k * k + (n + 1) mod k = n + 1" and b: "n div k * k + n mod k = n" by simp_all
  have c: "0 \<le> n mod k" "n mod k < k" "0 \<le> (n + 1) mod k" "(n + 1) mod k < k" using k by simp_all
  show ?thesis
  proof (cases "(n + 1) mod k = 0")
    case True
    then have "((n + 1) div k - n div k) * k = n mod k + 1" using a b by (simp add: algebra_simps)
    moreover have "n mod k = k - 1"
      using True k by (metis add_diff_cancel_right' mod_diff_left_eq zmod_minus1 diff_0)
    ultimately have "((n + 1) div k - n div k) * k = 1 * k" by simp
    then have "(n + 1) div k - n div k = 1" using k by (simp only: mult_cancel_right) auto
    with True show ?thesis by simp
  next
    case False
    have "n + 1 = n div k * k + (n mod k + 1)" using b by simp
    moreover have "n mod k + 1 < k"
    proof (rule ccontr)
      assume "\<not> n mod k + 1 < k"
      then have "n mod k + 1 = k" using c by linarith
      then have "n + 1 = n div k * k + k" using b by linarith
      then have "n + 1 = (n div k + 1) * k" by (simp add: distrib_right)
      then show False using False by simp
    qed
    ultimately have "(n + 1) div k = n div k" using c k
      by (metis add_nonneg_nonneg div_pos_pos_trivial div_mult_self3 add.commute add_0 less_imp_neq zero_le_one)
    with False show ?thesis by simp
  qed
qed

lemma counted_step: "counted n \<le> counted (n + 1)"
proof -
  have "(n + 1) mod 36524 = 0" if "(n + 1) mod 146096 = 0"
  proof -
    have "(36524::int) dvd 146096" by simp
    with that show ?thesis by (meson dvd_trans mod_0_imp_dvd dvd_imp_mod_0)
  qed
  then show ?thesis by (simp add: counted_def div_step)
qed

lemma counted_mono: "m \<le> n \<Longrightarrow> counted m \<le> counted n"
  by (induction n rule: int_ge_induct) (auto intro: order_trans [OF _ counted_step])

text \<open>The formula of the year, checked at the two ends of each of the 400 years of an era.\<close>

lemma year_bounds:
  "\<forall>y \<in> set [0..399]. 365 * y \<le> counted (year_start y) \<and> counted (year_end y - 1) < 365 * (y + 1) \<and>
     year_start y < year_end y \<and> (year_end y - year_start y = 366 \<longrightarrow> leap (y + 1)) \<and>
     year_end y - year_start y \<le> 366"
  by code_simp

lemma in_upto: "0 \<le> y \<Longrightarrow> y \<le> b \<Longrightarrow> y \<in> set [0..b]" for y b :: int
  by simp

lemma year_of_era_range:
  assumes "0 \<le> doe" "doe < 146097"
  shows "0 \<le> year_of_era doe \<and> year_of_era doe \<le> 399 \<and>
    year_start (year_of_era doe) \<le> doe \<and> doe < year_end (year_of_era doe)"
proof -
  let ?y = "counted doe div 365"
  have "counted 0 \<le> counted doe" using assms by (intro counted_mono) simp
  moreover have "counted doe \<le> counted 146096" using assms by (intro counted_mono) simp
  ultimately have c: "0 \<le> counted doe" "counted doe \<le> 145999" by (simp_all add: counted_def)
  then have y: "0 \<le> ?y" "?y \<le> 399" by (simp_all add: pos_imp_zdiv_nonneg_iff)
  have q: "365 * ?y \<le> counted doe" "counted doe < 365 * (?y + 1)"
    using mult_div_mod_eq [of 365 "counted doe"] pos_mod_bound [of 365 "counted doe"]
      pos_mod_sign [of 365 "counted doe"] by simp_all
  note b = year_bounds [rule_format, OF in_upto]
  have "year_start ?y \<le> doe"
  proof (cases "?y = 0")
    case True
    then show ?thesis using assms by (simp only: True) (simp add: year_start_def)
  next
    case False
    then have y': "0 \<le> ?y - 1" "?y - 1 \<le> 399" "?y - 1 \<noteq> 399" using y by linarith+
    show ?thesis
    proof (rule ccontr)
      assume "\<not> year_start ?y \<le> doe"
      then have "doe \<le> year_end (?y - 1) - 1" using y' by (simp add: year_end_def)
      then have "counted doe \<le> counted (year_end (?y - 1) - 1)" by (rule counted_mono)
      also have "\<dots> < 365 * ?y" using b [OF y'(1,2)] by simp
      finally show False using q by simp
    qed
  qed
  moreover have "doe < year_end ?y"
  proof (rule ccontr)
    assume n: "\<not> doe < year_end ?y"
    show False
    proof (cases "?y = 399")
      case True
      then show ?thesis using n assms by (simp add: year_end_def)
    next
      case False
      then have y': "0 \<le> ?y + 1" "?y + 1 \<le> 399" using y by linarith+
      have "year_start (?y + 1) \<le> doe" using n False by (simp add: year_end_def)
      then have "counted (year_start (?y + 1)) \<le> counted doe" by (rule counted_mono)
      with b [OF y'] q show False by simp
    qed
  qed
  ultimately show ?thesis using y c assms by (simp add: year_of_era_counted)
qed

text \<open>The day of a year counted from March, and its month and day.\<close>

definition month_day :: "int \<Rightarrow> int \<times> int" where
  "month_day doy =
     (let march_month = (5 * doy + 2) div 153
      in (march_month + (if march_month < 10 then 3 else - 9), doy - (153 * march_month + 2) div 5 + 1))"

lemma month_day_ok:
  "\<forall>doy \<in> set [0..365]. case month_day doy of (m, d) \<Rightarrow>
     1 \<le> m \<and> m \<le> 12 \<and> 1 \<le> d \<and> d \<le> (if m = 2 \<and> doy = 365 then 29 else kLengths ! nat (m - 1)) \<and>
     (153 * (m + (if m > 2 then - 3 else 9)) + 2) div 5 + d - 1 = doy \<and>
     (m \<le> 2 \<longrightarrow> doy > 305) \<and> (doy = 365 \<longrightarrow> m = 2)"
  by code_simp

lemma leap_era: "leap (y + e * 400) = leap y"
proof -
  have "(y + e * 400) mod 400 = y mod 400" "(y + e * 4 * 100) mod 100 = y mod 100"
    "(y + e * 100 * 4) mod 4 = y mod 4" by (rule mod_mult_self1)+
  moreover have "e * 4 * 100 = e * 400" "e * 100 * 4 = e * 400" by simp_all
  ultimately show ?thesis by (simp only: leap_def)
qed

lemma civil_ok:
  assumes "0 \<le> n" "n \<le> kMaxTimestampSeconds div 86400" "civil n = (y, m, d)"
  shows "0 \<le> y \<and> y \<le> 9999 \<and> 1 \<le> m \<and> m \<le> 12 \<and> 1 \<le> d \<and> d \<le> DaysInMonth y m \<and> DaysFromCivil y m d = n"
proof -
  define era where "era = (n + 719468) div 146097"
  define doe where "doe = n + 719468 - era * 146097"
  have doe: "0 \<le> doe" "doe < 146097" and n: "n = era * 146097 + doe - 719468"
    using mult_div_mod_eq [of 146097 "n + 719468"] pos_mod_bound [of 146097 "n + 719468"]
      pos_mod_sign [of 146097 "n + 719468"] by (simp_all add: doe_def era_def)
  have era: "0 \<le> era" "era \<le> 24"
    using assms(1,2) by (simp_all add: era_def pos_imp_zdiv_nonneg_iff kMaxTimestampSeconds_def)
  define yoe where "yoe = year_of_era doe"
  have yoe: "0 \<le> yoe" "yoe \<le> 399" "year_start yoe \<le> doe" "doe < year_end yoe"
    using year_of_era_range [OF doe] by (simp_all add: yoe_def)
  define doy where "doy = doe - year_start yoe"
  note b = year_bounds [rule_format, OF in_upto [OF yoe(1,2)]]
  have doy: "0 \<le> doy" "doy \<le> 365" using yoe b by (auto simp: doy_def)
  obtain m' d' where md: "month_day doy = (m', d')" by fastforce
  note k = month_day_ok [rule_format, OF in_upto [OF doy], unfolded md prod.case]
  have cd: "cdiv (if n + 719468 \<ge> 0 then n + 719468 else n + 719468 - 146096) 146097 = era"
    using assms(1) by (simp add: era_def)
  have r: "doe - (365 * yoe + cdiv yoe 4 - cdiv yoe 100) = doy"
    using yoe by (simp add: doy_def year_start_def)
  have mm: "cdiv (5 * doy + 2) 153 = (5 * doy + 2) div 153"
    "cdiv (153 * ((5 * doy + 2) div 153) + 2) 5 = (153 * ((5 * doy + 2) div 153) + 2) div 5"
    using doy by (simp_all add: pos_imp_zdiv_nonneg_iff)
  have c: "m = m'" "d = d'" "y = yoe + era * 400 + (if m' \<le> 2 then 1 else 0)"
    using assms(3) md
    unfolding civil_def month_day_def Let_def cd doe_def [symmetric] yoe_def [symmetric] r mm by auto
  have "y \<le> 9999"
  proof (cases "era = 24 \<and> yoe = 399")
    case True
    then have "doe \<le> 146036" using assms(2) n by (simp add: kMaxTimestampSeconds_def)
    then have "doy \<le> 305" using True by (simp add: doy_def year_start_def)
    with k c True show ?thesis by auto
  next
    case False
    with c era yoe show ?thesis by auto
  qed
  moreover have "d \<le> DaysInMonth y m"
  proof (cases "m = 2 \<and> doy = 365")
    case True
    then have "year_end yoe - year_start yoe = 366" using yoe b by (simp add: doy_def)
    then have "leap (yoe + 1)" using b by simp
    then have "leap y" using True c leap_era [of "yoe + 1" era] by (simp add: algebra_simps)
    with True k c show ?thesis by (simp add: DaysInMonth_def)
  next
    case False
    with k c show ?thesis by (auto simp: DaysInMonth_def kLengths_def)
  qed
  moreover have "DaysFromCivil y m d = n"
  proof -
    have sh: "y - (if m \<le> 2 then 1 else 0) = yoe + era * 400" using c by simp
    have e: "cdiv (if yoe + era * 400 \<ge> 0 then yoe + era * 400 else yoe + era * 400 - 399) 400 = era"
      using yoe era by simp
    have dd: "cdiv (153 * (m + (if m > 2 then - 3 else 9)) + 2) 5 + d - 1 = doy" using k c by auto
    show ?thesis unfolding DaysFromCivil_def Let_def sh e dd
      using yoe n by (simp add: doy_def year_start_def)
  qed
  ultimately show ?thesis using k c era yoe by auto
qed

section \<open>Digits\<close>

lemma dec_of_nat_length: "n < 10 ^ w \<Longrightarrow> 0 < w \<Longrightarrow> length (dec_of_nat n) \<le> w"
proof (induction n arbitrary: w rule: dec_of_nat.induct)
  case (1 n)
  show ?case
  proof (cases "n < 10")
    case True
    with 1 show ?thesis by (subst dec_of_nat.simps) simp
  next
    case False
    obtain v where v: "w = Suc v" using "1.prems" by (cases w) auto
    have "n div 10 < 10 ^ v" using "1.prems" v by (simp add: less_mult_imp_div_less mult.commute)
    moreover have "0 < v" using False "1.prems" v by (cases v) auto
    ultimately have "length (dec_of_nat (n div 10)) \<le> v" using 1 False by blast
    with False v show ?thesis by (subst dec_of_nat.simps) simp
  qed
qed

lemma nat_of_dec_zeros: "nat_of_dec (replicate k (CHR ''0'') @ ds) = nat_of_dec ds"
  by (induction k) (simp_all add: nat_of_dec_def)

lemma TakeDigits_put:
  assumes "0 \<le> v" "v < 10 ^ w" "0 < w"
  shows "TakeDigits w (put v w @ r) = Some (v, r)"
proof -
  have "nat v < 10 ^ w" using assms by (metis nat_less_iff of_nat_numeral of_nat_power)
  then have l: "length (dec_of_nat (nat v)) \<le> w" using assms(3) by (rule dec_of_nat_length)
  moreover have "list_all IsDigit (replicate k (CHR ''0''))" for k
    by (simp add: list_all_iff IsDigit_def less_eq_char_def)
  ultimately show ?thesis
    using assms by (simp add: TakeDigits_def put_def to_string_def dec_of_nat_digits nat_of_dec_zeros)
qed

lemma Expect_Cons [simp]: "Expect cs (c # r) = (if c \<in> set cs then Some r else None)"
  by (simp add: Expect_def)

lemma ParseTimestamp_spelled:
  assumes "0 \<le> y" "y \<le> 9999" "1 \<le> m" "m \<le> 12" "1 \<le> d" "d \<le> DaysInMonth y m"
    and "0 \<le> H" "H \<le> 23" "0 \<le> M" "M \<le> 59" "0 \<le> S" "S \<le> 59"
    and seconds: "DaysFromCivil y m d * 86400 + H * 3600 + M * 60 + S = s"
    and "kMinTimestampSeconds \<le> s" "s \<le> kMaxTimestampSeconds"
  shows "ParseTimestamp (put y 4 @ CHR ''-'' # put m 2 @ CHR ''-'' # put d 2 @ CHR ''T'' #
      put H 2 @ CHR '':'' # put M 2 @ CHR '':'' # put S 2 @ ''Z'') = Some (s * ticks_per_second)"
proof -
  have "d < 100"
  proof -
    have "\<forall>m \<in> set [1..12]. kLengths ! nat (m - 1) < 100" by code_simp
    with assms(3,4) have "kLengths ! nat (m - 1) < 100" by simp
    with assms(6) show ?thesis by (simp add: DaysInMonth_def split: if_splits)
  qed
  then have t: "TakeDigits 4 (put y 4 @ r) = Some (y, r)" "TakeDigits 2 (put m 2 @ r) = Some (m, r)"
    "TakeDigits 2 (put d 2 @ r) = Some (d, r)" "TakeDigits 2 (put H 2 @ r) = Some (H, r)"
    "TakeDigits 2 (put M 2 @ r) = Some (M, r)" "TakeDigits 2 (put S 2 @ r) = Some (S, r)" for r
    using assms by (simp_all add: TakeDigits_put)
  have tail: "fraction ''Z'' = Some ''Z''" "utc_offset ''Z'' = Some (0, [])"
    by (simp_all add: fraction_def utc_offset_def)
  show ?thesis
    using assms by (simp add: ParseTimestamp_def t tail Let_def)
qed

lemma timestamp_reads_back:
  assumes "kMinTimestampSeconds \<le> UnixSeconds t" "UnixSeconds t \<le> kMaxTimestampSeconds"
  shows "ParseTimestamp (FormatTimestamp t) = Some (UnixSeconds t * ticks_per_second)"
proof -
  define s where "s = UnixSeconds t"
  define n where "n = s div 86400"
  define q where "q = s - n * 86400"
  have s: "1 \<le> s" "s \<le> kMaxTimestampSeconds" using assms by (simp_all add: s_def kMinTimestampSeconds_def)
  have q: "0 \<le> q" "q < 86400" and sn: "s = n * 86400 + q"
    using mult_div_mod_eq [of 86400 s] pos_mod_bound [of 86400 s] pos_mod_sign [of 86400 s]
    by (simp_all add: q_def n_def)
  obtain y m d where ymd: "civil n = (y, m, d)" by (metis surj_pair)
  have "0 \<le> n" "n \<le> kMaxTimestampSeconds div 86400"
    using s by (simp_all add: n_def pos_imp_zdiv_nonneg_iff zdiv_mono1)
  note c = civil_ok [OF this ymd]
  have h: "0 \<le> q div 3600" "q div 3600 < 24" "q div 3600 \<le> 23" using q by (simp_all add: pos_imp_zdiv_nonneg_iff)
  have mi: "q div 60 mod 60 < 60" "q div 60 mod 60 \<le> 59" "0 \<le> q div 60 mod 60" "q mod 60 \<le> 59" by simp_all
  have mods: "q div 3600 * 3600 + q div 60 mod 60 * 60 + q mod 60 = q"
  proof -
    have "q div 3600 = q div 60 div 60" by (simp add: zdiv_zmult2_eq)
    then show ?thesis
      using mult_div_mod_eq [of 60 q] mult_div_mod_eq [of 60 "q div 60"] by linarith
  qed
  have "FormatTimestamp t = put y 4 @ CHR ''-'' # put m 2 @ CHR ''-'' # put d 2 @ CHR ''T'' #
      put (q div 3600) 2 @ CHR '':'' # put (q div 60 mod 60) 2 @ CHR '':'' # put (q mod 60) 2 @ ''Z''"
  proof -
    have "cdiv s 86400 = n" "s - n * 86400 = q" "(q < 0) = False" "cdiv q 3600 = q div 3600"
      "cdiv q 60 = q div 60" "(s < kMinTimestampSeconds \<or> s > kMaxTimestampSeconds) = False"
      using s q by (simp_all add: n_def q_def kMinTimestampSeconds_def)
    then show ?thesis
      by (simp only: FormatTimestamp_def Let_def s_def [symmetric] if_False prod.case ymd
          append_Cons append_Nil)
  qed
  moreover have "DaysFromCivil y m d * 86400 + q div 3600 * 3600 + q div 60 mod 60 * 60 + q mod 60 = s"
    using c mods sn by simp
  ultimately show ?thesis
    using c h(1,3) mi(2-4) assms pos_mod_sign [of 60 q]
      ParseTimestamp_spelled [of y m d "q div 3600" "q div 60 mod 60" "q mod 60" s]
    by (simp only: s_def [symmetric] zero_less_numeral simp_thms)
qed

text \<open>Every instant a save may claim is written so that it reads back as the same second, a
  fraction dropped towards the past: the civil calendar the writer computes is the one the reader
  undoes, over every day from 1970 to 9999.\<close>

theorem timestamp_round_trip:
  assumes "kMinTimestampSeconds \<le> UnixSeconds t" "UnixSeconds t \<le> kMaxTimestampSeconds"
  shows "ParseTimestamp (FormatTimestamp t) = Some (UnixSeconds t * ticks_per_second)"
  using assms by (rule timestamp_reads_back)

theorem timestamp_round_trip_witness:
  "ParseTimestamp (FormatTimestamp 1788521787900000000) = Some 1788521787000000000"
  using timestamp_round_trip [of 1788521787900000000]
  by (simp add: UnixSeconds_def ticks_per_second_def kMinTimestampSeconds_def kMaxTimestampSeconds_def)

text \<open>C40: \<open>ParseTimestamp\<close> accepts timestamps its own result type cannot hold: every whole second after
  2262-04-11T23:47:16Z and up to the end of 9999, spelled as the program spells one, is accepted, and its count
  of nanoseconds is more than an \<open>int64_t\<close>, so the addition that builds the time point overflows.\<close>

theorem timestamp_past_2262:
  assumes "9223372036 < seconds" "seconds \<le> kMaxTimestampSeconds"
  shows "ParseTimestamp (FormatTimestamp (seconds * ticks_per_second)) = Some (seconds * ticks_per_second) \<and>
    \<not> in_int64 (seconds * ticks_per_second)"
proof -
  have s: "UnixSeconds (seconds * ticks_per_second) = seconds"
    by (simp add: UnixSeconds_def ticks_per_second_def)
  have "ParseTimestamp (FormatTimestamp (seconds * ticks_per_second)) = Some (seconds * ticks_per_second)"
    using timestamp_reads_back [of "seconds * ticks_per_second"] assms
    by (simp add: s kMinTimestampSeconds_def)
  with assms(1) show ?thesis by (simp add: in_int64_def ticks_per_second_def)
qed

theorem timestamp_past_2262_witness:
  "ParseTimestamp ''2262-04-11T23:47:17Z'' = Some 9223372037000000000 \<and> \<not> in_int64 9223372037000000000"
proof -
  have "FormatTimestamp 9223372037000000000 = ''2262-04-11T23:47:17Z''" by code_simp
  with timestamp_past_2262 [of 9223372037] show ?thesis
    by (simp add: ticks_per_second_def kMaxTimestampSeconds_def)
qed

end
