(* ===== verification/JsonRoundtrip.thy ===== *)
theory JsonRoundtrip
  imports Json
begin

text \<open>
  What the reader of \<open>Json\<close> accepts and answers: the invariant of every value it builds, the
  round trip with what the program writes, and the agreement of its four forms (plain, keeping,
  skipping, streaming).
\<close>

declare One_nat_def [simp del]

lemma take_1_simps [simp]: "take 1 (c # cs) = [c]" "drop 1 (c # cs) = cs"
  by (simp_all add: One_nat_def)

section \<open>The values the reader builds\<close>

text \<open>
  At depth \<open>d\<close>: nested no deeper than \<open>kMaxDepth\<close>, no key twice in one object, and every integer
  one an \<open>int64_t\<close> holds.
\<close>

function wf_at :: "nat \<Rightarrow> Value \<Rightarrow> bool" where
  "wf_at d VNull = (d < kMaxDepth)"
| "wf_at d (VBool _) = (d < kMaxDepth)"
| "wf_at d (VNumber n) = (d < kMaxDepth \<and> (case n of None \<Rightarrow> True | Some i \<Rightarrow> in_int64 i))"
| "wf_at d (VString _) = (d < kMaxDepth)"
| "wf_at d (VArray vs) = (d < kMaxDepth \<and> (\<forall>v \<in> set vs. wf_at (Suc d) v))"
| "wf_at d (VObject ms) =
     (d < kMaxDepth \<and> distinct (map fst ms) \<and> (\<forall>p \<in> set ms. wf_at (Suc d) (snd p)))"
  by pat_completeness auto
termination
proof (relation "measure (\<lambda>(d, v). size v)", goal_cases)
  case (3 d ms p)
  then have "size_prod (\<lambda>_. 0) size p < Suc (size_list (size_prod (\<lambda>_. 0) size) ms)"
    by (simp add: less_Suc_eq_le size_list_estimation')
  then show ?case by (cases p) simp
qed (auto simp: less_Suc_eq_le size_list_estimation')

lemma from_chars_in_int64: "from_chars t = Some i \<Longrightarrow> in_int64 i"
  by (auto simp: from_chars_def Let_def split: if_splits)

lemma ParseNumber_wf: "ParseNumber s = Inr (v, r) \<Longrightarrow> d < kMaxDepth \<Longrightarrow> wf_at d v"
  unfolding ParseNumber_def Let_def
  by (auto split: list.splits if_splits sum.splits option.splits) (metis from_chars_in_int64)+

lemma parse_scalar_wf: "parse_scalar s = Inr (v, r) \<Longrightarrow> d < kMaxDepth \<Longrightarrow> wf_at d v"
  unfolding parse_scalar_def by (auto simp: map_sum_Inr_iff ParseNumber_wf split: if_splits)

lemma member_key_fresh: "member_key ms s = Inr (k, r) \<Longrightarrow> k \<notin> fst ` set ms"
  by (simp add: member_key_def Let_def split: if_splits sum.splits prod.splits)

text \<open>The three results one object member's value can come from.\<close>

abbreviation member_value ::
  "bytes list option \<Rightarrow> nat \<Rightarrow> bytes \<Rightarrow> bytes \<Rightarrow> Value option pres" where
  "member_value keep depth key s \<equiv>
     (if Kept keep key then map_sum id (apfst Some) (ParseValue keep (depth + 1) s)
      else skip_member (depth + 1) s)"

text \<open>One successful round of each loop, taken apart.\<close>

lemma array_items_round:
  assumes "array_items keep depth vs s = Inr (v, r)"
  obtains v1 s1 c t where
    "ParseValue keep (depth + 1) (SkipWhitespace s) = Inr (v1, s1)" "SkipWhitespace s1 = c # t"
    "c = CHR '','' \<and> array_items keep depth (vs @ [v1]) t = Inr (v, r) \<or>
     c = CHR '']'' \<and> v = VArray (vs @ [v1]) \<and> r = t"
  using assms by (subst (asm) array_items.simps) (auto split: sum.splits list.splits if_splits)

lemma object_items_round:
  assumes "object_items keep depth ms s = Inr (v, r)"
  obtains key s1 v1 s2 c t where
    "member_key ms (SkipWhitespace s) = Inr (key, s1)" "member_value keep depth key s1 = Inr (v1, s2)"
    "SkipWhitespace s2 = c # t"
    "c = CHR '','' \<and> object_items keep depth (add_member ms key v1) t = Inr (v, r) \<or>
     c = CHR ''}'' \<and> v = VObject (add_member ms key v1) \<and> r = t"
proof -
  from assms obtain key s1 where m: "member_key ms (SkipWhitespace s) = Inr (key, s1)"
    by (auto simp only: object_items.simps [of keep depth ms s] split: sum.splits)
  let ?rest = "\<lambda>s2 v1. case SkipWhitespace s2 of
                  [] \<Rightarrow> fail [] ''unterminated object''
                | c # r \<Rightarrow>
                    if c = CHR '','' then object_items keep depth (add_member ms key v1) r
                    else if c = CHR ''}'' then Inr (VObject (add_member ms key v1), r)
                    else fail (c # r) (items_fail True)"
  from assms have e0: "(case member_value keep depth key s1 of Inl e \<Rightarrow> Inl e
      | Inr (v1, s2) \<Rightarrow> ?rest s2 v1) = Inr (v, r)"
    by (simp only: object_items.simps [of keep depth ms s] m sum.case prod.case)
  then obtain v1 s2 where e: "member_value keep depth key s1 = Inr (v1, s2)"
    by (cases "member_value keep depth key s1") (simp only: sum.case sum.distinct, metis surj_pair)
  from e0 have "?rest s2 v1 = Inr (v, r)" by (simp only: e sum.case prod.case)
  with m e that show thesis by (cases "SkipWhitespace s2") (auto split: if_splits)
qed

section \<open>Successful parses as a grammar\<close>

text \<open>
  The successful runs of the descent as relations, one rule per way a round can end. The parser
  answers only what they derive (\<open>parse_sound\<close>), so facts about accepted documents are rule
  inductions.
\<close>

inductive value_parse :: "bytes list option \<Rightarrow> nat \<Rightarrow> bytes \<Rightarrow> Value \<Rightarrow> bytes \<Rightarrow> bool"
  and array_parse :: "bytes list option \<Rightarrow> nat \<Rightarrow> Value list \<Rightarrow> bytes \<Rightarrow> Value \<Rightarrow> bytes \<Rightarrow> bool"
  and object_parse :: "bytes list option \<Rightarrow> nat \<Rightarrow> (bytes \<times> Value) list \<Rightarrow> bytes \<Rightarrow> Value \<Rightarrow> bytes \<Rightarrow> bool"
  for keep where
  scalar: "depth < kMaxDepth \<Longrightarrow> s \<noteq> [] \<Longrightarrow> take 1 s \<noteq> ''['' \<Longrightarrow> take 1 s \<noteq> ''{'' \<Longrightarrow>
     parse_scalar s = Inr (v, r) \<Longrightarrow> value_parse keep depth s v r"
| empty_array: "depth < kMaxDepth \<Longrightarrow> take 1 s = ''['' \<Longrightarrow>
     take 1 (SkipWhitespace (drop 1 s)) = '']'' \<Longrightarrow>
     value_parse keep depth s (VArray []) (drop 1 (SkipWhitespace (drop 1 s)))"
| array: "depth < kMaxDepth \<Longrightarrow> take 1 s = ''['' \<Longrightarrow>
     take 1 (SkipWhitespace (drop 1 s)) \<noteq> '']'' \<Longrightarrow>
     array_parse keep depth [] (SkipWhitespace (drop 1 s)) v r \<Longrightarrow> value_parse keep depth s v r"
| empty_object: "depth < kMaxDepth \<Longrightarrow> take 1 s = ''{'' \<Longrightarrow>
     take 1 (SkipWhitespace (drop 1 s)) = ''}'' \<Longrightarrow>
     value_parse keep depth s (VObject []) (drop 1 (SkipWhitespace (drop 1 s)))"
| object: "depth < kMaxDepth \<Longrightarrow> take 1 s = ''{'' \<Longrightarrow>
     take 1 (SkipWhitespace (drop 1 s)) \<noteq> ''}'' \<Longrightarrow>
     object_parse keep depth [] (SkipWhitespace (drop 1 s)) v r \<Longrightarrow> value_parse keep depth s v r"
| array_more: "value_parse keep (depth + 1) (SkipWhitespace s) v1 s1 \<Longrightarrow>
     SkipWhitespace s1 = CHR '','' # t \<Longrightarrow> array_parse keep depth (vs @ [v1]) t v r \<Longrightarrow>
     array_parse keep depth vs s v r"
| array_last: "value_parse keep (depth + 1) (SkipWhitespace s) v1 s1 \<Longrightarrow>
     SkipWhitespace s1 = CHR '']'' # r \<Longrightarrow> array_parse keep depth vs s (VArray (vs @ [v1])) r"
| kept_more: "member_key ms (SkipWhitespace s) = Inr (key, s1) \<Longrightarrow> Kept keep key \<Longrightarrow>
     value_parse keep (depth + 1) s1 v1 s2 \<Longrightarrow> SkipWhitespace s2 = CHR '','' # t \<Longrightarrow>
     object_parse keep depth (ms @ [(key, v1)]) t v r \<Longrightarrow> object_parse keep depth ms s v r"
| kept_last: "member_key ms (SkipWhitespace s) = Inr (key, s1) \<Longrightarrow> Kept keep key \<Longrightarrow>
     value_parse keep (depth + 1) s1 v1 s2 \<Longrightarrow> SkipWhitespace s2 = CHR ''}'' # r \<Longrightarrow>
     object_parse keep depth ms s (VObject (ms @ [(key, v1)])) r"
| skipped_more: "member_key ms (SkipWhitespace s) = Inr (key, s1) \<Longrightarrow> \<not> Kept keep key \<Longrightarrow>
     SkipValue (depth + 1) s1 = Inr (u, s2) \<Longrightarrow> SkipWhitespace s2 = CHR '','' # t \<Longrightarrow>
     object_parse keep depth ms t v r \<Longrightarrow> object_parse keep depth ms s v r"
| skipped_last: "member_key ms (SkipWhitespace s) = Inr (key, s1) \<Longrightarrow> \<not> Kept keep key \<Longrightarrow>
     SkipValue (depth + 1) s1 = Inr (u, s2) \<Longrightarrow> SkipWhitespace s2 = CHR ''}'' # r \<Longrightarrow>
     object_parse keep depth ms s (VObject ms) r"

lemma member_value_cases:
  assumes "member_value keep depth key s = Inr (v1, s2)"
  obtains (kept) w where "Kept keep key" "v1 = Some w" "ParseValue keep (depth + 1) s = Inr (w, s2)"
  | (skipped) u where "\<not> Kept keep key" "v1 = None" "SkipValue (depth + 1) s = Inr (u, s2)"
  using assms by (auto simp: map_sum_Inr_iff skip_member_def split: if_splits)

lemma parse_sound:
  "ParseValue keep depth s = Inr (v, r) \<Longrightarrow> value_parse keep depth s v r"
  "array_items keep depth vs s = Inr (v, r) \<Longrightarrow> array_parse keep depth vs s v r"
  "object_items keep depth ms s = Inr (v, r) \<Longrightarrow> object_parse keep depth ms s v r"
proof (induction keep depth s and keep depth vs s and keep depth ms s arbitrary: v r and v r and v r
    rule: ParseValue_array_items_object_items.induct)
  case (1 keep depth s)
  from "1.prems" have ok: "depth < kMaxDepth" "s \<noteq> []"
    by (auto simp: ParseValue.simps [of keep depth s] split: if_splits)
  consider "take 1 s = ''[''" | "take 1 s = ''{''" | "take 1 s \<noteq> ''[''" "take 1 s \<noteq> ''{''" by blast
  then show ?case
  proof cases
    case 1
    with "1.prems" ok "1.IH"(1) show ?thesis
      by (auto simp: ParseValue.simps [of keep depth s] split: if_splits
          intro: value_parse_array_parse_object_parse.intros)
  next
    case 2
    with "1.prems" ok "1.IH"(2) show ?thesis
      by (auto simp: ParseValue.simps [of keep depth s] split: if_splits
          intro: value_parse_array_parse_object_parse.intros)
  next
    case 3
    with "1.prems" ok show ?thesis
      by (intro scalar) (auto simp: ParseValue.simps [of keep depth s])
  qed
next
  case (2 keep depth vs s)
  from "2.prems" show ?case
    by (rule array_items_round) (use "2.IH" in \<open>auto intro: array_more array_last\<close>)
next
  case (3 keep depth ms s)
  from "3.prems" obtain key s1 v1 s2 c t where o:
    "member_key ms (SkipWhitespace s) = Inr (key, s1)" "member_value keep depth key s1 = Inr (v1, s2)"
    "SkipWhitespace s2 = c # t"
    "c = CHR '','' \<and> object_items keep depth (add_member ms key v1) t = Inr (v, r) \<or>
     c = CHR ''}'' \<and> v = VObject (add_member ms key v1) \<and> r = t"
    by (rule object_items_round)
  have more: "object_parse keep depth (add_member ms key v1) t v r" if "c = CHR '',''"
    using o(4) that "3.IH"(2) [OF o(1) _ o(2) _ o(3)] by simp
  from o(2) show ?case
  proof (cases rule: member_value_cases)
    case (kept w)
    then have "value_parse keep (depth + 1) s1 w s2" using "3.IH"(1) [OF o(1) _ kept(1)] by simp
    with o more kept show ?thesis
      by (auto simp: add_member_def intro: kept_more kept_last)
  next
    case (skipped u)
    with o more show ?thesis by (auto simp: add_member_def intro: skipped_more skipped_last)
  qed
qed


inductive_cases value_parseE: "value_parse keep depth s v r"

lemma value_parse_wf:
  "value_parse keep depth s v r \<Longrightarrow> wf_at depth v"
  "array_parse keep depth vs s v r \<Longrightarrow> depth < kMaxDepth \<Longrightarrow> \<forall>w \<in> set vs. wf_at (depth + 1) w \<Longrightarrow>
     wf_at depth v"
  "object_parse keep depth ms s v r \<Longrightarrow> depth < kMaxDepth \<Longrightarrow> distinct (map fst ms) \<Longrightarrow>
     \<forall>p \<in> set ms. wf_at (depth + 1) (snd p) \<Longrightarrow> wf_at depth v"
proof (induction rule: value_parse_array_parse_object_parse.inducts)
  case (scalar depth s v r)
  then show ?case by (simp add: parse_scalar_wf)
next
  case (kept_more ms s key s1 depth v1 s2 t v r)
  then show ?case using member_key_fresh [OF kept_more.hyps(1)] by (simp add: ball_Un)
next
  case (kept_last ms s key s1 depth v1 s2 r)
  then show ?case using member_key_fresh [OF kept_last.hyps(1)] by (simp add: ball_Un Suc_eq_plus1)
qed (simp_all add: Suc_eq_plus1)

section \<open>A failure says something\<close>

fun loud :: "perr \<Rightarrow> bool" where
  "loud (Fail_at _ _ m) = (m \<noteq> [])"
| "loud (Refused e) = (\<not> error_ok e)"

definition loudly :: "perr + 'a \<Rightarrow> bool" where
  "loudly x = (case x of Inl e \<Rightarrow> loud e | Inr _ \<Rightarrow> True)"

lemma loudly_simps [simp]: "loudly (Inl e) = loud e" "loudly (Inr y)"
  by (simp_all add: loudly_def)

lemma loudly_bind [intro!]:
  "loudly x \<Longrightarrow> (\<And>p. x = Inr p \<Longrightarrow> loudly (g p)) \<Longrightarrow> loudly (case x of Inl e \<Rightarrow> Inl e | Inr p \<Rightarrow> g p)"
  by (cases x) auto

lemma loudly_if: "(c \<Longrightarrow> loudly a) \<Longrightarrow> (\<not> c \<Longrightarrow> loudly b) \<Longrightarrow> loudly (if c then a else b)"
  by simp

lemma loudly_map_sum [simp]: "loudly (map_sum id f x) = loudly x"
  by (cases x) auto

lemma ParseHex4_loud [simp]: "loudly (ParseHex4 s)"
  by (auto simp: ParseHex4_def split: option.splits)

lemma ParseUnicodeEscape_loud [simp]: "loudly (ParseUnicodeEscape out s)"
  unfolding ParseUnicodeEscape_def
  by (rule loudly_bind loudly_if ParseHex4_loud |
      simp only: split_beta loudly_simps loud.simps append_is_Nil_conv list.distinct simp_thms)+

lemma string_loop_loud [simp]: "loudly (string_loop out s)"
proof (induction s arbitrary: out rule: measure_induct_rule [of length])
  case (less s)
  show ?case
  proof (cases s)
    case (Cons c cs)
    show ?thesis
    proof (cases "c = CHR 0x5C")
      case True
      show ?thesis
      proof (cases cs)
        case (Cons e es)
        have "loudly (string_loop out' r)" if "ParseUnicodeEscape out es = Inr (out', r)" for out' r
          using less ParseUnicodeEscape_length [OF that] \<open>s = c # cs\<close> Cons by simp
        moreover have "loudly (string_loop out' es)" for out'
          using less \<open>s = c # cs\<close> Cons by simp
        ultimately show ?thesis
          by (subst string_loop.simps) (auto simp: \<open>s = c # cs\<close> Cons True split: option.splits)
      qed (simp add: string_loop.simps \<open>s = c # cs\<close> True)
    next
      case False
      have "loudly (string_loop out' cs)" for out' using less Cons by simp
      with False show ?thesis by (simp add: string_loop.simps [of out "c # cs"] Cons)
    qed
  qed (simp add: string_loop.simps)
qed

lemma ParseString_loud [simp]: "loudly (ParseString s)"
  by (simp add: ParseString_def)

lemma Literal_loud [simp]: "loudly (Literal w s)"
  by (auto simp: Literal_def)

lemma number_loud [simp]: "loudly (number_frac s)" "loudly (number_exp i s)"
  unfolding number_frac_def number_exp_def Let_def by (auto split: list.splits)

lemma ParseNumber_loud [simp]: "loudly (ParseNumber s)"
  unfolding ParseNumber_def Let_def by (auto split: list.splits prod.splits)

lemma parse_scalar_loud [simp]: "loudly (parse_scalar s)"
  unfolding parse_scalar_def by simp

lemma skip_scalar_loud [simp]: "loudly (skip_scalar s)"
  unfolding skip_scalar_def by (auto split: prod.splits)

lemma member_key_loud [simp]: "loudly (member_key ms s)"
  unfolding member_key_def Let_def by (auto split: prod.splits)

lemma skip_key_loud [simp]: "loudly (skip_key obj s)"
  unfolding skip_key_def Let_def by (auto split: prod.splits)

lemma SkipValue_loud [simp]: "loudly (SkipValue depth s)" "loudly (skip_items obj depth s)"
proof (induction depth s and obj depth s rule: SkipValue_skip_items.induct)
  case (1 depth s)
  then show ?case by (subst SkipValue.simps) (intro loudly_if; simp)
next
  case (2 obj depth s)
  then show ?case by (subst skip_items.simps) (auto split: prod.splits list.splits)
qed

lemma ParseValue_loud [simp]:
  "loudly (ParseValue keep depth s)" "loudly (array_items keep depth vs s)"
  "loudly (object_items keep depth ms s)"
proof (induction keep depth s and keep depth vs s and keep depth ms s
    rule: ParseValue_array_items_object_items.induct)
  case (1 keep depth s)
  then show ?case by (subst ParseValue.simps) (intro loudly_if; simp)
next
  case (2 keep depth vs s)
  then show ?case by (subst array_items.simps) (auto split: prod.splits list.splits)
next
  case (3 keep depth ms s)
  show ?case
  proof (subst object_items.simps, intro loudly_bind member_key_loud)
    fix p assume p: "member_key ms (SkipWhitespace s) = Inr p"
    obtain key s1 where k: "p = (key, s1)" by (cases p)
    have "loudly (member_value keep depth key s1)"
      using "3.IH"(1) [OF p k [symmetric]] by (simp add: skip_member_def)
    moreover have "loudly (case q of (v, s2) \<Rightarrow>
         case SkipWhitespace s2 of
           [] \<Rightarrow> fail [] ''unterminated object''
         | c # r \<Rightarrow>
             if c = CHR '','' then object_items keep depth (add_member ms key v) r
             else if c = CHR ''}'' then Inr (VObject (add_member ms key v), r)
             else fail (c # r) (items_fail True))"
      if "member_value keep depth key s1 = Inr q" for q
      using "3.IH"(2) [OF p k [symmetric] that] by (auto split: prod.splits list.splits)
    ultimately show "loudly (case p of (key, s1) \<Rightarrow>
         case member_value keep depth key s1 of Inl e \<Rightarrow> Inl e
         | Inr (v, s2) \<Rightarrow>
           (case SkipWhitespace s2 of
              [] \<Rightarrow> fail [] ''unterminated object''
            | c # r \<Rightarrow>
                if c = CHR '','' then object_items keep depth (add_member ms key v) r
                else if c = CHR ''}'' then Inr (VObject (add_member ms key v), r)
                else fail (c # r) (items_fail True)))"
      unfolding k prod.case by (rule loudly_bind)
  qed
qed

lemma failed_not_ok: "loud e \<Longrightarrow> \<not> pr_ok (failed text e)"
  by (cases e) (auto simp: failed_def pr_ok_def error_ok_def)

lemma finish_ok_iff:
  "loudly res \<Longrightarrow> pr_ok (finish text res) \<longleftrightarrow> (\<exists>v r. res = Inr (v, r) \<and> SkipWhitespace r = [])"
  by (auto simp: finish_def Let_def failed_not_ok split: sum.splits prod.splits)
    (auto simp: pr_ok_def error_ok_def no_error_def)

text \<open>What acceptance by \<open>Parse\<close> is: the root value is read and only white space follows it.\<close>

lemma Parse_ok_iff:
  "pr_ok (Parse text) \<longleftrightarrow>
     (\<exists>v r. ParseValue None 0 (SkipWhitespace text) = Inr (v, r) \<and> SkipWhitespace r = [])"
proof (cases "SkipWhitespace text = []")
  case True
  then show ?thesis
    by (simp add: Parse_def failed_def pr_ok_def error_ok_def ParseValue.simps [of None 0 "[]"] kMaxDepth_def)
qed (simp add: Parse_def Let_def finish_ok_iff)

lemma Parse_value:
  assumes "ParseValue None 0 (SkipWhitespace text) = Inr (v, r)" "SkipWhitespace r = []"
  shows "Parse text = \<lparr>pr_value = v, pr_error = no_error\<rparr>"
proof -
  have "SkipWhitespace text \<noteq> []" using ParseValue_length [OF assms(1)] by auto
  with assms show ?thesis by (simp add: Parse_def Let_def finish_def)
qed

section \<open>Skipping reads what parsing reads\<close>

lemma parse_scalar_skip: "parse_scalar s = Inr (v, r) \<Longrightarrow> skip_scalar s = Inr ((), r)"
  by (auto simp: parse_scalar_def skip_scalar_def map_sum_Inr_iff split: if_splits)

lemma SkipValue_bracket:
  assumes "depth < kMaxDepth" "take 1 s = [if obj then CHR ''{'' else CHR ''['']"
  shows "SkipValue depth s =
    (if take 1 (SkipWhitespace (drop 1 s)) = [skip_close obj]
     then Inr ((), drop 1 (SkipWhitespace (drop 1 s)))
     else skip_items obj depth (SkipWhitespace (drop 1 s)))"
  using assms by (cases s; cases obj) (auto simp: SkipValue.simps)

lemma member_key_skip: "member_key ms s = Inr (k, r) \<Longrightarrow> skip_key True s = Inr ((), r)"
  by (auto simp: member_key_def skip_key_def Let_def split: if_splits sum.splits)

lemma skip_items_round:
  assumes "skip_key obj (SkipWhitespace s) = Inr (u, s1)" "SkipValue (depth + 1) s1 = Inr (u', s2)"
    "SkipWhitespace s2 = c # t"
  shows "skip_items obj depth s =
    (if c = CHR '','' then skip_items obj depth t else if c = skip_close obj then Inr ((), t)
     else fail (c # t) (items_fail obj))"
  using assms by (simp add: skip_items.simps [of obj depth s])

lemma value_parse_skips:
  "value_parse keep depth s v r \<Longrightarrow> SkipValue depth s = Inr ((), r)"
  "array_parse keep depth vs s v r \<Longrightarrow> skip_items False depth s = Inr ((), r)"
  "object_parse keep depth ms s v r \<Longrightarrow> skip_items True depth s = Inr ((), r)"
proof (induction rule: value_parse_array_parse_object_parse.inducts)
  case (scalar depth s v r)
  then show ?case by (simp add: SkipValue.simps parse_scalar_skip)
next
  case (empty_array depth s) then show ?case
    using SkipValue_bracket [of depth s False] by (simp add: skip_close_def)
next
  case (array depth s v r) then show ?case
    using SkipValue_bracket [of depth s False] by (simp add: skip_close_def)
next
  case (empty_object depth s) then show ?case
    using SkipValue_bracket [of depth s True] by (simp add: skip_close_def)
next
  case (object depth s v r) then show ?case
    using SkipValue_bracket [of depth s True] by (simp add: skip_close_def)
next
  case (array_more depth s v1 s1 t vs v r)
  then show ?case
    using skip_items_round [of False s "()" "SkipWhitespace s" depth "()" s1] by (simp add: skip_key_def)
next
  case (array_last depth s v1 s1 r vs)
  then show ?case
    using skip_items_round [of False s "()" "SkipWhitespace s" depth "()" s1]
    by (simp add: skip_key_def skip_close_def)
next
  case (kept_more ms s key s1 depth v1 s2 t v r)
  then show ?case
    using skip_items_round [OF member_key_skip, of ms s key s1 depth "()" s2] by simp
next
  case (kept_last ms s key s1 depth v1 s2 r)
  then show ?case
    using skip_items_round [OF member_key_skip, of ms s key s1 depth "()" s2]
    by (simp add: skip_close_def)
next
  case (skipped_more ms s key s1 depth u s2 t v r)
  then show ?case
    using skip_items_round [OF member_key_skip, of ms s key s1 depth u s2] by simp
next
  case (skipped_last ms s key s1 depth u s2 r)
  then show ?case
    using skip_items_round [OF member_key_skip, of ms s key s1 depth u s2]
    by (simp add: skip_close_def)
qed

text \<open>Every document \<open>Parse\<close> or a streaming form accepts nests at most sixteen levels, has no
  key twice in one object, and holds only integers an \<open>int64_t\<close> can: so a later reader never
  meets a shadowed key or a saturated number.\<close>

theorem parsed_wf: "pr_ok (Parse text) \<Longrightarrow> wf_at 0 (pr_value (Parse text))"
  using value_parse_wf(1) [OF parse_sound(1)] by (fastforce simp: Parse_ok_iff Parse_value)



section \<open>The grammar is complete\<close>

lemma parse_complete:
  "value_parse keep depth s v r \<Longrightarrow> ParseValue keep depth s = Inr (v, r)"
  "array_parse keep depth vs s v r \<Longrightarrow> array_items keep depth vs s = Inr (v, r)"
  "object_parse keep depth ms s v r \<Longrightarrow> object_items keep depth ms s = Inr (v, r)"
proof (induction rule: value_parse_array_parse_object_parse.inducts)
  case (scalar depth s v r) then show ?case by (simp add: ParseValue.simps)
next
  case (empty_array depth s) then show ?case by (cases s) (simp_all add: ParseValue.simps)
next
  case (array depth s v r) then show ?case by (cases s) (simp_all add: ParseValue.simps)
next
  case (empty_object depth s) then show ?case by (cases s) (simp_all add: ParseValue.simps)
next
  case (object depth s v r) then show ?case by (cases s) (simp_all add: ParseValue.simps)
next
  case (array_more depth s v1 s1 t vs v r) then show ?case by (simp add: array_items.simps [of _ _ vs])
next
  case (array_last depth s v1 s1 r vs) then show ?case by (simp add: array_items.simps [of _ _ vs])
next
  case (kept_more ms s key s1 depth v1 s2 t v r)
  then show ?case by (simp add: object_items.simps [of _ _ ms s] add_member_def)
next
  case (kept_last ms s key s1 depth v1 s2 r)
  then show ?case by (simp add: object_items.simps [of _ _ ms s] add_member_def)
next
  case (skipped_more ms s key s1 depth u s2 t v r)
  then show ?case by (simp add: object_items.simps [of _ _ ms s] add_member_def skip_member_def)
next
  case (skipped_last ms s key s1 depth u s2 r)
  then show ?case by (simp add: object_items.simps [of _ _ ms s] add_member_def skip_member_def)
qed

lemma parse_iff: "ParseValue keep depth s = Inr (v, r) \<longleftrightarrow> value_parse keep depth s v r"
  using parse_sound(1) parse_complete(1) by blast

section \<open>The keeping form\<close>

text \<open>A value with only the members \<open>ks\<close> names, at every depth.\<close>

function project :: "bytes list \<Rightarrow> Value \<Rightarrow> Value" where
  "project ks (VArray vs) = VArray (map (project ks) vs)"
| "project ks (VObject ms) =
     VObject (map (\<lambda>p. (fst p, project ks (snd p))) (filter (\<lambda>p. fst p \<in> set ks) ms))"
| "project ks VNull = VNull"
| "project ks (VBool b) = VBool b"
| "project ks (VNumber n) = VNumber n"
| "project ks (VString s) = VString s"
  by pat_completeness auto
termination
proof (relation "measure (\<lambda>(ks, v). size v)", goal_cases)
  case (3 ks ms p)
  then have "p \<in> set ms" by simp
  then have "size_prod (\<lambda>_. 0) size p < Suc (size_list (size_prod (\<lambda>_. 0) size) ms)"
    by (simp add: less_Suc_eq_le size_list_estimation')
  then show ?case by (cases p) simp
qed (auto simp: less_Suc_eq_le size_list_estimation')

abbreviation project_members :: "bytes list \<Rightarrow> (bytes \<times> Value) list \<Rightarrow> (bytes \<times> Value) list" where
  "project_members ks ms \<equiv> map (\<lambda>p. (fst p, project ks (snd p))) (filter (\<lambda>p. fst p \<in> set ks) ms)"

lemma parse_scalar_project: "parse_scalar s = Inr (v, r) \<Longrightarrow> project ks v = v"
proof -
  assume p: "parse_scalar s = Inr (v, r)"
  have n: "ParseNumber s = Inr (v, r) \<Longrightarrow> \<exists>n. v = VNumber n"
    unfolding ParseNumber_def Let_def by (auto split: list.splits if_splits sum.splits prod.splits)
  from p show ?thesis
    unfolding parse_scalar_def by (auto simp: map_sum_Inr_iff split: if_splits dest: n)
qed

lemma member_key_subset:
  "member_key ms s = Inr (k, r) \<Longrightarrow> fst ` set ms' \<subseteq> fst ` set ms \<Longrightarrow> member_key ms' s = Inr (k, r)"
  by (auto simp: member_key_def Let_def split: if_splits sum.splits prod.splits)

lemma value_parse_keep:
  "value_parse None depth s v r \<Longrightarrow> value_parse (Some ks) depth s (project ks v) r"
  "array_parse None depth vs s v r \<Longrightarrow>
     array_parse (Some ks) depth (map (project ks) vs) s (project ks v) r"
  "object_parse None depth ms s v r \<Longrightarrow>
     object_parse (Some ks) depth (project_members ks ms) s (project ks v) r"
proof (induction rule: value_parse_array_parse_object_parse.inducts)
  case (scalar depth s v r)
  then show ?case using parse_scalar_project [OF scalar(5)] by (simp add: value_parse_array_parse_object_parse.scalar)
next
  case (array_more depth s v1 s1 t vs v r)
  then show ?case by (auto intro: value_parse_array_parse_object_parse.array_more)
next
  case (array_last depth s v1 s1 r vs)
  then show ?case using value_parse_array_parse_object_parse.array_last [of "Some ks" depth s "project ks v1" s1 r] by simp
next
  case (kept_more ms s key s1 depth v1 s2 t v r)
  have k: "member_key (project_members ks ms) (SkipWhitespace s) = Inr (key, s1)"
    by (rule member_key_subset [OF kept_more.hyps(1)]) force
  show ?case
  proof (cases "key \<in> set ks")
    case True
    with kept_more k show ?thesis
      by (intro value_parse_array_parse_object_parse.kept_more [of _ s key s1 _ depth "project ks v1" s2 t])
        (auto simp: Kept_def)
  next
    case False
    with kept_more k show ?thesis
      by (intro value_parse_array_parse_object_parse.skipped_more [of _ s key s1 _ depth "()" s2 t])
        (auto simp: Kept_def intro: value_parse_skips(1))
  qed
next
  case (kept_last ms s key s1 depth v1 s2 r)
  have k: "member_key (project_members ks ms) (SkipWhitespace s) = Inr (key, s1)"
    by (rule member_key_subset [OF kept_last.hyps(1)]) force
  show ?case
  proof (cases "key \<in> set ks")
    case True
    with kept_last k show ?thesis
      using value_parse_array_parse_object_parse.kept_last
        [of "project_members ks ms" s key s1 "Some ks" depth "project ks v1" s2 r]
      by (auto simp: Kept_def)
  next
    case False
    with kept_last k show ?thesis
      using value_parse_array_parse_object_parse.skipped_last
        [of "project_members ks ms" s key s1 "Some ks" depth "()" s2 r] value_parse_skips(1)
      by (auto simp: Kept_def)
  qed
qed (auto simp: Kept_def intro: value_parse_array_parse_object_parse.intros)


text \<open>The keeping form of the reader answers exactly what the plain one would with every object,
  at every depth, cut down to the members named: a member left out is still read to its end, and
  the bytes left over are the same.\<close>

theorem keeping_projects:
  "ParseValue None depth s = Inr (v, r) \<Longrightarrow> ParseValue (Some ks) depth s = Inr (project ks v, r)"
  by (simp add: parse_iff value_parse_keep(1))

definition sample_text :: bytes where
  "sample_text = ''{'' @ Quote ''id'' @ '':7,'' @ Quote ''x'' @ '': [1, true]}''"

lemma sample_document:
  "ParseValue None 0 sample_text =
     Inr (VObject [(''id'', VNumber (Some 7)), (''x'', VArray [VNumber (Some 1), VBool True])], [])"
  by code_simp

theorem keeping_projects_witness:
  "ParseValue (Some [''id'']) 0 sample_text =
     Inr (project [''id''] (VObject [(''id'', VNumber (Some 7)), (''x'', VArray [VNumber (Some 1), VBool True])]), [])"
  by (rule keeping_projects [OF sample_document])

section \<open>The streaming form\<close>

text \<open>Handing the elements over one after another, until one is refused.\<close>

fun run_each :: "'s each \<Rightarrow> nat \<Rightarrow> 's \<Rightarrow> Value list \<Rightarrow> 's option" where
  "run_each each index st [] = Some st"
| "run_each each index st (v # vs) =
     (if error_ok (fst (each v index st)) then run_each each (index + 1) (snd (each v index st)) vs
      else None)"

text \<open>The root object's members with the streamed array emptied.\<close>

fun stream_run ::
  "bytes \<Rightarrow> 's each \<Rightarrow> 's \<Rightarrow> (bytes \<times> Value) list \<Rightarrow> ('s \<times> (bytes \<times> Value) list) option" where
  "stream_run key each st [] = Some (st, [])"
| "stream_run key each st ((k, w) # ms) =
     (if k = key then
        (case w of
           VArray vs \<Rightarrow>
             Option.bind (run_each each 0 st vs)
               (\<lambda>st'. map_option (apsnd (Cons (k, VArray []))) (stream_run key each st' ms))
         | _ \<Rightarrow> None)
      else map_option (apsnd (Cons (k, w))) (stream_run key each st ms))"

lemma array_parse_streams:
  "array_parse None depth vs s v r \<Longrightarrow>
     \<exists>ws. v = VArray (vs @ ws) \<and>
       (\<forall>index st st'. run_each each index st ws = Some st' \<longrightarrow>
          each_items None each depth index st s = (st', Inr (VArray [], r)))"
proof (induction rule: value_parse_array_parse_object_parse.inducts(2)
    [where ?P1.0 = "\<lambda>_ _ _ _. True" and ?P3.0 = "\<lambda>_ _ _ _ _. True"])
  case (array_more depth s v1 s1 t vs v r)
  from array_more obtain ws where ws: "v = VArray ((vs @ [v1]) @ ws)"
    "\<And>index st st'. run_each each index st ws = Some st' \<Longrightarrow>
       each_items None each depth index st t = (st', Inr (VArray [], r))" by blast
  from array_more.hyps(1) have p: "ParseValue None (depth + 1) (SkipWhitespace s) = Inr (v1, s1)"
    by (rule parse_complete(1))
  have "each_items None each depth index st s = (st', Inr (VArray [], r))"
    if "run_each each index st (v1 # ws) = Some st'" for index st st'
    using that ws(2) p array_more.hyps
    by (simp add: each_items.simps [of None each depth index st s] split: if_splits)
  with ws(1) show ?case by (intro exI [of _ "v1 # ws"]) simp
next
  case (array_last depth s v1 s1 r vs)
  from array_last.hyps(1) have p: "ParseValue None (depth + 1) (SkipWhitespace s) = Inr (v1, s1)"
    by (rule parse_complete(1))
  have "each_items None each depth index st s = (st', Inr (VArray [], r))"
    if "run_each each index st [v1] = Some st'" for index st st'
    using that p array_last.hyps
    by (simp add: each_items.simps [of None each depth index st s] split: if_splits)
  then show ?case by (intro exI [of _ "[v1]"]) simp
qed simp_all

lemma ParseNumber_number: "ParseNumber s = Inr (v, r) \<Longrightarrow> \<exists>n. v = VNumber n"
  unfolding ParseNumber_def Let_def by (auto split: list.splits if_splits sum.splits prod.splits)

lemma parse_scalar_not_nested:
  "parse_scalar s \<noteq> Inr (VArray vs, r)" "parse_scalar s \<noteq> Inr (VObject ms, r)"
  by (auto simp: parse_scalar_def map_sum_Inr_iff split: if_splits dest: ParseNumber_number)

lemma object_parse_object: "object_parse keep depth ms s v r \<Longrightarrow> \<exists>ws. v = VObject ws"
  by (induction rule: value_parse_array_parse_object_parse.inducts(3)
    [where ?P1.0 = "\<lambda>_ _ _ _. True" and ?P2.0 = "\<lambda>_ _ _ _ _. True"]) auto

lemma Parser_ParseEach_streams:
  assumes p: "value_parse None depth s (VArray vs) r" and e: "run_each each 0 st vs = Some st'"
  shows "Parser_ParseEach None key each depth st s = (st', Inr (VArray [], r))"
  using p
proof (cases rule: value_parse.cases)
  case array
  then obtain ws where "vs = ws" "\<And>index st st'. run_each each index st ws = Some st' \<Longrightarrow>
     each_items None each depth index st (SkipWhitespace (drop 1 s)) = (st', Inr (VArray [], r))"
    using array_parse_streams [of depth "[]" "SkipWhitespace (drop 1 s)" "VArray vs" r each] by auto
  with array e show ?thesis by (simp add: Parser_ParseEach_def Let_def)
next
  case object
  then show ?thesis using object_parse_object by blast
qed (use e parse_scalar_not_nested in \<open>auto simp: Parser_ParseEach_def Let_def\<close>)


lemma stream_member_plain:
  assumes "value_parse None 1 s w r" "stream_run key each st ((k, w) # ms) = Some (st', ms')"
  obtains st1 w' ms1 where "stream_member None key each k st s = (st1, Inr (Some w', r))"
    "stream_run key each st1 ms = Some (st', ms1)" "ms' = (k, w') # ms1"
proof (cases "k = key")
  case True
  with assms(2) obtain vs st1 ms1 where "w = VArray vs" "run_each each 0 st vs = Some st1"
    "stream_run key each st1 ms = Some (st', ms1)" "ms' = (k, VArray []) # ms1"
    by (auto split: Value.splits simp: bind_eq_Some_conv)
  with that True Parser_ParseEach_streams [of 1 s vs r each st st1 key] assms(1) show thesis
    by (simp add: stream_member_def Kept_def)
next
  case False
  with assms that show thesis by (auto simp: stream_member_def Kept_def parse_complete(1))
qed

lemma member_key_keys: "fst ` set ms' = fst ` set ms \<Longrightarrow> member_key ms' s = member_key ms s"
  by (simp only: member_key_def)

lemma object_parse_streams:
  "object_parse None depth ms s v r \<Longrightarrow> depth = 0 \<Longrightarrow>
     \<exists>ws. v = VObject (ms @ ws) \<and>
       (\<forall>ms' st st' ws'. fst ` set ms' = fst ` set ms \<longrightarrow> stream_run key each st ws = Some (st', ws') \<longrightarrow>
          stream_items None key each ms' st s = (st', Inr (VObject (ms' @ ws'), r)))"
proof (induction rule: value_parse_array_parse_object_parse.inducts(3)
    [where ?P1.0 = "\<lambda>_ _ _ _. True" and ?P2.0 = "\<lambda>_ _ _ _ _. True"])
  case (kept_more ms s k s1 depth v1 s2 t v r)
  then obtain ws where ws: "v = VObject ((ms @ [(k, v1)]) @ ws)"
    "\<And>ms' st st' ws'. fst ` set ms' = fst ` set (ms @ [(k, v1)]) \<Longrightarrow>
       stream_run key each st ws = Some (st', ws') \<Longrightarrow>
       stream_items None key each ms' st t = (st', Inr (VObject (ms' @ ws'), r))" by blast
  have "stream_items None key each ms' st s = (st', Inr (VObject (ms' @ ws'), r))"
    if m: "fst ` set ms' = fst ` set ms" and run: "stream_run key each st ((k, v1) # ws) = Some (st', ws')"
    for ms' st st' ws'
  proof -
    obtain st1 w' ms1 where w: "stream_member None key each k st s1 = (st1, Inr (Some w', s2))"
      "stream_run key each st1 ws = Some (st', ms1)" "ws' = (k, w') # ms1"
      by (rule stream_member_plain [OF _ run, of s1 s2]) (use kept_more in simp_all)
    have "stream_items None key each (ms' @ [(k, w')]) st1 t = (st', Inr (VObject ((ms' @ [(k, w')]) @ ms1), r))"
      using m by (intro ws(2) w(2)) auto
    with w kept_more.hyps show ?thesis
      by (simp add: stream_items.simps [of None key each ms' st s] member_key_keys [OF m] add_member_def)
  qed
  with ws(1) show ?case by (intro exI [of _ "(k, v1) # ws"]) simp
next
  case (kept_last ms s k s1 depth v1 s2 r)
  have "stream_items None key each ms' st s = (st', Inr (VObject (ms' @ ws'), r))"
    if m: "fst ` set ms' = fst ` set ms" and run: "stream_run key each st [(k, v1)] = Some (st', ws')"
    for ms' st st' ws'
  proof -
    obtain st1 w' ms1 where w: "stream_member None key each k st s1 = (st1, Inr (Some w', s2))"
      "stream_run key each st1 [] = Some (st', ms1)" "ws' = (k, w') # ms1"
      by (rule stream_member_plain [OF _ run, of s1 s2]) (use kept_last in simp_all)
    with kept_last show ?thesis
      by (simp add: stream_items.simps [of None key each ms' st s] member_key_keys [OF m] add_member_def)
  qed
  then show ?case by (intro exI [of _ "[(k, v1)]"]) simp
qed (simp_all add: Kept_def)

lemma ParseEach_object:
  assumes "pr_ok (Parse text)" "pr_value (Parse text) = VObject ms" "key \<noteq> []"
    and "stream_run key each st ms = Some (st', ms')"
  shows "ParseEach None text key each context st =
    (st', \<lparr>pr_value = VObject ms', pr_error = no_error\<rparr>)"
proof -
  let ?s = "SkipWhitespace text"
  from assms(1) obtain v r where p: "ParseValue None 0 ?s = Inr (v, r)" "SkipWhitespace r = []"
    by (auto simp: Parse_ok_iff)
  with assms(2) have v: "v = VObject ms" by (simp add: Parse_value)
  from p(1) have "value_parse None 0 ?s (VObject ms) r" unfolding v by (rule parse_sound(1))
  then have run: "take 1 ?s = ''{'' \<and>
      (if take 1 (SkipWhitespace (drop 1 ?s)) = ''}''
       then (st, Inr (VObject [], drop 1 (SkipWhitespace (drop 1 ?s))))
       else stream_items None key each [] st (SkipWhitespace (drop 1 ?s))) = (st', Inr (VObject ms', r))"
  proof (cases rule: value_parse.cases)
    case scalar
    with parse_scalar_not_nested(2) show ?thesis by metis
  next
    case array
    then have "\<exists>ws. VObject ms = VArray ws" using array_parse_streams by fastforce
    then show ?thesis by simp
  next
    case empty_object
    with assms(4) show ?thesis by simp
  next
    case object
    from object_parse_streams [OF object(4), of key each] assms(4) have
      "stream_items None key each [] st (SkipWhitespace (drop 1 ?s)) = (st', Inr (VObject ms', r))" by auto
    with object show ?thesis by simp
  qed
  then obtain cs where cs: "?s = CHR ''{'' # cs" by (cases ?s) auto
  have "ParseEach None text key each context st =
      (let (st', res) = (if take 1 (SkipWhitespace (drop 1 ?s)) = ''}''
         then (st, Inr (VObject [], drop 1 (SkipWhitespace (drop 1 ?s))))
         else stream_items None key each [] st (SkipWhitespace (drop 1 ?s)))
       in (st', finish text res))"
    using assms(3) by (simp only: ParseEach_def Let_def cs list.sel list.distinct if_False if_True simp_thms)
  also have "\<dots> = (st', finish text (Inr (VObject ms', r)))"
    by (simp only: conjunct2 [OF run] Let_def prod.case)
  finally show ?thesis by (simp only: finish_def sum.case prod.case Let_def p(2) simp_thms if_False)
qed

lemma ParseEach_array:
  assumes p: "ParseValue None 0 (SkipWhitespace text) = Inr (VArray vs, r)" "SkipWhitespace r = []"
    and e: "run_each each 0 st vs = Some st'"
  shows "ParseEach None text [] each context st = (st', \<lparr>pr_value = VArray [], pr_error = no_error\<rparr>)"
proof -
  let ?s = "SkipWhitespace text"
  have v: "value_parse None 0 ?s (VArray vs) r" by (rule parse_sound(1) [OF p(1)])
  have hd: "?s \<noteq> [] \<and> hd ?s = CHR ''[''"
    using v
  proof (cases rule: value_parse.cases)
    case scalar
    then show ?thesis using parse_scalar_not_nested(1) by metis
  next
    case empty_array
    then show ?thesis by (cases ?s) auto
  next
    case array
    then show ?thesis by (cases ?s) auto
  next
    case object
    then show ?thesis using object_parse_object by blast
  qed
  have r: "Parser_ParseEach None [] each 0 st ?s = (st', Inr (VArray [], r))"
    by (rule Parser_ParseEach_streams [OF v e])
  have "ParseEach None text [] each context st = (st', finish text (Inr (VArray [], r)))"
    using hd by (simp add: ParseEach_def Let_def r)
  then show ?thesis using p(2) by (simp add: finish_def)
qed

text \<open>And back: what the streaming form accepts, the plain one parses.\<close>

lemma each_items_sound:
  "each_items keep each depth index st s = (st', Inr (v, r)) \<Longrightarrow>
     \<exists>ws. (\<forall>vs. array_items keep depth vs s = Inr (VArray (vs @ ws), r)) \<and>
       run_each each index st ws = Some st' \<and> v = VArray []"
proof (induction keep each depth index st s rule: each_items.induct)
  case (1 keep each depth index st s)
  from "1.prems" obtain v1 s1 where p: "ParseValue keep (depth + 1) (SkipWhitespace s) = Inr (v1, s1)"
    by (subst (asm) each_items.simps) (auto split: sum.splits)
  with "1.prems" obtain c t where ct: "SkipWhitespace s1 = c # t" "error_ok (fst (each v1 index st))"
    by (subst (asm) each_items.simps) (auto split: if_splits list.splits)
  show ?case
  proof (cases "c = CHR '',''")
    case True
    with "1.prems" p ct have "each_items keep each depth (index + 1) (snd (each v1 index st)) t = (st', Inr (v, r))"
      by (subst (asm) each_items.simps) simp
    with "1.IH" [OF p _ _ ct(1)] ct(2) True obtain ws where
      "\<And>vs. array_items keep depth vs t = Inr (VArray (vs @ ws), r)"
      "run_each each (index + 1) (snd (each v1 index st)) ws = Some st'" "v = VArray []" by auto
    with p ct True show ?thesis
      by (intro exI [of _ "v1 # ws"]) (simp add: array_items.simps [of _ _ _ s])
  next
    case False
    with "1.prems" p ct have "c = CHR '']''" "st' = snd (each v1 index st)" "v = VArray []" "r = t"
      by (auto simp: each_items.simps [of keep each depth index st s] split: if_splits)
    with p ct show ?thesis
      by (intro exI [of _ "[v1]"]) (simp add: array_items.simps [of _ _ _ s])
  qed
qed

lemma no_kind_no_value:
  assumes "KindAt c = None"
  shows "ParseValue keep depth (c # cs) \<noteq> Inr p"
proof -
  have c: "c \<noteq> CHR ''{''" "c \<noteq> CHR ''[''" "c \<noteq> CHR 0x22" "c \<noteq> CHR ''t''" "c \<noteq> CHR ''f''"
    "c \<noteq> CHR ''n''" "c \<noteq> CHR ''-''" "\<not> IsDigit c"
    using assms by (auto simp: KindAt_def split: if_splits)
  then have "ParseNumber (c # cs) \<noteq> Inr p" by (simp add: ParseNumber_def Let_def)
  moreover have "parse_scalar (c # cs) = ParseNumber (c # cs)" using c by (simp add: parse_scalar_def)
  moreover have "ParseValue keep depth (c # cs) = parse_scalar (c # cs)" if "\<not> depth \<ge> kMaxDepth"
    using c that by (subst ParseValue.simps) simp
  moreover have "depth \<ge> kMaxDepth \<Longrightarrow> ParseValue keep depth (c # cs) \<noteq> Inr p"
    by (subst ParseValue.simps) simp
  ultimately show ?thesis by metis
qed

lemma Parser_ParseEach_sound:
  assumes "Parser_ParseEach None key each depth st s = (st', Inr (v, r))" "depth < kMaxDepth"
  shows "\<exists>ws. ParseValue None depth s = Inr (VArray ws, r) \<and> run_each each 0 st ws = Some st' \<and> v = VArray []"
proof (cases "take 1 s = ''[''")
  case False
  with assms have f: "s = [] \<or> KindAt (hd s) = None" "ParseValue None depth s = Inr (v, r)"
    by (auto simp: Parser_ParseEach_def split: if_splits)
  then show ?thesis
    using no_kind_no_value [of "hd s" None depth "tl s"] ParseValue_length [OF f(2)] by (cases s) auto
next
  case True
  then obtain t where s: "s = CHR ''['' # t" by (cases s) auto
  show ?thesis
  proof (cases "take 1 (SkipWhitespace t) = '']''")
    case empty: True
    have "ParseValue None depth s = Inr (VArray [], drop 1 (SkipWhitespace t))"
      using assms(2) empty by (subst ParseValue.simps) (simp add: s)
    moreover have "st = st'" "v = VArray []" "drop 1 (SkipWhitespace t) = r"
      using assms empty by (simp_all add: Parser_ParseEach_def s)
    ultimately show ?thesis by (intro exI [of _ "[]"]) simp
  next
    case False
    with assms s have "each_items None each depth 0 st (SkipWhitespace t) = (st', Inr (v, r))"
      by (simp add: Parser_ParseEach_def)
    then obtain ws where ws: "array_items None depth [] (SkipWhitespace t) = Inr (VArray ws, r)"
      "run_each each 0 st ws = Some st'" "v = VArray []"
      using each_items_sound by fastforce
    have "ParseValue None depth s = Inr (VArray ws, r)"
      using assms(2) False ws(1) by (subst ParseValue.simps) (simp add: s)
    with ws show ?thesis by blast
  qed
qed

lemma stream_items_sound:
  "stream_items keep key each ms' st s = (st', Inr (v, r)) \<Longrightarrow> keep = None \<Longrightarrow>
     \<exists>ws ws'. (\<forall>ms. fst ` set ms = fst ` set ms' \<longrightarrow> object_items None 0 ms s = Inr (VObject (ms @ ws), r)) \<and>
       stream_run key each st ws = Some (st', ws') \<and> v = VObject (ms' @ ws')"
proof (induction keep key each ms' st s rule: stream_items.induct)
  case (1 keep key each ms' st s)
  from "1.prems" obtain k s1 where m: "member_key ms' (SkipWhitespace s) = Inr (k, s1)"
    by (subst (asm) stream_items.simps) (auto split: sum.splits)
  obtain st1 res where sm0: "stream_member keep key each k st s1 = (st1, res)" by fastforce
  obtain v1 s2 where res: "res = Inr (v1, s2)"
    using "1.prems"(1) m sm0 by (cases res) (auto simp: stream_items.simps [of keep key each ms' st s])
  note sm = sm0 [unfolded res]
  with "1.prems" m obtain c t where ct: "SkipWhitespace s2 = c # t"
    by (subst (asm) stream_items.simps) (auto split: list.splits)
  have one: "\<exists>w w'. v1 = Some w' \<and> ParseValue None 1 s1 = Inr (w, s2) \<and>
      stream_run key each st [(k, w)] = Some (st1, [(k, w')])"
  proof (cases "k = key")
    case True
    with sm "1.prems"(2) obtain v2 where "Parser_ParseEach None key each 1 st s1 = (st1, Inr (v2, s2))" "v1 = Some v2"
      by (auto simp: stream_member_def Kept_def map_sum_Inr_iff split: prod.splits)
    with Parser_ParseEach_sound [OF this(1)] True show ?thesis by (auto simp: kMaxDepth_def)
  next
    case False
    with sm "1.prems"(2) show ?thesis by (auto simp: stream_member_def Kept_def map_sum_Inr_iff)
  qed
  then obtain w w' where one: "v1 = Some w'" "ParseValue None 1 s1 = Inr (w, s2)"
    "stream_run key each st [(k, w)] = Some (st1, [(k, w')])" by blast
  have m': "member_key ms (SkipWhitespace s) = Inr (k, s1)" if "fst ` set ms = fst ` set ms'" for ms
    using m member_key_keys [OF that] by simp
  have obj: "object_items None 0 ms s =
      (if c = CHR '','' then object_items None 0 (ms @ [(k, w)]) t
       else if c = CHR ''}'' then Inr (VObject (ms @ [(k, w)]), t) else fail (c # t) (items_fail True))"
    if "fst ` set ms = fst ` set ms'" for ms
    using m' [OF that] one(2) ct
    by (simp add: object_items.simps [of None 0 ms s] Kept_def add_member_def del: append_assoc)
  have run: "stream_run key each st ((k, w) # ws) = map_option (apsnd (Cons (k, w'))) (stream_run key each st1 ws)" for ws
    using one(3) by (auto split: if_splits Value.splits simp: bind_eq_Some_conv)
  show ?case
  proof (cases "c = CHR '',''")
    case True
    with "1.prems" m sm ct one(1) have
      "stream_items keep key each (ms' @ [(k, w')]) st1 t = (st', Inr (v, r))"
      by (subst (asm) stream_items.simps) (simp add: add_member_def)
    with "1.IH" [OF m refl sm [symmetric] refl refl ct True] "1.prems"(2) one(1) obtain ws ws' where
      ih: "\<And>ms. fst ` set ms = fst ` set (ms' @ [(k, w')]) \<Longrightarrow> object_items None 0 ms t = Inr (VObject (ms @ ws), r)"
      "stream_run key each st1 ws = Some (st', ws')" "v = VObject ((ms' @ [(k, w')]) @ ws')"
      unfolding add_member_def by auto
    have "object_items None 0 (ms @ [(k, w)]) t = Inr (VObject ((ms @ [(k, w)]) @ ws), r)"
      if "fst ` set ms = fst ` set ms'" for ms
      by (rule ih(1)) (use that in auto)
    with obj True run ih(2, 3) show ?thesis
      by (intro exI [of _ "(k, w) # ws"] exI [of _ "(k, w') # ws'"]) simp
  next
    case False
    have "c = CHR ''}'' \<and> st' = st1 \<and> v = VObject (ms' @ [(k, w')]) \<and> r = t"
      using "1.prems"(1) False unfolding stream_items.simps [of keep key each ms' st s] m sum.case prod.case sm ct list.case
      by (simp add: one(1) add_member_def split: if_splits)
    then have "c = CHR ''}''" "st' = st1" "v = VObject (ms' @ [(k, w')])" "r = t" by simp_all
    with obj one(3) show ?thesis by (intro exI [of _ "[(k, w)]"] exI [of _ "[(k, w')]"]) simp
  qed
qed

text \<open>The body as \<open>ParseEach\<close> reads it: with a named array the first byte is passed over as the brace of the
  root object unless it starts some other value, so a byte that starts no value at all stands for the
  brace.\<close>

definition braced :: "bytes \<Rightarrow> bytes \<Rightarrow> bytes" where
  "braced key s =
     (case SkipWhitespace s of
        c # cs \<Rightarrow> if key \<noteq> [] \<and> KindAt c = None then CHR ''{'' # cs else s
      | [] \<Rightarrow> s)"

text \<open>The documents \<open>ParseEach\<close> is to accept and its answer, said of what \<open>Parse\<close> reads: the elements of the
  array in order through the callback, none of them refused, and the root with that array emptied.\<close>

definition streamed :: "bytes \<Rightarrow> bytes \<Rightarrow> 's each \<Rightarrow> 's \<Rightarrow> 's \<Rightarrow> Value \<Rightarrow> bool" where
  "streamed s key each st st' v \<longleftrightarrow> pr_ok (Parse s) \<and>
     (if key = []
      then \<exists>vs. pr_value (Parse s) = VArray vs \<and> run_each each 0 st vs = Some st' \<and> v = VArray []
      else \<exists>ms ms'. pr_value (Parse s) = VObject ms \<and> stream_run key each st ms = Some (st', ms') \<and> v = VObject ms')"


lemma finish_accepts:
  assumes "finish s res = doc" "pr_ok doc"
  shows "(\<exists>e. res = Inl e \<and> \<not> loud e) \<or>
    (\<exists>v r. res = Inr (v, r) \<and> SkipWhitespace r = [] \<and> doc = \<lparr>pr_value = v, pr_error = no_error\<rparr>)"
proof (cases res)
  case (Inl e)
  with assms failed_not_ok [of e s] show ?thesis by (auto simp: finish_def)
next
  case (Inr p)
  with assms show ?thesis
    by (cases p) (auto simp: finish_def Let_def failed_def pr_ok_def error_ok_def split: if_splits)
qed

lemma each_items_loud: "loudly (snd (each_items keep each depth index st s))"
proof (induction keep each depth index st s rule: each_items.induct)
  case (1 keep each depth index st s)
  show ?case
  proof (cases "ParseValue keep (depth + 1) (SkipWhitespace s)")
    case (Inl e)
    have "loud e" using ParseValue_loud(1) [of keep "depth + 1" "SkipWhitespace s"] unfolding Inl loudly_simps .
    with Inl show ?thesis by (simp add: each_items.simps [of keep each depth index st s])
  next
    case (Inr q)
    obtain v s1 where q: "q = (v, s1)" by fastforce
    note step = each_items.simps [of keep each depth index st s, unfolded Inr q sum.case prod.case]
    note ih = "1.IH" [OF Inr q [symmetric]]
    show ?thesis unfolding step using ih by (auto split: list.splits)
  qed
qed

lemma Parser_ParseEach_loud: "loudly (snd (Parser_ParseEach keep key each depth st s))"
  by (simp add: Parser_ParseEach_def Let_def each_items_loud)

lemma stream_member_loud: "loudly (snd (stream_member keep ek each k st s))"
  using Parser_ParseEach_loud [of keep ek each 1 st s]
  by (auto simp: stream_member_def skip_member_def split: prod.splits)

lemma stream_items_loud: "loudly (snd (stream_items keep key each ms st s))"
proof (induction keep key each ms st s rule: stream_items.induct)
  case (1 keep key each ms st s)
  show ?case
  proof (cases "member_key ms (SkipWhitespace s)")
    case (Inl e)
    with member_key_loud [of ms "SkipWhitespace s"] show ?thesis by (simp add: stream_items.simps [of keep key each ms st s])
  next
    case (Inr p)
    obtain k s1 where p: "p = (k, s1)" by fastforce
    obtain st1 res where sm: "stream_member keep key each k st s1 = (st1, res)" by fastforce
    show ?thesis
    proof (cases res)
      case e: (Inl e)
      with stream_member_loud [of keep key each k st s1] sm Inr p show ?thesis
        by (simp add: stream_items.simps [of keep key each ms st s])
    next
      case r: (Inr q)
      obtain v s2 where q: "q = (v, s2)" by fastforce
      note step = stream_items.simps [of keep key each ms st s, unfolded Inr p sum.case prod.case sm r q]
      note ih = "1.IH" [OF Inr p [symmetric] sm [symmetric] r q [symmetric]]
      show ?thesis unfolding step using ih by (auto split: list.splits)
    qed
  qed
qed

lemma refused_root: "\<not> pr_ok (failed s (Fail_at n f (wrong_root context key kind)))"
    "\<not> pr_ok (failed s (Fail_at n f (c # cs)))"
  by (rule failed_not_ok, simp add: wrong_root_def)+

lemma Skip_braced:
  assumes "SkipWhitespace s = c # cs"
  shows "SkipWhitespace (braced key s) = (if key \<noteq> [] \<and> KindAt c = None then CHR ''{'' else c) # cs"
proof -
  have "SkipWhitespace (CHR ''{'' # cs) = CHR ''{'' # cs" by (simp add: SkipWhitespace_def is_space_def)
  then show ?thesis using assms by (simp add: braced_def)
qed

lemma ParseValue_root_object:
  assumes "take 1 (SkipWhitespace cs) \<noteq> ''}''"
  shows "ParseValue None 0 (CHR ''{'' # cs) = object_items None 0 [] (SkipWhitespace cs)"
  using assms by (subst ParseValue.simps) (simp add: kMaxDepth_def)

lemma ParseValue_root_empty:
  assumes "take 1 (SkipWhitespace cs) = ''}''"
  shows "ParseValue None 0 (CHR ''{'' # cs) = Inr (VObject [], drop 1 (SkipWhitespace cs))"
  using assms by (subst ParseValue.simps) (simp add: kMaxDepth_def)

text \<open>The root object read member by member against the root object parsed.\<close>

lemma ParseEach_object_sound:
  assumes run: "ParseEach None s key each context st = (st', doc)" and ok: "pr_ok doc" and key: "key \<noteq> []"
    and s: "SkipWhitespace s = c # cs" and c: "c = CHR ''{'' \<or> KindAt c = None"
    and o: "SkipWhitespace t = CHR ''{'' # cs"
  shows "\<exists>v. streamed t key each st st' v \<and> doc = \<lparr>pr_value = v, pr_error = no_error\<rparr>"
proof (cases "take 1 (SkipWhitespace cs) = ''}''")
  case True
  have "ParseEach None s key each context st = (st, finish s (Inr (VObject [], drop 1 (SkipWhitespace cs))))"
    using s c key True by (auto simp: ParseEach_def Let_def)
  with run have st: "st' = st" and f: "finish s (Inr (VObject [], drop 1 (SkipWhitespace cs))) = doc" by simp_all
  from finish_accepts [OF f ok] have r: "SkipWhitespace (drop 1 (SkipWhitespace cs)) = []"
    and d: "doc = \<lparr>pr_value = VObject [], pr_error = no_error\<rparr>" by auto
  have "Parse t = \<lparr>pr_value = VObject [], pr_error = no_error\<rparr>"
    by (rule Parse_value [OF _ r]) (simp add: o ParseValue_root_empty [OF True])
  with d st key show ?thesis by (simp add: streamed_def pr_ok_def error_ok_def no_error_def)
next
  case False
  obtain st1 res where i: "stream_items None key each [] st (SkipWhitespace cs) = (st1, res)" by fastforce
  have "ParseEach None s key each context st = (st1, finish s res)"
    using s c key False i by (auto simp: ParseEach_def Let_def)
  with run have st: "st' = st1" and f: "finish s res = doc" by simp_all
  have "loudly res" using stream_items_loud [of None key each "[]" st "SkipWhitespace cs"] i by simp
  with finish_accepts [OF f ok] obtain v r where r: "res = Inr (v, r)" "SkipWhitespace r = []"
    and d: "doc = \<lparr>pr_value = v, pr_error = no_error\<rparr>" by (auto simp: loudly_def)
  from stream_items_sound [OF i [unfolded r(1)] refl] obtain ws ws' where
    w: "object_items None 0 [] (SkipWhitespace cs) = Inr (VObject ws, r)"
    "stream_run key each st ws = Some (st1, ws')" "v = VObject ws'" by auto
  have "Parse t = \<lparr>pr_value = VObject ws, pr_error = no_error\<rparr>"
    by (rule Parse_value [OF _ r(2)]) (simp add: o ParseValue_root_object [OF False] w(1))
  with d st key w(2, 3) show ?thesis by (simp add: streamed_def pr_ok_def error_ok_def no_error_def)
qed

lemma ParseEach_array_sound:
  assumes run: "ParseEach None s [] each context st = (st', doc)" and ok: "pr_ok doc"
  shows "\<exists>v. streamed s [] each st st' v \<and> doc = \<lparr>pr_value = v, pr_error = no_error\<rparr>"
proof -
  let ?s = "SkipWhitespace s"
  obtain st1 res where i: "Parser_ParseEach None [] each 0 st ?s = (st1, res)" by fastforce
  have "?s \<noteq> []" "\<not> (hd ?s \<noteq> CHR ''['' \<and> KindAt (hd ?s) \<noteq> None)"
    using run ok by (auto simp: ParseEach_def Let_def refused_root split: if_splits)
  then have "ParseEach None s [] each context st = (st1, finish s res)"
    using i by (auto simp: ParseEach_def Let_def)
  with run have st: "st' = st1" and f: "finish s res = doc" by simp_all
  have "loudly res" using Parser_ParseEach_loud [of None "[]" each 0 st ?s] i by simp
  with finish_accepts [OF f ok] obtain v r where r: "res = Inr (v, r)" "SkipWhitespace r = []"
    and d: "doc = \<lparr>pr_value = v, pr_error = no_error\<rparr>" by (auto simp: loudly_def)
  from Parser_ParseEach_sound [OF i [unfolded r(1)]] obtain ws where
    w: "ParseValue None 0 ?s = Inr (VArray ws, r)" "run_each each 0 st ws = Some st1" "v = VArray []"
    by (auto simp: kMaxDepth_def)
  with Parse_value [OF w(1) r(2)] d st show ?thesis by (simp add: streamed_def pr_ok_def error_ok_def no_error_def)
qed

lemma streamed_ParseEach:
  assumes "streamed (braced key s) key each st st' v"
  shows "ParseEach None s key each context st = (st', \<lparr>pr_value = v, pr_error = no_error\<rparr>)"
proof (cases "key = []")
  case True
  then have o: "braced key s = s" by (simp add: braced_def split: list.splits)
  from assms obtain vs where "pr_ok (Parse s)" "pr_value (Parse s) = VArray vs"
    "run_each each 0 st vs = Some st'" "v = VArray []" unfolding streamed_def o using True by auto
  moreover from this obtain r where "ParseValue None 0 (SkipWhitespace s) = Inr (VArray vs, r)" "SkipWhitespace r = []"
    by (auto simp: Parse_ok_iff Parse_value)
  ultimately show ?thesis using ParseEach_array True by metis
next
  case False
  with assms obtain ms ms' where m: "pr_ok (Parse (braced key s))" "pr_value (Parse (braced key s)) = VObject ms"
    "stream_run key each st ms = Some (st', ms')" "v = VObject ms'" by (auto simp: streamed_def)
  have e: "ParseEach None (braced key s) key each context st = (st', \<lparr>pr_value = v, pr_error = no_error\<rparr>)"
    unfolding m(4) by (rule ParseEach_object [OF m(1, 2) False m(3)])
  show ?thesis
  proof (cases "SkipWhitespace s")
    case Nil
    then show ?thesis using e by (simp add: braced_def)
  next
    case (Cons c cs)
    show ?thesis
    proof (cases "KindAt c = None")
      case kind: False
      then obtain y where "KindAt c = Some y" by blast
      then have "braced key s = s" using Cons by (simp add: braced_def)
      then show ?thesis using e by simp
    next
      case True
      let ?res = "if take 1 (SkipWhitespace cs) = ''}'' then (st, Inr (VObject [], drop 1 (SkipWhitespace cs)))
         else stream_items None key each [] st (SkipWhitespace cs)"
      have a: "ParseEach None s key each context st = (fst ?res, finish s (snd ?res))"
        using Cons True False by (simp add: ParseEach_def Let_def case_prod_beta)
      have "SkipWhitespace (braced key s) = CHR ''{'' # cs" using Skip_braced [OF Cons, of key] True False by simp
      then have b: "ParseEach None (braced key s) key each context st = (fst ?res, finish (braced key s) (snd ?res))"
        using False by (simp add: ParseEach_def Let_def case_prod_beta)
      have st: "fst ?res = st'" and f: "finish (braced key s) (snd ?res) = \<lparr>pr_value = v, pr_error = no_error\<rparr>"
        using b e by simp_all
      have l: "loudly (snd ?res)" using stream_items_loud [of None key each "[]" st "SkipWhitespace cs"] by simp
      have "pr_ok \<lparr>pr_value = v, pr_error = no_error\<rparr>" by (simp add: pr_ok_def error_ok_def no_error_def)
      with finish_accepts [OF f] l obtain r where "snd ?res = Inr (v, r)" "SkipWhitespace r = []"
        by (auto simp: loudly_def)
      then have "finish s (snd ?res) = \<lparr>pr_value = v, pr_error = no_error\<rparr>" by (simp add: finish_def)
      with a st show ?thesis by simp
    qed
  qed
qed

lemma ParseEach_streamed:
  assumes run: "ParseEach None s key each context st = (st', doc)" and ok: "pr_ok doc"
  shows "\<exists>v. streamed (braced key s) key each st st' v \<and> doc = \<lparr>pr_value = v, pr_error = no_error\<rparr>"
proof (cases "key = []")
  case True
  have o: "braced [] s = s" by (simp add: braced_def split: list.splits)
  from ParseEach_array_sound [OF run [unfolded True] ok] show ?thesis unfolding True o .
next
  case False
  have "SkipWhitespace s \<noteq> []" using run ok by (auto simp: ParseEach_def Let_def refused_root)
  then obtain c cs where s: "SkipWhitespace s = c # cs" by (cases "SkipWhitespace s") auto
  have c: "c = CHR ''{'' \<or> KindAt c = None"
    using run ok False s by (auto simp: ParseEach_def Let_def refused_root split: if_splits)
  have "SkipWhitespace (braced key s) = CHR ''{'' # cs"
    using Skip_braced [OF s, of key] c False by auto
  from ParseEach_object_sound [OF run ok False s c this] show ?thesis .
qed

text \<open>A first byte that starts no JSON value is passed over as if it were the brace, although the comment in
  \<open>Run\<close> says that such a body goes on to \<open>ParseValue\<close> and its syntax error: so the streaming form accepts
  bodies that \<open>Parse\<close> refuses.\<close>

lemma a_byte_that_starts_nothing_is_a_brace:
  "fst (ParseEach None (''x'' @ Quote ''k'' @ '':[]}'') ''k'' (\<lambda>v index st. (no_error, st)) [] ()) = () \<and>
   pr_ok (snd (ParseEach None (''x'' @ Quote ''k'' @ '':[]}'') ''k'' (\<lambda>v index st. (no_error, st)) [] ())) \<and>
   \<not> pr_ok (Parse (''x'' @ Quote ''k'' @ '':[]}''))"
  by code_simp


definition count_each :: "nat each" where
  "count_each v index n = (no_error, n + 1)"

lemma sample_Parse:
  "Parse sample_text = \<lparr>pr_value = VObject [(''id'', VNumber (Some 7)),
      (''x'', VArray [VNumber (Some 1), VBool True])], pr_error = no_error\<rparr>"
proof (rule Parse_value)
  have "SkipWhitespace sample_text = sample_text" by code_simp
  then show "ParseValue None 0 (SkipWhitespace sample_text) =
      Inr (VObject [(''id'', VNumber (Some 7)), (''x'', VArray [VNumber (Some 1), VBool True])], [])"
    by (simp only: sample_document)
qed (simp add: SkipWhitespace_def)

lemma no_error_ok [simp]: "error_ok no_error"
  by (simp add: error_ok_def no_error_def)

lemma streaming_sample:
  "ParseEach None sample_text ''x'' count_each [] 0 =
     (2, \<lparr>pr_value = VObject [(''id'', VNumber (Some 7)), (''x'', VArray [])], pr_error = no_error\<rparr>)"
proof (rule ParseEach_object)
  show "stream_run ''x'' count_each 0 [(''id'', VNumber (Some 7)),
      (''x'', VArray [VNumber (Some 1), VBool True])] =
    Some (2, [(''id'', VNumber (Some 7)), (''x'', VArray [])])"
    by code_simp
qed (simp_all add: sample_Parse pr_ok_def)

theorem parsed_wf_witness: "wf_at 0 (pr_value (Parse sample_text))"
  by (rule parsed_wf) (simp add: sample_Parse pr_ok_def)

end
