(* ===== verification/JsonRender.thy ===== *)
theory JsonRender
  imports JsonRoundtrip
begin

text \<open>
  The round trip between what the program writes and what it reads. Its records are written by
  concatenation around \<open>Quote\<close> and \<open>std::to_string\<close>; \<open>render\<close> is the one shape they all have, and
  \<open>ParseValue\<close> reads it back as the value it came from.
\<close>

section \<open>Strings\<close>

lemma ParseUnicodeEscape_control:
  assumes "byte c < 0x20"
  shows "ParseUnicodeEscape out
      (''00'' @ [kHex ! (drop_bit 4 (byte c) AND 0xF), kHex ! (byte c AND 0xF)] @ r) = Inr (out @ [c], r)"
proof -
  have all: "\<forall>n \<in> set [0..<32::nat].
      hex_value (''00'' @ [kHex ! (drop_bit 4 n AND 0xF), kHex ! (n AND 0xF)]) 0 = Some n"
    by code_simp
  with assms have "hex_value (''00'' @ [kHex ! (drop_bit 4 (byte c) AND 0xF), kHex ! (byte c AND 0xF)]) 0 =
      Some (byte c)" by simp
  then have "ParseHex4 (''00'' @ [kHex ! (drop_bit 4 (byte c) AND 0xF), kHex ! (byte c AND 0xF)] @ r) =
      Inr (byte c, r)" by (simp add: ParseHex4_def del: hex_value.simps)
  with assms show ?thesis by (simp add: ParseUnicodeEscape_def AppendUtf8_def)
qed

lemma string_loop_plain:
  "c \<noteq> CHR 0x22 \<Longrightarrow> c \<noteq> CHR 0x5C \<Longrightarrow> \<not> byte c < 0x20 \<Longrightarrow>
     string_loop out (c # s) = string_loop (out @ [c]) s"
  by (simp add: string_loop.simps [of out "c # s"])

lemma string_loop_escape:
  "e \<noteq> CHR ''u'' \<Longrightarrow> plain_escape e = Some p \<Longrightarrow>
     string_loop out (CHR 0x5C # e # s) = string_loop (out @ [p]) s"
  by (simp add: string_loop.simps [of out "CHR 0x5C # e # s"])

lemma string_loop_quote_byte:
  "string_loop out (quote_byte c @ s) = string_loop (out @ [c]) s"
proof -
  consider "c = CHR 0x22" | "c = CHR 0x5C" | "c = CHR 0x08" | "c = CHR 0x0C" | "c = CHR 0x0A"
    | "c = CHR 0x0D" | "c = CHR 0x09"
    | "c \<notin> {CHR 0x22, CHR 0x5C, CHR 0x08, CHR 0x0C, CHR 0x0A, CHR 0x0D, CHR 0x09}" by blast
  then show ?thesis
  proof cases
    case 8
    show ?thesis
    proof (cases "byte c < 0x20")
      case True
      with 8 ParseUnicodeEscape_control [OF True, of out s] show ?thesis
        by (simp add: quote_byte_def string_loop.simps [of out "CHR 0x5C # CHR ''u'' # _"])
    next
      case False
      with 8 string_loop_plain show ?thesis by (simp add: quote_byte_def)
    qed
  qed (simp_all add: quote_byte_def string_loop_escape plain_escape_def)
qed

lemma string_loop_quoted:
  "string_loop out (concat (map quote_byte v) @ CHR 0x22 # r) = Inr (out @ v, r)"
proof (induction v arbitrary: out)
  case Nil
  then show ?case by (simp add: string_loop.simps)
next
  case (Cons c v)
  then show ?case by (simp add: string_loop_quote_byte)
qed

lemma Quote_round_trip_loop [simp]: "ParseString (Quote v @ r) = Inr (v, r)"
  using string_loop_quoted [of "[]" v r] by (simp add: ParseString_def Quote_def)

text \<open>C31: Any byte string at all (quotes, backslashes, control characters, NUL and bytes above 0x7f
  included) is carried: what \<open>Quote\<close> writes, \<open>ParseString\<close> reads back as the same bytes, whatever
  follows it.\<close>

theorem quote_round_trip: "ParseString (Quote v @ r) = Inr (v, r)"
  by (rule Quote_round_trip_loop)

lemma take1_Quote [simp]: "take 1 (Quote v @ r) = [CHR 0x22]"
  by (simp add: Quote_def)

section \<open>Numbers\<close>

text \<open>What may follow a number without becoming part of it.\<close>

definition ends_number :: "bytes \<Rightarrow> bool" where
  "ends_number r \<longleftrightarrow> (case r of [] \<Rightarrow> True | c # _ \<Rightarrow>
     \<not> IsDigit c \<and> c \<noteq> CHR ''.'' \<and> c \<noteq> CHR ''e'' \<and> c \<noteq> CHR ''E'')"

lemma number_tail: "ends_number r \<Longrightarrow> number_frac r = Inr (True, r) \<and> number_exp True r = Inr (True, r)"
  by (cases r) (auto simp: ends_number_def number_frac_def number_exp_def)

lemma dropWhile_digits: "list_all IsDigit ds \<Longrightarrow> ends_number r \<Longrightarrow> dropWhile IsDigit (ds @ r) = r"
  by (cases r) (auto simp: ends_number_def list_all_iff dropWhile_append3)

lemma ParseNumber_digits:
  assumes r: "ends_number r" and sign: "sign = [] \<or> sign = ''-''"
  shows "ParseNumber (sign @ dec_of_nat n @ r) =
    Inr (VNumber (from_chars (sign @ dec_of_nat n)), r)"
proof -
  obtain c cs where c: "dec_of_nat n = c # cs" by (cases "dec_of_nat n") simp_all
  have digits: "list_all IsDigit (c # cs)" using dec_of_nat_digits [of n] by (simp add: c)
  then have not_sign: "c \<noteq> CHR ''-''" by (auto simp: IsDigit_byte)
  have s2: "(if c = CHR ''0'' then cs @ r else dropWhile IsDigit (c # cs @ r)) = r"
  proof (cases "n = 0")
    case True
    then show ?thesis using c by (simp add: dec_of_nat_0)
  next
    case False
    then have "c \<noteq> CHR ''0''" using dec_of_nat_hd [of n] c by simp
    with digits r show ?thesis using dropWhile_digits [of "c # cs" r] by simp
  qed
  let ?s = "sign @ c # cs @ r"
  have s1: "(if take 1 ?s = ''-'' then drop 1 ?s else ?s) = c # cs @ r"
    using sign not_sign by auto
  have t: "take (length ?s - length r) ?s = sign @ c # cs" by simp
  have d: "(\<not> IsDigit c) = False" using digits by simp
  show ?thesis
    unfolding c append_Cons ParseNumber_def Let_def s1 list.case
    by (simp only: d if_False s2 number_tail [OF r] sum.case prod.case t if_True)
qed

lemma from_chars_to_string: "in_int64 i \<Longrightarrow> from_chars (to_string i) = Some i"
proof -
  assume i: "in_int64 i"
  have "take 1 (dec_of_nat n) \<noteq> ''-''" for n
    using dec_of_nat_digits [of n] by (cases "dec_of_nat n") (auto simp: IsDigit_byte)
  with i show ?thesis by (simp add: from_chars_def to_string_def Let_def)
qed

lemma ParseNumber_to_string:
  assumes "in_int64 i" "ends_number r"
  shows "ParseNumber (to_string i @ r) = Inr (VNumber (Some i), r)"
  using ParseNumber_digits [OF assms(2), of "if i < 0 then ''-'' else []" "nat \<bar>i\<bar>"]
    from_chars_to_string [OF assms(1)]
  by (auto simp: to_string_def split: if_splits)


section \<open>Documents\<close>

function render :: "Value \<Rightarrow> bytes" where
  "render VNull = ''null''"
| "render (VBool b) = (if b then ''true'' else ''false'')"
| "render (VNumber n) = (case n of None \<Rightarrow> ''1e400'' | Some i \<Rightarrow> to_string i)"
| "render (VString s) = Quote s"
| "render (VArray []) = ''[]''"
| "render (VArray (v # vs)) =
     CHR ''['' # render v @ concat (map (\<lambda>w. CHR '','' # render w) vs) @ '']''"
| "render (VObject []) = ''{}''"
| "render (VObject (m # ms)) =
     CHR ''{'' # (Quote (fst m) @ CHR '':'' # render (snd m)) @
     concat (map (\<lambda>p. CHR '','' # Quote (fst p) @ CHR '':'' # render (snd p)) ms) @ ''}''"
  by pat_completeness auto
termination
proof (relation "measure size", goal_cases)
  case (4 m ms) then show ?case by (cases m) simp
next
  case (5 m ms p)
  then have "size_prod (\<lambda>_. 0) size p \<le> size_list (size_prod (\<lambda>_. 0) size) ms"
    by (simp add: size_list_estimation')
  then show ?case by (cases p; cases m) simp
qed (auto simp: less_Suc_eq_le intro: le_SucI trans_le_add2 size_list_estimation')

text \<open>Every value but a number without a value can be written and read back.\<close>

function exact :: "Value \<Rightarrow> bool" where
  "exact VNull = True"
| "exact (VBool b) = True"
| "exact (VNumber n) = (n \<noteq> None)"
| "exact (VString s) = True"
| "exact (VArray vs) = (\<forall>v \<in> set vs. exact v)"
| "exact (VObject ms) = (\<forall>p \<in> set ms. exact (snd p))"
  by pat_completeness auto
termination
proof (relation "measure size", goal_cases)
  case (3 ms p)
  then have "size_prod (\<lambda>_. 0) size p < Suc (size_list (size_prod (\<lambda>_. 0) size) ms)"
    by (simp add: less_Suc_eq_le size_list_estimation')
  then show ?case by (cases p) simp
qed (auto simp: less_Suc_eq_le size_list_estimation')


text \<open>What a written value starts with: never white space, and never a closing bracket.\<close>

definition value_start :: "bytes \<Rightarrow> bool" where
  "value_start s \<longleftrightarrow> (case s of [] \<Rightarrow> False | c # _ \<Rightarrow> \<not> is_space c \<and> c \<noteq> CHR '']'' \<and> c \<noteq> CHR ''}'')"

lemma value_start_append: "value_start s \<Longrightarrow> value_start (s @ r)"
  by (cases s) (auto simp: value_start_def)

lemma value_start_skip [simp]: "value_start s \<Longrightarrow> SkipWhitespace s = s"
  by (cases s) (auto simp: value_start_def SkipWhitespace_def)

lemma value_start_Quote: "value_start (Quote v @ r)"
  by (simp add: value_start_def Quote_def is_space_def)

lemma value_start_digit: "IsDigit c \<or> c = CHR ''-'' \<Longrightarrow> value_start (c # s)"
  by (auto simp: value_start_def is_space_def IsDigit_byte)

lemma to_string_start: "\<exists>c cs. to_string i = c # cs \<and> (IsDigit c \<or> c = CHR ''-'')"
proof (cases "i < 0")
  case False
  then show ?thesis using dec_of_nat_digits [of "nat i"] dec_of_nat_not_Nil [of "nat i"]
    by (cases "dec_of_nat (nat i)") (auto simp: to_string_def)
qed (simp add: to_string_def)

lemma render_start: "exact v \<Longrightarrow> value_start (render v)"
proof (cases v rule: render.cases)
  case (3 n)
  then show "exact v \<Longrightarrow> value_start (render v)"
    using to_string_start by (cases n) (auto dest: value_start_digit, metis value_start_digit)
next
  case (4 s)
  then show ?thesis using value_start_Quote [of s "[]"] by simp
qed (auto simp: value_start_def is_space_def)

lemma ends_number_simps [simp]:
  "ends_number (CHR '','' # r)" "ends_number (CHR '']'' # r)" "ends_number (CHR ''}'' # r)" "ends_number []"
  by (auto simp: ends_number_def IsDigit_byte)

lemma skip_punctuation [simp]:
  "SkipWhitespace (CHR '','' # r) = CHR '','' # r" "SkipWhitespace (CHR '']'' # r) = CHR '']'' # r"
  "SkipWhitespace (CHR ''}'' # r) = CHR ''}'' # r" "SkipWhitespace (CHR '':'' # r) = CHR '':'' # r"
  by (auto simp: SkipWhitespace_def is_space_def)

text \<open>A value's rendering is read at \<open>depth\<close> whatever follows it.\<close>

definition reads :: "nat \<Rightarrow> Value \<Rightarrow> bool" where
  "reads depth v \<longleftrightarrow> value_start (render v) \<and>
     (\<forall>r. ends_number r \<longrightarrow> ParseValue None depth (render v @ r) = Inr (v, r))"

lemma array_items_render:
  assumes "reads (depth + 1) v" "\<forall>w \<in> set vs. reads (depth + 1) w"
  shows "array_items None depth acc
      (render v @ concat (map (\<lambda>w. CHR '','' # render w) vs) @ '']'' @ r) = Inr (VArray (acc @ v # vs), r)"
  using assms
proof (induction vs arbitrary: v acc)
  case Nil
  then show ?case
    by (simp add: array_items.simps [of None depth acc] reads_def value_start_append)
next
  case (Cons w vs)
  then have "array_items None depth (acc @ [v])
      (render w @ concat (map (\<lambda>w. CHR '','' # render w) vs) @ '']'' @ r) =
    Inr (VArray ((acc @ [v]) @ w # vs), r)" by simp
  with Cons.prems(1) show ?case
    by (simp add: array_items.simps [of None depth acc] reads_def value_start_append)
qed

lemma member_key_render:
  assumes "k \<notin> fst ` set ms" "value_start t"
  shows "member_key ms (Quote k @ CHR '':'' # t) = Inr (k, t)"
  using assms by (simp add: member_key_def Let_def del: take_append)

lemma object_items_render:
  assumes "reads (depth + 1) (snd m)" "\<forall>p \<in> set ms. reads (depth + 1) (snd p)"
    "distinct (map fst (acc @ m # ms))"
  shows "object_items None depth acc
      ((Quote (fst m) @ CHR '':'' # render (snd m)) @
       concat (map (\<lambda>p. CHR '','' # Quote (fst p) @ CHR '':'' # render (snd p)) ms) @ ''}'' @ r) =
    Inr (VObject (acc @ m # ms), r)"
  using assms
proof (induction ms arbitrary: m acc)
  case Nil
  then have "fst m \<notin> fst ` set acc" by auto
  with Nil show ?case
    using value_start_Quote
    by (simp add: object_items.simps [of None depth acc] reads_def value_start_append
        member_key_render Kept_def add_member_def)
next
  case (Cons p ms)
  then have "object_items None depth (acc @ [m])
      ((Quote (fst p) @ CHR '':'' # render (snd p)) @
       concat (map (\<lambda>p. CHR '','' # Quote (fst p) @ CHR '':'' # render (snd p)) ms) @ ''}'' @ r) =
    Inr (VObject ((acc @ [m]) @ p # ms), r)" by (intro Cons.IH) simp_all
  moreover have "fst m \<notin> fst ` set acc" using Cons.prems(3) by auto
  ultimately show ?case
    using Cons.prems(1) value_start_Quote
    by (simp add: object_items.simps [of None depth acc] reads_def value_start_append
        member_key_render Kept_def add_member_def)
qed

lemma scalar_reads:
  assumes "depth < kMaxDepth" "exact v"
    and "\<And>r. ends_number r \<Longrightarrow> parse_scalar (render v @ r) = Inr (v, r)"
    and "take 1 (render v) \<noteq> ''[''" "take 1 (render v) \<noteq> ''{''"
  shows "reads depth v"
proof -
  have "render v \<noteq> []" using render_start [OF assms(2)] by (auto simp: value_start_def)
  with assms render_start [OF assms(2)] show ?thesis
    by (cases "render v") (auto simp: reads_def ParseValue.simps)
qed

lemma ParseNumber_take1: "IsDigit c \<or> c = CHR ''-'' \<Longrightarrow> parse_scalar (c # s) = ParseNumber (c # s)"
  by (auto simp: parse_scalar_def IsDigit_byte)

lemma render_reads: "wf_at depth v \<Longrightarrow> exact v \<Longrightarrow> reads depth v"
proof (induction v arbitrary: depth rule: render.induct)
  case 1
  then show ?case by (intro scalar_reads) (auto simp: parse_scalar_def Literal_def starts_with_def)
next
  case (2 b)
  then show ?case by (intro scalar_reads) (auto simp: parse_scalar_def Literal_def starts_with_def)
next
  case (3 n)
  then obtain i where n: "n = Some i" by auto
  with 3 have i: "in_int64 i" by simp
  obtain c cs where c: "to_string i = c # cs" "IsDigit c \<or> c = CHR ''-''" using to_string_start by blast
  have "parse_scalar (to_string i @ r) = ParseNumber (to_string i @ r)" for r
    using ParseNumber_take1 [OF c(2)] by (simp add: c(1))
  moreover have "take 1 (to_string i) \<noteq> ''[''" "take 1 (to_string i) \<noteq> ''{''"
    using c by (auto simp: IsDigit_byte)
  ultimately show ?case
    using 3(1) n i by (intro scalar_reads) (simp_all add: ParseNumber_to_string)
next
  case (4 s)
  then show ?case
    using take1_Quote [of s "[]"]
    by (intro scalar_reads) (auto simp: parse_scalar_def simp del: take_append)
next
  case 5
  then show ?case
    by (simp add: reads_def ParseValue.simps [of None depth] value_start_def is_space_def)
next
  case (6 v vs)
  then have *: "reads (depth + 1) v" "\<forall>w \<in> set vs. reads (depth + 1) w"
    by (auto simp flip: Suc_eq_plus1)
  from * have "value_start (render v @ t)" "take 1 (render v @ t) \<noteq> '']''" for t
    by (auto simp: reads_def value_start_def split: list.splits)
  with 6 array_items_render [OF *, of "[]"] show ?case
    by (simp add: reads_def ParseValue.simps [of None depth] render_start del: take_append)
      (simp add: value_start_def is_space_def)
next
  case 7
  then show ?case
    by (simp add: reads_def ParseValue.simps [of None depth] value_start_def is_space_def)
next
  case (8 m ms)
  then have *: "reads (depth + 1) (snd m)" "\<forall>p \<in> set ms. reads (depth + 1) (snd p)"
    by (auto simp flip: Suc_eq_plus1)
  have "distinct (map fst ([] @ m # ms))" using 8 by simp
  from object_items_render [OF * this] 8 show ?case
    by (simp add: reads_def ParseValue.simps [of None depth] value_start_Quote del: take_append)
      (simp add: value_start_def is_space_def)
qed

lemma render_parses:
  assumes "wf_at 0 v" "exact v"
  shows "Parse (render v) = \<lparr>pr_value = v, pr_error = no_error\<rparr>"
proof (rule Parse_value)
  have r: "reads 0 v" using assms by (rule render_reads)
  then show "ParseValue None 0 (SkipWhitespace (render v)) = Inr (v, [])"
    by (auto simp: reads_def dest: spec [of _ "[]"])
qed (simp add: SkipWhitespace_def)

end
