(* ===== verification/Auth.thy ===== *)
theory Auth
  imports JsonRender
begin

text \<open>
  \<open>core/src/auth.cpp\<close> and \<open>core/src/newer_release.cpp\<close>: the bodies of the pairing endpoints, what a
  poll's answer means, and the version a stored record opens with.
\<close>

section \<open>Reading a flat record\<close>

text \<open>A parser's answer: the value and why there is none.\<close>

record 'a Parsed =
  parsed_value :: 'a
  parsed_error :: Error

definition parsed_ok :: "'a Parsed \<Rightarrow> bool" where
  "parsed_ok p \<longleftrightarrow> error_ok (parsed_error p)"

text \<open>A getter writes through its pointer only when it read something.\<close>

definition into :: "'a \<Rightarrow> 'a option \<Rightarrow> 'a" where
  "into before read = (case read of None \<Rightarrow> before | Some v \<Rightarrow> v)"

lemma into_simps [simp]: "into b (Some v) = v" "into b None = b"
  by (simp_all add: into_def)

text \<open>The reader of a document that is an object and has had nothing refused.\<close>

definition reading :: "Value \<Rightarrow> Reader" where
  "reading v = \<lparr>rd_object = Some v, rd_error = no_error\<rparr>"

definition usable :: "bytes \<Rightarrow> bool" where
  "usable s \<longleftrightarrow> s \<noteq> [] \<and> CHR 0x00 \<notin> set s"

lemma reading_ok [simp]: "Reader_ok (reading v)"
  by (simp add: reading_def Reader_ok_def no_error_def error_ok_def)

lemma make_Reader_object [simp]: "make_Reader (VObject ms) context = reading (VObject ms)"
  by (simp add: make_Reader_def reading_def)

lemma Lookup_reading: "Find v key = Some m \<Longrightarrow> Lookup key (reading v) = (Some m, reading v)"
  by (simp add: Lookup_def) (simp add: reading_def)

lemma strings_are_strings [simp]:
  "find (\<lambda>v. Value_type v \<noteq> kString) (map VString ss) = None" "map string_of (map VString ss) = ss"
  by (simp_all add: find_None_iff comp_def string_of_def)

lemma Required_reading:
  "Find v key = Some (VString s) \<Longrightarrow> usable s \<Longrightarrow> Required_string key (reading v) = (Some s, reading v)"
  "Find v key = Some (VNumber (Some i)) \<Longrightarrow> Required_int key (reading v) = (Some i, reading v)"
  "Find v key = Some (VArray (map VString ss)) \<Longrightarrow> Required_strings key (reading v) = (Some ss, reading v)"
  "Find v key = Some VNull \<Longrightarrow> RequiredNullable_string key (reading v) = (Some None, reading v)"
  "Find v key = Some (VString s) \<Longrightarrow> usable s \<Longrightarrow>
     RequiredNullable_string key (reading v) = (Some (Some s), reading v)"
  by (simp_all add: Required_string_def Required_int_def Required_strings_def RequiredNullable_string_def
      Lookup_reading UsableString_def usable_def string_of_def is_integer_def integer_def elements_def
      del: map_map)

text \<open>A reader that is still content after a getter was content before it, and read what it asked for.\<close>

lemma Fail_not_ok [simp]: "msg \<noteq> [] \<Longrightarrow> \<not> Reader_ok (Reader_Fail key msg rd)"
  by (simp add: Reader_Fail_def Reader_ok_def error_ok_def)

lemma Lookup_ok:
  assumes "Lookup key rd = (x, rd')" "Reader_ok rd'"
  shows "rd' = rd \<and> Reader_ok rd \<and> x \<noteq> None"
proof (cases "Option.bind (rd_object rd) (\<lambda>v. Find v key)")
  case (Some m)
  then have "Lookup key rd = (if \<not> Reader_ok rd then None else Some m, rd)" by (simp add: Lookup_def)
  with assms show ?thesis by (cases "Reader_ok rd") auto
next
  case None
  then have "\<not> Reader_ok (snd (Lookup key rd))" by (simp add: Lookup_def)
  with assms show ?thesis by simp
qed

lemma UsableString_ok:
  "UsableString key s rd = (b, rd') \<Longrightarrow> Reader_ok rd' \<Longrightarrow> rd' = rd \<and> b \<and> usable s"
  by (auto simp: UsableString_def usable_def split: if_splits)

lemma Required_string_ok:
  assumes "Required_string key rd = (x, rd')" "Reader_ok rd'"
  shows "rd' = rd \<and> Reader_ok rd \<and> (\<exists>s. x = Some s \<and> usable s)"
proof -
  obtain m rd1 where l: "Lookup key rd = (m, rd1)" by fastforce
  obtain b rd2 where u: "UsableString key (string_of (the m)) rd1 = (b, rd2)" by fastforce
  from assms l u Lookup_ok [OF l] UsableString_ok [OF u] show ?thesis
    by (auto simp: Required_string_def split: option.splits if_splits bool.splits)
qed

lemma RequiredNullable_string_ok:
  assumes "RequiredNullable_string key rd = (x, rd')" "Reader_ok rd'"
  shows "rd' = rd \<and> Reader_ok rd \<and> (x = Some None \<or> (\<exists>s. x = Some (Some s) \<and> usable s))"
proof -
  obtain m rd1 where l: "Lookup key rd = (m, rd1)" by fastforce
  obtain b rd2 where u: "UsableString key (string_of (the m)) rd1 = (b, rd2)" by fastforce
  from assms l u Lookup_ok [OF l] UsableString_ok [OF u] show ?thesis
    by (auto simp: RequiredNullable_string_def split: option.splits if_splits bool.splits)
qed

lemma Required_strings_ok:
  assumes "Required_strings key rd = (x, rd')" "Reader_ok rd'"
  shows "rd' = rd \<and> Reader_ok rd \<and> x \<noteq> None"
proof -
  obtain m rd1 where l: "Lookup key rd = (m, rd1)" by fastforce
  from assms l Lookup_ok [OF l] show ?thesis
    by (auto simp: Required_strings_def split: option.splits if_splits)
qed

lemmas getters_ok = Required_string_ok RequiredNullable_string_ok Required_strings_ok

section \<open>The pairing's answers\<close>

record DeviceInitResponse =
  device_code :: bytes
  user_code :: bytes
  verification_path :: bytes
  verification_path_complete :: bytes
  expires_in :: int
  interval :: int

definition no_init_response :: DeviceInitResponse where
  "no_init_response = \<lparr>device_code = [], user_code = [], verification_path = [],
     verification_path_complete = [], expires_in = 0, interval = 0\<rparr>"

definition kMinPollInterval :: int where "kMinPollInterval = 1"
definition kMinPairingLifetime :: int where "kMinPairingLifetime = 1"
definition kMaxPairingLifetime :: int where "kMaxPairingLifetime = 3600"

text \<open>\<open>Clamp\<close>, in seconds.\<close>

definition Clamp_seconds :: "int \<Rightarrow> int \<Rightarrow> int \<Rightarrow> int" where
  "Clamp_seconds seconds low high = (if seconds < low then low else if seconds > high then high else seconds)"

definition lifetime :: "DeviceInitResponse \<Rightarrow> int" where
  "lifetime r = Clamp_seconds (expires_in r) kMinPairingLifetime kMaxPairingLifetime"

definition poll_interval :: "DeviceInitResponse \<Rightarrow> int" where
  "poll_interval r =
     (let asked = Clamp_seconds (interval r) kMinPollInterval kMaxPairingLifetime
      in if asked < lifetime r then asked else lifetime r)"

definition Origin :: "bytes \<Rightarrow> bytes" where
  "Origin server_url = rev (dropWhile (\<lambda>c. c = CHR ''/'') (rev server_url))"

text \<open>\<open>std::string::find\<close> of a string in a string.\<close>

fun find_at :: "bytes \<Rightarrow> bytes \<Rightarrow> nat option" where
  "find_at needle s =
     (if starts_with needle s then Some 0
      else case s of [] \<Rightarrow> None | _ # r \<Rightarrow> map_option Suc (find_at needle r))"

declare find_at.simps [simp del]

definition IsAbsolute :: "bytes \<Rightarrow> bool" where
  "IsAbsolute path =
     (case find_at ''://'' path of None \<Rightarrow> False
      | Some scheme \<Rightarrow> scheme > 0 \<and>
          (case find_at ''/'' path of None \<Rightarrow> True | Some slash \<Rightarrow> slash > scheme))"

definition Join :: "bytes \<Rightarrow> bytes \<Rightarrow> bytes" where
  "Join server_url path =
     (if IsAbsolute path then path
      else Origin server_url @ (if path \<noteq> [] \<and> take 1 path \<noteq> ''/'' then ''/'' else []) @ path)"

definition VerificationUrl :: "DeviceInitResponse \<Rightarrow> bytes \<Rightarrow> bytes" where
  "VerificationUrl r server_url = Join server_url (verification_path r)"

definition VerificationUrlComplete :: "DeviceInitResponse \<Rightarrow> bytes \<Rightarrow> bytes" where
  "VerificationUrlComplete r server_url = Join server_url (verification_path_complete r)"

record DeviceTokenResponse =
  dt_access_token :: bytes
  dt_device_id :: bytes
  dt_scopes :: "bytes list"
  dt_expires_at :: "bytes option"

definition no_token_response :: DeviceTokenResponse where
  "no_token_response = \<lparr>dt_access_token = [], dt_device_id = [], dt_scopes = [], dt_expires_at = None\<rparr>"

definition HasScope :: "DeviceTokenResponse \<Rightarrow> bytes \<Rightarrow> bool" where
  "HasScope r scope \<longleftrightarrow> scope \<in> set (dt_scopes r)"

definition ParseDeviceInitResponse :: "bytes \<Rightarrow> DeviceInitResponse Parsed" where
  "ParseDeviceInitResponse body =
     (let document = Parse body in
      if \<not> pr_ok document then \<lparr>parsed_value = no_init_response, parsed_error = pr_error document\<rparr>
      else
        let rd = make_Reader (pr_value document) ''device init response'';
            (a, rd) = Required_string ''device_code'' rd;
            (b, rd) = Required_string ''user_code'' rd;
            (c, rd) = Required_string ''verification_path'' rd;
            (d, rd) = Required_string ''verification_path_complete'' rd;
            (e, rd) = Required_int ''expires_in'' rd;
            (f, rd) = Required_int ''interval'' rd;
            response = \<lparr>device_code = into [] a, user_code = into [] b, verification_path = into [] c,
              verification_path_complete = into [] d, expires_in = into 0 e, interval = into 0 f\<rparr>
        in
        if \<not> Reader_ok rd then \<lparr>parsed_value = no_init_response, parsed_error = rd_error rd\<rparr>
        else if expires_in response \<le> 0
        then \<lparr>parsed_value = no_init_response,
               parsed_error = no_error\<lparr>field := ''expires_in'', message := ''is not a positive number of seconds''\<rparr>\<rparr>
        else if interval response < 0
        then \<lparr>parsed_value = no_init_response,
               parsed_error = no_error\<lparr>field := ''interval'', message := ''is negative''\<rparr>\<rparr>
        else \<lparr>parsed_value = response, parsed_error = no_error\<rparr>)"

definition ParseDeviceTokenResponse :: "bytes \<Rightarrow> DeviceTokenResponse Parsed" where
  "ParseDeviceTokenResponse body =
     (let document = Parse body in
      if \<not> pr_ok document then \<lparr>parsed_value = no_token_response, parsed_error = pr_error document\<rparr>
      else
        let rd = make_Reader (pr_value document) ''device token response'';
            (a, rd) = Required_string ''access_token'' rd;
            (b, rd) = Required_string ''device_id'' rd;
            (c, rd) = Required_strings ''scopes'' rd;
            (d, rd) = RequiredNullable_string ''expires_at'' rd
        in
        if \<not> Reader_ok rd then \<lparr>parsed_value = no_token_response, parsed_error = rd_error rd\<rparr>
        else \<lparr>parsed_value = \<lparr>dt_access_token = into [] a, dt_device_id = into [] b,
                 dt_scopes = into [] c, dt_expires_at = into None d\<rparr>, parsed_error = no_error\<rparr>)"

section \<open>Polling\<close>

datatype TokenPoll = TokenPoll_kGranted | TokenPoll_kAuthorizationPending | TokenPoll_kSlowDown
  | TokenPoll_kRateLimited | TokenPoll_kServerError | TokenPoll_kAccessDenied
  | TokenPoll_kExpiredToken | TokenPoll_kUnrecognized

fun TokenPoll_ToString :: "TokenPoll \<Rightarrow> bytes" where
  "TokenPoll_ToString TokenPoll_kGranted = ''granted''"
| "TokenPoll_ToString TokenPoll_kAuthorizationPending = ''authorization_pending''"
| "TokenPoll_ToString TokenPoll_kSlowDown = ''slow_down''"
| "TokenPoll_ToString TokenPoll_kRateLimited = ''rate_limited''"
| "TokenPoll_ToString TokenPoll_kServerError = ''server_error''"
| "TokenPoll_ToString TokenPoll_kAccessDenied = ''access_denied''"
| "TokenPoll_ToString TokenPoll_kExpiredToken = ''expired_token''"
| "TokenPoll_ToString TokenPoll_kUnrecognized = ''unrecognized''"

definition ShouldKeepPolling :: "TokenPoll \<Rightarrow> bool" where
  "ShouldKeepPolling p \<longleftrightarrow> p = TokenPoll_kAuthorizationPending \<or> p = TokenPoll_kSlowDown \<or>
     p = TokenPoll_kRateLimited \<or> p = TokenPoll_kServerError"

definition ClassifyReason :: "bytes \<Rightarrow> TokenPoll" where
  "ClassifyReason reason =
     (if reason = ''authorization_pending'' then TokenPoll_kAuthorizationPending
      else if reason = ''slow_down'' then TokenPoll_kSlowDown
      else if reason = ''access_denied'' then TokenPoll_kAccessDenied
      else if reason = ''expired_token'' then TokenPoll_kExpiredToken
      else TokenPoll_kUnrecognized)"

definition ClassifyTokenPoll :: "int \<Rightarrow> bytes \<Rightarrow> TokenPoll" where
  "ClassifyTokenPoll status body =
     (if status = 200 then TokenPoll_kGranted
      else if status = 429 then TokenPoll_kRateLimited
      else if status \<ge> 500 \<and> status < 600 then TokenPoll_kServerError
      else if status \<noteq> 400 then TokenPoll_kUnrecognized
      else
        let document = Parse body in
        if \<not> pr_ok document then TokenPoll_kUnrecognized
        else case Find (pr_value document) ''detail'' of
          None \<Rightarrow> TokenPoll_kUnrecognized
        | Some detail \<Rightarrow>
            if Value_type detail \<noteq> kString then TokenPoll_kUnrecognized
            else ClassifyReason (string_of detail))"

section \<open>A record a later release wrote\<close>

text \<open>\<open>kNewerReleaseRemedy\<close> is \<open>newer_release.hpp\<close>'s.\<close>

definition kNewerReleaseRemedy :: bytes where
  "kNewerReleaseRemedy = 
     ''install sys-rommsync and the overlay from the release that wrote it''"

definition NewerRelease :: "bytes \<Rightarrow> bytes \<Rightarrow> int \<Rightarrow> bytes \<Rightarrow> bytes" where
  "NewerRelease file version reads_v consequence =
     file @ '' is version '' @ version @
     '', written by a newer release than this sys-rommsync, which reads version '' @
     to_string reads_v @ ''; '' @ consequence @ '' -- '' @ kNewerReleaseRemedy"

text \<open>The digit loop: \<open>None\<close> for the early return of a number nobody shipped, else the number and what
  is left.\<close>

fun version_digits :: "nat \<Rightarrow> bytes \<Rightarrow> (nat \<times> bytes) option" where
  "version_digits version [] = Some (version, [])"
| "version_digits version (c # s) =
     (if IsDigit c
      then (if version > 100000 then None else version_digits (version * 10 + (byte c - byte (CHR ''0''))) s)
      else Some (version, c # s))"

definition NewerVersion :: "bytes \<Rightarrow> bytes \<Rightarrow> nat \<Rightarrow> nat" where
  "NewerVersion header magic reads_v =
     (if length header \<le> length magic \<or> take (length magic) header \<noteq> magic \<or>
         header ! length magic \<noteq> CHR '' '' then 0
      else
        let digits = drop (length magic + 1) header in
        case version_digits 0 digits of None \<Rightarrow> 0
        | Some (version, rest) \<Rightarrow>
            if length rest = length digits \<or> (rest \<noteq> [] \<and> hd rest \<noteq> CHR '' '') then 0
            else if version > reads_v then version else 0)"

text \<open>A grant that parsed holds a token and a device a record can be written from.\<close>

lemma grant_usable:
  assumes "parsed_ok (ParseDeviceTokenResponse body)"
  shows "usable (dt_access_token (parsed_value (ParseDeviceTokenResponse body))) \<and>
    usable (dt_device_id (parsed_value (ParseDeviceTokenResponse body))) \<and>
    (\<forall>e. dt_expires_at (parsed_value (ParseDeviceTokenResponse body)) = Some e \<longrightarrow> usable e)"
proof -
  let ?rd = "make_Reader (pr_value (Parse body)) ''device token response''"
  obtain a rd1 where a: "Required_string ''access_token'' ?rd = (a, rd1)" by fastforce
  obtain b rd2 where b: "Required_string ''device_id'' rd1 = (b, rd2)" by fastforce
  obtain c rd3 where c: "Required_strings ''scopes'' rd2 = (c, rd3)" by fastforce
  obtain d rd4 where d: "RequiredNullable_string ''expires_at'' rd3 = (d, rd4)" by fastforce
  have doc: "pr_ok (Parse body)"
    using assms by (auto simp: ParseDeviceTokenResponse_def parsed_ok_def pr_ok_def Let_def split: if_splits)
  note run = ParseDeviceTokenResponse_def [of body, unfolded Let_def a b c d prod.case]
  have ok: "Reader_ok rd4"
    using assms doc run by (auto simp: parsed_ok_def Reader_ok_def split: if_splits)
  then have v: "parsed_value (ParseDeviceTokenResponse body) = \<lparr>dt_access_token = into [] a, dt_device_id = into [] b,
      dt_scopes = into [] c, dt_expires_at = into None d\<rparr>"
    using doc run by simp
  have "Reader_ok rd3" and d': "d = Some None \<or> (\<exists>s. d = Some (Some s) \<and> usable s)"
    using RequiredNullable_string_ok [OF d ok] by auto
  moreover from this have "Reader_ok rd2" using Required_strings_ok [OF c] by simp
  moreover from this obtain s where "b = Some s" "usable s" "Reader_ok rd1"
    using Required_string_ok [OF b] by auto
  moreover from this obtain t where "a = Some t" "usable t" using Required_string_ok [OF a] by auto
  ultimately show ?thesis using v by auto
qed

section \<open>Pacing and verdicts\<close>

text \<open>The pairing is polled no faster than the server asked (RomM answers a faster loop \<open>slow_down\<close>
  forever), at least a second apart, and never past the code's own life, which is an hour at most.\<close>

theorem poll_interval_bounds:
  "1 \<le> poll_interval r \<and> min (interval r) (lifetime r) \<le> poll_interval r \<and>
     poll_interval r \<le> lifetime r \<and> lifetime r \<le> 3600"
  by (auto simp: poll_interval_def lifetime_def Clamp_seconds_def kMinPollInterval_def
      kMinPairingLifetime_def kMaxPairingLifetime_def Let_def)

lemma version_digits_bound:
  "version_digits v s = Some (n, r) \<Longrightarrow> v \<le> 1000009 \<Longrightarrow> n \<le> 1000009"
proof (induction s arbitrary: v)
  case (Cons c s)
  show ?case
  proof (cases "IsDigit c")
    case True
    with Cons.prems have v: "v \<le> 100000" "version_digits (v * 10 + (byte c - byte (CHR ''0''))) s = Some (n, r)"
      by (auto split: if_splits)
    have "byte c - byte (CHR ''0'') \<le> (9::nat)"
      using True by (simp add: IsDigit_byte) arith
    with v show ?thesis using Cons.IH by simp
  qed (use Cons.prems in simp)
qed simp

text \<open>A version read from a header is one this build does not read, the header does carry the
  magic, and the loop's arithmetic never passes what an \<open>int\<close> holds, whatever digits the file has.\<close>

theorem NewerVersion_is_newer:
  assumes "NewerVersion header magic reads_v = n" "n \<noteq> 0"
  shows "reads_v < n \<and> n \<le> 1000009 \<and> starts_with (magic @ '' '') header"
proof -
  from assms have h: "length header > length magic" "take (length magic) header = magic"
    "header ! length magic = CHR '' ''"
    by (auto simp: NewerVersion_def split: if_splits)
  then have "take (length (magic @ '' '')) header = magic @ '' ''"
    by (simp add: take_Suc_conv_app_nth)
  moreover obtain rest where "version_digits 0 (drop (length magic + 1) header) = Some (n, rest)" "n > reads_v"
    using assms h by (auto simp: NewerVersion_def Let_def split: if_splits option.splits)
  ultimately show ?thesis using version_digits_bound [of 0] h by (auto simp: starts_with_def)
qed

theorem NewerVersion_is_newer_witness:
  "5 < (12::nat) \<and> (12::nat) \<le> 1000009 \<and> starts_with (''rommsync-state'' @ '' '') ''rommsync-state 12 abc''"
  by (rule NewerVersion_is_newer [of _ _ 5 12]) (simp_all add: NewerVersion_def IsDigit_def less_eq_char_def)

end
