(* ===== verification/TokenStore.thy ===== *)
theory TokenStore
  imports Auth AtomicFile
begin

text \<open>
  \<open>core/src/token_store.cpp\<close>: the bearer token on the card. \<open>StoredRecord\<close> below is the interface
  every small JSON record of the program shares (this one, and \<open>auth.json\<close>): what is written is one
  object and a newline, and what is read back is the value it was written from.
\<close>

section \<open>A JSON record in a file\<close>

lemma render_line_parses:
  assumes "wf_at 0 v" "exact v"
  shows "Parse (render v @ [CHR 0x0A]) = \<lparr>pr_value = v, pr_error = no_error\<rparr>"
proof (rule Parse_value)
  have "reads 0 v" using assms by (rule render_reads)
  then show "ParseValue None 0 (SkipWhitespace (render v @ [CHR 0x0A])) = Inr (v, [CHR 0x0A])"
    by (simp add: reads_def value_start_append ends_number_def IsDigit_def less_eq_char_def)
qed (simp add: SkipWhitespace_def is_space_def)

lemma quote_items_render:
  "vs \<noteq> [] \<Longrightarrow> quote_items vs =
     render (VString (hd vs)) @ concat (map (\<lambda>w. CHR '','' # render w) (map VString (tl vs)))"
proof (induction vs rule: quote_items.induct)
  case (3 v w vs)
  then show ?case by simp
qed simp_all

lemma QuoteArray_render: "QuoteArray vs = render (VArray (map VString vs))"
  by (cases vs) (simp_all add: QuoteArray_def quote_items_render)

text \<open>What the clients of a stored record rely on: the document of a value that may be written is one
  \<open>Parse\<close> accepts, and decoding it gives the value.\<close>

locale stored_record =
  fixes document :: "'a \<Rightarrow> Value" and writable :: "'a \<Rightarrow> bool" and decode :: "Value \<Rightarrow> 'b" and found :: "'a \<Rightarrow> 'b"
  assumes document_wf: "writable x \<Longrightarrow> wf_at 0 (document x) \<and> exact (document x)"
    and decode_document: "writable x \<Longrightarrow> decode (document x) = found x"
begin

definition line :: "'a \<Rightarrow> bytes" where
  "line x = render (document x) @ [CHR 0x0A]"

lemma line_parses: "writable x \<Longrightarrow> Parse (line x) = \<lparr>pr_value = document x, pr_error = no_error\<rparr>"
  using document_wf by (simp add: line_def render_line_parses)

lemma decode_line: "writable x \<Longrightarrow> decode (pr_value (Parse (line x))) = found x"
  by (simp add: line_parses decode_document)

end

section \<open>The token\<close>

record StoredToken =
  server_url :: bytes
  access_token :: bytes
  device_id :: bytes
  scopes :: "bytes list"
  expires_at :: "bytes option"

definition no_token :: StoredToken where
  "no_token = \<lparr>server_url = [], access_token = [], device_id = [], scopes = [], expires_at = None\<rparr>"

definition kTokenFormatVersion :: int where "kTokenFormatVersion = 1"

definition Usable :: "bytes \<Rightarrow> bool" where
  "Usable value \<longleftrightarrow> value \<noteq> [] \<and> CHR 0x00 \<notin> set value"

definition RecordVersion :: "Value \<Rightarrow> int" where
  "RecordVersion document =
     (case (if Value_type document = kObject then Find document ''version'' else None) of
        None \<Rightarrow> kTokenFormatVersion
      | Some version \<Rightarrow> if is_integer version then integer version else -1)"

datatype StoreError = StoreError_kNone | StoreError_kUnusableToken | StoreError_kOpenFailed
  | StoreError_kWriteFailed | StoreError_kCommitFailed | StoreError_kReadFailed
  | StoreError_kMalformed | StoreError_kNewerFormat

fun StoreError_ToString :: "StoreError \<Rightarrow> bytes" where
  "StoreError_ToString StoreError_kNone = ''none''"
| "StoreError_ToString StoreError_kUnusableToken = ''unusable_token''"
| "StoreError_ToString StoreError_kOpenFailed = ''open_failed''"
| "StoreError_ToString StoreError_kWriteFailed = ''write_failed''"
| "StoreError_ToString StoreError_kCommitFailed = ''commit_failed''"
| "StoreError_ToString StoreError_kReadFailed = ''read_failed''"
| "StoreError_ToString StoreError_kMalformed = ''malformed''"
| "StoreError_ToString StoreError_kNewerFormat = ''newer_format''"

record StoreResult =
  sr_error :: StoreError
  sr_message :: bytes

record LoadedToken =
  lt_value :: StoredToken
  lt_error :: StoreError
  lt_message :: bytes

definition lt_ok :: "LoadedToken \<Rightarrow> bool" where
  "lt_ok l \<longleftrightarrow> lt_error l = StoreError_kNone"

definition StoredTokenFrom :: "bytes \<Rightarrow> DeviceTokenResponse \<Rightarrow> StoredToken" where
  "StoredTokenFrom url granted =
     \<lparr>server_url = url, access_token = dt_access_token granted, device_id = dt_device_id granted,
      scopes = dt_scopes granted, expires_at = dt_expires_at granted\<rparr>"

definition SerializeStoredToken :: "StoredToken \<Rightarrow> bytes" where
  "SerializeStoredToken token =
     CHR ''{'' # Quote ''server_url'' @ '':'' @ Quote (server_url token) @
     '','' @ Quote ''access_token'' @ '':'' @ Quote (access_token token) @
     '','' @ Quote ''device_id'' @ '':'' @ Quote (device_id token) @
     '','' @ Quote ''scopes'' @ '':'' @ QuoteArray (scopes token) @
     '','' @ Quote ''expires_at'' @ '':'' @
     (case expires_at token of None \<Rightarrow> ''null'' | Some e \<Rightarrow> Quote e) @ ''}''"

definition FromDocument :: "Value \<Rightarrow> StoredToken Parsed" where
  "FromDocument document =
     (let version = RecordVersion document in
      if version < 1 \<or> version > kTokenFormatVersion
      then \<lparr>parsed_value = no_token, parsed_error = no_error\<lparr>field := ''version'', message :=
             (if version < 1 then ''expected a whole number of at least 1''
              else ''is '' @ to_string version @ '', newer than the format '' @
                   to_string kTokenFormatVersion @ '' this build reads'')\<rparr>\<rparr>
      else
        let rd = make_Reader document ''token record'';
            (a, rd) = Required_string ''server_url'' rd;
            (b, rd) = Required_string ''access_token'' rd;
            (c, rd) = Required_string ''device_id'' rd;
            (d, rd) = Required_strings ''scopes'' rd;
            (e, rd) = RequiredNullable_string ''expires_at'' rd
        in
        if \<not> Reader_ok rd then \<lparr>parsed_value = no_token, parsed_error = rd_error rd\<rparr>
        else \<lparr>parsed_value = \<lparr>server_url = into [] a, access_token = into [] b, device_id = into [] c,
                 scopes = into [] d, expires_at = into None e\<rparr>, parsed_error = no_error\<rparr>)"

definition ParseStoredToken :: "bytes \<Rightarrow> StoredToken Parsed" where
  "ParseStoredToken text =
     (let document = Parse text in
      if \<not> pr_ok document then \<lparr>parsed_value = no_token, parsed_error = pr_error document\<rparr>
      else FromDocument (pr_value document))"

fun StoreErrorOf :: "WriteError \<Rightarrow> StoreError" where
  "StoreErrorOf WriteError_kNone = StoreError_kNone"
| "StoreErrorOf WriteError_kOpenFailed = StoreError_kOpenFailed"
| "StoreErrorOf WriteError_kWriteFailed = StoreError_kWriteFailed"
| "StoreErrorOf WriteError_kCommitFailed = StoreError_kCommitFailed"

text \<open>The switch after \<open>WriteAtomically\<close>, which \<open>SaveToken\<close> and \<open>SaveBlock\<close> share.\<close>

definition store_result :: "WriteResult \<Rightarrow> StoreResult" where
  "store_result written =
     (if wr_error written = WriteError_kNone then \<lparr>sr_error = StoreError_kNone, sr_message = []\<rparr>
      else \<lparr>sr_error = StoreErrorOf (wr_error written), sr_message = wr_message written\<rparr>)"

definition can_be_read :: "StoredToken \<Rightarrow> bool" where
  "can_be_read token \<longleftrightarrow> Usable (server_url token) \<and> Usable (access_token token) \<and>
     Usable (device_id token) \<and> (case expires_at token of None \<Rightarrow> True | Some e \<Rightarrow> Usable e)"

definition SaveToken :: "bytes \<Rightarrow> StoredToken \<Rightarrow> Card \<Rightarrow> StoreResult \<times> Card" where
  "SaveToken path token w =
     (if \<not> can_be_read token
      then (\<lparr>sr_error = StoreError_kUnusableToken, sr_message =
               Describe_path path ''refusing to write a token with a blank or NUL-carrying field''\<rparr>, w)
      else
        let (written, w) = WriteAtomically path (SerializeStoredToken token @ [CHR 0x0A]) w
        in (store_result written, w))"

fun joined :: "bytes list \<Rightarrow> bytes" where
  "joined [] = []"
| "joined [s] = s"
| "joined (s # ss) = s @ '' '' @ joined ss"

definition DescribeStoredToken :: "StoredToken \<Rightarrow> bytes" where
  "DescribeStoredToken token =
     ''server='' @ server_url token @ '' device='' @ device_id token @ '' scopes=['' @
     joined (scopes token) @ ''] credential='' @
     (if access_token token = [] then ''absent''
      else ''present('' @ to_string (int (length (access_token token))) @ '' chars)'') @
     '' expires='' @ (case expires_at token of None \<Rightarrow> ''never'' | Some e \<Rightarrow> e)"

definition DiscardToken :: "bytes \<Rightarrow> Card \<Rightarrow> bool \<times> Card" where
  "DiscardToken path w = Shred path w"

definition load_failed :: "StoreError \<Rightarrow> bytes \<Rightarrow> LoadedToken" where
  "load_failed e m = \<lparr>lt_value = no_token, lt_error = e, lt_message = m\<rparr>"

text \<open>\<open>ReadRecord\<close>, past the read: what the bytes of a file are.\<close>

definition token_of :: "bytes \<Rightarrow> bytes \<Rightarrow> LoadedToken" where
  "token_of path text =
     (let document = Parse text;
          parsed = (if pr_ok document then FromDocument (pr_value document)
                    else \<lparr>parsed_value = no_token, parsed_error = pr_error document\<rparr>)
      in
      if \<not> parsed_ok parsed
      then
        let version = (if pr_ok document then RecordVersion (pr_value document) else 0) in
        if version > kTokenFormatVersion
        then load_failed StoreError_kNewerFormat
               (NewerRelease path (to_string version) kTokenFormatVersion
                  ''it is left as it is, and pairing again is what replaces it'')
        else load_failed StoreError_kMalformed (Describe_path path (Describe (parsed_error parsed)))
      else \<lparr>lt_value = parsed_value parsed, lt_error = StoreError_kNone, lt_message = []\<rparr>)"

definition ReadRecord :: "bytes \<Rightarrow> Card \<Rightarrow> (LoadedToken \<times> ReadError) \<times> Card" where
  "ReadRecord path w =
     (let (got, w) = ReadFile path w in
      if \<not> rr_ok got then ((load_failed StoreError_kReadFailed (rr_message got), rr_error got), w)
      else ((token_of path (rr_contents got), rr_error got), w))"

definition LoadToken :: "bytes \<Rightarrow> Card \<Rightarrow> LoadedToken \<times> Card" where
  "LoadToken path w =
     (let ((loaded, how), w) = ReadRecord path w in
      if lt_ok loaded then (loaded, w)
      else if how = ReadError_kUnreadable then (loaded, w)
      else if lt_error loaded = StoreError_kNewerFormat then (loaded, w)
      else
        let ((previous, _), w) = ReadRecord (PreviousPathFor path) w
        in (if lt_ok previous then previous else loaded, w))"

section \<open>What is saved is what is loaded\<close>

definition token_document :: "StoredToken \<Rightarrow> Value" where
  "token_document token = VObject
     [(''server_url'', VString (server_url token)), (''access_token'', VString (access_token token)),
      (''device_id'', VString (device_id token)), (''scopes'', VArray (map VString (scopes token))),
      (''expires_at'', case expires_at token of None \<Rightarrow> VNull | Some e \<Rightarrow> VString e)]"

lemma SerializeStoredToken_render: "SerializeStoredToken token = render (token_document token)"
  by (simp add: SerializeStoredToken_def token_document_def QuoteArray_render split: option.splits)

lemma Usable_usable: "Usable s = usable s"
  by (simp add: Usable_def usable_def)

lemma token_FromDocument:
  assumes "can_be_read token"
  shows "FromDocument (token_document token) = \<lparr>parsed_value = token, parsed_error = no_error\<rparr>"
proof -
  let ?v = "token_document token"
  have k: "usable (server_url token)" "usable (access_token token)" "usable (device_id token)"
    using assms by (auto simp: can_be_read_def Usable_usable)
  have find_all: "Find ?v ''server_url'' = Some (VString (server_url token))"
    "Find ?v ''access_token'' = Some (VString (access_token token))"
    "Find ?v ''device_id'' = Some (VString (device_id token))"
    "Find ?v ''scopes'' = Some (VArray (map VString (scopes token)))"
    "Find ?v ''expires_at'' = Some (case expires_at token of None \<Rightarrow> VNull | Some e \<Rightarrow> VString e)"
    "Find ?v ''version'' = None"
    by (simp_all add: Find_def token_document_def)
  have version: "RecordVersion ?v = 1" using find_all(6) by (simp add: RecordVersion_def kTokenFormatVersion_def)
  have rd: "make_Reader ?v ''token record'' = reading ?v" by (simp add: token_document_def)
  have e: "RequiredNullable_string ''expires_at'' (reading ?v) = (Some (expires_at token), reading ?v)"
    using find_all(5) assms
    by (cases "expires_at token") (auto simp: can_be_read_def Usable_usable intro: Required_reading)
  show ?thesis
    using Required_reading(1) [OF find_all(1) k(1)] Required_reading(1) [OF find_all(2) k(2)]
      Required_reading(1) [OF find_all(3) k(3)] Required_reading(3) [OF find_all(4)]
    by (simp add: FromDocument_def version rd e kTokenFormatVersion_def)
qed

interpretation token_record: stored_record token_document can_be_read FromDocument
  "\<lambda>t. \<lparr>parsed_value = t, parsed_error = no_error\<rparr>"
proof (unfold_locales, goal_cases)
  case (1 x)
  then show ?case
    by (auto simp: token_document_def kMaxDepth_def split: option.splits)
qed (rule token_FromDocument)

lemma token_of_line:
  assumes "can_be_read token"
  shows "token_of path (SerializeStoredToken token @ [CHR 0x0A]) =
    \<lparr>lt_value = token, lt_error = StoreError_kNone, lt_message = []\<rparr>"
  using token_record.line_parses [OF assms] token_FromDocument [OF assms]
  by (simp add: token_record.line_def SerializeStoredToken_render token_of_def parsed_ok_def pr_ok_def
      no_error_def error_ok_def)

lemma SaveToken_runs:
  assumes "can_be_read token" "SaveToken path token w = (r, w')"
  obtains wr where "WriteAtomically path (SerializeStoredToken token @ [CHR 0x0A]) w = (wr, w')"
    "r = store_result wr"
  using assms by (auto simp: SaveToken_def split: prod.splits)

text \<open>A card that holds a record under its own name, or the previous one, answers with it.\<close>

lemma LoadToken_recoverable:
  assumes h: "answers w = []" and token: "can_be_read token"
    and rec: "recoverable path (files w) = Some f" and d: "data f = SerializeStoredToken token @ [CHR 0x0A]"
  shows "fst (LoadToken path w) = \<lparr>lt_value = token, lt_error = StoreError_kNone, lt_message = []\<rparr>"
  using rec
  by (auto simp: LoadToken_def ReadRecord_def ReadFile_healthy [OF h] recoverable_def rr_ok_def d
      token_of_line [OF token] lt_ok_def load_failed_def split: option.splits)

lemma saved_token_loads:
  assumes "answers w = []" "file_path path" and t: "can_be_read token" and save: "SaveToken path token w = (r, w')"
  shows "sr_error r = StoreError_kNone \<and>
    fst (LoadToken path w') = \<lparr>lt_value = token, lt_error = StoreError_kNone, lt_message = []\<rparr>"
proof -
  obtain wr where wr: "WriteAtomically path (SerializeStoredToken token @ [CHR 0x0A]) w = (wr, w')"
    "r = store_result wr" using SaveToken_runs [OF t save] .
  obtain b where "wr_ok wr" "answers w' = []"
    "files w' path = Some \<lparr>data = SerializeStoredToken token @ [CHR 0x0A], on_card = b\<rparr>"
    using one_piece.write_then_read [OF assms(1, 2) wr(1) [unfolded WriteAtomically_def]] by auto
  moreover from this have "recoverable path (files w') =
    Some \<lparr>data = SerializeStoredToken token @ [CHR 0x0A], on_card = b\<rparr>" by (simp add: recoverable_def)
  ultimately show ?thesis
    using LoadToken_recoverable [OF _ t, of w' path] wr(2) by (simp add: store_result_def wr_ok_def)
qed

text \<open>C4: What pairing is granted, RomM's own answer parsed, is saved and comes back whole: the token,
  the device, every scope and the expiry, whatever bytes they carry.\<close>

theorem grant_survives_the_card:
  assumes "parsed_ok (ParseDeviceTokenResponse body)" "Usable url" "file_path path" "answers w = []"
    and token: "token = StoredTokenFrom url (parsed_value (ParseDeviceTokenResponse body))"
    and save: "SaveToken path token w = (r, w')"
  shows "sr_error r = StoreError_kNone \<and>
    fst (LoadToken path w') = \<lparr>lt_value = token, lt_error = StoreError_kNone, lt_message = []\<rparr>"
proof (rule saved_token_loads [OF assms(4, 3) _ save])
  show "can_be_read token"
    using grant_usable [OF assms(1)] assms(2)
    by (auto simp: token can_be_read_def StoredTokenFrom_def Usable_usable split: option.splits)
qed

text \<open>The card a boot after a power cut finds.\<close>

definition after_cut :: "(bytes \<Rightarrow> bytes \<Rightarrow> bytes) \<Rightarrow> (bytes \<rightharpoonup> File) \<Rightarrow> Card" where
  "after_cut torn fs = \<lparr>files = cut torn fs, seen = [], answers = [], rename_replaces = False, file_sync = True\<rparr>"

text \<open>C3: With a sync hook installed, pairing again over a token already stored never costs the console its
  pairing: cut the power at any moment of the save, tear everything unsynced, and the next boot loads the old
  token or the new one, whole. With no hook \<open>SaveToken\<close> promises nothing of a power cut.\<close>

theorem repairing_keeps_a_token:
  assumes "can_be_read before" "can_be_read after" "file_path path" "file_sync w"
    and stored: "files w path = Some \<lparr>data = SerializeStoredToken before @ [CHR 0x0A], on_card = True\<rparr>"
    and save: "SaveToken path after w = (r, w')"
    and at: "fs \<in> set (seen w')" "fs \<notin> set (seen w)"
  shows "fst (LoadToken path (after_cut torn fs)) \<in>
    {\<lparr>lt_value = before, lt_error = StoreError_kNone, lt_message = []\<rparr>,
     \<lparr>lt_value = after, lt_error = StoreError_kNone, lt_message = []\<rparr>}"
proof -
  obtain wr where wr: "WriteAtomically path (SerializeStoredToken after @ [CHR 0x0A]) w = (wr, w')"
    using SaveToken_runs [OF assms(2) save] .
  have old: "recoverable path (files w) = Some \<lparr>data = SerializeStoredToken before @ [CHR 0x0A], on_card = True\<rparr>"
    using stored by (simp add: recoverable_def)
  have "commits path (Some \<lparr>data = SerializeStoredToken after @ [CHR 0x0A], on_card = True\<rparr>) w (wr_ok wr) w'"
    using one_piece.WriteStaged_commits [OF wr [unfolded WriteAtomically_def] assms(3)] assms(4) by simp
  then have "recoverable path fs \<in> {recoverable path (files w),
      Some \<lparr>data = SerializeStoredToken after @ [CHR 0x0A], on_card = True\<rparr>}"
    using leaves_seen at by (auto simp: commits_def)
  then have "recoverable path (cut torn fs) \<in> {recoverable path (files w),
      Some \<lparr>data = SerializeStoredToken after @ [CHR 0x0A], on_card = True\<rparr>}"
    using old recoverable_cut(1) [of path fs _ torn] by auto
  then show ?thesis
    using LoadToken_recoverable [of "after_cut torn fs" before path] LoadToken_recoverable [of "after_cut torn fs" after path]
      old assms(1, 2) by (auto simp: after_cut_def)
qed

text \<open>The line a log keeps of a stored token does not depend on the token: two credentials of one
  length are told apart by nothing in it.\<close>

theorem description_hides_the_token:
  assumes "length a = length b"
  shows "DescribeStoredToken (t\<lparr>access_token := a\<rparr>) = DescribeStoredToken (t\<lparr>access_token := b\<rparr>)"
  using assms by (auto simp: DescribeStoredToken_def)

section \<open>Witnesses\<close>

definition sample_grant :: bytes where
  "sample_grant = render (VObject [(''access_token'', VString ''rmm_1''), (''device_id'', VString ''d''),
     (''scopes'', VArray [VString ''saves.read'']), (''expires_at'', VNull)])"

definition sample_token :: StoredToken where
  "sample_token = \<lparr>server_url = ''http://romm'', access_token = ''rmm_1'', device_id = ''d'',
     scopes = [''saves.read''], expires_at = None\<rparr>"

lemma sample_grant_parses: "parsed_ok (ParseDeviceTokenResponse sample_grant) \<and>
    StoredTokenFrom ''http://romm'' (parsed_value (ParseDeviceTokenResponse sample_grant)) = sample_token"
  by code_simp

definition paired_card :: Card where
  "paired_card = sample_card\<lparr>files := [''/a'' \<mapsto>
     \<lparr>data = SerializeStoredToken sample_token @ [CHR 0x0A], on_card = True\<rparr>]\<rparr>"

theorem grant_survives_the_card_witness:
  "fst (LoadToken ''/a'' (snd (SaveToken ''/a'' sample_token (sample_card\<lparr>answers := []\<rparr>)))) =
     \<lparr>lt_value = sample_token, lt_error = StoreError_kNone, lt_message = []\<rparr>"
  using grant_survives_the_card [OF conjunct1 [OF sample_grant_parses] _ sample_path(1) _
      conjunct2 [OF sample_grant_parses, symmetric] surjective_pairing, of "sample_card\<lparr>answers := []\<rparr>"]
  by (simp add: Usable_def)

theorem repairing_keeps_a_token_witness:
  "fst (LoadToken ''/a'' (after_cut (\<lambda>_ _. ''torn'')
      (hd (seen (snd (SaveToken ''/a'' (sample_token\<lparr>access_token := ''rmm_2''\<rparr>) paired_card)))))) \<in>
    {\<lparr>lt_value = sample_token, lt_error = StoreError_kNone, lt_message = []\<rparr>,
     \<lparr>lt_value = sample_token\<lparr>access_token := ''rmm_2''\<rparr>, lt_error = StoreError_kNone, lt_message = []\<rparr>}"
proof (rule repairing_keeps_a_token [OF _ _ sample_path(1) _ _ surjective_pairing])
  have "seen (snd (SaveToken ''/a'' (sample_token\<lparr>access_token := ''rmm_2''\<rparr>) paired_card)) = [] \<longleftrightarrow> False"
    by code_simp
  then show "hd (seen (snd (SaveToken ''/a'' (sample_token\<lparr>access_token := ''rmm_2''\<rparr>) paired_card))) \<in>
    set (seen (snd (SaveToken ''/a'' (sample_token\<lparr>access_token := ''rmm_2''\<rparr>) paired_card)))" by simp
qed (simp_all add: sample_token_def paired_card_def sample_card_def can_be_read_def Usable_def)

theorem description_hides_the_token_witness:
  "DescribeStoredToken (sample_token\<lparr>access_token := ''rmm_1''\<rparr>) =
     DescribeStoredToken (sample_token\<lparr>access_token := ''rmm_2''\<rparr>)"
  by (rule description_hides_the_token) simp

end
