(* ===== verification/SyncWire.thy ===== *)
theory SyncWire
  imports Timestamps TokenStore
begin

text \<open>
  \<open>core/src/sync.cpp\<close> and the types of \<open>sync.hpp\<close>: what a tick reports of a save, the checks it has
  to pass, and the negotiation request. \<open>null\<close> and an absent field are \<open>None\<close>.
\<close>

section \<open>Actions, reasons and operations\<close>

datatype Action = kUpload | kDownload | kConflict | kNoOp | kDelete

datatype Reason = kUnrecognized | kClientOnly | kClientNewerNoHistory | kClientNewer | kServerOnly
  | kServerNewerNoHistory | kServerNewer | kServerChangedClientMissing | kBothChanged
  | kSameTimestampDifferentContent | kContentIdentical | kNoChanges | kAppearIdentical | kUntracked
  | kDeletedOnServer | kHeldSinceRemoval

record ClientSaveState =
  cs_rom_id :: int
  cs_file_name :: bytes
  cs_slot :: "bytes option"
  cs_emulator :: "bytes option"
  cs_content_hash :: "bytes option"
  cs_updated_at :: Timestamp
  cs_file_size_bytes :: int

record SyncOperation =
  op_action :: Action
  op_known_action :: bool
  op_action_text :: bytes
  op_rom_id :: int
  op_save_id :: "int option"
  op_file_name :: bytes
  op_slot :: "bytes option"
  op_emulator :: "bytes option"
  op_reason :: Reason
  op_reason_text :: bytes
  op_server_updated_at :: "bytes option"
  op_server_content_hash :: "bytes option"

section \<open>Names and digests\<close>

text \<open>\<open>rfind\<close>: the index of the last occurrence.\<close>

definition rfind :: "char \<Rightarrow> bytes \<Rightarrow> nat option" where
  "rfind c s =
     (if c \<in> set s then Some (length s - 1 - length (takeWhile (\<lambda>x. x \<noteq> c) (rev s))) else None)"

definition ExtensionOf :: "bytes \<Rightarrow> bytes" where
  "ExtensionOf name =
     (case rfind (CHR ''.'') name of None \<Rightarrow> [] | Some dot \<Rightarrow> if dot = 0 then [] else drop dot name)"

definition kContentHashDigits :: nat where "kContentHashDigits = 32"

definition LowercaseHex :: "bytes \<Rightarrow> bool" where
  "LowercaseHex v \<longleftrightarrow> list_all (\<lambda>c. CHR ''0'' \<le> c \<and> c \<le> CHR ''9'' \<or> CHR ''a'' \<le> c \<and> c \<le> CHR ''f'') v"

definition IsContentHash :: "bytes \<Rightarrow> bool" where
  "IsContentHash v \<longleftrightarrow> length v = kContentHashDigits \<and> LowercaseHex v"

definition IsSingleFileName :: "bytes \<Rightarrow> bool" where
  "IsSingleFileName v \<longleftrightarrow> CHR ''/'' \<notin> set v \<and> v \<noteq> ''.'' \<and> v \<noteq> ''..''"

section \<open>What a save has to be\<close>

definition Printable :: "bytes \<Rightarrow> bool" where
  "Printable v \<longleftrightarrow> list_all (\<lambda>c. \<not> byte c < 0x20 \<and> c \<noteq> CHR 0x7F) v"

definition FieldError :: "bytes \<Rightarrow> bytes \<Rightarrow> Error" where
  "FieldError f msg = \<lparr>offset = 0, field = f, message = msg\<rparr>"

text \<open>An early return of the error a check found, or the checks after it.\<close>

definition or_else :: "Error \<Rightarrow> Error \<Rightarrow> Error" where
  "or_else e rest = (if error_ok e then rest else e)"

definition ValidateNullable :: "bytes option \<Rightarrow> bytes \<Rightarrow> Error" where
  "ValidateNullable v f =
     (case v of None \<Rightarrow> no_error
      | Some s \<Rightarrow>
        if s = [] then FieldError f ''present but empty; send null rather than a blank value''
        else if \<not> Printable s then FieldError f ''contains a control character''
        else no_error)"

definition ValidateHash :: "bytes \<Rightarrow> Error" where
  "ValidateHash hash =
     (if length hash \<noteq> kContentHashDigits
      then FieldError ''content_hash''
        (if length hash = 40 then ''is 40 digits, which is a SHA1; saves are compared on MD5''
         else ''must be '' @ to_string (int kContentHashDigits) @ '' hex digits (MD5), got '' @
           to_string (int (length hash)))
      else if \<not> LowercaseHex hash
      then FieldError ''content_hash''
        ''must be lowercase hex; the server compares the digest it stored, and stores it lowercase''
      else no_error)"

definition Validate :: "ClientSaveState \<Rightarrow> Error" where
  "Validate save =
     (if cs_rom_id save \<le> 0
      then FieldError ''rom_id'' ''must be a positive RomM rom id; this save matched no rom''
      else if cs_file_name save = [] then FieldError ''file_name'' ''missing''
      else if \<not> Printable (cs_file_name save)
      then FieldError ''file_name'' ''contains a control character''
      else if \<not> IsSingleFileName (cs_file_name save)
      then FieldError ''file_name'' ''is a path, not a file name; the server joins it into one''
      else or_else (ValidateNullable (cs_slot save) ''slot'')
       (or_else (ValidateNullable (cs_emulator save) ''emulator'')
       (if cs_emulator save \<noteq> None \<and> \<not> IsSingleFileName (the (cs_emulator save))
        then FieldError ''emulator'' ''is a path segment on the server; it may not name a directory''
        else or_else (ValidateNullable (cs_content_hash save) ''content_hash'')
         (or_else (case cs_content_hash save of None \<Rightarrow> no_error | Some hash \<Rightarrow> ValidateHash hash)
         (if UnixSeconds (cs_updated_at save) < kMinTimestampSeconds
          then FieldError ''updated_at''
            ''is at or before the Unix epoch, which is an unset clock rather than an mtime''
          else if UnixSeconds (cs_updated_at save) > kMaxTimestampSeconds
          then FieldError ''updated_at'' ''is past 9999-12-31, which no timestamp RomM can read''
          else if cs_file_size_bytes save < 0 then FieldError ''file_size_bytes'' ''is negative''
          else no_error)))))"

section \<open>The negotiation request\<close>

definition kMaxNegotiateRomIds :: nat where "kMaxNegotiateRomIds = 500"

record Encoded =
  enc_body :: bytes
  enc_error :: Error

definition key_text :: "bytes \<Rightarrow> bytes" where
  "key_text key = CHR 0x22 # key @ [CHR 0x22, CHR '':'']"

definition AppendMember :: "bytes \<Rightarrow> bytes option \<Rightarrow> bytes" where
  "AppendMember key v = '','' @ key_text key @ (case v of None \<Rightarrow> ''null'' | Some s \<Rightarrow> Quote s)"

text \<open>A loop that puts a comma before every item but the first.\<close>

definition comma_separated :: "bytes list \<Rightarrow> bytes" where
  "comma_separated items =
     (case items of [] \<Rightarrow> [] | i # is \<Rightarrow> i @ concat (map (\<lambda>w. CHR '','' # w) is))"

definition save_text :: "ClientSaveState \<Rightarrow> bytes" where
  "save_text save =
     ''{'' @ key_text ''rom_id'' @ to_string (cs_rom_id save) @
     '','' @ key_text ''file_name'' @ Quote (cs_file_name save) @
     AppendMember ''slot'' (cs_slot save) @ AppendMember ''emulator'' (cs_emulator save) @
     AppendMember ''content_hash'' (cs_content_hash save) @
     '','' @ key_text ''updated_at'' @ Quote (FormatTimestamp (cs_updated_at save)) @
     '','' @ key_text ''file_size_bytes'' @ to_string (cs_file_size_bytes save) @ ''}''"

definition negotiate_body ::
  "bytes option \<Rightarrow> ClientSaveState list \<Rightarrow> int list option \<Rightarrow> bytes list option \<Rightarrow> bool \<Rightarrow> bytes" where
  "negotiate_body device saves rom_ids emulators restore_unlisted =
     ''{'' @ key_text ''device_id'' @ (case device of None \<Rightarrow> ''null'' | Some d \<Rightarrow> Quote d) @
     '','' @ key_text ''saves'' @ ''['' @ comma_separated (map save_text saves) @ '']'' @
     (case rom_ids of None \<Rightarrow> []
      | Some ids \<Rightarrow> '','' @ key_text ''rom_ids'' @ ''['' @ comma_separated (map to_string ids) @ '']'') @
     (case emulators of None \<Rightarrow> []
      | Some es \<Rightarrow> '','' @ key_text ''emulators'' @ QuoteArray es) @
     (if restore_unlisted then '','' @ key_text ''restore_unlisted'' @ ''true'' else []) @ ''}''"

fun first_invalid :: "nat \<Rightarrow> ClientSaveState list \<Rightarrow> Error" where
  "first_invalid index [] = no_error"
| "first_invalid index (save # saves) =
     (let e = Validate save in
      if \<not> error_ok e
      then e\<lparr>field := ''saves['' @ to_string (int index) @ ''].'' @ field e\<rparr>
      else first_invalid (index + 1) saves)"

definition EncodeNegotiateRequest ::
  "bytes option \<Rightarrow> ClientSaveState list \<Rightarrow> int list option \<Rightarrow> bytes list option \<Rightarrow> bool \<Rightarrow> Encoded" where
  "EncodeNegotiateRequest device saves rom_ids emulators restore_unlisted =
     (let e = or_else (ValidateNullable device ''device_id'')
          (or_else (case rom_ids of None \<Rightarrow> no_error
            | Some ids \<Rightarrow>
              if length ids > kMaxNegotiateRomIds
              then FieldError ''rom_ids'' (''more than '' @ to_string (int kMaxNegotiateRomIds) @
                '' roms in one negotiation'')
              else if list_ex (\<lambda>i. i \<le> 0) ids then FieldError ''rom_ids'' ''a rom id is not positive''
              else no_error)
          (or_else (case emulators of None \<Rightarrow> no_error
            | Some es \<Rightarrow>
              if list_ex (\<lambda>e. e = []) es then FieldError ''emulators'' ''an emulator id is empty''
              else no_error)
          (first_invalid 0 saves)))
      in if \<not> error_ok e then \<lparr>enc_body = [], enc_error = e\<rparr>
         else \<lparr>enc_body = negotiate_body device saves rom_ids emulators restore_unlisted,
               enc_error = no_error\<rparr>)"

section \<open>What the request says\<close>

definition nullable :: "bytes option \<Rightarrow> Value" where
  "nullable v = (case v of None \<Rightarrow> VNull | Some s \<Rightarrow> VString s)"

definition save_document :: "ClientSaveState \<Rightarrow> Value" where
  "save_document save = VObject
     [(''rom_id'', VNumber (Some (cs_rom_id save))), (''file_name'', VString (cs_file_name save)),
      (''slot'', nullable (cs_slot save)), (''emulator'', nullable (cs_emulator save)),
      (''content_hash'', nullable (cs_content_hash save)),
      (''updated_at'', VString (FormatTimestamp (cs_updated_at save))),
      (''file_size_bytes'', VNumber (Some (cs_file_size_bytes save)))]"

definition negotiate_document ::
  "bytes option \<Rightarrow> ClientSaveState list \<Rightarrow> int list option \<Rightarrow> bytes list option \<Rightarrow> bool \<Rightarrow> Value" where
  "negotiate_document device saves rom_ids emulators restore_unlisted = VObject
     ([(''device_id'', nullable device), (''saves'', VArray (map save_document saves))] @
      (case rom_ids of None \<Rightarrow> []
       | Some ids \<Rightarrow> [(''rom_ids'', VArray (map (\<lambda>i. VNumber (Some i)) ids))]) @
      (case emulators of None \<Rightarrow> [] | Some es \<Rightarrow> [(''emulators'', VArray (map VString es))]) @
      (if restore_unlisted then [(''restore_unlisted'', VBool True)] else []))"

lemma key_text_Quote: "list_all (\<lambda>c. quote_byte c = [c]) k \<Longrightarrow> key_text k = Quote k @ [CHR '':'']"
proof -
  assume "list_all (\<lambda>c. quote_byte c = [c]) k"
  then have "concat (map quote_byte k) = k" by (induction k) simp_all
  then show ?thesis by (simp add: key_text_def Quote_def)
qed

lemma keys [simp]:
  "key_text ''rom_id'' = Quote ''rom_id'' @ '':''" "key_text ''file_name'' = Quote ''file_name'' @ '':''"
  "key_text ''slot'' = Quote ''slot'' @ '':''" "key_text ''emulator'' = Quote ''emulator'' @ '':''"
  "key_text ''content_hash'' = Quote ''content_hash'' @ '':''"
  "key_text ''updated_at'' = Quote ''updated_at'' @ '':''"
  "key_text ''file_size_bytes'' = Quote ''file_size_bytes'' @ '':''"
  "key_text ''device_id'' = Quote ''device_id'' @ '':''" "key_text ''saves'' = Quote ''saves'' @ '':''"
  "key_text ''rom_ids'' = Quote ''rom_ids'' @ '':''" "key_text ''emulators'' = Quote ''emulators'' @ '':''"
  "key_text ''restore_unlisted'' = Quote ''restore_unlisted'' @ '':''"
  by (rule key_text_Quote, code_simp)+

lemma render_nullable: "render (nullable v) = (case v of None \<Rightarrow> ''null'' | Some s \<Rightarrow> Quote s)"
  by (simp add: nullable_def split: option.split)

lemma save_text_render: "save_text save = render (save_document save)"
  by (simp add: save_text_def save_document_def AppendMember_def render_nullable)

lemma comma_separated_render: "''['' @ comma_separated (map f xs) @ '']'' = render (VArray (map g xs))"
  if "\<And>x. x \<in> set xs \<Longrightarrow> f x = render (g x)"
  using that by (cases xs) (auto simp: comma_separated_def comp_def intro!: arg_cong [where f = concat])

lemma negotiate_body_render:
  "negotiate_body device saves rom_ids emulators restore_unlisted =
     render (negotiate_document device saves rom_ids emulators restore_unlisted)"
proof -
  have a: "''['' @ comma_separated (map save_text saves) @ '']'' = render (VArray (map save_document saves))"
    by (rule comma_separated_render) (rule save_text_render)
  have b: "''['' @ comma_separated (map to_string ids) @ '']'' =
      render (VArray (map (\<lambda>i. VNumber (Some i)) ids))" for ids
    by (rule comma_separated_render) simp
  show ?thesis
    using a b by (simp add: negotiate_body_def negotiate_document_def render_nullable QuoteArray_render
        split: option.split)
qed

lemma or_else_ok [simp]: "error_ok (or_else e r) \<longleftrightarrow> error_ok e \<and> error_ok r"
  by (simp add: or_else_def)

lemma FieldError_ok [simp]: "error_ok (FieldError f (c # msg)) = False"
  by (simp add: FieldError_def error_ok_def)

lemma first_invalid_ok: "error_ok (first_invalid i saves) \<Longrightarrow> save \<in> set saves \<Longrightarrow> error_ok (Validate save)"
  by (induction i saves rule: first_invalid.induct)
    (auto simp: Let_def error_ok_def split: if_splits)

lemma Validate_times:
  "error_ok (Validate save) \<Longrightarrow> kMinTimestampSeconds \<le> UnixSeconds (cs_updated_at save) \<and>
     UnixSeconds (cs_updated_at save) \<le> kMaxTimestampSeconds \<and>
     cs_rom_id save > 0 \<and> IsSingleFileName (cs_file_name save) \<and>
     (\<forall>h. cs_content_hash save = Some h \<longrightarrow> IsContentHash h)"
  by (auto simp: Validate_def ValidateHash_def IsContentHash_def split: if_splits)

text \<open>C39: A negotiation request that is sent says what is held: its body is one JSON document RomM can
  parse, with the ids, names, slots, hashes and sizes of the saves handed in and nothing else, every
  mtime spelled so that it reads back as its own second, every name a single path component and every
  hash an MD5.\<close>

theorem negotiate_says_what_is_held:
  assumes enc: "EncodeNegotiateRequest device saves rom_ids emulators restore = enc"
    and ok: "error_ok (enc_error enc)"
    and ids: "list_all in_int64 (case rom_ids of None \<Rightarrow> [] | Some ids \<Rightarrow> ids)"
    and sizes: "list_all (\<lambda>s. in_int64 (cs_rom_id s) \<and> in_int64 (cs_file_size_bytes s)) saves"
  shows "Parse (enc_body enc) =
      \<lparr>pr_value = negotiate_document device saves rom_ids emulators restore, pr_error = no_error\<rparr> \<and>
    list_all (\<lambda>s. ParseTimestamp (FormatTimestamp (cs_updated_at s)) =
        Some (UnixSeconds (cs_updated_at s) * ticks_per_second) \<and>
      IsSingleFileName (cs_file_name s) \<and> (\<forall>h. cs_content_hash s = Some h \<longrightarrow> IsContentHash h)) saves"
proof -
  have body: "enc_body enc = negotiate_body device saves rom_ids emulators restore"
    and "error_ok (first_invalid 0 saves)"
    using enc ok by (auto simp: EncodeNegotiateRequest_def Let_def split: if_splits)
  then have valid: "error_ok (Validate s)" if "s \<in> set saves" for s
    using that first_invalid_ok by blast
  have "wf_at 0 (negotiate_document device saves rom_ids emulators restore)"
    using ids sizes by (auto simp: negotiate_document_def save_document_def nullable_def kMaxDepth_def
        list_all_iff split: option.splits)
  moreover have "exact (negotiate_document device saves rom_ids emulators restore)"
    by (auto simp: negotiate_document_def save_document_def nullable_def split: option.splits if_splits)
  ultimately show ?thesis
    using Validate_times [OF valid] timestamp_reads_back
    by (simp add: body negotiate_body_render render_parses list_all_iff)
qed

definition sample_save :: ClientSaveState where
  "sample_save = \<lparr>cs_rom_id = 7, cs_file_name = ''a.srm'', cs_slot = Some ''autosave'',
     cs_emulator = None, cs_content_hash = Some ''d41d8cd98f00b204e9800998ecf8427e'',
     cs_updated_at = 1788521787900000000, cs_file_size_bytes = 512\<rparr>"

theorem negotiate_says_what_is_held_witness:
  "Parse (enc_body (EncodeNegotiateRequest (Some ''d'') [sample_save] (Some [7]) None True)) =
     \<lparr>pr_value = negotiate_document (Some ''d'') [sample_save] (Some [7]) None True, pr_error = no_error\<rparr>"
  by (rule negotiate_says_what_is_held [THEN conjunct1, OF refl]) (code_simp, simp add: in_int64_def,
      simp add: in_int64_def sample_save_def)

end
