(* ===== verification/Client.thy ===== *)
theory Client
  imports Http Backoff
begin

text \<open>
  What the engine calls and does not implement: the HTTP transport (\<open>http::HttpClient\<close>), the card's
  paths (\<open>fs::FileSystem\<close>), clocks, cancellation and waiting. They are functions on the world, which
  is the card and whatever else there is; each may answer anything and change anything, except where
  a theorem says what it relies on.
\<close>

section \<open>Requests\<close>

datatype Method = Method_kGet | Method_kHead | Method_kPost | Method_kPut | Method_kDelete

record FormPart =
  part_name :: bytes
  part_value :: bytes
  part_file_path :: bytes
  part_file_name :: bytes
  part_content_type :: bytes

record Request =
  req_method :: Method
  req_url :: bytes
  req_headers :: "Header list"
  req_body :: bytes
  req_form :: "FormPart list"
  req_range_start :: nat
  req_connect_timeout :: int
  req_timeout :: int
  req_stall_timeout :: int

definition kDefaultConnectTimeout :: int where "kDefaultConnectTimeout = 10000"
definition kDefaultTimeout :: int where "kDefaultTimeout = 30000"
definition kDefaultStallTimeout :: int where "kDefaultStallTimeout = 20000"

definition new_Request :: "Method \<Rightarrow> bytes \<Rightarrow> Request" where
  "new_Request m url = \<lparr>req_method = m, req_url = url, req_headers = [], req_body = [], req_form = [],
     req_range_start = 0, req_connect_timeout = kDefaultConnectTimeout, req_timeout = kDefaultTimeout, req_stall_timeout = kDefaultStallTimeout\<rparr>"

record DownloadTarget =
  dt_path :: bytes
  dt_resume :: bool
  dt_expected_size :: nat

section \<open>The world\<close>

record 'n World =
  card :: Card
  net :: 'n

datatype ListError = ListError_kNone | ListError_kMissing | ListError_kNotADirectory
  | ListError_kUnreadable | ListError_kTooManyEntries

record Entry =
  en_name :: bytes
  en_is_directory :: bool
  en_size_bytes :: int
  en_modified_unix :: int

record Listing =
  ls_entries :: "Entry list"
  ls_error :: ListError
  ls_message :: bytes

definition no_listing :: Listing where
  "no_listing = \<lparr>ls_entries = [], ls_error = ListError_kNone, ls_message = []\<rparr>"

datatype MakeDirError = MakeDirError_kNone | MakeDirError_kNotOnThisCard | MakeDirError_kNotADirectory
  | MakeDirError_kUnwritable

record 'n Host =
  Send :: "Request \<Rightarrow> 'n World \<Rightarrow> HttpResult \<times> 'n World"
  Download :: "Request \<Rightarrow> DownloadTarget \<Rightarrow> 'n World \<Rightarrow> HttpResult \<times> 'n World"
  canceled :: "'n World \<Rightarrow> bool \<times> 'n World"
  wait_ms :: "int \<Rightarrow> 'n World \<Rightarrow> 'n World"
  roll :: "'n World \<Rightarrow> roll_input \<times> 'n World"
  now :: "'n World \<Rightarrow> int \<times> 'n World"
  Resolve :: "bytes \<Rightarrow> bytes"
  ListDirectory :: "bytes \<Rightarrow> 'n World \<Rightarrow> Listing"
  CreateDirectory :: "bytes \<Rightarrow> 'n World \<Rightarrow> (MakeDirError \<times> bytes) \<times> 'n World"
  RemoveEmptyDirectory :: "bytes \<Rightarrow> 'n World \<Rightarrow> 'n World"

text \<open>\<open>canceled\<close> is \<open>options.cancel != nullptr && options.cancel->canceled()\<close>; \<open>wait_ms\<close> is
  \<open>options.wait\<close> or the sleep in its place; \<open>roll\<close> what the injected random source or the clock
  answers; \<open>now\<close> the tick of the clock the code reads, as a time point.\<close>

text \<open>A step on the card alone.\<close>

definition on_card_do :: "(Card \<Rightarrow> 'a \<times> Card) \<Rightarrow> 'n World \<Rightarrow> 'a \<times> 'n World" where
  "on_card_do f w = (let (a, c) = f (card w) in (a, w\<lparr>card := c\<rparr>))"

lemma on_card_do_net: "on_card_do f w = (a, w') \<Longrightarrow> net w' = net w \<and> f (card w) = (a, card w')"
  by (auto simp: on_card_do_def split: prod.splits)

end
