(* ===== verification/Retry.thy ===== *)
theory Retry
  imports Client Backoff
begin

text \<open>
  The loop every call that retries is written as: send, classify, wait out the backoff, send again. What
  \<open>sync_negotiate.cpp\<close> and \<open>sync_complete.cpp\<close> share of it, as an interface.
\<close>

text \<open>A transport that answers what is on a list, while nobody cancels.\<close>

definition scripted :: "'n Host \<Rightarrow> ('n \<Rightarrow> HttpResult list) \<Rightarrow> bool" where
  "scripted host script \<longleftrightarrow>
     (\<forall>r w. fst (Send host r w) = hd (script (net w)) \<and>
        script (net (snd (Send host r w))) = tl (script (net w))) \<and>
     (\<forall>w. \<not> fst (canceled host w) \<and> script (net (snd (canceled host w))) = script (net w)) \<and>
     (\<forall>w. script (net (snd (roll host w))) = script (net w)) \<and>
     (\<forall>d w. script (net (wait_ms host d w)) = script (net w))"

lemma scripted_steps:
  assumes "scripted host script"
  shows "Send host r w = (x, w1) \<Longrightarrow> x = hd (script (net w)) \<and> script (net w1) = tl (script (net w))"
    "canceled host w = (stop, w1) \<Longrightarrow> \<not> stop \<and> script (net w1) = script (net w)"
    "roll host w = (i, w1) \<Longrightarrow> script (net w1) = script (net w)"
    "script (net (wait_ms host d w)) = script (net w)"
  using assms unfolding scripted_def by (metis fst_conv snd_conv)+

text \<open>A transport that leaves the card alone.\<close>

definition off_card :: "'n Host \<Rightarrow> bool" where
  "off_card host \<longleftrightarrow> (\<forall>r w. card (snd (Send host r w)) = card w) \<and> (\<forall>w. card (snd (canceled host w)) = card w) \<and>
     (\<forall>w. card (snd (roll host w)) = card w) \<and> (\<forall>d w. card (wait_ms host d w) = card w)"

lemma off_card_steps:
  assumes "off_card host"
  shows "Send host r w = (x, w1) \<Longrightarrow> card w1 = card w" "canceled host w = (stop, w1) \<Longrightarrow> card w1 = card w"
    "roll host w = (i, w1) \<Longrightarrow> card w1 = card w" "card (wait_ms host d w) = card w"
  using assms unfolding off_card_def by (metis snd_conv)+

locale retried_call =
  fixes loop :: "'n Host \<Rightarrow> 'c \<Rightarrow> Request \<Rightarrow> int \<Rightarrow> int \<Rightarrow> int \<Rightarrow> Backoff \<Rightarrow> 'n World \<Rightarrow> 'o \<times> 'n World"
    and outcome_of :: "'c \<Rightarrow> int \<Rightarrow> int \<Rightarrow> HttpResult \<Rightarrow> 'o"
    and again :: "'o \<Rightarrow> bool"
    and stopped :: "int \<Rightarrow> int \<Rightarrow> 'o \<Rightarrow> 'o"
  assumes loop_eq:
    "loop host c request attempts attempt waited backoff w =
       (let (result, w) = Send host request w;
            outcome = outcome_of c attempt waited result
        in if \<not> again outcome \<or> attempt \<ge> attempts then (outcome, w)
           else
             let (stop, w) = canceled host w in
             if stop then (stopped attempt waited outcome, w)
             else
               let (i, w) = roll host w;
                   (delay, backoff) = WaitToRetry i backoff;
                   w = wait_ms host delay w
               in loop host c request attempts (attempt + 1) (waited + delay) backoff w)"
begin

lemma one_send:
  assumes "Send host request w = (x, w1)" "\<not> again (outcome_of c attempt waited x) \<or> attempt \<ge> attempts"
  shows "loop host c request attempts attempt waited backoff w = (outcome_of c attempt waited x, w1)"
  using assms by (subst loop_eq) simp

text \<open>Failures worth another try, fewer than the attempts allowed, are gone through to the first other
  answer.\<close>

lemma reaches:
  assumes host: "scripted host script"
  shows "script (net w) = failures @ answer # rest \<Longrightarrow>
    \<forall>f \<in> set failures. \<forall>a v. again (outcome_of c a v f) \<Longrightarrow>
    \<forall>a v. \<not> again (outcome_of c a v answer) \<Longrightarrow> attempt + int (length failures) \<le> attempts \<Longrightarrow>
    loop host c request attempts attempt waited backoff w = (r, w') \<Longrightarrow>
    (\<exists>v. r = outcome_of c (attempt + int (length failures)) v answer) \<and> script (net w') = rest"
proof (induction failures arbitrary: attempt waited backoff w)
  case Nil
  obtain x w1 where s: "Send host request w = (x, w1)" by fastforce
  with scripted_steps(1) [OF host s] Nil.prems one_send [OF s, of c attempt waited attempts backoff]
  show ?case by auto
next
  case (Cons f failures)
  obtain x w1 where s: "Send host request w = (x, w1)" by fastforce
  obtain stop w2 where c: "canceled host w1 = (stop, w2)" by fastforce
  obtain i w3 where i: "roll host w2 = (i, w3)" by fastforce
  obtain delay backoff' where d: "WaitToRetry i backoff = (delay, backoff')" by fastforce
  note steps = scripted_steps(1) [OF host s] scripted_steps(2) [OF host c] scripted_steps(3) [OF host i]
    scripted_steps(4) [OF host, of delay w3]
  have "loop host c request attempts (attempt + 1) (waited + delay) backoff' (wait_ms host delay w3) = (r, w')"
    using Cons.prems(1, 2, 4, 5) s c i d steps by (subst (asm) loop_eq) simp
  moreover have "script (net (wait_ms host delay w3)) = failures @ answer # rest"
    using steps Cons.prems(1) by simp
  ultimately have "(\<exists>v. r = outcome_of c (attempt + 1 + int (length failures)) v answer) \<and> script (net w') = rest"
    using Cons.prems(2, 3, 4) by (intro Cons.IH [of "wait_ms host delay w3" "attempt + 1"]) auto
  then show ?case by (simp add: ac_simps)
qed

text \<open>No more requests go out than are allowed, and every outcome is one an answer came to or the word of
  a caller who stopped.\<close>

lemma attempts_bounded:
  assumes "1 \<le> attempt" "attempt \<le> attempts"
    "loop host c request attempts attempt waited backoff w = (r, w')"
  shows "\<exists>a v. attempt \<le> a \<and> a \<le> attempts \<and> (\<exists>x. r = outcome_of c a v x \<or> r = stopped a v (outcome_of c a v x))"
  using assms
proof (induction "nat (attempts - attempt)" arbitrary: attempt waited backoff w)
  case (0 attempt waited backoff w)
  obtain x w1 where s: "Send host request w = (x, w1)" by fastforce
  with 0 one_send [OF s, of c attempt waited attempts backoff] show ?case
    by (intro exI [of _ attempt] exI [of _ waited]) auto
next
  case (Suc n attempt waited backoff w)
  have left: "\<not> attempts \<le> attempt" using Suc.hyps(2) by simp
  obtain x w1 where s: "Send host request w = (x, w1)" by fastforce
  obtain stop w2 where c: "canceled host w1 = (stop, w2)" by fastforce
  obtain i w3 where i: "roll host w2 = (i, w3)" by fastforce
  obtain delay backoff' where d: "WaitToRetry i backoff = (delay, backoff')" by fastforce
  show ?case
  proof (cases "again (outcome_of c attempt waited x) \<and> \<not> stop")
    case True
    have "loop host c request attempts (attempt + 1) (waited + delay) backoff' (wait_ms host delay w3) = (r, w')"
      using Suc.prems(3) left s c i d True by (subst (asm) loop_eq) simp
    then obtain a v where "attempt + 1 \<le> a \<and> a \<le> attempts \<and> (\<exists>x. r = outcome_of c a v x \<or> r = stopped a v (outcome_of c a v x))"
      using Suc.hyps(1) [of "attempt + 1"] Suc.hyps(2) Suc.prems(1, 2) by fastforce
    then show ?thesis by (intro exI [of _ a] exI [of _ v]) auto
  next
    case False
    then have "r = outcome_of c attempt waited x \<or> r = stopped attempt waited (outcome_of c attempt waited x)"
      using Suc.prems(3) left s c by (subst (asm) loop_eq) (auto simp: Let_def split: if_splits)
    with Suc.prems(2) show ?thesis by (intro exI [of _ attempt] exI [of _ waited]) auto
  qed
qed

lemma keeps_card:
  assumes host: "off_card host"
  shows "loop host c request attempts attempt waited backoff w = (r, w') \<Longrightarrow> card w' = card w"
proof (induction "nat (attempts - attempt)" arbitrary: attempt waited backoff w)
  case (0 attempt waited backoff w)
  obtain x w1 where s: "Send host request w = (x, w1)" by fastforce
  with 0 one_send [OF s, of c attempt waited attempts backoff] off_card_steps(1) [OF host s] show ?case by simp
next
  case (Suc n attempt waited backoff w)
  have left: "\<not> attempts \<le> attempt" using Suc.hyps(2) by simp
  obtain x w1 where s: "Send host request w = (x, w1)" by fastforce
  obtain stop w2 where c: "canceled host w1 = (stop, w2)" by fastforce
  obtain i w3 where i: "roll host w2 = (i, w3)" by fastforce
  obtain delay backoff' where d: "WaitToRetry i backoff = (delay, backoff')" by fastforce
  note steps = off_card_steps(1) [OF host s] off_card_steps(2) [OF host c] off_card_steps(3) [OF host i]
    off_card_steps(4) [OF host, of delay w3]
  show ?case
  proof (cases "again (outcome_of c attempt waited x) \<and> \<not> stop")
    case True
    have "loop host c request attempts (attempt + 1) (waited + delay) backoff' (wait_ms host delay w3) = (r, w')"
      using Suc.prems left s c i d True by (subst (asm) loop_eq) simp
    then show ?thesis using Suc.hyps(1) [of "attempt + 1"] Suc.hyps(2) steps by simp
  next
    case False
    then have "w' = w1 \<or> w' = w2"
      using Suc.prems left s c by (subst (asm) loop_eq) (auto simp: Let_def split: if_splits)
    with steps show ?thesis by auto
  qed
qed

end

end
