(* ===== verification/AuthGate.thy ===== *)
theory AuthGate
  imports Http TokenStore "HOL-Library.Sublist"
begin

text \<open>
  \<open>core/src/auth_gate.cpp\<close>: what a rejected call means over time. \<open>Gate\<close> counts the rejections of
  the calls that carried the token, and \<open>auth.json\<close> keeps its verdict over a reboot.
\<close>

section \<open>Answers and verdicts\<close>

datatype AuthAnswer = Answer_kAccepted | Answer_kRejected | Answer_kForbidden | Answer_kSilent

fun Answer_ToString :: "AuthAnswer \<Rightarrow> bytes" where
  "Answer_ToString Answer_kAccepted = ''accepted''"
| "Answer_ToString Answer_kRejected = ''rejected''"
| "Answer_ToString Answer_kForbidden = ''forbidden''"
| "Answer_ToString Answer_kSilent = ''silent''"

definition AnswerOf :: "HttpResult \<Rightarrow> AuthAnswer" where
  "AnswerOf result =
     (if \<not> http_ok result then Answer_kSilent
      else if status (response result) = 401 then Answer_kRejected
      else if status (response result) = 403 then Answer_kForbidden
      else if successful result then Answer_kAccepted
      else Answer_kSilent)"

datatype Block = Block_kNone | Block_kRevoked | Block_kScopeDenied

fun Block_ToString :: "Block \<Rightarrow> bytes" where
  "Block_ToString Block_kNone = ''none''"
| "Block_ToString Block_kRevoked = ''revoked''"
| "Block_ToString Block_kScopeDenied = ''scope_denied''"

fun Block_Describe :: "Block \<Rightarrow> bytes" where
  "Block_Describe Block_kNone = []"
| "Block_Describe Block_kRevoked =
     ''the server has stopped accepting this console's token; pair this console again''"
| "Block_Describe Block_kScopeDenied =
     ''this pairing was not granted the scopes it needs; pair this console again and approve them''"

section \<open>The gate\<close>

record GateConfig =
  max_consecutive_rejections :: int
  gate_backoff :: int
  gate_max_backoff :: int

definition default_GateConfig :: GateConfig where
  "default_GateConfig = \<lparr>max_consecutive_rejections = 3, gate_backoff = 30000, gate_max_backoff = 300000\<rparr>"

record Gate =
  gate_config :: GateConfig
  revocations :: int
  denials :: int
  block :: Block

definition make_Gate :: "GateConfig \<Rightarrow> Gate" where
  "make_Gate config = \<lparr>gate_config = config, revocations = 0, denials = 0, block = Block_kNone\<rparr>"

definition blocked :: "Gate \<Rightarrow> bool" where
  "blocked g \<longleftrightarrow> block g \<noteq> Block_kNone"

definition rejections :: "Gate \<Rightarrow> int" where
  "rejections g = revocations g + denials g"

definition Observe :: "AuthAnswer \<Rightarrow> Gate \<Rightarrow> Gate" where
  "Observe answer g =
     (if answer = Answer_kSilent then g
      else if answer = Answer_kAccepted then g\<lparr>revocations := 0, denials := 0\<rparr>
      else if blocked g then g
      else
        let g = (if answer = Answer_kRejected then g\<lparr>revocations := revocations g + 1\<rparr>
                 else g\<lparr>denials := denials g + 1\<rparr>)
        in if rejections g \<ge> max_consecutive_rejections (gate_config g)
           then g\<lparr>block := if revocations g \<ge> denials g then Block_kRevoked else Block_kScopeDenied\<rparr>
           else g)"

text \<open>The doubling loop, \<open>left\<close> turns of it.\<close>

fun backoff_loop :: "int \<Rightarrow> nat \<Rightarrow> int \<Rightarrow> int" where
  "backoff_loop cap 0 delay = delay"
| "backoff_loop cap (Suc left) delay =
     (if delay \<ge> cap then delay else backoff_loop cap left (delay + delay))"

definition Gate_backoff :: "Gate \<Rightarrow> int" where
  "Gate_backoff g =
     (let cap = gate_max_backoff (gate_config g) in
      if blocked g then cap
      else if rejections g \<le> 0 then 0
      else
        let delay = backoff_loop cap (nat (rejections g - 1)) (gate_backoff (gate_config g))
        in if delay < cap then delay else cap)"

definition Gate_Reset :: "Gate \<Rightarrow> Gate" where
  "Gate_Reset g = g\<lparr>revocations := 0, denials := 0, block := Block_kNone\<rparr>"

definition Restore :: "Block \<Rightarrow> Gate \<Rightarrow> Gate" where
  "Restore b g =
     (if b = Block_kNone then Gate_Reset g
      else
        let budget = max_consecutive_rejections (gate_config g) in
        g\<lparr>block := b, revocations := (if b = Block_kRevoked then budget else 0),
          denials := (if b = Block_kScopeDenied then budget else 0)\<rparr>)"

section \<open>The verdict on the card\<close>

definition kAuthFormatMagic :: bytes where "kAuthFormatMagic = ''rommsync-auth''"
definition kAuthFormatVersion :: int where "kAuthFormatVersion = 1"
definition kMaxAuthStateBytes :: nat where "kMaxAuthStateBytes = 1024"

definition SerializeBlock :: "Block \<Rightarrow> bytes" where
  "SerializeBlock b =
     CHR ''{'' # Quote ''format'' @ '':'' @ Quote kAuthFormatMagic @
     '','' @ Quote ''version'' @ '':'' @ to_string kAuthFormatVersion @
     '','' @ Quote ''block'' @ '':'' @ Quote (Block_ToString b) @ ''}''"

record LoadedBlock =
  lb_value :: Block
  diagnostic :: bytes

definition no_verdict :: "bytes \<Rightarrow> LoadedBlock" where
  "no_verdict why = \<lparr>lb_value = Block_kNone, diagnostic = why\<rparr>"

text \<open>\<open>ParseBlock\<close> past the JSON parse.\<close>

definition BlockOf :: "Value \<Rightarrow> LoadedBlock" where
  "BlockOf document =
     (let rd = make_Reader document ''auth state'';
          (format, rd) = Required_string ''format'' rd;
          (version, rd) = Required_int ''version'' rd;
          (b, rd) = Required_string ''block'' rd
      in
      if \<not> Reader_ok rd then no_verdict (''auth state: '' @ Describe (rd_error rd))
      else if into [] format \<noteq> kAuthFormatMagic \<or> into 0 version \<noteq> kAuthFormatVersion
      then no_verdict (''auth state: not a rommsync-auth v'' @ to_string kAuthFormatVersion @ '' file'')
      else if into [] b = Block_ToString Block_kRevoked then \<lparr>lb_value = Block_kRevoked, diagnostic = []\<rparr>
      else if into [] b = Block_ToString Block_kScopeDenied
      then \<lparr>lb_value = Block_kScopeDenied, diagnostic = []\<rparr>
      else no_verdict (''auth state: '' @ [CHR 0x22] @ into [] b @ [CHR 0x22] @
             '' is not a state this build knows''))"

definition ParseBlock :: "bytes \<Rightarrow> LoadedBlock" where
  "ParseBlock text =
     (let document = Parse text in
      if \<not> pr_ok document then no_verdict (''auth state: '' @ Describe (pr_error document))
      else BlockOf (pr_value document))"

definition LoadBlock :: "bytes \<Rightarrow> Card \<Rightarrow> LoadedBlock \<times> Card" where
  "LoadBlock path w =
     (let ((outcome, text), w) = ReadBounded path kMaxAuthStateBytes w;
          ((outcome, text), w) =
            (if outcome = BoundedRead_kMissing
             then ReadBounded (PreviousPathFor path) kMaxAuthStateBytes w
             else ((outcome, text), w))
      in
      if outcome = BoundedRead_kMissing then (no_verdict [], w)
      else if outcome \<noteq> BoundedRead_kOk
      then (no_verdict (path @ '': the stored auth state could not be read ('' @
              BoundedRead_ToString outcome @ ''); this console will find out by asking''), w)
      else (ParseBlock text, w))"

definition SaveBlock :: "bytes \<Rightarrow> Block \<Rightarrow> Card \<Rightarrow> StoreResult \<times> Card" where
  "SaveBlock path b w =
     (if b = Block_kNone
      then (\<lparr>sr_error = StoreError_kUnusableToken,
             sr_message = path @ '': there is no verdict to store; use ClearBlock to lift one''\<rparr>, w)
      else
        let (written, w) = WriteAtomically path (SerializeBlock b @ [CHR 0x0A]) w
        in (store_result written, w))"

definition ClearBlock :: "bytes \<Rightarrow> Card \<Rightarrow> bool \<times> Card" where
  "ClearBlock path w = Shred path w"

section \<open>When the pairing is given up on\<close>

definition is_rejection :: "AuthAnswer \<Rightarrow> bool" where
  "is_rejection a \<longleftrightarrow> a = Answer_kRejected \<or> a = Answer_kForbidden"

text \<open>What the exchanges said, the ones that said nothing left out.\<close>

definition spoken :: "AuthAnswer list \<Rightarrow> AuthAnswer list" where
  "spoken as = filter (\<lambda>a. a \<noteq> Answer_kSilent) as"

text \<open>The run a gate has counted.\<close>

definition counts :: "Gate \<Rightarrow> AuthAnswer list \<Rightarrow> bool" where
  "counts g run \<longleftrightarrow> list_all is_rejection run \<and>
     revocations g = int (length (filter (\<lambda>a. a = Answer_kRejected) run)) \<and>
     denials g = int (length (filter (\<lambda>a. a = Answer_kForbidden) run))"

lemma counts_length: "counts g run \<Longrightarrow> rejections g = int (length run)"
proof -
  assume c: "counts g run"
  have "length (filter (\<lambda>a. a = Answer_kRejected) as) + length (filter (\<lambda>a. a = Answer_kForbidden) as) = length as"
    if "list_all is_rejection as" for as
    using that by (induction as) (auto simp: is_rejection_def)
  with c show ?thesis by (auto simp: counts_def rejections_def simp flip: of_nat_add)
qed

lemma Observe_config [simp]: "gate_config (Observe a g) = gate_config g"
  by (simp add: Observe_def Let_def)

lemma Observe_blocked: "blocked g \<Longrightarrow> block (Observe a g) = block g"
  by (auto simp: Observe_def blocked_def)

lemma blocked_stays: "blocked g \<Longrightarrow> block (fold Observe as g) = block g"
  by (induction as arbitrary: g) (simp_all add: Observe_blocked, metis Observe_blocked blocked_def)

text \<open>A verdict's own sentence: the majority of the run, ties to revoked.\<close>

definition verdict :: "AuthAnswer list \<Rightarrow> Block" where
  "verdict run =
     (if length (filter (\<lambda>a. a = Answer_kRejected) run) \<ge> length (filter (\<lambda>a. a = Answer_kForbidden) run)
      then Block_kRevoked else Block_kScopeDenied)"

lemma Observe_rejection:
  assumes "counts g run" "\<not> blocked g" "is_rejection a"
  shows "counts (Observe a g) (run @ [a]) \<and>
    block (Observe a g) = (if int (length run) + 1 \<ge> max_consecutive_rejections (gate_config g)
      then verdict (run @ [a]) else Block_kNone)"
proof -
  have n: "rejections g = int (length run)" using assms(1) by (rule counts_length)
  from assms(3) consider "a = Answer_kRejected" | "a = Answer_kForbidden" by (auto simp: is_rejection_def)
  then show ?thesis
    using assms n
    by cases (auto simp: Observe_def counts_def is_rejection_def rejections_def verdict_def blocked_def)
qed

lemma rejections_window:
  assumes "list_all is_rejection zs" "zs \<noteq> []" "length run < length zs"
  shows "sublist zs (run @ Answer_kAccepted # as) \<longleftrightarrow> sublist zs as"
proof -
  have "\<not> sublist zs run" using assms(3) sublist_length_le by fastforce
  moreover have False if "zs = xs1 @ xs2" "suffix xs1 run" "prefix xs2 (Answer_kAccepted # as)" for xs1 xs2
  proof -
    have "length xs1 < length zs" using assms(3) suffix_length_le [OF that(2)] by simp
    then have "xs2 \<noteq> []" using that(1) by auto
    then have "Answer_kAccepted \<in> set zs" using that(1, 3) by (cases xs2) auto
    then show False using assms(1) by (auto simp: list_all_iff is_rejection_def)
  qed
  moreover have "sublist zs (Answer_kAccepted # as) \<longleftrightarrow> prefix zs (Answer_kAccepted # as) \<or> sublist zs as"
    by (rule sublist_Cons_right)
  moreover have "\<not> prefix zs (Answer_kAccepted # as)"
    using assms(1, 2) by (cases zs) (auto simp: is_rejection_def)
  ultimately show ?thesis by (auto simp: sublist_append)
qed

lemma blocked_window:
  assumes "counts g run" "\<not> blocked g" "int (length run) < max_consecutive_rejections (gate_config g)"
    "max_consecutive_rejections (gate_config g) = int n"
  shows "blocked (fold Observe as g) \<longleftrightarrow>
    (\<exists>zs. sublist zs (run @ spoken as) \<and> length zs = n \<and> list_all is_rejection zs)"
  using assms
proof (induction as arbitrary: g run)
  case Nil
  then have "\<not> sublist zs run" if "length zs = n" for zs using that sublist_length_le by fastforce
  with Nil show ?case by (auto simp: spoken_def)
next
  case (Cons a as)
  consider "a = Answer_kSilent" | "a = Answer_kAccepted" | "is_rejection a"
    by (cases a) (auto simp: is_rejection_def)
  then show ?case
  proof cases
    case 1
    with Cons show ?thesis by (simp add: Observe_def spoken_def)
  next
    case 2
    then have o: "Observe a g = g\<lparr>revocations := 0, denials := 0\<rparr>" by (simp add: Observe_def)
    have "blocked (fold Observe as (Observe a g)) \<longleftrightarrow>
        (\<exists>zs. sublist zs ([] @ spoken as) \<and> length zs = n \<and> list_all is_rejection zs)"
      using Cons.prems by (intro Cons.IH) (auto simp: o counts_def blocked_def)
    moreover have "sublist zs (run @ spoken (a # as)) \<longleftrightarrow> sublist zs (spoken as)"
      if "length zs = n" "list_all is_rejection zs" for zs
      using rejections_window [of zs run "spoken as"] that Cons.prems 2 by (auto simp: spoken_def)
    ultimately show ?thesis by auto
  next
    case 3
    then have s: "spoken (a # as) = a # spoken as" by (auto simp: spoken_def is_rejection_def)
    note ob = Observe_rejection [OF Cons.prems(1, 2) 3]
    show ?thesis
    proof (cases "int (length run) + 1 \<ge> max_consecutive_rejections (gate_config g)")
      case True
      then have "blocked (Observe a g)" using ob by (simp add: blocked_def verdict_def)
      then have "blocked (fold Observe (a # as) g)" using blocked_stays by (simp add: blocked_def)
      moreover have "sublist (run @ [a]) (run @ spoken (a # as)) \<and> length (run @ [a]) = n \<and>
          list_all is_rejection (run @ [a])"
        using True Cons.prems 3 s by (auto simp: counts_def sublist_def)
      ultimately show ?thesis by blast
    next
      case False
      then have "blocked (fold Observe as (Observe a g)) \<longleftrightarrow>
          (\<exists>zs. sublist zs ((run @ [a]) @ spoken as) \<and> length zs = n \<and> list_all is_rejection zs)"
        using ob Cons.prems by (intro Cons.IH) (auto simp: blocked_def)
      then show ?thesis by (simp add: s)
    qed
  qed
qed

lemma verdict_window:
  assumes "counts g run" "\<not> blocked g" "int (length run) < max_consecutive_rejections (gate_config g)"
    "max_consecutive_rejections (gate_config g) = int n" "blocked (fold Observe as g)"
  shows "\<exists>zs. sublist zs (run @ spoken as) \<and> length zs = n \<and> list_all is_rejection zs \<and>
    block (fold Observe as g) = verdict zs"
  using assms
proof (induction as arbitrary: g run)
  case (Cons a as)
  consider "a = Answer_kSilent" | "a = Answer_kAccepted" | "is_rejection a"
    by (cases a) (auto simp: is_rejection_def)
  then show ?case
  proof cases
    case 1
    with Cons show ?thesis by (simp add: Observe_def spoken_def)
  next
    case 2
    then have o: "Observe a g = g\<lparr>revocations := 0, denials := 0\<rparr>" by (simp add: Observe_def)
    have "\<exists>zs. sublist zs ([] @ spoken as) \<and> length zs = n \<and> list_all is_rejection zs \<and>
        block (fold Observe as (Observe a g)) = verdict zs"
      using Cons.prems by (intro Cons.IH) (auto simp: o counts_def blocked_def)
    then obtain zs where "sublist zs (spoken as)" "length zs = n" "list_all is_rejection zs"
      "block (fold Observe as (Observe a g)) = verdict zs" by auto
    then show ?thesis
      using rejections_window [of zs run "spoken as"] Cons.prems 2 by (auto simp: spoken_def intro!: exI [of _ zs])
  next
    case 3
    then have s: "spoken (a # as) = a # spoken as" by (auto simp: spoken_def is_rejection_def)
    note ob = Observe_rejection [OF Cons.prems(1, 2) 3]
    show ?thesis
    proof (cases "int (length run) + 1 \<ge> max_consecutive_rejections (gate_config g)")
      case True
      then have "block (Observe a g) = verdict (run @ [a])" "blocked (Observe a g)"
        using ob by (simp_all add: blocked_def verdict_def)
      then have "block (fold Observe (a # as) g) = verdict (run @ [a])" using blocked_stays by simp
      moreover have "sublist (run @ [a]) (run @ spoken (a # as)) \<and> length (run @ [a]) = n \<and>
          list_all is_rejection (run @ [a])"
        using True Cons.prems 3 s by (auto simp: counts_def sublist_def)
      ultimately show ?thesis by blast
    next
      case False
      then have "\<exists>zs. sublist zs ((run @ [a]) @ spoken as) \<and> length zs = n \<and> list_all is_rejection zs \<and>
          block (fold Observe as (Observe a g)) = verdict zs"
        using ob Cons.prems by (intro Cons.IH) (auto simp: blocked_def)
      then show ?thesis by (simp add: s)
    qed
  qed
qed simp

text \<open>C29: Over any sequence of exchanges, a fresh gate gives the pairing up exactly when the budget's
  worth of rejections came in a row, with nothing accepted between them: an acceptance anywhere clears
  the count, and an exchange that said nothing (offline, a 404, a 500, a 429) neither clears nor fills it.\<close>

theorem gate_blocks_exactly_on_a_run:
  assumes "max_consecutive_rejections config = int n" "0 < n"
  shows "blocked (fold Observe as (make_Gate config)) \<longleftrightarrow>
    (\<exists>zs. sublist zs (spoken as) \<and> length zs = n \<and> list_all is_rejection zs)"
  using blocked_window [of "make_Gate config" "[]" n as] assms
  by (simp add: make_Gate_def counts_def blocked_def)

text \<open>The sentence the user reads is the majority of the run that ended it, a tie being revoked:
  two 401s and a 403 never send anybody to approve a scope.\<close>

theorem gate_verdict_is_the_majority:
  assumes "max_consecutive_rejections config = int n" "0 < n"
    and "blocked (fold Observe as (make_Gate config))"
  shows "\<exists>zs. sublist zs (spoken as) \<and> length zs = n \<and> list_all is_rejection zs \<and>
    block (fold Observe as (make_Gate config)) = verdict zs"
  using verdict_window [of "make_Gate config" "[]" n as] assms
  by (simp add: make_Gate_def counts_def blocked_def)

lemma backoff_loop_double:
  "0 < delay \<Longrightarrow> min cap (backoff_loop cap k delay) = min cap (delay * 2 ^ k)"
proof (induction k arbitrary: delay)
  case (Suc k)
  show ?case
  proof (cases "delay \<ge> cap")
    case True
    moreover have "delay * 1 \<le> delay * 2 ^ Suc k"
      using Suc.prems one_le_power [of "2::int" "Suc k"] by (intro mult_left_mono) auto
    ultimately show ?thesis by (simp add: min_def)
  next
    case False
    with Suc show ?thesis by (simp add: mult.assoc)
  qed
qed simp

text \<open>The wait between rejected calls doubles with each one and is capped: the loop that avoids a
  shift computes exactly that, for every gate that has not given up.\<close>

theorem gate_backoff_doubles:
  assumes "\<not> blocked g" "0 < rejections g" "0 < gate_backoff (gate_config g)"
  shows "Gate_backoff g =
    min (gate_max_backoff (gate_config g)) (gate_backoff (gate_config g) * 2 ^ nat (rejections g - 1))"
proof -
  let ?cap = "gate_max_backoff (gate_config g)"
  have "Gate_backoff g = min ?cap (backoff_loop ?cap (nat (rejections g - 1)) (gate_backoff (gate_config g)))"
    using assms(1, 2) by (simp add: Gate_backoff_def Let_def)
  then show ?thesis using backoff_loop_double [OF assms(3)] by simp
qed

section \<open>The verdict over a reboot\<close>

definition block_document :: "Block \<Rightarrow> Value" where
  "block_document b = VObject [(''format'', VString kAuthFormatMagic),
     (''version'', VNumber (Some kAuthFormatVersion)), (''block'', VString (Block_ToString b))]"

lemma SerializeBlock_render: "SerializeBlock b = render (block_document b)"
  by (simp add: SerializeBlock_def block_document_def)

lemma block_BlockOf:
  assumes "b \<noteq> Block_kNone"
  shows "BlockOf (block_document b) = \<lparr>lb_value = b, diagnostic = []\<rparr>"
proof -
  let ?v = "block_document b"
  have find_all: "Find ?v ''format'' = Some (VString kAuthFormatMagic)"
    "Find ?v ''version'' = Some (VNumber (Some kAuthFormatVersion))"
    "Find ?v ''block'' = Some (VString (Block_ToString b))"
    by (simp_all add: Find_def block_document_def)
  have u: "usable kAuthFormatMagic" "usable (Block_ToString b)"
    by (simp add: usable_def kAuthFormatMagic_def) (cases b; simp add: usable_def)
  have rd: "make_Reader ?v ''auth state'' = reading ?v" by (simp add: block_document_def)
  show ?thesis
    using assms Required_reading(1) [OF find_all(1) u(1)] Required_reading(2) [OF find_all(2)]
      Required_reading(1) [OF find_all(3) u(2)]
    by (simp add: BlockOf_def rd) (cases b; simp)
qed

interpretation block_record: stored_record block_document "\<lambda>b. b \<noteq> Block_kNone" BlockOf
  "\<lambda>b. \<lparr>lb_value = b, diagnostic = []\<rparr>"
proof (unfold_locales, goal_cases)
  case (1 x)
  then show ?case by (auto simp: block_document_def kMaxDepth_def kAuthFormatVersion_def in_int64_def)
qed (rule block_BlockOf)

lemma ParseBlock_line: "b \<noteq> Block_kNone \<Longrightarrow>
    ParseBlock (SerializeBlock b @ [CHR 0x0A]) = \<lparr>lb_value = b, diagnostic = []\<rparr>"
  using block_record.line_parses [of b] block_BlockOf [of b]
  by (simp add: block_record.line_def SerializeBlock_render ParseBlock_def pr_ok_def no_error_def error_ok_def)

lemma SerializeBlock_bound: "length (SerializeBlock b @ [CHR 0x0A]) \<le> kMaxAuthStateBytes"
proof (cases b)
  case Block_kNone
  show ?thesis unfolding Block_kNone by code_simp
next
  case Block_kRevoked
  show ?thesis unfolding Block_kRevoked by code_simp
next
  case Block_kScopeDenied
  show ?thesis unfolding Block_kScopeDenied by code_simp
qed

lemma LoadBlock_recoverable:
  assumes h: "answers w = []" and b: "b \<noteq> Block_kNone"
    and rec: "recoverable path (files w) = Some f" and d: "data f = SerializeBlock b @ [CHR 0x0A]"
  shows "fst (LoadBlock path w) = \<lparr>lb_value = b, diagnostic = []\<rparr>"
  using rec SerializeBlock_bound [of b]
  by (auto simp: LoadBlock_def ReadBounded_healthy [OF h] recoverable_def d ParseBlock_line [OF b]
      split: option.splits)

text \<open>A verdict stored is the verdict the next boot's gate starts from: blocked, with the same
  sentence, and whatever answers follow, blocked until the pairing is reset.\<close>

theorem verdict_survives_a_reboot:
  assumes "b \<noteq> Block_kNone" "file_path path" "answers w = []" and save: "SaveBlock path b w = (r, w')"
  shows "sr_error r = StoreError_kNone \<and>
    block (fold Observe as (Restore (lb_value (fst (LoadBlock path w'))) g)) = b"
proof -
  obtain wr where wr: "WriteAtomically path (SerializeBlock b @ [CHR 0x0A]) w = (wr, w')"
    "r = store_result wr" using save assms(1) by (auto simp: SaveBlock_def split: prod.splits)
  obtain c where ok: "wr_ok wr" "answers w' = []"
    "files w' path = Some \<lparr>data = SerializeBlock b @ [CHR 0x0A], on_card = c\<rparr>"
    using one_piece.write_then_read [OF assms(3, 2) wr(1) [unfolded WriteAtomically_def]] by auto
  then have "lb_value (fst (LoadBlock path w')) = b"
    using LoadBlock_recoverable [OF ok(2) assms(1)] by (simp add: recoverable_def)
  moreover have "blocked (Restore b g)" "block (Restore b g) = b"
    using assms(1) by (simp_all add: Restore_def blocked_def Let_def)
  ultimately show ?thesis
    using blocked_stays ok(1) wr(2) by (simp add: store_result_def wr_ok_def)
qed

section \<open>Witnesses\<close>

abbreviation three_in_a_row :: "AuthAnswer list" where
  "three_in_a_row \<equiv> [Answer_kRejected, Answer_kAccepted, Answer_kForbidden, Answer_kSilent, Answer_kRejected,
     Answer_kRejected]"

theorem gate_blocks_exactly_on_a_run_witness:
  "\<exists>zs. sublist zs (spoken three_in_a_row) \<and> length zs = 3 \<and> list_all is_rejection zs"
  by (rule gate_blocks_exactly_on_a_run [of default_GateConfig 3, THEN iffD1]) (simp_all add: default_GateConfig_def, code_simp)

theorem gate_verdict_is_the_majority_witness:
  "\<exists>zs. sublist zs (spoken three_in_a_row) \<and> length zs = 3 \<and> list_all is_rejection zs \<and>
     block (fold Observe three_in_a_row (make_Gate default_GateConfig)) = verdict zs"
  by (rule gate_verdict_is_the_majority) (simp_all add: default_GateConfig_def, code_simp)

theorem gate_backoff_doubles_witness:
  "Gate_backoff (fold Observe [Answer_kRejected, Answer_kRejected] (make_Gate default_GateConfig)) = 60000"
proof -
  let ?g = "fold Observe [Answer_kRejected, Answer_kRejected] (make_Gate default_GateConfig)"
  have "\<not> blocked ?g" "rejections ?g = 2" "gate_config ?g = default_GateConfig" by code_simp+
  then show ?thesis using gate_backoff_doubles [of ?g] by (simp add: default_GateConfig_def)
qed

theorem verdict_survives_a_reboot_witness:
  "block (fold Observe [Answer_kAccepted] (Restore (lb_value (fst (LoadBlock ''/a''
     (snd (SaveBlock ''/a'' Block_kScopeDenied (sample_card\<lparr>answers := []\<rparr>)))))) (make_Gate default_GateConfig))) =
   Block_kScopeDenied"
  using verdict_survives_a_reboot [OF _ sample_path(1) _ surjective_pairing,
      of Block_kScopeDenied "sample_card\<lparr>answers := []\<rparr>" "[Answer_kAccepted]" "make_Gate default_GateConfig"]
  by simp

end
