(* ===== verification/SyncNegotiate.thy ===== *)
theory SyncNegotiate
  imports SyncWire Retry AuthGate
begin

text \<open>
  \<open>core/src/sync_negotiate.cpp\<close>: the plan the server answers a negotiation with, read one operation
  at a time, and the call itself with its retries.
\<close>

section \<open>Names\<close>

fun Action_ToString :: "Action \<Rightarrow> bytes" where
  "Action_ToString kUpload = ''upload''"
| "Action_ToString kDownload = ''download''"
| "Action_ToString kConflict = ''conflict''"
| "Action_ToString kNoOp = ''no_op''"
| "Action_ToString kDelete = ''delete''"

text \<open>The action, and \<open>recognized\<close>.\<close>

definition ClassifyAction :: "bytes \<Rightarrow> Action \<times> bool" where
  "ClassifyAction action =
     (if action = ''upload'' then (kUpload, True)
      else if action = ''download'' then (kDownload, True)
      else if action = ''conflict'' then (kConflict, True)
      else if action = ''no_op'' then (kNoOp, True)
      else if action = ''delete'' then (kDelete, True)
      else (kNoOp, False))"

record ReasonSpelling =
  rs_reason :: Reason
  rs_slug :: bytes
  rs_text :: bytes

definition kReasons :: "ReasonSpelling list" where
  "kReasons =
    [\<lparr>rs_reason = kClientOnly, rs_slug = ''client_only'', rs_text = ''Save exists on client but not on server''\<rparr>,
     \<lparr>rs_reason = kClientNewerNoHistory, rs_slug = ''client_newer_no_history'',
       rs_text = ''Client save is newer (no sync history)''\<rparr>,
     \<lparr>rs_reason = kClientNewer, rs_slug = ''client_newer'', rs_text = ''Client save is newer than last sync''\<rparr>,
     \<lparr>rs_reason = kServerOnly, rs_slug = ''server_only'', rs_text = ''Save exists on server but not on client''\<rparr>,
     \<lparr>rs_reason = kServerNewerNoHistory, rs_slug = ''server_newer_no_history'',
       rs_text = ''Server save is newer (no sync history)''\<rparr>,
     \<lparr>rs_reason = kServerNewer, rs_slug = ''server_newer'', rs_text = ''Server save is newer than last sync''\<rparr>,
     \<lparr>rs_reason = kServerChangedClientMissing, rs_slug = ''server_changed_client_missing'',
       rs_text = ''Server save updated since last sync, not present on client''\<rparr>,
     \<lparr>rs_reason = kBothChanged, rs_slug = ''both_changed'', rs_text = ''Both sides changed since last sync''\<rparr>,
     \<lparr>rs_reason = kSameTimestampDifferentContent, rs_slug = ''same_timestamp_different_content'',
       rs_text = ''Same timestamp but different content''\<rparr>,
     \<lparr>rs_reason = kContentIdentical, rs_slug = ''content_identical'', rs_text = ''Content is identical''\<rparr>,
     \<lparr>rs_reason = kNoChanges, rs_slug = ''no_changes'', rs_text = ''No changes since last sync''\<rparr>,
     \<lparr>rs_reason = kAppearIdentical, rs_slug = ''appear_identical'', rs_text = ''Saves appear identical''\<rparr>,
     \<lparr>rs_reason = kUntracked, rs_slug = ''untracked'', rs_text = ''Save is untracked on this device''\<rparr>,
     \<lparr>rs_reason = kDeletedOnServer, rs_slug = ''deleted_on_server'', rs_text = ''Save was deleted on the server''\<rparr>,
     \<lparr>rs_reason = kHeldSinceRemoval, rs_slug = ''held_since_removal'',
       rs_text = ''Client holds a version removed on the server''\<rparr>]"

definition SpellingOf :: "Reason \<Rightarrow> ReasonSpelling option" where
  "SpellingOf reason = find (\<lambda>s. rs_reason s = reason) kReasons"

definition Reason_ToString :: "Reason \<Rightarrow> bytes" where
  "Reason_ToString reason =
     (case SpellingOf reason of Some s \<Rightarrow> rs_slug s | None \<Rightarrow> ''unrecognized'')"

definition ReasonText :: "Reason \<Rightarrow> bytes" where
  "ReasonText reason = (case SpellingOf reason of Some s \<Rightarrow> rs_text s | None \<Rightarrow> [])"

definition ClassifyReason_text :: "bytes \<Rightarrow> Reason" where
  "ClassifyReason_text reason =
     (case find (\<lambda>s. rs_text s = reason) kReasons of Some s \<Rightarrow> rs_reason s | None \<Rightarrow> kUnrecognized)"

datatype NegotiateError = NegotiateError_kNone | NegotiateError_kUnusablePayload
  | NegotiateError_kNotRegistered | NegotiateError_kUnauthorized | NegotiateError_kForbidden
  | NegotiateError_kNoSuchDevice | NegotiateError_kSyncDisabled | NegotiateError_kRejected
  | NegotiateError_kCanceled | NegotiateError_kUnreachable | NegotiateError_kServerError
  | NegotiateError_kMalformed | NegotiateError_kPlanTooLarge

fun NegotiateError_ToString :: "NegotiateError \<Rightarrow> bytes" where
  "NegotiateError_ToString NegotiateError_kNone = ''none''"
| "NegotiateError_ToString NegotiateError_kUnusablePayload = ''unusable_payload''"
| "NegotiateError_ToString NegotiateError_kNotRegistered = ''not_registered''"
| "NegotiateError_ToString NegotiateError_kUnauthorized = ''unauthorized''"
| "NegotiateError_ToString NegotiateError_kForbidden = ''forbidden''"
| "NegotiateError_ToString NegotiateError_kNoSuchDevice = ''no_such_device''"
| "NegotiateError_ToString NegotiateError_kSyncDisabled = ''sync_disabled''"
| "NegotiateError_ToString NegotiateError_kRejected = ''rejected''"
| "NegotiateError_ToString NegotiateError_kCanceled = ''canceled''"
| "NegotiateError_ToString NegotiateError_kUnreachable = ''unreachable''"
| "NegotiateError_ToString NegotiateError_kServerError = ''server_error''"
| "NegotiateError_ToString NegotiateError_kMalformed = ''malformed''"
| "NegotiateError_ToString NegotiateError_kPlanTooLarge = ''plan_too_large''"

definition ShouldRetry :: "NegotiateError \<Rightarrow> bool" where
  "ShouldRetry e \<longleftrightarrow> e = NegotiateError_kUnreachable \<or> e = NegotiateError_kServerError"

definition NeedsPairing :: "NegotiateError \<Rightarrow> bool" where
  "NeedsPairing e \<longleftrightarrow> e = NegotiateError_kNotRegistered \<or> e = NegotiateError_kUnauthorized \<or>
     e = NegotiateError_kForbidden \<or> e = NegotiateError_kNoSuchDevice"

fun AnswerOf_negotiate :: "NegotiateError \<Rightarrow> AuthAnswer" where
  "AnswerOf_negotiate NegotiateError_kUnauthorized = Answer_kRejected"
| "AnswerOf_negotiate NegotiateError_kForbidden = Answer_kForbidden"
| "AnswerOf_negotiate NegotiateError_kNone = Answer_kAccepted"
| "AnswerOf_negotiate NegotiateError_kNoSuchDevice = Answer_kAccepted"
| "AnswerOf_negotiate NegotiateError_kSyncDisabled = Answer_kAccepted"
| "AnswerOf_negotiate NegotiateError_kPlanTooLarge = Answer_kAccepted"
| "AnswerOf_negotiate _ = Answer_kSilent"

section \<open>Reading the plan\<close>

record SyncPlan =
  plan_session_id :: int
  plan_operations :: "SyncOperation list"
  plan_total_upload :: int
  plan_total_download :: int
  plan_total_conflict :: int
  plan_total_no_op :: int
  plan_total_delete :: int
  plan_warnings :: "bytes list"

definition empty_plan :: SyncPlan where
  "empty_plan = \<lparr>plan_session_id = 0, plan_operations = [], plan_total_upload = 0,
     plan_total_download = 0, plan_total_conflict = 0, plan_total_no_op = 0, plan_total_delete = 0,
     plan_warnings = []\<rparr>"

definition kMaxPlanOperations :: nat where "kMaxPlanOperations = 128"

definition quoted :: "bytes \<Rightarrow> bytes" where
  "quoted s = CHR 0x22 # s @ [CHR 0x22]"

text \<open>The warnings about an operation that was read, in the order they are pushed.\<close>

definition operation_warnings :: "bytes \<Rightarrow> SyncOperation \<Rightarrow> bytes list" where
  "operation_warnings spot op =
     (if \<not> op_known_action op
      then [spot @ '': unknown action '' @ quoted (op_action_text op) @
        ''; treated as no_op -- this server is newer than this client''] else []) @
     (if op_reason op = kUnrecognized
      then [spot @ '': unknown reason '' @ quoted (op_reason_text op) @ ''; the action was still obeyed'']
      else []) @
     (if \<not> IsSingleFileName (op_file_name op)
      then [spot @ '': the server's file_name '' @ quoted (op_file_name op) @
        '' is not a single path component; it must not be joined into a local path''] else []) @
     (case op_server_content_hash op of None \<Rightarrow> []
      | Some h \<Rightarrow>
        if \<not> IsContentHash h
        then [spot @ '': the server's content_hash is '' @ to_string (int (length h)) @
          '' characters and not lowercase hex; saves are compared on MD5, so this one will match nothing'']
        else [])"

definition no_operation :: SyncOperation where
  "no_operation = \<lparr>op_action = kNoOp, op_known_action = True, op_action_text = [], op_rom_id = 0,
     op_save_id = None, op_file_name = [], op_slot = None, op_emulator = None,
     op_reason = kUnrecognized, op_reason_text = [], op_server_updated_at = None,
     op_server_content_hash = None\<rparr>"

text \<open>The fields of one element, and the reader when the last of them was read.\<close>

definition read_fields :: "Value \<Rightarrow> SyncOperation \<times> Reader" where
  "read_fields value =
     (let rd = make_Reader value ''sync operation'';
          (action_text, rd) = Required_string ''action'' rd;
          (rom_id, rd) = Required_int ''rom_id'' rd;
          (save_id, rd) = RequiredNullable_int ''save_id'' rd;
          (file_name, rd) = Required_string ''file_name'' rd;
          (slot, rd) = RequiredNullable_string ''slot'' rd;
          (emulator, rd) = RequiredNullable_string ''emulator'' rd;
          (reason_text, rd) = Required_string ''reason'' rd;
          (server_updated_at, rd) = RequiredNullable_string ''server_updated_at'' rd;
          (server_content_hash, rd) = RequiredNullable_string ''server_content_hash'' rd
      in (no_operation\<lparr>op_action_text := into [] action_text, op_rom_id := into 0 rom_id,
            op_save_id := into None save_id, op_file_name := into [] file_name,
            op_slot := into None slot, op_emulator := into None emulator,
            op_reason_text := into [] reason_text,
            op_server_updated_at := into None server_updated_at,
            op_server_content_hash := into None server_content_hash\<rparr>, rd))"

text \<open>The error, the operation, and the warnings pushed.\<close>

definition ReadOperation :: "Value \<Rightarrow> nat \<Rightarrow> Error \<times> SyncOperation \<times> bytes list" where
  "ReadOperation value index =
     (let spot = ''operations['' @ to_string (int index) @ '']'';
          (op, rd) = read_fields value
      in if \<not> Reader_ok rd
         then ((rd_error rd)\<lparr>field := (if field (rd_error rd) = [] then spot
                 else spot @ ''.'' @ field (rd_error rd))\<rparr>, op, [])
         else if op_rom_id op \<le> 0
         then (FieldError (spot @ ''.rom_id'') ''is not a positive rom id'', op, [])
         else if op_save_id op \<noteq> None \<and> the (op_save_id op) \<le> 0
         then (FieldError (spot @ ''.save_id'') ''is present but not a positive save id'', op, [])
         else
           let (action, known) = ClassifyAction (op_action_text op);
               op = op\<lparr>op_action := action, op_known_action := known,
                 op_reason := ClassifyReason_text (op_reason_text op)\<rparr>
           in (no_error, op, operation_warnings spot op))"

definition too_many_operations :: Error where
  "too_many_operations = FieldError ''operations''
     (''holds more than the '' @ to_string (int kMaxPlanOperations) @ '' operations one plan may carry'')"

text \<open>\<open>options.keep\<close> is a callback that may keep state of its own: what it has kept so far stands for it.\<close>

type_synonym OperationFilter = "SyncOperation list \<Rightarrow> SyncOperation \<Rightarrow> bool"

text \<open>What the callback of \<open>ParseEach\<close> closes over: the plan, \<open>too_large\<close> and the warnings of an
  operation \<open>keep\<close> has yet to answer for.\<close>

type_synonym plan_state = "SyncPlan \<times> bool \<times> bytes list"

definition take_operation :: "OperationFilter option \<Rightarrow> plan_state each" where
  "take_operation keep element index st =
     (let (plan, too_large, dropped) = st in
      if keep = None \<and> index \<ge> kMaxPlanOperations then (too_many_operations, plan, True, dropped)
      else
        let (error, operation, warned) = ReadOperation element index;
            (plan, dropped) =
              (if keep \<noteq> None then (plan, dropped @ warned)
               else (plan\<lparr>plan_warnings := plan_warnings plan @ warned\<rparr>, dropped))
        in if \<not> error_ok error \<or> keep = None
           then (error, if error_ok error
                   then plan\<lparr>plan_operations := plan_operations plan @ [operation]\<rparr> else plan,
                 too_large, dropped)
           else if \<not> the keep (plan_operations plan) operation then (no_error, plan, too_large, [])
           else if length (plan_operations plan) \<ge> kMaxPlanOperations
           then (too_many_operations, plan, True, dropped)
           else (no_error, plan\<lparr>plan_warnings := plan_warnings plan @ dropped,
                   plan_operations := plan_operations plan @ [operation]\<rparr>, too_large, []))"

definition plan_failed :: "Error \<Rightarrow> SyncPlan Parsed" where
  "plan_failed e = \<lparr>parsed_value = empty_plan, parsed_error = e\<rparr>"

text \<open>The parsed plan, and \<open>too_large\<close>.\<close>

definition ParseNegotiateResponse ::
  "bytes \<Rightarrow> OperationFilter option \<Rightarrow> SyncPlan Parsed \<times> bool" where
  "ParseNegotiateResponse answer keep =
     (let ((plan, too_large, _), document) =
            ParseEach None answer ''operations'' (take_operation keep) ''negotiate response''
              (empty_plan, False, [])
      in (if \<not> pr_ok document then plan_failed (pr_error document)
          else
            let rd = make_Reader (pr_value document) ''negotiate response'';
                (session_id, rd) = Required_int ''session_id'' rd;
                (upload, rd) = Required_int ''total_upload'' rd;
                (download, rd) = Required_int ''total_download'' rd;
                (conflict, rd) = Required_int ''total_conflict'' rd;
                (no_op, rd) = Required_int ''total_no_op'' rd;
                plan = plan\<lparr>plan_session_id := into 0 session_id, plan_total_upload := into 0 upload,
                  plan_total_download := into 0 download, plan_total_conflict := into 0 conflict,
                  plan_total_no_op := into 0 no_op\<rparr>
            in if \<not> Reader_ok rd then plan_failed (rd_error rd)
               else if plan_session_id plan \<le> 0
               then plan_failed (FieldError ''session_id'' ''is not a positive session id'')
               else
                 let deletes = Find (pr_value document) ''total_delete'' in
                 if deletes \<noteq> None \<and> \<not> is_integer (the deletes)
                 then plan_failed (FieldError ''total_delete'' ''is not an integer'')
                 else
                   let plan = (case deletes of None \<Rightarrow> plan
                         | Some d \<Rightarrow> plan\<lparr>plan_total_delete := integer d\<rparr>)
                   in if Find (pr_value document) ''operations'' = None
                      then plan_failed (FieldError ''operations'' ''is missing'')
                      else \<lparr>parsed_value = plan, parsed_error = no_error\<rparr>,
          too_large))"

section \<open>The call\<close>

record Negotiation =
  neg_plan :: SyncPlan
  neg_error :: NegotiateError
  neg_message :: bytes
  neg_attempts :: int
  neg_waited :: int
  neg_transport :: HttpError

definition neg_ok :: "Negotiation \<Rightarrow> bool" where
  "neg_ok n \<longleftrightarrow> neg_error n = NegotiateError_kNone"

definition neg_refuse :: "NegotiateError \<Rightarrow> bytes \<Rightarrow> Negotiation" where
  "neg_refuse e msg = \<lparr>neg_plan = empty_plan, neg_error = e, neg_message = msg, neg_attempts = 0,
     neg_waited = 0, neg_transport = Http_kNone\<rparr>"

definition kMaxResponseBytes :: int where "kMaxResponseBytes = 200 * 1024"
definition kSyncDisabledDetail :: bytes where "kSyncDisabledDetail = ''Sync is disabled for this device''"
definition kNoSuchDeviceDetail :: bytes where "kNoSuchDeviceDetail = ''Device with ID''"

definition contains :: "bytes \<Rightarrow> bytes \<Rightarrow> bool" where
  "contains s word \<longleftrightarrow> list_ex (\<lambda>i. starts_with word (drop i s)) [0..<length s + 1]"

definition because :: "bytes \<Rightarrow> bytes" where
  "because msg = (if msg = [] then [] else '' ('' @ msg @ '')'')"

definition NegotiateRefused :: "HttpResult \<Rightarrow> Negotiation option" where
  "NegotiateRefused result =
     (let s = status (response result) in
      if http_error result = Http_kCanceled
      then Some (neg_refuse NegotiateError_kCanceled (''the negotiation was stopped: '' @
        (if http_message result = [] then ''the caller cancelled'' else http_message result)))
      else if AnsweredTooLarge result
      then Some (neg_refuse NegotiateError_kPlanTooLarge (''the plan is larger than the '' @
        to_string (kMaxResponseBytes div 1024) @ '' KiB this console reads in one answer''))
      else if \<not> http_ok result
      then Some ((neg_refuse NegotiateError_kUnreachable (''the negotiation did not complete: '' @
        HttpError_ToString (http_error result) @ because (http_message result)))
        \<lparr>neg_transport := http_error result\<rparr>)
      else if s = 401
      then Some (neg_refuse NegotiateError_kUnauthorized
        ''the negotiation was rejected: HTTP 401; the token has been revoked'')
      else if s = 403
      then Some (neg_refuse NegotiateError_kForbidden
        ''the negotiation was rejected: HTTP 403; this pairing was not granted the scopes sync needs'')
      else if s = 404 \<and> contains (body (response result)) kNoSuchDeviceDetail
      then Some (neg_refuse NegotiateError_kNoSuchDevice
        ''the negotiation was answered 404; this device was deleted in RomM'')
      else if s = 400 \<and> contains (body (response result)) kSyncDisabledDetail
      then Some (neg_refuse NegotiateError_kSyncDisabled
        ''sync is turned off for this device in RomM; turn it back on there'')
      else if TransientStatus s
      then Some (neg_refuse NegotiateError_kServerError (''the negotiation: HTTP '' @ to_string s @
        (if s = 429 then ''; the server is rate limiting'' else [])))
      else if \<not> successful result
      then Some (neg_refuse NegotiateError_kRejected
        (''the negotiation was refused: HTTP '' @ to_string s))
      else None)"

record NegotiateOptions = CallPolicy +
  np_timeout :: int
  np_max_attempts :: int
  np_emulators :: "bytes list option"
  np_restore_unlisted :: bool
  np_keep :: "OperationFilter option"

text \<open>What one answer comes to.\<close>

definition negotiated :: "OperationFilter option \<Rightarrow> HttpResult \<Rightarrow> Negotiation" where
  "negotiated keep result =
     (case NegotiateRefused result of Some refused \<Rightarrow> refused
      | None \<Rightarrow>
        let (parsed, too_large) = ParseNegotiateResponse (body (response result)) keep in
        if parsed_ok parsed
        then (neg_refuse NegotiateError_kNone [])\<lparr>neg_plan := parsed_value parsed\<rparr>
        else if too_large
        then neg_refuse NegotiateError_kPlanTooLarge (''the plan holds more than the '' @
          to_string (int kMaxPlanOperations) @ '' operations this console can carry at once'')
        else neg_refuse NegotiateError_kMalformed
          (''the plan could not be read: '' @ Describe (parsed_error parsed)))"

function negotiate_loop ::
  "'n Host \<Rightarrow> OperationFilter option \<Rightarrow> Request \<Rightarrow> int \<Rightarrow> int \<Rightarrow> int \<Rightarrow> Backoff \<Rightarrow> 'n World \<Rightarrow>
     Negotiation \<times> 'n World" where
  "negotiate_loop host keep request attempts attempt waited backoff w =
     (let (result, w) = Send host request w;
          outcome = (negotiated keep result)\<lparr>neg_attempts := attempt, neg_waited := waited\<rparr>
      in if neg_ok outcome \<or> \<not> ShouldRetry (neg_error outcome) \<or> attempt \<ge> attempts then (outcome, w)
         else
           let (stop, w) = canceled host w in
           if stop
           then ((neg_refuse NegotiateError_kCanceled
             ''the negotiation was not retried: the caller cancelled'')
               \<lparr>neg_attempts := attempt, neg_waited := waited\<rparr>, w)
           else
             let (i, w) = roll host w;
                 (delay, backoff) = WaitToRetry i backoff;
                 w = wait_ms host delay w
             in negotiate_loop host keep request attempts (attempt + 1) (waited + delay) backoff w)"
  by pat_completeness auto
termination
  by (relation "measure (\<lambda>(_, _, _, attempts, attempt, _). nat (attempts - attempt))") auto

declare negotiate_loop.simps [simp del]

definition kNegotiatePath :: bytes where "kNegotiatePath = ''/api/sync/negotiate''"

definition negotiate_request :: "StoredToken \<Rightarrow> bytes \<Rightarrow> int \<Rightarrow> Request" where
  "negotiate_request token text timeout =
     (new_Request Method_kPost (JoinUrl (server_url token) kNegotiatePath))
       \<lparr>req_headers := [\<lparr>h_name = ''Accept'', h_value = ''application/json''\<rparr>,
           \<lparr>h_name = ''Content-Type'', h_value = ''application/json''\<rparr>,
           \<lparr>h_name = ''Authorization'', h_value = ''Bearer '' @ access_token token\<rparr>],
         req_body := text, req_timeout := timeout\<rparr>"

definition NegotiateWith ::
  "'n Host \<Rightarrow> StoredToken \<Rightarrow> ClientSaveState list \<Rightarrow> int list option \<Rightarrow> NegotiateOptions \<Rightarrow> 'n World \<Rightarrow>
     Negotiation \<times> 'n World" where
  "NegotiateWith host token saves rom_ids options w =
     (if server_url token = [] \<or> access_token token = []
      then (neg_refuse NegotiateError_kNotRegistered ''this console is not paired'', w)
      else if device_id token = []
      then (neg_refuse NegotiateError_kNotRegistered
        ''the stored token names no device; there is nothing to negotiate for'', w)
      else case find (\<lambda>save. \<not> error_ok (Validate save)) saves of
        Some save \<Rightarrow>
          (neg_refuse NegotiateError_kUnusablePayload (''the negotiation body could not be built: rom '' @
            to_string (cs_rom_id save) @ '', slot '' @
            (case cs_slot save of Some s \<Rightarrow> s | None \<Rightarrow> ''<none>'') @ '': '' @ Describe (Validate save)), w)
      | None \<Rightarrow>
          let encoded = EncodeNegotiateRequest (Some (device_id token)) saves rom_ids
                (np_emulators options) (np_restore_unlisted options)
          in if \<not> error_ok (enc_error encoded)
             then (neg_refuse NegotiateError_kUnusablePayload
               (''the negotiation body could not be built: '' @ Describe (enc_error encoded)), w)
             else
               let request = negotiate_request token (enc_body encoded) (np_timeout options);
                   (stop, w) = canceled host w
               in if stop
                  then (neg_refuse NegotiateError_kCanceled
                    ''the negotiation was not attempted: the caller cancelled first'', w)
                  else negotiate_loop host (np_keep options) request
                    (if np_max_attempts options > 0 then np_max_attempts options else 1) 1 0
                    (BackoffFor (CallPolicy.truncate options)) w)"

definition Negotiate where
  "Negotiate host token saves options w = NegotiateWith host token saves None options w"

definition NegotiateRoms where
  "NegotiateRoms host token saves rom_ids options w = NegotiateWith host token saves (Some rom_ids) options w"

section \<open>What a plan is\<close>

text \<open>An invariant of the callback of \<open>ParseEach\<close>: \<open>P\<close> at the next index, \<open>Q\<close> where the array ends.\<close>

definition each_keeps :: "'s each \<Rightarrow> (nat \<Rightarrow> 's \<Rightarrow> bool) \<Rightarrow> ('s \<Rightarrow> bool) \<Rightarrow> bool" where
  "each_keeps each P Q \<longleftrightarrow> (\<forall>i st. P i st \<longrightarrow> Q st) \<and>
     (\<forall>v i st. P i st \<longrightarrow> Q (snd (each v i st)) \<and>
       (error_ok (fst (each v i st)) \<longrightarrow> P (i + 1) (snd (each v i st))))"

lemma each_items_keeps:
  "each_keeps each P Q \<Longrightarrow> P index st \<Longrightarrow> Q (fst (each_items keep each depth index st s))"
proof (induction keep each depth index st s rule: each_items.induct)
  case (1 keep each depth index st s)
  then have q: "Q st" "\<And>v. Q (snd (each v index st))"
    "\<And>v. error_ok (fst (each v index st)) \<Longrightarrow> P (index + 1) (snd (each v index st))"
    by (auto simp: each_keeps_def)
  show ?case
    using "1.IH" "1.prems"(1) q
    by (subst each_items.simps) (auto split: sum.splits list.splits prod.splits)
qed

lemma Parser_ParseEach_keeps:
  "each_keeps each P Q \<Longrightarrow> P 0 st \<Longrightarrow> Q (fst (Parser_ParseEach keep key each depth st s))"
  using each_items_keeps [of each P Q 0 st] by (auto simp: Parser_ParseEach_def Let_def each_keeps_def)

lemma member_key_new: "member_key ms s = Inr (key, r) \<Longrightarrow> key \<notin> fst ` set ms"
  by (auto simp: member_key_def Let_def split: sum.splits prod.splits if_splits)

lemma stream_items_keeps:
  "each_keeps each P Q \<Longrightarrow> (each_key \<notin> fst ` set ms \<longrightarrow> P 0 st) \<Longrightarrow> Q st \<Longrightarrow>
     Q (fst (stream_items keep each_key each ms st s))"
proof (induction keep each_key each ms st s rule: stream_items.induct)
  case (1 keep each_key each ms st s)
  show ?case
  proof (cases "member_key ms (SkipWhitespace s)")
    case (Inl e)
    with "1.prems" show ?thesis by (subst stream_items.simps) simp
  next
    case (Inr p)
    obtain key s1 where k: "member_key ms (SkipWhitespace s) = Inr (key, s1)" using Inr by (cases p) auto
    obtain st1 res where m: "stream_member keep each_key each key st s1 = (st1, res)" by fastforce
    have new: "key \<notin> fst ` set ms" using k by (rule member_key_new)
    have q: "Q st1"
      using m "1.prems" new Parser_ParseEach_keeps [OF "1.prems"(1), of st keep each_key 1 s1]
      by (auto simp: stream_member_def split: if_splits prod.splits)
    have again: "each_key \<notin> fst ` set (add_member ms key v) \<longrightarrow> P 0 st1" if r: "res = Inr (v, s2)" for v s2
    proof (cases "key = each_key")
      case True
      with m r have "v \<noteq> None" by (auto simp: stream_member_def map_sum_Inr_iff split: prod.splits)
      with True show ?thesis by (auto simp: add_member_def)
    next
      case False
      with m have "st1 = st" by (auto simp: stream_member_def split: if_splits)
      with "1.prems"(2) show ?thesis by (auto simp: add_member_def split: option.splits)
    qed
    show ?thesis
    proof (cases res)
      case (Inl e)
      with k m q show ?thesis by (subst stream_items.simps) simp
    next
      case (Inr p)
      obtain v s2 where v: "res = Inr (v, s2)" using Inr by (cases p) auto
      note IH = "1.IH" [OF k refl m [symmetric] v refl _ _ "1.prems"(1) again [OF v] q]
      show ?thesis using k m v q IH by (subst stream_items.simps) (auto split: list.splits)
    qed
  qed
qed

lemma ParseEach_keeps:
  assumes "each_keeps each P Q" "P 0 st" "each_key \<noteq> []"
  shows "Q (fst (ParseEach keep text each_key each context st))"
proof -
  have q: "Q st" using assms by (auto simp: each_keeps_def)
  then have "Q (fst (stream_items keep each_key each [] st s))" for s
    using assms stream_items_keeps [OF assms(1), of each_key "[]" st keep s] by simp
  then have "Q st'" if "stream_items keep each_key each [] st s = (st', res)" for s st' res
    using that by (metis fst_conv)
  with q assms(3) show ?thesis by (auto simp: ParseEach_def Let_def split: prod.splits if_splits)
qed

text \<open>What the words of a plan mean, as \<open>docs/API_CONTRACT.md\<close> has them and apart from the code that reads them.\<close>

definition action_words :: "(bytes \<times> Action) list" where
  "action_words = [(''upload'', kUpload), (''download'', kDownload), (''conflict'', kConflict), (''no_op'', kNoOp),
     (''delete'', kDelete)]"

definition reason_words :: "(bytes \<times> Reason) list" where
  "reason_words =
    [(''Save exists on client but not on server'', kClientOnly),
     (''Client save is newer (no sync history)'', kClientNewerNoHistory),
     (''Client save is newer than last sync'', kClientNewer),
     (''Save exists on server but not on client'', kServerOnly),
     (''Server save is newer (no sync history)'', kServerNewerNoHistory),
     (''Server save is newer than last sync'', kServerNewer),
     (''Server save updated since last sync, not present on client'', kServerChangedClientMissing),
     (''Both sides changed since last sync'', kBothChanged),
     (''Same timestamp but different content'', kSameTimestampDifferentContent),
     (''Content is identical'', kContentIdentical),
     (''No changes since last sync'', kNoChanges),
     (''Saves appear identical'', kAppearIdentical),
     (''Save is untracked on this device'', kUntracked),
     (''Save was deleted on the server'', kDeletedOnServer),
     (''Client holds a version removed on the server'', kHeldSinceRemoval)]"

text \<open>An operation of a plan: its ids are positive, and its action and reason are what its words mean.\<close>

definition operation_ok :: "SyncOperation \<Rightarrow> bool" where
  "operation_ok op \<longleftrightarrow> op_rom_id op > 0 \<and> (\<forall>i. op_save_id op = Some i \<longrightarrow> i > 0) \<and>
     (case map_of action_words (op_action_text op) of
        Some meant \<Rightarrow> op_action op = meant \<and> op_known_action op
      | None \<Rightarrow> op_action op = kNoOp \<and> \<not> op_known_action op) \<and>
     op_reason op = (case map_of reason_words (op_reason_text op) of Some meant \<Rightarrow> meant | None \<Rightarrow> kUnrecognized)"

text \<open>A line that begins by naming an operation and goes on with \<open>what\<close> of it.\<close>

definition line_about :: "bytes list \<Rightarrow> bytes \<Rightarrow> bool" where
  "line_about warnings what \<longleftrightarrow>
     (\<exists>i rest. ''operations['' @ to_string (int i) @ '']: '' @ what @ rest \<in> set warnings)"

text \<open>What this build does not know in an operation, or cannot use, is told: a word that is in neither table, a name
  that is no single file name, a digest that is not 32 lowercase hexadecimal digits.\<close>

definition to_tell :: "SyncOperation \<Rightarrow> bytes \<Rightarrow> bool" where
  "to_tell op what \<longleftrightarrow>
     map_of action_words (op_action_text op) = None \<and>
       what = ''unknown action '' @ [CHR 0x22] @ op_action_text op @ [CHR 0x22] \<or>
     map_of reason_words (op_reason_text op) = None \<and>
       what = ''unknown reason '' @ [CHR 0x22] @ op_reason_text op @ [CHR 0x22] \<or>
     (CHR ''/'' \<in> set (op_file_name op) \<or> op_file_name op = ''.'' \<or> op_file_name op = ''..'') \<and>
       what = ''the server's file_name '' @ [CHR 0x22] @ op_file_name op @ [CHR 0x22] \<or>
     (\<exists>h. op_server_content_hash op = Some h \<and> (length h \<noteq> 32 \<or> \<not> set h \<subseteq> set ''0123456789abcdef'')) \<and>
       what = ''the server's content_hash is ''"

definition told :: "bytes list \<Rightarrow> SyncOperation \<Rightarrow> bool" where
  "told warnings op \<longleftrightarrow> (\<forall>what. to_tell op what \<longrightarrow> line_about warnings what)"

lemma ClassifyAction_meant:
  "ClassifyAction t = (case map_of action_words t of Some meant \<Rightarrow> (meant, True) | None \<Rightarrow> (kNoOp, False))"
  by (simp add: ClassifyAction_def action_words_def)

lemma reason_of_word: "(case find (\<lambda>s. rs_text s = t) ss of Some s \<Rightarrow> rs_reason s | None \<Rightarrow> kUnrecognized) =
    (case map_of (map (\<lambda>s. (rs_text s, rs_reason s)) ss) t of Some r \<Rightarrow> r | None \<Rightarrow> kUnrecognized)"
  by (induction ss) auto

lemma ClassifyReason_meant:
  "ClassifyReason_text t = (case map_of reason_words t of Some meant \<Rightarrow> meant | None \<Rightarrow> kUnrecognized)"
proof -
  have "map (\<lambda>s. (rs_text s, rs_reason s)) kReasons = reason_words" by (simp add: kReasons_def reason_words_def)
  then show ?thesis using reason_of_word [of t kReasons] by (simp add: ClassifyReason_text_def)
qed

lemma no_word_unrecognized:
  "(case map_of reason_words t of Some meant \<Rightarrow> meant | None \<Rightarrow> kUnrecognized) = kUnrecognized \<longleftrightarrow>
     map_of reason_words t = None"
proof -
  have "list_all (\<lambda>r. r \<noteq> kUnrecognized) (map snd reason_words)" by (simp add: reason_words_def)
  then show ?thesis by (auto simp: list_all_iff split: option.splits dest!: map_of_SomeD)
qed

lemma hex_digits:
  assumes "LowercaseHex h"
  shows "set h \<subseteq> set ''0123456789abcdef''"
proof
  fix c
  assume "c \<in> set h"
  with assms have "byte c \<in> {48..<58} \<union> {97..<103}"
    by (fastforce simp: LowercaseHex_def list_all_iff less_eq_char_def)
  then have "byte c \<in> set ([48..<58] @ [97..<103])" by (simp only: set_append set_upt)
  moreover have "list_all (\<lambda>n. char_of (n :: nat) \<in> set ''0123456789abcdef'') ([48..<58] @ [97..<103])" by code_simp
  ultimately have "char_of (byte c) \<in> set ''0123456789abcdef''" unfolding list_all_iff by blast
  then show "c \<in> set ''0123456789abcdef''" by (simp only: char_of_char)
qed

lemma operation_ok_meant:
  assumes "op_rom_id op > 0" "\<forall>i. op_save_id op = Some i \<longrightarrow> i > 0"
    "(op_action op, op_known_action op) = ClassifyAction (op_action_text op)"
    "op_reason op = ClassifyReason_text (op_reason_text op)"
  shows "operation_ok op"
  using assms by (auto simp: operation_ok_def ClassifyAction_meant ClassifyReason_meant split: option.splits)

lemma warned_is_told:
  assumes op: "operation_ok op"
    and w: "set (operation_warnings (''operations['' @ to_string (int i) @ '']'') op) \<subseteq> set warnings"
  shows "told warnings op"
proof -
  let ?spot = "''operations['' @ to_string (int i) @ '']''"
  have about: "line_about warnings what" if "?spot @ '': '' @ what @ rest \<in> set (operation_warnings ?spot op)" for what rest
    using that w unfolding line_about_def by (intro exI [of _ i] exI [of _ rest]) auto
  have known: "op_known_action op \<longleftrightarrow> map_of action_words (op_action_text op) \<noteq> None"
    "op_reason op = kUnrecognized \<longleftrightarrow> map_of reason_words (op_reason_text op) = None"
    using op no_word_unrecognized by (auto simp: operation_ok_def split: option.splits)
  have 1: "line_about warnings (''unknown action '' @ [CHR 0x22] @ op_action_text op @ [CHR 0x22])"
    if "map_of action_words (op_action_text op) = None"
    by (rule about [of _ "''; treated as no_op -- this server is newer than this client''"])
      (use that known in \<open>simp add: operation_warnings_def quoted_def\<close>)
  have 2: "line_about warnings (''unknown reason '' @ [CHR 0x22] @ op_reason_text op @ [CHR 0x22])"
    if "map_of reason_words (op_reason_text op) = None"
    by (rule about [of _ "''; the action was still obeyed''"])
      (use that known in \<open>simp add: operation_warnings_def quoted_def\<close>)
  have 3: "line_about warnings (''the server's file_name '' @ [CHR 0x22] @ op_file_name op @ [CHR 0x22])"
    if "CHR ''/'' \<in> set (op_file_name op) \<or> op_file_name op = ''.'' \<or> op_file_name op = ''..''"
    by (rule about [of _ "'' is not a single path component; it must not be joined into a local path''"])
      (use that in \<open>auto simp: operation_warnings_def quoted_def IsSingleFileName_def\<close>)
  have 4: "line_about warnings ''the server's content_hash is ''"
    if "op_server_content_hash op = Some h" "length h \<noteq> 32 \<or> \<not> set h \<subseteq> set ''0123456789abcdef''" for h
  proof -
    have "\<not> IsContentHash h" using that(2) hex_digits unfolding IsContentHash_def kContentHashDigits_def by blast
    with that(1) show ?thesis
      by (intro about [of _ "to_string (int (length h)) @
          '' characters and not lowercase hex; saves are compared on MD5, so this one will match nothing''"])
        (simp add: operation_warnings_def)
  qed
  show ?thesis
    unfolding told_def
  proof (intro allI impI)
    fix what
    assume "to_tell op what"
    then show "line_about warnings what" unfolding to_tell_def using 1 2 3 4 by metis
  qed
qed

definition plan_ok :: "OperationFilter option \<Rightarrow> SyncPlan \<Rightarrow> bool" where
  "plan_ok keep plan \<longleftrightarrow> length (plan_operations plan) \<le> kMaxPlanOperations \<and>
     (\<forall>op \<in> set (plan_operations plan). operation_ok op \<and> told (plan_warnings plan) op) \<and>
     (\<forall>k i. keep = Some k \<and> i < length (plan_operations plan) \<longrightarrow>
       k (take i (plan_operations plan)) (plan_operations plan ! i))"

lemma ReadOperation_ok:
  assumes "ReadOperation v i = (e, op, warned)" "error_ok e"
  shows "operation_ok op \<and> warned = operation_warnings (''operations['' @ to_string (int i) @ '']'') op"
proof -
  obtain op0 rd where f: "read_fields v = (op0, rd)" by fastforce
  obtain action known where c: "ClassifyAction (op_action_text op0) = (action, known)" by fastforce
  have "Reader_ok rd"
  proof (rule ccontr)
    assume n: "\<not> Reader_ok rd"
    with assms(1) f have "message e = message (rd_error rd)" by (auto simp: ReadOperation_def Let_def)
    with n assms(2) show False by (simp add: Reader_ok_def error_ok_def)
  qed
  with assms f c have "op_rom_id op > 0 \<and> (\<forall>i. op_save_id op = Some i \<longrightarrow> i > 0) \<and>
      (op_action op, op_known_action op) = ClassifyAction (op_action_text op) \<and>
      op_reason op = ClassifyReason_text (op_reason_text op) \<and>
      warned = operation_warnings (''operations['' @ to_string (int i) @ '']'') op"
    by (auto simp: ReadOperation_def Let_def split: if_splits)
  then show ?thesis using operation_ok_meant by blast
qed

lemma line_about_mono: "line_about ws what \<Longrightarrow> set ws \<subseteq> set ws' \<Longrightarrow> line_about ws' what"
  unfolding line_about_def by blast

lemma told_mono: "told ws op \<Longrightarrow> set ws \<subseteq> set ws' \<Longrightarrow> told ws' op"
  unfolding told_def using line_about_mono by blast

lemma take_operation_keeps:
  "each_keeps (take_operation keep)
     (\<lambda>i (plan, _, _). plan_ok keep plan \<and> (keep = None \<longrightarrow> length (plan_operations plan) \<le> i))
     (\<lambda>(plan, _, _). plan_ok keep plan)"
  unfolding each_keeps_def
proof (intro conjI allI impI)
  fix v i and st :: plan_state
  assume "case st of (plan, _, _) \<Rightarrow> plan_ok keep plan \<and> (keep = None \<longrightarrow> length (plan_operations plan) \<le> i)"
  then obtain plan large dropped where st: "st = (plan, large, dropped)" and p: "plan_ok keep plan"
    and l: "keep = None \<longrightarrow> length (plan_operations plan) \<le> i" by (cases st) auto
  obtain e op warned where r: "ReadOperation v i = (e, op, warned)" by (metis surj_pair)
  have grown: "plan_ok keep (plan\<lparr>plan_warnings := plan_warnings plan @ ws, plan_operations := plan_operations plan @ [op]\<rparr>)"
    if "error_ok e" "length (plan_operations plan) < kMaxPlanOperations" "set warned \<subseteq> set ws"
      "\<forall>k. keep = Some k \<longrightarrow> k (plan_operations plan) op" for ws
  proof -
    have "operation_ok op" "told (plan_warnings plan @ ws) op"
      using ReadOperation_ok [OF r that(1)] that(3) warned_is_told [of op i "plan_warnings plan @ ws"] by auto
    moreover have "told (plan_warnings plan @ ws) x" if "x \<in> set (plan_operations plan)" for x
      using p that told_mono [of "plan_warnings plan" x "plan_warnings plan @ ws"] by (auto simp: plan_ok_def)
    ultimately show ?thesis using p that by (auto simp: plan_ok_def nth_append less_Suc_eq)
  qed
  have more: "plan_ok keep (plan\<lparr>plan_warnings := plan_warnings plan @ ws\<rparr>)" for ws
    using p told_mono [of "plan_warnings plan" _ "plan_warnings plan @ ws"] by (auto simp: plan_ok_def)
  have "too_many_operations = FieldError ''operations'' (CHR ''h'' # tl (message too_many_operations))"
    by (simp add: too_many_operations_def FieldError_def)
  then have "\<not> error_ok too_many_operations" by (metis FieldError_ok)
  then show "case snd (take_operation keep v i st) of (plan, _, _) \<Rightarrow> plan_ok keep plan"
    and "error_ok (fst (take_operation keep v i st)) \<Longrightarrow>
      case snd (take_operation keep v i st) of (plan, _, _) \<Rightarrow>
        plan_ok keep plan \<and> (keep = None \<longrightarrow> length (plan_operations plan) \<le> i + 1)"
    using p l grown more r
    by (auto simp: take_operation_def st Let_def split: if_splits)
qed auto

text \<open>C37: A plan that is accepted can be acted on: it holds at most 128 operations, each with a positive
  rom id and no save id that is not one, the action and reason of each are what the server's words
  mean by the two tables (an action in neither being the one that does nothing), everything in one that is
  unknown or unusable is told in a line that begins with an operation's place, and where the caller filters, every operation is one it asked for.\<close>

theorem plan_is_sound:
  assumes "ParseNegotiateResponse answer keep = (parsed, large)" "parsed_ok parsed"
  shows "plan_ok keep (parsed_value parsed) \<and> plan_session_id (parsed_value parsed) > 0"
proof -
  obtain plan large' dropped document where
    e: "ParseEach None answer ''operations'' (take_operation keep) ''negotiate response''
      (empty_plan, False, []) = ((plan, large', dropped), document)" by (metis surj_pair)
  have start: "plan_ok keep empty_plan" "plan_operations empty_plan = []"
    by (simp_all add: plan_ok_def empty_plan_def)
  have "plan_ok keep plan"
    using ParseEach_keeps [OF take_operation_keeps [of keep], of "(empty_plan, False, [])"
        "''operations''" None answer "''negotiate response''"]
    by (simp add: e start)
  then have ok: "plan_ok keep (plan\<lparr>plan_session_id := a, plan_total_upload := b, plan_total_download := c,
      plan_total_conflict := d, plan_total_no_op := f\<rparr>)"
    "plan_ok keep (plan\<lparr>plan_session_id := a, plan_total_upload := b, plan_total_download := c,
      plan_total_conflict := d, plan_total_no_op := f, plan_total_delete := g\<rparr>)" for a b c d f g
    by (auto simp: plan_ok_def)
  have failed: "\<not> parsed_ok (plan_failed x)" if "\<not> error_ok x" for x
    using that by (simp add: plan_failed_def parsed_ok_def)
  have error: "\<not> parsed_ok (plan_failed (FieldError x (c # y)))" for x c y
    by (rule failed) simp
  let ?rd = "make_Reader (pr_value document) ''negotiate response''"
  obtain session_id rd1 where r1: "Required_int ''session_id'' ?rd = (session_id, rd1)" by fastforce
  obtain upload rd2 where r2: "Required_int ''total_upload'' rd1 = (upload, rd2)" by fastforce
  obtain download rd3 where r3: "Required_int ''total_download'' rd2 = (download, rd3)" by fastforce
  obtain conflict rd4 where r4: "Required_int ''total_conflict'' rd3 = (conflict, rd4)" by fastforce
  obtain no_op rd5 where r5: "Required_int ''total_no_op'' rd4 = (no_op, rd5)" by fastforce
  let ?plan = "plan\<lparr>plan_session_id := into 0 session_id, plan_total_upload := into 0 upload,
    plan_total_download := into 0 download, plan_total_conflict := into 0 conflict,
    plan_total_no_op := into 0 no_op\<rparr>"
  note parsed = assms(1) [unfolded ParseNegotiateResponse_def Let_def e prod.case r1 r2 r3 r4 r5]
  have nn: "\<not> \<not> pr_ok document" "\<not> \<not> Reader_ok rd5"
    using parsed assms(2) failed by (auto simp: pr_ok_def Reader_ok_def split: if_splits)
  note parsed = parsed [unfolded if_not_P [OF nn(1)] if_not_P [OF nn(2)]]
  have id: "\<not> plan_session_id ?plan \<le> 0" using parsed assms(2) error by (auto split: if_splits)
  note parsed = parsed [unfolded if_not_P [OF id]]
  have "parsed_value parsed = (case Find (pr_value document) ''total_delete'' of None \<Rightarrow> ?plan
      | Some d \<Rightarrow> ?plan\<lparr>plan_total_delete := integer d\<rparr>)"
    using parsed assms(2) error by (auto split: if_splits)
  then show ?thesis using ok id by (simp split: option.split)
qed

definition sample_answer :: bytes where
  "sample_answer = render (VObject
     [(''session_id'', VNumber (Some 3)),
      (''operations'', VArray [VObject
        [(''action'', VString ''merge''), (''rom_id'', VNumber (Some 7)), (''save_id'', VNull),
         (''file_name'', VString ''a.srm''), (''slot'', VNull), (''emulator'', VNull),
         (''reason'', VString ''Content is identical''), (''server_updated_at'', VNull),
         (''server_content_hash'', VNull)]]),
      (''total_upload'', VNumber (Some 0)), (''total_download'', VNumber (Some 0)),
      (''total_conflict'', VNumber (Some 0)), (''total_no_op'', VNumber (Some 1))])"

theorem plan_is_sound_witness:
  "let plan = parsed_value (fst (ParseNegotiateResponse sample_answer None))
   in plan_ok None plan \<and> plan_session_id plan > 0"
  unfolding Let_def by (rule plan_is_sound [OF surjective_pairing]) code_simp

section \<open>Retrying\<close>

interpretation negotiating: retried_call negotiate_loop
  "\<lambda>keep attempt waited result. (negotiated keep result)\<lparr>neg_attempts := attempt, neg_waited := waited\<rparr>"
  "\<lambda>outcome. \<not> neg_ok outcome \<and> ShouldRetry (neg_error outcome)"
  "\<lambda>attempt waited _. (neg_refuse NegotiateError_kCanceled ''the negotiation was not retried: the caller cancelled'')
     \<lparr>neg_attempts := attempt, neg_waited := waited\<rparr>"
  by unfold_locales (subst negotiate_loop.simps, simp add: Let_def split: prod.split)

text \<open>C38: A paired console gets through to a server that recovers: while the failures in a row are the
  ones worth retrying (no connection, a 5xx, a rate limiter) and fewer than the attempts allowed, the
  negotiation is sent again, stops at the first other answer, and comes to what that answer says.\<close>

theorem negotiation_reaches_an_answer:
  assumes host: "scripted host script"
    and paired: "server_url token \<noteq> []" "access_token token \<noteq> []" "device_id token \<noteq> []"
    and valid: "list_all (\<lambda>save. error_ok (Validate save)) saves"
    and body: "error_ok (enc_error (EncodeNegotiateRequest (Some (device_id token)) saves rom_ids
        (np_emulators options) (np_restore_unlisted options)))"
    and answers: "script (net w) = failures @ answer # rest"
    and failed: "list_all (\<lambda>f. ShouldRetry (neg_error (negotiated (np_keep options) f))) failures"
    and answered: "\<not> ShouldRetry (neg_error (negotiated (np_keep options) answer))"
    and allowed: "int (length failures) < np_max_attempts options"
    and run: "NegotiateWith host token saves rom_ids options w = (r, w')"
  shows "neg_error r = neg_error (negotiated (np_keep options) answer) \<and>
    neg_plan r = neg_plan (negotiated (np_keep options) answer) \<and>
    neg_attempts r = int (length failures) + 1 \<and> script (net w') = rest"
proof -
  have "find (\<lambda>save. \<not> error_ok (Validate save)) saves = None"
    using valid by (simp add: find_None_iff list_all_iff)
  moreover obtain stop w1 where c: "canceled host w = (stop, w1)" by fastforce
  have "\<not> stop" "script (net w1) = script (net w)"
    using host c unfolding scripted_def by (metis fst_conv, metis snd_conv)
  ultimately obtain request backoff where
    "negotiate_loop host (np_keep options) request (np_max_attempts options) 1 0 backoff w1 = (r, w')"
    "script (net w1) = failures @ answer # rest"
    using run paired body allowed answers c by (auto simp: NegotiateWith_def Let_def)
  moreover have "\<forall>f \<in> set failures. ShouldRetry (neg_error (negotiated (np_keep options) f)) \<and>
      \<not> neg_ok (negotiated (np_keep options) f)"
    using failed by (auto simp: list_all_iff neg_ok_def ShouldRetry_def)
  ultimately show ?thesis
    using negotiating.reaches [OF host, of w1 failures answer rest "np_keep options" 1
        "np_max_attempts options" request 0 backoff r w'] answered allowed
    by (auto simp: neg_ok_def)
qed

definition list_host :: "HttpResult list Host" where
  "list_host = \<lparr>Send = (\<lambda>_ w. (hd (net w), w\<lparr>net := tl (net w)\<rparr>)),
     Download = (\<lambda>_ _ w. (hd (net w), w\<lparr>net := tl (net w)\<rparr>)), canceled = (\<lambda>w. (False, w)),
     wait_ms = (\<lambda>_ w. w), roll = (\<lambda>w. ((Some 0, 0), w)), now = (\<lambda>w. (0, w)), Resolve = id,
     ListDirectory = (\<lambda>_ _. no_listing), CreateDirectory = (\<lambda>_ w. ((MakeDirError_kNone, []), w)),
     RemoveEmptyDirectory = (\<lambda>_ w. w)\<rparr>"

definition answered_with :: "int \<Rightarrow> bytes \<Rightarrow> HttpResult" where
  "answered_with s text = \<lparr>http_error = Http_kNone, http_message = [], response =
     \<lparr>status = s, headers = [], body = text, bytes_received = 0, declared_size = 0\<rparr>\<rparr>"

definition sample_options :: NegotiateOptions where
  "sample_options = \<lparr>cp_backoff = 1000, cp_max_backoff = 8000, cp_jitter = 1 / 4, np_timeout = 30000,
     np_max_attempts = 3, np_emulators = None, np_restore_unlisted = False, np_keep = None\<rparr>"

theorem negotiation_reaches_an_answer_witness:
  "neg_error (fst (NegotiateWith list_host sample_token [] None sample_options
      \<lparr>card = sample_card, net = [answered_with 503 [], answered_with 429 [], answered_with 200 sample_answer]\<rparr>)) =
     NegotiateError_kNone"
proof -
  have ok: "negotiated None (answered_with 200 sample_answer) =
      (neg_refuse NegotiateError_kNone [])\<lparr>neg_plan :=
        parsed_value (fst (ParseNegotiateResponse sample_answer None))\<rparr>"
  proof -
    have "parsed_ok (fst (ParseNegotiateResponse sample_answer None))"
      "NegotiateRefused (answered_with 200 sample_answer) = None" by code_simp+
    then show ?thesis
      by (cases "ParseNegotiateResponse sample_answer None") (simp add: negotiated_def answered_with_def)
  qed
  have "neg_error (fst (NegotiateWith list_host sample_token [] None sample_options
      \<lparr>card = sample_card, net = [answered_with 503 [], answered_with 429 [], answered_with 200 sample_answer]\<rparr>)) =
     neg_error (negotiated (np_keep sample_options) (answered_with 200 sample_answer))"
    by (rule negotiation_reaches_an_answer [THEN conjunct1, of list_host id sample_token "[]" None
          sample_options _ "[answered_with 503 [], answered_with 429 []]" "answered_with 200 sample_answer"
          "[]", OF _ _ _ _ _ _ _ _ _ _ surjective_pairing])
      (simp_all add: scripted_def list_host_def sample_token_def sample_options_def ok neg_refuse_def
        ShouldRetry_def, code_simp+)
  then show ?thesis by (simp add: sample_options_def ok neg_refuse_def)
qed

end
