(* ===== verification/SyncExecute.thy ===== *)
theory SyncExecute
  imports Hashes SyncNegotiate
begin

text \<open>
  \<open>core/src/sync_execute.cpp\<close>: what a tick does with each operation of a plan. The card is the one of
  \<open>AtomicFile\<close>; the transport, the card's paths, the clock and the caller's callbacks are arguments
  (\<open>Client\<close>). A function that pushes warnings answers the ones it pushed.
\<close>

section \<open>Outcomes\<close>

datatype OperationOutcome = Outcome_kNoOp | Outcome_kUploaded | Outcome_kDownloaded | Outcome_kKeptBoth
  | Outcome_kFailed | Outcome_kNotUnderstood | Outcome_kCanceled | Outcome_kRemoved | Outcome_kKept
  | Outcome_kDeclined

datatype OperationError = Op_kNone | Op_kNoLocalSave | Op_kNoSaveId | Op_kUnreadableCard
  | Op_kBackupFailed | Op_kTransferFailed | Op_kRefused | Op_kNewerOnServer | Op_kUnauthorized
  | Op_kForbidden | Op_kUnverified | Op_kOtherEmulator | Op_kCommitFailed | Op_kUnconfirmed | Op_kCanceled

datatype ArchiveOutcome = Archive_kNone | Archive_kKept | Archive_kFailed

fun OperationOutcome_ToString :: "OperationOutcome \<Rightarrow> bytes" where
  "OperationOutcome_ToString Outcome_kNoOp = ''no_op''"
| "OperationOutcome_ToString Outcome_kUploaded = ''uploaded''"
| "OperationOutcome_ToString Outcome_kDownloaded = ''downloaded''"
| "OperationOutcome_ToString Outcome_kKeptBoth = ''kept_both''"
| "OperationOutcome_ToString Outcome_kFailed = ''failed''"
| "OperationOutcome_ToString Outcome_kNotUnderstood = ''not_understood''"
| "OperationOutcome_ToString Outcome_kCanceled = ''canceled''"
| "OperationOutcome_ToString Outcome_kRemoved = ''removed''"
| "OperationOutcome_ToString Outcome_kKept = ''kept''"
| "OperationOutcome_ToString Outcome_kDeclined = ''declined''"

fun ArchiveOutcome_ToString :: "ArchiveOutcome \<Rightarrow> bytes" where
  "ArchiveOutcome_ToString Archive_kNone = ''none''"
| "ArchiveOutcome_ToString Archive_kKept = ''kept''"
| "ArchiveOutcome_ToString Archive_kFailed = ''failed''"

fun OperationError_ToString :: "OperationError \<Rightarrow> bytes" where
  "OperationError_ToString Op_kNone = ''none''"
| "OperationError_ToString Op_kNoLocalSave = ''no_local_save''"
| "OperationError_ToString Op_kNoSaveId = ''no_save_id''"
| "OperationError_ToString Op_kUnreadableCard = ''unreadable_card''"
| "OperationError_ToString Op_kBackupFailed = ''backup_failed''"
| "OperationError_ToString Op_kTransferFailed = ''transfer_failed''"
| "OperationError_ToString Op_kUnauthorized = ''unauthorized''"
| "OperationError_ToString Op_kForbidden = ''forbidden''"
| "OperationError_ToString Op_kRefused = ''refused''"
| "OperationError_ToString Op_kNewerOnServer = ''newer_on_server''"
| "OperationError_ToString Op_kUnverified = ''unverified''"
| "OperationError_ToString Op_kOtherEmulator = ''other_emulator''"
| "OperationError_ToString Op_kCommitFailed = ''commit_failed''"
| "OperationError_ToString Op_kUnconfirmed = ''unconfirmed''"
| "OperationError_ToString Op_kCanceled = ''canceled''"

fun AnswerOf_operation :: "OperationError \<Rightarrow> AuthAnswer" where
  "AnswerOf_operation Op_kUnauthorized = Answer_kRejected"
| "AnswerOf_operation Op_kForbidden = Answer_kForbidden"
| "AnswerOf_operation Op_kNone = Answer_kAccepted"
| "AnswerOf_operation _ = Answer_kSilent"

fun Obeyed :: "OperationOutcome \<Rightarrow> bool" where
  "Obeyed Outcome_kFailed = False"
| "Obeyed Outcome_kNotUnderstood = False"
| "Obeyed Outcome_kCanceled = False"
| "Obeyed Outcome_kDeclined = False"
| "Obeyed _ = True"

definition kNoWarning :: int where "kNoWarning = - 1"

record OperationResult =
  or_action :: Action
  or_warning :: int
  or_rom_id :: int
  or_slot :: "bytes option"
  or_outcome :: OperationOutcome
  or_error :: OperationError
  or_message :: bytes
  or_sd_path :: bytes
  or_backup_sd_path :: bytes
  or_save_id :: "int option"
  or_archive :: ArchiveOutcome
  or_archive_save_id :: "int option"

record SaveTarget =
  st_rom_id :: int
  st_slot :: "bytes option"
  st_sd_path :: bytes
  st_file_name :: bytes

type_synonym Key = "int \<times> bytes option"

abbreviation op_key :: "SyncOperation \<Rightarrow> Key" where "op_key op \<equiv> (op_rom_id op, op_slot op)"
abbreviation target_key :: "SaveTarget \<Rightarrow> Key" where "target_key t \<equiv> (st_rom_id t, st_slot t)"
abbreviation state_key :: "ClientSaveState \<Rightarrow> Key" where "state_key s \<equiv> (cs_rom_id s, cs_slot s)"
abbreviation result_key :: "OperationResult \<Rightarrow> Key" where "result_key r \<equiv> (or_rom_id r, or_slot r)"

text \<open>The first entry whose key it is, \<open>key_of\<close> being the overload of \<open>HasKey\<close>.\<close>

definition FindByKey :: "('a \<Rightarrow> Key) \<Rightarrow> 'a list \<Rightarrow> Key \<Rightarrow> 'a option" where
  "FindByKey key_of saves key = find (\<lambda>s. key_of s = key) saves"

definition MatchTarget :: "SaveTarget list \<Rightarrow> SyncOperation \<Rightarrow> SaveTarget option" where
  "MatchTarget targets op = FindByKey target_key targets (op_key op)"

definition DescribeOp :: "SyncOperation \<Rightarrow> bytes" where
  "DescribeOp op = Action_ToString (op_action op) @ '' rom '' @ to_string (op_rom_id op) @ '', slot '' @
     (case op_slot op of Some s \<Rightarrow> s | None \<Rightarrow> ''<archival>'')"

definition ResultFor :: "SyncOperation \<Rightarrow> OperationResult" where
  "ResultFor op = \<lparr>or_action = op_action op, or_warning = kNoWarning, or_rom_id = op_rom_id op,
     or_slot = op_slot op, or_outcome = Outcome_kNoOp, or_error = Op_kNone, or_message = [],
     or_sd_path = [], or_backup_sd_path = [], or_save_id = None, or_archive = Archive_kNone,
     or_archive_save_id = None\<rparr>"

definition OpFail :: "SyncOperation \<Rightarrow> OperationError \<Rightarrow> bytes \<Rightarrow> OperationResult" where
  "OpFail op error msg = (ResultFor op)
     \<lparr>or_outcome := (if error = Op_kCanceled then Outcome_kCanceled else Outcome_kFailed),
      or_error := error, or_message := DescribeOp op @ '': '' @ msg\<rparr>"

definition Decline :: "SyncOperation \<Rightarrow> OperationError \<Rightarrow> bytes \<Rightarrow> OperationResult" where
  "Decline op error msg = (OpFail op error msg)\<lparr>or_outcome := Outcome_kDeclined\<rparr>"

section \<open>Answers of the server\<close>

definition OpRefused :: "HttpResult \<Rightarrow> bytes \<Rightarrow> (OperationError \<times> bytes) option" where
  "OpRefused result what =
     (if \<not> http_ok result
      then Some (if http_error result = Http_kCanceled then Op_kCanceled else Op_kTransferFailed,
        what @ '' did not complete: '' @ HttpError_ToString (http_error result) @ because (http_message result))
      else if status (response result) = 401
      then Some (Op_kUnauthorized, what @ '' was rejected: HTTP 401; the token has been revoked'')
      else if status (response result) = 403
      then Some (Op_kForbidden, what @
        '' was rejected: HTTP 403; this pairing was not granted the scopes sync needs'')
      else if \<not> successful result
      then Some (Op_kRefused, what @ '' was refused: HTTP '' @ to_string (status (response result)))
      else None)"

definition SaveIdOf :: "Value \<Rightarrow> int option" where
  "SaveIdOf save =
     (case Find save ''id'' of None \<Rightarrow> None
      | Some i \<Rightarrow> if \<not> is_integer i \<or> integer i \<le> 0 then None else Some (integer i))"

definition UpdatedAtOf :: "bytes \<Rightarrow> Timestamp option" where
  "UpdatedAtOf text =
     (if \<not> pr_ok (Parse text) then None
      else case Find (pr_value (Parse text)) ''updated_at'' of None \<Rightarrow> None
        | Some v \<Rightarrow> if Value_type v \<noteq> kString then None else ParseTimestamp (string_of v))"

definition Authed :: "Method \<Rightarrow> bytes \<Rightarrow> StoredToken \<Rightarrow> int \<Rightarrow> Request" where
  "Authed m url token timeout = (new_Request m url)
     \<lparr>req_headers := [\<lparr>h_name = ''Accept'', h_value = ''application/json''\<rparr>,
        \<lparr>h_name = ''Authorization'', h_value = ''Bearer '' @ access_token token\<rparr>],
      req_timeout := timeout\<rparr>"

section \<open>Names on the card\<close>

definition kSavesPath :: bytes where "kSavesPath = ''/api/saves''"
definition kMaxBackupAttempts :: nat where "kMaxBackupAttempts = 1000"
definition kMaxStateDiscriminator :: nat where "kMaxStateDiscriminator = 64"

abbreviation between :: "char \<Rightarrow> char \<Rightarrow> char \<Rightarrow> bool" where
  "between first final c \<equiv> first \<le> c \<and> c \<le> final"

definition kept_in_name :: "char \<Rightarrow> bool" where
  "kept_in_name c \<longleftrightarrow> between CHR ''a'' CHR ''z'' c \<or> between CHR ''A'' CHR ''Z'' c \<or> IsDigit c \<or>
     List.member ''-_.'' c"

definition Sanitize :: "bytes \<Rightarrow> bytes" where
  "Sanitize v = map (\<lambda>c. if kept_in_name c then c else CHR ''_'') v"

definition StemOf :: "bytes \<Rightarrow> bytes" where
  "StemOf name = take (length name - length (ExtensionOf name)) name"

definition ArchiveFileName :: "bytes \<Rightarrow> int \<Rightarrow> bytes" where
  "ArchiveFileName name unix_seconds =
     (let when = FormatTimestamp (unix_seconds * ticks_per_second);
          when = (if when \<noteq> [] \<and> last when = CHR ''Z'' then butlast when else when);
          when = map (\<lambda>c. if c = CHR ''T'' then CHR ''_'' else if c = CHR '':'' then CHR ''-'' else c) when
      in StemOf name @ '' [switch-conflict '' @ when @ '']'' @ ExtensionOf name)"

definition SlotBackupDiscriminator :: "bytes option \<Rightarrow> bytes" where
  "SlotBackupDiscriminator slot =
     (case slot of None \<Rightarrow> ''archival''
      | Some s \<Rightarrow>
        let safe = Sanitize s in
        if safe = [] \<or> safe = ''.'' \<or> safe = ''..''
        then (if safe = [] then ''slot'' else map (\<lambda>_. CHR ''_'') safe)
        else safe)"

definition BackupNameFor :: "int \<Rightarrow> bytes \<Rightarrow> bytes \<Rightarrow> int \<Rightarrow> nat \<Rightarrow> bytes" where
  "BackupNameFor rom_id discriminator name unix_seconds uniquifier =
     to_string rom_id @ ''-'' @ discriminator @ ''-'' @ to_string unix_seconds @
     (if uniquifier > 0 then ''-'' @ to_string (int uniquifier) else []) @ ExtensionOf name"

definition BackupFileName :: "int \<Rightarrow> bytes option \<Rightarrow> bytes \<Rightarrow> int \<Rightarrow> nat \<Rightarrow> bytes" where
  "BackupFileName rom_id slot name unix_seconds uniquifier =
     BackupNameFor rom_id (SlotBackupDiscriminator slot) name unix_seconds uniquifier"

definition StateBackupDiscriminator :: "bytes \<Rightarrow> bytes" where
  "StateBackupDiscriminator name =
     (let base = take kMaxStateDiscriminator (Sanitize (StemOf name))
      in ''state-'' @ (if base = [] \<or> base = ''.'' \<or> base = ''..'' then ''state'' else base))"

section \<open>Backing up before anything is replaced\<close>

text \<open>What the function answers, \<open>*backup_sd_path\<close> and \<open>*message\<close> (as they are where it does not set them).\<close>

type_synonym backed_up = "OperationError \<times> bytes \<times> bytes"

function backup_loop ::
  "'n Host \<Rightarrow> bytes \<Rightarrow> bytes \<Rightarrow> bytes \<Rightarrow> (nat \<Rightarrow> bytes) \<Rightarrow> nat \<Rightarrow> Card \<Rightarrow> backed_up \<times> Card" where
  "backup_loop host backup_dir sd_path source name_of attempt w =
     (if attempt < kMaxBackupAttempts then
        let backup_path = backup_dir @ ''/'' @ name_of attempt;
            destination = Resolve host backup_path
        in
        if destination = []
        then ((Op_kUnreadableCard, [],
               ''the backup directory '' @ backup_dir @ '' is not a path on this card''), w)
        else
          let (there, w) = Exists destination w in
          if there then backup_loop host backup_dir sd_path source name_of (attempt + 1) w
          else
            let (copied, w) = CopyAtomically source destination w in
            if cr_error copied = CopyError_kSourceMissing then ((Op_kNone, [], []), w)
            else if \<not> cr_ok copied
            then ((Op_kBackupFailed, [],
                   ''the previous bytes could not be preserved: '' @ cr_message copied), w)
            else if \<not> cr_name_durable copied
            then ((Op_kBackupFailed, [], ''the previous bytes were copied to '' @ backup_path @
                   '', and the card would not confirm the copy is on it''), Remove destination w)
            else ((Op_kNone, backup_path, []), w)
      else ((Op_kBackupFailed, [], ''there are already '' @ to_string (int kMaxBackupAttempts) @
             '' backups of '' @ sd_path @ '' under '' @ backup_dir @ '' for this second''), w))"
  by pat_completeness auto
termination by (relation "measure (\<lambda>(_, _, _, _, _, attempt, _). kMaxBackupAttempts - attempt)") auto

declare backup_loop.simps [simp del]

definition BackUpFirst ::
  "'n Host \<Rightarrow> bytes \<Rightarrow> bytes \<Rightarrow> int \<Rightarrow> bytes \<Rightarrow> bytes \<Rightarrow> int \<Rightarrow> Card \<Rightarrow> backed_up \<times> Card" where
  "BackUpFirst host backup_dir sd_path rom_id discriminator name unix_seconds w =
     (if Resolve host sd_path = []
      then ((Op_kUnreadableCard, [], ''the local file '' @ sd_path @ '' is not a path on this card''), w)
      else backup_loop host backup_dir sd_path (Resolve host sd_path)
        (BackupNameFor rom_id discriminator name unix_seconds) 0 w)"

definition UnchangedSinceBackup :: "'n Host \<Rightarrow> bytes \<Rightarrow> bytes \<Rightarrow> Card \<Rightarrow> (OperationError \<times> bytes) \<times> Card" where
  "UnchangedSinceBackup host sd_path backup_sd_path w =
     (let source = Resolve host sd_path in
      if source = []
      then ((Op_kUnreadableCard, ''the local file '' @ sd_path @ '' is not a path on this card''), w)
      else if backup_sd_path = []
      then
        let ((answer, _), w) = ReadBounded source 0 w in
        (if answer = BoundedRead_kMissing then (Op_kNone, [])
         else (Op_kUnverified, sd_path @ '' was written after it was found empty, and nothing holds a copy '' @
                ''of it; it was left as it is''), w)
      else
        let backup = Resolve host backup_sd_path;
            (kept, w) = (if backup = []
              then (\<lparr>ho_content_hash = [], ho_error = HashError_kNone, ho_reused = False, ho_message = []\<rparr>, w)
              else HashFile backup w)
        in
        if backup = [] \<or> \<not> ho_ok kept
        then ((Op_kUnreadableCard, ''the backup at '' @ backup_sd_path @
               '' could not be read back to compare the save with, so '' @ sd_path @ '' was left as it is'' @
               (if ho_message kept = [] then [] else '': '' @ ho_message kept)), w)
        else
          let (current, w) = HashFile source w in
          (if \<not> ho_ok current \<or> ho_content_hash current \<noteq> ho_content_hash kept
           then (Op_kUnverified, sd_path @ '' was written after it was backed up to '' @ backup_sd_path @
                  '', and no copy holds what was written since; it was left as it is, and the '' @
                  ''backup beside it'')
           else (Op_kNone, []), w))"

section \<open>What was declined already\<close>

definition Fnv :: "bytes \<Rightarrow> u64 \<Rightarrow> u64" where
  "Fnv text hash = foldl (\<lambda>h c. (h XOR of_nat (byte c)) * 0x100000001b3) hash text"

definition kFnvOffset :: u64 where "kFnvOffset = 0xcbf29ce484222325"

definition FnvField :: "bytes option \<Rightarrow> u64 \<Rightarrow> u64" where
  "FnvField f hash =
     (let hash = Fnv (if f \<noteq> None then ''+'' else ''-'') hash
      in Fnv [CHR 0x00] (Fnv (case f of Some s \<Rightarrow> s | None \<Rightarrow> []) hash))"

definition SlotKey :: "SyncOperation \<Rightarrow> u64" where
  "SlotKey op = FnvField (op_slot op) kFnvOffset"

record DeclineEntry =
  de_rom_id :: int
  de_slot :: u64
  de_fingerprint :: u64
  de_met :: bool

type_synonym Declines = "DeclineEntry list"

definition kMaxDeclines :: nat where "kMaxDeclines = 32"

definition decline_fingerprint :: "SyncOperation \<Rightarrow> OperationResult \<Rightarrow> bytes option \<Rightarrow> u64" where
  "decline_fingerprint op declined local_digest =
     Fnv (or_message declined)
      (FnvField local_digest
      (FnvField (op_emulator op)
      (FnvField (op_server_content_hash op)
      (FnvField (op_server_updated_at op)
      (FnvField (map_option to_string (op_save_id op))
      (Fnv (OperationError_ToString (or_error declined)) kFnvOffset))))))"

text \<open>The first entry of this save is brought up to date; the answer is whether it is news.\<close>

fun note_entry :: "int \<Rightarrow> u64 \<Rightarrow> u64 \<Rightarrow> Declines \<Rightarrow> (bool \<times> Declines) option" where
  "note_entry rom slot fingerprint [] = None"
| "note_entry rom slot fingerprint (e # es) =
     (if de_rom_id e = rom \<and> de_slot e = slot
      then Some (de_fingerprint e \<noteq> fingerprint, e\<lparr>de_met := True, de_fingerprint := fingerprint\<rparr> # es)
      else map_option (\<lambda>(news, es). (news, e # es)) (note_entry rom slot fingerprint es))"

definition Note :: "SyncOperation \<Rightarrow> OperationResult \<Rightarrow> bytes option \<Rightarrow> Declines \<Rightarrow> bool \<times> Declines" where
  "Note op declined local_digest entries =
     (let slot = SlotKey op; fingerprint = decline_fingerprint op declined local_digest in
      case note_entry (op_rom_id op) slot fingerprint entries of Some found \<Rightarrow> found
      | None \<Rightarrow> (True,
          if length entries < kMaxDeclines
          then entries @ [\<lparr>de_rom_id = op_rom_id op, de_slot = slot, de_fingerprint = fingerprint,
                           de_met = True\<rparr>]
          else entries))"

definition Forget :: "SyncOperation \<Rightarrow> Declines \<Rightarrow> Declines" where
  "Forget op entries = filter (\<lambda>e. \<not> (de_rom_id e = op_rom_id op \<and> de_slot e = SlotKey op)) entries"

text \<open>\<open>binary_search\<close> over a sorted list is membership.\<close>

definition EndTick :: "int list \<Rightarrow> Declines \<Rightarrow> Declines" where
  "EndTick unasked_roms entries =
     map (\<lambda>e. e\<lparr>de_met := False\<rparr>)
       (filter (\<lambda>e. \<not> (\<not> de_met e \<and> \<not> List.member unasked_roms (de_rom_id e))) entries)"

section \<open>The report\<close>

record ExecutionReport =
  er_operations :: "OperationResult list"
  er_completed :: nat
  er_failed :: nat
  er_not_understood :: nat
  er_declined :: nat
  er_canceled :: bool
  er_unauthorized :: bool
  er_warnings :: "bytes list"
  er_declines :: "bytes list"

definition empty_report :: ExecutionReport where
  "empty_report = \<lparr>er_operations = [], er_completed = 0, er_failed = 0, er_not_understood = 0,
     er_declined = 0, er_canceled = False, er_unauthorized = False, er_warnings = [], er_declines = []\<rparr>"

fun count_result :: "OperationResult \<Rightarrow> ExecutionReport \<Rightarrow> ExecutionReport" where
  "count_result r report =
     (case or_outcome r of
        Outcome_kFailed \<Rightarrow> report\<lparr>er_failed := er_failed report + 1\<rparr>
      | Outcome_kNotUnderstood \<Rightarrow> report\<lparr>er_not_understood := er_not_understood report + 1\<rparr>
      | Outcome_kDeclined \<Rightarrow> report\<lparr>er_declined := er_declined report + 1\<rparr>
      | Outcome_kCanceled \<Rightarrow> report
      | _ \<Rightarrow> report\<lparr>er_completed := er_completed report + 1\<rparr>)"

definition Recount :: "ExecutionReport \<Rightarrow> ExecutionReport" where
  "Recount report = fold count_result (er_operations report)
     (report\<lparr>er_completed := 0, er_failed := 0, er_not_understood := 0, er_declined := 0\<rparr>)"

section \<open>Keep local\<close>

definition kMaxKeepLocal :: nat where "kMaxKeepLocal = 4"

definition ArmKeepLocal :: "Key \<Rightarrow> Key list \<Rightarrow> bool \<times> Key list" where
  "ArmKeepLocal key keep_local =
     (if FindByKey id keep_local key \<noteq> None then (True, keep_local)
      else if length keep_local \<ge> kMaxKeepLocal then (False, keep_local)
      else (True, keep_local @ [key]))"

definition spent_by :: "Key list \<Rightarrow> ExecutionReport \<Rightarrow> Key \<Rightarrow> OperationResult option" where
  "spent_by sent executed key =
     (if FindByKey id sent key = None then None
      else case FindByKey result_key (er_operations executed) key of None \<Rightarrow> None
        | Some result \<Rightarrow>
          if or_outcome result = Outcome_kCanceled then None
          else if or_action result = kUpload \<and> or_outcome result = Outcome_kFailed \<and>
            (or_error result = Op_kTransferFailed \<or> or_error result = Op_kUnreadableCard \<or>
             or_error result = Op_kNoLocalSave)
          then None else Some result)"

text \<open>What was overtaken, and \<open>*keep_local\<close> afterwards.\<close>

fun SpendKeepLocal :: "Key list \<Rightarrow> Key list \<Rightarrow> ExecutionReport \<Rightarrow> (Key \<times> Action) list \<times> Key list" where
  "SpendKeepLocal [] sent executed = ([], [])"
| "SpendKeepLocal (key # keys) sent executed =
     (let (overtaken, owed) = SpendKeepLocal keys sent executed in
      case spent_by sent executed key of None \<Rightarrow> (overtaken, key # owed)
      | Some spent \<Rightarrow>
        if or_action spent \<noteq> kUpload \<and> or_action spent \<noteq> kNoOp
        then ((key, or_action spent) # overtaken, owed) else (overtaken, owed))"

section \<open>Options\<close>

datatype OnServerDelete = OnServerDelete_kRemove | OnServerDelete_kKeep

record Placement =
  pl_sd_path :: bytes
  pl_reason :: bytes
  pl_emulator :: bytes

definition no_placement :: Placement where
  "no_placement = \<lparr>pl_sd_path = [], pl_reason = [], pl_emulator = []\<rparr>"

record 'n ExecuteOptions =
  eo_backup_dir :: bytes
  eo_timeout :: int
  eo_stall_timeout :: int
  eo_place :: "(SyncOperation \<Rightarrow> 'n World \<Rightarrow> Placement) option"
  eo_reads_as :: "(SyncOperation \<Rightarrow> bytes \<Rightarrow> 'n World \<Rightarrow> bytes) option"
  eo_keep_local :: "Key list"
  eo_send_content_hash :: bool
  eo_on_server_delete :: OnServerDelete
  eo_delete_action :: bool
  eo_reported :: "ClientSaveState list option"

definition KeepsLocal :: "'n ExecuteOptions \<Rightarrow> SyncOperation \<Rightarrow> bool" where
  "KeepsLocal options op \<longleftrightarrow> FindByKey id (eo_keep_local options) (op_key op) \<noteq> None"

definition ReportedFor :: "'n ExecuteOptions \<Rightarrow> Key \<Rightarrow> ClientSaveState option" where
  "ReportedFor options key = Option.bind (eo_reported options) (\<lambda>saves. FindByKey state_key saves key)"

definition ReportedEmulator :: "'n ExecuteOptions \<Rightarrow> SaveTarget \<Rightarrow> bytes" where
  "ReportedEmulator options target =
     (case ReportedFor options (target_key target) of
        Some save \<Rightarrow> (case cs_emulator save of Some e \<Rightarrow> e | None \<Rightarrow> []) | None \<Rightarrow> [])"

definition BackUp ::
  "'n Host \<Rightarrow> 'n ExecuteOptions \<Rightarrow> SyncOperation \<Rightarrow> SaveTarget \<Rightarrow> 'n World \<Rightarrow>
     (backed_up \<times> int) \<times> 'n World" where
  "BackUp host options op target w =
     (let (t, w) = now host w;
          stamp = UnixSeconds t;
          (r, w) = on_card_do (BackUpFirst host (eo_backup_dir options) (st_sd_path target)
            (op_rom_id op) (SlotBackupDiscriminator (op_slot op)) (st_file_name target) stamp) w
      in ((r, stamp), w))"

section \<open>Upload\<close>

definition kTieWait :: int where "kTieWait = 1100"
definition kRewriteAttempts :: int where "kRewriteAttempts = 3"

definition RewriteBackoff :: BackoffConfig where
  "RewriteBackoff = default_BackoffConfig\<lparr>floor_ms := kTieWait * 2, cap_ms := kTieWait * 4\<rparr>"

record LandedUpload =
  lu_source :: bytes
  lu_sent_digest :: bytes
  lu_own_id :: int
  lu_second :: "Timestamp option"

definition save_file_part :: "bytes \<Rightarrow> bytes \<Rightarrow> FormPart" where
  "save_file_part source name = \<lparr>part_name = ''saveFile'', part_value = [], part_file_path = source,
     part_file_name = name, part_content_type = ''application/octet-stream''\<rparr>"

definition rewrite_request ::
  "StoredToken \<Rightarrow> SaveTarget \<Rightarrow> LandedUpload \<Rightarrow> 'n ExecuteOptions \<Rightarrow> bytes \<Rightarrow> Request" where
  "rewrite_request token target upload options digest =
     (Authed Method_kPut
       (JoinUrl (server_url token) (kSavesPath @ ''/'' @ to_string (lu_own_id upload)) @
        ''?device_id='' @ EncodeQueryValue (device_id token) @
        (if eo_send_content_hash options then ''&content_hash='' @ digest else []))
       token (eo_timeout options))\<lparr>req_form := [save_file_part (lu_source upload) (st_file_name target)]\<rparr>"

text \<open>What is added to the upload's message, and the warnings.\<close>

function outlast ::
  "'n Host \<Rightarrow> StoredToken \<Rightarrow> SaveTarget \<Rightarrow> LandedUpload \<Rightarrow> 'n ExecuteOptions \<Rightarrow> bytes \<Rightarrow> int \<Rightarrow> bytes \<Rightarrow>
     Backoff \<Rightarrow> 'n World \<Rightarrow> (bytes \<times> bytes list) \<times> 'n World" where
  "outlast host token target upload options not_moved attempt last_failure backoff w =
     (if attempt > kRewriteAttempts then (([], [not_moved @ ''('' @ last_failure @ '')'']), w)
      else
        let (delay, backoff, w) =
              (if attempt = 1 then (kTieWait, backoff, w)
               else let (i, w) = roll host w; (d, b) = Fail i backoff in (d, b, w));
            w = wait_ms host delay w;
            (stop, w) = canceled host w
        in
        if stop then (([], [not_moved @ ''(the tick was cancelled)'']), w)
        else
          let (digest, w) = on_card_do (HashFile (lu_source upload)) w in
          if \<not> ho_ok digest \<or> ho_content_hash digest \<noteq> lu_sent_digest upload
          then (([], [not_moved @ ''(the save changed on the card since)'']), w)
          else
            let (rewritten, w) = Send host
                  (rewrite_request token target upload options (ho_content_hash digest)) w
            in case OpRefused rewritten ''the rewrite'' of
              Some (error, why) \<Rightarrow>
                (if error = Op_kTransferFailed \<or>
                    (http_ok rewritten \<and> TransientStatus (status (response rewritten)))
                 then outlast host token target upload options not_moved (attempt + 1) why backoff w
                 else (([], [not_moved @ ''('' @ why @ '')'']), w))
            | None \<Rightarrow>
                let moved_to = UpdatedAtOf (body (response rewritten)) in
                if lu_second upload \<noteq> None \<and> moved_to \<noteq> None \<and> the moved_to \<le> the (lu_second upload)
                then outlast host token target upload options not_moved (attempt + 1)
                  ''it is still in that second'' backoff w
                else ((if lu_second upload \<noteq> None \<and> moved_to \<noteq> None
                       then '', and rewritten a second later to be the slot''@ [CHR 0x27] @ ''s newest''
                       else '', and rewritten a second later'', []), w))"
  by pat_completeness auto
termination
  by (relation "measure (\<lambda>(_, _, _, _, _, _, attempt, _). nat (kRewriteAttempts + 1 - attempt))")
    (auto simp: kRewriteAttempts_def)

declare outlast.simps [simp del]

definition OutlastTheSecond ::
  "'n Host \<Rightarrow> StoredToken \<Rightarrow> SyncOperation \<Rightarrow> SaveTarget \<Rightarrow> LandedUpload \<Rightarrow> 'n ExecuteOptions \<Rightarrow> 'n World \<Rightarrow>
     (bytes \<times> bytes list) \<times> 'n World" where
  "OutlastTheSecond host token op target upload options w =
     outlast host token target upload options
       (DescribeOp op @ '': the Keep local upload may share its second with another device'' @ [CHR 0x27] @
        ''s upload of this save, and was not moved past it '')
       1 [] (make_Backoff RewriteBackoff) w"

definition upload_url ::
  "StoredToken \<Rightarrow> SyncPlan \<Rightarrow> SyncOperation \<Rightarrow> 'n ExecuteOptions \<Rightarrow> bytes \<Rightarrow> bytes" where
  "upload_url token plan op options digest =
     JoinUrl (server_url token) kSavesPath @ ''?rom_id='' @ to_string (op_rom_id op) @
     (case op_emulator op of Some e \<Rightarrow> ''&emulator='' @ EncodeQueryValue e | None \<Rightarrow> []) @
     (case op_slot op of Some s \<Rightarrow> ''&slot='' @ EncodeQueryValue s | None \<Rightarrow> []) @
     ''&session_id='' @ to_string (plan_session_id plan) @
     ''&device_id='' @ EncodeQueryValue (device_id token) @
     (if eo_send_content_hash options then ''&content_hash='' @ digest else []) @
     (if KeepsLocal options op then ''&overwrite=true'' else ''&overwrite=false'')"

definition upload_request ::
  "StoredToken \<Rightarrow> SyncPlan \<Rightarrow> SyncOperation \<Rightarrow> SaveTarget \<Rightarrow> 'n ExecuteOptions \<Rightarrow> bytes \<Rightarrow> bytes \<Rightarrow> Request" where
  "upload_request token plan op target options source digest =
     (Authed Method_kPost (upload_url token plan op options digest) token (eo_timeout options))
       \<lparr>req_form := [save_file_part source (st_file_name target)]\<rparr>"

definition Upload ::
  "'n Host \<Rightarrow> StoredToken \<Rightarrow> SyncPlan \<Rightarrow> SyncOperation \<Rightarrow> SaveTarget option \<Rightarrow> 'n ExecuteOptions \<Rightarrow>
     'n World \<Rightarrow> (OperationResult \<times> bytes list) \<times> 'n World" where
  "Upload host token plan op target_opt options w =
     (case target_opt of
        None \<Rightarrow> ((OpFail op Op_kNoLocalSave
          ''there is no local save for this (rom_id, slot) to upload'', []), w)
      | Some target \<Rightarrow>
        let source = Resolve host (st_sd_path target);
            (there, w) = (if source = [] then (False, w) else on_card_do (Exists source) w)
        in
        if source = [] \<or> \<not> there
        then ((OpFail op Op_kUnreadableCard
          (''the local save '' @ st_sd_path target @ '' could not be opened to upload''), []), w)
        else
          let hashes = (eo_send_content_hash options \<or> KeepsLocal options op);
              (digest, w) = (if hashes then on_card_do (HashFile source) w
                else (\<lparr>ho_content_hash = [], ho_error = HashError_kNone, ho_reused = False, ho_message = []\<rparr>, w))
          in
          if \<not> ho_ok digest
          then ((OpFail op Op_kUnreadableCard (''the local save '' @ st_sd_path target @
            '' could not be hashed to upload: '' @ ho_message digest), []), w)
          else
            let (result, w) = Send host
                  (upload_request token plan op target options source (ho_content_hash digest)) w
            in case OpRefused result ''the upload'' of
              Some (error, why) \<Rightarrow>
                ((if error = Op_kRefused \<and> status (response result) = 409
                  then OpFail op Op_kNewerOnServer (why @ ''; the slot holds a newer save than this device '' @
                    ''last synced, so nothing was uploaded over it'')
                  else OpFail op error why, []), w)
            | None \<Rightarrow>
                let save_id = (if pr_ok (Parse (body (response result)))
                      then SaveIdOf (pr_value (Parse (body (response result)))) else None);
                    uploaded = (ResultFor op)\<lparr>or_outcome := Outcome_kUploaded,
                      or_sd_path := st_sd_path target,
                      or_message := DescribeOp op @ '': uploaded '' @ st_sd_path target,
                      or_save_id := save_id\<rparr>
                in
                if KeepsLocal options op \<and> save_id \<noteq> None
                then
                  let ((added, warned), w) = OutlastTheSecond host token op target
                        \<lparr>lu_source = source, lu_sent_digest = ho_content_hash digest,
                         lu_own_id = the save_id, lu_second = UpdatedAtOf (body (response result))\<rparr> options w
                  in ((uploaded\<lparr>or_message := or_message uploaded @ added\<rparr>, warned), w)
                else ((uploaded, []), w))"

section \<open>Keeping both\<close>

definition archive_request ::
  "StoredToken \<Rightarrow> SyncOperation \<Rightarrow> SaveTarget \<Rightarrow> 'n ExecuteOptions \<Rightarrow> int \<Rightarrow> bytes \<Rightarrow> bytes \<Rightarrow> Request" where
  "archive_request token op target options unix_seconds source digest =
     (Authed Method_kPost
       (JoinUrl (server_url token) kSavesPath @ ''?rom_id='' @ to_string (op_rom_id op) @
        (if ReportedEmulator options target \<noteq> []
         then ''&emulator='' @ EncodeQueryValue (ReportedEmulator options target) else []) @
        ''&device_id='' @ EncodeQueryValue (device_id token) @
        (if eo_send_content_hash options then ''&content_hash='' @ digest else []) @
        ''&overwrite=false'')
       token (eo_timeout options))
       \<lparr>req_form := [save_file_part source (ArchiveFileName (st_file_name target) unix_seconds)]\<rparr>"

definition Archive ::
  "'n Host \<Rightarrow> StoredToken \<Rightarrow> SyncOperation \<Rightarrow> SaveTarget \<Rightarrow> 'n ExecuteOptions \<Rightarrow> int \<Rightarrow> OperationResult \<Rightarrow>
     'n World \<Rightarrow> (OperationResult \<times> bytes list) \<times> 'n World" where
  "Archive host token op target options unix_seconds result w =
     (let failed = (\<lambda>why. (result\<lparr>or_archive := Archive_kFailed\<rparr>,
            [DescribeOp op @ '': the local copy could not be kept on the server ('' @ why @
             ''); it is only in '' @ or_backup_sd_path result @ '' on this card'']));
          source = Resolve host (or_backup_sd_path result)
      in
      if source = [] then (failed ''the backup is not a path on this card'', w)
      else
        let (digest, w) = (if eo_send_content_hash options then on_card_do (HashFile source) w
              else (\<lparr>ho_content_hash = [], ho_error = HashError_kNone, ho_reused = False, ho_message = []\<rparr>, w))
        in
        if \<not> ho_ok digest then (failed (''the backup could not be hashed: '' @ ho_message digest), w)
        else
          let (posted, w) = Send host (archive_request token op target options unix_seconds source
                (ho_content_hash digest)) w
          in case OpRefused posted ''the archival upload'' of
            Some (_, why) \<Rightarrow> (failed why, w)
          | None \<Rightarrow> ((result\<lparr>or_archive := Archive_kKept,
              or_archive_save_id := (if pr_ok (Parse (body (response posted)))
                then SaveIdOf (pr_value (Parse (body (response posted)))) else None)\<rparr>, []), w))"

section \<open>Whose bytes they are\<close>

definition IsIsolated :: "bytes \<Rightarrow> bool" where
  "IsIsolated emulator_id \<longleftrightarrow> starts_with ''tico-'' emulator_id"

definition Interchangeable :: "bytes \<Rightarrow> bytes \<Rightarrow> bool" where
  "Interchangeable local server = (if IsIsolated local \<or> IsIsolated server then local = server else True)"

definition emulator_name :: "bytes \<Rightarrow> bytes" where
  "emulator_name i = (if i = [] then ''an unnamed emulator'' else i)"

text \<open>Who reads the path, when anything says so.\<close>

definition local_emulator ::
  "SyncOperation \<Rightarrow> SaveTarget \<Rightarrow> Placement option \<Rightarrow> 'n ExecuteOptions \<Rightarrow> 'n World \<Rightarrow> bytes option" where
  "local_emulator op target placement options w =
     (if placement \<noteq> None \<and> pl_emulator (the placement) \<noteq> [] then Some (pl_emulator (the placement))
      else if placement \<noteq> None \<and> eo_reads_as options \<noteq> None
      then Some (the (eo_reads_as options) op (st_sd_path target) w)
      else if placement = None \<and> eo_reported options \<noteq> None then Some (ReportedEmulator options target)
      else None)"

definition OtherEmulator ::
  "SyncOperation \<Rightarrow> SaveTarget \<Rightarrow> Placement option \<Rightarrow> 'n ExecuteOptions \<Rightarrow> 'n World \<Rightarrow> bytes" where
  "OtherEmulator op target placement options w =
     (let server = (case op_emulator op of Some e \<Rightarrow> e | None \<Rightarrow> []);
          outcome = (if placement \<noteq> None then ''; nothing was placed'' else ''; the local file was not touched'')
      in case local_emulator op target placement options w of
        None \<Rightarrow>
          if \<not> IsIsolated server then []
          else ''the server'' @ [CHR 0x27] @ ''s copy is '' @ server @ [CHR 0x27] @
            ''s, a format only that emulator reads, and nothing says who reads '' @ st_sd_path target @ outcome
      | Some local \<Rightarrow>
          if Interchangeable local server then []
          else ''the server'' @ [CHR 0x27] @ ''s copy is '' @ emulator_name server @ [CHR 0x27] @ ''s and '' @
            st_sd_path target @ '' is read as '' @ emulator_name local @ [CHR 0x27] @
            ''s, which is not the same save format (#238)'' @ outcome)"

section \<open>Folders made for a save\<close>

function missing_folders :: "'n Host \<Rightarrow> bytes \<Rightarrow> 'n World \<Rightarrow> bytes list" where
  "missing_folders host folder w =
     (if length folder > 1 \<and> ls_error (ListDirectory host folder w) = ListError_kMissing
      then folder # (case rfind (CHR ''/'') folder of None \<Rightarrow> []
        | Some slash \<Rightarrow> if slash = 0 then [] else missing_folders host (take slash folder) w)
      else [])"
  by pat_completeness auto
termination
proof (relation "measure (\<lambda>(_, folder, _). length folder)", goal_cases)
  case (2 host folder w slash)
  then have "slash < length folder" by (auto simp: rfind_def split: if_splits)
  then show ?case by simp
qed simp

declare missing_folders.simps [simp del]

text \<open>The folders made (oldest first), and the answer of \<open>CreateDirectory\<close>.\<close>

definition MadeFolders_Make ::
  "'n Host \<Rightarrow> bytes \<Rightarrow> 'n World \<Rightarrow> ((MakeDirError \<times> bytes) \<times> bytes list) \<times> 'n World" where
  "MadeFolders_Make host sd_path w =
     (let made = rev (missing_folders host sd_path w);
          (answer, w) = CreateDirectory host sd_path w
      in ((answer, made), w))"

text \<open>The destructor.\<close>

definition take_back :: "'n Host \<Rightarrow> bytes list \<Rightarrow> 'n World \<Rightarrow> 'n World" where
  "take_back host made w = fold (RemoveEmptyDirectory host) (rev made) w"

section \<open>Fetching\<close>

record ServerSave =
  ss_file_size_bytes :: nat
  ss_content_hash :: "bytes option"

definition DescribeServerSave ::
  "'n Host \<Rightarrow> StoredToken \<Rightarrow> int \<Rightarrow> 'n ExecuteOptions \<Rightarrow> bytes \<Rightarrow> 'n World \<Rightarrow>
     (ServerSave \<times> bytes list) \<times> 'n World" where
  "DescribeServerSave host token save_id options what w =
     (let none = \<lparr>ss_file_size_bytes = 0, ss_content_hash = None\<rparr>;
          (result, w) = Send host (Authed Method_kGet
            (JoinUrl (server_url token) (kSavesPath @ ''/'' @ to_string save_id)) token (eo_timeout options)) w
      in
      if \<not> successful result
      then ((none,
        if AnswerOf result = Answer_kRejected \<or> AnswerOf result = Answer_kForbidden
        then [what @ '': the server refused the save row with HTTP '' @ to_string (status (response result)) @
              ''; this is the pairing, not the save'']
        else [what @ '': the server'' @ [CHR 0x27] @ ''s save row could not be read, so the download has no '' @
              ''expected size to catch a short body with'']), w)
      else
        let document = Parse (body (response result)) in
        if \<not> pr_ok document
        then ((none, [what @ '': the server'' @ [CHR 0x27] @ ''s save row did not parse ('' @
          Describe (pr_error document) @ '')'']), w)
        else
          ((\<lparr>ss_file_size_bytes =
               (case Find (pr_value document) ''file_size_bytes'' of None \<Rightarrow> 0
                | Some v \<Rightarrow> if is_integer v \<and> integer v > 0 then nat (integer v) else 0),
             ss_content_hash =
               (case Find (pr_value document) ''content_hash'' of None \<Rightarrow> None
                | Some v \<Rightarrow> if Value_type v = kString \<and> string_of v \<noteq> [] then Some (string_of v) else None)\<rparr>,
            []), w))"

text \<open>Where the save goes: a result that ends the operation, or the target (whether it matched a local
  save), and the folders made on the way.\<close>

definition fetch_target ::
  "'n Host \<Rightarrow> SyncOperation \<Rightarrow> SaveTarget option \<Rightarrow> 'n ExecuteOptions \<Rightarrow> 'n World \<Rightarrow>
     ((OperationResult + SaveTarget) \<times> bytes list) \<times> 'n World" where
  "fetch_target host op target_opt options w =
     (case target_opt of
        Some target \<Rightarrow>
          let why = OtherEmulator op target None options w in
          ((if why \<noteq> [] then Inl ((Decline op Op_kOtherEmulator why)\<lparr>or_sd_path := st_sd_path target\<rparr>)
            else Inr target, []), w)
      | None \<Rightarrow>
          let placement = (case eo_place options of None \<Rightarrow> no_placement | Some place \<Rightarrow> place op w);
              sd_path = pl_sd_path placement
          in
          if sd_path = []
          then ((Inl (Decline op Op_kNoLocalSave
            (if pl_reason placement = []
             then ''there is no local save for this (rom_id, slot) and nothing said where a new one should go''
             else ''there is no local save for this (rom_id, slot), and none was placed: '' @
               pl_reason placement)), []), w)
          else
            let resolved = Resolve host sd_path in
            if resolved = []
            then ((Inl (OpFail op Op_kUnreadableCard
              (''the save path '' @ sd_path @ '' is not a path on this card'')), []), w)
            else
              let (there, w) = on_card_do (Exists resolved) w in
              if there
              then ((Inl (Decline op Op_kNoLocalSave
                (''there is no local save for this (rom_id, slot), and '' @ sd_path @
                 '' is already a file this sync did not pair with it; it was not touched'')), []), w)
              else
                let placed = \<lparr>st_rom_id = op_rom_id op, st_slot = op_slot op, st_sd_path = sd_path,
                      st_file_name = []\<rparr>;
                    why = OtherEmulator op placed (Some placement) options w
                in
                if why \<noteq> []
                then ((Inl ((Decline op Op_kOtherEmulator why)\<lparr>or_sd_path := sd_path\<rparr>), []), w)
                else
                  let slash = rfind (CHR ''/'') sd_path;
                      (((made_error, made_message), made), w) =
                        (if slash \<noteq> None \<and> the slash > 0
                         then MadeFolders_Make host (take (the slash) sd_path) w
                         else (((MakeDirError_kNone, []), []), w));
                      placed = placed\<lparr>st_file_name :=
                        (case slash of None \<Rightarrow> sd_path | Some leaf \<Rightarrow> drop (leaf + 1) sd_path)\<rparr>
                  in
                  if made_error \<noteq> MakeDirError_kNone
                  then ((Inl (OpFail op Op_kUnreadableCard (''the folder for '' @ sd_path @
                    '' could not be made: '' @ made_message)), made), w)
                  else ((Inr placed, made), w))"

definition download_request :: "StoredToken \<Rightarrow> int \<Rightarrow> 'n ExecuteOptions \<Rightarrow> Request" where
  "download_request token save_id options =
     (Authed Method_kGet (JoinUrl (server_url token) (kSavesPath @ ''/'' @ to_string save_id @ ''/content''))
       token (eo_timeout options))\<lparr>req_timeout := 0, req_stall_timeout := eo_stall_timeout options\<rparr>"

text \<open>The bytes staged and verified beside \<open>destination\<close>: a failure, or their digest.\<close>

definition fetch_staged ::
  "'n Host \<Rightarrow> StoredToken \<Rightarrow> SyncOperation \<Rightarrow> int \<Rightarrow> bytes \<Rightarrow> 'n ExecuteOptions \<Rightarrow> 'n World \<Rightarrow>
     ((OperationResult + bytes) \<times> bytes list) \<times> 'n World" where
  "fetch_staged host token op save_id destination options w =
     (let ((described, warned), w) = DescribeServerSave host token save_id options (DescribeOp op) w;
          staged = TempPathFor destination;
          w = w\<lparr>card := Remove staged (card w)\<rparr>;
          (fetched, w) = Download host (download_request token save_id options)
            \<lparr>dt_path = staged, dt_resume = False, dt_expected_size = ss_file_size_bytes described\<rparr> w
      in case OpRefused fetched ''the download'' of
        Some (error, why) \<Rightarrow>
          ((Inl (OpFail op error why), warned), w\<lparr>card := Remove (staged @ ''.part'') (card w)\<rparr>)
      | None \<Rightarrow>
          let reported = (if op_server_content_hash op \<noteq> None then op_server_content_hash op
                else ss_content_hash described)
          in
          if reported = None \<or> \<not> IsContentHash (the reported)
          then ((Inl (OpFail op Op_kUnverified (''the server reports no comparable MD5 for this save, so the '' @
            ''download could not be verified; the local file was not touched'')), warned), w)
          else
            let (digest, w) = on_card_do (HashFile staged) w in
            if \<not> ho_ok digest
            then ((Inl (OpFail op Op_kUnreadableCard
              (''the downloaded bytes could not be hashed to verify them: '' @ ho_message digest)), warned), w)
            else if ho_content_hash digest \<noteq> the reported
            then ((Inl (OpFail op Op_kUnverified (''the downloaded bytes are not the save the plan described; '' @
              ''the local file was not touched'')), warned), w)
            else ((Inr (ho_content_hash digest), warned), w))"

definition fail_with :: "SyncOperation \<Rightarrow> OperationError \<Rightarrow> bytes \<Rightarrow> OperationResult \<Rightarrow> OperationResult" where
  "fail_with op error msg result = (OpFail op error msg)
     \<lparr>or_sd_path := or_sd_path result, or_backup_sd_path := or_backup_sd_path result,
      or_archive := or_archive result, or_archive_save_id := or_archive_save_id result\<rparr>"

text \<open>Backed up, archived, compared and put in place: a failure, or the result so far. The staged file
  is the guard's on the failures before the commit, and the commit's own after.\<close>

definition fetch_commit ::
  "'n Host \<Rightarrow> StoredToken \<Rightarrow> SyncOperation \<Rightarrow> int \<Rightarrow> SaveTarget \<Rightarrow> bool \<Rightarrow> bytes \<Rightarrow> 'n ExecuteOptions \<Rightarrow>
     OperationOutcome \<Rightarrow> 'n World \<Rightarrow> ((OperationResult + OperationResult) \<times> bytes list) \<times> 'n World" where
  "fetch_commit host token op save_id target matched destination options success w =
     (let staged = TempPathFor destination;
          discard = (\<lambda>w. w\<lparr>card := Remove staged (card w)\<rparr>);
          result = (ResultFor op)\<lparr>or_sd_path := st_sd_path target, or_save_id := Some save_id\<rparr>;
          (((backup_error, backup_sd_path, message), stamp), w) = BackUp host options op target w
      in
      if backup_error \<noteq> Op_kNone
      then ((Inl ((OpFail op backup_error message)\<lparr>or_sd_path := st_sd_path target\<rparr>), []), discard w)
      else
        let result = result\<lparr>or_backup_sd_path := backup_sd_path\<rparr>;
            ((result, warned), w) =
              (if success = Outcome_kKeptBoth \<and> matched \<and> backup_sd_path \<noteq> []
               then Archive host token op target options stamp result w else ((result, []), w));
            ((unchanged, message), w) =
              on_card_do (UnchangedSinceBackup host (st_sd_path target) backup_sd_path) w
        in
        if unchanged \<noteq> Op_kNone
        then ((Inl (fail_with op unchanged message result), warned), discard w)
        else
          let (committed, w) = on_card_do (CommitStaged staged destination) w in
          if \<not> wr_ok committed
          then ((Inl (fail_with op Op_kCommitFailed (''the verified bytes could not be put in place: '' @
            wr_message committed) result), warned), w)
          else ((Inr result, warned), w))"

definition confirm_request :: "StoredToken \<Rightarrow> int \<Rightarrow> bytes \<Rightarrow> 'n ExecuteOptions \<Rightarrow> Request" where
  "confirm_request token save_id digest options =
     (let r = Authed Method_kPost (JoinUrl (server_url token)
           (kSavesPath @ ''/'' @ to_string save_id @ ''/downloaded'')) token (eo_timeout options)
      in r\<lparr>req_headers := req_headers r @ [\<lparr>h_name = ''Content-Type'', h_value = ''application/json''\<rparr>],
           req_body := ''{'' @ key_text ''device_id'' @ Quote (device_id token) @
             (if eo_send_content_hash options then '','' @ key_text ''content_hash'' @ Quote digest else []) @
             ''}''\<rparr>)"

definition fetch_confirm ::
  "'n Host \<Rightarrow> StoredToken \<Rightarrow> SyncOperation \<Rightarrow> int \<Rightarrow> SaveTarget \<Rightarrow> bytes \<Rightarrow> 'n ExecuteOptions \<Rightarrow>
     OperationOutcome \<Rightarrow> OperationResult \<Rightarrow> 'n World \<Rightarrow> OperationResult \<times> 'n World" where
  "fetch_confirm host token op save_id target digest options success result w =
     (let (confirmed, w) = Send host (confirm_request token save_id digest options) w
      in case OpRefused confirmed ''the download confirmation'' of
        Some (error, why) \<Rightarrow>
          ((fail_with op (if error = Op_kUnauthorized \<or> error = Op_kForbidden then error else Op_kUnconfirmed)
             (why @ ''; the save itself is correct on the card'') result)\<lparr>or_save_id := Some save_id\<rparr>, w)
      | None \<Rightarrow>
          (result\<lparr>or_outcome := success,
             or_message := DescribeOp op @ '': wrote the server'' @ [CHR 0x27] @ ''s copy to '' @
               st_sd_path target @
               (if or_backup_sd_path result = [] then '', replacing nothing''
                else '', after backing up its previous bytes to '' @ or_backup_sd_path result) @
               (case or_archive result of
                  Archive_kKept \<Rightarrow> '', and keeping them on the server as archival save '' @
                    (case or_archive_save_id result of Some i \<Rightarrow> to_string i | None \<Rightarrow> ''(id unread)'')
                | Archive_kFailed \<Rightarrow> ''; the server holds no copy of them''
                | Archive_kNone \<Rightarrow> [])\<rparr>, w))"

definition Fetch ::
  "'n Host \<Rightarrow> StoredToken \<Rightarrow> SyncOperation \<Rightarrow> SaveTarget option \<Rightarrow> 'n ExecuteOptions \<Rightarrow> OperationOutcome \<Rightarrow>
     'n World \<Rightarrow> (OperationResult \<times> bytes list) \<times> 'n World" where
  "Fetch host token op target_opt options success w =
     (case op_save_id op of
        None \<Rightarrow> ((OpFail op Op_kNoSaveId ''the plan says to fetch a save the server named no id for'', []), w)
      | Some save_id \<Rightarrow>
        let ((chosen, made), w) = fetch_target host op target_opt options w in
        case chosen of
          Inl ended \<Rightarrow> ((ended, []), take_back host made w)
        | Inr target \<Rightarrow>
          let destination = Resolve host (st_sd_path target) in
          if destination = []
          then ((OpFail op Op_kUnreadableCard
            (''the save path '' @ st_sd_path target @ '' is not a path on this card''), []), take_back host made w)
          else
            let ((verified, warned), w) = fetch_staged host token op save_id destination options w in
            case verified of
              Inl lost \<Rightarrow> ((lost, warned),
                take_back host made (w\<lparr>card := Remove (TempPathFor destination) (card w)\<rparr>))
            | Inr digest \<Rightarrow>
              let ((put_in_place, warned'), w) =
                    fetch_commit host token op save_id target (target_opt \<noteq> None) destination options success w
              in case put_in_place of
                Inl lost \<Rightarrow> ((lost, warned @ warned'), take_back host made w)
              | Inr result \<Rightarrow>
                  let (r, w) = fetch_confirm host token op save_id target digest options success result w
                  in ((r, warned @ warned'), w))"

section \<open>Removing\<close>

text \<open>\<open>io::Remove\<close> and the status it answers: whether the file was there and the card did it.\<close>

definition RemoveFile :: "bytes \<Rightarrow> Card \<Rightarrow> bool \<times> Card" where
  "RemoveFile path w = (fst (next_answer w) = Does \<and> files w path \<noteq> None, Remove path w)"

definition RemoveSave ::
  "'n Host \<Rightarrow> SyncOperation \<Rightarrow> SaveTarget option \<Rightarrow> 'n ExecuteOptions \<Rightarrow> 'n World \<Rightarrow>
     OperationResult \<times> 'n World" where
  "RemoveSave host op target_opt options w =
     (case target_opt of
        None \<Rightarrow> (OpFail op Op_kNoLocalSave
          ''there is no local save for this (rom_id, slot) to remove; nothing was touched'', w)
      | Some target \<Rightarrow>
        let result = (ResultFor op)\<lparr>or_sd_path := st_sd_path target\<rparr> in
        if eo_on_server_delete options = OnServerDelete_kKeep
        then (result\<lparr>or_outcome := Outcome_kKept, or_message := DescribeOp op @
          '': deleted on the server; '' @ st_sd_path target @ '' stays on the card ([sync] on_server_delete '' @
          ''= keep), and these bytes are not offered to RomM again''\<rparr>, w)
        else
          let source = Resolve host (st_sd_path target);
              expected = (case ReportedFor options (target_key target) of None \<Rightarrow> []
                | Some save \<Rightarrow> (case cs_content_hash save of Some h \<Rightarrow> h | None \<Rightarrow> []))
          in
          if source = []
          then (OpFail op Op_kUnreadableCard
            (''the save path '' @ st_sd_path target @ '' is not a path on this card''), w)
          else if expected = []
          then ((OpFail op Op_kUnverified (''this tick reported no digest for the save, so nothing says it is '' @
            ''the copy the server deleted; it was left on the card''))\<lparr>or_sd_path := st_sd_path target\<rparr>, w)
          else
            let (((backup_error, backup_sd_path, message), _), w) = BackUp host options op target w;
                result = result\<lparr>or_backup_sd_path := backup_sd_path\<rparr>
            in
            if backup_error \<noteq> Op_kNone
            then ((OpFail op backup_error message)\<lparr>or_sd_path := st_sd_path target\<rparr>, w)
            else if backup_sd_path = []
            then (result\<lparr>or_outcome := Outcome_kRemoved, or_message := DescribeOp op @
              '': deleted on the server, and '' @ st_sd_path target @ '' was already gone from the card''\<rparr>, w)
            else
              let backup = Resolve host backup_sd_path;
                  (digest, w) = on_card_do (HashFile backup) w
              in
              if \<not> ho_ok digest \<or> ho_content_hash digest \<noteq> expected
              then ((OpFail op Op_kUnverified (''the save is not the bytes this tick reported, so the server'' @
                [CHR 0x27] @ ''s ruling is not about it; it was left on the card''))
                \<lparr>or_sd_path := st_sd_path target\<rparr>, w\<lparr>card := Remove backup (card w)\<rparr>)
              else
                let ((unchanged, message), w) =
                      on_card_do (UnchangedSinceBackup host (st_sd_path target) backup_sd_path) w
                in
                if unchanged \<noteq> Op_kNone
                then ((OpFail op unchanged message)\<lparr>or_sd_path := st_sd_path target,
                  or_backup_sd_path := backup_sd_path\<rparr>, w)
                else
                  let (gone, w) = on_card_do (RemoveFile source) w in
                  if \<not> gone
                  then ((OpFail op Op_kCommitFailed (''the card refused to remove '' @ st_sd_path target @
                    ''; it is still there, and a copy is at '' @ backup_sd_path))
                    \<lparr>or_sd_path := st_sd_path target, or_backup_sd_path := backup_sd_path\<rparr>, w)
                  else
                    let (_, w) = (case rfind (CHR ''/'') source of None \<Rightarrow> (True, w)
                          | Some slash \<Rightarrow>
                            on_card_do (Sync (if slash = 0 then ''/'' else take slash source)) w)
                    in (result\<lparr>or_outcome := Outcome_kRemoved, or_message := DescribeOp op @
                      '': deleted on the server; removed '' @ st_sd_path target @ '' after backing it up to '' @
                      backup_sd_path\<rparr>, w))"

section \<open>The plan\<close>

definition ExecuteOperation ::
  "'n Host \<Rightarrow> StoredToken \<Rightarrow> SyncPlan \<Rightarrow> SaveTarget list \<Rightarrow> 'n ExecuteOptions \<Rightarrow> SyncOperation \<Rightarrow>
     'n World \<Rightarrow> (OperationResult \<times> bytes list) \<times> 'n World" where
  "ExecuteOperation host token plan targets options op w =
     (if \<not> op_known_action op
      then (((ResultFor op)\<lparr>or_outcome := Outcome_kNotUnderstood, or_message :=
        ''rom '' @ to_string (op_rom_id op) @ '', slot '' @
        (case op_slot op of Some s \<Rightarrow> s | None \<Rightarrow> ''<archival>'') @ '': the action '' @
        quoted (op_action_text op) @ '' is not one this build knows; nothing was done''\<rparr>, []), w)
      else
        let target = MatchTarget targets op in
        case op_action op of
          kUpload \<Rightarrow> Upload host token plan op target options w
        | kDownload \<Rightarrow> Fetch host token op target options Outcome_kDownloaded w
        | kConflict \<Rightarrow> Fetch host token op target options Outcome_kKeptBoth w
        | kNoOp \<Rightarrow> (((ResultFor op)\<lparr>or_outcome := Outcome_kNoOp, or_message := DescribeOp op @
            '': nothing to do ('' @ Reason_ToString (op_reason op) @ '')''\<rparr>, []), w)
        | kDelete \<Rightarrow>
            if \<not> eo_delete_action options
            then (((ResultFor op)\<lparr>or_outcome := Outcome_kNotUnderstood, or_message := DescribeOp op @
              '': this server does not offer delete, so it was not acted on''\<rparr>, []), w)
            else let (r, w) = RemoveSave host op target options w in ((r, []), w))"

text \<open>What the loop does with a result: the warning, the declines, the flags. \<open>declines\<close> is \<open>None\<close> where
  the caller keeps no table.\<close>

definition note_result ::
  "'n ExecuteOptions \<Rightarrow> SyncOperation \<Rightarrow> OperationResult \<Rightarrow> ExecutionReport \<Rightarrow> Declines option \<Rightarrow>
     ExecutionReport \<times> Declines option" where
  "note_result options op result report declines =
     (let warns = (or_outcome result = Outcome_kFailed \<or> or_outcome result = Outcome_kNotUnderstood);
          result = (if warns then result\<lparr>or_warning := int (length (er_warnings report))\<rparr> else result);
          report = (if warns then report\<lparr>er_warnings := er_warnings report @ [or_message result]\<rparr> else report);
          (report, declines) =
            (if or_outcome result = Outcome_kDeclined then
               let hash = Option.bind (ReportedFor options (op_key op)) cs_content_hash;
                   (news, declines) = (case declines of None \<Rightarrow> (True, None)
                     | Some d \<Rightarrow> (let (n, d) = Note op result hash d in (n, Some d)))
               in (if news then report\<lparr>er_declines := er_declines report @ [''declined '' @ or_message result]\<rparr>
                   else report, declines)
             else if Obeyed (or_outcome result) then (report, map_option (Forget op) declines)
             else (report, declines))
      in (report\<lparr>er_canceled := er_canceled report \<or> or_outcome result = Outcome_kCanceled,
            er_unauthorized := er_unauthorized report \<or> or_error result = Op_kUnauthorized \<or>
              or_error result = Op_kForbidden,
            er_operations := er_operations report @ [result]\<rparr>, declines))"

fun execute_loop ::
  "'n Host \<Rightarrow> StoredToken \<Rightarrow> SyncPlan \<Rightarrow> SaveTarget list \<Rightarrow> 'n ExecuteOptions \<Rightarrow> SyncOperation list \<Rightarrow>
     ExecutionReport \<Rightarrow> Declines option \<Rightarrow> 'n World \<Rightarrow> (ExecutionReport \<times> Declines option) \<times> 'n World" where
  "execute_loop host token plan targets options [] report declines w = ((report, declines), w)"
| "execute_loop host token plan targets options (op # ops) report declines w =
     (let (stop, w) = canceled host w in
      if stop then ((report\<lparr>er_canceled := True\<rparr>, declines), w)
      else
        let ((result, warned), w) = ExecuteOperation host token plan targets options op w;
            (report, declines) = note_result options op result
              (report\<lparr>er_warnings := er_warnings report @ warned\<rparr>) declines
        in
        if or_outcome result = Outcome_kCanceled \<or> or_error result = Op_kUnauthorized \<or>
          or_error result = Op_kForbidden
        then ((report, declines), w)
        else execute_loop host token plan targets options ops report declines w)"

definition ExecutePlan ::
  "'n Host \<Rightarrow> StoredToken \<Rightarrow> SyncPlan \<Rightarrow> SaveTarget list \<Rightarrow> 'n ExecuteOptions \<Rightarrow> Declines option \<Rightarrow>
     'n World \<Rightarrow> (ExecutionReport \<times> Declines option) \<times> 'n World" where
  "ExecutePlan host token plan targets options declines w =
     (let ((report, declines), w) = execute_loop host token plan targets options (plan_operations plan)
            empty_report declines w
      in ((Recount report, declines), w))"

end
