(* ===== verification/SyncReport.thy ===== *)
theory SyncReport
  imports SyncExecute
begin

text \<open>
  What the report of a plan says: every operation taken up is answered for under its own key, the
  counters are those of its results, and what failed has its warning. And the tables a caller keeps
  between ticks, of declined operations and of saves to keep.
\<close>

section \<open>Every result names its operation\<close>

definition result_for :: "SyncOperation \<Rightarrow> OperationResult \<Rightarrow> bool" where
  "result_for op r \<longleftrightarrow> or_action r = op_action op \<and> result_key r = op_key op \<and> or_warning r = kNoWarning"

lemma result_for_made [simp]:
  "result_for op (ResultFor op)" "result_for op (OpFail op e m)" "result_for op (Decline op e m)"
  "result_for op (fail_with op e m r)"
  by (simp_all add: result_for_def ResultFor_def OpFail_def Decline_def fail_with_def)

lemma result_for_updates [simp]:
  "result_for op (r\<lparr>or_outcome := o'\<rparr>) = result_for op r" "result_for op (r\<lparr>or_error := e\<rparr>) = result_for op r"
  "result_for op (r\<lparr>or_message := m\<rparr>) = result_for op r" "result_for op (r\<lparr>or_sd_path := p\<rparr>) = result_for op r"
  "result_for op (r\<lparr>or_backup_sd_path := p\<rparr>) = result_for op r"
  "result_for op (r\<lparr>or_save_id := i\<rparr>) = result_for op r"
  "result_for op (r\<lparr>or_archive := a\<rparr>) = result_for op r"
  "result_for op (r\<lparr>or_archive_save_id := i\<rparr>) = result_for op r"
  by (simp_all add: result_for_def)

text \<open>A value that ends an operation, or what it goes on with: the result in either is of the operation.\<close>

definition ends_for :: "SyncOperation \<Rightarrow> OperationResult + 'a \<Rightarrow> bool" where
  "ends_for op s \<longleftrightarrow> (\<forall>r. s = Inl r \<longrightarrow> result_for op r)"

lemma ends_for_simps [simp]: "ends_for op (Inl r) = result_for op r" "ends_for op (Inr x)"
  by (simp_all add: ends_for_def)

text \<open>The rules that walk through a definition to the first of what it answers.\<close>

lemma first_let: "(\<And>a v. f = (a, v) \<Longrightarrow> P (fst (fst (g a v)))) \<Longrightarrow> P (fst (fst (case f of (a, v) \<Rightarrow> g a v)))"
  by (cases f) simp

lemma first_inner:
  "(\<And>a b. p = (a, b) \<Longrightarrow> P (fst (fst (h a b v)))) \<Longrightarrow> P (fst (fst (case_prod h p v)))"
  by (cases p) simp

lemma first_inner2:
  "(\<And>a b. p = (a, b) \<Longrightarrow> P (fst (fst (h a b c v)))) \<Longrightarrow> P (fst (fst (case_prod h p c v)))"
  by (cases p) simp

lemma first_if: "(b \<Longrightarrow> P (fst (fst x))) \<Longrightarrow> (\<not> b \<Longrightarrow> P (fst (fst y))) \<Longrightarrow> P (fst (fst (if b then x else y)))"
  by simp

lemma first_pair: "P a \<Longrightarrow> P (fst (fst ((a, b), v)))"
  by simp

lemma first_option:
  "(x = None \<Longrightarrow> P (fst (fst y))) \<Longrightarrow> (\<And>a. x = Some a \<Longrightarrow> P (fst (fst (g a)))) \<Longrightarrow>
     P (fst (fst (case x of None \<Rightarrow> y | Some a \<Rightarrow> g a)))"
  by (cases x) simp_all

lemma first_sum:
  "(\<And>a. x = Inl a \<Longrightarrow> P (fst (fst (f a)))) \<Longrightarrow> (\<And>a. x = Inr a \<Longrightarrow> P (fst (fst (g a)))) \<Longrightarrow>
     P (fst (fst (case x of Inl a \<Rightarrow> f a | Inr a \<Rightarrow> g a)))"
  by (cases x) simp_all

lemmas walk_result = first_let [where P = "result_for op" for op] first_inner [where P = "result_for op" for op]
  first_inner2 [where P = "result_for op" for op]
  first_if [where P = "result_for op" for op] first_pair [where P = "result_for op" for op]
  first_option [where P = "result_for op" for op] first_sum [where P = "result_for op" for op]

lemmas walk_end = first_let [where P = "ends_for op" for op] first_inner [where P = "ends_for op" for op]
  first_inner2 [where P = "ends_for op" for op]
  first_if [where P = "ends_for op" for op] first_pair [where P = "ends_for op" for op]
  first_option [where P = "ends_for op" for op] first_sum [where P = "ends_for op" for op]

lemma Upload_for: "result_for op (fst (fst (Upload host token plan op target options w)))"
  unfolding Upload_def Let_def by (intro walk_result) (simp_all split: if_split)

lemma Archive_for:
  "result_for op r \<Longrightarrow> result_for op (fst (fst (Archive host token op target options t r w)))"
  unfolding Archive_def Let_def by (intro walk_result) simp_all

lemma fetch_target_for: "ends_for op (fst (fst (fetch_target host op target options w)))"
  unfolding fetch_target_def Let_def by (intro walk_end) (simp_all split: if_split)

lemma fetch_staged_for: "ends_for op (fst (fst (fetch_staged host token op i d options w)))"
  unfolding fetch_staged_def Let_def by (intro walk_end) simp_all

text \<open>Both ends of a commit are results of the operation.\<close>

definition either_for :: "SyncOperation \<Rightarrow> OperationResult + OperationResult \<Rightarrow> bool" where
  "either_for op s \<longleftrightarrow> (case s of Inl r \<Rightarrow> result_for op r | Inr r \<Rightarrow> result_for op r)"

lemmas walk_either = first_let [where P = "either_for op" for op] first_inner [where P = "either_for op" for op]
  first_inner2 [where P = "either_for op" for op]
  first_if [where P = "either_for op" for op] first_pair [where P = "either_for op" for op]

lemma Archive_for_eq:
  "Archive host token op target options t r w = ((r', ws), w') \<Longrightarrow> result_for op r \<Longrightarrow> result_for op r'"
  using Archive_for [of op r host token target options t w] by simp

lemma fetch_commit_for: "either_for op (fst (fst (fetch_commit host token op i target matched d options s w)))"
  unfolding fetch_commit_def Let_def
  by (intro walk_either) (auto simp: either_for_def split: if_splits dest: Archive_for_eq)

lemma fetch_confirm_for:
  "result_for op r \<Longrightarrow> result_for op (fst (fetch_confirm host token op i target digest options s r w))"
  by (simp add: fetch_confirm_def split: prod.split option.split)

lemma fetch_ends:
  "fetch_target host op target options w = ((Inl r, m), w') \<Longrightarrow> result_for op r"
  "fetch_staged host token op i d options w = ((Inl r, ws), w') \<Longrightarrow> result_for op r"
  "fetch_commit host token op i t matched d options s w = ((Inl r, ws), w') \<Longrightarrow> result_for op r"
  "fetch_commit host token op i t matched d options s w = ((Inr r, ws), w') \<Longrightarrow> result_for op r"
  "fetch_confirm host token op i t digest options s r0 w = (r, w') \<Longrightarrow> result_for op r0 \<Longrightarrow> result_for op r"
  using fetch_target_for [of op host target options w] fetch_staged_for [of op host token i d options w]
    fetch_commit_for [of op host token i t matched d options s w]
    fetch_confirm_for [of op r0 host token i t digest options s w]
  by (simp_all add: either_for_def)

lemma Fetch_for: "result_for op (fst (fst (Fetch host token op target options s w)))"
  unfolding Fetch_def Let_def
  by (intro walk_result) (auto dest: fetch_ends)

lemma RemoveSave_for: "result_for op (fst (RemoveSave host op target options w))"
  by (simp add: RemoveSave_def Let_def split: option.split prod.split)

lemma ExecuteOperation_for: "result_for op (fst (fst (ExecuteOperation host token plan targets options op w)))"
proof -
  have "result_for op (fst (fst (let (r, w) = RemoveSave host op t options w in ((r, [] :: bytes list), w))))" for t
    using RemoveSave_for [of op host t options w] by (cases "RemoveSave host op t options w") simp
  then show ?thesis
    by (simp add: ExecuteOperation_def Upload_for Fetch_for Let_def split: Action.split)
qed

section \<open>The report of a plan\<close>

definition stops_plan :: "OperationResult \<Rightarrow> bool" where
  "stops_plan r \<longleftrightarrow> or_outcome r = Outcome_kCanceled \<or> or_error r = Op_kUnauthorized \<or> or_error r = Op_kForbidden"

definition answers_op :: "SyncOperation \<Rightarrow> OperationResult \<Rightarrow> bool" where
  "answers_op op r \<longleftrightarrow> or_action r = op_action op \<and> result_key r = op_key op"

definition warned_of :: "bytes list \<Rightarrow> OperationResult \<Rightarrow> bool" where
  "warned_of warnings r \<longleftrightarrow>
     (if or_outcome r = Outcome_kFailed \<or> or_outcome r = Outcome_kNotUnderstood
      then \<exists>n < length warnings. or_warning r = int n \<and> warnings ! n = or_message r
      else or_warning r = kNoWarning)"

lemma warned_of_append: "warned_of ws r \<Longrightarrow> warned_of (ws @ vs) r"
  by (auto simp: warned_of_def nth_append split: if_splits)

text \<open>What one result adds to the report.\<close>

lemma note_result_report:
  assumes run: "note_result options op result report declines = (report', declines')"
    and "result_for op result"
  shows "\<exists>r. er_operations report' = er_operations report @ [r] \<and> answers_op op r \<and>
     or_outcome r = or_outcome result \<and> or_error r = or_error result \<and>
     er_canceled report' = (er_canceled report \<or> or_outcome r = Outcome_kCanceled) \<and>
     er_unauthorized report' = (er_unauthorized report \<or> or_error r = Op_kUnauthorized \<or> or_error r = Op_kForbidden) \<and>
     (\<exists>vs. er_warnings report' = er_warnings report @ vs) \<and> warned_of (er_warnings report') r"
proof -
  define warns where "warns \<longleftrightarrow> or_outcome result = Outcome_kFailed \<or> or_outcome result = Outcome_kNotUnderstood"
  define r where "r = (if warns then result\<lparr>or_warning := int (length (er_warnings report))\<rparr> else result)"
  have ops: "er_operations report' = er_operations report @ [r]"
    and ws: "er_warnings report' = er_warnings report @ (if warns then [or_message result] else [])"
    and c: "er_canceled report' = (er_canceled report \<or> or_outcome r = Outcome_kCanceled)"
    and u: "er_unauthorized report' =
      (er_unauthorized report \<or> or_error r = Op_kUnauthorized \<or> or_error r = Op_kForbidden)"
    using run by (auto simp: note_result_def Let_def r_def warns_def split: prod.splits if_splits option.splits)
  have "warned_of (er_warnings report') r" "answers_op op r"
    using assms(2) by (auto simp: ws r_def warns_def warned_of_def result_for_def answers_op_def)
  moreover have "or_outcome r = or_outcome result" "or_error r = or_error result" by (simp_all add: r_def)
  ultimately show ?thesis using ops ws c u by blast
qed

lemma execute_loop_report:
  assumes "execute_loop host token plan targets options ops report declines w = ((report', declines'), w')"
    and "\<forall>r \<in> set (er_operations report). warned_of (er_warnings report) r"
  shows "\<exists>rs. er_operations report' = er_operations report @ rs \<and> length rs \<le> length ops \<and>
     list_all2 answers_op (take (length rs) ops) rs \<and> (\<forall>r \<in> set (butlast rs). \<not> stops_plan r) \<and>
     (length rs < length ops \<longrightarrow> er_canceled report' \<or> er_unauthorized report') \<and>
     (er_unauthorized report' \<longleftrightarrow> er_unauthorized report \<or>
        (\<exists>r \<in> set rs. or_error r = Op_kUnauthorized \<or> or_error r = Op_kForbidden)) \<and>
     (\<forall>r \<in> set (er_operations report'). warned_of (er_warnings report') r)"
  using assms
proof (induction ops arbitrary: report declines w)
  case Nil
  then show ?case by simp
next
  case (Cons op ops)
  obtain stop w1 where c: "canceled host w = (stop, w1)" by fastforce
  show ?case
  proof (cases stop)
    case True
    with Cons.prems c show ?thesis by (intro exI [of _ "[]"]) auto
  next
    case False
    obtain result warned w2 where e: "ExecuteOperation host token plan targets options op w1 = ((result, warned), w2)"
      by (metis surj_pair)
    obtain report1 declines1 where n: "note_result options op result
        (report\<lparr>er_warnings := er_warnings report @ warned\<rparr>) declines = (report1, declines1)" by fastforce
    have "result_for op result" using ExecuteOperation_for [of op host token plan targets options w1] e by simp
    from note_result_report [OF n this, simplified] obtain r vs where r:
      "er_operations report1 = er_operations report @ [r]" "answers_op op r" "or_outcome r = or_outcome result"
      "or_error r = or_error result" "er_canceled report1 = (er_canceled report \<or> or_outcome r = Outcome_kCanceled)"
      "er_unauthorized report1 = (er_unauthorized report \<or> or_error r = Op_kUnauthorized \<or> or_error r = Op_kForbidden)"
      "er_warnings report1 = er_warnings report @ warned @ vs" "warned_of (er_warnings report1) r"
      by blast
    have wf: "\<forall>r \<in> set (er_operations report1). warned_of (er_warnings report1) r"
      using Cons.prems(2) r warned_of_append by auto
    show ?thesis
    proof (cases "stops_plan r")
      case True
      then have "report' = report1" using Cons.prems(1) c False e n r(3, 4) by (auto simp: stops_plan_def)
      with r wf True show ?thesis by (intro exI [of _ "[r]"]) (auto simp: stops_plan_def)
    next
      case go: False
      then have "execute_loop host token plan targets options ops report1 declines1 w2 = ((report', declines'), w')"
        using Cons.prems(1) c False e n r(3, 4) by (simp add: stops_plan_def)
      from Cons.IH [OF this wf] obtain rs where rs: "er_operations report' = er_operations report1 @ rs"
        "length rs \<le> length ops" "list_all2 answers_op (take (length rs) ops) rs"
        "\<forall>r \<in> set (butlast rs). \<not> stops_plan r"
        "length rs < length ops \<longrightarrow> er_canceled report' \<or> er_unauthorized report'"
        "er_unauthorized report' \<longleftrightarrow> er_unauthorized report1 \<or>
          (\<exists>r \<in> set rs. or_error r = Op_kUnauthorized \<or> or_error r = Op_kForbidden)"
        "\<forall>r \<in> set (er_operations report'). warned_of (er_warnings report') r" by blast
      with r go show ?thesis by (intro exI [of _ "r # rs"]) auto
    qed
  qed
qed

text \<open>The counters.\<close>

abbreviation of_outcome :: "OperationOutcome set \<Rightarrow> ExecutionReport \<Rightarrow> nat" where
  "of_outcome S report \<equiv> length (filter (\<lambda>r. or_outcome r \<in> S) (er_operations report))"

lemma fold_count:
  "fold count_result rs report = report
     \<lparr>er_completed := er_completed report + length (filter (\<lambda>r. or_outcome r \<notin> {Outcome_kFailed,
        Outcome_kNotUnderstood, Outcome_kDeclined, Outcome_kCanceled}) rs),
      er_failed := er_failed report + length (filter (\<lambda>r. or_outcome r = Outcome_kFailed) rs),
      er_not_understood := er_not_understood report + length (filter (\<lambda>r. or_outcome r = Outcome_kNotUnderstood) rs),
      er_declined := er_declined report + length (filter (\<lambda>r. or_outcome r = Outcome_kDeclined) rs)\<rparr>"
proof (induction rs arbitrary: report)
  case (Cons r rs)
  then show ?case by (cases "or_outcome r") simp_all
qed simp

lemma Recount_counts:
  "er_completed (Recount report) = of_outcome {Outcome_kNoOp, Outcome_kUploaded, Outcome_kDownloaded,
     Outcome_kKeptBoth, Outcome_kRemoved, Outcome_kKept} report"
  "er_failed (Recount report) = of_outcome {Outcome_kFailed} report"
  "er_not_understood (Recount report) = of_outcome {Outcome_kNotUnderstood} report"
  "er_declined (Recount report) = of_outcome {Outcome_kDeclined} report"
proof -
  have "(o' \<notin> {Outcome_kFailed, Outcome_kNotUnderstood, Outcome_kDeclined, Outcome_kCanceled}) =
      (o' \<in> {Outcome_kNoOp, Outcome_kUploaded, Outcome_kDownloaded, Outcome_kKeptBoth, Outcome_kRemoved,
        Outcome_kKept})" for o' by (cases o') simp_all
  then show "er_completed (Recount report) = of_outcome {Outcome_kNoOp, Outcome_kUploaded, Outcome_kDownloaded,
     Outcome_kKeptBoth, Outcome_kRemoved, Outcome_kKept} report" by (simp add: Recount_def fold_count)
qed (simp_all add: Recount_def fold_count)

lemma Recount_keeps [simp]:
  "er_operations (Recount report) = er_operations report" "er_warnings (Recount report) = er_warnings report"
  "er_canceled (Recount report) = er_canceled report" "er_unauthorized (Recount report) = er_unauthorized report"
  by (simp_all add: Recount_def fold_count)

lemma counts_add_up:
  "er_completed (Recount report) + er_failed (Recount report) + er_not_understood (Recount report) +
     er_declined (Recount report) + of_outcome {Outcome_kCanceled} report = length (er_operations report)"
proof -
  have "of_outcome {Outcome_kNoOp, Outcome_kUploaded, Outcome_kDownloaded, Outcome_kKeptBoth, Outcome_kRemoved,
      Outcome_kKept} report + of_outcome {Outcome_kFailed} report + of_outcome {Outcome_kNotUnderstood} report +
      of_outcome {Outcome_kDeclined} report + of_outcome {Outcome_kCanceled} report = length (er_operations report)"
  proof (induction "er_operations report" arbitrary: report)
    case (Cons r rs)
    from Cons.hyps(1) [of "report\<lparr>er_operations := rs\<rparr>"] Cons.hyps(2) [symmetric]
    show ?case by (cases "or_outcome r") simp_all
  qed simp
  then show ?thesis by (simp add: Recount_counts)
qed

text \<open>C7: The report of a plan, whatever the server, the card and the callbacks do: its results are those of the
  plan's operations in order; nothing was run after a cancelled operation or a refused token, and if neither
  happened every operation has its result; what failed points at its warning; the counters add up to the
  results.\<close>

theorem report_accounts_for_the_plan:
  "let report = fst (fst (ExecutePlan host token plan targets options declines w));
       rs = er_operations report
   in list_all2 answers_op (take (length rs) (plan_operations plan)) rs \<and>
     list_all (\<lambda>r. \<not> stops_plan r) (butlast rs) \<and>
     (er_canceled report \<or> er_unauthorized report \<or> length rs = length (plan_operations plan)) \<and>
     (er_unauthorized report \<longleftrightarrow>
       list_ex (\<lambda>r. or_error r = Op_kUnauthorized \<or> or_error r = Op_kForbidden) rs) \<and>
     list_all (warned_of (er_warnings report)) rs \<and>
     er_completed report + er_failed report + er_not_understood report + er_declined report +
       of_outcome {Outcome_kCanceled} report = length rs"
proof -
  obtain report declines' w' where e: "execute_loop host token plan targets options (plan_operations plan)
      empty_report declines w = ((report, declines'), w')" by (metis surj_pair)
  have r: "fst (fst (ExecutePlan host token plan targets options declines w)) = Recount report"
    by (simp add: ExecutePlan_def e)
  from execute_loop_report [OF e] counts_add_up [of report] show ?thesis
    unfolding r Let_def Recount_keeps
    by (auto simp: empty_report_def list_all_iff list_ex_iff)
qed

section \<open>What was declined already\<close>

definition one_each :: "Declines \<Rightarrow> bool" where
  "one_each entries \<longleftrightarrow> distinct (map (\<lambda>e. (de_rom_id e, de_slot e)) entries) \<and> length entries \<le> kMaxDeclines"

lemma note_entry_None: "note_entry rom slot fp entries = None \<longleftrightarrow>
    (rom, slot) \<notin> set (map (\<lambda>e. (de_rom_id e, de_slot e)) entries)"
  by (induction entries) auto

lemma note_entry_Some: "note_entry rom slot fp entries = Some (news, entries') \<Longrightarrow>
    map (\<lambda>e. (de_rom_id e, de_slot e)) entries' = map (\<lambda>e. (de_rom_id e, de_slot e)) entries \<and>
    length entries' = length entries \<and> note_entry rom slot fp entries' = Some (False, entries')"
  by (induction entries arbitrary: entries') (auto split: if_splits)

lemma note_entry_snoc: "note_entry rom slot fp entries = None \<Longrightarrow>
    note_entry rom slot fp (entries @ [\<lparr>de_rom_id = rom, de_slot = slot, de_fingerprint = fp, de_met = True\<rparr>]) =
      Some (False, entries @ [\<lparr>de_rom_id = rom, de_slot = slot, de_fingerprint = fp, de_met = True\<rparr>])"
  by (induction entries) (auto split: if_splits)

lemma declines_laws:
  assumes "one_each entries"
  shows "one_each (snd (Note op declined hash entries))" "one_each (Forget op entries)"
    "one_each (EndTick roms entries)"
    "fst (Note op declined hash (Forget op entries))"
    "length entries < kMaxDeclines \<Longrightarrow> \<not> fst (Note op declined hash (snd (Note op declined hash entries)))"
proof -
  let ?key = "\<lambda>e. (de_rom_id e, de_slot e)"
  show "one_each (snd (Note op declined hash entries))"
    using assms note_entry_None [of "op_rom_id op" "SlotKey op" "decline_fingerprint op declined hash" entries]
    by (auto simp: Note_def one_each_def Let_def split: option.split dest: note_entry_Some)
  show "one_each (Forget op entries)"
    using assms by (auto simp: one_each_def Forget_def distinct_map intro: inj_on_subset order.trans [OF length_filter_le])
  have "map ?key (EndTick roms entries) =
      map ?key (filter (\<lambda>e. \<not> (\<not> de_met e \<and> \<not> List.member roms (de_rom_id e))) entries)"
    by (simp add: EndTick_def)
  then show "one_each (EndTick roms entries)"
    using assms by (auto simp: one_each_def distinct_map EndTick_def inj_on_def intro: order.trans [OF length_filter_le])
  have "note_entry (op_rom_id op) (SlotKey op) fp (Forget op entries) = None" for fp
    by (auto simp: note_entry_None Forget_def)
  then show "fst (Note op declined hash (Forget op entries))" by (simp add: Note_def Let_def)
  assume room: "length entries < kMaxDeclines"
  let ?fp = "decline_fingerprint op declined hash"
  show "\<not> fst (Note op declined hash (snd (Note op declined hash entries)))"
  proof (cases "note_entry (op_rom_id op) (SlotKey op) ?fp entries")
    case None
    with room show ?thesis by (simp add: Note_def Let_def note_entry_snoc)
  next
    case (Some found)
    obtain news entries' where f: "found = (news, entries')" by fastforce
    from note_entry_Some [OF Some [unfolded f]] Some f show ?thesis by (auto simp: Note_def Let_def)
  qed
qed

text \<open>The caller's table of declined operations: whatever a tick does to it, it holds one entry a save and no
  more than its bound; an operation declined again in the same words is not news, one forgotten is.\<close>

theorem a_decline_is_said_once:
  assumes "one_each entries"
  shows "one_each (snd (Note op declined hash entries)) \<and> one_each (Forget op entries) \<and>
    one_each (EndTick roms entries) \<and> fst (Note op declined hash (Forget op entries)) \<and>
    (length entries < kMaxDeclines \<longrightarrow> \<not> fst (Note op declined hash (snd (Note op declined hash entries))))"
  using declines_laws [OF assms] by blast

definition sample_op :: SyncOperation where
  "sample_op = \<lparr>op_action = kDownload, op_known_action = True, op_action_text = ''download'', op_rom_id = 7,
     op_save_id = Some 3, op_file_name = ''a.srm'', op_slot = None, op_emulator = None,
     op_reason = kUnrecognized, op_reason_text = [], op_server_updated_at = None,
     op_server_content_hash = None\<rparr>"

theorem a_decline_is_said_once_witness:
  "let declined = Decline sample_op Op_kOtherEmulator ''another emulator''
   in one_each (snd (Note sample_op declined None [])) \<and>
     \<not> fst (Note sample_op declined None (snd (Note sample_op declined None [])))"
  using a_decline_is_said_once [of "[]"] by (simp add: one_each_def kMaxDeclines_def Let_def)

end
