(* ===== verification/SyncSafety.thy ===== *)
theory SyncSafety
  imports SyncReport
begin

text \<open>
  What the executor of \<open>SyncExecute\<close> guarantees of the saves on the card: nothing replaces or removes a
  save whose bytes no backup holds.
\<close>

section \<open>What a call touches\<close>

text \<open>Only the paths in \<open>S\<close> change, in every state the card is left in, and the answers the card has
  still to give are some of those it had.\<close>

definition touches :: "bytes set \<Rightarrow> Card \<Rightarrow> Card \<Rightarrow> bool" where
  "touches S w w' \<longleftrightarrow> leaves (\<lambda>fs. \<forall>q. q \<notin> S \<longrightarrow> fs q = files w q) w w' \<and> set (answers w') \<subseteq> set (answers w)"

lemma touches_trans: "touches S w1 w2 \<Longrightarrow> touches T w2 w3 \<Longrightarrow> touches (S \<union> T) w1 w3"
  unfolding touches_def
  by (intro conjI leaves_trans [of _ w1 w2 w3]) (force simp: leaves_def)+

lemma touches_mono: "touches S w w' \<Longrightarrow> S \<subseteq> T \<Longrightarrow> touches T w w'"
  unfolding touches_def by (auto elim!: leaves_mono)

lemma touches_then: "touches S w1 w2 \<Longrightarrow> touches S w2 w3 \<Longrightarrow> touches S w1 w3"
  using touches_trans [of S w1 w2 S w3] by simp

lemma touches_refl: "touches S w w"
  by (simp add: touches_def leaves_def)

lemma touches_files: "touches S w w' \<Longrightarrow> q \<notin> S \<Longrightarrow> files w' q = files w q"
  by (auto simp: touches_def leaves_def)

lemma touches_sync: "touches S w w' \<Longrightarrow> file_sync w' = file_sync w"
  by (auto simp: touches_def leaves_def)

lemma same_touches: "same w w' \<Longrightarrow> set (answers w') \<subseteq> set (answers w) \<Longrightarrow> touches S w w'"
  by (simp add: touches_def same_leaves)

lemma next_answer_fewer: "next_answer w = (a, w') \<Longrightarrow> set (answers w') \<subseteq> set (answers w)"
  by (auto simp: next_answer_def split: list.splits)

lemma next_answer_touches: "next_answer w = (a, w') \<Longrightarrow> touches S w w'"
  by (rule same_touches [OF next_answer_same next_answer_fewer])

lemma leave_touches: "touches S w w' \<Longrightarrow> \<forall>q. q \<notin> S \<longrightarrow> fs q = files w q \<Longrightarrow> touches S w (leave fs w')"
  by (force simp: touches_def leaves_def leave_def)

text \<open>The rules that walk through a definition, one \<open>let\<close>, branch or case at a time.\<close>

lemma walk_let: "P (snd f) \<Longrightarrow> (\<And>a v. P v \<Longrightarrow> P (snd (g a v))) \<Longrightarrow> P (snd (case f of (a, v) \<Rightarrow> g a v))"
  by (cases f) simp

lemma walk_if: "(b \<Longrightarrow> P (snd x)) \<Longrightarrow> (\<not> b \<Longrightarrow> P (snd y)) \<Longrightarrow> P (snd (if b then x else y))"
  by simp

lemma walk_pair: "P v \<Longrightarrow> P (snd (a, v))"
  by simp

lemma walk_inner: "(\<And>a b. P (snd (h a b v))) \<Longrightarrow> P (snd (case_prod h p v))"
  by (cases p) simp

lemma walk_option:
  "(x = None \<Longrightarrow> P (snd y)) \<Longrightarrow> (\<And>a. x = Some a \<Longrightarrow> P (snd (g a))) \<Longrightarrow>
     P (snd (case x of None \<Rightarrow> y | Some a \<Rightarrow> g a))"
  by (cases x) simp_all

lemma walk_sum:
  "(\<And>a. x = Inl a \<Longrightarrow> P (snd (f a))) \<Longrightarrow> (\<And>a. x = Inr a \<Longrightarrow> P (snd (g a))) \<Longrightarrow>
     P (snd (case x of Inl a \<Rightarrow> f a | Inr a \<Rightarrow> g a))"
  by (cases x) simp_all

lemmas walk_touches = walk_let [where P = "touches S w" for S w] walk_if [where P = "touches S w" for S w]
  walk_pair [where P = "touches S w" for S w] walk_inner [where P = "touches S w" for S w]
  walk_option [where P = "touches S w" for S w] walk_sum [where P = "touches S w" for S w]

text \<open>The calls on the card.\<close>

lemma Exists_touches: "touches S w v \<Longrightarrow> touches S w (snd (Exists p v))"
  by (rule touches_then) (auto simp: Exists_def split: prod.splits CardAnswer.splits intro: next_answer_touches)

lemma OpenForReading_touches: "touches S w v \<Longrightarrow> touches S w (snd (OpenForReading p v))"
  by (rule touches_then)
    (auto simp: OpenForReading_def split: prod.splits CardAnswer.splits intro: next_answer_touches)

lemma ReadFails_touches: "touches S w v \<Longrightarrow> touches S w (snd (ReadFails v))"
  by (rule touches_then) (auto simp: ReadFails_def split: prod.splits CardAnswer.splits intro: next_answer_touches)

lemma Flush_touches: "touches S w v \<Longrightarrow> touches S w (snd (Flush v))"
  by (rule touches_then) (auto simp: Flush_def split: prod.splits CardAnswer.splits intro: next_answer_touches)

lemma Close_touches: "touches S w v \<Longrightarrow> touches S w (snd (Close v))"
  by (rule touches_then) (auto simp: Close_def split: prod.splits CardAnswer.splits intro: next_answer_touches)

lemma changes_touches: "next_answer w = (a, w') \<Longrightarrow> (\<And>q. q \<notin> S \<Longrightarrow> fs q = files w' q) \<Longrightarrow> touches S w (leave fs w')"
  by (rule leave_touches [OF next_answer_touches]) (auto simp: next_answer_same [THEN same_files])

lemma Remove_touches: "touches S w v \<Longrightarrow> p \<in> S \<Longrightarrow> touches S w (Remove p v)"
  by (rule touches_then) (auto simp: Remove_def split: prod.splits CardAnswer.splits
      intro: changes_touches next_answer_touches)

lemma Rename_touches: "touches S w v \<Longrightarrow> a \<in> S \<Longrightarrow> b \<in> S \<Longrightarrow> touches S w (snd (Rename a b v))"
  by (rule touches_then) (auto simp: Rename_def split: prod.splits CardAnswer.splits
      intro: changes_touches next_answer_touches)

lemma OpenForWriting_touches: "touches S w v \<Longrightarrow> p \<in> S \<Longrightarrow> touches S w (snd (OpenForWriting p v))"
  by (rule touches_then) (auto simp: OpenForWriting_def split: prod.splits CardAnswer.splits
      intro: changes_touches next_answer_touches)

lemma Write_touches: "touches S w v \<Longrightarrow> p \<in> S \<Longrightarrow> touches S w (snd (Write p d v))"
  by (rule touches_then) (auto simp: Write_def appended_def split: prod.splits CardAnswer.splits option.splits
      intro: changes_touches next_answer_touches)

lemma Sync_touches: "touches S w v \<Longrightarrow> p \<in> S \<Longrightarrow> touches S w (snd (Sync p v))"
  by (rule touches_then) (auto simp: Sync_def split: prod.splits CardAnswer.splits
      intro: changes_touches next_answer_touches touches_refl)

lemmas call_touches = Exists_touches OpenForReading_touches ReadFails_touches Flush_touches Close_touches
  Remove_touches Rename_touches OpenForWriting_touches Write_touches Sync_touches touches_refl

lemma copy_loop_touches: "temp \<in> S \<Longrightarrow> touches S v w \<Longrightarrow> touches S v (snd (copy_loop temp rest got w))"
proof (induction "length rest" arbitrary: rest got w rule: less_induct)
  case less
  show ?case
    unfolding copy_loop.simps [of temp rest got w] Let_def
    by (intro walk_touches call_touches less.prems less.hyps) (use less.prems in simp_all)
qed

definition beside :: "bytes \<Rightarrow> bytes set" where
  "beside path = {path, TempPathFor path, PreviousPathFor path, DirectoryOf path}"

lemma CommitStaged_touches:
  assumes "touches S v w" "staged \<in> S" "beside path \<subseteq> S"
  shows "touches S v (snd (CommitStaged staged path w))"
proof -
  have p: "path \<in> S" "PreviousPathFor path \<in> S" "DirectoryOf path \<in> S" using assms(3) by (auto simp: beside_def)
  show ?thesis
    unfolding CommitStaged_def Let_def by (intro walk_touches call_touches p assms)
qed

lemma CopyStaged_touches:
  assumes "touches S v w" "TempPathFor to \<in> S"
  shows "touches S v (snd (CopyStaged from to w))"
  unfolding CopyStaged_def Let_def
  by (intro walk_touches call_touches copy_loop_touches assms)

lemma CopyAtomically_touches:
  assumes "touches S v w" "beside to \<subseteq> S"
  shows "touches S v (snd (CopyAtomically from to w))"
proof -
  have t: "TempPathFor to \<in> S" using assms(2) by (auto simp: beside_def)
  show ?thesis
    unfolding CopyAtomically_def Let_def
    by (intro walk_touches CopyStaged_touches CommitStaged_touches assms t)
qed

lemma bounded_loop_touches: "touches S v w \<Longrightarrow> touches S v (snd (bounded_loop limit rest got w))"
proof (induction "length rest" arbitrary: rest got w rule: less_induct)
  case less
  show ?case
    unfolding bounded_loop.simps [of limit rest got w] Let_def
    by (intro walk_touches call_touches less.prems less.hyps) (use less.prems in simp_all)
qed

lemma ReadBounded_touches: "touches S v w \<Longrightarrow> touches S v (snd (ReadBounded path limit w))"
  unfolding ReadBounded_def Let_def by (intro walk_touches call_touches bounded_loop_touches)

lemma stream_loop_touches: "touches S v w \<Longrightarrow> touches S v (snd (stream_loop rest h w))"
proof (induction "length rest" arbitrary: rest h w rule: less_induct)
  case less
  show ?case
    unfolding stream_loop.simps [of rest h w] Let_def
    by (intro walk_touches call_touches less.prems less.hyps) (use less.prems in simp_all)
qed

lemma HashFile_touches: "touches S v w \<Longrightarrow> touches S v (snd (HashFile path w))"
  unfolding HashFile_def Let_def by (intro walk_touches call_touches stream_loop_touches)

lemma UnchangedSinceBackup_touches: "touches S v w \<Longrightarrow> touches S v (snd (UnchangedSinceBackup host sd b w))"
  unfolding UnchangedSinceBackup_def Let_def
  by (intro walk_touches call_touches ReadBounded_touches HashFile_touches)

section \<open>Backing up\<close>

text \<open>A card that never answers that a file is absent when it is there.\<close>

definition honest :: "Card \<Rightarrow> bool" where
  "honest w \<longleftrightarrow> list_all (\<lambda>a. case a of Refuses e \<Rightarrow> \<not> Absent e | TakesOnly _ e \<Rightarrow> \<not> Absent e | Does \<Rightarrow> True)
     (answers w)"

lemma honest_touches: "touches S w w' \<Longrightarrow> honest w \<Longrightarrow> honest w'"
  by (auto simp: touches_def honest_def list_all_iff)

lemma OpenForReading_honest:
  assumes "OpenForReading p w = (Inl e, w')" "honest w" "Absent e"
  shows "files w p = None"
proof -
  obtain a w1 where a: "next_answer w = (a, w1)" by fastforce
  then have "a = Does \<or> a \<in> set (answers w)" by (auto simp: next_answer_def split: list.splits)
  with a assms next_answer_same [OF a] show ?thesis
    by (auto simp: OpenForReading_def honest_def list_all_iff same_def split: CardAnswer.splits option.splits
        dest: bspec)
qed

lemma CopyAtomically_missing:
  assumes run: "CopyAtomically from to w = (c, w')" and "cr_error c = CopyError_kSourceMissing" "honest w"
  shows "files w from = None"
proof -
  obtain source w1 where o: "OpenForReading from w = (source, w1)" by fastforce
  show ?thesis
  proof (cases source)
    case (Inl e)
    with run o assms(2) have "Absent e"
      by (auto simp: CopyAtomically_def CopyStaged_def cr_ok_def cr_failed_def split: if_splits)
    with OpenForReading_honest o Inl assms(3) show ?thesis by blast
  next
    case (Inr d)
    with run o assms(2) show ?thesis
      by (auto simp: CopyAtomically_def CopyStaged_def Let_def cr_ok_def cr_failed_def
          split: if_splits prod.splits)
  qed
qed

text \<open>What a backup leaves: the whole file under a name of the backup directory, or, where there was no
  file to save, nothing.\<close>

definition backed_up_as :: "'n Host \<Rightarrow> bytes \<Rightarrow> bytes \<Rightarrow> bytes \<Rightarrow> Card \<Rightarrow> Card \<Rightarrow> bool" where
  "backed_up_as host backup_dir source backup_path w w' \<longleftrightarrow>
     (if backup_path = [] then honest w \<longrightarrow> files w source = None
      else \<exists>f n. files w source = Some f \<and> backup_path = backup_dir @ ''/'' @ n \<and>
        Resolve host backup_path \<noteq> [] \<and>
        files w' (Resolve host backup_path) = Some \<lparr>data = data f, on_card = file_sync w\<rparr>)"

text \<open>The candidates of a backup keep clear of \<open>keep\<close>.\<close>

definition backups_clear_of :: "'n Host \<Rightarrow> bytes \<Rightarrow> bytes set \<Rightarrow> bool" where
  "backups_clear_of host backup_dir keep \<longleftrightarrow>
     (\<forall>n. let b = Resolve host (backup_dir @ ''/'' @ n) in b \<noteq> [] \<longrightarrow> file_path b \<and> beside b \<inter> keep = {})"

lemma backup_loop_spec:
  assumes "backup_loop host dir sd source name_of attempt w = ((e, backup_path, msg), w')"
    and clear: "backups_clear_of host dir keep" and src: "source \<in> keep"
  shows "touches (- keep) w w' \<and> (e = Op_kNone \<longrightarrow> backed_up_as host dir source backup_path w w')"
  using assms(1)
proof (induction "kMaxBackupAttempts - attempt" arbitrary: attempt w rule: less_induct)
  case less
  let ?bp = "dir @ ''/'' @ name_of attempt"
  let ?b = "Resolve host ?bp"
  show ?case
  proof (cases "attempt < kMaxBackupAttempts \<and> ?b \<noteq> []")
    case False
    with less.prems show ?thesis
      by (subst (asm) backup_loop.simps) (auto simp: Let_def intro: touches_refl split: if_splits)
  next
    case True
    obtain there w1 where w1: "Exists ?b w = (there, w1)" by fastforce
    obtain c w2 where w2: "CopyAtomically source ?b w1 = (c, w2)" by fastforce
    have b: "file_path ?b" "beside ?b \<subseteq> - keep" "?b \<in> - keep"
      using clear True by (fastforce simp: backups_clear_of_def Let_def beside_def)+
    have t1: "touches (- keep) w w1" using Exists_touches [OF touches_refl, of "- keep" w ?b] w1 by simp
    have t2: "touches (- keep) w w2"
      using CopyAtomically_touches [OF t1 b(2), of source] w2 by simp
    have f1: "files w1 source = files w source" "file_sync w1 = file_sync w" "honest w \<Longrightarrow> honest w1"
      using touches_files [OF t1] src touches_sync [OF t1] honest_touches [OF t1] by auto
    show ?thesis
    proof (cases there)
      case there: True
      have "backup_loop host dir sd source name_of (attempt + 1) w1 = ((e, backup_path, msg), w')"
        using less.prems True w1 there by (subst (asm) backup_loop.simps) (simp add: Let_def)
      then have "touches (- keep) w1 w' \<and> (e = Op_kNone \<longrightarrow> backed_up_as host dir source backup_path w1 w')"
        using True by (intro less.hyps) auto
      then show ?thesis using touches_then [OF t1] f1 by (auto simp: backed_up_as_def split: if_splits)
    next
      case False
      have missing: "honest w \<longrightarrow> files w source = None" if "cr_error c = CopyError_kSourceMissing"
        using CopyAtomically_missing [OF w2 that] f1 by simp
      have whole: "\<exists>f. files w source = Some f \<and> files w2 ?b = Some \<lparr>data = data f, on_card = file_sync w\<rparr>"
        if "cr_ok c"
        using CopyAtomically_commits [OF w2 b(1), of None] that f1 by (auto simp: commits_def)
      show ?thesis
        using less.prems True w1 w2 False t2 missing whole Remove_touches [OF t2 b(3)]
        by (subst (asm) backup_loop.simps)
          (auto simp: Let_def backed_up_as_def split: if_splits)
    qed
  qed
qed

section \<open>Nothing written since\<close>

lemma HashFile_ok:
  assumes "HashFile path w = (r, w')" "ho_ok r"
  shows "\<exists>f. files w path = Some f \<and> ho_content_hash r = Md5Hex (data f)"
  using HashFile_effect [OF assms(1)] assms(2) by blast

lemma ReadBounded_missing:
  assumes "ReadBounded path limit w = ((BoundedRead_kMissing, s), w')" "honest w"
  shows "files w path = None"
proof -
  obtain source w1 where o: "OpenForReading path w = (source, w1)" by fastforce
  with assms OpenForReading_honest [of path w _ w1] show ?thesis
    by (cases source) (auto simp: ReadBounded_def split: if_splits prod.splits option.splits)
qed

text \<open>Whatever wrote to the card in between, a save is only replaced while the backup still holds its
  bytes: the last check before a commit passes exactly on a card where the save and the backup hash
  alike, or, where there was nothing to back up, where there still is nothing.\<close>

theorem unchanged_means_backed_up:
  assumes run: "UnchangedSinceBackup host sd_path backup_sd_path w = ((Op_kNone, msg), w')" and "honest w"
  shows "if backup_sd_path = [] then files w (Resolve host sd_path) = None
    else \<exists>f g. files w (Resolve host sd_path) = Some f \<and> files w (Resolve host backup_sd_path) = Some g \<and>
      Md5Hex (data f) = Md5Hex (data g)"
proof (cases "backup_sd_path = []")
  case True
  obtain answer s w1 where r: "ReadBounded (Resolve host sd_path) 0 w = ((answer, s), w1)" by (metis surj_pair)
  have "answer = BoundedRead_kMissing"
    using run True r by (auto simp: UnchangedSinceBackup_def Let_def split: if_splits)
  with ReadBounded_missing r assms(2) True show ?thesis by auto
next
  case False
  obtain kept w1 where k: "HashFile (Resolve host backup_sd_path) w = (kept, w1)" by fastforce
  obtain current w2 where c: "HashFile (Resolve host sd_path) w1 = (current, w2)" by fastforce
  have "ho_ok kept" "ho_ok current" "ho_content_hash current = ho_content_hash kept"
    using run False k c by (auto simp: UnchangedSinceBackup_def Let_def split: if_splits)
  moreover have "files w1 = files w" using HashFile_effect [OF k] by (simp add: same_def)
  ultimately show ?thesis using HashFile_ok [OF k] HashFile_ok [OF c] False by auto
qed

section \<open>A fetch\<close>

text \<open>What the fetch relies on in what it calls: nothing but the download writes to the card, and that
  only under the name it is given and the \<open>.part\<close> beside it.\<close>

definition quiet :: "'n Host \<Rightarrow> bool" where
  "quiet host \<longleftrightarrow> (\<forall>r w. card (snd (Send host r w)) = card w) \<and>
     (\<forall>w. card (snd (now host w)) = card w) \<and> (\<forall>w. card (snd (canceled host w)) = card w) \<and>
     (\<forall>p w. card (snd (CreateDirectory host p w)) = card w) \<and>
     (\<forall>p w. card (RemoveEmptyDirectory host p w) = card w) \<and>
     (\<forall>r t w. touches {dt_path t, dt_path t @ ''.part''} (card w) (card (snd (Download host r t w))))"

lemma quiet_simps [simp]:
  assumes "quiet host"
  shows "Send host r w = (a, w') \<Longrightarrow> card w' = card w" "now host w = (t, w') \<Longrightarrow> card w' = card w"
    "card (RemoveEmptyDirectory host p w) = card w"
  using assms unfolding quiet_def by (metis snd_conv, metis snd_conv, simp)

lemma take_back_card [simp]: "quiet host \<Longrightarrow> card (take_back host made w) = card w"
proof -
  assume "quiet host"
  then have "card (fold (RemoveEmptyDirectory host) xs w) = card w" for xs
    by (induction xs arbitrary: w) simp_all
  then show ?thesis by (simp add: take_back_def)
qed

lemma on_card_do_card: "on_card_do f w = (a, w') \<Longrightarrow> f (card w) = (a, card w')"
  by (auto simp: on_card_do_def split: prod.splits)

lemma fetch_staged_spec:
  assumes q: "quiet host"
    and run: "fetch_staged host token op save_id d options w = ((verified, warned), w')"
  shows "touches {TempPathFor d, TempPathFor d @ ''.part''} (card w) (card w') \<and>
    (\<forall>digest. verified = Inr digest \<longrightarrow> (\<exists>g. files (card w') (TempPathFor d) = Some g \<and>
       Md5Hex (data g) = digest \<and> IsContentHash digest \<and>
       (\<forall>h. op_server_content_hash op = Some h \<longrightarrow> h = digest)))"
proof -
  let ?staged = "TempPathFor d" and ?S = "{TempPathFor d, TempPathFor d @ ''.part''}"
  obtain described ws w1 where d: "DescribeServerSave host token save_id options (DescribeOp op) w =
      ((described, ws), w1)" by (metis surj_pair)
  have c1: "card w1 = card w"
    using d q by (auto simp: DescribeServerSave_def Let_def split: prod.splits if_splits)
  let ?w2 = "w1\<lparr>card := Remove ?staged (card w1)\<rparr>"
  let ?into = "\<lparr>dt_path = ?staged, dt_resume = False, dt_expected_size = ss_file_size_bytes described\<rparr>"
  obtain fetched w3 where f: "Download host (download_request token save_id options) ?into ?w2 = (fetched, w3)"
    by fastforce
  have "touches ?S (card ?w2) (card w3)"
    using q f unfolding quiet_def by (metis (no_types, lifting) snd_conv DownloadTarget.select_convs(1))
  then have t3: "touches ?S (card w) (card w3)"
    using Remove_touches [OF touches_refl, of ?staged ?S "card w"] c1 by (auto intro: touches_then)
  obtain digest w4 where h: "on_card_do (HashFile ?staged) w3 = (digest, w4)" by fastforce
  note h' = on_card_do_card [OF h]
  have t4: "touches ?S (card w) (card w4)" using HashFile_touches [OF t3, of ?staged] h' by simp
  have f4: "files (card w4) = files (card w3)" using HashFile_effect [OF h'] by (simp add: same_def)
  note run' = run [unfolded fetch_staged_def Let_def d prod.case f h]
  show ?thesis
    using run' t3 t4 f4 HashFile_ok [OF h'] Remove_touches [OF t3, of "?staged @ ''.part''"]
    by (auto split: option.splits if_splits)
qed

lemma touches_leaves: "touches S w w' \<Longrightarrow> q \<notin> S \<Longrightarrow> files w q = x \<Longrightarrow> leaves (\<lambda>fs. fs q = x) w w'"
  unfolding touches_def by (auto elim!: leaves_mono)

text \<open>What the bytes of the save can be found as: the save itself, or, once it has been replaced by the
  verified bytes, a file of the backup directory.\<close>

definition kept_in_backup :: "'n Host \<Rightarrow> bytes \<Rightarrow> bytes \<Rightarrow> bool \<Rightarrow> (bytes \<rightharpoonup> File) \<Rightarrow> bool" where
  "kept_in_backup host dir d sync fs \<longleftrightarrow>
     (\<exists>n. Resolve host (dir @ ''/'' @ n) \<noteq> [] \<and>
       fs (Resolve host (dir @ ''/'' @ n)) = Some \<lparr>data = d, on_card = sync\<rparr>)"

text \<open>The plan's own digest, where it names one.\<close>

definition planned :: "SyncOperation \<Rightarrow> bytes \<Rightarrow> bool" where
  "planned op digest \<longleftrightarrow> (\<forall>h. op_server_content_hash op = Some h \<longrightarrow> digest = h)"

definition old_or_replaced :: "'n Host \<Rightarrow> bytes \<Rightarrow> bool \<Rightarrow> bytes \<Rightarrow> File \<Rightarrow> SyncOperation \<Rightarrow> (bytes \<rightharpoonup> File) \<Rightarrow> bool" where
  "old_or_replaced host dir sync d old op fs \<longleftrightarrow>
     recoverable d fs = Some old \<or>
     (\<exists>g. recoverable d fs = Some g \<and> planned op (Md5Hex (data g)) \<and>
       kept_in_backup host dir (data old) sync fs)"

definition fetch_area :: "bytes \<Rightarrow> bytes set" where
  "fetch_area d = insert (TempPathFor d @ ''.part'') (beside d)"

lemma fetch_area_members:
  "d \<in> fetch_area d" "TempPathFor d \<in> fetch_area d" "beside d \<subseteq> fetch_area d"
  by (auto simp: fetch_area_def beside_def)

lemma leaves_old_file: "leaves (\<lambda>fs. fs d = Some f) w w' \<Longrightarrow> leaves (old_or_replaced host dir sync d f op) w w'"
  by (erule leaves_mono) (simp add: old_or_replaced_def recoverable_def)

lemma Archive_card:
  assumes q: "quiet host" and run: "Archive host token op target options t result w = ((r, ws), w')"
  shows "touches S (card w) (card w') \<and> files (card w') = files (card w) \<and>
    or_backup_sd_path r = or_backup_sd_path result"
proof (cases "eo_send_content_hash options \<and> Resolve host (or_backup_sd_path result) \<noteq> []")
  case True
  obtain digest w1 where h: "on_card_do (HashFile (Resolve host (or_backup_sd_path result))) w = (digest, w1)"
    by fastforce
  note h' = on_card_do_card [OF h]
  have "touches S (card w) (card w1)"
    using HashFile_touches [OF touches_refl, of S "card w"] h' by (metis snd_conv)
  moreover have "files (card w1) = files (card w)" using HashFile_effect [OF h'] by (simp add: same_def)
  ultimately show ?thesis
    using run True h q by (auto simp: Archive_def Let_def split: if_splits prod.splits option.splits)
next
  case False
  with run q show ?thesis
    by (auto simp: Archive_def Let_def touches_refl split: if_splits prod.splits option.splits)
qed

lemma commit_keeps:
  assumes run: "CommitStaged (TempPathFor d) d w = (c, w')" and d: "file_path d"
    and old: "files w d = Some f" and new: "files w (TempPathFor d) = Some g" "planned op (Md5Hex (data g))"
    and b: "b = Resolve host (dir @ ''/'' @ n)" "b \<noteq> []" "b \<notin> beside d"
      "files w b = Some \<lparr>data = data f, on_card = sync\<rparr>"
  shows "leaves (old_or_replaced host dir sync d f op) w w' \<and>
    (wr_ok c \<longrightarrow> files w' d = Some g) \<and> files w' b = Some \<lparr>data = data f, on_card = sync\<rparr>"
proof -
  have co: "commits d (Some g) w (wr_ok c) w'"
    using CommitStaged_commits [OF run _ _ d] new by simp
  have t: "touches (beside d) w w'"
    using CommitStaged_touches [OF touches_refl, of "TempPathFor d" "beside d" d w] run
    by (auto simp: beside_def)
  have kb: "leaves (\<lambda>fs. fs b = Some \<lparr>data = data f, on_card = sync\<rparr>) w w'"
    using touches_leaves [OF t b(3, 4)] .
  have "leaves (old_or_new d (Some f) (Some g)) w w'"
    using co recoverable_present [of "files w" d f, OF old] by (simp add: commits_def)
  with kb have "leaves (\<lambda>fs. old_or_new d (Some f) (Some g) fs \<and>
      fs b = Some \<lparr>data = data f, on_card = sync\<rparr>) w w'" by (force simp: leaves_def)
  then have "leaves (old_or_replaced host dir sync d f op) w w'"
  proof (rule leaves_mono)
    fix fs
    assume "old_or_new d (Some f) (Some g) fs \<and> fs b = Some \<lparr>data = data f, on_card = sync\<rparr>"
    moreover from this have "kept_in_backup host dir (data f) sync fs"
      using b(1, 2) by (auto simp: kept_in_backup_def)
    ultimately show "old_or_replaced host dir sync d f op fs"
      using new(2) by (auto simp: old_or_replaced_def)
  qed
  then show ?thesis using co kb by (auto simp: commits_def leaves_def split: if_splits)
qed

lemma fetch_commit_spec:
  assumes q: "quiet host" and clear: "backups_clear_of host (eo_backup_dir options) (fetch_area d)"
    and d: "d = Resolve host (st_sd_path target)" "file_path d" and honest: "honest (card w)"
    and old: "files (card w) d = Some f" and new: "files (card w) (TempPathFor d) = Some g"
    and digest: "planned op (Md5Hex (data g))"
    and run: "fetch_commit host token op save_id target matched d options success w = ((put_in_place, warned), w')"
  shows "leaves (old_or_replaced host (eo_backup_dir options) (file_sync (card w)) d f op) (card w) (card w') \<and>
    (\<forall>r. put_in_place = Inr r \<longrightarrow> files (card w') d = Some g \<and> or_backup_sd_path r \<noteq> [] \<and>
       files (card w') (Resolve host (or_backup_sd_path r)) =
         Some \<lparr>data = data f, on_card = file_sync (card w)\<rparr>)"
    (is "leaves ?P _ _ \<and> _")
proof -
  let ?keep = "fetch_area d"
  obtain t w1 where n: "now host w = (t, w1)" by fastforce
  have c1: "card w1 = card w" using q n by simp
  obtain be bp msg w2 where b: "on_card_do (BackUpFirst host (eo_backup_dir options) (st_sd_path target)
      (op_rom_id op) (SlotBackupDiscriminator (op_slot op)) (st_file_name target) (UnixSeconds t)) w1 =
      ((be, bp, msg), w2)" by (metis surj_pair)
  note b' = on_card_do_card [OF b]
  have src: "Resolve host (st_sd_path target) = d" "d \<noteq> []" using d by (simp_all add: file_path_def)
  have spec: "touches (- ?keep) (card w) (card w2) \<and>
      (be = Op_kNone \<longrightarrow> backed_up_as host (eo_backup_dir options) d bp (card w) (card w2))"
    using backup_loop_spec [OF _ clear, of "st_sd_path target" d] b' src fetch_area_members(1)
    by (simp add: BackUpFirst_def c1)
  note t2 = spec [THEN conjunct1]
  have l2: "leaves (\<lambda>fs. fs d = Some f) (card w) (card w2)"
    using touches_leaves [OF t2 _ old] fetch_area_members(1) by simp
  have f2: "files (card w2) (TempPathFor d) = Some g" "files (card w2) d = Some f" "honest (card w2)"
    using touches_files [OF t2] fetch_area_members old new honest_touches [OF t2 honest] by auto
  have bu: "BackUp host options op target w = (((be, bp, msg), UnixSeconds t), w2)"
    by (simp add: BackUp_def n b)
  show ?thesis
  proof (cases "be = Op_kNone")
    case False
    then have w': "card w' = Remove (TempPathFor d) (card w2)" "\<exists>l. put_in_place = Inl l"
      using run by (auto simp: fetch_commit_def bu Let_def)
    have "leaves (\<lambda>fs. fs d = Some f) (card w2) (card w')"
      using Remove_leaves [of "\<lambda>fs. fs d = Some f" "card w2" "TempPathFor d"] f2 w'(1) by simp
    with leaves_trans [OF l2] w'(2) show ?thesis by (auto intro: leaves_old_file)
  next
    case True
    with spec have "backed_up_as host (eo_backup_dir options) d bp (card w) (card w2)" by simp
    then obtain n' where bp: "bp \<noteq> []" "bp = eo_backup_dir options @ ''/'' @ n'" "Resolve host bp \<noteq> []"
      "files (card w2) (Resolve host bp) = Some \<lparr>data = data f, on_card = file_sync (card w)\<rparr>"
      using honest old by (auto simp: backed_up_as_def split: if_splits)
    have out: "Resolve host bp \<notin> beside d"
      using clear bp(2,3) fetch_area_members(3) by (fastforce simp: backups_clear_of_def Let_def beside_def)
    let ?r0 = "(ResultFor op)\<lparr>or_sd_path := st_sd_path target, or_save_id := Some save_id, or_backup_sd_path := bp\<rparr>"
    obtain r1 ws w3 where a: "(if success = Outcome_kKeptBoth \<and> matched \<and> bp \<noteq> []
        then Archive host token op target options (UnixSeconds t) ?r0 w2 else ((?r0, []), w2)) = ((r1, ws), w3)"
      by (metis surj_pair)
    have t3: "touches {} (card w2) (card w3)" and f3: "files (card w3) = files (card w2)"
      and r1: "or_backup_sd_path r1 = bp"
      using a Archive_card [OF q] by (auto split: if_splits intro: touches_refl)
    obtain ue um w4 where u: "on_card_do (UnchangedSinceBackup host (st_sd_path target) bp) w3 = ((ue, um), w4)"
      by (metis surj_pair)
    have t4: "touches {} (card w2) (card w4)"
      using UnchangedSinceBackup_touches [OF t3] on_card_do_card [OF u] by (metis snd_conv)
    have f4: "files (card w4) = files (card w2)" using touches_files [OF t4] by (intro ext) simp
    obtain c w5 where k: "on_card_do (CommitStaged (TempPathFor d) d) w4 = (c, w5)" by fastforce
    have l4: "leaves (\<lambda>fs. fs d = Some f) (card w) (card w4)"
      using leaves_trans [OF l2 touches_leaves [OF t4 _ f2(2)]] by simp
    have run': "((put_in_place, warned), w') =
        (if ue \<noteq> Op_kNone then ((Inl (fail_with op ue um r1), ws), w4\<lparr>card := Remove (TempPathFor d) (card w4)\<rparr>)
         else if \<not> wr_ok c then ((Inl (fail_with op Op_kCommitFailed
           (''the verified bytes could not be put in place: '' @ wr_message c) r1), ws), w5)
         else ((Inr r1, ws), w5))"
      using run [symmetric] True by (simp add: fetch_commit_def bu Let_def a u k)
    show ?thesis
    proof (cases "ue = Op_kNone")
      case False
      then have w': "card w' = Remove (TempPathFor d) (card w4)" "\<exists>l. put_in_place = Inl l"
        using run' by auto
      have "leaves (\<lambda>fs. fs d = Some f) (card w4) (card w')"
        using Remove_leaves [of "\<lambda>fs. fs d = Some f" "card w4" "TempPathFor d"] f2 f4 w'(1) by simp
      with leaves_trans [OF l4] w'(2) show ?thesis by (auto intro: leaves_old_file)
    next
      case ok: True
      then have w': "w' = w5" "\<forall>r. put_in_place = Inr r \<longrightarrow> r = r1 \<and> wr_ok c" using run' by (auto split: if_splits)
      have "leaves ?P (card w4) (card w5) \<and> (wr_ok c \<longrightarrow> files (card w5) d = Some g) \<and>
          files (card w5) (Resolve host bp) = Some \<lparr>data = data f, on_card = file_sync (card w)\<rparr>"
        using commit_keeps [OF on_card_do_card [OF k] d(2), of f g op "Resolve host bp" host
            "eo_backup_dir options" n'] f2 f4 digest bp out by simp
      with leaves_trans [OF leaves_old_file [OF l4]] w' r1 bp(1) show ?thesis by auto
    qed
  qed
qed

lemma OpFail_error [simp]: "or_error (OpFail op e m) = e" "or_error (Decline op e m) = e"
    "or_error (fail_with op e m result) = e" "or_error (ResultFor op) = Op_kNone"
  by (simp_all add: OpFail_def Decline_def fail_with_def ResultFor_def)

lemma OpFail_outcome [simp]: "or_outcome (OpFail op e m) \<noteq> Outcome_kRemoved"
  by (simp add: OpFail_def)

lemma OpFail_backup [simp]: "or_backup_sd_path (fail_with op e m result) = or_backup_sd_path result"
  by (simp add: fail_with_def)

lemma OpRefused_is_an_error: "OpRefused result what = Some (e, why) \<Longrightarrow> e \<noteq> Op_kNone"
  by (auto simp: OpRefused_def split: if_splits)

lemma fetch_staged_lost:
  assumes "fetch_staged host token op save_id d options w = ((Inl l, warned), w')"
  shows "or_error l \<noteq> Op_kNone"
proof -
  obtain described ws w1 where d: "DescribeServerSave host token save_id options (DescribeOp op) w =
      ((described, ws), w1)" by (metis surj_pair)
  show ?thesis
    using assms unfolding fetch_staged_def Let_def d prod.case
    by (auto split: prod.splits option.splits if_splits dest: OpRefused_is_an_error)
qed

lemma fetch_commit_lost:
  assumes "fetch_commit host token op save_id target matched d options success w = ((Inl l, warned), w')"
  shows "or_error l \<noteq> Op_kNone"
  using assms unfolding fetch_commit_def Let_def by (auto split: prod.splits if_splits)

lemma fetch_confirm_card:
  assumes q: "quiet host"
    and run: "fetch_confirm host token op save_id target digest options success result w = (r, w')"
  shows "card w' = card w \<and> or_backup_sd_path r = or_backup_sd_path result"
proof -
  obtain confirmed w1 where s: "Send host (confirm_request token save_id digest options) w = (confirmed, w1)"
    by fastforce
  show ?thesis
    using run quiet_simps(1) [OF q s] unfolding fetch_confirm_def Let_def s prod.case
    by (cases "OpRefused confirmed ''the download confirmation''") auto
qed

lemma fetch_spec:
  assumes q: "quiet host" and clear: "backups_clear_of host (eo_backup_dir options) (fetch_area d)"
    and d: "d = Resolve host (st_sd_path target)" "file_path d" and honest: "honest (card w)"
    and old: "files (card w) d = Some f"
    and run: "Fetch host token op (Some target) options success w = ((r, warned), w')"
  shows "leaves (old_or_replaced host (eo_backup_dir options) (file_sync (card w)) d f op) (card w) (card w') \<and>
    (or_error r = Op_kNone \<longrightarrow> (\<exists>g. files (card w') d = Some g \<and> planned op (Md5Hex (data g))) \<and>
       files (card w') (Resolve host (or_backup_sd_path r)) =
         Some \<lparr>data = data f, on_card = file_sync (card w)\<rparr>)"
proof (cases "op_save_id op = None \<or> OtherEmulator op target None options w \<noteq> []")
  case True
  then have "w' = w \<or> w' = take_back host [] w" "or_error r \<noteq> Op_kNone"
    using run by (auto simp: Fetch_def fetch_target_def OpFail_def Decline_def Let_def take_back_def split: option.splits)
  then show ?thesis using q old by (auto simp: leaves_def old_or_replaced_def recoverable_def)
next
  case False
  then obtain save_id where i: "op_save_id op = Some save_id" and e: "OtherEmulator op target None options w = []"
    by auto
  have t: "fetch_target host op (Some target) options w = ((Inr target, []), w)"
    by (simp add: fetch_target_def e)
  obtain verified ws w1 where s: "fetch_staged host token op save_id d options w = ((verified, ws), w1)"
    by (metis surj_pair)
  have spec: "touches {TempPathFor d, TempPathFor d @ ''.part''} (card w) (card w1) \<and>
    (\<forall>digest. verified = Inr digest \<longrightarrow> (\<exists>g. files (card w1) (TempPathFor d) = Some g \<and>
       Md5Hex (data g) = digest \<and> IsContentHash digest \<and>
       (\<forall>h. op_server_content_hash op = Some h \<longrightarrow> h = digest)))"
    by (rule fetch_staged_spec [OF q s])
  note t1 = spec [THEN conjunct1]
  have out: "d \<notin> {TempPathFor d, TempPathFor d @ ''.part''}" by (simp add: TempPathFor_def)
  have l1: "leaves (\<lambda>fs. fs d = Some f) (card w) (card w1)"
    by (rule touches_leaves [OF t1 out old])
  have c1: "files (card w1) d = Some f" "honest (card w1)" "file_sync (card w1) = file_sync (card w)"
    using touches_files [OF t1 out] old honest_touches [OF t1 honest] touches_sync [OF t1] by simp_all
  have dn: "d \<noteq> []" using d by (simp add: file_path_def)
  note run' = run [unfolded Fetch_def i option.case t Let_def prod.case sum.case d(1) [symmetric] s if_not_P [OF dn]]
  show ?thesis
  proof (cases verified)
    case (Inl l)
    then have w': "card w' = Remove (TempPathFor d) (card w1)" "or_error r = or_error l" "verified = Inl r"
      using run' q by auto
    have "or_error r \<noteq> Op_kNone" using fetch_staged_lost s w'(3) by blast
    moreover have "leaves (\<lambda>fs. fs d = Some f) (card w1) (card w')"
      using Remove_leaves [of "\<lambda>fs. fs d = Some f" "card w1" "TempPathFor d"] c1 w'(1) by simp
    ultimately show ?thesis using leaves_trans [OF l1] by (auto intro: leaves_old_file)
  next
    case (Inr digest)
    with spec obtain g where g: "files (card w1) (TempPathFor d) = Some g" "planned op (Md5Hex (data g))"
      by (auto simp: planned_def)
    obtain put_in_place ws' w2 where c: "fetch_commit host token op save_id target True d options success w1 =
        ((put_in_place, ws'), w2)" by (metis surj_pair)
    note k = fetch_commit_spec [OF q clear d c1(2) c1(1) g c]
    have l2: "leaves (old_or_replaced host (eo_backup_dir options) (file_sync (card w)) d f op) (card w) (card w2)"
      by (rule leaves_trans [OF leaves_old_file [OF l1]]) (use k c1(3) in simp)
    show ?thesis
    proof (cases put_in_place)
      case lost: (Inl l)
      then have "r = l" "card w' = card w2"
        using run' q by (auto simp: Inr c)
      moreover have "or_error l \<noteq> Op_kNone" using fetch_commit_lost c lost by blast
      ultimately show ?thesis using l2 by simp
    next
      case placed: (Inr result)
      obtain r' w3 where f: "fetch_confirm host token op save_id target digest options success result w2 = (r', w3)"
        by fastforce
      then have "r = r'" "w' = w3"
        using run' f by (auto simp: Inr c placed)
      moreover have "card w3 = card w2" "or_backup_sd_path r' = or_backup_sd_path result"
        using fetch_confirm_card [OF q f] by simp_all
      ultimately show ?thesis using l2 k placed g c1(3) by auto
    qed
  qed
qed

section \<open>A removal\<close>

lemma RemoveFile_effect:
  assumes "RemoveFile path w = (gone, w')"
  shows "leaves (\<lambda>fs. fs = files w \<or> fs = (files w)(path := None)) w w'"
    "gone \<Longrightarrow> files w' path = None" "\<not> gone \<Longrightarrow> files w' path = files w path"
  using assms Remove_leaves [of "\<lambda>fs. fs = files w \<or> fs = (files w)(path := None)" w path]
  by (auto simp: RemoveFile_def Remove_def leave_def leaves_def next_answer_def
      split: list.splits CardAnswer.splits dest: fun_cong [of _ _ path])

definition kept_or_removed :: "'n Host \<Rightarrow> bytes \<Rightarrow> bool \<Rightarrow> bytes \<Rightarrow> File \<Rightarrow> bytes \<Rightarrow> (bytes \<rightharpoonup> File) \<Rightarrow> bool" where
  "kept_or_removed host dir sync d old expected fs \<longleftrightarrow>
     fs d = Some old \<or>
     (fs d = None \<and> Md5Hex (data old) = expected \<and> kept_in_backup host dir (data old) sync fs)"

definition reported_digest :: "'n ExecuteOptions \<Rightarrow> SaveTarget \<Rightarrow> bytes" where
  "reported_digest options target = (case ReportedFor options (target_key target) of None \<Rightarrow> []
     | Some save \<Rightarrow> (case cs_content_hash save of Some h \<Rightarrow> h | None \<Rightarrow> []))"

lemma BackUp_spec:
  assumes q: "quiet host" and clear: "backups_clear_of host (eo_backup_dir options) keep"
    and d: "Resolve host (st_sd_path target) \<in> keep"
    and run: "BackUp host options op target w = (((be, bp, msg), t), w')"
  shows "touches (- keep) (card w) (card w') \<and> (be = Op_kNone \<longrightarrow>
    backed_up_as host (eo_backup_dir options) (Resolve host (st_sd_path target)) bp (card w) (card w'))"
proof -
  obtain t' w1 where n: "now host w = (t', w1)" by fastforce
  have c1: "card w1 = card w" using q n by simp
  have "on_card_do (BackUpFirst host (eo_backup_dir options) (st_sd_path target)
      (op_rom_id op) (SlotBackupDiscriminator (op_slot op)) (st_file_name target) (UnixSeconds t')) w1 =
      ((be, bp, msg), w')"
    using run by (auto simp: BackUp_def n Let_def split: prod.splits)
  note b = on_card_do_card [OF this]
  show ?thesis
  proof (cases "Resolve host (st_sd_path target) = []")
    case True
    with b show ?thesis by (auto simp: BackUpFirst_def c1 touches_refl)
  next
    case False
    with b show ?thesis
      using backup_loop_spec [OF _ clear d, of "st_sd_path target"] by (simp add: BackUpFirst_def c1)
  qed
qed

lemma HashFile_card: "on_card_do (HashFile p) w = (r, w') \<Longrightarrow>
    touches S (card w) (card w') \<and> files (card w') = files (card w)"
  using HashFile_touches [OF touches_refl, of S "card w" p] HashFile_effect [of p "card w" r "card w'"]
  by (auto dest!: on_card_do_card simp: same_def)

lemma Unchanged_card: "on_card_do (UnchangedSinceBackup host sd b) w = (r, w') \<Longrightarrow>
    touches S (card w) (card w') \<and> files (card w') = files (card w)"
  using UnchangedSinceBackup_touches [OF touches_refl, of S "card w" host sd b]
    UnchangedSinceBackup_touches [OF touches_refl, of "{}" "card w" host sd b]
  by (auto dest!: on_card_do_card intro!: ext dest: touches_files)

text \<open>Once the file is gone, what is left to do is to put the directory on the card.\<close>

lemma Sync_kept:
  assumes "Sync p w = (r, w')" "files w b = Some \<lparr>data = x, on_card = file_sync w\<rparr>" "files w d = None"
  shows "leaves (\<lambda>fs. fs d = None \<and> fs b = Some \<lparr>data = x, on_card = file_sync w\<rparr>) w w'"
  using assms
  by (auto simp: Sync_def leave_def leaves_def next_answer_def split: if_splits list.splits CardAnswer.splits)

lemma removal_spec:
  assumes run: "on_card_do (RemoveFile d) w = (gone, w')" and b: "b \<noteq> d"
    and files: "files (card w) d = Some f" "files (card w) b = Some \<lparr>data = x, on_card = file_sync (card w)\<rparr>"
  shows "leaves (\<lambda>fs. (fs d = Some f \<or> fs d = None) \<and> fs b = Some \<lparr>data = x, on_card = file_sync (card w)\<rparr>)
      (card w) (card w') \<and> files (card w') d = (if gone then None else Some f)"
  using RemoveFile_effect [OF on_card_do_card [OF run]] files b by (cases gone) (auto elim!: leaves_mono)

lemma remove_spec:
  assumes q: "quiet host" and clear: "backups_clear_of host (eo_backup_dir options) {d}"
    and d: "d = Resolve host (st_sd_path target)" and honest: "honest (card w)"
    and old: "files (card w) d = Some f"
    and run: "RemoveSave host op (Some target) options w = (r, w')"
  shows "leaves (kept_or_removed host (eo_backup_dir options) (file_sync (card w)) d f
      (reported_digest options target)) (card w) (card w') \<and>
    (files (card w') d = None \<longleftrightarrow> or_outcome r = Outcome_kRemoved)" (is "leaves ?P _ _ \<and> _")
proof -
  let ?expected = "reported_digest options target"
  show ?thesis
  proof (cases "eo_on_server_delete options = OnServerDelete_kKeep \<or> d = [] \<or> ?expected = []")
    case True
    then have "w' = w \<and> or_outcome r \<noteq> Outcome_kRemoved"
      using run d by (auto simp: RemoveSave_def OpFail_def reported_digest_def Let_def split: if_splits)
    with old show ?thesis by (simp add: leaves_def kept_or_removed_def)
  next
    case False
    then have r0: "eo_on_server_delete options \<noteq> OnServerDelete_kKeep" "d \<noteq> []" "?expected \<noteq> []" by auto
    obtain be bp msg t w1 where b: "BackUp host options op target w = (((be, bp, msg), t), w1)"
      by (metis surj_pair)
    have bs: "touches (- {d}) (card w) (card w1) \<and>
        (be = Op_kNone \<longrightarrow> backed_up_as host (eo_backup_dir options) d bp (card w) (card w1))"
      using BackUp_spec [OF q clear _ b] d by simp
    have old1: "files (card w1) d = Some f" using touches_files [OF bs [THEN conjunct1]] old by simp
    have kept_is: "?P fs" if "fs d = Some f" for fs using that by (simp add: kept_or_removed_def)
    have l1: "leaves (\<lambda>fs. fs d = Some f) (card w) (card w1)"
      using touches_leaves [OF bs [THEN conjunct1] _ old] by simp
    note run' = run [unfolded RemoveSave_def option.case Let_def if_not_P [OF r0(1)] d [symmetric]
        if_not_P [OF r0(2)] reported_digest_def [symmetric] if_not_P [OF r0(3)] b prod.case]
    show ?thesis
    proof (cases "be = Op_kNone")
      case False
      then have "w' = w1 \<and> or_outcome r \<noteq> Outcome_kRemoved" using run' by auto
      with l1 old1 kept_is show ?thesis by (auto elim: leaves_mono)
    next
      case be: True
      with bs have "backed_up_as host (eo_backup_dir options) d bp (card w) (card w1)" by simp
      then obtain n where bp: "bp \<noteq> []" "bp = eo_backup_dir options @ ''/'' @ n" "Resolve host bp \<noteq> []"
        "files (card w1) (Resolve host bp) = Some \<lparr>data = data f, on_card = file_sync (card w)\<rparr>"
        using honest old by (auto simp: backed_up_as_def split: if_splits)
      have bd: "Resolve host bp \<noteq> d"
        using clear bp(2,3) by (fastforce simp: backups_clear_of_def Let_def beside_def)
      obtain digest w2 where h: "on_card_do (HashFile (Resolve host bp)) w1 = (digest, w2)" by fastforce
      note run2 = run' [unfolded be simp_thms if_False if_not_P [OF bp(1)] h prod.case]
      have h2: "touches {} (card w1) (card w2)" "files (card w2) = files (card w1)"
        using HashFile_card [OF h] by auto
      have l2: "leaves (\<lambda>fs. fs d = Some f) (card w) (card w2)"
        using leaves_trans [OF l1 touches_leaves [OF h2(1) _ old1]] by simp
      show ?thesis
      proof (cases "\<not> ho_ok digest \<or> ho_content_hash digest \<noteq> ?expected")
        case True
        with run2 have w': "card w' = Remove (Resolve host bp) (card w2)" "or_outcome r \<noteq> Outcome_kRemoved"
          by auto
        have "leaves (\<lambda>fs. fs d = Some f) (card w2) (card w')"
          using Remove_leaves [of "\<lambda>fs. fs d = Some f" "card w2" "Resolve host bp"] old1 h2 bd w'(1) by simp
        with leaves_trans [OF l2 this] w' show ?thesis by (auto intro: kept_is elim: leaves_mono dest: leaves_files)
      next
        case False
        then have dig: "Md5Hex (data f) = ?expected"
          using HashFile_ok [OF on_card_do_card [OF h]] bp(4) by auto
        obtain ue um w3 where u: "on_card_do (UnchangedSinceBackup host (st_sd_path target) bp) w2 = ((ue, um), w3)"
          by (metis surj_pair)
        have h3: "touches {} (card w2) (card w3)" "files (card w3) = files (card w1)"
          using Unchanged_card [OF u] h2 by auto
        have l3: "leaves (\<lambda>fs. fs d = Some f) (card w) (card w3)"
          using leaves_trans [OF l2 touches_leaves [OF h3(1)]] h2 old1 by simp
        note run3 = run2 [unfolded if_not_P [OF False] u prod.case]
        show ?thesis
        proof (cases "ue = Op_kNone")
          case False
          with run3 have "w' = w3" "or_outcome r \<noteq> Outcome_kRemoved" by auto
          with l3 old1 h3 kept_is show ?thesis by (auto elim: leaves_mono)
        next
          case ue: True
          obtain gone w4 where g: "on_card_do (RemoveFile d) w3 = (gone, w4)" by fastforce
          note run4 = run3 [unfolded ue simp_thms if_False g prod.case]
          have sync: "file_sync (card w3) = file_sync (card w)" using leaves_sync [OF l3] .
          have rem: "leaves (\<lambda>fs. (fs d = Some f \<or> fs d = None) \<and>
              fs (Resolve host bp) = Some \<lparr>data = data f, on_card = file_sync (card w)\<rparr>) (card w3) (card w4) \<and>
              files (card w4) d = (if gone then None else Some f)"
            using removal_spec [OF g bd, of f "data f"] h3 old1 bp(4) sync by simp
          then have l4: "leaves ?P (card w) (card w4)"
            using bp(2,3) dig
            by (intro leaves_trans [OF leaves_mono [OF l3 kept_is]])
              (auto simp: kept_or_removed_def kept_in_backup_def elim!: leaves_mono)
          show ?thesis
          proof (cases gone)
            case False
            with run4 have "w' = w4" "or_outcome r \<noteq> Outcome_kRemoved" by auto
            with l4 rem False show ?thesis by simp
          next
            case True
            with rem leaves_files [OF rem [THEN conjunct1]] leaves_sync [OF rem [THEN conjunct1]] sync
            have f4: "files (card w4) d = None" "files (card w4) (Resolve host bp) =
                Some \<lparr>data = data f, on_card = file_sync (card w4)\<rparr>" by simp_all
            have "or_outcome r = Outcome_kRemoved" and
              w': "w' = w4 \<or> (\<exists>p a. on_card_do (Sync p) w4 = (a, w'))"
              using run4 True by (auto split: option.splits prod.splits)
            moreover have "leaves (\<lambda>fs. fs d = None \<and> fs (Resolve host bp) =
                Some \<lparr>data = data f, on_card = file_sync (card w4)\<rparr>) (card w4) (card w')"
              using w'
            proof
              assume "w' = w4"
              with f4 show ?thesis by (simp add: leaves_def)
            qed (use f4 in \<open>auto intro!: Sync_kept dest!: on_card_do_card\<close>)
            then have "leaves ?P (card w4) (card w')" "files (card w') d = None"
              using bp(2,3) dig leaves_sync [OF l4]
              by (auto simp: kept_or_removed_def kept_in_backup_def elim!: leaves_mono dest: leaves_files)
            ultimately show ?thesis using leaves_trans [OF l4] by simp
          qed
        qed
      qed
    qed
  qed
qed

section \<open>The guarantees\<close>

declare quiet_simps [simp del]

text \<open>C5: A fetch that replaces a save: at every moment of it the save's bytes are recoverable under its own
  name, or the bytes there are the ones the plan described and the old ones are in a backup; a fetch
  that succeeded names that backup.\<close>

theorem fetch_keeps_the_old_bytes:
  assumes "quiet host" "backups_clear_of host (eo_backup_dir options) (fetch_area d)"
    and "d = Resolve host (st_sd_path target)" "file_path d" "honest (card w)"
    and "files (card w) d = Some f"
    and "Fetch host token op (Some target) options success w = ((r, warned), w')"
  shows "leaves (old_or_replaced host (eo_backup_dir options) (file_sync (card w)) d f op) (card w) (card w') \<and>
    (or_error r = Op_kNone \<longrightarrow> (\<exists>g. files (card w') d = Some g \<and> planned op (Md5Hex (data g))) \<and>
       files (card w') (Resolve host (or_backup_sd_path r)) =
         Some \<lparr>data = data f, on_card = file_sync (card w)\<rparr>)"
  using assms by (rule fetch_spec)

text \<open>A card with one save, a host whose downloads write the new bytes, and room for one backup.\<close>

definition sample_save :: Card where
  "sample_save = \<lparr>files = [''/s/a.srm'' \<mapsto> \<lparr>data = ''old'', on_card = True\<rparr>], seen = [], answers = [],
     rename_replaces = False, file_sync = True\<rparr>"

definition sample_target :: SaveTarget where
  "sample_target = \<lparr>st_rom_id = 7, st_slot = None, st_sd_path = ''/s/a.srm'', st_file_name = ''a.srm''\<rparr>"

definition sample_fetch :: "HttpResult list ExecuteOptions" where
  "sample_fetch = \<lparr>eo_backup_dir = ''/b'', eo_timeout = 1, eo_stall_timeout = 1, eo_place = None,
     eo_reads_as = None, eo_keep_local = [], eo_send_content_hash = True,
     eo_on_server_delete = OnServerDelete_kRemove, eo_delete_action = True,
     eo_reported = Some [\<lparr>cs_rom_id = 7, cs_file_name = ''a.srm'', cs_slot = None, cs_emulator = None,
       cs_content_hash = Some (Md5Hex ''old''), cs_updated_at = 0, cs_file_size_bytes = 3\<rparr>]\<rparr>"

definition card_host :: "HttpResult list Host" where
  "card_host = list_host
     \<lparr>Download := (\<lambda>_ t w. (hd (net w), w\<lparr>net := tl (net w),
        card := leave ((files (card w))(dt_path t \<mapsto> \<lparr>data = ''new'', on_card = False\<rparr>)) (card w)\<rparr>)),
      Resolve := (\<lambda>p. if p = ''/s/a.srm'' \<or> p = ''/b/7-archival-0.srm'' then p else [])\<rparr>"

lemma card_host_quiet: "quiet card_host"
proof -
  have "touches {dt_path t, dt_path t @ ''.part''} v (leave ((files v)(dt_path t \<mapsto> x)) v)" for t :: DownloadTarget and x and v :: Card
    by (intro leave_touches touches_refl) simp
  then show ?thesis by (simp add: quiet_def card_host_def list_host_def)
qed

lemma card_host_clear: "backups_clear_of card_host (eo_backup_dir sample_fetch) (fetch_area ''/s/a.srm'')"
proof -
  let ?b = "''/b/7-archival-0.srm''"
  have c: "file_path ?b" "beside ?b \<inter> fetch_area ''/s/a.srm'' = {}"
    by (simp_all add: file_path_def beside_def fetch_area_def TempPathFor_def PreviousPathFor_def DirectoryOf_def)
  have "Resolve card_host (''/b/'' @ n) \<in> {[], ?b}" for n by (simp add: card_host_def)
  then have "Resolve card_host (''/b/'' @ n) = [] \<or> Resolve card_host (''/b/'' @ n) = ?b" for n by blast
  moreover have "eo_backup_dir sample_fetch @ ''/'' @ n = ''/b/'' @ n" for n by (simp add: sample_fetch_def)
  ultimately show ?thesis unfolding backups_clear_of_def Let_def using c by metis
qed

lemma sample_saved: "honest sample_save" "files sample_save ''/s/a.srm'' = Some \<lparr>data = ''old'', on_card = True\<rparr>"
    "file_path ''/s/a.srm''" "''/s/a.srm'' = Resolve card_host (st_sd_path sample_target)"
    "file_sync sample_save"
  by (simp_all add: honest_def sample_save_def file_path_def card_host_def sample_target_def)

lemma two_pairs: "p = ((fst (fst p), snd (fst p)), snd p)"
  by simp

definition sample_world :: "HttpResult list World" where
  "sample_world = \<lparr>card = sample_save, net = [answered_with 200 [], answered_with 200 [], answered_with 200 []]\<rparr>"

theorem fetch_keeps_the_old_bytes_witness:
  "leaves (old_or_replaced card_host ''/b'' True ''/s/a.srm'' \<lparr>data = ''old'', on_card = True\<rparr>
        (sample_op\<lparr>op_server_content_hash := Some (Md5Hex ''new'')\<rparr>)) sample_save
     (card (snd (Fetch card_host sample_token (sample_op\<lparr>op_server_content_hash := Some (Md5Hex ''new'')\<rparr>)
         (Some sample_target) sample_fetch Outcome_kDownloaded sample_world)))"
  using fetch_keeps_the_old_bytes [OF card_host_quiet card_host_clear sample_saved(4, 3) _ _ two_pairs,
      of sample_world] sample_saved
  by (simp add: sample_world_def sample_fetch_def)

text \<open>C6: A removal the server asks for: at every moment of it the save is there, or its bytes are the ones
  this tick reported and a backup holds them; and it is gone exactly when the result says so.\<close>

theorem removal_keeps_a_copy:
  assumes "quiet host" "backups_clear_of host (eo_backup_dir options) {d}"
    and "d = Resolve host (st_sd_path target)" "honest (card w)" "files (card w) d = Some f"
    and "RemoveSave host op (Some target) options w = (r, w')"
  shows "leaves (kept_or_removed host (eo_backup_dir options) (file_sync (card w)) d f
      (reported_digest options target)) (card w) (card w') \<and>
    (files (card w') d = None \<longleftrightarrow> or_outcome r = Outcome_kRemoved)"
  using assms by (rule remove_spec)

lemma clear_subset: "backups_clear_of host dir S \<Longrightarrow> T \<subseteq> S \<Longrightarrow> backups_clear_of host dir T"
  unfolding backups_clear_of_def Let_def by blast

lemma sample_reported:
  "reported_digest sample_fetch sample_target = Md5Hex ''old''" "eo_backup_dir sample_fetch = ''/b''"
  by (simp_all add: reported_digest_def ReportedFor_def FindByKey_def sample_target_def sample_fetch_def)

theorem removal_keeps_a_copy_witness:
  "leaves (kept_or_removed card_host ''/b'' True ''/s/a.srm'' \<lparr>data = ''old'', on_card = True\<rparr> (Md5Hex ''old''))
     sample_save (card (snd (RemoveSave card_host sample_op (Some sample_target) sample_fetch sample_world)))"
  using removal_keeps_a_copy [OF card_host_quiet clear_subset [OF card_host_clear] sample_saved(4) _ _
      surjective_pairing, of sample_world] sample_saved(1, 2, 5) fetch_area_members(1) sample_reported
  by (simp add: sample_world_def)

text \<open>The one name a backup writes under, with the staging names beside it: a name of the backup directory
  that nothing was under, as long as the card answered what it was asked.  (A card that will not open an
  older backup this once makes its name look free, and that backup is what is lost then, as the comment in
  \<open>BackUpFirst\<close> says.)\<close>

definition one_free_name :: "'n Host \<Rightarrow> bytes \<Rightarrow> Card \<Rightarrow> Card \<Rightarrow> bool" where
  "one_free_name host backup_dir w w' \<longleftrightarrow> touches {} w w' \<or>
     (\<exists>n. touches (beside (Resolve host (backup_dir @ ''/'' @ n))) w w' \<and>
       (list_all (\<lambda>a. a = Does) (answers w) \<longrightarrow> files w (Resolve host (backup_dir @ ''/'' @ n)) = None))"

lemma Exists_all_does:
  "Exists p w = (there, w') \<Longrightarrow> list_all (\<lambda>a. a = Does) (answers w) \<Longrightarrow> there \<longleftrightarrow> files w p \<noteq> None"
  by (auto simp: Exists_def next_answer_def list_all_iff split: list.splits CardAnswer.splits)

lemma all_does_touches: "touches S w w' \<Longrightarrow> list_all (\<lambda>a. a = Does) (answers w) \<Longrightarrow> list_all (\<lambda>a. a = Does) (answers w')"
  by (auto simp: touches_def list_all_iff)

lemma one_free_name_then:
  assumes "touches {} w w1" "one_free_name host dir w1 w'"
  shows "one_free_name host dir w w'"
proof -
  have f: "files w1 = files w" using touches_files [OF assms(1)] by (intro ext) simp
  have t: "touches S w w'" if "touches S w1 w'" for S using touches_trans [OF assms(1) that] by simp
  show ?thesis
    using assms(2) t all_does_touches [OF assms(1)] unfolding one_free_name_def f by blast
qed

lemma backup_loop_one_free_name:
  "backup_loop host dir sd source name_of attempt w = (r, w') \<Longrightarrow> one_free_name host dir w w'"
proof (induction "kMaxBackupAttempts - attempt" arbitrary: attempt w rule: less_induct)
  case less
  let ?b = "Resolve host (dir @ ''/'' @ name_of attempt)"
  show ?case
  proof (cases "attempt < kMaxBackupAttempts \<and> ?b \<noteq> []")
    case False
    with less.prems show ?thesis
      by (subst (asm) backup_loop.simps) (auto simp: Let_def one_free_name_def intro: touches_refl split: if_splits)
  next
    case True
    obtain there w1 where w1: "Exists ?b w = (there, w1)" by fastforce
    have t1: "touches S w w1" for S using Exists_touches [OF touches_refl, of S w ?b] w1 by simp
    show ?thesis
    proof (cases there)
      case there: True
      have "backup_loop host dir sd source name_of (attempt + 1) w1 = (r, w')"
        using less.prems True w1 there by (subst (asm) backup_loop.simps) (simp add: Let_def)
      with True have "one_free_name host dir w1 w'" by (intro less.hyps) auto
      then show ?thesis by (rule one_free_name_then [OF t1])
    next
      case False
      obtain c w2 where w2: "CopyAtomically source ?b w1 = (c, w2)" by fastforce
      have t2: "touches (beside ?b) w w2"
        using CopyAtomically_touches [OF t1, of ?b "beside ?b" source] w2 by simp
      have "w' = w2 \<or> w' = Remove ?b w2"
        using less.prems True w1 w2 False by (subst (asm) backup_loop.simps) (auto simp: Let_def split: if_splits)
      with t2 Remove_touches [OF t2, of ?b] have "touches (beside ?b) w w'" by (auto simp: beside_def)
      with Exists_all_does [OF w1] False show ?thesis by (auto simp: one_free_name_def)
    qed
  qed
qed

text \<open>C8: What a backup answers, on any card: the whole file under a name of the backup directory, or, with no
  name, that there was no file.  Nothing clear of the backup directory's names is touched, and of those
  names only one, with its staging names, which was free unless the card refused to say so; every older
  backup keeps its bytes.\<close>

theorem a_backup_is_the_whole_file:
  assumes "backups_clear_of host dir keep" "Resolve host sd_path \<in> keep"
    and "BackUpFirst host dir sd_path rom_id discriminator name t w = ((e, backup_path, msg), w')"
  shows "touches (- keep) w w' \<and> one_free_name host dir w w' \<and>
    (e = Op_kNone \<longrightarrow> backed_up_as host dir (Resolve host sd_path) backup_path w w')"
proof (cases "Resolve host sd_path = []")
  case True
  with assms(3) show ?thesis by (auto simp: BackUpFirst_def touches_refl one_free_name_def)
next
  case False
  with assms(3) backup_loop_spec [OF _ assms(1, 2), of sd_path] show ?thesis
    by (simp add: BackUpFirst_def backup_loop_one_free_name)
qed

theorem a_backup_is_the_whole_file_witness:
  "touches (- {''/s/a.srm''}) sample_save
     (snd (BackUpFirst card_host ''/b'' ''/s/a.srm'' 7 ''archival'' ''a.srm'' 0 sample_save)) \<and>
   one_free_name card_host ''/b'' sample_save
     (snd (BackUpFirst card_host ''/b'' ''/s/a.srm'' 7 ''archival'' ''a.srm'' 0 sample_save))"
proof -
  obtain e p m w' where b: "BackUpFirst card_host ''/b'' ''/s/a.srm'' 7 ''archival'' ''a.srm'' 0 sample_save =
      ((e, p, m), w')" by (metis surj_pair)
  have "backups_clear_of card_host ''/b'' {''/s/a.srm''}"
    using clear_subset [OF card_host_clear] by (simp add: sample_fetch_def fetch_area_def beside_def)
  from a_backup_is_the_whole_file [OF this _ b]
  have "touches (- {''/s/a.srm''}) sample_save w' \<and> one_free_name card_host ''/b'' sample_save w'"
    by (simp add: card_host_def)
  with b show ?thesis by simp
qed

lemma stream_loop_healthy: "answers w = [] \<Longrightarrow> \<exists>h'. stream_loop d h w = ((h', False), w)"
proof (induction "length d" arbitrary: d h rule: less_induct)
  case less
  then show ?case by (subst stream_loop.simps) simp
qed

lemma HashFile_healthy:
  assumes "answers w = []" "files w p = Some f"
  shows "HashFile p w = (\<lparr>ho_content_hash = Md5Hex (data f), ho_error = HashError_kNone, ho_reused = False,
    ho_message = []\<rparr>, w)"
proof -
  obtain h where h: "stream_loop (data f) Md5Hasher w = ((h, False), w)"
    using stream_loop_healthy [OF assms(1)] by blast
  have r: "HashFile p w = (\<lparr>ho_content_hash = Md5_FinishHex h, ho_error = HashError_kNone, ho_reused = False,
      ho_message = []\<rparr>, w)"
    using assms h by (simp add: HashFile_def OpenForReading_def next_answer_def)
  from HashFile_ok [OF r] assms(2) have "Md5_FinishHex h = Md5Hex (data f)" by (simp add: ho_ok_def)
  with r show ?thesis by simp
qed

text \<open>The sample card after its save was backed up.\<close>

definition backed_up_card :: Card where
  "backed_up_card = sample_save\<lparr>files := (files sample_save)(''/b/7-archival-0.srm'' \<mapsto>
     \<lparr>data = ''old'', on_card = True\<rparr>)\<rparr>"

theorem unchanged_means_backed_up_witness:
  "\<exists>f g. files backed_up_card ''/s/a.srm'' = Some f \<and> files backed_up_card ''/b/7-archival-0.srm'' = Some g \<and>
     Md5Hex (data f) = Md5Hex (data g)"
proof -
  have h: "honest backed_up_card" "answers backed_up_card = []"
    by (simp_all add: honest_def backed_up_card_def sample_save_def)
  have f: "files backed_up_card ''/s/a.srm'' = Some \<lparr>data = ''old'', on_card = True\<rparr>"
    "files backed_up_card ''/b/7-archival-0.srm'' = Some \<lparr>data = ''old'', on_card = True\<rparr>"
    by (simp_all add: backed_up_card_def sample_save_def)
  have "UnchangedSinceBackup card_host ''/s/a.srm'' ''/b/7-archival-0.srm'' backed_up_card =
      ((Op_kNone, []), backed_up_card)"
    using HashFile_healthy [OF h(2) f(1)] HashFile_healthy [OF h(2) f(2)]
    by (simp add: UnchangedSinceBackup_def card_host_def ho_ok_def)
  from unchanged_means_backed_up [OF this h(1)] show ?thesis by (simp add: card_host_def)
qed

end
