(* ===== verification/OrderedMap.thy ===== *)
theory OrderedMap
  imports Prelude "HOL-Library.Product_Lexorder" "HOL-Library.Option_ord" "HOL-Library.List_Lexorder"
begin

text \<open>
  \<open>std::map\<close>: the rows in the order of their keys, as the program walks and writes them. A key is a
  pair, an optional or a string, ordered as C++ orders them (\<open>nullopt\<close> first, strings by their unsigned
  bytes), which is the order of the library's instances.
\<close>

type_synonym ('k, 'v) omap = "('k \<times> 'v) list"

definition om_find :: "'k \<Rightarrow> ('k, 'v) omap \<Rightarrow> 'v option" where
  "om_find k m = map_of m k"

fun om_set :: "'k::linorder \<Rightarrow> 'v \<Rightarrow> ('k, 'v) omap \<Rightarrow> ('k, 'v) omap" where
  "om_set k v [] = [(k, v)]"
| "om_set k v ((l, x) # m) =
     (if k < l then (k, v) # (l, x) # m else if k = l then (k, v) # m else (l, x) # om_set k v m)"

definition om_erase :: "'k \<Rightarrow> ('k, 'v) omap \<Rightarrow> ('k, 'v) omap" where
  "om_erase k m = filter (\<lambda>row. fst row \<noteq> k) m"

definition om_ok :: "('k::linorder, 'v) omap \<Rightarrow> bool" where
  "om_ok m \<longleftrightarrow> sorted_wrt (<) (map fst m)"

lemma om_ok_simps [simp]: "om_ok []" "om_ok ((k, v) # m) \<longleftrightarrow> (\<forall>l \<in> fst ` set m. k < l) \<and> om_ok m"
  by (auto simp: om_ok_def)

lemma om_set_keys: "fst ` set (om_set k v m) = insert k (fst ` set m)"
  by (induction k v m rule: om_set.induct) auto

lemma om_set_ok: "om_ok m \<Longrightarrow> om_ok (om_set k v m)"
  by (induction k v m rule: om_set.induct) (auto simp: om_set_keys)

lemma om_find_set: "om_find l (om_set k v m) = (if l = k then Some v else om_find l m)"
  if "om_ok m"
  using that
proof (induction k v m rule: om_set.induct)
  case (2 k v l' x m)
  then show ?case by (auto simp: om_find_def)
qed (simp add: om_find_def)

lemma om_find_erase: "om_find l (om_erase k m) = (if l = k then None else om_find l m)"
  by (induction m) (auto simp: om_find_def om_erase_def)

lemma om_erase_ok: "om_ok m \<Longrightarrow> om_ok (om_erase k m)"
  by (induction m) (auto simp: om_erase_def)

lemma om_find_None: "om_find k m = None \<longleftrightarrow> k \<notin> fst ` set m"
  by (simp add: om_find_def map_of_eq_None_iff)

lemma om_find_mem: "om_ok m \<Longrightarrow> om_find k m = Some v \<longleftrightarrow> (k, v) \<in> set m"
proof -
  assume "om_ok m"
  then have "distinct (map fst m)" by (auto simp: om_ok_def strict_sorted_iff)
  then show ?thesis by (simp add: om_find_def)
qed

lemma om_set_length: "om_ok m \<Longrightarrow> length (om_set k v m) = (if om_find k m = None then length m + 1 else length m)"
  by (induction k v m rule: om_set.induct) (auto simp: om_find_None)

text \<open>Rows read back in the order they were written are the map again.\<close>

lemma om_set_snoc: "\<forall>l \<in> fst ` set m. l < k \<Longrightarrow> om_set k v m = m @ [(k, v)]"
  by (induction k v m rule: om_set.induct) auto

lemma om_rebuilt: "om_ok (m @ m') \<Longrightarrow> foldl (\<lambda>m (k, v). om_set k v m) m m' = m @ m'"
proof (induction m' arbitrary: m)
  case (Cons row m')
  then have "om_set (fst row) (snd row) m = m @ [row]"
    by (subst om_set_snoc) (auto simp: om_ok_def sorted_wrt_append)
  with Cons show ?case by (simp add: case_prod_beta)
qed simp

lemma om_eqI: "om_ok m \<Longrightarrow> om_ok m' \<Longrightarrow> (\<And>k. om_find k m = om_find k m') \<Longrightarrow> m = m'"
proof -
  assume ok: "om_ok m" "om_ok m'" and find: "\<And>k. om_find k m = om_find k m'"
  have rows: "set m = set m'" using find om_find_mem [OF ok(1)] om_find_mem [OF ok(2)] by (metis surj_pair subsetI subset_antisym)
  have "map fst m = map fst m'"
    using ok rows by (intro sorted_distinct_set_unique) (auto simp: om_ok_def strict_sorted_iff)
  moreover have "inj_on fst (set m \<union> set m')"
  proof (rule inj_onI)
    fix x y assume "x \<in> set m \<union> set m'" "y \<in> set m \<union> set m'" "fst x = fst y"
    then have "om_find (fst x) m = Some (snd x)" "om_find (fst x) m = Some (snd y)"
      using rows om_find_mem [OF ok(1)] by (cases x; cases y; auto)+
    with \<open>fst x = fst y\<close> show "x = y" by (simp add: prod_eq_iff)
  qed
  ultimately show ?thesis by (rule map_inj_on)
qed

section \<open>A table of rows\<close>

text \<open>What the clients of a table rely on: looking up, setting and erasing a row by its key.\<close>

locale row_table =
  fixes lookup :: "'k \<Rightarrow> 't \<Rightarrow> 'v option" and put_row :: "'v \<Rightarrow> 't \<Rightarrow> 't" and drop_row :: "'k \<Rightarrow> 't \<Rightarrow> 't"
    and key_of :: "'v \<Rightarrow> 'k" and table_ok :: "'t \<Rightarrow> bool"
  assumes lookup_put: "table_ok t \<Longrightarrow> lookup k (put_row v t) = (if k = key_of v then Some v else lookup k t)"
    and lookup_drop: "table_ok t \<Longrightarrow> lookup k (drop_row l t) = (if k = l then None else lookup k t)"
    and put_ok: "table_ok t \<Longrightarrow> table_ok (put_row v t)"
    and drop_ok: "table_ok t \<Longrightarrow> table_ok (drop_row l t)"
begin

lemma fold_put_ok: "table_ok t \<Longrightarrow> table_ok (fold put_row vs t)"
  by (induction vs arbitrary: t) (simp_all add: put_ok)

lemma lookup_fold_other: "table_ok t \<Longrightarrow> k \<notin> key_of ` set vs \<Longrightarrow> lookup k (fold put_row vs t) = lookup k t"
  by (induction vs arbitrary: t) (simp_all add: put_ok lookup_put)

lemma lookup_fold_put:
  "table_ok t \<Longrightarrow> v \<in> set vs \<Longrightarrow> distinct (map key_of vs) \<Longrightarrow> lookup (key_of v) (fold put_row vs t) = Some v"
proof (induction vs arbitrary: t)
  case (Cons w vs)
  show ?case
  proof (cases "v = w")
    case True
    with Cons.prems have "key_of v \<notin> key_of ` set vs" by auto
    with True Cons.prems(1) show ?thesis by (simp add: lookup_fold_other put_ok lookup_put)
  next
    case False
    with Cons show ?thesis by (simp add: put_ok)
  qed
qed simp

lemma lookup_fold_drop: "table_ok t \<Longrightarrow> lookup k (fold drop_row ls t) = (if k \<in> set ls then None else lookup k t)"
  by (induction ls arbitrary: t) (auto simp: drop_ok lookup_drop)

lemma fold_drop_ok: "table_ok t \<Longrightarrow> table_ok (fold drop_row ls t)"
  by (induction ls arbitrary: t) (simp_all add: drop_ok)

end

end
