(* ===== verification/StateDb.thy ===== *)
theory StateDb
  imports TokenStore Hashes SyncWire OrderedMap
begin

text \<open>
  \<open>core/src/state_db.cpp\<close>: the baseline a tick leaves behind, one row a save or a state, its text, the
  reader that throws the whole of it away over one bad line, and its file.
\<close>

section \<open>Rows\<close>

record SaveRecord =
  sv_rom_id :: int
  sv_slot :: "bytes option"
  sv_content_hash :: bytes
  sv_mtime :: Timestamp
  sv_file_size_bytes :: int
  sv_server_updated_at :: "Timestamp option"
  sv_server_content_hash :: "bytes option"
  sv_deleted_on_server :: bool

record StateRecord =
  sa_rom_id :: int
  sa_file_name :: bytes
  sa_emulator :: bytes
  sa_content_hash :: bytes
  sa_mtime :: Timestamp
  sa_file_size_bytes :: int
  sa_server_state_id :: int
  sa_server_updated_at :: Timestamp
  sa_server_file_size_bytes :: int

type_synonym BaselineKey = "int \<times> bytes option"
type_synonym StateKey = "int \<times> bytes"

abbreviation sv_key :: "SaveRecord \<Rightarrow> BaselineKey" where "sv_key r \<equiv> (sv_rom_id r, sv_slot r)"
abbreviation sa_key :: "StateRecord \<Rightarrow> StateKey" where "sa_key r \<equiv> (sa_rom_id r, sa_file_name r)"

record Baseline =
  bl_rows :: "(BaselineKey, SaveRecord) omap"
  bl_states :: "(StateKey, StateRecord) omap"

definition no_baseline :: Baseline where
  "no_baseline = \<lparr>bl_rows = [], bl_states = []\<rparr>"

definition Baseline_Find :: "BaselineKey \<Rightarrow> Baseline \<Rightarrow> SaveRecord option" where
  "Baseline_Find key b = om_find key (bl_rows b)"

definition Baseline_Set :: "SaveRecord \<Rightarrow> Baseline \<Rightarrow> Baseline" where
  "Baseline_Set r b = b\<lparr>bl_rows := om_set (sv_key r) r (bl_rows b)\<rparr>"

definition Baseline_Erase :: "BaselineKey \<Rightarrow> Baseline \<Rightarrow> Baseline" where
  "Baseline_Erase key b = b\<lparr>bl_rows := om_erase key (bl_rows b)\<rparr>"

definition FindState :: "StateKey \<Rightarrow> Baseline \<Rightarrow> StateRecord option" where
  "FindState key b = om_find key (bl_states b)"

definition SetState :: "StateRecord \<Rightarrow> Baseline \<Rightarrow> Baseline" where
  "SetState r b = b\<lparr>bl_states := om_set (sa_key r) r (bl_states b)\<rparr>"

definition EraseState :: "StateKey \<Rightarrow> Baseline \<Rightarrow> Baseline" where
  "EraseState key b = b\<lparr>bl_states := om_erase key (bl_states b)\<rparr>"

definition Baseline_size :: "Baseline \<Rightarrow> nat" where
  "Baseline_size b = length (bl_rows b) + length (bl_states b)"

definition Baseline_empty :: "Baseline \<Rightarrow> bool" where
  "Baseline_empty b \<longleftrightarrow> bl_rows b = [] \<and> bl_states b = []"

text \<open>Both halves are tables of rows under their own keys.\<close>

interpretation save_rows: row_table Baseline_Find Baseline_Set Baseline_Erase "\<lambda>r. sv_key r" "\<lambda>b. om_ok (bl_rows b)"
  by unfold_locales
    (simp_all add: Baseline_Find_def Baseline_Set_def Baseline_Erase_def om_find_set om_find_erase om_set_ok om_erase_ok)

interpretation state_rows: row_table FindState SetState EraseState "\<lambda>r. sa_key r" "\<lambda>b. om_ok (bl_states b)"
  by unfold_locales
    (simp_all add: FindState_def SetState_def EraseState_def om_find_set om_find_erase om_set_ok om_erase_ok)

lemma other_table [simp]:
  "bl_states (Baseline_Set r b) = bl_states b" "bl_states (Baseline_Erase k b) = bl_states b"
  "bl_rows (SetState t b) = bl_rows b" "bl_rows (EraseState l b) = bl_rows b"
  by (simp_all add: Baseline_Set_def Baseline_Erase_def SetState_def EraseState_def)

section \<open>The bar a row is held to\<close>

text \<open>\<open>kRepresentable\<close> is the seconds an \<open>int64_t\<close> of nanoseconds holds, the period of the clocks the
  program is built with.\<close>

definition kRepresentable :: int where "kRepresentable = (2 ^ 63 - 1) div ticks_per_second"

definition SecondsInRange :: "int \<Rightarrow> bool" where
  "SecondsInRange seconds \<longleftrightarrow>
     (let ceiling = (if kMaxTimestampSeconds < kRepresentable then kMaxTimestampSeconds else kRepresentable)
      in seconds \<ge> kMinTimestampSeconds \<and> seconds \<le> ceiling)"

definition FromUnixSeconds :: "int \<Rightarrow> Timestamp" where
  "FromUnixSeconds seconds = seconds * ticks_per_second"

definition LowercaseHexDigest :: "bytes \<Rightarrow> bool" where
  "LowercaseHexDigest value \<longleftrightarrow> length value = kContentHashDigits \<and>
     list_all (\<lambda>digit. IsDigit digit \<or> (CHR ''a'' \<le> digit \<and> digit \<le> CHR ''f'')) value"

definition digest_rule :: bytes where
  "digest_rule = '' must be '' @ to_string (int kContentHashDigits) @ '' lowercase hex digits (MD5)''"

text \<open>\<open>None\<close>: usable; otherwise \<open>*why\<close>.\<close>

definition SaveRefused :: "SaveRecord \<Rightarrow> bytes option" where
  "SaveRefused r =
     (if sv_rom_id r \<le> 0 then Some ''rom_id must be a positive RomM rom id''
      else if sv_slot r = Some [] then Some ''slot is present and empty; a row is either slotted or null-slot''
      else if (case sv_slot r of None \<Rightarrow> False | Some s \<Rightarrow> CHR 0x00 \<in> set s) then Some ''slot carries a NUL''
      else if \<not> LowercaseHexDigest (sv_content_hash r) then Some (''content_hash'' @ digest_rule)
      else if (case sv_server_content_hash r of None \<Rightarrow> False | Some h \<Rightarrow> \<not> LowercaseHexDigest h)
      then Some (''server_content_hash'' @ digest_rule @ '', or null'')
      else if \<not> SecondsInRange (UnixSeconds (sv_mtime r))
      then Some ''mtime is outside the range a save can claim''
      else if (case sv_server_updated_at r of None \<Rightarrow> False | Some t \<Rightarrow> \<not> SecondsInRange (UnixSeconds t))
      then Some ''server_updated_at is outside the range a save can claim''
      else if sv_file_size_bytes r < 0 then Some ''file_size_bytes is negative''
      else None)"

definition StateRefused :: "StateRecord \<Rightarrow> bytes option" where
  "StateRefused r =
     (if sa_rom_id r \<le> 0 then Some ''rom_id must be a positive RomM rom id''
      else if sa_file_name r = [] \<or> CHR 0x00 \<in> set (sa_file_name r)
      then Some ''file_name must be a name; a row is keyed on it''
      else if \<not> IsSingleFileName (sa_file_name r)
      then Some ''file_name must be a single file name, not a path''
      else if CHR 0x00 \<in> set (sa_emulator r) then Some ''emulator carries a NUL''
      else if \<not> LowercaseHexDigest (sa_content_hash r) then Some (''content_hash'' @ digest_rule)
      else if \<not> SecondsInRange (UnixSeconds (sa_mtime r))
      then Some ''mtime is outside the range a state can claim''
      else if sa_file_size_bytes r < 0 then Some ''file_size_bytes is negative''
      else if sa_server_state_id r \<le> 0
      then Some ''server_state_id must be the positive id of the RomM state row this is paired with''
      else if \<not> SecondsInRange (UnixSeconds (sa_server_updated_at r))
      then Some ''server_updated_at is outside the range a state can claim''
      else if sa_server_file_size_bytes r < 0 then Some ''server_file_size_bytes is negative''
      else None)"

section \<open>The text of a row\<close>

definition nullable_seconds :: "Timestamp option \<Rightarrow> bytes" where
  "nullable_seconds t = (case t of None \<Rightarrow> ''null'' | Some t \<Rightarrow> to_string (UnixSeconds t))"

definition nullable_text :: "bytes option \<Rightarrow> bytes" where
  "nullable_text v = (case v of None \<Rightarrow> ''null'' | Some s \<Rightarrow> Quote s)"

definition SerializeSave :: "SaveRecord \<Rightarrow> bytes" where
  "SerializeSave r =
     ''{'' @ key_text ''rom_id'' @ to_string (sv_rom_id r) @
     '','' @ key_text ''slot'' @ nullable_text (sv_slot r) @
     '','' @ key_text ''content_hash'' @ Quote (sv_content_hash r) @
     '','' @ key_text ''mtime'' @ to_string (UnixSeconds (sv_mtime r)) @
     '','' @ key_text ''file_size_bytes'' @ to_string (sv_file_size_bytes r) @
     '','' @ key_text ''server_updated_at'' @ nullable_seconds (sv_server_updated_at r) @
     '','' @ key_text ''server_content_hash'' @ nullable_text (sv_server_content_hash r) @
     (if sv_deleted_on_server r then '','' @ key_text ''deleted_on_server'' @ ''true'' else []) @ ''}''"

definition SerializeState :: "StateRecord \<Rightarrow> bytes" where
  "SerializeState r =
     ''{'' @ key_text ''kind'' @ Quote ''state'' @
     '','' @ key_text ''rom_id'' @ to_string (sa_rom_id r) @
     '','' @ key_text ''file_name'' @ Quote (sa_file_name r) @
     '','' @ key_text ''emulator'' @ (if sa_emulator r = [] then ''null'' else Quote (sa_emulator r)) @
     '','' @ key_text ''content_hash'' @ Quote (sa_content_hash r) @
     '','' @ key_text ''mtime'' @ to_string (UnixSeconds (sa_mtime r)) @
     '','' @ key_text ''file_size_bytes'' @ to_string (sa_file_size_bytes r) @
     '','' @ key_text ''server_state_id'' @ to_string (sa_server_state_id r) @
     '','' @ key_text ''server_updated_at'' @ to_string (UnixSeconds (sa_server_updated_at r)) @
     '','' @ key_text ''server_file_size_bytes'' @ to_string (sa_server_file_size_bytes r) @ ''}''"

section \<open>Reading a row\<close>

text \<open>\<open>Inl\<close>: \<open>*why\<close>.\<close>

definition ReadNullableSeconds :: "Value \<Rightarrow> bytes \<Rightarrow> bytes + Timestamp option" where
  "ReadNullableSeconds object key =
     (case Find object key of
        None \<Rightarrow> Inl (''field '' @ key @ '': missing'')
      | Some m \<Rightarrow>
          if Value_type m = kNull then Inr None
          else if \<not> is_integer m then Inl (''field '' @ key @ '': expected whole seconds or null'')
          else if \<not> SecondsInRange (integer m)
          then Inl (''field '' @ key @ '': outside the range a save can claim'')
          else Inr (Some (FromUnixSeconds (integer m))))"

definition ReadDeleted :: "Value \<Rightarrow> bytes + bool" where
  "ReadDeleted object =
     (case Find object ''deleted_on_server'' of
        None \<Rightarrow> Inr False
      | Some m \<Rightarrow> if Value_type m \<noteq> kBool then Inl ''field deleted_on_server: expected true or false''
                  else Inr (boolean m))"

definition ParseSaveRecord :: "Value \<Rightarrow> bytes + SaveRecord" where
  "ParseSaveRecord object =
     (let rd = make_Reader object ''state row'';
          (rom_id, rd) = Required_int ''rom_id'' rd;
          (slot, rd) = RequiredNullable_string ''slot'' rd;
          (content_hash, rd) = Required_string ''content_hash'' rd;
          (mtime, rd) = Required_int ''mtime'' rd;
          (file_size, rd) = Required_int ''file_size_bytes'' rd;
          (server_hash, rd) = RequiredNullable_string ''server_content_hash'' rd
      in
      if \<not> Reader_ok rd then Inl (Describe (rd_error rd))
      else if \<not> SecondsInRange (into 0 mtime) then Inl ''field mtime: outside the range a save can claim''
      else case ReadNullableSeconds object ''server_updated_at'' of
        Inl why \<Rightarrow> Inl why
      | Inr updated \<Rightarrow>
          (case ReadDeleted object of
             Inl why \<Rightarrow> Inl why
           | Inr deleted \<Rightarrow>
               let r = \<lparr>sv_rom_id = into 0 rom_id, sv_slot = into None slot,
                 sv_content_hash = into [] content_hash, sv_mtime = FromUnixSeconds (into 0 mtime),
                 sv_file_size_bytes = into 0 file_size, sv_server_updated_at = updated,
                 sv_server_content_hash = into None server_hash, sv_deleted_on_server = deleted\<rparr>
               in (case SaveRefused r of Some why \<Rightarrow> Inl why | None \<Rightarrow> Inr r)))"

definition ParseStateRecord :: "Value \<Rightarrow> bytes + StateRecord" where
  "ParseStateRecord object =
     (let rd = make_Reader object ''state row'';
          (rom_id, rd) = Required_int ''rom_id'' rd;
          (file_name, rd) = Required_string ''file_name'' rd;
          (emulator, rd) = RequiredNullable_string ''emulator'' rd;
          (content_hash, rd) = Required_string ''content_hash'' rd;
          (mtime, rd) = Required_int ''mtime'' rd;
          (file_size, rd) = Required_int ''file_size_bytes'' rd;
          (state_id, rd) = Required_int ''server_state_id'' rd;
          (updated, rd) = Required_int ''server_updated_at'' rd;
          (server_size, rd) = Required_int ''server_file_size_bytes'' rd
      in
      if \<not> Reader_ok rd then Inl (Describe (rd_error rd))
      else if \<not> SecondsInRange (into 0 mtime) then Inl ''field mtime: outside the range a state can claim''
      else if \<not> SecondsInRange (into 0 updated)
      then Inl ''field server_updated_at: outside the range a state can claim''
      else
        let r = \<lparr>sa_rom_id = into 0 rom_id, sa_file_name = into [] file_name,
          sa_emulator = (case into None emulator of None \<Rightarrow> [] | Some e \<Rightarrow> e),
          sa_content_hash = into [] content_hash, sa_mtime = FromUnixSeconds (into 0 mtime),
          sa_file_size_bytes = into 0 file_size, sa_server_state_id = into 0 state_id,
          sa_server_updated_at = FromUnixSeconds (into 0 updated),
          sa_server_file_size_bytes = into 0 server_size\<rparr>
        in case StateRefused r of Some why \<Rightarrow> Inl why | None \<Rightarrow> Inr r)"

datatype RowKind = RowKind_kSave | RowKind_kState

definition KindOf :: "Value \<Rightarrow> bytes + RowKind" where
  "KindOf object =
     (case Find object ''kind'' of
        None \<Rightarrow> Inr RowKind_kSave
      | Some m \<Rightarrow>
          if Value_type m \<noteq> kString then Inl ''field kind: expected a string''
          else if string_of m = ''state'' then Inr RowKind_kState
          else Inl (''field kind: '' @ CHR 0x22 # string_of m @ CHR 0x22 # '' is not a kind of row this build knows''))"

section \<open>The parser\<close>

definition kFormatMagic :: bytes where "kFormatMagic = ''rommsync-state''"
definition kFormatVersion :: nat where "kFormatVersion = 3"
definition kSourceSlotVersion :: nat where "kSourceSlotVersion = 2"
definition kMaxRecords :: nat where "kMaxRecords = 128"
definition kMaxStateBytes :: nat where "kMaxStateBytes = 32 * 1024"
definition kMaxDiagnostics :: nat where "kMaxDiagnostics = 32"
definition kRc1MaxRecords :: nat where "kRc1MaxRecords = 512"
definition kRc1MaxStateBytes :: nat where "kRc1MaxStateBytes = 128 * 1024"
definition kMaxLineBytes :: nat where "kMaxLineBytes = 4 * 1024"

definition header_of :: "nat \<Rightarrow> bytes" where
  "header_of version = kFormatMagic @ '' '' @ to_string (int version)"

definition FormatHeader :: bytes where "FormatHeader = header_of kFormatVersion"

definition TrimCarriageReturn :: "bytes \<Rightarrow> bytes" where
  "TrimCarriageReturn line = rev (dropWhile (\<lambda>c. c = CHR 0x0D) (rev line))"

definition Add :: "bytes list \<Rightarrow> bytes \<Rightarrow> bytes list" where
  "Add diagnostics msg = (if length diagnostics < kMaxDiagnostics then diagnostics @ [msg] else diagnostics)"

definition mix :: "u64 \<Rightarrow> u64 \<Rightarrow> u64" where
  "mix hash b = (hash XOR b) * 0x100000001b3"

definition Fingerprint :: "char \<Rightarrow> int \<Rightarrow> bytes option \<Rightarrow> u64" where
  "Fingerprint kind rom_id name =
     (let hash = mix 0xcbf29ce484222325 (of_nat (byte kind));
          hash = foldl (\<lambda>h i. mix h (drop_bit (8 * i) (word_of_int rom_id) AND 0xff)) hash [0..<8];
          hash = mix hash (if name = None then 0 else 1)
      in foldl (\<lambda>h c. mix h (of_nat (byte c))) hash (case name of None \<Rightarrow> [] | Some s \<Rightarrow> s))"

definition SaveFingerprint :: "SaveRecord \<Rightarrow> u64" where
  "SaveFingerprint r = Fingerprint (CHR ''s'') (sv_rom_id r) (sv_slot r)"

definition StateFingerprint :: "StateRecord \<Rightarrow> u64" where
  "StateFingerprint r = Fingerprint (CHR ''t'') (sa_rom_id r) (Some (sa_file_name r))"

record Parser =
  ps_number :: nat
  ps_blank :: nat
  ps_rows :: nat
  ps_dropped :: nat
  ps_version :: nat
  ps_newer :: nat
  ps_over :: bool
  ps_baseline :: Baseline
  ps_legacy :: "SaveRecord list"
  ps_let_go :: "u64 list"
  ps_complaints :: "bytes list"

definition new_Parser :: Parser where
  "new_Parser = \<lparr>ps_number = 0, ps_blank = 0, ps_rows = 0, ps_dropped = 0, ps_version = 0, ps_newer = 0,
     ps_over = False, ps_baseline = no_baseline, ps_legacy = [], ps_let_go = [], ps_complaints = []\<rparr>"

definition Bound :: "Parser \<Rightarrow> nat" where
  "Bound p = (if ps_version p = kSourceSlotVersion then kRc1MaxRecords else kMaxRecords)"

definition Before :: "SaveRecord \<Rightarrow> SaveRecord \<Rightarrow> bool" where
  "Before a b \<longleftrightarrow> sv_key a < sv_key b"

text \<open>\<open>legacy_\<close> and \<open>let_go_\<close> are sorted: \<open>lower_bound\<close> is the first element not before the other, and
  inserting there is \<open>insort\<close>; \<open>binary_search\<close> is membership.\<close>

definition Held :: "SaveRecord \<Rightarrow> SaveRecord list \<Rightarrow> SaveRecord option" where
  "Held r legacy = find (\<lambda>s. \<not> Before s r) legacy"

definition LetGo :: "u64 \<Rightarrow> Parser \<Rightarrow> Parser" where
  "LetGo fingerprint p = p\<lparr>ps_let_go := insort fingerprint (ps_let_go p)\<rparr>"

definition WasLetGo :: "u64 \<Rightarrow> Parser \<Rightarrow> bool" where
  "WasLetGo fingerprint p = List.member (ps_let_go p) fingerprint"

definition MakeRoom :: "u64 \<Rightarrow> SaveRecord option \<Rightarrow> Parser \<Rightarrow> bool \<times> Parser" where
  "MakeRoom fingerprint held p =
     (if Baseline_size (ps_baseline p) + length (ps_legacy p) < kMaxRecords then (True, p)
      else
        let p = p\<lparr>ps_dropped := ps_dropped p + 1\<rparr> in
        if ps_legacy p = [] \<or> (held \<noteq> None \<and> \<not> Before (the held) (last (ps_legacy p)))
        then (False, LetGo fingerprint p)
        else (True, (LetGo (SaveFingerprint (last (ps_legacy p))) p)\<lparr>ps_legacy := butlast (ps_legacy p)\<rparr>))"

definition complain :: "bytes \<Rightarrow> Parser \<Rightarrow> Parser" where
  "complain msg p = p\<lparr>ps_complaints := Add (ps_complaints p)
     (''state.db line '' @ to_string (int (ps_number p)) @ '': '' @ msg)\<rparr>"

definition save_row :: "SaveRecord \<Rightarrow> Parser \<Rightarrow> Parser" where
  "save_row r p =
     (let held_apart = (ps_version p = kSourceSlotVersion \<and> sv_slot r \<noteq> None);
          fingerprint = SaveFingerprint r;
          second = (WasLetGo fingerprint p \<or>
            (if held_apart
             then (case Held r (ps_legacy p) of None \<Rightarrow> False | Some at_row \<Rightarrow> \<not> Before r at_row)
             else Baseline_Find (sv_key r) (ps_baseline p) \<noteq> None))
      in
      if second then complain ''a second row for the same (rom_id, slot)'' p
      else
        let (kept, p) = MakeRoom fingerprint (if held_apart then Some r else None) p in
        if \<not> kept then p
        else if held_apart then p\<lparr>ps_legacy := insort_key sv_key r (ps_legacy p)\<rparr>
        else p\<lparr>ps_baseline := Baseline_Set r (ps_baseline p)\<rparr>)"

definition state_row :: "StateRecord \<Rightarrow> Parser \<Rightarrow> Parser" where
  "state_row r p =
     (if WasLetGo (StateFingerprint r) p \<or> FindState (sa_key r) (ps_baseline p) \<noteq> None
      then complain ''a second row for the same (rom_id, file_name) state'' p
      else
        let (kept, p) = MakeRoom (StateFingerprint r) None p in
        if kept then p\<lparr>ps_baseline := SetState r (ps_baseline p)\<rparr> else p)"

definition Parser_Row :: "bytes \<Rightarrow> Parser \<Rightarrow> Parser" where
  "Parser_Row line p =
     (let document = Parse line in
      if \<not> pr_ok document then complain (Describe (pr_error document)) p
      else case KindOf (pr_value document) of
        Inl why \<Rightarrow> complain why p
      | Inr RowKind_kSave \<Rightarrow>
          (case ParseSaveRecord (pr_value document) of Inl why \<Rightarrow> complain why p | Inr r \<Rightarrow> save_row r p)
      | Inr RowKind_kState \<Rightarrow>
          (case ParseStateRecord (pr_value document) of Inl why \<Rightarrow> complain why p | Inr r \<Rightarrow> state_row r p))"

definition Parser_Line :: "bytes \<Rightarrow> Parser \<Rightarrow> Parser" where
  "Parser_Line line p =
     (let line = TrimCarriageReturn line;
          p = p\<lparr>ps_number := ps_number p + 1\<rparr>
      in
      if ps_number p = 1
      then p\<lparr>ps_version := (if line = FormatHeader then kFormatVersion
                 else if line = header_of kSourceSlotVersion then kSourceSlotVersion else 0),
             ps_newer := NewerVersion line kFormatMagic kFormatVersion\<rparr>
      else if ps_version p = 0 \<or> ps_over p then p
      else if line = [] then p\<lparr>ps_blank := (if ps_blank p = 0 then ps_number p else ps_blank p)\<rparr>
      else
        let p = (if ps_blank p \<noteq> 0
              then p\<lparr>ps_complaints := Add (ps_complaints p)
                     (''state.db line '' @ to_string (int (ps_blank p)) @ '' is blank''), ps_blank := 0\<rparr>
              else p);
            p = p\<lparr>ps_rows := ps_rows p + 1\<rparr>
        in if ps_rows p > Bound p then p\<lparr>ps_over := True\<rparr> else Parser_Row line p)"

record LoadedBaseline =
  lb_value :: Baseline
  lb_diagnostics :: "bytes list"
  lb_version :: nat
  lb_legacy_saves :: "SaveRecord list"

definition no_loaded :: LoadedBaseline where
  "no_loaded = \<lparr>lb_value = no_baseline, lb_diagnostics = [], lb_version = 0, lb_legacy_saves = []\<rparr>"

definition Parser_Finish :: "Parser \<Rightarrow> LoadedBaseline" where
  "Parser_Finish p =
     (if ps_newer p > 0
      then no_loaded\<lparr>lb_diagnostics := [NewerRelease ''state.db'' (to_string (int (ps_newer p)))
        (int kFormatVersion)
        ''its baseline is discarded and rebuilt from the card, so every save is hashed once'']\<rparr>
      else if ps_version p = 0
      then no_loaded\<lparr>lb_diagnostics := [''state.db does not begin with '' @ CHR 0x22 # FormatHeader @
        CHR 0x22 # ''; the baseline is discarded and every save is hashed'']\<rparr>
      else if ps_over p
      then no_loaded\<lparr>lb_diagnostics := [''state.db holds more than the '' @ to_string (int (Bound p)) @
        '' rows a baseline may have; it is discarded and every save is hashed'']\<rparr>
      else if ps_complaints p \<noteq> []
      then no_loaded\<lparr>lb_diagnostics := ps_complaints p @
        [''state.db is not intact; the whole baseline is discarded and every save is hashed'']\<rparr>
      else \<lparr>lb_value = ps_baseline p,
        lb_diagnostics = (if ps_dropped p > 0
          then [''state.db was written by rc1, past the '' @ to_string (int kMaxRecords) @
            '' rows this build reads; '' @ to_string (int (ps_dropped p)) @
            '' row(s) were let go, slotted saves before states and the last in (rom_id, slot) '' @
            ''order first -- those are hashed again'']
          else []),
        lb_version = ps_version p, lb_legacy_saves = ps_legacy p\<rparr>)"

definition DescribeDiagnostics :: "LoadedBaseline \<Rightarrow> bytes" where
  "DescribeDiagnostics l = concat (map (\<lambda>d. d @ [CHR 0x0A]) (lb_diagnostics l))"

section \<open>The text of a baseline\<close>

definition SerializeBaseline :: "Baseline \<Rightarrow> bytes" where
  "SerializeBaseline b = FormatHeader @ [CHR 0x0A] @
     concat (map (\<lambda>row. SerializeSave (snd row) @ [CHR 0x0A]) (bl_rows b)) @
     concat (map (\<lambda>row. SerializeState (snd row) @ [CHR 0x0A]) (bl_states b))"

definition SerializedSize_save :: "SaveRecord \<Rightarrow> nat" where
  "SerializedSize_save r = length (SerializeSave r) + 1"

definition SerializedSize_state :: "StateRecord \<Rightarrow> nat" where
  "SerializedSize_state r = length (SerializeState r) + 1"

definition SerializedSize :: "Baseline \<Rightarrow> nat" where
  "SerializedSize b = length FormatHeader + 1 +
     sum_list (map (\<lambda>row. SerializedSize_save (snd row)) (bl_rows b)) +
     sum_list (map (\<lambda>row. SerializedSize_state (snd row)) (bl_states b))"

text \<open>The lines a text is cut into: what follows the last line end is one too.\<close>

function split_lines :: "bytes \<Rightarrow> bytes list" where
  "split_lines text =
     (let line = takeWhile (\<lambda>c. c \<noteq> CHR 0x0A) text; rest = drop (length line) text in
      if rest = [] then [line] else line # split_lines (tl rest))"
  by pat_completeness auto
termination
proof (relation "measure length", goal_cases)
  case (2 s line rest)
  then have "length rest \<le> length s" by simp
  with 2(3) show ?case by (cases rest) auto
qed simp

declare split_lines.simps [simp del]

definition ParseBaseline :: "bytes \<Rightarrow> LoadedBaseline" where
  "ParseBaseline text = Parser_Finish (fold Parser_Line (split_lines text) new_Parser)"

definition legacy_adopted ::
  "(bytes \<Rightarrow> bytes option) option \<Rightarrow> SaveRecord \<Rightarrow> Baseline \<times> nat \<Rightarrow> Baseline \<times> nat" where
  "legacy_adopted slot_for r st =
     (case (sv_slot r, slot_for) of
        (Some old, Some f) \<Rightarrow>
          (case f old of
             None \<Rightarrow> st
           | Some slot \<Rightarrow>
               if slot = [] \<or> Baseline_Find (sv_rom_id r, Some slot) (fst st) \<noteq> None then st
               else (Baseline_Set (r\<lparr>sv_slot := Some slot, sv_server_updated_at := None,
                 sv_server_content_hash := None\<rparr>) (fst st), snd st + 1))
      | _ \<Rightarrow> st)"

definition AdoptLegacySaves :: "(bytes \<Rightarrow> bytes option) option \<Rightarrow> LoadedBaseline \<Rightarrow> nat \<times> LoadedBaseline" where
  "AdoptLegacySaves slot_for loaded =
     (let (value, adopted) = fold (legacy_adopted slot_for) (sort_key sv_key (lb_legacy_saves loaded))
            (lb_value loaded, 0)
      in (adopted, loaded\<lparr>lb_value := value, lb_legacy_saves := []\<rparr>))"

section \<open>The file\<close>

text \<open>The bytes of one read of a streamed file: whether it still fits, whether it is a later release's, the
  line begun, and the parser.\<close>

fun stream_bytes :: "bytes \<Rightarrow> bytes \<Rightarrow> Parser \<Rightarrow> (bool \<times> bool \<times> bytes) \<times> Parser" where
  "stream_bytes [] line p = ((True, False, line), p)"
| "stream_bytes (c # cs) line p =
     (if c \<noteq> CHR 0x0A
      then (if length line + 1 \<le> kMaxLineBytes then stream_bytes cs (line @ [c]) p
            else ((False, False, line @ [c]), p))
      else
        let p = Parser_Line line p;
            newer = (ps_newer p > 0);
            fits = (newer \<or> ps_version p = kSourceSlotVersion)
        in if fits \<and> \<not> newer then stream_bytes cs [] p else ((fits, newer, []), p))"

text \<open>The reads, 1024 bytes at a time; the last flag is \<open>ferror\<close>.\<close>

function stream_file :: "bytes \<Rightarrow> nat \<Rightarrow> bytes \<Rightarrow> Parser \<Rightarrow> Card \<Rightarrow> ((bool \<times> bool \<times> bytes \<times> bool) \<times> Parser) \<times> Card" where
  "stream_file rest so_far line p w =
     (let (failed, w) = ReadFails w in
      if failed then (((True, False, line, True), p), w)
      else if rest = [] then (((True, False, line, False), p), w)
      else if so_far + length (take 1024 rest) > kRc1MaxStateBytes then (((False, False, line, False), p), w)
      else
        let ((fits, newer, line), p) = stream_bytes (take 1024 rest) line p in
        if fits \<and> \<not> newer then stream_file (drop 1024 rest) (so_far + length (take 1024 rest)) line p w
        else (((fits, newer, line, False), p), w))"
  by pat_completeness auto
termination by (relation "measure (\<lambda>(rest, _). length rest)") auto

declare stream_file.simps [simp del]

definition Load_streamed :: "bytes \<Rightarrow> Card \<Rightarrow> (BoundedRead \<times> LoadedBaseline) \<times> Card" where
  "Load_streamed d w =
     (let (((fits, newer, line, failed), p), w) = stream_file d 0 [] new_Parser w in
      (if failed then (BoundedRead_kUnreadable, no_loaded)
       else if \<not> fits then (BoundedRead_kTooLarge, no_loaded)
       else (BoundedRead_kOk, Parser_Finish (if newer then p else Parser_Line line p)), w))"

text \<open>\<open>io::ReadBounded\<close> with a reader for what is past the bound: the same open file, from its start (the
  card may refuse to go back to it).\<close>

definition Load :: "bytes \<Rightarrow> Card \<Rightarrow> (BoundedRead \<times> LoadedBaseline) \<times> Card" where
  "Load path w =
     (let (source, w) = OpenForReading path w in
      case source of
        Inl e \<Rightarrow> ((if Absent e then BoundedRead_kMissing else BoundedRead_kUnreadable, no_loaded), w)
      | Inr d \<Rightarrow>
          let ((got, failed), w) = bounded_loop kMaxStateBytes d [] w in
          (case got of
             None \<Rightarrow>
               let (answer, w) = next_answer w in
               if answer = Does then Load_streamed d w else ((BoundedRead_kUnreadable, no_loaded), w)
           | Some s \<Rightarrow>
               if failed then ((BoundedRead_kUnreadable, no_loaded), w)
               else ((BoundedRead_kOk, ParseBaseline s), w)))"

definition recovered_baseline :: "bytes \<Rightarrow> LoadedBaseline \<Rightarrow> LoadedBaseline" where
  "recovered_baseline path recovered =
     (let previous = PreviousPathFor path;
          first = Describe_path path
            (if Baseline_empty (lb_value recovered) \<and> lb_legacy_saves recovered = []
             then ''is missing and '' @ previous @ '' holds no usable baseline either -- a write of it was '' @
                  ''interrupted; every save is hashed this tick''
             else ''is missing and was read from '' @ previous @ '' instead -- a write of it was interrupted'')
      in recovered\<lparr>lb_diagnostics := foldl Add [first] (lb_diagnostics recovered)\<rparr>)"

definition unread_baseline :: "bytes \<Rightarrow> BoundedRead \<Rightarrow> LoadedBaseline" where
  "unread_baseline path outcome = no_loaded\<lparr>lb_diagnostics :=
     (case outcome of
        BoundedRead_kOk \<Rightarrow> []
      | BoundedRead_kMissing \<Rightarrow> [Describe_path path ''does not exist yet; every save is hashed this tick'']
      | BoundedRead_kUnreadable \<Rightarrow>
          [Describe_path path ''exists and could not be read; every save is hashed this tick'']
      | BoundedRead_kTooLarge \<Rightarrow> [Describe_path path (''is larger than the '' @
          to_string (int kMaxStateBytes) @ '' bytes a baseline can be; every save is hashed this tick'')])\<rparr>"

definition LoadBaseline :: "bytes \<Rightarrow> Card \<Rightarrow> LoadedBaseline \<times> Card" where
  "LoadBaseline path w =
     (let ((outcome, loaded), w) = Load path w in
      if outcome = BoundedRead_kOk then (loaded, w)
      else if outcome = BoundedRead_kMissing
      then
        let ((previous, recovered), w) = Load (PreviousPathFor path) w in
        (if previous = BoundedRead_kOk then recovered_baseline path recovered
         else unread_baseline path outcome, w)
      else (unread_baseline path outcome, w))"

datatype BaselineError = Baseline_kNone | Baseline_kTooManyRecords | Baseline_kTooLarge
  | Baseline_kOpenFailed | Baseline_kWriteFailed | Baseline_kCommitFailed

fun BaselineError_ToString :: "BaselineError \<Rightarrow> bytes" where
  "BaselineError_ToString Baseline_kNone = ''none''"
| "BaselineError_ToString Baseline_kTooManyRecords = ''too_many_records''"
| "BaselineError_ToString Baseline_kTooLarge = ''too_large''"
| "BaselineError_ToString Baseline_kOpenFailed = ''open_failed''"
| "BaselineError_ToString Baseline_kWriteFailed = ''write_failed''"
| "BaselineError_ToString Baseline_kCommitFailed = ''commit_failed''"

record BaselineStored =
  bs_error :: BaselineError
  bs_message :: bytes
  bs_rows_written :: nat
  bs_skipped :: "bytes list"

definition bs_ok :: "BaselineStored \<Rightarrow> bool" where
  "bs_ok r \<longleftrightarrow> bs_error r = Baseline_kNone"

text \<open>The rows that may be written, and the line of each that may not.\<close>

definition writable_save :: "SaveRecord \<Rightarrow> Baseline \<times> bytes list \<Rightarrow> Baseline \<times> bytes list" where
  "writable_save r st =
     (case SaveRefused r of
        Some why \<Rightarrow> (fst st, Add (snd st) (''rom '' @ to_string (sv_rom_id r) @ '': '' @ why @
          ''; this save is hashed again next tick''))
      | None \<Rightarrow> (Baseline_Set r (fst st), snd st))"

definition writable_state :: "StateRecord \<Rightarrow> Baseline \<times> bytes list \<Rightarrow> Baseline \<times> bytes list" where
  "writable_state r st =
     (case StateRefused r of
        Some why \<Rightarrow> (fst st, Add (snd st) (''rom '' @ to_string (sa_rom_id r) @ '' state '' @
          CHR 0x22 # sa_file_name r @ CHR 0x22 # '': '' @ why @ ''; this state is hashed again next tick''))
      | None \<Rightarrow> (SetState r (fst st), snd st))"

definition writable_part :: "Baseline \<Rightarrow> Baseline \<times> bytes list" where
  "writable_part b = fold writable_state (map snd (bl_states b))
     (fold writable_save (map snd (bl_rows b)) (no_baseline, []))"

definition SaveBaseline :: "bytes \<Rightarrow> Baseline \<Rightarrow> Card \<Rightarrow> BaselineStored \<times> Card" where
  "SaveBaseline path b w =
     (let (writable, skipped) = writable_part b;
          stored = \<lparr>bs_error = Baseline_kNone, bs_message = [], bs_rows_written = 0, bs_skipped = skipped\<rparr>
      in
      if Baseline_size writable > kMaxRecords
      then (stored\<lparr>bs_error := Baseline_kTooManyRecords, bs_message := Describe_path path
        (''would hold '' @ to_string (int (Baseline_size writable)) @ '' rows, more than the '' @
         to_string (int kMaxRecords) @ '' a baseline can be read back with; nothing was written'')\<rparr>, w)
      else
        let contents = SerializeBaseline writable in
        if length contents > kMaxStateBytes
        then (stored\<lparr>bs_error := Baseline_kTooLarge, bs_message := Describe_path path
          (''would be '' @ to_string (int (length contents)) @ '' bytes, more than the '' @
           to_string (int kMaxStateBytes) @ '' a baseline can be read back with; nothing was written'')\<rparr>, w)
        else
          let (written, w) = WriteAtomically path contents w in
          (case wr_error written of
             WriteError_kNone \<Rightarrow> stored\<lparr>bs_rows_written := Baseline_size writable\<rparr>
           | WriteError_kOpenFailed \<Rightarrow>
               stored\<lparr>bs_error := Baseline_kOpenFailed, bs_message := wr_message written\<rparr>
           | WriteError_kWriteFailed \<Rightarrow>
               stored\<lparr>bs_error := Baseline_kWriteFailed, bs_message := wr_message written\<rparr>
           | _ \<Rightarrow> stored\<lparr>bs_error := Baseline_kCommitFailed, bs_message := wr_message written\<rparr>, w))"

section \<open>A digest that is not taken again\<close>

definition ContentHashFor ::
  "Baseline \<Rightarrow> BaselineKey \<Rightarrow> bytes \<Rightarrow> Timestamp \<Rightarrow> int \<Rightarrow> Card \<Rightarrow> HashOutcome \<times> Card" where
  "ContentHashFor b key path mtime file_size w =
     (case Baseline_Find key b of
        Some stored \<Rightarrow>
          if UnixSeconds (sv_mtime stored) = UnixSeconds mtime \<and> sv_file_size_bytes stored = file_size
          then (\<lparr>ho_content_hash = sv_content_hash stored, ho_error = HashError_kNone, ho_reused = True,
                 ho_message = []\<rparr>, w)
          else HashFile path w
      | None \<Rightarrow> HashFile path w)"

definition ContentHashForState ::
  "Baseline \<Rightarrow> StateKey \<Rightarrow> bytes \<Rightarrow> Timestamp \<Rightarrow> int \<Rightarrow> Card \<Rightarrow> HashOutcome \<times> Card" where
  "ContentHashForState b key path mtime file_size w =
     (case FindState key b of
        Some stored \<Rightarrow>
          if UnixSeconds (sa_mtime stored) = UnixSeconds mtime \<and> sa_file_size_bytes stored = file_size
          then (\<lparr>ho_content_hash = sa_content_hash stored, ho_error = HashError_kNone, ho_reused = True,
                 ho_message = []\<rparr>, w)
          else HashFile path w
      | None \<Rightarrow> HashFile path w)"

end
