(* ===== verification/StateDbRoundtrip.thy ===== *)
theory StateDbRoundtrip
  imports StateDb
begin

text \<open>
  What \<open>StateDb\<close> writes is what it reads: a row, the whole text, and the file over a power cut.
\<close>

section \<open>A line of text\<close>

lemma kHex_no_newline: "k < 16 \<Longrightarrow> kHex ! k \<noteq> CHR 0x0A"
proof -
  assume "k < 16"
  moreover have "length kHex = 16" by (simp add: kHex_def)
  ultimately have "kHex ! k \<in> set kHex" by (simp add: nth_mem)
  moreover have "CHR 0x0A \<notin> set kHex" by (simp add: kHex_def)
  ultimately show ?thesis by metis
qed

lemma quote_byte_no_newline: "CHR 0x0A \<notin> set (quote_byte c)"
proof -
  have "x AND 0xF < (16::nat)" for x
    using take_bit_nat_less_exp [of 4 x] by (simp add: take_bit_eq_mask mask_eq_exp_minus_1)
  then show ?thesis by (auto simp: quote_byte_def dest: kHex_no_newline sym)
qed

lemma Quote_no_newline: "CHR 0x0A \<notin> set (Quote s)"
  using quote_byte_no_newline by (auto simp: Quote_def)

lemma to_string_no_newline: "CHR 0x0A \<notin> set (to_string i)"
proof -
  have "CHR 0x0A \<notin> set (dec_of_nat n)" for n
    using dec_of_nat_digits [of n] by (auto simp: list_all_iff IsDigit_byte dest!: bspec [of _ _ "CHR 0x0A"])
  then show ?thesis by (simp add: to_string_def)
qed

lemma render_no_newline: "CHR 0x0A \<notin> set (render v)"
proof (induction v rule: render.induct)
  case (3 n)
  then show ?case using to_string_no_newline by (cases n) auto
qed (auto simp: Quote_no_newline)

section \<open>A row\<close>

lemma more_keys [simp]:
  "key_text ''kind'' = Quote ''kind'' @ '':''" "key_text ''mtime'' = Quote ''mtime'' @ '':''"
  "key_text ''server_updated_at'' = Quote ''server_updated_at'' @ '':''"
  "key_text ''server_content_hash'' = Quote ''server_content_hash'' @ '':''"
  "key_text ''deleted_on_server'' = Quote ''deleted_on_server'' @ '':''"
  "key_text ''server_state_id'' = Quote ''server_state_id'' @ '':''"
  "key_text ''server_file_size_bytes'' = Quote ''server_file_size_bytes'' @ '':''"
  by (rule key_text_Quote, code_simp)+

definition number :: "int \<Rightarrow> Value" where "number i = VNumber (Some i)"

definition nullable_number :: "Timestamp option \<Rightarrow> Value" where
  "nullable_number t = (case t of None \<Rightarrow> VNull | Some t \<Rightarrow> number (UnixSeconds t))"

definition save_row_document :: "SaveRecord \<Rightarrow> Value" where
  "save_row_document r = VObject
     ([(''rom_id'', number (sv_rom_id r)), (''slot'', nullable (sv_slot r)),
       (''content_hash'', VString (sv_content_hash r)), (''mtime'', number (UnixSeconds (sv_mtime r))),
       (''file_size_bytes'', number (sv_file_size_bytes r)),
       (''server_updated_at'', nullable_number (sv_server_updated_at r)),
       (''server_content_hash'', nullable (sv_server_content_hash r))] @
      (if sv_deleted_on_server r then [(''deleted_on_server'', VBool True)] else []))"

definition state_row_document :: "StateRecord \<Rightarrow> Value" where
  "state_row_document r = VObject
     [(''kind'', VString ''state''), (''rom_id'', number (sa_rom_id r)),
      (''file_name'', VString (sa_file_name r)),
      (''emulator'', if sa_emulator r = [] then VNull else VString (sa_emulator r)),
      (''content_hash'', VString (sa_content_hash r)), (''mtime'', number (UnixSeconds (sa_mtime r))),
      (''file_size_bytes'', number (sa_file_size_bytes r)),
      (''server_state_id'', number (sa_server_state_id r)),
      (''server_updated_at'', number (UnixSeconds (sa_server_updated_at r))),
      (''server_file_size_bytes'', number (sa_server_file_size_bytes r))]"

lemma SerializeSave_render: "SerializeSave r = render (save_row_document r)"
  by (simp add: SerializeSave_def save_row_document_def nullable_text_def nullable_seconds_def nullable_number_def
      nullable_def number_def split: option.split)

lemma SerializeState_render: "SerializeState r = render (state_row_document r)"
  by (simp add: SerializeState_def state_row_document_def number_def)

text \<open>A row keeps whole seconds.\<close>

definition whole :: "Timestamp \<Rightarrow> Timestamp" where
  "whole t = FromUnixSeconds (UnixSeconds t)"

definition save_as_stored :: "SaveRecord \<Rightarrow> SaveRecord" where
  "save_as_stored r = r\<lparr>sv_mtime := whole (sv_mtime r),
     sv_server_updated_at := map_option whole (sv_server_updated_at r)\<rparr>"

definition state_as_stored :: "StateRecord \<Rightarrow> StateRecord" where
  "state_as_stored r = r\<lparr>sa_mtime := whole (sa_mtime r), sa_server_updated_at := whole (sa_server_updated_at r)\<rparr>"

text \<open>The members the program holds in an \<open>int64_t\<close>.\<close>

definition save_typed :: "SaveRecord \<Rightarrow> bool" where
  "save_typed r \<longleftrightarrow> in_int64 (sv_rom_id r) \<and> in_int64 (sv_file_size_bytes r)"

definition state_typed :: "StateRecord \<Rightarrow> bool" where
  "state_typed r \<longleftrightarrow> in_int64 (sa_rom_id r) \<and> in_int64 (sa_file_size_bytes r) \<and>
     in_int64 (sa_server_state_id r) \<and> in_int64 (sa_server_file_size_bytes r)"

lemma UnixSeconds_whole [simp]: "UnixSeconds (whole t) = UnixSeconds t" "UnixSeconds (FromUnixSeconds s) = s"
  by (simp_all add: whole_def UnixSeconds_def FromUnixSeconds_def ticks_per_second_def)

lemma seconds_int64: "SecondsInRange s \<Longrightarrow> in_int64 s"
  by (auto simp: SecondsInRange_def in_int64_def kMaxTimestampSeconds_def kMinTimestampSeconds_def
      kRepresentable_def ticks_per_second_def Let_def split: if_splits)

lemma digest_usable: "LowercaseHexDigest h \<Longrightarrow> usable h"
proof -
  assume h: "LowercaseHexDigest h"
  have "\<not> (IsDigit (CHR 0x00) \<or> CHR ''a'' \<le> CHR 0x00 \<and> CHR 0x00 \<le> CHR ''f'')" by code_simp
  with h show ?thesis by (auto simp: LowercaseHexDigest_def usable_def list_all_iff kContentHashDigits_def)
qed

lemma digest_clean: "LowercaseHexDigest h \<Longrightarrow> h \<noteq> [] \<and> CHR 0x00 \<notin> set h"
  using digest_usable by (simp add: usable_def)

lemma save_row_wf: "SaveRefused r = None \<Longrightarrow> save_typed r \<Longrightarrow> wf_at 0 (save_row_document r) \<and> exact (save_row_document r)"
  by (auto simp: SaveRefused_def save_typed_def save_row_document_def nullable_def nullable_number_def number_def
      kMaxDepth_def split: if_splits option.splits intro: seconds_int64)

lemma state_row_wf: "StateRefused r = None \<Longrightarrow> state_typed r \<Longrightarrow> wf_at 0 (state_row_document r) \<and> exact (state_row_document r)"
  by (auto simp: StateRefused_def state_typed_def state_row_document_def number_def
      kMaxDepth_def split: if_splits intro: seconds_int64)

lemma RequiredNullable_reading:
  assumes "Find v key = Some (nullable x)" "\<And>s. x = Some s \<Longrightarrow> usable s"
  shows "RequiredNullable_string key (reading v) = (Some x, reading v)"
  using assms by (cases x) (auto simp: nullable_def intro: Required_reading)

lemma number_reading:
  assumes "Find v key = Some (number i)" shows "Required_int key (reading v) = (Some i, reading v)"
  using assms by (simp add: number_def Required_reading(2))

lemma nullable_seconds_reading:
  assumes "Find v key = Some (nullable_number t)" "\<And>s. t = Some s \<Longrightarrow> SecondsInRange (UnixSeconds s)"
  shows "ReadNullableSeconds v key = Inr (map_option whole t)"
  using assms by (cases t) (auto simp: ReadNullableSeconds_def nullable_number_def number_def is_integer_def
      integer_def whole_def)

lemma save_row_Find:
  defines "v \<equiv> \<lambda>r. save_row_document r"
  shows "Find (v r) ''kind'' = None" "Find (v r) ''rom_id'' = Some (number (sv_rom_id r))"
    "Find (v r) ''slot'' = Some (nullable (sv_slot r))"
    "Find (v r) ''content_hash'' = Some (VString (sv_content_hash r))"
    "Find (v r) ''mtime'' = Some (number (UnixSeconds (sv_mtime r)))"
    "Find (v r) ''file_size_bytes'' = Some (number (sv_file_size_bytes r))"
    "Find (v r) ''server_updated_at'' = Some (nullable_number (sv_server_updated_at r))"
    "Find (v r) ''server_content_hash'' = Some (nullable (sv_server_content_hash r))"
    "Find (v r) ''deleted_on_server'' = (if sv_deleted_on_server r then Some (VBool True) else None)"
  by (simp_all add: v_def Find_def save_row_document_def)

lemma state_row_Find:
  defines "v \<equiv> \<lambda>r. state_row_document r"
  shows "Find (v r) ''kind'' = Some (VString ''state'')" "Find (v r) ''rom_id'' = Some (number (sa_rom_id r))"
    "Find (v r) ''file_name'' = Some (VString (sa_file_name r))"
    "Find (v r) ''emulator'' = Some (if sa_emulator r = [] then VNull else VString (sa_emulator r))"
    "Find (v r) ''content_hash'' = Some (VString (sa_content_hash r))"
    "Find (v r) ''mtime'' = Some (number (UnixSeconds (sa_mtime r)))"
    "Find (v r) ''file_size_bytes'' = Some (number (sa_file_size_bytes r))"
    "Find (v r) ''server_state_id'' = Some (number (sa_server_state_id r))"
    "Find (v r) ''server_updated_at'' = Some (number (UnixSeconds (sa_server_updated_at r)))"
    "Find (v r) ''server_file_size_bytes'' = Some (number (sa_server_file_size_bytes r))"
  by (simp_all add: v_def Find_def state_row_document_def)

lemma SaveRefused_as_stored [simp]: "SaveRefused (save_as_stored r) = SaveRefused r"
  by (cases "sv_server_updated_at r") (simp_all add: SaveRefused_def save_as_stored_def)

lemma StateRefused_as_stored [simp]: "StateRefused (state_as_stored r) = StateRefused r"
  by (simp add: StateRefused_def state_as_stored_def)

lemma ParseSaveRecord_document:
  assumes "SaveRefused r = None"
  shows "ParseSaveRecord (save_row_document r) = Inr (save_as_stored r)"
proof -
  let ?v = "save_row_document r"
  have rd: "make_Reader ?v ''state row'' = reading ?v" by (simp add: save_row_document_def)
  have u: "\<And>s. sv_slot r = Some s \<Longrightarrow> usable s" "usable (sv_content_hash r)"
    "\<And>s. sv_server_content_hash r = Some s \<Longrightarrow> usable s" "SecondsInRange (UnixSeconds (sv_mtime r))"
    "\<And>t. sv_server_updated_at r = Some t \<Longrightarrow> SecondsInRange (UnixSeconds t)"
    using assms by (auto simp: SaveRefused_def usable_def dest: digest_clean split: if_splits)
  have d: "ReadDeleted ?v = Inr (sv_deleted_on_server r)"
    by (simp add: ReadDeleted_def save_row_Find boolean_def)
  note f = save_row_Find [of r]
  have s: "FromUnixSeconds (UnixSeconds (sv_mtime r)) = whole (sv_mtime r)" by (simp add: whole_def)
  have r: "\<lparr>sv_rom_id = sv_rom_id r, sv_slot = sv_slot r, sv_content_hash = sv_content_hash r,
      sv_mtime = whole (sv_mtime r), sv_file_size_bytes = sv_file_size_bytes r,
      sv_server_updated_at = map_option whole (sv_server_updated_at r),
      sv_server_content_hash = sv_server_content_hash r, sv_deleted_on_server = sv_deleted_on_server r\<rparr> =
      save_as_stored r" by (simp add: save_as_stored_def)
  show ?thesis
    using u(4) assms
    by (simp add: ParseSaveRecord_def rd number_reading [OF f(2)] RequiredNullable_reading [OF f(3) u(1)]
        Required_reading(1) [OF f(4) u(2)] number_reading [OF f(5)] number_reading [OF f(6)]
        RequiredNullable_reading [OF f(8) u(3)] nullable_seconds_reading [OF f(7) u(5)] d s r)
qed

lemma ParseStateRecord_document:
  assumes "StateRefused r = None"
  shows "ParseStateRecord (state_row_document r) = Inr (state_as_stored r)"
proof -
  let ?v = "state_row_document r"
  have rd: "make_Reader ?v ''state row'' = reading ?v" by (simp add: state_row_document_def)
  have u: "usable (sa_file_name r)" "usable (sa_content_hash r)" "sa_emulator r \<noteq> [] \<longrightarrow> usable (sa_emulator r)"
    "SecondsInRange (UnixSeconds (sa_mtime r))" "SecondsInRange (UnixSeconds (sa_server_updated_at r))"
    using assms by (auto simp: StateRefused_def usable_def dest: digest_clean split: if_splits)
  note f = state_row_Find [of r]
  have e: "RequiredNullable_string ''emulator'' (reading ?v) =
      (Some (if sa_emulator r = [] then None else Some (sa_emulator r)), reading ?v)"
    using f(4) u(3) by (cases "sa_emulator r = []") (simp_all add: Required_reading)
  have s: "FromUnixSeconds (UnixSeconds t) = whole t" for t by (simp add: whole_def)
  have r: "\<lparr>sa_rom_id = sa_rom_id r, sa_file_name = sa_file_name r, sa_emulator = sa_emulator r,
      sa_content_hash = sa_content_hash r, sa_mtime = whole (sa_mtime r),
      sa_file_size_bytes = sa_file_size_bytes r, sa_server_state_id = sa_server_state_id r,
      sa_server_updated_at = whole (sa_server_updated_at r),
      sa_server_file_size_bytes = sa_server_file_size_bytes r\<rparr> = state_as_stored r"
    by (simp add: state_as_stored_def)
  have em: "(case if sa_emulator r = [] then None else Some (sa_emulator r) of None \<Rightarrow> [] | Some e \<Rightarrow> e) =
      sa_emulator r" by simp
  show ?thesis
    using u(4, 5) assms
    by (simp add: ParseStateRecord_def rd number_reading [OF f(2)] Required_reading(1) [OF f(3) u(1)] e
        Required_reading(1) [OF f(5) u(2)] number_reading [OF f(6)] number_reading [OF f(7)]
        number_reading [OF f(8)] number_reading [OF f(9)] number_reading [OF f(10)] s r em)
qed

section \<open>The lines of a text\<close>

lemma split_lines_line: "CHR 0x0A \<notin> set l \<Longrightarrow> split_lines (l @ CHR 0x0A # rest) = l # split_lines rest"
proof -
  assume l: "CHR 0x0A \<notin> set l"
  have t: "takeWhile (\<lambda>c. c \<noteq> CHR 0x0A) (l @ CHR 0x0A # rest) = l"
    by (subst takeWhile_append2) (use l in auto)
  show ?thesis by (simp add: split_lines.simps [of "l @ CHR 0x0A # rest"] t)
qed

lemma split_lines_end: "split_lines [] = [[]]"
  by (simp add: split_lines.simps)

lemma split_lines_rows:
  "list_all (\<lambda>l. CHR 0x0A \<notin> set l) ls \<Longrightarrow> split_lines (concat (map (\<lambda>l. l @ [CHR 0x0A]) ls)) = ls @ [[]]"
  by (induction ls) (simp_all add: split_lines_line split_lines_end)

lemma SerializeSave_line [simp]:
  "CHR 0x0A \<notin> set (SerializeSave r)" "TrimCarriageReturn (SerializeSave r) = SerializeSave r" "SerializeSave r \<noteq> []"
proof -
  show "CHR 0x0A \<notin> set (SerializeSave r)" by (simp add: SerializeSave_render render_no_newline)
  show "TrimCarriageReturn (SerializeSave r) = SerializeSave r" by (simp add: SerializeSave_def TrimCarriageReturn_def)
  show "SerializeSave r \<noteq> []" by (simp add: SerializeSave_def)
qed

lemma SerializeState_line [simp]:
  "CHR 0x0A \<notin> set (SerializeState r)" "TrimCarriageReturn (SerializeState r) = SerializeState r" "SerializeState r \<noteq> []"
proof -
  show "CHR 0x0A \<notin> set (SerializeState r)" by (simp add: SerializeState_render render_no_newline)
  show "TrimCarriageReturn (SerializeState r) = SerializeState r" by (simp add: SerializeState_def TrimCarriageReturn_def)
  show "SerializeState r \<noteq> []" by (simp add: SerializeState_def)
qed

text \<open>A parser that has read a header of this build's and whole rows only.\<close>

definition reads_well :: "Baseline \<Rightarrow> Parser \<Rightarrow> bool" where
  "reads_well b p \<longleftrightarrow> ps_number p > 0 \<and> ps_blank p = 0 \<and> ps_rows p = Baseline_size b \<and> ps_dropped p = 0 \<and>
     ps_version p = kFormatVersion \<and> ps_newer p = 0 \<and> \<not> ps_over p \<and> ps_baseline p = b \<and> ps_legacy p = [] \<and>
     ps_let_go p = [] \<and> ps_complaints p = []"

lemma FormatHeader_text: "FormatHeader = ''rommsync-state 3''"
proof -
  have "to_string 3 = ''3''" by code_simp
  then show ?thesis by (simp add: FormatHeader_def header_of_def kFormatMagic_def kFormatVersion_def)
qed

lemma header_read: "reads_well no_baseline (Parser_Line FormatHeader new_Parser)"
proof -
  have "TrimCarriageReturn FormatHeader = FormatHeader" by (simp add: FormatHeader_text TrimCarriageReturn_def)
  moreover have "NewerVersion FormatHeader kFormatMagic kFormatVersion = 0"
    by (simp add: FormatHeader_text NewerVersion_def kFormatMagic_def kFormatVersion_def IsDigit_def less_eq_char_def)
  ultimately show ?thesis
    by (simp add: reads_well_def Parser_Line_def new_Parser_def Baseline_size_def no_baseline_def)
qed

lemma Bound_now: "ps_version p = kFormatVersion \<Longrightarrow> Bound p = kMaxRecords"
  by (simp add: Bound_def kFormatVersion_def kSourceSlotVersion_def)

lemma row_line_read:
  assumes p: "reads_well b p" and n: "Baseline_size b < kMaxRecords" and l: "TrimCarriageReturn l = l" "l \<noteq> []"
  shows "Parser_Line l p = Parser_Row l (p\<lparr>ps_number := ps_number p + 1, ps_rows := ps_rows p + 1\<rparr>)"
proof -
  have at: "ps_number p + 1 \<noteq> 1" "ps_version p \<noteq> 0" "\<not> ps_over p" "ps_blank p = 0"
    "ps_version p \<noteq> kSourceSlotVersion" "ps_rows p + 1 \<le> kMaxRecords"
    using p n by (auto simp: reads_well_def kFormatVersion_def kSourceSlotVersion_def)
  show ?thesis unfolding Parser_Line_def Let_def l(1) using at l(2) by (simp add: Bound_def not_less)
qed

lemma save_line_read:
  assumes p: "reads_well b p" and n: "Baseline_size b < kMaxRecords"
    and r: "SaveRefused r = None" "save_typed r" "\<forall>k \<in> fst ` set (bl_rows b). k < sv_key r"
  shows "reads_well (b\<lparr>bl_rows := bl_rows b @ [(sv_key r, save_as_stored r)]\<rparr>) (Parser_Line (SerializeSave r) p)"
proof -
  let ?p = "p\<lparr>ps_number := ps_number p + 1, ps_rows := ps_rows p + 1\<rparr>"
  have doc: "Parse (SerializeSave r) = \<lparr>pr_value = save_row_document r, pr_error = no_error\<rparr>"
    using render_parses save_row_wf [OF r(1, 2)] by (simp add: SerializeSave_render)
  have ok: "pr_ok (Parse (SerializeSave r))" by (simp add: doc pr_ok_def no_error_def error_ok_def)
  have kind: "KindOf (save_row_document r) = Inr RowKind_kSave" by (simp add: KindOf_def save_row_Find)
  have key: "sv_key (save_as_stored r) = sv_key r" by (simp add: save_as_stored_def)
  have new: "Baseline_Find (sv_key r) b = None"
    using r(3) by (auto simp: Baseline_Find_def om_find_None)
  have set: "Baseline_Set (save_as_stored r) b = b\<lparr>bl_rows := bl_rows b @ [(sv_key r, save_as_stored r)]\<rparr>"
    using r(3) key by (simp add: Baseline_Set_def om_set_snoc)
  have room': "MakeRoom fp None ?p = (True, ?p)" for fp
    using p n by (simp add: MakeRoom_def reads_well_def)
  have at: "ps_version ?p = kFormatVersion" "ps_let_go ?p = []" "ps_baseline ?p = b" "kFormatVersion \<noteq> kSourceSlotVersion"
    using p by (simp_all add: reads_well_def kFormatVersion_def kSourceSlotVersion_def)
  have "Parser_Row (SerializeSave r) ?p = save_row (save_as_stored r) ?p"
    using ok by (simp add: Parser_Row_def doc kind ParseSaveRecord_document [OF r(1)])
  also have "\<dots> = ?p\<lparr>ps_baseline := Baseline_Set (save_as_stored r) b\<rparr>"
    unfolding save_row_def Let_def using at new room' by (simp add: key WasLetGo_def)
  finally have "Parser_Line (SerializeSave r) p = ?p\<lparr>ps_baseline := Baseline_Set (save_as_stored r) b\<rparr>"
    using row_line_read [OF p n] by simp
  with p show ?thesis by (simp add: reads_well_def set Baseline_size_def)
qed

lemma state_line_read:
  assumes p: "reads_well b p" and n: "Baseline_size b < kMaxRecords"
    and r: "StateRefused r = None" "state_typed r" "\<forall>k \<in> fst ` set (bl_states b). k < sa_key r"
  shows "reads_well (b\<lparr>bl_states := bl_states b @ [(sa_key r, state_as_stored r)]\<rparr>) (Parser_Line (SerializeState r) p)"
proof -
  let ?p = "p\<lparr>ps_number := ps_number p + 1, ps_rows := ps_rows p + 1\<rparr>"
  have doc: "Parse (SerializeState r) = \<lparr>pr_value = state_row_document r, pr_error = no_error\<rparr>"
    using render_parses state_row_wf [OF r(1, 2)] by (simp add: SerializeState_render)
  have ok: "pr_ok (Parse (SerializeState r))" by (simp add: doc pr_ok_def no_error_def error_ok_def)
  have kind: "KindOf (state_row_document r) = Inr RowKind_kState" by (simp add: KindOf_def state_row_Find string_of_def)
  have key: "sa_key (state_as_stored r) = sa_key r" by (simp add: state_as_stored_def)
  have new: "FindState (sa_key r) b = None"
    using r(3) by (auto simp: FindState_def om_find_None)
  have set: "SetState (state_as_stored r) b = b\<lparr>bl_states := bl_states b @ [(sa_key r, state_as_stored r)]\<rparr>"
    using r(3) key by (simp add: SetState_def om_set_snoc)
  have room': "MakeRoom fp None ?p = (True, ?p)" for fp
    using p n by (simp add: MakeRoom_def reads_well_def)
  have at: "ps_let_go ?p = []" "ps_baseline ?p = b"
    using p by (simp_all add: reads_well_def)
  have "Parser_Row (SerializeState r) ?p = state_row (state_as_stored r) ?p"
    using ok by (simp add: Parser_Row_def doc kind ParseStateRecord_document [OF r(1)])
  also have "\<dots> = ?p\<lparr>ps_baseline := SetState (state_as_stored r) b\<rparr>"
    unfolding state_row_def Let_def using at new room' by (simp add: key WasLetGo_def)
  finally have "Parser_Line (SerializeState r) p = ?p\<lparr>ps_baseline := SetState (state_as_stored r) b\<rparr>"
    using row_line_read [OF p n] by simp
  with p show ?thesis by (simp add: reads_well_def set Baseline_size_def)
qed

section \<open>The whole text\<close>

text \<open>Both tables in the order of their keys, each row under its own, none refused.\<close>

definition storable :: "Baseline \<Rightarrow> bool" where
  "storable b \<longleftrightarrow> om_ok (bl_rows b) \<and> om_ok (bl_states b) \<and> Baseline_size b \<le> kMaxRecords \<and>
     list_all (\<lambda>(k, r). k = sv_key r \<and> SaveRefused r = None \<and> save_typed r) (bl_rows b) \<and>
     list_all (\<lambda>(k, r). k = sa_key r \<and> StateRefused r = None \<and> state_typed r) (bl_states b)"

definition as_stored :: "Baseline \<Rightarrow> Baseline" where
  "as_stored b = \<lparr>bl_rows = map (\<lambda>(k, r). (k, save_as_stored r)) (bl_rows b),
     bl_states = map (\<lambda>(k, r). (k, state_as_stored r)) (bl_states b)\<rparr>"

lemma map_fst_stored [simp]: "map fst (map (\<lambda>(k, r). (k, f r)) m) = map fst m"
  by (induction m) auto

lemma om_ok_step: "om_ok (m @ (k, v) # m') \<Longrightarrow> (\<forall>l \<in> fst ` set m. l < k) \<and> om_ok (m @ [(k, v)])"
  by (auto simp: om_ok_def sorted_wrt_append)

lemma om_ok_restep: "om_ok (m @ (k, v) # m') \<Longrightarrow> om_ok ((m @ [(k, w)]) @ m')"
  by (auto simp: om_ok_def sorted_wrt_append)

lemma saves_read:
  "reads_well b p \<Longrightarrow> om_ok (bl_rows b @ rows) \<Longrightarrow> Baseline_size b + length rows \<le> kMaxRecords \<Longrightarrow>
   list_all (\<lambda>(k, r). k = sv_key r \<and> SaveRefused r = None \<and> save_typed r) rows \<Longrightarrow>
   reads_well (b\<lparr>bl_rows := bl_rows b @ map (\<lambda>(k, r). (k, save_as_stored r)) rows\<rparr>)
     (fold Parser_Line (map (\<lambda>row. SerializeSave (snd row)) rows) p)"
proof (induction rows arbitrary: b p)
  case (Cons row rows)
  obtain k r where row [simp]: "row = (k, r)" by fastforce
  have k [simp]: "k = sv_key r" and ok: "SaveRefused r = None" "save_typed r" using Cons.prems(4) by simp_all
  let ?b = "b\<lparr>bl_rows := bl_rows b @ [(sv_key r, save_as_stored r)]\<rparr>"
  have "reads_well ?b (Parser_Line (SerializeSave r) p)"
    using om_ok_step [of "bl_rows b" k r rows] Cons.prems(2, 3)
    by (intro save_line_read [OF Cons.prems(1) _ ok]) simp_all
  moreover have "om_ok (bl_rows ?b @ rows)" using om_ok_restep [of "bl_rows b" k r rows "save_as_stored r"] Cons.prems(2) by simp
  moreover have "Baseline_size ?b + length rows \<le> kMaxRecords" using Cons.prems(3) by (simp add: Baseline_size_def)
  ultimately show ?case using Cons.IH [of ?b] Cons.prems(4) by simp
qed simp

lemma states_read:
  "reads_well b p \<Longrightarrow> om_ok (bl_states b @ rows) \<Longrightarrow> Baseline_size b + length rows \<le> kMaxRecords \<Longrightarrow>
   list_all (\<lambda>(k, r). k = sa_key r \<and> StateRefused r = None \<and> state_typed r) rows \<Longrightarrow>
   reads_well (b\<lparr>bl_states := bl_states b @ map (\<lambda>(k, r). (k, state_as_stored r)) rows\<rparr>)
     (fold Parser_Line (map (\<lambda>row. SerializeState (snd row)) rows) p)"
proof (induction rows arbitrary: b p)
  case (Cons row rows)
  obtain k r where row [simp]: "row = (k, r)" by fastforce
  have k [simp]: "k = sa_key r" and ok: "StateRefused r = None" "state_typed r" using Cons.prems(4) by simp_all
  let ?b = "b\<lparr>bl_states := bl_states b @ [(sa_key r, state_as_stored r)]\<rparr>"
  have "reads_well ?b (Parser_Line (SerializeState r) p)"
    using om_ok_step [of "bl_states b" k r rows] Cons.prems(2, 3)
    by (intro state_line_read [OF Cons.prems(1) _ ok]) simp_all
  moreover have "om_ok (bl_states ?b @ rows)" using om_ok_restep [of "bl_states b" k r rows "state_as_stored r"] Cons.prems(2) by simp
  moreover have "Baseline_size ?b + length rows \<le> kMaxRecords" using Cons.prems(3) by (simp add: Baseline_size_def)
  ultimately show ?case using Cons.IH [of ?b] Cons.prems(4) by simp
qed simp

lemma baseline_lines:
  "split_lines (SerializeBaseline b) =
     FormatHeader # map (\<lambda>row. SerializeSave (snd row)) (bl_rows b) @ map (\<lambda>row. SerializeState (snd row)) (bl_states b) @ [[]]"
proof -
  have h: "CHR 0x0A \<notin> set FormatHeader" by code_simp
  let ?ls = "map (\<lambda>row. SerializeSave (snd row)) (bl_rows b) @ map (\<lambda>row. SerializeState (snd row)) (bl_states b)"
  have "SerializeBaseline b = FormatHeader @ CHR 0x0A # concat (map (\<lambda>l. l @ [CHR 0x0A]) ?ls)"
    by (simp add: SerializeBaseline_def comp_def)
  moreover have "list_all (\<lambda>l. CHR 0x0A \<notin> set l) ?ls" by (auto simp: list_all_iff)
  ultimately show ?thesis
    by (simp only: split_lines_line [OF h] split_lines_rows append_assoc)
qed

lemma last_line_read:
  "reads_well b p \<Longrightarrow> Parser_Finish (Parser_Line [] p) =
     \<lparr>lb_value = b, lb_diagnostics = [], lb_version = kFormatVersion, lb_legacy_saves = []\<rparr>"
  by (simp add: reads_well_def Parser_Line_def TrimCarriageReturn_def Parser_Finish_def kFormatVersion_def)

lemma storable_read:
  assumes b: "storable b"
  shows "ParseBaseline (SerializeBaseline b) =
    \<lparr>lb_value = as_stored b, lb_diagnostics = [], lb_version = kFormatVersion, lb_legacy_saves = []\<rparr>"
proof -
  let ?b = "no_baseline\<lparr>bl_rows := map (\<lambda>(k, r). (k, save_as_stored r)) (bl_rows b)\<rparr>"
  let ?p = "fold Parser_Line (map (\<lambda>row. SerializeSave (snd row)) (bl_rows b)) (Parser_Line FormatHeader new_Parser)"
  have 1: "reads_well ?b ?p"
    using saves_read [OF header_read, of "bl_rows b"] b by (simp add: storable_def no_baseline_def Baseline_size_def)
  have 2: "reads_well (?b\<lparr>bl_states := map (\<lambda>(k, r). (k, state_as_stored r)) (bl_states b)\<rparr>)
      (fold Parser_Line (map (\<lambda>row. SerializeState (snd row)) (bl_states b)) ?p)"
    using states_read [OF 1, of "bl_states b"] b by (simp add: storable_def no_baseline_def Baseline_size_def)
  have "?b\<lparr>bl_states := map (\<lambda>(k, r). (k, state_as_stored r)) (bl_states b)\<rparr> = as_stored b"
    by (simp add: as_stored_def no_baseline_def)
  with last_line_read [OF 2] show ?thesis by (simp add: ParseBaseline_def baseline_lines)
qed

text \<open>The size counted row by row is the text's.\<close>

lemma SerializedSize_text: "SerializedSize b = length (SerializeBaseline b)"
  by (simp add: SerializedSize_def SerializeBaseline_def SerializedSize_save_def SerializedSize_state_def
      length_concat comp_def)

section \<open>Any text\<close>

text \<open>What the parser has of the rows it has read, whatever they were.\<close>

definition saves_ok :: "(BaselineKey, SaveRecord) omap \<Rightarrow> bool" where
  "saves_ok m \<longleftrightarrow> om_ok m \<and> (\<forall>(k, r) \<in> set m. k = sv_key r \<and> SaveRefused r = None)"

definition states_ok :: "(StateKey, StateRecord) omap \<Rightarrow> bool" where
  "states_ok m \<longleftrightarrow> om_ok m \<and> (\<forall>(k, r) \<in> set m. k = sa_key r \<and> StateRefused r = None)"

definition legacy_ok :: "SaveRecord list \<Rightarrow> bool" where
  "legacy_ok rs \<longleftrightarrow> sorted_wrt (<) (map sv_key rs) \<and> (\<forall>r \<in> set rs. SaveRefused r = None \<and> sv_slot r \<noteq> None)"

definition parser_ok :: "Parser \<Rightarrow> bool" where
  "parser_ok p \<longleftrightarrow> saves_ok (bl_rows (ps_baseline p)) \<and> states_ok (bl_states (ps_baseline p)) \<and>
     legacy_ok (ps_legacy p) \<and> Baseline_size (ps_baseline p) + length (ps_legacy p) \<le> kMaxRecords \<and>
     length (ps_complaints p) \<le> kMaxDiagnostics"

lemma om_set_rows: "(l, x) \<in> set (om_set k v m) \<Longrightarrow> (l, x) = (k, v) \<or> (l, x) \<in> set m"
  by (induction k v m rule: om_set.induct) (auto split: if_splits)

lemma saves_ok_set: "saves_ok m \<Longrightarrow> SaveRefused r = None \<Longrightarrow> saves_ok (om_set (sv_key r) r m)"
  by (auto simp: saves_ok_def om_set_ok dest!: om_set_rows)

lemma states_ok_set: "states_ok m \<Longrightarrow> StateRefused r = None \<Longrightarrow> states_ok (om_set (sa_key r) r m)"
  by (auto simp: states_ok_def om_set_ok dest!: om_set_rows)

lemma Held_fresh:
  assumes s: "sorted_wrt (<) (map sv_key rs)" and h: "Held r rs = None \<or> (\<exists>a. Held r rs = Some a \<and> Before r a)"
  shows "sv_key r \<notin> sv_key ` set rs"
proof
  assume "sv_key r \<in> sv_key ` set rs"
  then obtain x where x: "x \<in> set rs" "sv_key x = sv_key r" by auto
  then obtain j where j: "j < length rs" "sv_key (rs ! j) = sv_key r" unfolding in_set_conv_nth by blast
  have less: "i < k \<Longrightarrow> k < length rs \<Longrightarrow> sv_key (rs ! i) < sv_key (rs ! k)" for i k
    using s by (auto simp: sorted_wrt_iff_nth_less)
  from h show False
  proof
    assume "Held r rs = None"
    then have "Before (rs ! j) r" using j(1) by (auto simp: Held_def find_None_iff)
    with j(2) show False by (simp add: Before_def)
  next
    assume "\<exists>a. Held r rs = Some a \<and> Before r a"
    then obtain i where i: "i < length rs" "\<forall>k < i. Before (rs ! k) r" "Before r (rs ! i)"
      by (auto simp: Held_def find_Some_iff)
    consider "j < i" | "j = i" | "i < j" by linarith
    then show False
    proof cases
      case 3
      with less [OF 3 j(1)] i(3) j(2) show False
        using less_trans [of "sv_key r" "sv_key (rs ! i)" "sv_key (rs ! j)"] by (simp add: Before_def)
    qed (use i j(2) in \<open>auto simp: Before_def\<close>)
  qed
qed

lemma legacy_ok_insort:
  "legacy_ok rs \<Longrightarrow> sv_key r \<notin> sv_key ` set rs \<Longrightarrow> SaveRefused r = None \<Longrightarrow> sv_slot r \<noteq> None \<Longrightarrow>
   legacy_ok (insort_key sv_key r rs)"
  by (auto simp: legacy_ok_def strict_sorted_iff sorted_insort_key distinct_insort_key set_insort_key)

lemma legacy_ok_butlast: "legacy_ok rs \<Longrightarrow> legacy_ok (butlast rs)"
  by (cases rs rule: rev_cases) (auto simp: legacy_ok_def sorted_wrt_append)

lemma Add_length: "length ds \<le> kMaxDiagnostics \<Longrightarrow> length (Add ds d) \<le> kMaxDiagnostics"
  by (simp add: Add_def)

lemma complain_ok: "parser_ok p \<Longrightarrow> parser_ok (complain d p)"
  by (simp add: parser_ok_def complain_def Add_length)

lemma MakeRoom_ok:
  assumes "MakeRoom fp held p = (kept, p')" "parser_ok p"
  shows "parser_ok p'" "ps_baseline p' = ps_baseline p" "set (ps_legacy p') \<subseteq> set (ps_legacy p)"
    "kept \<Longrightarrow> Baseline_size (ps_baseline p') + length (ps_legacy p') < kMaxRecords"
proof -
  have small: "Baseline_size (ps_baseline p) + length (ps_legacy p) \<le> kMaxRecords" using assms(2) by (simp add: parser_ok_def)
  show "parser_ok p'" "ps_baseline p' = ps_baseline p" "set (ps_legacy p') \<subseteq> set (ps_legacy p)"
    using assms by (auto simp: MakeRoom_def LetGo_def Let_def parser_ok_def legacy_ok_butlast dest: in_set_butlastD split: if_splits)
  show "kept \<Longrightarrow> Baseline_size (ps_baseline p') + length (ps_legacy p') < kMaxRecords"
    using assms(1) small by (auto simp: MakeRoom_def LetGo_def Let_def length_greater_0_conv [symmetric] simp del: length_greater_0_conv split: if_splits)
qed

lemma om_set_length_le: "length (om_set k v m) \<le> length m + 1"
  by (induction k v m rule: om_set.induct) auto

lemma save_row_ok:
  assumes p: "parser_ok p" and r: "SaveRefused r = None"
  shows "parser_ok (save_row r p)"
proof -
  let ?apart = "ps_version p = kSourceSlotVersion \<and> sv_slot r \<noteq> None"
  obtain got p' where room: "MakeRoom (SaveFingerprint r) (if ?apart then Some r else None) p = (got, p')" by fastforce
  note m = MakeRoom_ok [OF room p]
  show ?thesis
  proof (cases "WasLetGo (SaveFingerprint r) p \<or>
        (if ?apart then (case Held r (ps_legacy p) of None \<Rightarrow> False | Some a \<Rightarrow> \<not> Before r a)
         else Baseline_Find (sv_key r) (ps_baseline p) \<noteq> None)")
    case True
    then show ?thesis unfolding save_row_def Let_def by (simp only: if_True complain_ok [OF p])
  next
    case not2: False
    have run: "save_row r p = (if \<not> got then p' else if ?apart then p'\<lparr>ps_legacy := insort_key sv_key r (ps_legacy p')\<rparr>
        else p'\<lparr>ps_baseline := Baseline_Set r (ps_baseline p')\<rparr>)"
      unfolding save_row_def Let_def room using not2 by (simp only: if_False prod.case if_not_P)
    show ?thesis
    proof (cases "got \<and> ?apart")
      case True
      then have "sv_key r \<notin> sv_key ` set (ps_legacy p)"
        using not2 p by (intro Held_fresh) (auto simp: parser_ok_def legacy_ok_def split: option.splits)
      then have "sv_key r \<notin> sv_key ` set (ps_legacy p')" using m(3) by blast
      then show ?thesis
        using True m(1) m(4) r legacy_ok_insort [of "ps_legacy p'" r] by (simp add: run parser_ok_def)
    next
      case False
      then show ?thesis
        using m(1) m(4) r saves_ok_set [of "bl_rows (ps_baseline p')" r]
          om_set_length_le [of "sv_key r" r "bl_rows (ps_baseline p')"]
        by (auto simp: run parser_ok_def Baseline_Set_def Baseline_size_def)
    qed
  qed
qed

lemma state_row_ok:
  assumes p: "parser_ok p" and r: "StateRefused r = None"
  shows "parser_ok (state_row r p)"
proof -
  obtain got p' where room: "MakeRoom (StateFingerprint r) None p = (got, p')" by fastforce
  note m = MakeRoom_ok [OF room p]
  show ?thesis
    using m(1) m(4) r complain_ok [OF p] states_ok_set [of "bl_states (ps_baseline p')" r]
      om_set_length_le [of "sa_key r" r "bl_states (ps_baseline p')"]
    by (auto simp: state_row_def room parser_ok_def SetState_def Baseline_size_def)
qed

lemma ParseSaveRecord_not_refused: "ParseSaveRecord v = Inr r \<Longrightarrow> SaveRefused r = None"
  by (auto simp: ParseSaveRecord_def Let_def split: prod.splits if_splits sum.splits option.splits)

lemma ParseStateRecord_not_refused: "ParseStateRecord v = Inr r \<Longrightarrow> StateRefused r = None"
  by (auto simp: ParseStateRecord_def Let_def split: prod.splits if_splits sum.splits option.splits)

lemma Parser_Row_ok: "parser_ok p \<Longrightarrow> parser_ok (Parser_Row l p)"
  by (auto simp: Parser_Row_def Let_def complain_ok save_row_ok state_row_ok ParseSaveRecord_not_refused
      ParseStateRecord_not_refused split: sum.split RowKind.split)

lemma parser_ok_steps [simp]:
  "parser_ok (p\<lparr>ps_number := n\<rparr>) = parser_ok p" "parser_ok (p\<lparr>ps_rows := n\<rparr>) = parser_ok p"
  "parser_ok (p\<lparr>ps_blank := n\<rparr>) = parser_ok p" "parser_ok (p\<lparr>ps_over := o'\<rparr>) = parser_ok p"
  "parser_ok (p\<lparr>ps_version := n\<rparr>) = parser_ok p" "parser_ok (p\<lparr>ps_newer := n\<rparr>) = parser_ok p"
  by (simp_all add: parser_ok_def)

lemma parser_ok_complaint:
  "parser_ok p \<Longrightarrow> parser_ok (p\<lparr>ps_number := n, ps_complaints := Add (ps_complaints p) d\<rparr>)"
  by (simp add: parser_ok_def Add_length)

lemma Parser_Line_ok: "parser_ok p \<Longrightarrow> parser_ok (Parser_Line l p)"
  by (simp add: Parser_Line_def Let_def Parser_Row_ok parser_ok_complaint)

lemma new_Parser_ok: "parser_ok new_Parser"
  by (simp add: parser_ok_def new_Parser_def no_baseline_def saves_ok_def states_ok_def legacy_ok_def Baseline_size_def)

lemma Parser_Lines_ok: "parser_ok p \<Longrightarrow> parser_ok (fold Parser_Line ls p)"
  by (induction ls arbitrary: p) (simp_all add: Parser_Line_ok)

text \<open>What a reader answers with.\<close>

definition loaded_ok :: "LoadedBaseline \<Rightarrow> bool" where
  "loaded_ok l \<longleftrightarrow> saves_ok (bl_rows (lb_value l)) \<and> states_ok (bl_states (lb_value l)) \<and>
     legacy_ok (lb_legacy_saves l) \<and> Baseline_size (lb_value l) + length (lb_legacy_saves l) \<le> kMaxRecords \<and>
     length (lb_diagnostics l) \<le> kMaxDiagnostics + 1"

lemma no_loaded_ok: "length ds \<le> kMaxDiagnostics + 1 \<Longrightarrow> loaded_ok (no_loaded\<lparr>lb_diagnostics := ds\<rparr>)"
  by (simp add: loaded_ok_def no_loaded_def no_baseline_def saves_ok_def states_ok_def legacy_ok_def Baseline_size_def)

lemma Parser_Finish_ok: "parser_ok p \<Longrightarrow> loaded_ok (Parser_Finish p)"
  unfolding Parser_Finish_def
  by (auto intro!: no_loaded_ok simp: parser_ok_def) (auto simp: loaded_ok_def)

text \<open>C11: Whatever the card's bytes are, what is parsed of them is a baseline: both tables in key order
  with no key twice, every row one \<open>Usable\<close> passes and under its own key, rows and adopted rows together
  within \<open>kMaxRecords\<close>, and a bounded list of complaints.\<close>

theorem any_text_is_a_baseline: "loaded_ok (ParseBaseline s)"
  by (simp add: ParseBaseline_def Parser_Finish_ok Parser_Lines_ok new_Parser_ok)

section \<open>The rows that are written\<close>

text \<open>A baseline as the program holds one: a row under its own key, its numbers in their type.\<close>

definition own_keys :: "Baseline \<Rightarrow> bool" where
  "own_keys b \<longleftrightarrow> om_ok (bl_rows b) \<and> om_ok (bl_states b) \<and>
     list_all (\<lambda>(k, r). k = sv_key r) (bl_rows b) \<and> list_all (\<lambda>(k, r). k = sa_key r) (bl_states b)"

definition keyed :: "Baseline \<Rightarrow> bool" where
  "keyed b \<longleftrightarrow> own_keys b \<and> list_all (\<lambda>(k, r). save_typed r) (bl_rows b) \<and>
     list_all (\<lambda>(k, r). state_typed r) (bl_states b)"

text \<open>The rows \<open>Usable\<close> passes.\<close>

definition kept :: "Baseline \<Rightarrow> Baseline" where
  "kept b = \<lparr>bl_rows = filter (\<lambda>row. SaveRefused (snd row) = None) (bl_rows b),
     bl_states = filter (\<lambda>row. StateRefused (snd row) = None) (bl_states b)\<rparr>"

lemma om_ok_filter: "om_ok m \<Longrightarrow> om_ok (filter P m)"
  by (induction m) auto

lemma writable_saves:
  "om_ok (bl_rows b @ rows) \<Longrightarrow> list_all (\<lambda>(k, r). k = sv_key r) rows \<Longrightarrow>
   fst (fold writable_save (map snd rows) (b, s)) =
     b\<lparr>bl_rows := bl_rows b @ filter (\<lambda>row. SaveRefused (snd row) = None) rows\<rparr>"
proof (induction rows arbitrary: b s)
  case (Cons row rows)
  obtain k r where row [simp]: "row = (k, r)" by fastforce
  have k [simp]: "k = sv_key r" using Cons.prems(2) by simp
  have less: "om_ok (bl_rows b @ rows)" "\<forall>l \<in> fst ` set (bl_rows b). l < sv_key r"
    using Cons.prems(1) by (auto simp: om_ok_def sorted_wrt_append)
  have "Baseline_Set r b = b\<lparr>bl_rows := bl_rows b @ [(sv_key r, r)]\<rparr>"
    using less(2) by (simp add: Baseline_Set_def om_set_snoc)
  then show ?case
    using Cons.IH [of b] Cons.IH [of "Baseline_Set r b"] Cons.prems less(1)
    by (cases "SaveRefused r") (simp_all add: writable_save_def)
qed simp

lemma writable_states:
  "om_ok (bl_states b @ rows) \<Longrightarrow> list_all (\<lambda>(k, r). k = sa_key r) rows \<Longrightarrow>
   fst (fold writable_state (map snd rows) (b, s)) =
     b\<lparr>bl_states := bl_states b @ filter (\<lambda>row. StateRefused (snd row) = None) rows\<rparr>"
proof (induction rows arbitrary: b s)
  case (Cons row rows)
  obtain k r where row [simp]: "row = (k, r)" by fastforce
  have k [simp]: "k = sa_key r" using Cons.prems(2) by simp
  have less: "om_ok (bl_states b @ rows)" "\<forall>l \<in> fst ` set (bl_states b). l < sa_key r"
    using Cons.prems(1) by (auto simp: om_ok_def sorted_wrt_append)
  have "SetState r b = b\<lparr>bl_states := bl_states b @ [(sa_key r, r)]\<rparr>"
    using less(2) by (simp add: SetState_def om_set_snoc)
  then show ?case
    using Cons.IH [of b] Cons.IH [of "SetState r b"] Cons.prems less(1)
    by (cases "StateRefused r") (simp_all add: writable_state_def)
qed simp

lemma writable_part_kept: "own_keys b \<Longrightarrow> fst (writable_part b) = kept b"
proof -
  assume b: "own_keys b"
  obtain b1 s1 where 1: "fold writable_save (map snd (bl_rows b)) (no_baseline, []) = (b1, s1)" by fastforce
  have "b1 = no_baseline\<lparr>bl_rows := filter (\<lambda>row. SaveRefused (snd row) = None) (bl_rows b)\<rparr>"
    using writable_saves [of no_baseline "bl_rows b" "[]"] b unfolding 1 by (simp add: own_keys_def no_baseline_def)
  with writable_states [of b1 "bl_states b" s1] b show ?thesis
    unfolding writable_part_def 1 by (simp add: kept_def own_keys_def no_baseline_def)
qed

lemma keyed_own_keys: "keyed b \<Longrightarrow> own_keys b"
  by (simp add: keyed_def)

lemma kept_storable: "keyed b \<Longrightarrow> Baseline_size (kept b) \<le> kMaxRecords \<Longrightarrow> storable (kept b)"
  by (auto simp: keyed_def own_keys_def storable_def kept_def om_ok_filter list_all_iff)

lemma SaveBaseline_runs:
  assumes "keyed b" "SaveBaseline path b w = (r, w')"
  obtains (refused) "\<not> bs_ok r" "w' = w"
  | (written) wr where "WriteAtomically path (SerializeBaseline (kept b)) w = (wr, w')" "storable (kept b)"
      "length (SerializeBaseline (kept b)) \<le> kMaxStateBytes" "bs_ok r \<longleftrightarrow> wr_ok wr"
      "bs_ok r \<longrightarrow> bs_rows_written r = Baseline_size (kept b)"
proof -
  obtain s where s: "writable_part b = (kept b, s)"
    using writable_part_kept [OF keyed_own_keys [OF assms(1)]] by (metis prod.collapse)
  obtain wr w1 where wr: "WriteAtomically path (SerializeBaseline (kept b)) w = (wr, w1)" by fastforce
  show ?thesis
  proof (cases "Baseline_size (kept b) > kMaxRecords \<or> length (SerializeBaseline (kept b)) > kMaxStateBytes")
    case True
    with assms(2) show ?thesis
      by (intro refused) (auto simp: SaveBaseline_def s bs_ok_def Let_def split: if_splits)
  next
    case False
    with assms(2) have "w' = w1" and "bs_ok r \<longleftrightarrow> wr_ok wr"
      "bs_ok r \<longrightarrow> bs_rows_written r = Baseline_size (kept b)"
      by (auto simp: SaveBaseline_def s wr bs_ok_def wr_ok_def Let_def split: WriteError.splits)
    with False wr kept_storable [OF assms(1)] show ?thesis by (intro written [of wr]) simp_all
  qed
qed

section \<open>The file\<close>

lemma Load_healthy: "answers w = [] \<Longrightarrow> files w path = Some f \<Longrightarrow> length (data f) \<le> kMaxStateBytes \<Longrightarrow>
    Load path w = ((BoundedRead_kOk, ParseBaseline (data f)), w)"
  by (simp add: Load_def OpenForReading_healthy bounded_loop_healthy)

lemma Load_missing: "answers w = [] \<Longrightarrow> files w path = None \<Longrightarrow> Load path w = ((BoundedRead_kMissing, no_loaded), w)"
  by (simp add: Load_def OpenForReading_healthy)

lemma LoadBaseline_recoverable:
  assumes h: "answers w = []" and rec: "recoverable path (files w) = Some f" and b: "storable b"
    and d: "data f = SerializeBaseline b" "length (data f) \<le> kMaxStateBytes"
  shows "lb_value (fst (LoadBaseline path w)) = as_stored b"
proof (cases "files w path")
  case None
  with rec have "files w (PreviousPathFor path) = Some f" by (simp add: recoverable_def)
  with None show ?thesis
    using Load_missing [OF h None] Load_healthy [OF h, of "PreviousPathFor path" f] d storable_read [OF b]
    by (simp add: LoadBaseline_def recovered_baseline_def Let_def)
next
  case (Some g)
  with rec have "g = f" by (simp add: recoverable_def)
  with Some show ?thesis
    using Load_healthy [OF h Some] d storable_read [OF b] by (simp add: LoadBaseline_def)
qed

text \<open>C10: A baseline saved comes back: every row \<open>Usable\<close> passes, under its key, in whole seconds, and nothing
  else; no line of the text the writer makes is one the reader complains of.\<close>

theorem baseline_survives_the_card:
  assumes "keyed b" "file_path path" "answers w = []" "SaveBaseline path b w = (r, w')" "bs_ok r"
  shows "LoadBaseline path w' = (\<lparr>lb_value = as_stored (kept b), lb_diagnostics = [],
      lb_version = kFormatVersion, lb_legacy_saves = []\<rparr>, w') \<and> bs_rows_written r = Baseline_size (kept b)"
  using assms(1, 4)
proof (cases rule: SaveBaseline_runs)
  case (written wr)
  obtain s where "answers w' = []" "files w' path = Some \<lparr>data = SerializeBaseline (kept b), on_card = s\<rparr>"
    using one_piece.write_then_read [OF assms(3, 2) written(1) [unfolded WriteAtomically_def]] by auto
  then have "Load path w' = ((BoundedRead_kOk, ParseBaseline (SerializeBaseline (kept b))), w')"
    using Load_healthy [of w' path] written(3) by simp
  with storable_read [OF written(2)] written(5) assms(5) show ?thesis by (simp add: LoadBaseline_def)
qed (use assms(5) in simp)

text \<open>C9: With a sync hook installed, cut the power at any moment of a save and tear everything unsynced: the next
  tick starts from the baseline of before or the whole new one, never from none and never from a mixture.
  With no hook nothing is promised of a power cut.\<close>

theorem baseline_survives_a_power_cut:
  assumes "storable before" "length (SerializeBaseline before) \<le> kMaxStateBytes" "keyed after"
    "file_path path" "file_sync w" "files w path = Some \<lparr>data = SerializeBaseline before, on_card = True\<rparr>"
    and save: "SaveBaseline path after w = (r, w')"
    and at: "fs \<in> set (seen w')" "fs \<notin> set (seen w)"
  shows "lb_value (fst (LoadBaseline path (after_cut torn fs))) \<in> {as_stored before, as_stored (kept after)}"
  using assms(3) save
proof (cases rule: SaveBaseline_runs)
  case (written wr)
  have old: "recoverable path (files w) = Some \<lparr>data = SerializeBaseline before, on_card = True\<rparr>"
    using assms(6) by (simp add: recoverable_def)
  have "commits path (Some \<lparr>data = SerializeBaseline (kept after), on_card = True\<rparr>) w (wr_ok wr) w'"
    using one_piece.WriteStaged_commits [OF written(1) [unfolded WriteAtomically_def] assms(4)] assms(5) by simp
  then have "recoverable path fs \<in> {recoverable path (files w),
      Some \<lparr>data = SerializeBaseline (kept after), on_card = True\<rparr>}"
    using leaves_seen at by (auto simp: commits_def)
  then have "recoverable path (cut torn fs) \<in> {recoverable path (files w),
      Some \<lparr>data = SerializeBaseline (kept after), on_card = True\<rparr>}"
    using old recoverable_cut(1) [of path fs _ torn] by auto
  then show ?thesis
    using LoadBaseline_recoverable [of "after_cut torn fs" path _ before]
      LoadBaseline_recoverable [of "after_cut torn fs" path _ "kept after"] old assms(1, 2) written(2, 3)
    by (auto simp: after_cut_def)
qed (use at in simp)

section \<open>Witnesses\<close>

definition sample_rows :: Baseline where
  "sample_rows = Baseline_Set \<lparr>sv_rom_id = 7, sv_slot = Some ''a.srm'',
      sv_content_hash = replicate 32 (CHR ''a''), sv_mtime = 5 * ticks_per_second + 5,
      sv_file_size_bytes = 12, sv_server_updated_at = Some (6 * ticks_per_second), sv_server_content_hash = None,
      sv_deleted_on_server = True\<rparr>
    (SetState \<lparr>sa_rom_id = 7, sa_file_name = ''s.state'', sa_emulator = [],
      sa_content_hash = replicate 32 (CHR ''0''), sa_mtime = 5 * ticks_per_second, sa_file_size_bytes = 1,
      sa_server_state_id = 3, sa_server_updated_at = 5 * ticks_per_second, sa_server_file_size_bytes = 2\<rparr> no_baseline)"

definition more_rows :: Baseline where
  "more_rows = Baseline_Set \<lparr>sv_rom_id = 0, sv_slot = None, sv_content_hash = [], sv_mtime = 0,
     sv_file_size_bytes = 0, sv_server_updated_at = None, sv_server_content_hash = None,
     sv_deleted_on_server = False\<rparr> sample_rows"

lemma sample_rows_facts: "storable sample_rows" "keyed more_rows" "kept more_rows = sample_rows"
    "length (SerializeBaseline sample_rows) \<le> kMaxStateBytes"
proof -
  have "list_all (\<lambda>(k, r). k = sv_key r \<and> SaveRefused r = None \<and> save_typed r) (bl_rows sample_rows)" by code_simp
  moreover have "list_all (\<lambda>(k, r). k = sa_key r \<and> StateRefused r = None \<and> state_typed r) (bl_states sample_rows)" by code_simp
  ultimately show "storable sample_rows"
    by (simp add: storable_def sample_rows_def Baseline_Set_def SetState_def no_baseline_def Baseline_size_def kMaxRecords_def)
  show "keyed more_rows"
    by (simp add: keyed_def own_keys_def more_rows_def sample_rows_def Baseline_Set_def SetState_def no_baseline_def save_typed_def
        state_typed_def in_int64_def)
  show "kept more_rows = sample_rows" by code_simp
  have "length (SerializeBaseline sample_rows) \<le> 500" by code_simp
  then show "length (SerializeBaseline sample_rows) \<le> kMaxStateBytes" by (simp add: kMaxStateBytes_def)
qed

lemma saved_rows:
  assumes "answers w = []" "SaveBaseline path more_rows w = (r, w')"
  shows "bs_ok r"
proof -
  obtain s where s: "writable_part more_rows = (sample_rows, s)"
    using writable_part_kept [OF keyed_own_keys [OF sample_rows_facts(2)]] sample_rows_facts(3) by (metis prod.collapse)
  obtain wr w1 where wr: "WriteAtomically path (SerializeBaseline sample_rows) w = (wr, w1)" by fastforce
  have "wr_error wr = WriteError_kNone"
    using one_piece.WriteStaged_healthy [OF assms(1), of path "SerializeBaseline sample_rows"] wr
    by (auto simp: WriteAtomically_def)
  moreover have "Baseline_size sample_rows \<le> kMaxRecords"
    using sample_rows_facts(1) by (simp add: storable_def)
  ultimately show ?thesis
    using assms(2) sample_rows_facts(4) by (auto simp: SaveBaseline_def s wr bs_ok_def Let_def split: if_splits)
qed

theorem baseline_survives_the_card_witness:
  "fst (LoadBaseline ''/a'' (snd (SaveBaseline ''/a'' more_rows (sample_card\<lparr>answers := []\<rparr>)))) =
     \<lparr>lb_value = as_stored sample_rows, lb_diagnostics = [], lb_version = kFormatVersion, lb_legacy_saves = []\<rparr>"
  using baseline_survives_the_card [OF sample_rows_facts(2) sample_path(1) _ surjective_pairing
      saved_rows [OF _ surjective_pairing], of "sample_card\<lparr>answers := []\<rparr>"] sample_rows_facts(3)
  by simp

definition kept_card :: Card where
  "kept_card = sample_card\<lparr>files := [''/a'' \<mapsto> \<lparr>data = SerializeBaseline sample_rows, on_card = True\<rparr>]\<rparr>"

theorem baseline_survives_a_power_cut_witness:
  "lb_value (fst (LoadBaseline ''/a'' (after_cut (\<lambda>_ _. ''torn'')
      (hd (seen (snd (SaveBaseline ''/a'' no_baseline kept_card))))))) \<in>
    {as_stored sample_rows, as_stored no_baseline}"
proof -
  have k: "keyed no_baseline" "kept no_baseline = no_baseline" by code_simp+
  have c: "SerializeBaseline no_baseline = FormatHeader @ [CHR 0x0A]"
    by (simp add: SerializeBaseline_def no_baseline_def)
  then have "length (SerializeBaseline no_baseline) \<le> kMaxStateBytes"
    by (simp add: FormatHeader_text kMaxStateBytes_def)
  moreover have "writable_part no_baseline = (no_baseline, [])" by code_simp
  ultimately have "snd (SaveBaseline ''/a'' no_baseline kept_card) =
      snd (WriteAtomically ''/a'' (FormatHeader @ [CHR 0x0A]) kept_card)"
    by (simp add: SaveBaseline_def c Let_def case_prod_beta) (simp add: Baseline_size_def no_baseline_def)
  moreover have "seen (snd (WriteAtomically ''/a'' (FormatHeader @ [CHR 0x0A]) kept_card)) = [] \<longleftrightarrow> False"
    by code_simp
  ultimately have "hd (seen (snd (SaveBaseline ''/a'' no_baseline kept_card))) \<in>
      set (seen (snd (SaveBaseline ''/a'' no_baseline kept_card)))" by simp
  then show ?thesis
    using baseline_survives_a_power_cut [OF sample_rows_facts(1, 4) k(1) sample_path(1) _ _ surjective_pairing, of kept_card]
    by (simp add: k(2) kept_card_def sample_card_def)
qed

end
