(* ===== verification/FileSystem.thy ===== *)
theory FileSystem
  imports SyncNegotiate
begin

text \<open>
  \<open>core/src/file_system.cpp\<close>: the paths of a card taken apart and put together, and the lookup of a
  file through the listing of its directory, of which the last one read is kept.
\<close>

fun ListError_ToString :: "ListError \<Rightarrow> bytes" where
  "ListError_ToString ListError_kNone = ''none''"
| "ListError_ToString ListError_kMissing = ''missing''"
| "ListError_ToString ListError_kNotADirectory = ''not a directory''"
| "ListError_ToString ListError_kUnreadable = ''unreadable''"
| "ListError_ToString ListError_kTooManyEntries = ''too many entries''"

fun MakeDirError_ToString :: "MakeDirError \<Rightarrow> bytes" where
  "MakeDirError_ToString MakeDirError_kNone = ''none''"
| "MakeDirError_ToString MakeDirError_kNotOnThisCard = ''not on this card''"
| "MakeDirError_ToString MakeDirError_kNotADirectory = ''not a directory''"
| "MakeDirError_ToString MakeDirError_kUnwritable = ''unwritable''"

definition ls_ok :: "Listing \<Rightarrow> bool" where
  "ls_ok listing \<longleftrightarrow> ls_error listing = ListError_kNone"

text \<open>The directory and the name, when the path has both.\<close>

definition SplitPath :: "bytes \<Rightarrow> (bytes \<times> bytes) option" where
  "SplitPath sd_path =
     (case rfind (CHR ''/'') sd_path of None \<Rightarrow> None
      | Some slash \<Rightarrow>
          if slash + 1 \<ge> length sd_path then None
          else Some (if slash = 0 then ''/'' else take slash sd_path, drop (slash + 1) sd_path))"

definition JoinPath :: "bytes \<Rightarrow> bytes \<Rightarrow> bytes" where
  "JoinPath directory name =
     (if directory = [] \<or> last directory \<noteq> CHR ''/'' then directory @ ''/'' else directory) @ name"

text \<open>The listing that is kept, and whose it is.\<close>

type_synonym Directories = "bytes \<times> Listing"

definition no_directories :: Directories where
  "no_directories = ([], no_listing)"

definition Directories_Find ::
  "'n Host \<Rightarrow> bytes \<Rightarrow> Directories \<Rightarrow> 'n World \<Rightarrow> (bytes + Entry) \<times> Directories" where
  "Directories_Find host sd_path dirs w =
     (case SplitPath sd_path of
        None \<Rightarrow> (Inl (quoted sd_path @ '' is not a path with a directory in it''), dirs)
      | Some (directory, leaf) \<Rightarrow>
          let dirs = (if directory \<noteq> fst dirs then (directory, ListDirectory host directory w) else dirs);
              listing = snd dirs
          in (case find (\<lambda>e. \<not> en_is_directory e \<and> en_name e = leaf) (ls_entries listing) of
            Some entry \<Rightarrow> (Inr entry, dirs)
          | None \<Rightarrow>
              (Inl (if \<not> ls_ok listing then ''its directory could not be read: '' @ ls_message listing
                    else ''it is no longer at '' @ sd_path), dirs)))"

section \<open>Paths taken apart are put together\<close>

lemma rfind_parts:
  assumes "rfind c s = Some i"
  shows "s = take i s @ c # drop (i + 1) s \<and> c \<notin> set (drop (i + 1) s) \<and> i < length s"
proof -
  let ?tail = "takeWhile (\<lambda>x. x \<noteq> c) (rev s)"
  from assms have c: "c \<in> set s" and i: "i = length s - 1 - length ?tail"
    by (auto simp: rfind_def split: if_splits)
  have "dropWhile (\<lambda>x. x \<noteq> c) (rev s) \<noteq> []" using c by (simp add: dropWhile_eq_Nil_conv)
  moreover from hd_dropWhile [OF this] have "hd (dropWhile (\<lambda>x. x \<noteq> c) (rev s)) = c" by simp
  ultimately obtain ys where ys: "dropWhile (\<lambda>x. x \<noteq> c) (rev s) = c # ys"
    by (cases "dropWhile (\<lambda>x. x \<noteq> c) (rev s)") simp_all
  have "rev s = ?tail @ c # ys" using takeWhile_dropWhile_id [of "\<lambda>x. x \<noteq> c" "rev s"] ys by simp
  then have s: "s = rev ys @ c # rev ?tail" by (simp add: rev_swap)
  have l: "length s = Suc (length ys + length ?tail)" by (subst s) simp
  then have "i = length ys" using i by simp
  then have "take i s = rev ys" "drop (i + 1) s = rev ?tail" by (subst s, simp)+
  moreover have "c \<notin> set ?tail" by (auto dest: set_takeWhileD)
  ultimately show ?thesis using s l \<open>i = length ys\<close> by simp
qed

lemma SplitPath_joins:
  assumes "SplitPath p = Some (d, leaf)"
  shows "JoinPath d leaf = p \<and> leaf \<noteq> [] \<and> CHR ''/'' \<notin> set leaf \<or> (\<exists>q. d = q @ ''/'')"
proof -
  from assms obtain i where i: "rfind (CHR ''/'') p = Some i" "i + 1 < length p"
    "d = (if i = 0 then ''/'' else take i p)" "leaf = drop (i + 1) p"
    by (auto simp: SplitPath_def split: option.splits if_splits)
  note p = rfind_parts [OF i(1)]
  show ?thesis
  proof (cases "i = 0")
    case True
    with p i show ?thesis by (cases p) (auto simp: JoinPath_def)
  next
    case False
    then have "take i p \<noteq> []" using i(2) by auto
    show ?thesis
    proof (cases "last (take i p) = CHR ''/''")
      case True
      then have "d = butlast d @ ''/''" using i False \<open>take i p \<noteq> []\<close> by (metis append_butlast_last_id)
      then show ?thesis by blast
    next
      case nl: False
      then have "JoinPath d leaf = p" using i False p \<open>take i p \<noteq> []\<close> by (simp add: JoinPath_def)
      with p i show ?thesis by auto
    qed
  qed
qed

section \<open>A path resolved under the console's card\<close>

text \<open>\<open>ResolveOnCard\<close> of \<open>sysmodule/source/card.cpp\<close>, which the console's \<open>Resolve\<close> is: the segments of a
  path one after another, \<open>..\<close> refused, \<open>.\<close> and the empty ones dropped.\<close>

function resolve_segments :: "bytes \<Rightarrow> bytes \<Rightarrow> bytes" where
  "resolve_segments resolved rest =
     (let segment = takeWhile (\<lambda>c. c \<noteq> CHR ''/'') rest;
          after = dropWhile (\<lambda>c. c \<noteq> CHR ''/'') rest
      in
      if segment = ''..'' then []
      else
        let resolved = (if segment \<noteq> [] \<and> segment \<noteq> ''.'' then resolved @ ''/'' @ segment else resolved) in
        if after = [] then resolved else resolve_segments resolved (tl after))"
  by pat_completeness auto
termination
proof (relation "measure (\<lambda>(_, rest). length rest)")
  fix rest :: bytes and after
  assume "after = dropWhile (\<lambda>c. c \<noteq> CHR ''/'') rest" "after \<noteq> []"
  then have "length (tl after) < length after" "length after \<le> length rest"
    by (simp_all add: length_dropWhile_le)
  then show "((r, tl after), (r', rest)) \<in> measure (\<lambda>(_, rest). length rest)" for r r' :: bytes by simp
qed simp

declare resolve_segments.simps [simp del]

definition ResolveOnCard :: "bytes \<Rightarrow> bytes \<Rightarrow> bytes" where
  "ResolveOnCard mount sd_path = (if CHR 0x00 \<in> set sd_path then [] else resolve_segments mount sd_path)"

definition pushed :: "bytes \<Rightarrow> bytes \<Rightarrow> bytes" where
  "pushed r segment = (if segment \<noteq> [] \<and> segment \<noteq> ''.'' then r @ ''/'' @ segment else r)"

lemma resolve_segments_last:
  assumes "CHR ''/'' \<notin> set n"
  shows "resolve_segments r n = (if n = ''..'' then [] else pushed r n)"
proof -
  have "takeWhile (\<lambda>c. c \<noteq> CHR ''/'') n = n" "dropWhile (\<lambda>c. c \<noteq> CHR ''/'') n = []"
    using assms by (auto simp: takeWhile_eq_all_conv dropWhile_eq_Nil_conv)
  note parts = this
  show ?thesis unfolding resolve_segments.simps [of r n] Let_def parts pushed_def by simp
qed

lemma resolve_segments_slash:
  assumes "CHR ''/'' \<notin> set n"
  shows "resolve_segments r (n @ CHR ''/'' # rest) =
    (if n = ''..'' then [] else resolve_segments (pushed r n) rest)"
proof -
  have "takeWhile (\<lambda>c. c \<noteq> CHR ''/'') (n @ CHR ''/'' # rest) = n"
    "dropWhile (\<lambda>c. c \<noteq> CHR ''/'') (n @ CHR ''/'' # rest) = CHR ''/'' # rest"
    using assms by (auto simp: takeWhile_append dropWhile_append takeWhile_eq_all_conv dropWhile_eq_Nil_conv)
  note parts = this
  show ?thesis
    unfolding resolve_segments.simps [of r "n @ CHR ''/'' # rest"] Let_def parts pushed_def by simp
qed

text \<open>Induction over the segments of a path.\<close>

lemma segments_induct [case_names last slash]:
  assumes "\<And>n. CHR ''/'' \<notin> set n \<Longrightarrow> P n"
    and "\<And>n rest. CHR ''/'' \<notin> set n \<Longrightarrow> P rest \<Longrightarrow> P (n @ CHR ''/'' # rest)"
  shows "P p"
proof (induction "length p" arbitrary: p rule: less_induct)
  case less
  show ?case
  proof (cases "CHR ''/'' \<in> set p")
    case True
    then obtain n rest where "p = n @ CHR ''/'' # rest" "CHR ''/'' \<notin> set n" by (metis split_list_first)
    with assms(2) less show ?thesis by simp
  qed (rule assms(1))
qed

text \<open>The last segment of a path: a name under what the directory resolves to, or nothing more than the
  directory, or refused.\<close>

definition leaf_under :: "bytes \<Rightarrow> bytes \<Rightarrow> bytes" where
  "leaf_under directory n = (if directory = [] \<or> n = ''..'' then [] else pushed directory n)"

lemma resolve_segments_under:
  assumes "CHR ''/'' \<notin> set n"
  shows "r \<noteq> [] \<Longrightarrow> resolve_segments r (d @ CHR ''/'' # n) = leaf_under (resolve_segments r d) n"
proof (induction d arbitrary: r rule: segments_induct)
  case (last m)
  then have "pushed r m \<noteq> []" by (simp add: pushed_def)
  with last assms show ?case
    by (simp add: resolve_segments_slash resolve_segments_last leaf_under_def)
next
  case (slash m rest)
  then have "pushed r m \<noteq> []" by (simp add: pushed_def)
  with slash.IH [OF this] slash.hyps show ?case
    by (simp add: resolve_segments_slash) (simp add: leaf_under_def)
qed

lemma ResolveOnCard_under:
  assumes "mount \<noteq> []" "CHR ''/'' \<notin> set n"
  shows "ResolveOnCard mount (d @ ''/'' @ n) = (if CHR 0x00 \<in> set n then [] else leaf_under (ResolveOnCard mount d) n)"
  using resolve_segments_under [OF assms(2, 1), of d] by (auto simp: ResolveOnCard_def leaf_under_def)

text \<open>What is resolved is the card's root or ends in a segment that is a name.\<close>

definition named_under :: "bytes \<Rightarrow> bytes \<Rightarrow> bool" where
  "named_under r p \<longleftrightarrow> (\<exists>x n. p = x @ CHR ''/'' # n \<and> length r \<le> length x \<and> n \<noteq> ''.'' \<and> CHR ''/'' \<notin> set n)"

lemma named_under_mono:
  assumes "named_under r' q" "length r \<le> length r'"
  shows "named_under r q"
proof -
  from assms(1) obtain x n where "q = x @ CHR ''/'' # n" "length r' \<le> length x" "n \<noteq> ''.''" "CHR ''/'' \<notin> set n"
    by (auto simp: named_under_def)
  with assms(2) show ?thesis unfolding named_under_def by (intro exI [of _ x] exI [of _ n]) simp
qed

lemma pushed_named: "CHR ''/'' \<notin> set n \<Longrightarrow> pushed r n = r \<or> named_under r (pushed r n)"
  by (auto simp: pushed_def named_under_def)

lemma resolve_segments_named:
  "resolve_segments r p = [] \<or> resolve_segments r p = r \<or> named_under r (resolve_segments r p)"
proof (induction p arbitrary: r rule: segments_induct)
  case (last n)
  with pushed_named [OF this, of r] show ?case by (simp add: resolve_segments_last)
next
  case (slash n rest)
  have "length r \<le> length (pushed r n)" by (simp add: pushed_def)
  then have "named_under (pushed r n) q \<Longrightarrow> named_under r q" for q using named_under_mono by blast
  with slash.IH [of "pushed r n"] pushed_named [OF slash.hyps, of r] slash.hyps show ?case
    by (auto simp: resolve_segments_slash)
qed

lemma named_under_longer: "named_under r p \<Longrightarrow> length r < length p"
  by (auto simp: named_under_def)

lemma named_under_no_dot: "\<not> named_under r (x @ ''/.'')"
proof
  assume "named_under r (x @ ''/.'')"
  then obtain y n where n: "x @ ''/.'' = y @ CHR ''/'' # n" "n \<noteq> ''.''" "CHR ''/'' \<notin> set n"
    by (auto simp: named_under_def)
  then show False by (cases n rule: rev_cases) (auto simp: append_eq_append_conv2 append_eq_Cons_conv Cons_eq_append_conv)
qed

lemma ResolveOnCard_no_dot:
  assumes "ResolveOnCard mount d \<noteq> []"
  shows "ResolveOnCard mount p \<noteq> ResolveOnCard mount d @ ''/.''"
proof
  assume eq: "ResolveOnCard mount p = ResolveOnCard mount d @ ''/.''"
  have l: "length mount \<le> length (ResolveOnCard mount d)"
    using resolve_segments_named [of mount d] assms
    by (auto simp: ResolveOnCard_def split: if_splits dest: named_under_longer)
  have "length (ResolveOnCard mount p) = length (ResolveOnCard mount d) + 2" unfolding eq by simp
  with l have "ResolveOnCard mount p \<noteq> mount" "ResolveOnCard mount p \<noteq> []" by auto
  then have "named_under mount (ResolveOnCard mount p)"
    using resolve_segments_named [of mount p] by (auto simp: ResolveOnCard_def)
  with named_under_no_dot show False unfolding eq by blast
qed

end
