(* ===== verification/SyncComplete.thy ===== *)
theory SyncComplete
  imports SyncNegotiate
begin

text \<open>
  \<open>core/src/sync_complete.cpp\<close>: the session of a tick closed on the server, with the play sessions the
  body carries and the answer read back.
\<close>

section \<open>What the call can come to\<close>

datatype CompleteError = Complete_kNone | Complete_kNotRegistered | Complete_kNoSession
  | Complete_kUnauthorized | Complete_kForbidden | Complete_kNoSuchSession | Complete_kAlreadyCompleted
  | Complete_kSuperseded | Complete_kRejected | Complete_kUnusablePayload | Complete_kCanceled
  | Complete_kUnreachable | Complete_kServerError | Complete_kMalformed

fun CompleteError_ToString :: "CompleteError \<Rightarrow> bytes" where
  "CompleteError_ToString Complete_kNone = ''none''"
| "CompleteError_ToString Complete_kNotRegistered = ''not_registered''"
| "CompleteError_ToString Complete_kNoSession = ''no_session''"
| "CompleteError_ToString Complete_kUnauthorized = ''unauthorized''"
| "CompleteError_ToString Complete_kForbidden = ''forbidden''"
| "CompleteError_ToString Complete_kNoSuchSession = ''no_such_session''"
| "CompleteError_ToString Complete_kAlreadyCompleted = ''already_completed''"
| "CompleteError_ToString Complete_kSuperseded = ''superseded''"
| "CompleteError_ToString Complete_kRejected = ''rejected''"
| "CompleteError_ToString Complete_kUnusablePayload = ''unusable_payload''"
| "CompleteError_ToString Complete_kCanceled = ''canceled''"
| "CompleteError_ToString Complete_kUnreachable = ''unreachable''"
| "CompleteError_ToString Complete_kServerError = ''server_error''"
| "CompleteError_ToString Complete_kMalformed = ''malformed''"

definition CompleteShouldRetry :: "CompleteError \<Rightarrow> bool" where
  "CompleteShouldRetry e \<longleftrightarrow> e = Complete_kUnreachable \<or> e = Complete_kServerError"

fun AnswerOf_complete :: "CompleteError \<Rightarrow> AuthAnswer" where
  "AnswerOf_complete Complete_kUnauthorized = Answer_kRejected"
| "AnswerOf_complete Complete_kForbidden = Answer_kForbidden"
| "AnswerOf_complete Complete_kNone = Answer_kAccepted"
| "AnswerOf_complete Complete_kNoSuchSession = Answer_kAccepted"
| "AnswerOf_complete Complete_kAlreadyCompleted = Answer_kAccepted"
| "AnswerOf_complete Complete_kSuperseded = Answer_kAccepted"
| "AnswerOf_complete _ = Answer_kSilent"

section \<open>Play sessions\<close>

record PlaySession =
  pl_rom_id :: "int option"
  pl_save_slot :: "bytes option"
  pl_start_time :: Timestamp
  pl_end_time :: Timestamp
  pl_duration_ms :: int
  pl_title_id :: "u64 option"

datatype IngestStatus = Ingest_kCreated | Ingest_kDuplicate | Ingest_kError

fun IngestStatus_ToString :: "IngestStatus \<Rightarrow> bytes" where
  "IngestStatus_ToString Ingest_kCreated = ''created''"
| "IngestStatus_ToString Ingest_kDuplicate = ''duplicate''"
| "IngestStatus_ToString Ingest_kError = ''error''"

definition Ingested :: "IngestStatus \<Rightarrow> bool" where
  "Ingested s \<longleftrightarrow> s = Ingest_kCreated \<or> s = Ingest_kDuplicate"

definition Validate_session :: "PlaySession \<Rightarrow> Error" where
  "Validate_session s =
     (let start = UnixSeconds (pl_start_time s); finish = UnixSeconds (pl_end_time s) in
      if start < kMinTimestampSeconds \<or> start > kMaxTimestampSeconds
      then FieldError ''start_time'' ''is not an instant this client can spell''
      else if finish < kMinTimestampSeconds \<or> finish > kMaxTimestampSeconds
      then FieldError ''end_time'' ''is not an instant this client can spell''
      else if finish < start then FieldError ''end_time'' ''is before start_time''
      else if pl_duration_ms s < 0 then FieldError ''duration_ms'' ''is negative''
      else if pl_duration_ms s > (finish - start) * 1000
      then FieldError ''duration_ms'' ''is longer than the window between start_time and end_time''
      else if pl_rom_id s \<noteq> None \<and> the (pl_rom_id s) \<le> 0
      then FieldError ''rom_id'' ''is not a positive rom id''
      else if pl_save_slot s = Some []
      then FieldError ''save_slot'' ''is present and empty; send null instead''
      else no_error)"

definition session_text :: "PlaySession \<Rightarrow> bytes" where
  "session_text s =
     ''{'' @ key_text ''rom_id'' @ (case pl_rom_id s of Some i \<Rightarrow> to_string i | None \<Rightarrow> ''null'') @
     '','' @ key_text ''save_slot'' @ (case pl_save_slot s of Some x \<Rightarrow> Quote x | None \<Rightarrow> ''null'') @
     '','' @ key_text ''start_time'' @ Quote (FormatTimestamp (pl_start_time s)) @
     '','' @ key_text ''end_time'' @ Quote (FormatTimestamp (pl_end_time s)) @
     '','' @ key_text ''duration_ms'' @ to_string (pl_duration_ms s) @ ''}''"

fun first_bad_session :: "nat \<Rightarrow> PlaySession list \<Rightarrow> Error" where
  "first_bad_session index [] = no_error"
| "first_bad_session index (s # ss) =
     (let e = Validate_session s in
      if \<not> error_ok e then e\<lparr>field := ''play_sessions['' @ to_string (int index) @ ''].'' @ field e\<rparr>
      else first_bad_session (index + 1) ss)"

definition EncodePlaySessions :: "PlaySession list \<Rightarrow> Encoded" where
  "EncodePlaySessions sessions =
     (let e = first_bad_session 0 sessions in
      if \<not> error_ok e then \<lparr>enc_body = [], enc_error = e\<rparr>
      else \<lparr>enc_body = ''['' @ comma_separated (map session_text sessions) @ '']'', enc_error = no_error\<rparr>)"

record PlaySessionIngestResult =
  pr_index :: int
  pr_status :: IngestStatus
  pr_id :: "int option"
  pr_detail :: "bytes option"

record PlaySessionIngest =
  pi_results :: "PlaySessionIngestResult list"
  pi_created_count :: int
  pi_skipped_count :: int

definition no_ingest :: PlaySessionIngest where
  "no_ingest = \<lparr>pi_results = [], pi_created_count = 0, pi_skipped_count = 0\<rparr>"

definition result_spot :: "nat \<Rightarrow> bytes \<Rightarrow> bytes" where
  "result_spot i name = ''results['' @ to_string (int i) @ ''].'' @ name"

definition read_result :: "nat \<Rightarrow> Value \<Rightarrow> Error + PlaySessionIngestResult" where
  "read_result i v =
     (let row = make_Reader v ''play session ingest result'';
          (index, row) = Required_int ''index'' row;
          (status, row) = Required_string ''status'' row;
          (row_id, row) = RequiredNullable_int ''id'' row;
          (detail, row) = RequiredNullable_string ''detail'' row;
          word = into [] status;
          result = (\<lambda>s. \<lparr>pr_index = into 0 index, pr_status = s, pr_id = into None row_id, pr_detail = into None detail\<rparr>)
      in if \<not> Reader_ok row then Inl ((rd_error row)\<lparr>field := result_spot i (field (rd_error row))\<rparr>)
         else
           let known = (if word = ''created'' then Some Ingest_kCreated
                 else if word = ''duplicate'' then Some Ingest_kDuplicate
                 else if word = ''error'' then Some Ingest_kError else None)
           in case known of
             None \<Rightarrow> Inl (FieldError (result_spot i ''status'') ''is not created, duplicate or error'')
           | Some s \<Rightarrow>
               if pr_index (result s) < 0 then Inl (FieldError (result_spot i ''index'') ''is negative'')
               else Inr (result s))"

fun read_results :: "nat \<Rightarrow> Value list \<Rightarrow> Error + PlaySessionIngestResult list" where
  "read_results i [] = Inr []"
| "read_results i (v # vs) =
     (case read_result i v of Inl e \<Rightarrow> Inl e
      | Inr r \<Rightarrow> (case read_results (i + 1) vs of Inl e \<Rightarrow> Inl e | Inr rs \<Rightarrow> Inr (r # rs)))"

definition ParseIngestResponse :: "Value \<Rightarrow> bytes \<Rightarrow> PlaySessionIngest Parsed" where
  "ParseIngestResponse v whence =
     (let rd = make_Reader v whence;
          (created, rd) = Required_int ''created_count'' rd;
          (skipped, rd) = Required_int ''skipped_count'' rd
      in if \<not> Reader_ok rd then \<lparr>parsed_value = no_ingest, parsed_error = rd_error rd\<rparr>
         else case Find v ''results'' of
           None \<Rightarrow> \<lparr>parsed_value = no_ingest,
             parsed_error = FieldError ''results'' ''is missing or not an array''\<rparr>
         | Some results \<Rightarrow>
             if Value_type results \<noteq> kArray
             then \<lparr>parsed_value = no_ingest,
               parsed_error = FieldError ''results'' ''is missing or not an array''\<rparr>
             else (case read_results 0 (elements results) of
                 Inl e \<Rightarrow> \<lparr>parsed_value = no_ingest, parsed_error = e\<rparr>
               | Inr rs \<Rightarrow> \<lparr>parsed_value = \<lparr>pi_results = rs, pi_created_count = into 0 created,
                   pi_skipped_count = into 0 skipped\<rparr>, parsed_error = no_error\<rparr>))"

section \<open>The request\<close>

record CompletionCounts =
  cc_completed :: int
  cc_failed :: int

definition EncodeCompleteRequest :: "CompletionCounts \<Rightarrow> PlaySession list \<Rightarrow> Encoded" where
  "EncodeCompleteRequest tally sessions =
     (if cc_completed tally < 0
      then \<lparr>enc_body = [], enc_error = FieldError ''operations_completed'' ''is negative''\<rparr>
      else if cc_failed tally < 0
      then \<lparr>enc_body = [], enc_error = FieldError ''operations_failed'' ''is negative''\<rparr>
      else
        let encoded = EncodePlaySessions sessions in
        if \<not> error_ok (enc_error encoded) then \<lparr>enc_body = [], enc_error = enc_error encoded\<rparr>
        else \<lparr>enc_body =
            ''{'' @ key_text ''operations_completed'' @ to_string (cc_completed tally) @
            '','' @ key_text ''operations_failed'' @ to_string (cc_failed tally) @
            '','' @ key_text ''play_sessions'' @ enc_body encoded @ ''}'', enc_error = no_error\<rparr>)"

section \<open>The answer\<close>

record SyncSession =
  se_id :: int
  se_device_id :: bytes
  se_user_id :: int
  se_status :: bytes
  se_initiated_at :: bytes
  se_completed_at :: "bytes option"
  se_planned :: int
  se_completed :: int
  se_failed :: int
  se_error_message :: "bytes option"
  se_created_at :: bytes
  se_updated_at :: bytes

record SyncCompletion =
  cm_session :: SyncSession
  cm_ingest :: "PlaySessionIngest option"
  cm_warnings :: "bytes list"

definition no_session :: SyncSession where
  "no_session = \<lparr>se_id = 0, se_device_id = [], se_user_id = 0, se_status = [], se_initiated_at = [],
     se_completed_at = None, se_planned = 0, se_completed = 0, se_failed = 0, se_error_message = None,
     se_created_at = [], se_updated_at = []\<rparr>"

definition no_completion :: SyncCompletion where
  "no_completion = \<lparr>cm_session = no_session, cm_ingest = None, cm_warnings = []\<rparr>"

definition kCompletedStatus :: bytes where "kCompletedStatus = ''COMPLETED''"

definition ReadSession :: "Value \<Rightarrow> Error + SyncSession" where
  "ReadSession v =
     (let rd = make_Reader v ''sync session'';
          (row_id, rd) = Required_int ''id'' rd;
          (device, rd) = Required_string ''device_id'' rd;
          (user, rd) = Required_int ''user_id'' rd;
          (word, rd) = Required_string ''status'' rd;
          (initiated, rd) = Required_string ''initiated_at'' rd;
          (completed_at, rd) = RequiredNullable_string ''completed_at'' rd;
          (planned, rd) = Required_int ''operations_planned'' rd;
          (finished, rd) = Required_int ''operations_completed'' rd;
          (unfinished, rd) = Required_int ''operations_failed'' rd;
          (error_message, rd) = RequiredNullable_string ''error_message'' rd;
          (created, rd) = Required_string ''created_at'' rd;
          (updated, rd) = Required_string ''updated_at'' rd
      in if \<not> Reader_ok rd
         then Inl ((rd_error rd)\<lparr>field := (if field (rd_error rd) = [] then ''session''
                 else ''session.'' @ field (rd_error rd))\<rparr>)
         else if into 0 row_id \<le> 0 then Inl (FieldError ''session.id'' ''is not a positive session id'')
         else Inr \<lparr>se_id = into 0 row_id, se_device_id = into [] device, se_user_id = into 0 user,
           se_status = into [] word, se_initiated_at = into [] initiated,
           se_completed_at = into None completed_at, se_planned = into 0 planned,
           se_completed = into 0 finished, se_failed = into 0 unfinished,
           se_error_message = into None error_message, se_created_at = into [] created,
           se_updated_at = into [] updated\<rparr>)"

text \<open>The ingest that is kept, and the lines about it.\<close>

definition refused_session :: "PlaySessionIngestResult \<Rightarrow> bytes" where
  "refused_session r = ''the server refused play session '' @ to_string (pr_index r) @ '': '' @
     (case pr_detail r of Some d \<Rightarrow> d | None \<Rightarrow> ''no reason given'')"

definition read_ingest :: "Value option \<Rightarrow> PlaySessionIngest option \<times> bytes list" where
  "read_ingest ingest =
     (case ingest of None \<Rightarrow> (None, [])
      | Some v \<Rightarrow>
          if Value_type v = kNull then (None, [])
          else
            let parsed = ParseIngestResponse v ''play session ingest'' in
            if parsed_ok parsed
            then (Some (parsed_value parsed),
              map refused_session (filter (\<lambda>r. pr_status r = Ingest_kError) (pi_results (parsed_value parsed))))
            else (None, [''the server's play_session_ingest could not be read, so the play sessions this tick '' @
              ''sent stay buffered and are sent again: '' @ Describe (parsed_error parsed)]))"

definition session_warnings :: "SyncSession \<Rightarrow> bytes list" where
  "session_warnings session =
     (if se_status session \<noteq> kCompletedStatus
      then [''the session came back '' @ CHR 0x22 # se_status session @ CHR 0x22 # '' rather than '' @
        kCompletedStatus @ ''; its counts are not this tick's'']
      else []) @
     (case se_error_message session of None \<Rightarrow> []
      | Some msg \<Rightarrow> [''the server attached an error_message to the session: '' @ msg])"

definition ParseCompleteResponse :: "bytes \<Rightarrow> SyncCompletion Parsed" where
  "ParseCompleteResponse answer =
     (let document = Parse answer in
      if \<not> pr_ok document then \<lparr>parsed_value = no_completion, parsed_error = pr_error document\<rparr>
      else case Find (pr_value document) ''session'' of
        None \<Rightarrow> \<lparr>parsed_value = no_completion, parsed_error = FieldError ''session'' ''is missing''\<rparr>
      | Some v \<Rightarrow>
          (case ReadSession v of
             Inl e \<Rightarrow> \<lparr>parsed_value = no_completion, parsed_error = e\<rparr>
           | Inr session \<Rightarrow>
               let (ingest, lines) = read_ingest (Find (pr_value document) ''play_session_ingest'') in
               \<lparr>parsed_value = \<lparr>cm_session = session, cm_ingest = ingest,
                  cm_warnings = lines @ session_warnings session\<rparr>, parsed_error = no_error\<rparr>))"

section \<open>The call\<close>

record Completion =
  co_value :: SyncCompletion
  co_error :: CompleteError
  co_message :: bytes
  co_attempts :: int
  co_waited :: int

definition co_ok :: "Completion \<Rightarrow> bool" where
  "co_ok c \<longleftrightarrow> co_error c = Complete_kNone"

definition complete_refuse :: "CompleteError \<Rightarrow> bytes \<Rightarrow> Completion" where
  "complete_refuse e msg = \<lparr>co_value = no_completion, co_error = e, co_message = msg, co_attempts = 0, co_waited = 0\<rparr>"

definition kAlreadyCompletedDetail :: bytes where "kAlreadyCompletedDetail = ''Session is already COMPLETED''"
definition kClosedDetailPrefix :: bytes where "kClosedDetailPrefix = ''Session is already ''"
definition kNoSuchSessionDetail :: bytes where "kNoSuchSessionDetail = ''Sync session with ID''"

definition CompleteRefused :: "HttpResult \<Rightarrow> Completion option" where
  "CompleteRefused result =
     (let s = status (response result); answer = body (response result) in
      if http_error result = Http_kCanceled
      then Some (complete_refuse Complete_kCanceled (''the completion was stopped: '' @
        (if http_message result = [] then ''the caller cancelled'' else http_message result)))
      else if \<not> http_ok result
      then Some (complete_refuse Complete_kUnreachable (''the session was not completed: '' @
        HttpError_ToString (http_error result) @ because (http_message result)))
      else if s = 401
      then Some (complete_refuse Complete_kUnauthorized
        ''the completion was rejected: HTTP 401; the token has been revoked'')
      else if s = 403
      then Some (complete_refuse Complete_kForbidden
        ''the completion was rejected: HTTP 403; this pairing was not granted the scopes sync needs'')
      else if s = 404 \<and> contains answer kNoSuchSessionDetail
      then Some (complete_refuse Complete_kNoSuchSession
        ''the completion was answered 404; RomM has no session with that id at all'')
      else if s = 400 \<and> contains answer kAlreadyCompletedDetail
      then Some (complete_refuse Complete_kAlreadyCompleted
        (''this sync session was already completed; the counts it holds are the ones an '' @
         ''earlier attempt reported''))
      else if s = 400 \<and> contains answer kClosedDetailPrefix
      then Some (complete_refuse Complete_kSuperseded
        (''this sync session was already closed on the server; its counts were not '' @
         ''recorded, and the next tick opens a session of its own''))
      else if TransientStatus s
      then Some (complete_refuse Complete_kServerError (''the completion: HTTP '' @ to_string s @
        (if s = 429 then ''; the server is rate limiting'' else [])))
      else if \<not> successful result
      then Some (complete_refuse Complete_kRejected (''the completion was refused: HTTP '' @ to_string s))
      else None)"

definition completed_with :: "HttpResult \<Rightarrow> Completion" where
  "completed_with result =
     (case CompleteRefused result of Some refused \<Rightarrow> refused
      | None \<Rightarrow>
        let parsed = ParseCompleteResponse (body (response result)) in
        if parsed_ok parsed then (complete_refuse Complete_kNone [])\<lparr>co_value := parsed_value parsed\<rparr>
        else complete_refuse Complete_kMalformed
          (''the completed session could not be read: '' @ Describe (parsed_error parsed)))"

function complete_loop ::
  "'n Host \<Rightarrow> Request \<Rightarrow> int \<Rightarrow> int \<Rightarrow> int \<Rightarrow> Backoff \<Rightarrow> 'n World \<Rightarrow> Completion \<times> 'n World" where
  "complete_loop host request attempts attempt waited backoff w =
     (let (result, w) = Send host request w;
          outcome = (completed_with result)\<lparr>co_attempts := attempt, co_waited := waited\<rparr>
      in if co_ok outcome \<or> \<not> CompleteShouldRetry (co_error outcome) \<or> attempt \<ge> attempts then (outcome, w)
         else
           let (stop, w) = canceled host w in
           if stop
           then ((complete_refuse Complete_kCanceled ''the completion was not retried: the caller cancelled'')
               \<lparr>co_attempts := attempt, co_waited := waited\<rparr>, w)
           else
             let (i, w) = roll host w;
                 (delay, backoff) = WaitToRetry i backoff;
                 w = wait_ms host delay w
             in complete_loop host request attempts (attempt + 1) (waited + delay) backoff w)"
  by pat_completeness auto
termination
  by (relation "measure (\<lambda>(_, _, attempts, attempt, _). nat (attempts - attempt))") auto

declare complete_loop.simps [simp del]

text \<open>\<open>CompleteOptions\<close> is a \<open>CallPolicy\<close>; \<open>cp_cancel\<close> says whether it carries a token to
  cancel with (\<open>canceled\<close> answers for it).\<close>

record CompleteOptions = CallPolicy +
  cp_timeout :: int
  cp_max_attempts :: int
  cp_cancel :: bool

definition complete_request :: "StoredToken \<Rightarrow> int \<Rightarrow> bytes \<Rightarrow> int \<Rightarrow> Request" where
  "complete_request token session_id text timeout =
     (new_Request Method_kPost (JoinUrl (server_url token)
         (''/api/sync/sessions/'' @ to_string session_id @ ''/complete'')))
       \<lparr>req_headers := [\<lparr>h_name = ''Accept'', h_value = ''application/json''\<rparr>,
           \<lparr>h_name = ''Content-Type'', h_value = ''application/json''\<rparr>,
           \<lparr>h_name = ''Authorization'', h_value = ''Bearer '' @ access_token token\<rparr>],
         req_body := text, req_timeout := timeout\<rparr>"

definition CompleteSession ::
  "'n Host \<Rightarrow> StoredToken \<Rightarrow> int \<Rightarrow> CompletionCounts \<Rightarrow> PlaySession list \<Rightarrow> CompleteOptions \<Rightarrow> 'n World \<Rightarrow>
     Completion \<times> 'n World" where
  "CompleteSession host token session_id tally sessions options w =
     (if server_url token = [] \<or> access_token token = []
      then (complete_refuse Complete_kNotRegistered ''this console is not paired'', w)
      else if session_id \<le> 0
      then (complete_refuse Complete_kNoSession
        ''there is no sync session to complete; the negotiation produced no plan'', w)
      else
        let encoded = EncodeCompleteRequest tally sessions in
        if \<not> error_ok (enc_error encoded)
        then (complete_refuse Complete_kUnusablePayload
          (''the completion body could not be built: '' @ Describe (enc_error encoded)), w)
        else
          let request = complete_request token session_id (enc_body encoded) (cp_timeout options);
              (stop, w) = canceled host w
          in if stop
             then (complete_refuse Complete_kCanceled
               ''the completion was not attempted: the caller cancelled first'', w)
             else complete_loop host request
               (if cp_max_attempts options > 0 then cp_max_attempts options else 1) 1 0
               (BackoffFor (CallPolicy.truncate options)) w)"

section \<open>Its laws\<close>

interpretation completing: retried_call "\<lambda>host (u :: unit). complete_loop host"
  "\<lambda>u attempt waited result. (completed_with result)\<lparr>co_attempts := attempt, co_waited := waited\<rparr>"
  "\<lambda>outcome. \<not> co_ok outcome \<and> CompleteShouldRetry (co_error outcome)"
  "\<lambda>attempt waited _. (complete_refuse Complete_kCanceled ''the completion was not retried: the caller cancelled'')
     \<lparr>co_attempts := attempt, co_waited := waited\<rparr>"
  by unfold_locales (subst complete_loop.simps, simp add: Let_def split: prod.split)

lemma complete_loop_attempts:
  assumes "1 \<le> attempts" "complete_loop host request attempts 1 0 backoff w = (r, w')"
  shows "1 \<le> co_attempts r \<and> co_attempts r \<le> attempts"
  using completing.attempts_bounded [OF _ assms(1, 2)] by auto

text \<open>What the completion says it sent is what went out: it is tried at least once and at most as often as
  allowed, or not at all, and then nothing was sent and the world is as it was but for asking whether
  the caller had cancelled.\<close>

theorem completion_counts_its_attempts:
  "let (r, w') = CompleteSession host token session_id tally sessions options w
   in co_attempts r = 0 \<and> \<not> co_ok r \<and> w' \<in> {w, snd (canceled host w)} \<or>
      1 \<le> co_attempts r \<and> co_attempts r \<le> max 1 (cp_max_attempts options)"
proof -
  obtain r w' where run: "CompleteSession host token session_id tally sessions options w = (r, w')" by fastforce
  let ?n = "if cp_max_attempts options > 0 then cp_max_attempts options else 1"
  have none: "co_attempts (complete_refuse e m) = 0 \<and> \<not> co_ok (complete_refuse e m)" if "e \<noteq> Complete_kNone" for e m
    using that by (simp add: complete_refuse_def co_ok_def)
  obtain stop w1 where c: "canceled host w = (stop, w1)" by fastforce
  show ?thesis
  proof (cases "\<exists>request backoff. complete_loop host request ?n 1 0 backoff w1 = (r, w')")
    case True
    then have "1 \<le> co_attempts r \<and> co_attempts r \<le> ?n" by (auto dest!: complete_loop_attempts [rotated])
    then show ?thesis by (simp add: run max_def split: if_splits)
  next
    case False
    with run c none have "co_attempts r = 0 \<and> \<not> co_ok r \<and> w' \<in> {w, w1}"
      by (auto simp: CompleteSession_def Let_def split: if_splits)
    with c show ?thesis by (simp add: run)
  qed
qed

lemma ReadSession_refuses: "ReadSession v = Inl e \<Longrightarrow> \<not> error_ok e"
  unfolding ReadSession_def Let_def split_beta
  by (auto simp: Reader_ok_def error_ok_def FieldError_def split: if_splits)

text \<open>C21: Play time never costs a tick its completion. Take any two answers that are documents and say the same under
  \<open>session\<close>, whatever either has anywhere else, under \<open>play_session_ingest\<close> first of all (an ingest, one that
  cannot be read, a value of another type, nothing): both are read or both refused, with the same error, and
  the session and the lines about it are the same. An answer that is no document, one nested too deeply
  included, is refused as a whole.\<close>

theorem play_time_never_costs_a_completion:
  assumes "pr_ok (Parse a)" "pr_ok (Parse b)" "Find (pr_value (Parse a)) ''session'' = Find (pr_value (Parse b)) ''session''"
  shows "case (ParseCompleteResponse a, ParseCompleteResponse b) of (read_a, read_b) \<Rightarrow>
    parsed_error read_a = parsed_error read_b \<and>
    cm_session (parsed_value read_a) = cm_session (parsed_value read_b) \<and>
    (if parsed_ok read_a
     then \<exists>before_a before_b. cm_warnings (parsed_value read_a) = before_a @ session_warnings (cm_session (parsed_value read_a)) \<and>
       cm_warnings (parsed_value read_b) = before_b @ session_warnings (cm_session (parsed_value read_a))
     else True)"
  unfolding ParseCompleteResponse_def Let_def
  using assms by (auto simp: parsed_ok_def case_prod_beta ReadSession_refuses split: option.split sum.split)

definition sample_session :: "(bytes \<times> Value) list" where
  "sample_session = [(''session'', VObject [(''id'', VNumber (Some 5)), (''device_id'', VString ''d''),
     (''user_id'', VNumber (Some 1)), (''status'', VString kCompletedStatus), (''initiated_at'', VString ''t''),
     (''completed_at'', VNull), (''operations_planned'', VNumber (Some 2)), (''operations_completed'', VNumber (Some 2)),
     (''operations_failed'', VNumber (Some 0)), (''error_message'', VNull), (''created_at'', VString ''t''),
     (''updated_at'', VString ''t'')])]"

text \<open>A boolean where the ingest should be, before the session and with white space around it: the session is read
  all the same.\<close>

definition odd_answer :: bytes where
  "odd_answer = ''{ '' @ Quote ''play_session_ingest'' @ '' : true , '' @ tl (render (VObject sample_session))"

theorem play_time_never_costs_a_completion_witness:
  "parsed_ok (ParseCompleteResponse odd_answer) \<and> se_id (cm_session (parsed_value (ParseCompleteResponse odd_answer))) = 5"
proof -
  let ?plain = "render (VObject sample_session)"
  have documents: "pr_ok (Parse odd_answer)" "pr_ok (Parse ?plain)" by code_simp+
  have same: "Find (pr_value (Parse odd_answer)) ''session'' = Find (pr_value (Parse ?plain)) ''session''" by code_simp
  have plain: "parsed_ok (ParseCompleteResponse ?plain)" "se_id (cm_session (parsed_value (ParseCompleteResponse ?plain))) = 5"
    by code_simp+
  from play_time_never_costs_a_completion [OF documents same] plain show ?thesis by (simp add: parsed_ok_def)
qed

end
