(* ===== verification/SyncFinish.thy ===== *)
theory SyncFinish
  imports SyncReport StateDbRoundtrip FileSystem SyncComplete
begin

text \<open>
  \<open>core/src/sync_finish.cpp\<close> and \<open>ReadBackFile\<close> of \<open>state_db.cpp\<close>: the rows a finished plan moves
  forward, the baseline trimmed to what can be read back, stored, and then the session reported.
\<close>

section \<open>A file read back\<close>

record FileFacts =
  ff_content_hash :: bytes
  ff_mtime :: Timestamp
  ff_file_size_bytes :: int

definition ReadBackFile ::
  "'n Host \<Rightarrow> bytes \<Rightarrow> Directories \<Rightarrow> 'n World \<Rightarrow> ((bytes + FileFacts) \<times> Directories) \<times> 'n World" where
  "ReadBackFile host sd_path dirs w =
     (if sd_path = [] then ((Inl ''the operation named no local file'', dirs), w)
      else
        let (found, dirs) = Directories_Find host sd_path dirs w in
        case found of
          Inl why \<Rightarrow> ((Inl why, dirs), w)
        | Inr entry \<Rightarrow>
            if \<not> SecondsInRange (en_modified_unix entry)
            then ((Inl (''its mtime of '' @ to_string (en_modified_unix entry) @
              '' is not one this client can claim''), dirs), w)
            else
              let resolved = Resolve host sd_path in
              if resolved = [] then ((Inl (sd_path @ '' is not a path on this card''), dirs), w)
              else
                let (hashed, w) = on_card_do (HashFile resolved) w in
                if \<not> ho_ok hashed then ((Inl (ho_message hashed), dirs), w)
                else ((Inr \<lparr>ff_content_hash = ho_content_hash hashed,
                    ff_mtime = FromUnixSeconds (en_modified_unix entry),
                    ff_file_size_bytes = en_size_bytes entry\<rparr>, dirs), w))"

section \<open>The helpers\<close>

definition AddWarning :: "bytes list \<Rightarrow> bytes \<Rightarrow> bytes list" where
  "AddWarning lines line = (if length lines < kMaxDiagnostics then lines @ [line] else lines)"

definition SaveName :: "BaselineKey \<Rightarrow> bytes" where
  "SaveName key = ''rom '' @ to_string (fst key) @ '', slot '' @
     (case snd key of Some s \<Rightarrow> s | None \<Rightarrow> ''<none>'')"

text \<open>The map \<open>local\<close>: the last of the saves reported under a key.\<close>

definition local_save :: "ClientSaveState list \<Rightarrow> BaselineKey \<Rightarrow> ClientSaveState option" where
  "local_save reported key = FindByKey state_key (rev reported) key"

record BaselineUpdate =
  bu_value :: Baseline
  bu_advanced :: nat
  bu_dropped :: nat
  bu_warnings :: "bytes list"

definition warn :: "bytes \<Rightarrow> BaselineUpdate \<Rightarrow> BaselineUpdate" where
  "warn line u = u\<lparr>bu_warnings := AddWarning (bu_warnings u) line\<rparr>"

definition Advances :: "OperationOutcome \<Rightarrow> bool" where
  "Advances out \<longleftrightarrow> out = Outcome_kUploaded \<or> out = Outcome_kDownloaded \<or> out = Outcome_kKeptBoth \<or> out = Outcome_kNoOp"

definition Rewrites :: "OperationOutcome \<Rightarrow> bool" where
  "Rewrites out \<longleftrightarrow> out = Outcome_kDownloaded \<or> out = Outcome_kKeptBoth"

definition Untracks :: "OperationOutcome \<Rightarrow> bool" where
  "Untracks out \<longleftrightarrow> out = Outcome_kRemoved \<or> out = Outcome_kKept"

definition CountsFor :: "ExecutionReport \<Rightarrow> CompletionCounts" where
  "CountsFor report = \<lparr>cc_completed = int (er_completed report),
     cc_failed = int (er_failed report) + int (er_not_understood report) + int (er_declined report)\<rparr>"

section \<open>Trimming\<close>

definition over_bounds :: "BaselineUpdate \<Rightarrow> nat \<Rightarrow> bool" where
  "over_bounds u bytes \<longleftrightarrow> Baseline_size (bu_value u) > kMaxRecords \<or> bytes > kMaxStateBytes"

definition bounds_text :: bytes where
  "bounds_text = to_string (int kMaxRecords) @ '' rows and '' @ to_string (int kMaxStateBytes) @ '' bytes''"

text \<open>The rows nothing mentioned, in key order, until it fits.\<close>

fun drop_stale :: "BaselineKey list \<Rightarrow> nat \<Rightarrow> BaselineUpdate \<Rightarrow> nat \<times> BaselineUpdate" where
  "drop_stale [] bytes u = (bytes, u)"
| "drop_stale (key # stale) bytes u =
     (if \<not> over_bounds u bytes then (bytes, u)
      else
        let bytes = bytes - SerializedSize_save (the (Baseline_Find key (bu_value u)));
            u = u\<lparr>bu_value := Baseline_Erase key (bu_value u), bu_dropped := bu_dropped u + 1\<rparr>;
            u = warn (SaveName key @ '': dropped from the baseline to keep it inside the '' @ bounds_text @
              '' a baseline can be read back with; this save was neither reported nor planned this tick'') u
        in drop_stale stale bytes u)"

text \<open>Then the states, first key first: what is left of the size, the baseline and how many went.\<close>

function drop_states :: "nat \<Rightarrow> nat \<Rightarrow> BaselineUpdate \<Rightarrow> nat \<times> nat \<times> BaselineUpdate" where
  "drop_states bytes n u =
     (if over_bounds u bytes \<and> bl_states (bu_value u) \<noteq> []
      then let (key, row) = hd (bl_states (bu_value u)) in
        drop_states (bytes - SerializedSize_state row) (n + 1) (u\<lparr>bu_value := EraseState key (bu_value u)\<rparr>)
      else (bytes, n, u))"
  by pat_completeness auto
termination
proof (relation "measure (\<lambda>(_, _, u). length (bl_states (bu_value u)))", goal_cases)
  case (2 bytes n u x key row)
  then have "bl_states (bu_value u) = (key, row) # tl (bl_states (bu_value u))"
    by (metis list.collapse)
  then have "length (om_erase key (bl_states (bu_value u))) < length (bl_states (bu_value u))"
    unfolding om_erase_def by (intro length_filter_less [of "(key, row)"]) (metis list.set_intros(1), simp)
  then show ?case by (simp add: EraseState_def)
qed simp

declare drop_states.simps [simp del]

definition stale_keys :: "SyncPlan \<Rightarrow> ClientSaveState list \<Rightarrow> Baseline \<Rightarrow> BaselineKey list" where
  "stale_keys plan reported b =
     map fst (filter (\<lambda>row. fst row \<notin> set (map op_key (plan_operations plan)) \<and> local_save reported (fst row) = None)
       (bl_rows b))"

definition TrimToFit :: "SyncPlan \<Rightarrow> ClientSaveState list \<Rightarrow> BaselineUpdate \<Rightarrow> BaselineUpdate" where
  "TrimToFit plan reported u =
     (let bytes = SerializedSize (bu_value u) in
      if \<not> over_bounds u bytes then u
      else
        let (bytes, u) = drop_stale (stale_keys plan reported (bu_value u)) bytes u;
            (bytes, states, u) = drop_states bytes 0 u;
            u = (if states > 0
              then warn (to_string (int states) @ '' state row(s) dropped to keep the baseline inside the '' @
                bounds_text @ '' it can be read back with, saves first; those states are compared from scratch'')
                (u\<lparr>bu_dropped := bu_dropped u + states\<rparr>)
              else u)
        in if over_bounds u bytes
           then warn (''this tick reported and planned '' @ to_string (int (Baseline_size (bu_value u))) @
             '' saves ('' @ to_string (int bytes) @ '' bytes), past the '' @ bounds_text @
             '' a baseline can be read back with, and none of the rows is stale enough to drop; '' @
             ''the baseline cannot be written until scan::kMaxSaves, '' @
             ''state::kMaxRecords, state::kMaxStateBytes and kInnerHeapSize are raised together'') u
           else u)"

section \<open>A row moved forward\<close>

text \<open>The record, and the line pushed.\<close>

definition ApplyServerHalf ::
  "SyncOperation \<Rightarrow> OperationResult \<Rightarrow> ClientSaveState list \<Rightarrow> SaveRecord \<Rightarrow> SaveRecord \<times> bytes option" where
  "ApplyServerHalf op r reported rec =
     (if or_outcome r = Outcome_kUploaded
      then (rec\<lparr>sv_server_content_hash :=
          (case local_save reported (result_key r) of
             None \<Rightarrow> None
           | Some save \<Rightarrow> (case cs_content_hash save of None \<Rightarrow> None
               | Some h \<Rightarrow> if IsContentHash h then Some h else None)),
          sv_server_updated_at := None\<rparr>, None)
      else
        let keep_unstated = (or_outcome r = Outcome_kNoOp);
            rec = rec\<lparr>sv_server_content_hash :=
              (if (case op_server_content_hash op of None \<Rightarrow> False | Some h \<Rightarrow> IsContentHash h)
               then op_server_content_hash op
               else if keep_unstated then sv_server_content_hash rec else None)\<rparr>
        in case op_server_updated_at op of
          None \<Rightarrow> (if keep_unstated then rec else rec\<lparr>sv_server_updated_at := None\<rparr>, None)
        | Some said \<Rightarrow>
            (case ParseTimestamp said of
               Some t \<Rightarrow> (rec\<lparr>sv_server_updated_at := Some t\<rparr>, None)
             | None \<Rightarrow> (if keep_unstated then rec else rec\<lparr>sv_server_updated_at := None\<rparr>,
                 Some (SaveName (result_key r) @ '': the server'' @ [CHR 0x27] @ ''s updated_at '' @
                   CHR 0x22 # said @ CHR 0x22 # '' is not a timestamp this build can read; the row '' @
                   (if keep_unstated then ''keeps whatever the last sync stored''
                    else ''is stored without a server timestamp'')))))"

definition no_save_record :: SaveRecord where
  "no_save_record = \<lparr>sv_rom_id = 0, sv_slot = None, sv_content_hash = [], sv_mtime = 0, sv_file_size_bytes = 0,
     sv_server_updated_at = None, sv_server_content_hash = None, sv_deleted_on_server = False\<rparr>"

text \<open>A \<open>delete\<close> obeyed: the row of a file that is gone goes, the row of one kept is marked.\<close>

definition untrack :: "OperationResult \<Rightarrow> ClientSaveState list \<Rightarrow> BaselineUpdate \<Rightarrow> BaselineUpdate" where
  "untrack r reported u =
     (let erased = u\<lparr>bu_value := Baseline_Erase (result_key r) (bu_value u)\<rparr> in
      if or_outcome r = Outcome_kRemoved then erased
      else case local_save reported (result_key r) of
        None \<Rightarrow> erased
      | Some save \<Rightarrow>
          (case cs_content_hash save of
             None \<Rightarrow> erased
           | Some h \<Rightarrow> u\<lparr>bu_value := Baseline_Set \<lparr>sv_rom_id = or_rom_id r, sv_slot = or_slot r,
                 sv_content_hash = h, sv_mtime = cs_updated_at save,
                 sv_file_size_bytes = cs_file_size_bytes save, sv_server_updated_at = None,
                 sv_server_content_hash = None, sv_deleted_on_server = True\<rparr> (bu_value u),
               bu_advanced := bu_advanced u + 1\<rparr>))"

text \<open>The last part of an iteration: a row needs a digest.\<close>

definition set_row :: "OperationResult \<Rightarrow> SaveRecord \<Rightarrow> BaselineUpdate \<Rightarrow> BaselineUpdate" where
  "set_row r rec u =
     (if \<not> IsContentHash (sv_content_hash rec)
      then warn (SaveName (result_key r) @ '': has no usable content_hash, so its row was not moved forward; '' @
        ''the one the last tick stored still stands'') u
      else u\<lparr>bu_value := Baseline_Set rec (bu_value u), bu_advanced := bu_advanced u + 1\<rparr>)"

definition advance_row ::
  "'n Host \<Rightarrow> SyncOperation \<Rightarrow> OperationResult \<Rightarrow> ClientSaveState list \<Rightarrow> BaselineUpdate \<Rightarrow> Directories \<Rightarrow> 'n World \<Rightarrow>
     (BaselineUpdate \<times> Directories) \<times> 'n World" where
  "advance_row host op r reported u dirs w =
     (let rec = (case Baseline_Find (result_key r) (bu_value u) of None \<Rightarrow> no_save_record | Some stored \<Rightarrow> stored);
          rec = rec\<lparr>sv_rom_id := or_rom_id r, sv_slot := or_slot r, sv_deleted_on_server := False\<rparr>;
          (rec, line) = ApplyServerHalf op r reported rec;
          u = (case line of None \<Rightarrow> u | Some l \<Rightarrow> warn l u)
      in
      if Rewrites (or_outcome r)
      then
        let ((facts, dirs), w) = ReadBackFile host (or_sd_path r) dirs w in
        (case facts of
           Inl why \<Rightarrow> ((warn (SaveName (result_key r) @ '': its new bytes could not be read back ('' @ why @
               ''); it gets no row, and is hashed again next tick'')
               (u\<lparr>bu_value := Baseline_Erase (result_key r) (bu_value u)\<rparr>), dirs), w)
         | Inr f \<Rightarrow> ((set_row r (rec\<lparr>sv_content_hash := ff_content_hash f, sv_mtime := ff_mtime f,
               sv_file_size_bytes := ff_file_size_bytes f\<rparr>) u, dirs), w))
      else
        case local_save reported (result_key r) of
          None \<Rightarrow> ((warn (SaveName (result_key r) @ '': was not among the saves this tick reported, so there is '' @
            ''nothing to record about the local file'') u, dirs), w)
        | Some save \<Rightarrow> ((set_row r (rec\<lparr>sv_content_hash := (case cs_content_hash save of None \<Rightarrow> [] | Some h \<Rightarrow> h),
            sv_mtime := cs_updated_at save, sv_file_size_bytes := cs_file_size_bytes save\<rparr>) u, dirs), w))"

text \<open>One iteration: the result is paired with the operation at its own position.\<close>

definition advance_result ::
  "'n Host \<Rightarrow> SyncPlan \<Rightarrow> ClientSaveState list \<Rightarrow> nat \<Rightarrow> OperationResult \<Rightarrow> BaselineUpdate \<Rightarrow> Directories \<Rightarrow> 'n World \<Rightarrow>
     (BaselineUpdate \<times> Directories) \<times> 'n World" where
  "advance_result host plan reported index r u dirs w =
     (if \<not> Advances (or_outcome r) \<and> \<not> Untracks (or_outcome r) then ((u, dirs), w)
      else if index \<ge> length (plan_operations plan)
      then ((warn (SaveName (result_key r) @ '': the report holds more operations than the plan; its baseline '' @
        ''was left as it was'') u, dirs), w)
      else
        let op = plan_operations plan ! index in
        if op_key op \<noteq> result_key r
        then ((warn (SaveName (result_key r) @ '': does not pair with '' @ SaveName (op_key op) @
          '' at the same position in the plan; its baseline was left as it was'') u, dirs), w)
        else if Untracks (or_outcome r) then ((untrack r reported u, dirs), w)
        else advance_row host op r reported u dirs w)"

fun advance_results ::
  "'n Host \<Rightarrow> SyncPlan \<Rightarrow> ClientSaveState list \<Rightarrow> nat \<Rightarrow> OperationResult list \<Rightarrow> BaselineUpdate \<Rightarrow> Directories \<Rightarrow> 'n World \<Rightarrow>
     BaselineUpdate \<times> 'n World" where
  "advance_results host plan reported index [] u dirs w = (u, w)"
| "advance_results host plan reported index (r # rs) u dirs w =
     (let ((u, dirs), w) = advance_result host plan reported index r u dirs w
      in advance_results host plan reported (index + 1) rs u dirs w)"

definition AdvanceBaseline ::
  "'n Host \<Rightarrow> Baseline \<Rightarrow> SyncPlan \<Rightarrow> ExecutionReport \<Rightarrow> ClientSaveState list \<Rightarrow> 'n World \<Rightarrow>
     BaselineUpdate \<times> 'n World" where
  "AdvanceBaseline host previous plan report reported w =
     (let (u, w) = advance_results host plan reported 0 (er_operations report)
            \<lparr>bu_value = previous, bu_advanced = 0, bu_dropped = 0, bu_warnings = []\<rparr> no_directories w
      in (TrimToFit plan reported u, w))"

section \<open>The end of a tick\<close>

record FinishOptions =
  fo_state_sd_path :: bytes
  fo_complete :: CompleteOptions
  fo_play_sessions :: "PlaySession list"

record TickCompletion =
  tc_stored :: BaselineStored
  tc_reported :: Completion
  tc_counts :: CompletionCounts
  tc_play_sessions_sent :: nat
  tc_rows_advanced :: nat
  tc_rows_dropped :: nat
  tc_warnings :: "bytes list"

definition tick_ok :: "TickCompletion \<Rightarrow> bool" where
  "tick_ok t \<longleftrightarrow> bs_ok (tc_stored t) \<and> co_ok (tc_reported t)"

definition kStateSdPath :: bytes where "kStateSdPath = ''/config/rommsync/state.db''"

text \<open>The baseline is stored before anything is said to the server.\<close>

definition store_update ::
  "'n Host \<Rightarrow> FinishOptions \<Rightarrow> Baseline \<Rightarrow> 'n World \<Rightarrow> BaselineStored \<times> 'n World" where
  "store_update host options value w =
     (let path = Resolve host (fo_state_sd_path options) in
      if path = []
      then (\<lparr>bs_error = Baseline_kOpenFailed, bs_message = fo_state_sd_path options @ '' is not a path on this card'',
        bs_rows_written = 0, bs_skipped = []\<rparr>, w)
      else on_card_do (SaveBaseline path value) w)"

definition sessions_to_send :: "CompletionCounts \<Rightarrow> FinishOptions \<Rightarrow> PlaySession list \<times> bytes list" where
  "sessions_to_send tally options =
     (if fo_play_sessions options = [] then ([], [])
      else
        let encoded = EncodeCompleteRequest tally (fo_play_sessions options) in
        if error_ok (enc_error encoded) then (fo_play_sessions options, [])
        else ([], [''the play sessions this tick recorded could not be sent and were left buffered: '' @
          Describe (enc_error encoded)]))"

text \<open>What the tick says, and \<open>*advanced\<close>.\<close>

definition FinishTick ::
  "'n Host \<Rightarrow> StoredToken \<Rightarrow> SyncPlan \<Rightarrow> ExecutionReport \<Rightarrow> ClientSaveState list \<Rightarrow> Baseline \<Rightarrow> FinishOptions \<Rightarrow>
     'n World \<Rightarrow> (TickCompletion \<times> Baseline) \<times> 'n World" where
  "FinishTick host token plan report reported previous options w =
     (let (u, w) = AdvanceBaseline host previous plan report reported w;
          (stored, w) = store_update host options (bu_value u) w;
          lines = foldl (\<lambda>ls s. AddWarning ls (''the baseline left a row out: '' @ s)) (bu_warnings u)
            (bs_skipped stored);
          lines = (if bs_ok stored then lines
            else AddWarning lines (''the sync baseline was not stored: '' @ bs_message stored));
          tally = CountsFor report;
          lines = (if er_canceled report \<and> \<not> cp_cancel (fo_complete options)
            then AddWarning lines (''this tick was cancelled but FinishOptions::complete.cancel is null, so the '' @
              ''completion cannot be stopped; pass the same token ExecuteOptions::cancel had'')
            else lines);
          (sessions, refused) = sessions_to_send tally options;
          lines = foldl AddWarning lines refused;
          (reply, w) = CompleteSession host token (plan_session_id plan) tally sessions (fo_complete options) w
      in ((\<lparr>tc_stored = stored, tc_reported = reply, tc_counts = tally,
            tc_play_sessions_sent = (if co_attempts reply > 0 then length sessions else 0),
            tc_rows_advanced = bu_advanced u, tc_rows_dropped = bu_dropped u, tc_warnings = lines\<rparr>,
          bu_value u), w))"

end
