(* ===== verification/FinishFacts.thy ===== *)
theory FinishFacts
  imports SyncFinish SyncSafety
begin

text \<open>
  What \<open>SyncFinish\<close> keeps: the rows of saves that did not sync, the order and the keys of the tables, and
  the bounds a baseline is stored under.
\<close>

section \<open>Keys\<close>

lemma om_find_erased: "om_ok m \<Longrightarrow> om_find k m = Some v \<Longrightarrow>
    sum_list (map (\<lambda>row. f (snd row)) m) = f v + sum_list (map (\<lambda>row. (f (snd row) :: nat)) (om_erase k m))"
proof (induction m)
  case (Cons row m)
  obtain l x where [simp]: "row = (l, x)" by fastforce
  show ?case
  proof (cases "k = l")
    case True
    then have "om_erase k m = m"
      using Cons.prems(1) by (auto simp: om_erase_def intro!: filter_True)
    with True Cons.prems(2) show ?thesis by (simp add: om_find_def om_erase_def)
  next
    case False
    with Cons show ?thesis by (simp add: om_find_def om_erase_def)
  qed
qed (simp add: om_find_def)

lemma om_erase_less: "om_find k m = Some v \<Longrightarrow> length (om_erase k m) < length m"
  unfolding om_erase_def om_find_def by (rule length_filter_less [of "(k, v)"]) (auto dest: map_of_SomeD)

lemma stale_keys_distinct: "om_ok (bl_rows b) \<Longrightarrow> distinct (stale_keys plan reported b)"
  unfolding stale_keys_def by (intro distinct_map_filter) (simp add: om_ok_def strict_sorted_iff)

section \<open>Trimming\<close>

definition tables_ok :: "Baseline \<Rightarrow> bool" where
  "tables_ok b \<longleftrightarrow> om_ok (bl_rows b) \<and> om_ok (bl_states b)"

lemma tables_ok_changes [simp]:
  "tables_ok b \<Longrightarrow> tables_ok (Baseline_Set r b)" "tables_ok b \<Longrightarrow> tables_ok (Baseline_Erase k b)"
  "tables_ok b \<Longrightarrow> tables_ok (SetState t b)" "tables_ok b \<Longrightarrow> tables_ok (EraseState l b)"
  using save_rows.put_ok save_rows.drop_ok state_rows.put_ok state_rows.drop_ok by (simp_all add: tables_ok_def)

lemma SerializedSize_Erase:
  "tables_ok b \<Longrightarrow> Baseline_Find k b = Some r \<Longrightarrow>
     SerializedSize (Baseline_Erase k b) = SerializedSize b - SerializedSize_save r"
  using om_find_erased [of "bl_rows b" k r SerializedSize_save]
  by (simp add: SerializedSize_def Baseline_Erase_def Baseline_Find_def tables_ok_def)

lemma SerializedSize_EraseState:
  "tables_ok b \<Longrightarrow> FindState k b = Some r \<Longrightarrow>
     SerializedSize (EraseState k b) = SerializedSize b - SerializedSize_state r"
  using om_find_erased [of "bl_states b" k r SerializedSize_state]
  by (simp add: SerializedSize_def EraseState_def FindState_def tables_ok_def)

lemma warn_keeps [simp]: "bu_value (warn l u) = bu_value u" "bu_advanced (warn l u) = bu_advanced u"
    "bu_dropped (warn l u) = bu_dropped u" "over_bounds (warn l u) n = over_bounds u n"
  by (simp_all add: warn_def over_bounds_def)

text \<open>What a trim may do to a baseline: erase rows of the keys given, states at will.\<close>

definition trims :: "BaselineKey set \<Rightarrow> Baseline \<Rightarrow> Baseline \<Rightarrow> bool" where
  "trims ks b b' \<longleftrightarrow> tables_ok b' \<and>
     (\<forall>k. Baseline_Find k b' = Baseline_Find k b \<or> k \<in> ks \<and> Baseline_Find k b' = None) \<and>
     (\<forall>k. FindState k b' = FindState k b \<or> FindState k b' = None)"

lemma trims_refl: "tables_ok b \<Longrightarrow> trims ks b b"
  by (simp add: trims_def)

lemma trims_trans: "trims ks b b' \<Longrightarrow> trims ks b' b'' \<Longrightarrow> trims ks b b''"
  unfolding trims_def by metis

lemma trims_gone: "trims ks b b' \<Longrightarrow> Baseline_Find k b = None \<Longrightarrow> Baseline_Find k b' = None"
  unfolding trims_def by metis

lemma trims_tables: "trims ks b b' \<Longrightarrow> tables_ok b'"
  by (simp add: trims_def)

lemma trims_Erase: "tables_ok b \<Longrightarrow> k \<in> ks \<Longrightarrow> trims ks b (Baseline_Erase k b)"
  using save_rows.drop_ok [of b k] by (auto simp: trims_def save_rows.lookup_drop tables_ok_def FindState_def)

lemma trims_EraseState: "tables_ok b \<Longrightarrow> trims ks b (EraseState k b)"
  using state_rows.drop_ok [of b k] by (auto simp: trims_def state_rows.lookup_drop tables_ok_def Baseline_Find_def)

lemma drop_stale_facts:
  "drop_stale keys n u = (n', u') \<Longrightarrow> tables_ok (bu_value u) \<Longrightarrow> n = SerializedSize (bu_value u) \<Longrightarrow>
   distinct keys \<Longrightarrow> \<forall>k \<in> set keys. Baseline_Find k (bu_value u) \<noteq> None \<Longrightarrow> set keys \<subseteq> ks \<Longrightarrow>
   trims ks (bu_value u) (bu_value u') \<and> n' = SerializedSize (bu_value u') \<and>
   (over_bounds u' n' \<longrightarrow> (\<forall>k \<in> set keys. Baseline_Find k (bu_value u') = None))"
proof (induction keys n u arbitrary: n' u' rule: drop_stale.induct)
  case (1 n u)
  then show ?case by (auto simp: trims_refl)
next
  case (2 key keys n u)
  show ?case
  proof (cases "over_bounds u n")
    case False
    with 2 show ?thesis by (auto simp: trims_refl)
  next
    case True
    obtain r where r: "Baseline_Find key (bu_value u) = Some r" using 2(6) by auto
    let ?b = "Baseline_Erase key (bu_value u)"
    define u1 where "u1 = warn (SaveName key @ '': dropped from the baseline to keep it inside the '' @ bounds_text @
      '' a baseline can be read back with; this save was neither reported nor planned this tick'')
      (u\<lparr>bu_value := ?b, bu_dropped := bu_dropped u + 1\<rparr>)"
    have b: "bu_value u1 = ?b" by (simp add: u1_def)
    have run: "drop_stale keys (n - SerializedSize_save r) u1 = (n', u')"
      using 2(2) True r by (simp add: u1_def Let_def)
    have size: "n - SerializedSize_save r = SerializedSize (bu_value u1)"
      using SerializedSize_Erase [OF 2(3) r] 2(4) by (simp add: b)
    have find: "\<forall>k \<in> set keys. Baseline_Find k (bu_value u1) \<noteq> None"
      using 2(3, 5, 6) by (auto simp: b save_rows.lookup_drop tables_ok_def)
    have gone: "Baseline_Find key ?b = None"
      using 2(3) by (simp add: save_rows.lookup_drop tables_ok_def)
    have "trims ks (bu_value u1) (bu_value u') \<and> n' = SerializedSize (bu_value u') \<and>
        (over_bounds u' n' \<longrightarrow> (\<forall>k \<in> set keys. Baseline_Find k (bu_value u') = None))"
      using 2(1) [OF _ refl refl refl, of n' u'] True run r size find 2(3, 5, 7) b
      by (simp add: u1_def)
    moreover have "trims ks (bu_value u) ?b" using trims_Erase 2(3, 7) by auto
    ultimately show ?thesis
      using trims_gone [OF _ gone, of ks "bu_value u'"] trims_trans [of ks "bu_value u" ?b "bu_value u'"] by (simp add: b)
  qed
qed

lemma drop_states_facts:
  "drop_states n i u = (n', j, u') \<Longrightarrow> tables_ok (bu_value u) \<Longrightarrow> n = SerializedSize (bu_value u) \<Longrightarrow>
   trims ks (bu_value u) (bu_value u') \<and> n' = SerializedSize (bu_value u') \<and>
   bl_rows (bu_value u') = bl_rows (bu_value u) \<and> SerializedSize (bu_value u') \<le> SerializedSize (bu_value u) \<and>
   Baseline_size (bu_value u') \<le> Baseline_size (bu_value u) \<and>
   (over_bounds u' n' \<longrightarrow> bl_states (bu_value u') = [])"
proof (induction n i u rule: drop_states.induct)
  case (1 n i u)
  show ?case
  proof (cases "over_bounds u n \<and> bl_states (bu_value u) \<noteq> []")
    case False
    with 1(2-) show ?thesis by (subst (asm) drop_states.simps) (auto simp: trims_refl)
  next
    case True
    obtain key row rest where s: "bl_states (bu_value u) = (key, row) # rest"
      using True by (metis list.exhaust prod.exhaust)
    let ?u = "u\<lparr>bu_value := EraseState key (bu_value u)\<rparr>"
    have run: "drop_states (n - SerializedSize_state row) (i + 1) ?u = (n', j, u')"
      using 1(2) True s by (subst (asm) drop_states.simps) simp
    have "FindState key (bu_value u) = Some row" by (simp add: FindState_def om_find_def s)
    then have size: "n - SerializedSize_state row = SerializedSize (bu_value ?u)"
      using SerializedSize_EraseState [OF 1(3)] 1(4) by simp
    have "trims ks (bu_value ?u) (bu_value u') \<and> n' = SerializedSize (bu_value u') \<and>
        bl_rows (bu_value u') = bl_rows (bu_value ?u) \<and> SerializedSize (bu_value u') \<le> SerializedSize (bu_value ?u) \<and>
        Baseline_size (bu_value u') \<le> Baseline_size (bu_value ?u) \<and> (over_bounds u' n' \<longrightarrow> bl_states (bu_value u') = [])"
      by (rule 1(1) [OF True _ _ run _ size]) (use s 1(3) in simp_all)
    moreover have "trims ks (bu_value u) (bu_value ?u)" using trims_EraseState 1(3) by simp
    moreover have "Baseline_size (EraseState key (bu_value u)) \<le> Baseline_size (bu_value u)"
      by (simp add: Baseline_size_def EraseState_def om_erase_def)
    ultimately show ?thesis using trims_trans size 1(4) by auto
  qed
qed

definition stale :: "SyncPlan \<Rightarrow> ClientSaveState list \<Rightarrow> BaselineKey set" where
  "stale plan reported = {k. k \<notin> set (map op_key (plan_operations plan)) \<and> local_save reported k = None}"

lemma stale_keys_found: "k \<in> set (stale_keys plan reported b) \<longleftrightarrow> Baseline_Find k b \<noteq> None \<and> k \<in> stale plan reported"
  using om_find_None [of k "bl_rows b"] by (auto simp: stale_keys_def stale_def Baseline_Find_def)

lemma TrimToFit_facts:
  assumes ok: "tables_ok (bu_value u)" and t: "t = TrimToFit plan reported u"
  shows "trims (stale plan reported) (bu_value u) (bu_value t) \<and>
    (over_bounds t (SerializedSize (bu_value t)) \<longrightarrow>
      bl_states (bu_value t) = [] \<and> (\<forall>k \<in> stale plan reported. Baseline_Find k (bu_value t) = None))"
proof (cases "over_bounds u (SerializedSize (bu_value u))")
  case False
  then have "t = u" by (simp add: t TrimToFit_def)
  with False ok show ?thesis by (simp add: trims_refl)
next
  case True
  let ?ks = "stale_keys plan reported (bu_value u)"
  obtain n1 u1 where 1: "drop_stale ?ks (SerializedSize (bu_value u)) u = (n1, u1)" by fastforce
  obtain n2 j u2 where 2: "drop_states n1 0 u1 = (n2, j, u2)" by (metis surj_pair)
  have f1: "trims (stale plan reported) (bu_value u) (bu_value u1) \<and> n1 = SerializedSize (bu_value u1) \<and>
      (over_bounds u1 n1 \<longrightarrow> (\<forall>k \<in> set ?ks. Baseline_Find k (bu_value u1) = None))"
    by (rule drop_stale_facts [OF 1 ok refl]) (use ok in \<open>auto simp: stale_keys_distinct tables_ok_def stale_keys_found\<close>)
  have f2: "trims (stale plan reported) (bu_value u1) (bu_value u2) \<and> n2 = SerializedSize (bu_value u2) \<and>
      bl_rows (bu_value u2) = bl_rows (bu_value u1) \<and> SerializedSize (bu_value u2) \<le> SerializedSize (bu_value u1) \<and>
      Baseline_size (bu_value u2) \<le> Baseline_size (bu_value u1) \<and> (over_bounds u2 n2 \<longrightarrow> bl_states (bu_value u2) = [])"
    by (rule drop_states_facts [OF 2]) (use f1 trims_tables in blast)+
  have v: "bu_value t = bu_value u2"
    using True by (simp add: t TrimToFit_def 1 2 Let_def)
  have "\<forall>k \<in> stale plan reported. Baseline_Find k (bu_value u2) = None" if o2: "over_bounds u2 n2"
  proof -
    have "over_bounds u1 n1" using o2 f1 f2 by (auto simp: over_bounds_def)
    with f1 have "\<forall>k \<in> set ?ks. Baseline_Find k (bu_value u1) = None" by simp
    then have "\<forall>k \<in> stale plan reported. Baseline_Find k (bu_value u1) = None"
      using f1 trims_gone [of _ "bu_value u" "bu_value u1"] by (metis stale_keys_found)
    then show ?thesis using f2 by (simp add: Baseline_Find_def)
  qed
  moreover have "over_bounds t n = over_bounds u2 n" for n
    by (simp add: v over_bounds_def)
  ultimately show ?thesis
    using f1 f2 trims_trans by (auto simp: v)
qed

section \<open>A digest the program takes is one it would store\<close>

lemma kDigits_hex: "k < 16 \<Longrightarrow> LowercaseHex [kDigits ! k]"
proof -
  assume "k < 16"
  then have "kDigits ! k \<in> set kDigits" by (intro nth_mem) (simp add: kDigits_def)
  moreover have "LowercaseHex kDigits" by code_simp
  ultimately show ?thesis by (simp add: LowercaseHex_def list_all_iff)
qed

lemma ToHex_hex: "length (ToHex bs) = 2 * length bs \<and> LowercaseHex (ToHex bs)"
proof (induction bs)
  case (Cons c bs)
  have "byte c AND 0x0f < 16" using take_bit_nat_less_exp [of 4 "byte c"] by (simp add: take_bit_eq_mask mask_eq_exp_minus_1)
  moreover have "drop_bit 4 (byte c) < 16" using byte_less [of c] by (simp add: drop_bit_eq_div div_less_iff_less_mult)
  ultimately show ?case
    using Cons kDigits_hex by (auto simp: ToHex_def LowercaseHex_def)
qed (simp add: ToHex_def LowercaseHex_def)

lemma Md5Hex_content_hash: "IsContentHash (Md5Hex d)"
proof -
  have "length (bytes_le w) = 4" for w by (simp add: bytes_le_def)
  then have "length (Md5 d) = 16" by (simp add: Md5_def Md5_Finish_def split: prod.split)
  then show ?thesis using ToHex_hex [of "Md5 d"] by (simp add: IsContentHash_def kContentHashDigits_def Md5Hex_def)
qed

section \<open>A row moved forward\<close>

lemma set_row_value: "bu_value (set_row r rec u) =
    (if IsContentHash (sv_content_hash rec) then Baseline_Set rec (bu_value u) else bu_value u)"
  by (simp add: set_row_def)

lemma ApplyServerHalf_key: "ApplyServerHalf op r reported rec = (rec', line) \<Longrightarrow>
    sv_key rec' = sv_key rec \<and> sv_content_hash rec' = sv_content_hash rec \<and> sv_mtime rec' = sv_mtime rec \<and>
    sv_file_size_bytes rec' = sv_file_size_bytes rec \<and> sv_deleted_on_server rec' = sv_deleted_on_server rec"
  by (auto simp: ApplyServerHalf_def Let_def split: if_splits option.splits)

definition row_set :: "BaselineKey \<Rightarrow> Baseline \<Rightarrow> Baseline \<Rightarrow> bool" where
  "row_set k b b' \<longleftrightarrow> (\<exists>rec. sv_key rec = k \<and> b' = Baseline_Set rec b)"

lemma row_set_simp [simp]: "sv_rom_id rec = fst k \<Longrightarrow> sv_slot rec = snd k \<Longrightarrow> row_set k b (Baseline_Set rec b)"
  unfolding row_set_def by (intro exI [of _ rec]) (simp add: prod_eq_iff)

text \<open>What became of the baseline in one iteration: nothing, the row erased, or a row set under its key.\<close>

lemma advance_row_value:
  assumes "advance_row host op r reported u dirs w = ((u', dirs'), w')"
  shows "bu_value u' = bu_value u \<or> bu_value u' = Baseline_Erase (result_key r) (bu_value u) \<or>
    row_set (result_key r) (bu_value u) (bu_value u')"
proof -
  let ?rec = "(case Baseline_Find (result_key r) (bu_value u) of None \<Rightarrow> no_save_record | Some stored \<Rightarrow> stored)
    \<lparr>sv_rom_id := or_rom_id r, sv_slot := or_slot r, sv_deleted_on_server := False\<rparr>"
  obtain rec line where half: "ApplyServerHalf op r reported ?rec = (rec, line)" by fastforce
  have key: "sv_key rec = result_key r" using ApplyServerHalf_key [OF half] by simp
  obtain facts d v where rb: "ReadBackFile host (or_sd_path r) dirs w = ((facts, d), v)" by (metis surj_pair)
  show ?thesis
    using assms key unfolding advance_row_def Let_def half prod.case rb
    by (auto simp: set_row_value split: if_splits option.splits sum.splits)
qed

lemma untrack_value:
  "bu_value (untrack r reported u) = Baseline_Erase (result_key r) (bu_value u) \<or>
   row_set (result_key r) (bu_value u) (bu_value (untrack r reported u))"
  by (auto simp: untrack_def Let_def split: option.split)

lemma advance_result_value:
  assumes "advance_result host plan reported index r u dirs w = ((u', dirs'), w')"
  shows "bu_value u' = bu_value u \<or> (Advances (or_outcome r) \<or> Untracks (or_outcome r)) \<and>
    (bu_value u' = Baseline_Erase (result_key r) (bu_value u) \<or>
     row_set (result_key r) (bu_value u) (bu_value u'))"
  using assms untrack_value [of r reported u]
    advance_row_value [of host "plan_operations plan ! index" r reported u dirs w u' dirs' w']
  by (auto simp: advance_result_def Let_def split: if_splits)

lemma advance_results_find:
  "advance_results host plan reported index rs u dirs w = (u', w') \<Longrightarrow> tables_ok (bu_value u) \<Longrightarrow>
   tables_ok (bu_value u') \<and>
   ((\<forall>r \<in> set rs. result_key r = k \<longrightarrow> \<not> Advances (or_outcome r) \<and> \<not> Untracks (or_outcome r)) \<longrightarrow>
     Baseline_Find k (bu_value u') = Baseline_Find k (bu_value u))"
proof (induction rs arbitrary: index u dirs w)
  case (Cons r rs)
  obtain u1 d1 w1 where 1: "advance_result host plan reported index r u dirs w = ((u1, d1), w1)" by (metis surj_pair)
  have rest: "advance_results host plan reported (index + 1) rs u1 d1 w1 = (u', w')"
    using Cons.prems(1) by (simp add: 1)
  note v = advance_result_value [OF 1]
  have t1: "tables_ok (bu_value u1)" using v Cons.prems(2) by (auto simp: row_set_def)
  have "Baseline_Find k (bu_value u1) = Baseline_Find k (bu_value u)"
    if "result_key r = k \<longrightarrow> \<not> Advances (or_outcome r) \<and> \<not> Untracks (or_outcome r)"
    using v that Cons.prems(2) by (auto simp: row_set_def tables_ok_def save_rows.lookup_drop save_rows.lookup_put)
  with Cons.IH [OF rest t1] show ?case by auto
qed simp

text \<open>C17: A save the tick did not sync keeps what is known of it: with no result of its own that synced or
  removed it, its row is the one of before -- unless the baseline had outgrown its bounds, and then only
  a save the tick neither reported nor planned can lose its row.\<close>

theorem unsynced_saves_keep_their_rows:
  assumes "tables_ok previous" "AdvanceBaseline host previous plan report reported w = (u, w')"
    and none: "\<forall>r \<in> set (er_operations report). result_key r = k \<longrightarrow> \<not> Advances (or_outcome r) \<and> \<not> Untracks (or_outcome r)"
  shows "Baseline_Find k (bu_value u) = Baseline_Find k previous \<or>
    k \<notin> set (map op_key (plan_operations plan)) \<and> local_save reported k = None \<and> Baseline_Find k (bu_value u) = None"
proof -
  let ?start = "\<lparr>bu_value = previous, bu_advanced = 0, bu_dropped = 0, bu_warnings = []\<rparr>"
  obtain u1 w1 where 1: "advance_results host plan reported 0 (er_operations report) ?start no_directories w = (u1, w1)"
    by fastforce
  have u: "u = TrimToFit plan reported u1" using assms(2) by (simp add: AdvanceBaseline_def 1)
  have f: "tables_ok (bu_value u1)" "Baseline_Find k (bu_value u1) = Baseline_Find k previous"
    using advance_results_find [OF 1, of k] assms(1) none by auto
  from TrimToFit_facts [OF f(1) u] have "trims (stale plan reported) (bu_value u1) (bu_value u)" by blast
  then have "Baseline_Find k (bu_value u) = Baseline_Find k (bu_value u1) \<or>
      k \<in> stale plan reported \<and> Baseline_Find k (bu_value u) = None"
    unfolding trims_def by blast
  with f(2) show ?thesis by (simp add: stale_def)
qed

text \<open>C18: A row never claims bytes nothing hashed: after an operation that replaced the bytes on the card,
  the save's row is gone, or it holds the digest of the bytes that are in the file at that moment and
  the time and size its directory gives them.\<close>

theorem a_fetched_row_is_what_is_on_the_card:
  assumes "tables_ok (bu_value u)" "Rewrites (or_outcome r)"
    "advance_row host op r reported u dirs w = ((u', dirs'), w')"
  shows "case Baseline_Find (result_key r) (bu_value u') of None \<Rightarrow> True
    | Some rec \<Rightarrow> (\<exists>f e. files (card w) (Resolve host (or_sd_path r)) = Some f \<and>
        fst (Directories_Find host (or_sd_path r) dirs w) = Inr e \<and> sv_content_hash rec = Md5Hex (data f) \<and>
        sv_mtime rec = FromUnixSeconds (en_modified_unix e) \<and> sv_file_size_bytes rec = en_size_bytes e \<and>
        \<not> sv_deleted_on_server rec)"
proof -
  let ?rec = "(case Baseline_Find (result_key r) (bu_value u) of None \<Rightarrow> no_save_record | Some stored \<Rightarrow> stored)
    \<lparr>sv_rom_id := or_rom_id r, sv_slot := or_slot r, sv_deleted_on_server := False\<rparr>"
  obtain rec line where half: "ApplyServerHalf op r reported ?rec = (rec, line)" by fastforce
  have key: "sv_key rec = result_key r" "\<not> sv_deleted_on_server rec" using ApplyServerHalf_key [OF half] by simp_all
  obtain facts d v where rb: "ReadBackFile host (or_sd_path r) dirs w = ((facts, d), v)" by (metis surj_pair)
  note run = assms(3) [unfolded advance_row_def Let_def half prod.case rb if_P [OF assms(2)]]
  have ok: "om_ok (bl_rows (bu_value u))" using assms(1) by (simp add: tables_ok_def)
  show ?thesis
  proof (cases facts)
    case (Inl why)
    then have "bu_value u' = Baseline_Erase (result_key r) (bu_value u)" using run by (auto split: option.splits)
    then show ?thesis by (simp add: save_rows.lookup_drop [OF ok])
  next
    case (Inr ff)
    obtain e hashed c where e: "fst (Directories_Find host (or_sd_path r) dirs w) = Inr e"
      "on_card_do (HashFile (Resolve host (or_sd_path r))) w = (hashed, c)" "ho_ok hashed"
      "ff = \<lparr>ff_content_hash = ho_content_hash hashed, ff_mtime = FromUnixSeconds (en_modified_unix e),
        ff_file_size_bytes = en_size_bytes e\<rparr>"
      using rb Inr by (auto simp: ReadBackFile_def Let_def split: if_splits prod.splits sum.splits)
    obtain f where f: "files (card w) (Resolve host (or_sd_path r)) = Some f" "ho_content_hash hashed = Md5Hex (data f)"
      using HashFile_ok on_card_do_net [OF e(2)] e(3) by blast
    let ?new = "rec\<lparr>sv_content_hash := ff_content_hash ff, sv_mtime := ff_mtime ff, sv_file_size_bytes := ff_file_size_bytes ff\<rparr>"
    have "bu_value u' = Baseline_Set ?new (bu_value u)"
      using run Inr e(4) f(2) by (auto simp: set_row_value Md5Hex_content_hash split: option.splits)
    then have "Baseline_Find (result_key r) (bu_value u') = Some ?new"
      using key save_rows.lookup_put [OF ok, of "result_key r" ?new] by simp
    then show ?thesis using e(1, 4) f key(2) by simp
  qed
qed

section \<open>Rows under their own keys, in their type\<close>

lemma own_keys_tables: "own_keys b \<Longrightarrow> tables_ok b"
  by (simp add: own_keys_def tables_ok_def)

lemma om_erase_rows: "row \<in> set (om_erase k m) \<Longrightarrow> row \<in> set m"
  by (simp add: om_erase_def)

lemma keyed_Set: "keyed b \<Longrightarrow> save_typed r \<Longrightarrow> keyed (Baseline_Set r b)"
  by (auto simp: keyed_def own_keys_def Baseline_Set_def om_set_ok list_all_iff dest!: om_set_rows)

lemma keyed_Erase: "keyed b \<Longrightarrow> keyed (Baseline_Erase k b)"
  by (auto simp: keyed_def own_keys_def Baseline_Erase_def om_erase_ok list_all_iff dest!: om_erase_rows)

lemma own_keys_Set: "own_keys b \<Longrightarrow> own_keys (Baseline_Set r b)"
  by (auto simp: own_keys_def Baseline_Set_def om_set_ok list_all_iff dest!: om_set_rows)

lemma own_keys_Erase: "own_keys b \<Longrightarrow> own_keys (Baseline_Erase k b)"
  by (auto simp: own_keys_def Baseline_Erase_def om_erase_ok list_all_iff dest!: om_erase_rows)

lemma trims_rows:
  assumes "trims ks b b'" "tables_ok b"
  shows "set (bl_rows b') \<subseteq> set (bl_rows b)" "set (bl_states b') \<subseteq> set (bl_states b)"
proof -
  have ok: "om_ok (bl_rows b)" "om_ok (bl_rows b')" "om_ok (bl_states b)" "om_ok (bl_states b')"
    using assms by (simp_all add: trims_def tables_ok_def)
  show "set (bl_rows b') \<subseteq> set (bl_rows b)"
  proof
    fix row assume row: "row \<in> set (bl_rows b')"
    obtain k r where [simp]: "row = (k, r)" by fastforce
    have "Baseline_Find k b' = Some r" using row om_find_mem [OF ok(2)] by (simp add: Baseline_Find_def)
    then have "Baseline_Find k b = Some r" using assms(1) unfolding trims_def by (metis option.distinct(1))
    then show "row \<in> set (bl_rows b)" using om_find_mem [OF ok(1)] by (simp add: Baseline_Find_def)
  qed
  show "set (bl_states b') \<subseteq> set (bl_states b)"
  proof
    fix row assume row: "row \<in> set (bl_states b')"
    obtain k r where [simp]: "row = (k, r)" by fastforce
    have "FindState k b' = Some r" using row om_find_mem [OF ok(4)] by (simp add: FindState_def)
    then have "FindState k b = Some r" using assms(1) unfolding trims_def by (metis option.distinct(1))
    then show "row \<in> set (bl_states b)" using om_find_mem [OF ok(3)] by (simp add: FindState_def)
  qed
qed

lemma keyed_trims: "keyed b \<Longrightarrow> trims ks b b' \<Longrightarrow> keyed b'"
  using trims_rows [of ks b b'] own_keys_tables [of b]
  by (auto simp: keyed_def own_keys_def trims_def tables_ok_def list_all_iff)

lemma own_keys_trims: "own_keys b \<Longrightarrow> trims ks b b' \<Longrightarrow> own_keys b'"
  using trims_rows [of ks b b'] own_keys_tables [of b]
  by (auto simp: own_keys_def trims_def tables_ok_def list_all_iff)

lemma advance_results_own_keys:
  "advance_results host plan reported index rs u dirs w = (u', w') \<Longrightarrow> own_keys (bu_value u) \<Longrightarrow> own_keys (bu_value u')"
proof (induction rs arbitrary: index u dirs w)
  case (Cons r rs)
  obtain u1 d1 w1 where 1: "advance_result host plan reported index r u dirs w = ((u1, d1), w1)" by (metis surj_pair)
  have "advance_results host plan reported (index + 1) rs u1 d1 w1 = (u', w')"
    using Cons.prems(1) by (simp add: 1)
  moreover have "own_keys (bu_value u1)"
    using advance_result_value [OF 1] Cons.prems(2) by (auto simp: row_set_def own_keys_Set own_keys_Erase)
  ultimately show ?case by (rule Cons.IH)
qed simp

section \<open>A trimmed baseline is written\<close>

lemma kept_smaller: "Baseline_size (kept b) \<le> Baseline_size b" "SerializedSize (kept b) \<le> SerializedSize b"
proof -
  have part: "sum_list (map f (filter P xs)) \<le> sum_list (map f xs)" for f :: "'x \<Rightarrow> nat" and P xs
    by (induction xs) auto
  show "Baseline_size (kept b) \<le> Baseline_size b"
    by (auto simp: Baseline_size_def kept_def intro!: add_mono length_filter_le)
  show "SerializedSize (kept b) \<le> SerializedSize b"
    by (simp add: SerializedSize_def kept_def add_mono part)
qed

text \<open>C19: The bounds are met before the writer is asked: the baseline a tick ends with is one the writer does
  not refuse for its size, or there is nothing left in it but rows of saves this tick reported or
  planned.\<close>

theorem a_trimmed_baseline_is_not_refused:
  assumes "own_keys previous" "AdvanceBaseline host previous plan report reported w = (u, w')"
  shows "bs_error (fst (SaveBaseline path (bu_value u) c)) \<in>
      {Baseline_kNone, Baseline_kOpenFailed, Baseline_kWriteFailed, Baseline_kCommitFailed} \<or>
    bl_states (bu_value u) = [] \<and>
    list_all (\<lambda>k. \<not> (local_save reported k = None \<and> k \<notin> set (map op_key (plan_operations plan))))
      (map fst (bl_rows (bu_value u)))"
proof -
  let ?start = "\<lparr>bu_value = previous, bu_advanced = 0, bu_dropped = 0, bu_warnings = []\<rparr>"
  obtain u1 w1 where 1: "advance_results host plan reported 0 (er_operations report) ?start no_directories w = (u1, w1)"
    by fastforce
  have u: "u = TrimToFit plan reported u1" using assms(2) by (simp add: AdvanceBaseline_def 1)
  have o1: "own_keys (bu_value u1)" using advance_results_own_keys [OF 1] assms(1) by simp
  note t = TrimToFit_facts [OF own_keys_tables [OF o1] u]
  have own: "own_keys (bu_value u)" using own_keys_trims [OF o1] t by blast
  show ?thesis
  proof (cases "over_bounds u (SerializedSize (bu_value u))")
    case True
    with t have gone: "bl_states (bu_value u) = []" "\<forall>k \<in> stale plan reported. Baseline_Find k (bu_value u) = None"
      by blast+
    have "k \<notin> stale plan reported" if "k \<in> set (map fst (bl_rows (bu_value u)))" for k
      using that gone(2) om_find_None [of k "bl_rows (bu_value u)"] by (auto simp: Baseline_Find_def)
    then have "list_all (\<lambda>k. \<not> (local_save reported k = None \<and> k \<notin> set (map op_key (plan_operations plan))))
        (map fst (bl_rows (bu_value u)))"
      unfolding list_all_iff stale_def mem_Collect_eq by metis
    with gone(1) show ?thesis by blast
  next
    case False
    obtain s where s: "writable_part (bu_value u) = (kept (bu_value u), s)"
      using writable_part_kept [OF own] by (metis prod.collapse)
    have "\<not> Baseline_size (kept (bu_value u)) > kMaxRecords" "\<not> length (SerializeBaseline (kept (bu_value u))) > kMaxStateBytes"
      using False kept_smaller [of "bu_value u"] by (auto simp: over_bounds_def SerializedSize_text)
    then have "bs_error (fst (SaveBaseline path (bu_value u) c)) \<in>
      {Baseline_kNone, Baseline_kOpenFailed, Baseline_kWriteFailed, Baseline_kCommitFailed}"
      by (simp add: SaveBaseline_def s Let_def split: prod.split WriteError.split)
    then show ?thesis by blast
  qed
qed

section \<open>The end of a tick\<close>

text \<open>What the C++ types say of the numbers that come in: 64 bits each.\<close>

definition typed_inputs :: "'n Host \<Rightarrow> ExecutionReport \<Rightarrow> ClientSaveState list \<Rightarrow> bool" where
  "typed_inputs host report reported \<longleftrightarrow>
     (\<forall>r \<in> set (er_operations report). in_int64 (or_rom_id r)) \<and>
     (\<forall>s \<in> set reported. in_int64 (cs_file_size_bytes s)) \<and>
     (\<forall>d w. \<forall>e \<in> set (ls_entries (ListDirectory host d w)). in_int64 (en_size_bytes e))"

definition typed_dirs :: "Directories \<Rightarrow> bool" where
  "typed_dirs dirs \<longleftrightarrow> (\<forall>e \<in> set (ls_entries (snd dirs)). in_int64 (en_size_bytes e))"

lemma HashFile_healthy_card: "answers c = [] \<Longrightarrow> HashFile p c = (r, c') \<Longrightarrow> c' = c"
proof (cases "files c p")
  case None
  assume "answers c = []" "HashFile p c = (r, c')"
  with None show ?thesis by (simp add: HashFile_def OpenForReading_healthy)
next
  case (Some f)
  assume "answers c = []" "HashFile p c = (r, c')"
  with Some HashFile_healthy [of c p f] show ?thesis by simp
qed

lemma find_mem: "find P xs = Some x \<Longrightarrow> x \<in> set xs"
  by (metis find_Some_iff nth_mem)

lemma local_save_mem: "local_save reported k = Some s \<Longrightarrow> s \<in> set reported"
  by (auto simp: local_save_def FindByKey_def dest: find_mem)

lemma Directories_Find_typed:
  assumes "Directories_Find host p dirs w = (found, dirs')" "typed_dirs dirs"
    "\<forall>d w. \<forall>e \<in> set (ls_entries (ListDirectory host d w)). in_int64 (en_size_bytes e)"
  shows "typed_dirs dirs' \<and> (\<forall>e. found = Inr e \<longrightarrow> in_int64 (en_size_bytes e))"
proof (cases "SplitPath p")
  case None
  with assms show ?thesis by (auto simp: Directories_Find_def)
next
  case (Some pair)
  obtain d leaf where s: "SplitPath p = Some (d, leaf)" using Some by (cases pair) simp
  let ?dirs = "if d \<noteq> fst dirs then (d, ListDirectory host d w) else dirs"
  have t: "typed_dirs ?dirs" using assms(2, 3) by (simp add: typed_dirs_def)
  have "dirs' = ?dirs" "\<forall>e. found = Inr e \<longrightarrow> e \<in> set (ls_entries (snd ?dirs))"
    using assms(1) unfolding Directories_Find_def s Let_def
    by (auto dest: find_mem split: option.splits)
  with t show ?thesis by (auto simp: typed_dirs_def)
qed

lemma ReadBackFile_typed:
  assumes "ReadBackFile host p dirs w = ((found, dirs'), w')" "typed_dirs dirs"
    "\<forall>d w. \<forall>e \<in> set (ls_entries (ListDirectory host d w)). in_int64 (en_size_bytes e)"
  shows "typed_dirs dirs' \<and> (\<forall>f. found = Inr f \<longrightarrow> in_int64 (ff_file_size_bytes f)) \<and>
    (answers (card w) = [] \<longrightarrow> card w' = card w)"
proof -
  obtain e d where e: "Directories_Find host p dirs w = (e, d)" by (metis surj_pair)
  obtain h w1 where h: "on_card_do (HashFile (Resolve host p)) w = (h, w1)" by fastforce
  have "answers (card w) = [] \<longrightarrow> card w1 = card w"
    using on_card_do_net [OF h] HashFile_healthy_card by metis
  with assms(1, 2) Directories_Find_typed [OF e assms(2, 3)] show ?thesis
    by (auto simp: ReadBackFile_def e h Let_def split: if_splits sum.splits)
qed

lemma advance_row_typed:
  assumes "advance_row host op r reported u dirs w = ((u', dirs'), w')" "keyed (bu_value u)" "typed_dirs dirs"
    "in_int64 (or_rom_id r)" "\<forall>s \<in> set reported. in_int64 (cs_file_size_bytes s)"
    "\<forall>d w. \<forall>e \<in> set (ls_entries (ListDirectory host d w)). in_int64 (en_size_bytes e)"
  shows "keyed (bu_value u') \<and> typed_dirs dirs' \<and> (answers (card w) = [] \<longrightarrow> card w' = card w)"
proof -
  let ?rec = "(case Baseline_Find (result_key r) (bu_value u) of None \<Rightarrow> no_save_record | Some stored \<Rightarrow> stored)
    \<lparr>sv_rom_id := or_rom_id r, sv_slot := or_slot r, sv_deleted_on_server := False\<rparr>"
  obtain rec line where half: "ApplyServerHalf op r reported ?rec = (rec, line)" by fastforce
  have key: "sv_rom_id rec = or_rom_id r" using ApplyServerHalf_key [OF half] by simp
  obtain found d v where rb: "ReadBackFile host (or_sd_path r) dirs w = ((found, d), v)" by (metis surj_pair)
  show ?thesis
    using assms(1-5) key ReadBackFile_typed [OF rb assms(3, 6)] local_save_mem [of reported "result_key r"]
    unfolding advance_row_def Let_def half prod.case rb
    by (auto simp: set_row_value keyed_Set keyed_Erase save_typed_def split: if_splits option.splits sum.splits)
qed

lemma advance_result_typed:
  assumes "advance_result host plan reported index r u dirs w = ((u', dirs'), w')" "keyed (bu_value u)" "typed_dirs dirs"
    "in_int64 (or_rom_id r)" "\<forall>s \<in> set reported. in_int64 (cs_file_size_bytes s)"
    "\<forall>d w. \<forall>e \<in> set (ls_entries (ListDirectory host d w)). in_int64 (en_size_bytes e)"
  shows "keyed (bu_value u') \<and> typed_dirs dirs' \<and> (answers (card w) = [] \<longrightarrow> card w' = card w)"
proof -
  have "keyed (bu_value (untrack r reported u))"
    using assms(2, 4, 5) local_save_mem [of reported "result_key r"]
    by (auto simp: untrack_def Let_def keyed_Set keyed_Erase save_typed_def split: option.split)
  with assms(1, 2, 3) advance_row_typed [of host "plan_operations plan ! index" r reported u dirs w u' dirs' w', OF _ assms(2-6)]
  show ?thesis by (auto simp: advance_result_def Let_def split: if_splits)
qed

lemma advance_results_typed:
  "advance_results host plan reported index rs u dirs w = (u', w') \<Longrightarrow> keyed (bu_value u) \<Longrightarrow> typed_dirs dirs \<Longrightarrow>
   \<forall>r \<in> set rs. in_int64 (or_rom_id r) \<Longrightarrow> \<forall>s \<in> set reported. in_int64 (cs_file_size_bytes s) \<Longrightarrow>
   \<forall>d w. \<forall>e \<in> set (ls_entries (ListDirectory host d w)). in_int64 (en_size_bytes e) \<Longrightarrow>
   keyed (bu_value u') \<and> (answers (card w) = [] \<longrightarrow> card w' = card w)"
proof (induction rs arbitrary: index u dirs w)
  case (Cons r rs)
  obtain u1 d1 w1 where 1: "advance_result host plan reported index r u dirs w = ((u1, d1), w1)" by (metis surj_pair)
  have rest: "advance_results host plan reported (index + 1) rs u1 d1 w1 = (u', w')"
    using Cons.prems(1) by (simp add: 1)
  have "in_int64 (or_rom_id r)" using Cons.prems(4) by simp
  note s = advance_result_typed [OF 1 Cons.prems(2, 3) this Cons.prems(5, 6)]
  show ?case using Cons.IH [OF rest _ _ _ Cons.prems(5, 6)] s Cons.prems(4) by auto
qed simp

lemma AdvanceBaseline_typed:
  assumes "AdvanceBaseline host previous plan report reported w = (u, w')" "keyed previous"
    "typed_inputs host report reported"
  shows "keyed (bu_value u) \<and> (answers (card w) = [] \<longrightarrow> card w' = card w)"
proof -
  let ?start = "\<lparr>bu_value = previous, bu_advanced = 0, bu_dropped = 0, bu_warnings = []\<rparr>"
  obtain u1 w1 where 1: "advance_results host plan reported 0 (er_operations report) ?start no_directories w = (u1, w1)"
    by fastforce
  have u: "u = TrimToFit plan reported u1" "w' = w1" using assms(1) by (simp_all add: AdvanceBaseline_def 1)
  have k: "keyed (bu_value u1)" "answers (card w) = [] \<longrightarrow> card w1 = card w"
    using advance_results_typed [OF 1] assms(2, 3)
    by (simp_all add: typed_inputs_def typed_dirs_def no_directories_def no_listing_def)
  have "trims (stale plan reported) (bu_value u1) (bu_value u)"
    using TrimToFit_facts [OF own_keys_tables [OF keyed_own_keys [OF k(1)]] u(1)] by blast
  with k u(2) keyed_trims show ?thesis by blast
qed

lemma CompleteSession_card:
  assumes "off_card host" "CompleteSession host token session_id tally sessions options w = (r, w')"
  shows "card w' = card w"
  using assms(2) completing.keeps_card [OF assms(1)] off_card_steps(2) [OF assms(1)]
  by (auto simp: CompleteSession_def Let_def split: if_splits prod.splits)

text \<open>C20: What a tick learnt is kept whatever becomes of its report: the server may answer anything, or nothing at
  all, or the tick may be cancelled; once the baseline was stored, the next tick reads it back, every
  row of it the writer does not refuse.\<close>

theorem what_is_learnt_is_kept:
  assumes "keyed previous" "typed_inputs host report reported" "off_card host" "answers (card w) = []"
    "file_path (Resolve host (fo_state_sd_path options))"
    and run: "FinishTick host token plan report reported previous options w = ((t, b), w')"
    and stored: "bs_ok (tc_stored t)"
  shows "LoadBaseline (Resolve host (fo_state_sd_path options)) (card w') =
    (\<lparr>lb_value = as_stored (kept b), lb_diagnostics = [], lb_version = kFormatVersion, lb_legacy_saves = []\<rparr>, card w')"
proof -
  let ?path = "Resolve host (fo_state_sd_path options)"
  obtain u w1 where 1: "AdvanceBaseline host previous plan report reported w = (u, w1)" by fastforce
  obtain s w2 where 2: "store_update host options (bu_value u) w1 = (s, w2)" by fastforce
  obtain sessions refused where 3: "sessions_to_send (CountsFor report) options = (sessions, refused)" by fastforce
  obtain reply w3 where 4: "CompleteSession host token (plan_session_id plan) (CountsFor report) sessions
      (fo_complete options) w2 = (reply, w3)" by fastforce
  have out: "t = t\<lparr>tc_stored := s\<rparr>" "b = bu_value u" "w' = w3"
    using run by (auto simp: FinishTick_def Let_def 1 2 3 4)
  note a = AdvanceBaseline_typed [OF 1 assms(1, 2)]
  have "?path \<noteq> []" using assms(5) by (auto simp: file_path_def)
  then have save: "SaveBaseline ?path (bu_value u) (card w1) = (s, card w2)"
    using 2 on_card_do_net [of "SaveBaseline ?path (bu_value u)" w1 s w2] by (simp add: store_update_def)
  have "bs_ok s" using stored out(1) by (metis TickCompletion.select_convs(1) TickCompletion.surjective TickCompletion.update_convs(1))
  then have "LoadBaseline ?path (card w2) = (\<lparr>lb_value = as_stored (kept (bu_value u)), lb_diagnostics = [],
      lb_version = kFormatVersion, lb_legacy_saves = []\<rparr>, card w2)"
    using baseline_survives_the_card [OF _ assms(5) _ save] a assms(4) by simp
  then show ?thesis using out CompleteSession_card [OF assms(3), of token] 4 by simp
qed

section \<open>Witnesses\<close>

definition failed_report :: ExecutionReport where
  "failed_report = empty_report\<lparr>er_operations := [(ResultFor sample_op)\<lparr>or_outcome := Outcome_kFailed\<rparr>]\<rparr>"

definition one_file :: Listing where
  "one_file = no_listing\<lparr>ls_entries := [\<lparr>en_name = ''a'', en_is_directory = False, en_size_bytes = 3,
     en_modified_unix = 7\<rparr>]\<rparr>"

definition shelf_host :: "HttpResult list Host" where
  "shelf_host = list_host\<lparr>ListDirectory := \<lambda>_ _. one_file\<rparr>"

definition quiet_world :: "HttpResult list World" where
  "quiet_world = \<lparr>card = sample_card\<lparr>answers := []\<rparr>, net = [answered_with 401 []]\<rparr>"

lemma sample_rows_keyed: "keyed sample_rows" "tables_ok sample_rows"
  using sample_rows_facts(1) by (auto simp: storable_def keyed_def own_keys_def tables_ok_def list_all_iff)

theorem unsynced_saves_keep_their_rows_witness:
  "Baseline_Find (7, Some ''a.srm'') (bu_value (fst (AdvanceBaseline shelf_host sample_rows empty_plan failed_report [] quiet_world)))
     = Baseline_Find (7, Some ''a.srm'') sample_rows \<or>
   (7, Some ''a.srm'') \<notin> set (map op_key (plan_operations empty_plan)) \<and> local_save [] (7, Some ''a.srm'') = None \<and>
   Baseline_Find (7, Some ''a.srm'') (bu_value (fst (AdvanceBaseline shelf_host sample_rows empty_plan failed_report [] quiet_world))) = None"
  by (rule unsynced_saves_keep_their_rows [OF sample_rows_keyed(2) surjective_pairing])
    (simp add: failed_report_def empty_report_def Advances_def Untracks_def)

definition fetched_result :: OperationResult where
  "fetched_result = (ResultFor sample_op)\<lparr>or_outcome := Outcome_kDownloaded, or_sd_path := ''/a''\<rparr>"

theorem a_fetched_row_is_what_is_on_the_card_witness:
  "case Baseline_Find (result_key fetched_result) (bu_value (fst (fst (advance_row shelf_host sample_op fetched_result []
      \<lparr>bu_value = sample_rows, bu_advanced = 0, bu_dropped = 0, bu_warnings = []\<rparr> no_directories quiet_world)))) of
     None \<Rightarrow> True
   | Some rec \<Rightarrow> (\<exists>f e. files (card quiet_world) (Resolve shelf_host (or_sd_path fetched_result)) = Some f \<and>
        fst (Directories_Find shelf_host (or_sd_path fetched_result) no_directories quiet_world) = Inr e \<and>
        sv_content_hash rec = Md5Hex (data f) \<and>
        sv_mtime rec = FromUnixSeconds (en_modified_unix e) \<and> sv_file_size_bytes rec = en_size_bytes e \<and>
        \<not> sv_deleted_on_server rec)"
  by (rule a_fetched_row_is_what_is_on_the_card [OF _ _ two_pairs])
    (simp_all add: sample_rows_keyed fetched_result_def Rewrites_def)

theorem a_trimmed_baseline_is_not_refused_witness:
  "bs_error (fst (SaveBaseline ''/a'' (bu_value (fst (AdvanceBaseline shelf_host sample_rows empty_plan failed_report []
      quiet_world))) (card quiet_world))) \<in>
      {Baseline_kNone, Baseline_kOpenFailed, Baseline_kWriteFailed, Baseline_kCommitFailed} \<or>
    bl_states (bu_value (fst (AdvanceBaseline shelf_host sample_rows empty_plan failed_report [] quiet_world))) = [] \<and>
    list_all (\<lambda>k. \<not> (local_save [] k = None \<and> k \<notin> set (map op_key (plan_operations empty_plan))))
      (map fst (bl_rows (bu_value (fst (AdvanceBaseline shelf_host sample_rows empty_plan failed_report []
        quiet_world)))))"
  by (rule a_trimmed_baseline_is_not_refused [OF keyed_own_keys [OF sample_rows_keyed(1)] surjective_pairing])

definition finish_options :: FinishOptions where
  "finish_options = \<lparr>fo_state_sd_path = ''/a'', fo_complete = \<lparr>cp_backoff = 1000, cp_max_backoff = 8000,
     cp_jitter = 1 / 4, cp_timeout = 30000, cp_max_attempts = 3, cp_cancel = True\<rparr>, fo_play_sessions = []\<rparr>"

lemma sample_rows_saved:
  assumes "answers c = []" "SaveBaseline path sample_rows c = (r, c')"
  shows "bs_ok r"
  using assms(2) keyed_own_keys
proof (cases rule: SaveBaseline_runs [OF sample_rows_keyed(1) assms(2)])
  case 1
  have k: "kept sample_rows = sample_rows" by code_simp
  obtain s where s: "writable_part sample_rows = (sample_rows, s)"
    using writable_part_kept [OF keyed_own_keys [OF sample_rows_keyed(1)]] k by (metis prod.collapse)
  have "Baseline_size sample_rows \<le> kMaxRecords" using sample_rows_facts(1) by (simp add: storable_def)
  moreover obtain wr c1 where wr: "WriteAtomically path (SerializeBaseline sample_rows) c = (wr, c1)" by fastforce
  moreover have "wr_error wr = WriteError_kNone"
    using one_piece.WriteStaged_healthy [OF assms(1), of path "SerializeBaseline sample_rows"] wr
    by (auto simp: WriteAtomically_def)
  ultimately show ?thesis
    using assms(2) sample_rows_facts(4) by (auto simp: SaveBaseline_def s bs_ok_def Let_def split: if_splits)
next
  case (2 wr)
  have k: "kept sample_rows = sample_rows" by code_simp
  have "wr_error wr = WriteError_kNone"
    using one_piece.WriteStaged_healthy [OF assms(1), of path "SerializeBaseline sample_rows"] 2(1)
    by (auto simp: WriteAtomically_def k)
  with 2(4) show ?thesis by (simp add: wr_ok_def)
qed

theorem what_is_learnt_is_kept_witness:
  "fst (LoadBaseline ''/a'' (card (snd (FinishTick shelf_host sample_token empty_plan failed_report [] sample_rows
      finish_options quiet_world)))) =
    \<lparr>lb_value = as_stored (kept (snd (fst (FinishTick shelf_host sample_token empty_plan failed_report [] sample_rows
      finish_options quiet_world)))), lb_diagnostics = [], lb_version = kFormatVersion, lb_legacy_saves = []\<rparr>"
proof -
  have h: "Resolve shelf_host (fo_state_sd_path finish_options) = ''/a''"
    by (simp add: shelf_host_def list_host_def finish_options_def)
  have o: "off_card shelf_host" by (simp add: off_card_def shelf_host_def list_host_def)
  have ty: "typed_inputs shelf_host failed_report []"
    by (simp add: typed_inputs_def failed_report_def empty_report_def shelf_host_def one_file_def no_listing_def
        in_int64_def sample_op_def ResultFor_def)
  have adv: "AdvanceBaseline shelf_host sample_rows empty_plan failed_report [] quiet_world =
      (\<lparr>bu_value = sample_rows, bu_advanced = 0, bu_dropped = 0, bu_warnings = []\<rparr>, quiet_world)"
    using sample_rows_facts(1, 4)
    by (simp add: AdvanceBaseline_def failed_report_def empty_report_def advance_result_def Advances_def Untracks_def
        TrimToFit_def over_bounds_def SerializedSize_text storable_def not_less)
  obtain s c where save: "SaveBaseline ''/a'' sample_rows (card quiet_world) = (s, c)" by fastforce
  have "bs_ok s" by (rule sample_rows_saved [OF _ save]) (simp add: quiet_world_def)
  then have "bs_ok (tc_stored (fst (fst (FinishTick shelf_host sample_token empty_plan failed_report [] sample_rows
      finish_options quiet_world))))"
    by (simp add: FinishTick_def adv store_update_def h on_card_do_def save Let_def case_prod_beta)
  with what_is_learnt_is_kept [OF sample_rows_keyed(1) ty o _ _ two_pairs, of quiet_world finish_options sample_token empty_plan]
  show ?thesis using sample_path(1) by (simp add: h quiet_world_def)
qed

end
