(* ===== verification/SyncRecovery.thy ===== *)
theory SyncRecovery
  imports SyncSafety FileSystem
begin

text \<open>
  \<open>core/src/sync_recovery.cpp\<close>: the sweep a tick begins with, over what an interrupted one left beside a
  save.
\<close>

section \<open>The sweep\<close>

definition kMaxRecoveryWarnings :: nat where "kMaxRecoveryWarnings = 16"

record RecoveryReport =
  rc_partials_removed :: nat
  rc_staged_removed :: nat
  rc_saves_restored :: nat
  rc_previous_left :: nat
  rc_warnings :: "bytes list"

definition empty_recovery :: RecoveryReport where
  "empty_recovery = \<lparr>rc_partials_removed = 0, rc_staged_removed = 0, rc_saves_restored = 0,
     rc_previous_left = 0, rc_warnings = []\<rparr>"

definition TempSuffix :: bytes where "TempSuffix = TempPathFor []"
definition PreviousSuffix :: bytes where "PreviousSuffix = PreviousPathFor []"
definition PartialSuffix :: bytes where "PartialSuffix = PartialPathFor []"

definition EndsWith :: "bytes \<Rightarrow> bytes \<Rightarrow> bool" where
  "EndsWith s ending \<longleftrightarrow> length s > length ending \<and> drop (length s - length ending) s = ending"

definition Warn :: "RecoveryReport \<Rightarrow> bytes \<Rightarrow> RecoveryReport" where
  "Warn report line =
     (if length (rc_warnings report) < kMaxRecoveryWarnings
      then report\<lparr>rc_warnings := rc_warnings report @ [line]\<rparr> else report)"

text \<open>Whether the leftover is gone.\<close>

definition Discard :: "bytes \<Rightarrow> Card \<Rightarrow> bool \<times> Card" where
  "Discard path w =
     (let (gone, w) = RemoveFile path w in
      if gone then (True, w)
      else let (there, w) = Exists path w in (\<not> there, w))"

definition discarded :: "bytes \<Rightarrow> RecoveryReport \<Rightarrow> RecoveryReport" where
  "discarded sd_path report = Warn report (''the leftover '' @ sd_path @ '' could not be removed'')"

text \<open>One entry that is a file.\<close>

definition sweep_entry :: "'n Host \<Rightarrow> bytes \<Rightarrow> bytes \<Rightarrow> RecoveryReport \<Rightarrow> 'n World \<Rightarrow> RecoveryReport \<times> 'n World" where
  "sweep_entry host directory name report w =
     (let sd_path = directory @ ''/'' @ name;
          path = Resolve host sd_path
      in
      if path = [] then (Warn report (''the leftover '' @ sd_path @ '' is not a path on this card''), w)
      else if EndsWith name (TempSuffix @ PartialSuffix)
      then
        let (gone, w) = on_card_do (Discard path) w in
        (if gone then report\<lparr>rc_partials_removed := rc_partials_removed report + 1\<rparr>
         else discarded sd_path report, w)
      else if EndsWith name TempSuffix
      then
        let (gone, w) = on_card_do (Discard path) w in
        (if gone then report\<lparr>rc_staged_removed := rc_staged_removed report + 1\<rparr>
         else discarded sd_path report, w)
      else if \<not> EndsWith name PreviousSuffix then (report, w)
      else
        let base_sd_path = take (length sd_path - length PreviousSuffix) sd_path;
            base = Resolve host base_sd_path
        in
        if base = [] then (Warn report (''the leftover '' @ sd_path @ '' names no path on this card''), w)
        else
          let (there, w) = on_card_do (Exists base) w in
          if there then (report\<lparr>rc_previous_left := rc_previous_left report + 1\<rparr>, w)
          else
            let (renamed, w) = on_card_do (Rename path base) w in
            (if \<not> renamed
             then Warn report (''the interrupted commit at '' @ sd_path @ '' could not be undone; '' @
               base_sd_path @ '' is still missing'')
             else report\<lparr>rc_saves_restored := rc_saves_restored report + 1\<rparr>, w))"

fun sweep_entries :: "'n Host \<Rightarrow> bytes \<Rightarrow> Entry list \<Rightarrow> RecoveryReport \<Rightarrow> 'n World \<Rightarrow> RecoveryReport \<times> 'n World" where
  "sweep_entries host directory [] report w = (report, w)"
| "sweep_entries host directory (e # es) report w =
     (let (report, w) = (if en_is_directory e then (report, w) else sweep_entry host directory (en_name e) report w)
      in sweep_entries host directory es report w)"

fun sweep_directories :: "'n Host \<Rightarrow> bytes list \<Rightarrow> RecoveryReport \<Rightarrow> 'n World \<Rightarrow> RecoveryReport \<times> 'n World" where
  "sweep_directories host [] report w = (report, w)"
| "sweep_directories host (directory # ds) report w =
     (let listing = ListDirectory host directory w;
          report = (if \<not> ls_ok listing \<and> ls_error listing \<noteq> ListError_kMissing
            then Warn report (''the directory '' @ directory @ '' could not be swept whole: '' @ ls_message listing)
            else report);
          (report, w) = sweep_entries host directory (ls_entries listing) report w
      in sweep_directories host ds report w)"

definition RecoverStaging :: "'n Host \<Rightarrow> bytes list \<Rightarrow> 'n World \<Rightarrow> RecoveryReport \<times> 'n World" where
  "RecoverStaging host directories w = sweep_directories host directories empty_recovery w"

section \<open>No save is lost\<close>

text \<open>The console's card: it resolves a path as \<open>ResolveOnCard\<close> does, under a mount that has a name, and lists
  the leaf names of a directory, never paths (\<open>fs::Entry::name\<close>).\<close>

definition console_card :: "'n Host \<Rightarrow> bytes \<Rightarrow> bool" where
  "console_card host mount \<longleftrightarrow> mount \<noteq> [] \<and> (\<forall>p. Resolve host p = ResolveOnCard mount p) \<and>
     (\<forall>d w. list_all (\<lambda>e. CHR ''/'' \<notin> set (en_name e)) (ls_entries (ListDirectory host d w)))"

lemma console_card_under:
  assumes "console_card host mount" "CHR ''/'' \<notin> set n" "Resolve host (d @ ''/'' @ n) \<noteq> []"
  shows "Resolve host (d @ ''/'' @ n) = pushed (Resolve host d) n \<and> Resolve host d \<noteq> []"
proof -
  have "mount \<noteq> []" and r: "\<And>p. Resolve host p = ResolveOnCard mount p" using assms(1) by (auto simp: console_card_def)
  from ResolveOnCard_under [OF this(1) assms(2), of d] assms(3) show ?thesis
    unfolding r by (simp add: leaf_under_def split: if_splits)
qed

text \<open>A name none of the three leftovers has.\<close>

definition save_name :: "bytes \<Rightarrow> bool" where
  "save_name q \<longleftrightarrow> \<not> EndsWith q TempSuffix \<and> \<not> EndsWith q PreviousSuffix \<and> \<not> EndsWith q PartialSuffix"

lemma suffixes: "TempSuffix = ''.tmp''" "PreviousSuffix = ''.old''" "PartialSuffix = ''.part''"
  by (simp_all add: TempSuffix_def TempPathFor_def PreviousSuffix_def PreviousPathFor_def PartialSuffix_def PartialPathFor_def)

lemma EndsWith_iff: "EndsWith s ending \<longleftrightarrow> (\<exists>r. r \<noteq> [] \<and> s = r @ ending)"
proof
  assume e: "EndsWith s ending"
  then have "s = take (length s - length ending) s @ ending" by (metis EndsWith_def append_take_drop_id)
  moreover have "take (length s - length ending) s \<noteq> []" using e by (auto simp: EndsWith_def)
  ultimately show "\<exists>r. r \<noteq> [] \<and> s = r @ ending" by blast
qed (auto simp: EndsWith_def)

text \<open>What the two kinds of leftover the sweep removes have in common.\<close>

definition junk :: "bytes \<Rightarrow> bool" where
  "junk p \<longleftrightarrow> EndsWith p TempSuffix \<or> EndsWith p PartialSuffix"

lemma junk_is_no_save: "junk p \<Longrightarrow> save_name q \<Longrightarrow> p \<noteq> q \<and> p \<noteq> PreviousPathFor q"
  by (auto simp: junk_def save_name_def suffixes EndsWith_iff PreviousPathFor_def)

lemma parked_is_no_save: "b \<noteq> [] \<Longrightarrow> save_name q \<Longrightarrow> PreviousPathFor b \<noteq> q"
  by (auto simp: save_name_def suffixes EndsWith_iff PreviousPathFor_def)

text \<open>A change of the card that keeps what there is of a save: under its name (\<open>parked\<close> false) or under that or the
  previous one.\<close>

definition held :: "bool \<Rightarrow> bytes \<Rightarrow> File \<Rightarrow> (bytes \<rightharpoonup> File) \<Rightarrow> bool" where
  "held parked q f fs \<longleftrightarrow> (if parked then recoverable q fs = Some f else fs q = Some f)"

definition keeps :: "bool \<Rightarrow> bytes \<Rightarrow> File \<Rightarrow> Card \<Rightarrow> Card \<Rightarrow> bool" where
  "keeps parked q f w w' \<longleftrightarrow>
     (\<not> rename_replaces w \<and> held parked q f (files w) \<longrightarrow> \<not> rename_replaces w' \<and> leaves (held parked q f) w w')"

lemma keeps_refl [simp]: "keeps b q f w w"
  by (auto simp: keeps_def leaves_def)

lemma keeps_trans: "keeps b q f w1 w2 \<Longrightarrow> keeps b q f w2 w3 \<Longrightarrow> keeps b q f w1 w3"
  by (auto simp: keeps_def dest: leaves_files intro: leaves_trans)

lemma same_keeps: "same w w' \<Longrightarrow> keeps b q f w w'"
  by (auto simp: keeps_def intro: same_leaves) (simp add: same_def)

lemma left_as_keeps:
  "left_as fs w w' \<Longrightarrow> (\<not> rename_replaces w \<Longrightarrow> held b q f (files w) \<Longrightarrow> held b q f fs) \<Longrightarrow> keeps b q f w w'"
  by (auto simp: keeps_def intro: left_as_leaves) (simp add: left_as_def)

lemma held_other: "p \<noteq> q \<Longrightarrow> p \<noteq> PreviousPathFor q \<Longrightarrow> held b q f (fs(p := x)) = held b q f fs"
  by (auto simp: held_def)

lemma Discard_keeps:
  assumes "Discard p w = (gone, w')" "junk p" "save_name q"
  shows "keeps b q f w w'"
proof -
  obtain r w1 where r: "RemoveFile p w = (r, w1)" by fastforce
  then have w1: "w1 = Remove p w" by (simp add: RemoveFile_def)
  have "keeps b q f w w1"
    using Remove_effect [of w p] junk_is_no_save [OF assms(2, 3)]
    by (auto simp: w1 held_other intro: same_keeps left_as_keeps)
  moreover have "keeps b q f w1 w'"
    using assms(1) by (auto simp: Discard_def r dest!: Exists_effect intro: same_keeps split: if_splits prod.splits)
  ultimately show ?thesis by (rule keeps_trans)
qed

lemma Rename_back_keeps:
  assumes "Rename (PreviousPathFor base) base w = (r, w')" "base \<noteq> []" "save_name q"
  shows "keeps b q f w w'"
proof -
  have none: "\<not> rename_replaces w \<Longrightarrow> r \<Longrightarrow> files w base = None"
    using assms(1) by (auto simp: Rename_def next_answer_def split: list.splits CardAnswer.splits if_splits)
  have q: "PreviousPathFor base \<noteq> q" by (rule parked_is_no_save [OF assms(2, 3)])
  have "held b q f ((files w)(PreviousPathFor base := None, base := files w (PreviousPathFor base)))"
    if "\<not> rename_replaces w" "r" "held b q f (files w)"
    using that(3) none [OF that(1, 2)] q
    by (cases "q = base"; cases b) (auto simp: held_def recoverable_def PreviousPathFor_def split: option.splits)
  with Rename_effect [OF assms(1)] show ?thesis by (auto intro: same_keeps left_as_keeps)
qed

lemma Rename_away_keeps:
  assumes "Rename a base w = (r, w')" "base \<noteq> q" "a \<noteq> q" "a \<noteq> PreviousPathFor q"
  shows "keeps b q f w w'"
proof -
  have none: "\<not> rename_replaces w \<Longrightarrow> r \<Longrightarrow> files w base = None"
    using assms(1) by (auto simp: Rename_def next_answer_def split: list.splits CardAnswer.splits if_splits)
  have "held b q f ((files w)(a := None, base := files w a))" if "\<not> rename_replaces w" "r" "held b q f (files w)"
    using that(3) none [OF that(1, 2)] assms(2-4)
    by (cases "base = PreviousPathFor q"; cases b) (auto simp: held_def recoverable_def split: option.splits)
  with Rename_effect [OF assms(1)] show ?thesis by (auto intro: same_keeps left_as_keeps)
qed

lemma junk_append: "EndsWith n (TempSuffix @ PartialSuffix) \<or> EndsWith n TempSuffix \<Longrightarrow> junk (p @ n)"
proof -
  assume "EndsWith n (TempSuffix @ PartialSuffix) \<or> EndsWith n TempSuffix"
  then obtain r where r: "r \<noteq> []" "n = (r @ ''.tmp'') @ ''.part'' \<or> n = r @ ''.tmp''"
    by (auto simp: EndsWith_iff suffixes)
  then have "p @ n = (p @ r @ ''.tmp'') @ ''.part'' \<or> p @ n = (p @ r) @ ''.tmp''" "p @ r \<noteq> []" by auto
  then show ?thesis
    unfolding junk_def suffixes EndsWith_iff by (metis append_is_Nil_conv)
qed

text \<open>A save is a file of the card: it has a path, and it is none of the directories swept.\<close>

definition file_beside :: "'n Host \<Rightarrow> bytes list \<Rightarrow> bytes \<Rightarrow> bool" where
  "file_beside host directories q \<longleftrightarrow>
     q \<in> range (Resolve host) \<and> q \<notin> set (map (Resolve host) directories)"

lemma file_beside_no_dot:
  assumes "console_card host mount" "file_beside host ds q" "Resolve host d \<noteq> []"
  shows "q \<noteq> Resolve host d @ ''/.''"
proof -
  have r: "\<And>p. Resolve host p = ResolveOnCard mount p" using assms(1) by (auto simp: console_card_def)
  from assms(2) obtain p where "q = Resolve host p" by (auto simp: file_beside_def)
  with ResolveOnCard_no_dot [of mount d p] assms(3) show ?thesis unfolding r by simp
qed

lemma sweep_entry_keeps:
  assumes cc: "console_card host mount" and n: "CHR ''/'' \<notin> set n" and d: "file_beside host ds q" "d \<in> set ds"
    and run: "sweep_entry host d n report w = (report', w')" and q: "save_name q"
  shows "keeps b q f (card w) (card w')"
proof (cases "Resolve host (d @ ''/'' @ n) = []")
  case True
  then show ?thesis using run by (simp add: sweep_entry_def)
next
  case path_known: False
  let ?rd = "Resolve host d" and ?path = "Resolve host (d @ ''/'' @ n)"
  note under = console_card_under [OF cc n path_known]
  have discard: "keeps b q f (card w) (card w1)"
    if "on_card_do (Discard ?path) w = (gone, w1)"
      "EndsWith n (TempSuffix @ PartialSuffix) \<or> EndsWith n TempSuffix" for gone w1
  proof -
    have "n \<noteq> []" "n \<noteq> ''.''" using that(2) by (auto simp: EndsWith_def suffixes)
    then have "?path = (?rd @ ''/'') @ n" using under by (simp add: pushed_def)
    with junk_append [OF that(2), of "?rd @ ''/''"] have "junk ?path" by simp
    with Discard_keeps [OF on_card_do_card [OF that(1)] _ q] show ?thesis .
  qed
  show ?thesis
  proof (cases "EndsWith n (TempSuffix @ PartialSuffix) \<or> EndsWith n TempSuffix \<or> \<not> EndsWith n PreviousSuffix")
    case True
    then show ?thesis using run discard by (auto simp: sweep_entry_def Let_def split: if_splits prod.splits)
  next
    case parked: False
    then obtain m where m: "m \<noteq> []" "n = m @ ''.old''" by (auto simp: EndsWith_iff suffixes)
    then have path: "?path = ?rd @ ''/'' @ m @ ''.old''" using under by (simp add: pushed_def)
    let ?base = "Resolve host (d @ ''/'' @ m)"
    have base: "take (length (d @ ''/'' @ n) - length PreviousSuffix) (d @ ''/'' @ n) = d @ ''/'' @ m"
      by (simp add: m(2) suffixes)
    show ?thesis
    proof (cases "?base = []")
      case True
      with parked show ?thesis using run unfolding sweep_entry_def Let_def base by (auto split: if_splits)
    next
      case base_known: False
      have "CHR ''/'' \<notin> set m" using n m(2) by simp
      note rb = console_card_under [OF cc this base_known]
      obtain there w1 where e: "on_card_do (Exists ?base) w = (there, w1)" by fastforce
      have k1: "keeps b q f (card w) (card w1)" using Exists_effect [OF on_card_do_card [OF e]] same_keeps by blast
      obtain r w2 where r: "on_card_do (Rename ?path ?base) w1 = (r, w2)" by fastforce
      have "keeps b q f (card w1) (card w2)"
      proof (cases "m = ''.''")
        case True
        have "?base = ?rd" using rb True by (simp add: pushed_def)
        moreover have "?rd \<noteq> q" using d unfolding file_beside_def set_map by blast
        moreover have "?path \<noteq> PreviousPathFor q"
          using file_beside_no_dot [OF cc d(1)] under path True by (auto simp: PreviousPathFor_def)
        moreover have "?path \<noteq> q"
          using q path by (auto simp: save_name_def EndsWith_iff suffixes)
        ultimately show ?thesis using Rename_away_keeps [OF on_card_do_card [OF r]] by simp
      next
        case False
        then have "?base = ?rd @ ''/'' @ m" using rb m(1) by (simp add: pushed_def)
        then have "?path = PreviousPathFor ?base" using path by (simp add: PreviousPathFor_def)
        then show ?thesis using Rename_back_keeps [OF _ base_known q] on_card_do_card [OF r] by simp
      qed
      moreover have "w' = w1 \<or> w' = w2"
        using run parked
        unfolding sweep_entry_def Let_def base if_not_P [OF path_known] if_not_P [OF base_known] e r prod.case
        by (auto split: if_splits)
      ultimately show ?thesis using k1 keeps_trans by blast
    qed
  qed
qed

lemma sweep_entries_keeps:
  assumes "console_card host mount" "file_beside host ds q" "d \<in> set ds" "save_name q"
  shows "list_all (\<lambda>e. CHR ''/'' \<notin> set (en_name e)) es \<Longrightarrow> sweep_entries host d es report w = (report', w') \<Longrightarrow>
    keeps b q f (card w) (card w')"
proof (induction es arbitrary: report w)
  case (Cons e es)
  obtain r1 w1 where 1: "(if en_is_directory e then (report, w) else sweep_entry host d (en_name e) report w) = (r1, w1)"
    by fastforce
  have "keeps b q f (card w) (card w1)"
    using 1 sweep_entry_keeps [OF assms(1) _ assms(2, 3) _ assms(4)] Cons.prems(1) by (auto split: if_splits)
  moreover have "keeps b q f (card w1) (card w')" using Cons 1 by simp
  ultimately show ?case by (rule keeps_trans)
qed simp

lemma sweep_directories_keeps:
  assumes "console_card host mount" "file_beside host ds' q" "save_name q"
  shows "set ds \<subseteq> set ds' \<Longrightarrow> sweep_directories host ds report w = (report', w') \<Longrightarrow> keeps b q f (card w) (card w')"
proof (induction ds arbitrary: report w)
  case (Cons d ds)
  obtain r1 w1 where 1: "sweep_entries host d (ls_entries (ListDirectory host d w))
      (if \<not> ls_ok (ListDirectory host d w) \<and> ls_error (ListDirectory host d w) \<noteq> ListError_kMissing
       then Warn report (''the directory '' @ d @ '' could not be swept whole: '' @ ls_message (ListDirectory host d w))
       else report) w = (r1, w1)" by fastforce
  have leaves: "list_all (\<lambda>e. CHR ''/'' \<notin> set (en_name e)) (ls_entries (ListDirectory host d w))"
    using assms(1) by (simp add: console_card_def)
  have "keeps b q f (card w1) (card w')" using Cons 1 by (simp add: Let_def)
  moreover have "keeps b q f (card w) (card w1)"
    using sweep_entries_keeps [OF assms(1, 2) _ assms(3) leaves 1] Cons.prems(1) by simp
  ultimately show ?case using keeps_trans by blast
qed simp

text \<open>C14: The sweep loses nothing of a save of the console's card, whose rename never replaces a file, whatever
  the card refuses and whenever: what was there of the save under its name, or parked under the previous
  one by an interrupted commit, can be recovered in every state the sweep passes through.  The card
  resolves paths the way \<open>ResolveOnCard\<close> does and lists leaf names; the save is a file under a name the
  sweep does not take for a leftover, not one of the directories swept.\<close>

theorem the_sweep_loses_no_save:
  assumes "console_card host mount" "file_beside host directories q" "save_name q"
    "\<not> rename_replaces (card w)" "recoverable q (files (card w)) = Some f"
    "RecoverStaging host directories w = (report, w')"
  shows "recoverable q (files (card w')) = Some f \<and>
    (\<forall>fs \<in> set (seen (card w')). fs \<in> set (seen (card w)) \<or> recoverable q fs = Some f)"
proof -
  have "keeps True q f (card w) (card w')"
    by (rule sweep_directories_keeps [OF assms(1-3) subset_refl assms(6) [unfolded RecoverStaging_def]])
  then have "leaves (held True q f) (card w) (card w')" using assms(4, 5) by (simp add: keeps_def held_def)
  then show ?thesis using leaves_files [of "held True q f"] leaves_seen [of "held True q f"] by (auto simp: held_def)
qed

section \<open>A parked save comes back\<close>

lemma healthy_sweep:
  assumes "sweep_entry host d n report w = (report', w')" "answers (card w) = []"
  shows "answers (card w') = []"
proof -
  have out: "card v' = snd (g (card v))" if "on_card_do g v = (x, v')" for g :: "Card \<Rightarrow> bool \<times> Card" and x v v'
    using on_card_do_card [OF that] by simp
  have h: "answers (snd (Discard p c)) = []" "answers (snd (Exists p c)) = []" "answers (snd (Rename p q c)) = []"
    if "answers c = []" for p q c
    using that by (simp_all add: Discard_def RemoveFile_def Remove_def next_answer_def leave_def Exists_def Rename_def Let_def)
  have d: "on_card_do (Discard p) v = (x, v') \<Longrightarrow> answers (card v) = [] \<Longrightarrow> answers (card v') = []"
    and e: "on_card_do (Exists p) v = (x, v') \<Longrightarrow> answers (card v) = [] \<Longrightarrow> answers (card v') = []"
    and r: "on_card_do (Rename p q) v = (x, v') \<Longrightarrow> answers (card v) = [] \<Longrightarrow> answers (card v') = []" for p q x v v'
    using out h by metis+
  show ?thesis
    using assms unfolding sweep_entry_def Let_def
    by (auto split: if_splits prod.splits dest!: d e r)
qed

lemma sweep_parked:
  assumes names: "Resolve host (d @ ''/'' @ n) = q" "Resolve host (d @ ''/'' @ n @ ''.old'') = PreviousPathFor q" "q \<noteq> []"
    and n: "n \<noteq> []" and "answers (card w) = []"
    and run: "sweep_entry host d (n @ ''.old'') report w = (report', w')"
    and saved: "recoverable q (files (card w)) = Some f"
  shows "files (card w') q = Some f"
proof -
  have no: "\<not> EndsWith (n @ ''.old'') (TempSuffix @ PartialSuffix)" "\<not> EndsWith (n @ ''.old'') TempSuffix"
    "\<not> \<not> EndsWith (n @ ''.old'') PreviousSuffix" using n by (auto simp: EndsWith_iff suffixes)
  have base: "take (length (d @ ''/'' @ n @ ''.old'') - length PreviousSuffix) (d @ ''/'' @ n @ ''.old'') = d @ ''/'' @ n"
    by (simp add: suffixes)
  have p: "PreviousPathFor q \<noteq> []" by (simp add: PreviousPathFor_def)
  have e: "on_card_do (Exists q) w = (files (card w) q \<noteq> None, w)"
    by (simp add: on_card_do_def Exists_def next_answer_def assms(5))
  note run = run [unfolded sweep_entry_def Let_def names(2) if_not_P [OF p] if_not_P [OF no(1)]
      if_not_P [OF no(2)] if_not_P [OF no(3)] base names(1) if_not_P [OF names(3)] e prod.case]
  show ?thesis
  proof (cases "files (card w) q")
    case None
    then have f: "files (card w) (PreviousPathFor q) = Some f" using saved by (simp add: recoverable_def)
    then have rn: "on_card_do (Rename (PreviousPathFor q) q) w =
        (True, w\<lparr>card := leave ((files (card w))(PreviousPathFor q := None, q := Some f)) (card w)\<rparr>)"
      using None by (simp add: on_card_do_def Rename_def next_answer_def assms(5))
    have "\<not> files (card w) q \<noteq> None" using None by simp
    note run [unfolded if_not_P [OF this] rn prod.case]
    then show ?thesis by (auto simp: leave_def PreviousPathFor_def)
  next
    case (Some g)
    then have "files (card w) q \<noteq> None" by simp
    note run [unfolded if_P [OF this]]
    with Some saved show ?thesis by (simp add: recoverable_def)
  qed
qed

text \<open>A save an interrupted commit had parked is under its own name again after the sweep of its directory:
  on a card that answers, with the previous name among the entries listed, what could be recovered of
  it is what is there.\<close>

theorem a_parked_save_comes_back:
  assumes cc: "console_card host mount" and q: "q = Resolve host (directory @ ''/'' @ name)" "q \<noteq> []"
    and name: "name \<noteq> []" "name \<noteq> ''.''" "save_name q" "q \<noteq> Resolve host directory"
    and healthy: "answers (card w) = []" "\<not> rename_replaces (card w)"
    and saved: "recoverable q (files (card w)) = Some f"
    and listed: "e \<in> set (ls_entries (ListDirectory host directory w))" "\<not> en_is_directory e" "en_name e = name @ ''.old''"
    and run: "RecoverStaging host [directory] w = (report, w')"
  shows "files (card w') q = Some f"
proof -
  have all: "list_all (\<lambda>e. CHR ''/'' \<notin> set (en_name e)) (ls_entries (ListDirectory host directory w))"
    using cc by (simp add: console_card_def)
  with listed have slash: "CHR ''/'' \<notin> set name" "CHR ''/'' \<notin> set (name @ ''.old'')" by (auto simp: list_all_iff)
  have fb: "file_beside host [directory] q" using q(1) name(4) by (auto simp: file_beside_def)
  have qn: "q = Resolve host directory @ ''/'' @ name" "Resolve host directory \<noteq> []"
    using console_card_under [OF cc slash(1), of directory] q name(1, 2) by (auto simp: pushed_def)
  have prev: "Resolve host (directory @ ''/'' @ name @ ''.old'') = PreviousPathFor q"
  proof -
    have "mount \<noteq> []" and r: "\<And>p. Resolve host p = ResolveOnCard mount p" using cc by (auto simp: console_card_def)
    from ResolveOnCard_under [OF this(1) slash(1), of directory] q(2)
    have "CHR 0x00 \<notin> set (name @ ''.old'')" unfolding q(1) r by (auto split: if_splits)
    moreover have "name @ ''.old'' \<noteq> ''..''" "name @ ''.old'' \<noteq> ''.''" using name(1) by (cases name; auto)+
    ultimately have "ResolveOnCard mount (directory @ ''/'' @ name @ ''.old'') =
        ResolveOnCard mount directory @ ''/'' @ name @ ''.old''"
      using ResolveOnCard_under [OF \<open>mount \<noteq> []\<close> slash(2), of directory] qn(2) unfolding r
      by (simp add: leaf_under_def pushed_def)
    with qn(1) show ?thesis by (simp add: r PreviousPathFor_def)
  qed
  note keep = sweep_entry_keeps [OF cc _ fb _ _ name(3), of _ directory]
    sweep_entries_keeps [OF cc fb _ name(3), of directory]
  obtain r0 where run0: "sweep_entries host directory (ls_entries (ListDirectory host directory w)) r0 w = (report, w')"
    using run by (auto simp: RecoverStaging_def Let_def split: prod.splits)
  have "sweep_entries host directory es r v = (r', v') \<Longrightarrow> list_all (\<lambda>e. CHR ''/'' \<notin> set (en_name e)) es \<Longrightarrow>
      answers (card v) = [] \<Longrightarrow> \<not> rename_replaces (card v) \<Longrightarrow>
      recoverable q (files (card v)) = Some f \<Longrightarrow> e \<in> set es \<Longrightarrow> files (card v') q = Some f" for es r v r' v'
  proof (induction es arbitrary: r v)
    case (Cons x es)
    obtain r1 v1 where 1: "(if en_is_directory x then (r, v) else sweep_entry host directory (en_name x) r v) = (r1, v1)"
      by fastforce
    have rest: "sweep_entries host directory es r1 v1 = (r', v')" using Cons.prems(1) 1 by simp
    have h1: "answers (card v1) = []" using 1 healthy_sweep Cons.prems(3) by (auto split: if_splits)
    have k: "keeps True q f (card v) (card v1)"
      using 1 keep(1) [of "en_name x"] Cons.prems(2) by (auto split: if_splits)
    then have r1: "\<not> rename_replaces (card v1)" "recoverable q (files (card v1)) = Some f"
      using Cons.prems(4, 5) by (auto simp: keeps_def held_def dest: leaves_files)
    show ?case
    proof (cases "x = e")
      case True
      then have "files (card v1) q = Some f"
        using sweep_parked [OF q(1) [symmetric] prev q(2) name(1) Cons.prems(3) _ Cons.prems(5)] 1 listed(2, 3) by simp
      moreover have "keeps False q f (card v1) (card v')" using keep(2) [OF _ _ rest] Cons.prems(2) by simp
      ultimately show ?thesis using r1 by (auto simp: keeps_def held_def dest: leaves_files)
    next
      case False
      with Cons.IH [OF rest _ h1 r1] Cons.prems(2, 6) show ?thesis by simp
    qed
  qed simp
  from this [OF run0 all healthy saved listed(1)] show ?thesis .
qed

section \<open>Witnesses\<close>

definition parked_host :: "HttpResult list Host" where
  "parked_host = list_host\<lparr>Resolve := ResolveOnCard ''sdmc:'', ListDirectory := \<lambda>_ _. no_listing\<lparr>ls_entries :=
     [\<lparr>en_name = ''b.tmp'', en_is_directory = False, en_size_bytes = 1, en_modified_unix = 1\<rparr>,
      \<lparr>en_name = ''a.old'', en_is_directory = False, en_size_bytes = 3, en_modified_unix = 1\<rparr>]\<rparr>\<rparr>"

definition parked_world :: "HttpResult list World" where
  "parked_world = \<lparr>card = sample_card\<lparr>files := [''sdmc:/s/a.old'' \<mapsto> \<lparr>data = ''old'', on_card = True\<rparr>,
     ''sdmc:/s/b.tmp'' \<mapsto> \<lparr>data = ''x'', on_card = False\<rparr>], answers := []\<rparr>, net = []\<rparr>"

lemma parked_names: "Resolve parked_host ''/s'' = ''sdmc:/s''" "Resolve parked_host ''/s/a'' = ''sdmc:/s/a''"
  by (simp_all add: parked_host_def ResolveOnCard_def resolve_segments.simps)

lemma parked_facts: "console_card parked_host ''sdmc:''" "file_beside parked_host [''/s''] ''sdmc:/s/a''"
    "save_name ''sdmc:/s/a''" "\<not> rename_replaces (card parked_world)"
    "recoverable ''sdmc:/s/a'' (files (card parked_world)) = Some \<lparr>data = ''old'', on_card = True\<rparr>"
proof -
  show "file_beside parked_host [''/s''] ''sdmc:/s/a''"
    using parked_names by (simp add: file_beside_def) (metis rangeI)
qed (simp_all add: console_card_def parked_host_def list_host_def parked_world_def sample_card_def save_name_def
    suffixes EndsWith_def recoverable_def PreviousPathFor_def)

theorem the_sweep_loses_no_save_witness:
  "recoverable ''sdmc:/s/a'' (files (card (snd (RecoverStaging parked_host [''/s''] parked_world)))) =
     Some \<lparr>data = ''old'', on_card = True\<rparr>"
  using the_sweep_loses_no_save [OF parked_facts surjective_pairing] by blast

theorem a_parked_save_comes_back_witness:
  "files (card (snd (RecoverStaging parked_host [''/s''] parked_world))) ''sdmc:/s/a'' =
     Some \<lparr>data = ''old'', on_card = True\<rparr>"
  using a_parked_save_comes_back [OF parked_facts(1), of "''sdmc:/s/a''" "''/s''" "''a''" parked_world _
      "\<lparr>en_name = ''a.old'', en_is_directory = False, en_size_bytes = 3, en_modified_unix = 1\<rparr>",
      OF _ _ _ _ parked_facts(3) _ _ parked_facts(4, 5) _ _ _ surjective_pairing] parked_names
  by (simp add: parked_host_def parked_world_def)

end
