(* ===== verification/SyncResolve.thy ===== *)
theory SyncResolve
  imports SyncFinish
begin

text \<open>
  \<open>core/src/sync_resolve.cpp\<close>: the uploads the slot guard of the server refused are asked about
  again, once a plan, and what comes back takes their place in the plan and in its report.
\<close>

section \<open>The rule\<close>

definition kSlotNewerDetail :: bytes where
  "kSlotNewerDetail = ''Slot has a newer save since your last sync''"

definition kMaxResolvedUploads :: nat where "kMaxResolvedUploads = 4"

text \<open>The local bytes are the ones the server held when both sides last agreed.\<close>

definition unchanged_since :: "ClientSaveState option \<Rightarrow> SaveRecord option \<Rightarrow> bool" where
  "unchanged_since local last_synced \<longleftrightarrow>
     (case (local, last_synced) of
        (Some save, Some row) \<Rightarrow>
          (case (cs_content_hash save, sv_server_content_hash row) of
             (Some h, Some agreed) \<Rightarrow> IsContentHash h \<and> h = agreed
           | _ \<Rightarrow> False)
      | _ \<Rightarrow> False)"

definition ResolveNewerOnServer ::
  "SyncOperation \<Rightarrow> ClientSaveState option \<Rightarrow> SaveRecord option \<Rightarrow> SyncOperation option" where
  "ResolveNewerOnServer head local last_synced =
     (if \<not> op_known_action head then None
      else if op_action head = kNoOp then Some head
      else if op_action head = kDelete then None
      else if op_save_id head = None then None
      else
        let action = (if op_action head \<noteq> kConflict \<and> unchanged_since local last_synced
              then kDownload else kConflict);
            resolved = (if op_action head \<noteq> action
              then head\<lparr>op_reason := kUnrecognized, op_reason_text := kSlotNewerDetail\<rparr> else head)
        in Some (resolved\<lparr>op_action := action, op_action_text := Action_ToString action\<rparr>))"

section \<open>What it says\<close>

record ResolveReport =
  rp_refused :: nat
  rp_held :: bool
  rp_renegotiated :: bool
  rp_negotiate_error :: NegotiateError
  rp_negotiate_message :: bytes
  rp_resolved :: nat
  rp_second_session :: Completion

definition no_resolution :: ResolveReport where
  "no_resolution = \<lparr>rp_refused = 0, rp_held = False, rp_renegotiated = False,
     rp_negotiate_error = NegotiateError_kNone, rp_negotiate_message = [], rp_resolved = 0,
     rp_second_session = complete_refuse Complete_kNone []\<rparr>"

definition Accumulate :: "ResolveReport \<Rightarrow> ResolveReport \<Rightarrow> ResolveReport" where
  "Accumulate tick run =
     (let tick = tick\<lparr>rp_refused := rp_refused tick + rp_refused run,
            rp_resolved := rp_resolved tick + rp_resolved run, rp_held := rp_held tick \<or> rp_held run\<rparr>;
          tick = (if rp_negotiate_error tick = NegotiateError_kNone
            then tick\<lparr>rp_negotiate_error := rp_negotiate_error run,
              rp_negotiate_message := rp_negotiate_message run\<rparr>
            else tick);
          tick = (if rp_renegotiated run \<and> (\<not> rp_renegotiated tick \<or> co_ok (rp_second_session tick))
            then tick\<lparr>rp_second_session := rp_second_session run\<rparr> else tick)
      in tick\<lparr>rp_renegotiated := rp_renegotiated tick \<or> rp_renegotiated run\<rparr>)"

section \<open>Lines taken out\<close>

definition renamed_line :: "int \<Rightarrow> OperationResult \<Rightarrow> OperationResult" where
  "renamed_line line r =
     (if or_warning r = line then r\<lparr>or_warning := kNoWarning\<rparr>
      else if or_warning r > line then r\<lparr>or_warning := or_warning r - 1\<rparr> else r)"

definition drop_warning :: "int \<Rightarrow> ExecutionReport \<Rightarrow> ExecutionReport" where
  "drop_warning line report =
     (if line < 0 \<or> nat line \<ge> length (er_warnings report) then report
      else report\<lparr>er_warnings := take (nat line) (er_warnings report) @ drop (nat line + 1) (er_warnings report),
             er_operations := map (renamed_line line) (er_operations report)\<rparr>)"

definition DropWarnings :: "int list \<Rightarrow> ExecutionReport \<Rightarrow> ExecutionReport" where
  "DropWarnings lines report = fold drop_warning (remdups (rev (sort lines))) report"

section \<open>The uploads that were refused\<close>

type_synonym refusals = "nat list \<times> ClientSaveState list \<times> int list"

text \<open>One result of the report: the positions refused, the saves to ask about, their roms.\<close>

definition ask_about :: "ClientSaveState list \<Rightarrow> nat \<times> OperationResult \<Rightarrow> refusals \<Rightarrow> refusals" where
  "ask_about reported at_result s =
     (let (index, result) = at_result; (refused, asked, rom_ids) = s in
      if or_error result \<noteq> Op_kNewerOnServer then s
      else
        let refused = refused @ [index];
            new_rom = (or_rom_id result \<notin> set rom_ids);
            key = result_key result;
            asked_already = (FindByKey state_key asked key \<noteq> None)
        in case FindByKey state_key reported key of
             None \<Rightarrow> (refused, asked, rom_ids)
           | Some save \<Rightarrow>
               if new_rom \<and> length rom_ids \<ge> kMaxNegotiateRomIds \<or>
                 \<not> asked_already \<and> length asked \<ge> kMaxResolvedUploads
               then (refused, asked, rom_ids)
               else (refused, if asked_already then asked else asked @ [save],
                 if new_rom then rom_ids @ [or_rom_id result] else rom_ids))"

definition refusals_of :: "ClientSaveState list \<Rightarrow> SyncPlan \<Rightarrow> ExecutionReport \<Rightarrow> refusals" where
  "refusals_of reported plan executed =
     fold (ask_about reported)
       (enumerate 0 (take (length (plan_operations plan)) (er_operations executed))) ([], [], [])"

text \<open>The first head for each save asked about, and nothing else of the answer.\<close>

definition heads_only :: "ClientSaveState list \<Rightarrow> OperationFilter" where
  "heads_only asked before op \<longleftrightarrow>
     FindByKey state_key asked (op_key op) \<noteq> None \<and> FindByKey op_key before (op_key op) = None"

text \<open>What one refused position becomes.\<close>

definition resolve_at ::
  "ClientSaveState list \<Rightarrow> SaveTarget list \<Rightarrow> Baseline \<Rightarrow> ExecutionReport \<Rightarrow> ClientSaveState list \<Rightarrow>
     SyncOperation list \<Rightarrow> nat \<Rightarrow> (nat \<times> SyncOperation) option" where
  "resolve_at reported targets previous executed asked heads index =
     (let key = result_key (er_operations executed ! index) in
      case FindByKey op_key heads key of
        None \<Rightarrow> None
      | Some head \<Rightarrow>
          if FindByKey state_key asked key = None \<or> MatchTarget targets head = None then None
          else map_option (Pair index)
            (ResolveNewerOnServer head (FindByKey state_key reported key) (Baseline_Find key previous)))"

section \<open>The merge\<close>

type_synonym tried = "((nat \<times> SyncOperation) \<times> OperationResult) list"

definition attempted :: "tried \<Rightarrow> tried" where
  "attempted = filter (\<lambda>(_, r). or_outcome r \<noteq> Outcome_kCanceled)"

definition merge_at ::
  "int \<Rightarrow> (nat \<times> SyncOperation) \<times> OperationResult \<Rightarrow> SyncPlan \<times> ExecutionReport \<Rightarrow> SyncPlan \<times> ExecutionReport" where
  "merge_at moved one s =
     (let ((index, op), result) = one; (plan, executed) = s;
          result = (if or_warning result \<noteq> kNoWarning
            then result\<lparr>or_warning := or_warning result + moved\<rparr> else result)
      in (plan\<lparr>plan_operations := (plan_operations plan)[index := op]\<rparr>,
          executed\<lparr>er_operations := (er_operations executed)[index := result]\<rparr>))"

definition merge_run ::
  "(nat \<times> SyncOperation) list \<Rightarrow> ExecutionReport \<Rightarrow> SyncPlan \<Rightarrow> ExecutionReport \<Rightarrow>
     nat \<times> SyncPlan \<times> ExecutionReport" where
  "merge_run run results plan executed =
     (let these = attempted (zip run (er_operations results));
          executed = DropWarnings (map (\<lambda>((index, _), _). or_warning (er_operations executed ! index)) these) executed;
          moved = int (length (er_warnings executed));
          (plan, executed) = fold (merge_at moved) these (plan, executed);
          executed = executed\<lparr>er_warnings := er_warnings executed @ er_warnings results,
            er_declines := er_declines executed @ er_declines results,
            er_canceled := er_canceled executed \<or> er_canceled results,
            er_unauthorized := er_unauthorized executed \<or> er_unauthorized results\<rparr>
      in (length these, plan, Recount executed))"

record 'n ResolveOptions =
  rs_rom_ids :: bool
  rs_hold :: "('n World \<Rightarrow> bool \<times> 'n World) option"
  rs_negotiate :: NegotiateOptions
  rs_execute :: "'n ExecuteOptions"
  rs_complete :: CompleteOptions

definition asks_hold :: "'n ResolveOptions \<Rightarrow> 'n World \<Rightarrow> bool \<times> 'n World" where
  "asks_hold options w = (case rs_hold options of None \<Rightarrow> (False, w) | Some hold \<Rightarrow> hold w)"

definition negotiate_again ::
  "'n Host \<Rightarrow> StoredToken \<Rightarrow> ClientSaveState list \<Rightarrow> int list \<Rightarrow> 'n ResolveOptions \<Rightarrow> 'n World \<Rightarrow>
     Negotiation \<times> 'n World" where
  "negotiate_again host token asked rom_ids options w =
     (let unfiltered = (rs_negotiate options)\<lparr>np_emulators := None, np_keep := Some (heads_only asked)\<rparr> in
      if rs_rom_ids options then NegotiateRoms host token asked rom_ids unfiltered w
      else Negotiate host token asked unfiltered w)"

text \<open>The report, \<open>*plan\<close>, \<open>*executed\<close> and the table of declined operations.\<close>

definition ResolveRefusedUploads ::
  "'n Host \<Rightarrow> StoredToken \<Rightarrow> ClientSaveState list \<Rightarrow> SaveTarget list \<Rightarrow> Baseline \<Rightarrow> SyncPlan \<Rightarrow>
     ExecutionReport \<Rightarrow> 'n ResolveOptions \<Rightarrow> Declines option \<Rightarrow> 'n World \<Rightarrow>
     (ResolveReport \<times> SyncPlan \<times> ExecutionReport \<times> Declines option) \<times> 'n World" where
  "ResolveRefusedUploads host token reported targets previous plan executed options declines w =
     (if er_canceled executed \<or> er_unauthorized executed then ((no_resolution, plan, executed, declines), w)
      else
        let (refused, asked, rom_ids) = refusals_of reported plan executed;
            out = no_resolution\<lparr>rp_refused := length refused\<rparr>
        in
        if asked = [] then ((out, plan, executed, declines), w)
        else
          let (held, w) = asks_hold options w in
          if held then ((out\<lparr>rp_held := True\<rparr>, plan, executed, declines), w)
          else
            let (second, w) = negotiate_again host token asked rom_ids options w;
                out = out\<lparr>rp_renegotiated := True, rp_negotiate_error := neg_error second,
                  rp_negotiate_message := neg_message second\<rparr>
            in
            if \<not> neg_ok second
            then ((out, plan, executed\<lparr>er_warnings := er_warnings executed @
              [''the uploads the slot guard refused could not be resolved this tick: negotiate: '' @
               NegotiateError_ToString (neg_error second) @ ''; '' @ neg_message second]\<rparr>, declines), w)
            else
              let run = List.map_filter (resolve_at reported targets previous executed asked
                    (plan_operations (neg_plan second))) refused;
                  session = plan_session_id (neg_plan second);
                  ((results, declines), w) = ExecutePlan host token
                    (empty_plan\<lparr>plan_session_id := session, plan_operations := map snd run\<rparr>)
                    targets (rs_execute options) declines w;
                  (resolved, plan, executed) = merge_run run results plan executed;
                  (closed, w) = CompleteSession host token session (CountsFor results) [] (rs_complete options) w
              in ((out\<lparr>rp_resolved := resolved, rp_second_session := closed\<rparr>, plan, executed, declines), w))"

section \<open>Lines and their operations\<close>

text \<open>A result and the same result on another line.\<close>

definition same_but_line :: "OperationResult \<Rightarrow> OperationResult \<Rightarrow> bool" where
  "same_but_line r r' \<longleftrightarrow> r' = r\<lparr>or_warning := or_warning r'\<rparr>"

lemma same_but_line_refl [simp]: "same_but_line r r"
  by (simp add: same_but_line_def)

lemma same_but_line_update [simp]: "same_but_line r (r\<lparr>or_warning := n\<rparr>)"
  by (simp add: same_but_line_def)

lemma same_but_line_trans: "same_but_line a b \<Longrightarrow> same_but_line b c \<Longrightarrow> same_but_line a c"
  by (cases a; cases b; cases c) (simp add: same_but_line_def)

lemma same_but_line_fields:
  "same_but_line r r' \<Longrightarrow> or_action r' = or_action r \<and> or_rom_id r' = or_rom_id r \<and> or_slot r' = or_slot r \<and>
     or_outcome r' = or_outcome r \<and> or_error r' = or_error r \<and> or_message r' = or_message r"
  by (cases r; cases r') (simp add: same_but_line_def)

lemma renamed_line_same [simp]: "same_but_line r (renamed_line line r)"
  by (simp add: renamed_line_def)

lemma warned_line: "warned_of ws r \<Longrightarrow> or_warning r = kNoWarning \<or> (0 \<le> or_warning r \<and> nat (or_warning r) < length ws)"
  by (auto simp: warned_of_def split: if_splits)

lemma renamed_line_warned:
  assumes "warned_of ws r" "or_warning r \<noteq> line" "0 \<le> line" "nat line < length ws"
  shows "warned_of (take (nat line) ws @ drop (nat line + 1) ws) (renamed_line line r)"
proof (cases "or_outcome r = Outcome_kFailed \<or> or_outcome r = Outcome_kNotUnderstood")
  case False
  with assms(1) have "or_warning r = kNoWarning" by (auto simp: warned_of_def)
  with assms(2, 3) False show ?thesis by (simp add: renamed_line_def warned_of_def kNoWarning_def)
next
  case True
  with assms(1) obtain n where n: "n < length ws" "or_warning r = int n" "ws ! n = or_message r"
    by (auto simp: warned_of_def)
  show ?thesis
  proof (cases "n < nat line")
    case before: True
    with n assms have "renamed_line line r = r" by (auto simp: renamed_line_def)
    with True n before assms(4) show ?thesis by (auto simp: warned_of_def nth_append intro!: exI [of _ n])
  next
    case False
    with n assms have "n > nat line" "renamed_line line r = r\<lparr>or_warning := int (n - 1)\<rparr>"
      by (auto simp: renamed_line_def)
    with True n assms(4) show ?thesis by (auto simp: warned_of_def nth_append intro!: exI [of _ "n - 1"])
  qed
qed

text \<open>What one line taken out does to each result.\<close>

definition line_gone :: "int set \<Rightarrow> bytes list \<Rightarrow> bytes list \<Rightarrow> OperationResult \<Rightarrow> OperationResult \<Rightarrow> bool" where
  "line_gone lines ws ws' r r' \<longleftrightarrow>
     same_but_line r r' \<and> (warned_of ws r \<and> or_warning r \<notin> lines \<longrightarrow> warned_of ws' r')"

lemma drop_warnings_gone:
  "sorted_wrt (>) lines \<Longrightarrow> list_all2 (line_gone (set lines - {kNoWarning}) (er_warnings report) (er_warnings (fold drop_warning lines report)))
     (er_operations report) (er_operations (fold drop_warning lines report))"
proof (induction lines arbitrary: report)
  case Nil
  show ?case by (simp add: line_gone_def list_all2_same)
next
  case (Cons line lines)
  let ?one = "drop_warning line report"
  have step: "list_all2 (\<lambda>r r1. same_but_line r r1 \<and> (warned_of (er_warnings report) r \<and> or_warning r \<notin> set (line # lines) - {kNoWarning} \<longrightarrow>
      warned_of (er_warnings ?one) r1 \<and> or_warning r1 \<notin> set lines - {kNoWarning})) (er_operations report) (er_operations ?one)"
  proof (cases "line < 0 \<or> nat line \<ge> length (er_warnings report)")
    case True
    then show ?thesis by (auto simp: drop_warning_def list_all2_same)
  next
    case False
    have "or_warning (renamed_line line r) \<notin> set lines - {kNoWarning}"
      if "or_warning r \<notin> set (line # lines) - {kNoWarning}" for r
    proof
      assume "or_warning (renamed_line line r) \<in> set lines - {kNoWarning}"
      moreover from this Cons.prems have "or_warning (renamed_line line r) < line" by simp
      ultimately show False using that False by (auto simp: renamed_line_def kNoWarning_def split: if_splits)
    qed
    moreover have "warned_of (er_warnings ?one) (renamed_line line r)"
      if "warned_of (er_warnings report) r" "or_warning r \<noteq> line" for r
      using renamed_line_warned [OF that] False by (simp add: drop_warning_def)
    moreover have "line \<noteq> kNoWarning" using False by (simp add: kNoWarning_def)
    ultimately show ?thesis using False
      by (auto simp: drop_warning_def list_all2_map2 list_all2_same)
  qed
  have rest: "list_all2 (line_gone (set lines - {kNoWarning}) (er_warnings ?one) (er_warnings (fold drop_warning lines ?one)))
      (er_operations ?one) (er_operations (fold drop_warning lines ?one))"
    using Cons by simp
  show ?case
    by (simp, rule list_all2_trans [OF _ step rest])
      (auto simp: line_gone_def intro: same_but_line_trans)
qed

lemma remdups_descending: "sorted_wrt (\<ge>) (xs :: int list) \<Longrightarrow> sorted_wrt (>) (remdups xs)"
  by (induction xs) (auto simp: order.order_iff_strict)

lemma DropWarnings_gone:
  "list_all2 (line_gone (set lines - {kNoWarning}) (er_warnings report) (er_warnings (DropWarnings lines report)))
     (er_operations report) (er_operations (DropWarnings lines report))"
proof -
  have "sorted_wrt (\<ge>) (rev (sort lines))" by (simp add: sorted_wrt_rev)
  from drop_warnings_gone [OF remdups_descending [OF this], of report]
  show ?thesis by (simp add: DropWarnings_def)
qed

end
