(* ===== verification/ResolveFacts.thy ===== *)
theory ResolveFacts
  imports SyncResolve
begin

text \<open>
  What resolving the refused uploads keeps: the plan and its report still answer each other, position
  by position and line by line, and only what the slot guard refused is replaced.
\<close>

section \<open>Every line has one operation\<close>

definition own_lines :: "OperationResult list \<Rightarrow> bool" where
  "own_lines rs \<longleftrightarrow> distinct (filter (\<lambda>l. l \<noteq> kNoWarning) (map or_warning rs))"

lemma note_result_line:
  assumes "note_result options op result report declines = (report', declines')" "result_for op result"
    and "er_operations report' = er_operations report @ [r]"
  shows "or_warning r = kNoWarning \<or> or_warning r = int (length (er_warnings report))"
  using assms by (auto simp: note_result_def result_for_def Let_def split: prod.splits if_splits option.splits)

lemma own_lines_snoc:
  assumes "own_lines rs" "\<forall>r \<in> set rs. warned_of ws r"
    and "or_warning r = kNoWarning \<or> or_warning r = int (length ws + n)"
  shows "own_lines (rs @ [r])"
proof -
  have "int (length ws + n) \<noteq> or_warning s" if "s \<in> set rs" for s
    using assms(2) that warned_line [of ws s] by (auto simp: kNoWarning_def)
  with assms(1, 3) show ?thesis by (force simp: own_lines_def)
qed

lemma own_lines_nth:
  assumes "own_lines rs" "i < length rs" "j < length rs" "or_warning (rs ! i) \<noteq> kNoWarning"
    and "or_warning (rs ! i) = or_warning (rs ! j)"
  shows "i = j"
  using assms
proof (induction rs arbitrary: i j)
  case (Cons r rs)
  have new: "or_warning r \<noteq> or_warning (rs ! k)" if "k < length rs" "or_warning r \<noteq> kNoWarning" for k
    using Cons.prems(1) that by (auto simp: own_lines_def)
  have own: "own_lines rs" using Cons.prems(1) by (auto simp: own_lines_def split: if_splits)
  show ?case
    using Cons.IH [OF own] Cons.prems(2-5) new new [symmetric]
    by (cases i; cases j) (auto simp del: nth_mem)
qed simp

lemma execute_loop_lines:
  assumes "execute_loop host token plan targets options ops report declines w = ((report', declines'), w')"
    and "\<forall>r \<in> set (er_operations report). warned_of (er_warnings report) r" "own_lines (er_operations report)"
  shows "own_lines (er_operations report')"
  using assms
proof (induction ops arbitrary: report declines w)
  case Nil
  then show ?case by simp
next
  case (Cons op ops)
  obtain stop w1 where c: "canceled host w = (stop, w1)" by fastforce
  show ?case
  proof (cases stop)
    case True
    with Cons.prems c show ?thesis by auto
  next
    case False
    obtain result warned w2 where e: "ExecuteOperation host token plan targets options op w1 = ((result, warned), w2)"
      by (metis surj_pair)
    let ?noted = "report\<lparr>er_warnings := er_warnings report @ warned\<rparr>"
    obtain report1 declines1 where n: "note_result options op result ?noted declines = (report1, declines1)" by fastforce
    have for_op: "result_for op result" using ExecuteOperation_for [of op host token plan targets options w1] e by simp
    from note_result_report [OF n this] obtain r where r: "er_operations report1 = er_operations report @ [r]"
      "\<exists>vs. er_warnings report1 = er_warnings report @ warned @ vs" "warned_of (er_warnings report1) r" by auto
    have warned: "\<forall>r \<in> set (er_operations report1). warned_of (er_warnings report1) r"
      using Cons.prems(2) r warned_of_append by auto
    have own: "own_lines (er_operations report1)"
      using own_lines_snoc [OF Cons.prems(3, 2)] note_result_line [OF n for_op, of r] r(1) by simp
    have "report' = report1 \<or>
        execute_loop host token plan targets options ops report1 declines1 w2 = ((report', declines'), w')"
      using Cons.prems(1) c False e n by (auto split: if_splits)
    with Cons.IH [OF _ warned own] own show ?thesis by blast
  qed
qed

lemma ExecutePlan_report:
  assumes "ExecutePlan host token plan targets options declines w = ((report, declines'), w')"
  shows "list_all2 answers_op (take (length (er_operations report)) (plan_operations plan)) (er_operations report)"
    "length (er_operations report) \<le> length (plan_operations plan)"
    "\<forall>r \<in> set (er_operations report). warned_of (er_warnings report) r"
    "own_lines (er_operations report)"
proof -
  obtain report1 where e: "execute_loop host token plan targets options (plan_operations plan) empty_report declines w =
      ((report1, declines'), w')" and r: "report = Recount report1"
    using assms by (auto simp: ExecutePlan_def Let_def split: prod.splits)
  from execute_loop_report [OF e] show "list_all2 answers_op (take (length (er_operations report)) (plan_operations plan))
      (er_operations report)" "length (er_operations report) \<le> length (plan_operations plan)"
    "\<forall>r \<in> set (er_operations report). warned_of (er_warnings report) r"
    by (auto simp: empty_report_def r)
  from execute_loop_lines [OF e] show "own_lines (er_operations report)"
    by (simp add: r empty_report_def own_lines_def)
qed

section \<open>The positions\<close>

lemma ask_about_positions:
  "fst (fold (ask_about reported) (enumerate n rs) (refused, asked, roms)) =
     refused @ map fst (filter (\<lambda>(_, r). or_error r = Op_kNewerOnServer) (enumerate n rs))"
proof (induction rs arbitrary: n refused asked roms)
  case (Cons r rs)
  obtain refused' asked' roms' where s: "ask_about reported (n, r) (refused, asked, roms) = (refused', asked', roms')"
    by (metis surj_pair)
  then have "refused' = refused @ (if or_error r = Op_kNewerOnServer then [n] else [])"
    by (auto simp: ask_about_def Let_def split: if_splits option.splits)
  with Cons.IH [of "Suc n" refused' asked' roms'] s show ?case by simp
qed simp

lemma refusals_of_positions:
  assumes "refusals_of reported plan executed = (refused, asked, roms)"
  shows "distinct refused" "i \<in> set refused \<Longrightarrow> i < length (er_operations executed) \<and>
     i < length (plan_operations plan) \<and> or_error (er_operations executed ! i) = Op_kNewerOnServer"
proof -
  have r: "refused = map fst (filter (\<lambda>(_, r). or_error r = Op_kNewerOnServer)
      (enumerate 0 (take (length (plan_operations plan)) (er_operations executed))))"
    using assms ask_about_positions [of reported 0 _ "[]" "[]" "[]"] unfolding refusals_of_def
    by (metis append_Nil fst_conv)
  show "distinct refused" unfolding r by (simp add: distinct_map_filter)
  show "i < length (er_operations executed) \<and> i < length (plan_operations plan) \<and>
      or_error (er_operations executed ! i) = Op_kNewerOnServer" if "i \<in> set refused"
    using that unfolding r by (auto simp: in_set_enumerate_eq)
qed

section \<open>The merge\<close>

definition on_line :: "int \<Rightarrow> OperationResult \<Rightarrow> OperationResult" where
  "on_line moved r = (if or_warning r \<noteq> kNoWarning then r\<lparr>or_warning := or_warning r + moved\<rparr> else r)"

lemma on_line_same [simp]: "same_but_line r (on_line moved r)"
  by (simp add: on_line_def)

lemma on_line_warned: "warned_of vs r \<Longrightarrow> warned_of (ws @ vs) (on_line (int (length ws)) r)"
proof (cases "or_outcome r = Outcome_kFailed \<or> or_outcome r = Outcome_kNotUnderstood")
  case True
  moreover assume "warned_of vs r"
  ultimately obtain n where "n < length vs" "or_warning r = int n" "vs ! n = or_message r"
    by (auto simp: warned_of_def)
  with True show ?thesis
    by (auto simp: warned_of_def on_line_def kNoWarning_def nth_append intro!: exI [of _ "n + length ws"])
qed (auto simp: warned_of_def on_line_def)

lemma merge_at_eq: "merge_at moved ((i, op), r) (plan, executed) =
    (plan\<lparr>plan_operations := (plan_operations plan)[i := op]\<rparr>,
     executed\<lparr>er_operations := (er_operations executed)[i := on_line moved r]\<rparr>)"
  by (simp add: merge_at_def on_line_def)

text \<open>Where a list of positions is set once each.\<close>

definition set_once :: "int \<Rightarrow> tried \<Rightarrow> SyncPlan \<Rightarrow> ExecutionReport \<Rightarrow> SyncPlan \<Rightarrow> ExecutionReport \<Rightarrow> bool" where
  "set_once moved these plan executed plan' executed' \<longleftrightarrow>
     (\<exists>ops rs. plan' = plan\<lparr>plan_operations := ops\<rparr> \<and> executed' = executed\<lparr>er_operations := rs\<rparr> \<and>
        length ops = length (plan_operations plan) \<and> length rs = length (er_operations executed) \<and>
        (\<forall>((i, op), r) \<in> set these. ops ! i = op \<and> rs ! i = on_line moved r) \<and>
        (\<forall>i. i \<notin> set (map (fst \<circ> fst) these) \<longrightarrow> ops ! i = plan_operations plan ! i \<and> rs ! i = er_operations executed ! i))"

lemma merge_sets_once:
  assumes "distinct (map (fst \<circ> fst) these)"
    and "\<forall>((i, _), _) \<in> set these. i < length (plan_operations plan) \<and> i < length (er_operations executed)"
    and "fold (merge_at moved) these (plan, executed) = (plan', executed')"
  shows "set_once moved these plan executed plan' executed'"
  using assms
proof (induction these arbitrary: plan executed)
  case Nil
  then show ?case
    unfolding set_once_def by (intro exI [of _ "plan_operations plan"] exI [of _ "er_operations executed"]) simp
next
  case (Cons one these)
  obtain i op r where one: "one = ((i, op), r)" by (metis surj_pair)
  let ?plan = "plan\<lparr>plan_operations := (plan_operations plan)[i := op]\<rparr>"
  let ?executed = "executed\<lparr>er_operations := (er_operations executed)[i := on_line moved r]\<rparr>"
  have "set_once moved these ?plan ?executed plan' executed'"
    using Cons by (simp add: one merge_at_eq)
  then obtain ops rs where these: "plan' = ?plan\<lparr>plan_operations := ops\<rparr>" "executed' = ?executed\<lparr>er_operations := rs\<rparr>"
    "length ops = length (plan_operations plan)" "length rs = length (er_operations executed)"
    "\<forall>((i, op), r) \<in> set these. ops ! i = op \<and> rs ! i = on_line moved r"
    "\<And>j. j \<notin> set (map (fst \<circ> fst) these) \<Longrightarrow>
       ops ! j = plan_operations ?plan ! j \<and> rs ! j = er_operations ?executed ! j"
    unfolding set_once_def by auto
  have "i \<notin> set (map (fst \<circ> fst) these)" using Cons.prems(1) one by simp
  from these(6) [OF this] Cons.prems(2) have "ops ! i = op" "rs ! i = on_line moved r" by (auto simp: one)
  moreover have "ops ! j = plan_operations plan ! j \<and> rs ! j = er_operations executed ! j"
    if "j \<noteq> i" "j \<notin> set (map (fst \<circ> fst) these)" for j
    using these(6) [OF that(2)] that(1) by simp
  ultimately show ?case
    unfolding set_once_def using these(1-5) by (intro exI [of _ ops] exI [of _ rs]) (auto simp: one)
qed

lemma attempted_from_run:
  assumes "distinct (map fst run)"
  shows "distinct (map (fst \<circ> fst) (attempted (zip run rs)))"
    "((i, op), r) \<in> set (attempted (zip run rs)) \<Longrightarrow> (i, op) \<in> set run \<and> r \<in> set rs \<and>
       (list_all2 answers_op (take (length rs) (map snd run)) rs \<longrightarrow> answers_op op r)"
proof -
  have "map (fst \<circ> fst) (zip run rs) = take (length rs) (map fst run)"
    by (induction run rs rule: list_induct2') auto
  then have "distinct (map (fst \<circ> fst) (zip run rs))" using assms by simp
  then show "distinct (map (fst \<circ> fst) (attempted (zip run rs)))"
    unfolding attempted_def by (rule distinct_map_filter)
next
  assume "((i, op), r) \<in> set (attempted (zip run rs))"
  then have m: "((i, op), r) \<in> set (zip run rs)" by (simp add: attempted_def)
  moreover have "answers_op op r" if "list_all2 answers_op (take (length rs) (map snd run)) rs"
    using m that by (fastforce simp: in_set_zip list_all2_conv_all_nth)
  ultimately show "(i, op) \<in> set run \<and> r \<in> set rs \<and>
      (list_all2 answers_op (take (length rs) (map snd run)) rs \<longrightarrow> answers_op op r)"
    by (auto dest: set_zip_leftD set_zip_rightD)
qed

lemma answers_same: "answers_op op r \<Longrightarrow> same_but_line r r' \<Longrightarrow> answers_op op r'"
  by (auto simp: answers_op_def dest!: same_but_line_fields)

lemma merge_run_keeps:
  assumes run: "merge_run run results plan executed = (n, plan', executed')"
    and once: "distinct (map fst run)"
    and bounds: "\<forall>(i, _) \<in> set run. i < length (plan_operations plan) \<and> i < length (er_operations executed)"
    and ran: "list_all2 answers_op (take (length (er_operations results)) (map snd run)) (er_operations results)"
  shows "length (plan_operations plan') = length (plan_operations plan) \<and>
      length (er_operations executed') = length (er_operations executed)"
    and "i < length (er_operations executed) \<Longrightarrow>
      plan_operations plan' ! i = plan_operations plan ! i \<and>
        same_but_line (er_operations executed ! i) (er_operations executed' ! i) \<or>
      (\<exists>op. (i, op) \<in> set run \<and> plan_operations plan' ! i = op \<and> answers_op op (er_operations executed' ! i))"
    and "(\<forall>r \<in> set (er_operations results). warned_of (er_warnings results) r) \<Longrightarrow>
      (\<forall>r \<in> set (er_operations executed). warned_of (er_warnings executed) r) \<Longrightarrow>
      own_lines (er_operations executed) \<Longrightarrow> i < length (er_operations executed) \<Longrightarrow>
      warned_of (er_warnings executed') (er_operations executed' ! i)"
    and "n \<le> length run"
    and "\<exists>report. executed' = Recount report"
proof -
  define these where "these = attempted (zip run (er_operations results))"
  define lines where "lines = map (\<lambda>((index, _), _). or_warning (er_operations executed ! index)) these"
  define dropped where "dropped = DropWarnings lines executed"
  define moved where "moved = int (length (er_warnings dropped))"
  obtain plan1 executed1 where f: "fold (merge_at moved) these (plan, dropped) = (plan1, executed1)" by fastforce
  have out: "n = length these" "plan' = plan1" "executed' = Recount (executed1\<lparr>er_warnings := er_warnings executed1 @ er_warnings results,
        er_declines := er_declines executed1 @ er_declines results, er_canceled := er_canceled executed1 \<or> er_canceled results,
        er_unauthorized := er_unauthorized executed1 \<or> er_unauthorized results\<rparr>)"
    using run by (simp_all add: merge_run_def Let_def f flip: these_def lines_def dropped_def moved_def)
  note gone = DropWarnings_gone [of lines executed, folded dropped_def]
  have len: "length (er_operations dropped) = length (er_operations executed)" using gone by (simp add: list_all2_lengthD)
  have these: "(i, op) \<in> set run \<and> r \<in> set (er_operations results) \<and> answers_op op r" if "((i, op), r) \<in> set these" for i op r
    using attempted_from_run(2) [OF once] that ran unfolding these_def by blast
  have "set_once moved these plan dropped plan1 executed1"
    using merge_sets_once [OF _ _ f] attempted_from_run(1) [OF once] these bounds len by (fastforce simp: these_def)
  then obtain ops rs where set: "plan1 = plan\<lparr>plan_operations := ops\<rparr>" "executed1 = dropped\<lparr>er_operations := rs\<rparr>"
    "length ops = length (plan_operations plan)" "length rs = length (er_operations executed)"
    "\<And>i op r. ((i, op), r) \<in> set these \<Longrightarrow> ops ! i = op \<and> rs ! i = on_line moved r"
    "\<And>i. i \<notin> set (map (fst \<circ> fst) these) \<Longrightarrow> ops ! i = plan_operations plan ! i \<and> rs ! i = er_operations dropped ! i"
    unfolding set_once_def len by fast
  show "length (plan_operations plan') = length (plan_operations plan) \<and>
      length (er_operations executed') = length (er_operations executed)"
    by (simp add: out set)
  have "length these \<le> length (zip run (er_operations results))"
    unfolding these_def attempted_def by (rule length_filter_le)
  then show "n \<le> length run" by (simp add: out)
  show "\<exists>report. executed' = Recount report" using out by blast
  show "plan_operations plan' ! i = plan_operations plan ! i \<and>
        same_but_line (er_operations executed ! i) (er_operations executed' ! i) \<or>
      (\<exists>op. (i, op) \<in> set run \<and> plan_operations plan' ! i = op \<and> answers_op op (er_operations executed' ! i))"
    if "i < length (er_operations executed)"
  proof (cases "i \<in> set (map (fst \<circ> fst) these)")
    case True
    then obtain op r where m: "((i, op), r) \<in> set these" by auto
    have "answers_op op (on_line moved r)" using these [OF m] answers_same on_line_same by blast
    with set(5) [OF m] these [OF m] show ?thesis by (intro disjI2 exI [of _ op]) (simp add: out set)
  next
    case False
    from set(6) [OF this] gone that show ?thesis by (simp add: out set list_all2_conv_all_nth line_gone_def)
  qed
  assume warned: "\<forall>r \<in> set (er_operations results). warned_of (er_warnings results) r"
    "\<forall>r \<in> set (er_operations executed). warned_of (er_warnings executed) r"
    and own: "own_lines (er_operations executed)" and i: "i < length (er_operations executed)"
  show "warned_of (er_warnings executed') (er_operations executed' ! i)"
  proof (cases "i \<in> set (map (fst \<circ> fst) these)")
    case True
    then obtain op r where m: "((i, op), r) \<in> set these" by auto
    with set(5) [OF m] these [OF m] warned(1) show ?thesis
      by (simp add: out set moved_def on_line_warned)
  next
    case False
    have "or_warning (er_operations executed ! i) \<notin> set lines - {kNoWarning}"
    proof
      assume "or_warning (er_operations executed ! i) \<in> set lines - {kNoWarning}"
      then obtain j op r where j: "((j, op), r) \<in> set these"
        "or_warning (er_operations executed ! i) = or_warning (er_operations executed ! j)"
        "or_warning (er_operations executed ! i) \<noteq> kNoWarning" by (auto simp: lines_def)
      with False have "i \<noteq> j" by force
      moreover have "j < length (er_operations executed)" using these [OF j(1)] bounds by auto
      ultimately show False using own_lines_nth [OF own i _ j(3)] j(2) by simp
    qed
    with gone i warned(2) have "warned_of (er_warnings dropped) (er_operations dropped ! i)"
      by (simp add: list_all2_conv_all_nth line_gone_def)
    with set(6) [OF False] show ?thesis by (simp add: out set warned_of_append)
  qed
qed

section \<open>What may take the place of a refused upload\<close>

text \<open>Never an upload and never a delete; a plain download only where the local bytes are the ones both
  sides agreed on last.\<close>

definition resolves :: "ClientSaveState list \<Rightarrow> Baseline \<Rightarrow> OperationResult \<Rightarrow> SyncOperation \<Rightarrow> bool" where
  "resolves reported previous r op \<longleftrightarrow>
     or_error r = Op_kNewerOnServer \<and> op_key op = result_key r \<and> op_known_action op \<and>
     (case op_action op of
        kNoOp \<Rightarrow> True
      | kConflict \<Rightarrow> op_save_id op \<noteq> None
      | kDownload \<Rightarrow> op_save_id op \<noteq> None \<and>
          unchanged_since (FindByKey state_key reported (result_key r)) (Baseline_Find (result_key r) previous)
      | _ \<Rightarrow> False)"

lemma ResolveNewerOnServer_resolves:
  assumes "ResolveNewerOnServer head local last_synced = Some op"
  shows "op_key op = op_key head \<and> op_known_action op \<and>
    (case op_action op of kNoOp \<Rightarrow> True | kConflict \<Rightarrow> op_save_id op \<noteq> None
     | kDownload \<Rightarrow> op_save_id op \<noteq> None \<and> unchanged_since local last_synced | _ \<Rightarrow> False)"
  using assms by (auto simp: ResolveNewerOnServer_def Let_def split: if_splits)

lemma FindByKey_key: "FindByKey key_of xs key = Some x \<Longrightarrow> key_of x = key"
  by (auto simp: FindByKey_def find_Some_iff)

lemma resolve_at_resolves:
  assumes "resolve_at reported targets previous executed asked heads i = Some one"
  shows "fst one = i \<and> (or_error (er_operations executed ! i) = Op_kNewerOnServer \<longrightarrow>
    resolves reported previous (er_operations executed ! i) (snd one))"
  using assms
  by (auto simp: resolve_at_def resolves_def Let_def split: option.splits if_splits
      dest!: ResolveNewerOnServer_resolves FindByKey_key cong: Action.case_cong)

lemma resolution_run:
  assumes positions: "refusals_of reported plan executed = (refused, asked, roms)"
    and run: "run = List.map_filter (resolve_at reported targets previous executed asked heads) refused"
  shows "distinct (map fst run)" "length run \<le> length refused"
    "(i, op) \<in> set run \<Longrightarrow> i < length (plan_operations plan) \<and> i < length (er_operations executed) \<and>
       resolves reported previous (er_operations executed ! i) op"
proof -
  let ?at = "resolve_at reported targets previous executed asked heads"
  have "map fst run = filter (\<lambda>i. ?at i \<noteq> None) refused"
    unfolding run
    by (induction refused) (auto simp: map_filter_simps split: option.split dest: resolve_at_resolves)
  then show "distinct (map fst run)" using refusals_of_positions(1) [OF positions] by simp
  show "length run \<le> length refused" unfolding run by (simp add: List.map_filter_def)
  assume "(i, op) \<in> set run"
  then obtain j where "j \<in> set refused" "?at j = Some (i, op)"
    unfolding run by (auto simp: List.map_filter_def)
  with refusals_of_positions(2) [OF positions, of j] resolve_at_resolves [of reported targets previous executed asked heads j]
  show "i < length (plan_operations plan) \<and> i < length (er_operations executed) \<and>
      resolves reported previous (er_operations executed ! i) op" by fastforce
qed

section \<open>The two ends of a resolution\<close>

text \<open>Nothing was run, and at most a line was added; or a run was merged.\<close>

lemma resolution_ends:
  assumes "ResolveRefusedUploads host token reported targets previous plan executed options declines w =
      ((out, plan', executed', declines'), w')"
  obtains (left) "plan' = plan" "rp_resolved out = 0"
      "executed' = executed \<and> (rp_renegotiated out \<or> rp_held out \<or> w' = w) \<or>
       rp_renegotiated out \<and> (\<exists>line. executed' = executed\<lparr>er_warnings := er_warnings executed @ [line]\<rparr>)"
    | (merged) refused asked roms heads run results run_plan w1 w2 declines1
      where "refusals_of reported plan executed = (refused, asked, roms)"
        "run = List.map_filter (resolve_at reported targets previous executed asked heads) refused"
        "ExecutePlan host token run_plan targets (rs_execute options) declines w1 = ((results, declines1), w2)"
        "plan_operations run_plan = map snd run"
        "merge_run run results plan executed = (rp_resolved out, plan', executed')"
        "rp_refused out = length refused" "rp_renegotiated out"
proof (cases "er_canceled executed \<or> er_unauthorized executed")
  case True
  with assms show ?thesis by (intro left) (auto simp: ResolveRefusedUploads_def no_resolution_def)
next
  case going: False
  obtain refused asked roms where r: "refusals_of reported plan executed = (refused, asked, roms)" by (metis surj_pair)
  obtain held w0 where h: "asks_hold options w = (held, w0)" by fastforce
  obtain second w1 where n: "negotiate_again host token asked roms options w0 = (second, w1)" by fastforce
  note rule = assms [unfolded ResolveRefusedUploads_def if_not_P [OF going] r Let_def prod.case h n]
  show ?thesis
  proof (cases "asked = [] \<or> held \<or> \<not> neg_ok second")
    case True
    with rule show ?thesis by (intro left) (auto simp: no_resolution_def split: if_splits)
  next
    case False
    let ?run = "List.map_filter (resolve_at reported targets previous executed asked
      (plan_operations (neg_plan second))) refused"
    let ?plan = "empty_plan\<lparr>plan_session_id := plan_session_id (neg_plan second), plan_operations := map snd ?run\<rparr>"
    obtain results declines1 w2 where e: "ExecutePlan host token ?plan targets (rs_execute options) declines w1 =
        ((results, declines1), w2)" by (metis surj_pair)
    obtain n plan1 executed1 where m: "merge_run ?run results plan executed = (n, plan1, executed1)"
      by (metis surj_pair)
    from rule False have "n = rp_resolved out" "plan1 = plan'" "executed1 = executed'" "rp_refused out = length refused"
      "rp_renegotiated out" by (auto simp: e m no_resolution_def split: prod.splits)
    with m show ?thesis by (intro merged [OF r refl e]) simp_all
  qed
qed

text \<open>C15: Whatever the server answers, resolving changes a position of the plan and of its report only where
  the slot guard had refused the upload: there it puts an operation on the same save that is never an
  upload or a delete and is a plain download only where the local bytes are the ones both sides last
  agreed on, with a result for that operation. Every other result at most moves to another line, and
  where the server is not asked nothing changes at all.\<close>

theorem only_a_refused_upload_is_replaced:
  "let ((out, plan', executed', declines'), w') =
         ResolveRefusedUploads host token reported targets previous plan executed options declines w
   in list_all2 (\<lambda>(op, r) (op', r'). op' = op \<and> same_but_line r r' \<or>
          resolves reported previous r op' \<and> answers_op op' r')
        (zip (plan_operations plan) (er_operations executed)) (zip (plan_operations plan') (er_operations executed')) \<and>
      length (plan_operations plan') = length (plan_operations plan) \<and>
      length (er_operations executed') = length (er_operations executed) \<and>
      rp_resolved out \<le> rp_refused out \<and>
      (rp_renegotiated out \<or> rp_held out \<and> plan' = plan \<and> executed' = executed \<or>
        plan' = plan \<and> executed' = executed \<and> w' = w)"
proof -
  obtain out plan' executed' declines' w' where run: "ResolveRefusedUploads host token reported targets previous plan
      executed options declines w = ((out, plan', executed', declines'), w')" by (metis surj_pair)
  let ?kept = "\<lambda>(op, r) (op', r'). op' = op \<and> same_but_line r r' \<or> resolves reported previous r op' \<and> answers_op op' r'"
  from run show ?thesis
  proof (cases rule: resolution_ends)
    case left
    then show ?thesis by (auto simp: run list_all2_same)
  next
    case (merged refused asked roms heads these results run_plan w1 w2 declines1)
    note these = resolution_run [OF merged(1, 2)]
    note ran = ExecutePlan_report(1) [OF merged(3), unfolded merged(4)]
    have bounds: "\<forall>(i, _) \<in> set these. i < length (plan_operations plan) \<and> i < length (er_operations executed)"
      using these(3) by blast
    note keeps = merge_run_keeps [OF merged(5) these(1) bounds ran]
    have "list_all2 ?kept (zip (plan_operations plan) (er_operations executed))
        (zip (plan_operations plan') (er_operations executed'))"
      unfolding list_all2_conv_all_nth
    proof (intro conjI allI impI)
      fix i assume "i < length (zip (plan_operations plan) (er_operations executed))"
      then have i: "i < length (plan_operations plan)" "i < length (er_operations executed)" by simp_all
      with keeps(2) [OF i(2)] keeps(1) these(3) show "?kept (zip (plan_operations plan) (er_operations executed) ! i)
          (zip (plan_operations plan') (er_operations executed') ! i)" by auto
    qed (use keeps(1) in simp)
    with keeps(1, 4) these(2) merged(6, 7) show ?thesis by (simp add: run)
  qed
qed

text \<open>C16: After a plan is executed and what was refused is resolved, the report still accounts for the plan: the
  results are those of the operations now in the plan, in order, every failed one points at its own
  warning, none at another's, and the counters add up.\<close>

theorem a_resolved_report_accounts_for_its_plan:
  "let ((executed, declines), w) = ExecutePlan host token plan targets execute declines w;
       ((out, plan', executed', declines'), w') =
         ResolveRefusedUploads host token reported targets previous plan executed options declines w;
       rs = er_operations executed'
   in list_all2 answers_op (take (length rs) (plan_operations plan')) rs \<and>
      length (plan_operations plan') = length (plan_operations plan) \<and>
      list_all (warned_of (er_warnings executed')) rs \<and>
      er_completed executed' + er_failed executed' + er_not_understood executed' + er_declined executed' +
        of_outcome {Outcome_kCanceled} executed' = length rs"
proof -
  obtain executed declines0 w0 where e: "ExecutePlan host token plan targets execute declines w =
      ((executed, declines0), w0)" by (metis surj_pair)
  obtain out plan' executed' declines' w' where run: "ResolveRefusedUploads host token reported targets previous plan
      executed options declines0 w0 = ((out, plan', executed', declines'), w')" by (metis surj_pair)
  note first = ExecutePlan_report [OF e]
  have counts: "\<exists>report. executed = Recount report"
    using e by (auto simp: ExecutePlan_def Let_def split: prod.splits)
  let ?add_up = "\<lambda>x. er_completed x + er_failed x + er_not_understood x + er_declined x +
      of_outcome {Outcome_kCanceled} x = length (er_operations x)"
  have add_up: "?add_up x" if "\<exists>report. x = Recount report" for x
    using that counts_add_up by auto
  from run show ?thesis
  proof (cases rule: resolution_ends)
    case left
    then have "list_all2 answers_op (take (length (er_operations executed')) (plan_operations plan'))
        (er_operations executed')" "\<forall>r \<in> set (er_operations executed'). warned_of (er_warnings executed') r"
      "?add_up executed'" using first add_up [OF counts] warned_of_append by auto
    with left(1) show ?thesis by (simp add: e run list_all_iff)
  next
    case (merged refused asked roms heads these results run_plan w1 w2 declines1)
    note these = resolution_run [OF merged(1, 2)]
    note ran = ExecutePlan_report [OF merged(3), unfolded merged(4)]
    have bounds: "\<forall>(i, _) \<in> set these. i < length (plan_operations plan) \<and> i < length (er_operations executed)"
      using these(3) by blast
    note keeps = merge_run_keeps [OF merged(5) these(1) bounds ran(1)]
    have "list_all2 answers_op (take (length (er_operations executed')) (plan_operations plan')) (er_operations executed')"
      using keeps(1, 2) first(1, 2) answers_same by (fastforce simp: list_all2_conv_all_nth)
    moreover have "list_all (warned_of (er_warnings executed')) (er_operations executed')"
      using keeps(3) [OF ran(3) first(3, 4)] keeps(1) by (simp add: list_all_length)
    ultimately show ?thesis using keeps(1) add_up [OF keeps(5)] by (simp add: e run)
  qed
qed

end
