(* ===== verification/Walker.thy ===== *)
theory Walker
  imports JsonRender "HOL-Library.Sublist"
begin

text \<open>
  The walk of \<open>core/src/server_capabilities.cpp\<close>: a document crossed to one member of its top level
  without building anything. The state is the position; the containers it is inside are a bitstack.
\<close>

section \<open>Steps\<close>

definition SkipSpace :: "bytes \<Rightarrow> nat \<Rightarrow> nat" where
  "SkipSpace s i = i + length (takeWhile is_space (drop i s))"

definition Accept :: "char \<Rightarrow> bytes \<Rightarrow> nat \<Rightarrow> bool \<times> nat" where
  "Accept c s i = (if i < length s \<and> s ! i = c then (True, i + 1) else (False, i))"

definition Take :: "char \<Rightarrow> bytes \<Rightarrow> nat \<Rightarrow> bool \<times> nat" where
  "Take c s i = Accept c s (SkipSpace s i)"

text \<open>The loop of \<open>String\<close>, after the opening quote: an escape is stepped over, not decoded.\<close>

function string_end :: "bytes \<Rightarrow> nat \<Rightarrow> bool \<times> nat" where
  "string_end s i =
     (if i \<ge> length s then (False, i)
      else if s ! i = CHR 0x5C then string_end s (i + 2)
      else if s ! i = CHR 0x22 then (True, i + 1)
      else string_end s (i + 1))"
  by pat_completeness auto
termination by (relation "measure (\<lambda>(s, i). length s - i)") auto

declare string_end.simps [simp del]

definition Walker_String :: "bytes \<Rightarrow> nat \<Rightarrow> bytes option \<times> nat" where
  "Walker_String s i =
     (let i = SkipSpace s i in
      if i \<ge> length s \<or> s ! i \<noteq> CHR 0x22 then (None, i)
      else
        let start = i + 1; (closed, i) = string_end s start
        in (if closed then Some (take (i - 1 - start) (drop start s)) else None, i))"

definition Digits :: "bytes \<Rightarrow> nat \<Rightarrow> nat" where
  "Digits s i = length (takeWhile IsDigit (drop i s))"

definition Delimited :: "bytes \<Rightarrow> nat \<Rightarrow> bool" where
  "Delimited s i \<longleftrightarrow> i \<ge> length s \<or> s ! i = CHR '','' \<or> s ! i = CHR ''}'' \<or> s ! i = CHR '']'' \<or>
     is_space (s ! i)"

text \<open>A number from its exponent on, and the whole of it.\<close>

definition Walker_Exponent :: "bytes \<Rightarrow> nat \<Rightarrow> bool \<times> nat" where
  "Walker_Exponent s i =
     (let (small, i) = Accept (CHR ''e'') s i;
          (exponent, i) = (if small then (True, i) else Accept (CHR ''E'') s i)
      in
      if exponent
      then
        let (plus, i) = Accept (CHR ''+'') s i;
            (_, i) = (if plus then (True, i) else Accept (CHR ''-'') s i);
            digits = Digits s i
        in if digits = 0 then (False, i) else (Delimited s (i + digits), i + digits)
      else (Delimited s i, i))"

definition Walker_Number :: "bytes \<Rightarrow> nat \<Rightarrow> bool \<times> nat" where
  "Walker_Number s i =
     (let (_, i) = Accept (CHR ''-'') s i;
          (zero, i) = Accept (CHR ''0'') s i;
          digits = (if zero then 0 else Digits s i)
      in
      if \<not> zero \<and> digits = 0 then (False, i)
      else
        let (point, i) = Accept (CHR ''.'') s (i + digits);
            digits = (if point then Digits s i else 0)
        in if point \<and> digits = 0 then (False, i) else Walker_Exponent s (i + digits))"

definition Walker_Scalar :: "bytes \<Rightarrow> nat \<Rightarrow> bool \<times> nat" where
  "Walker_Scalar s i =
     (case find (\<lambda>literal. starts_with literal (drop i s)) [''true'', ''false'', ''null''] of
        Some literal \<Rightarrow> (Delimited s (i + length literal), i + length literal)
      | None \<Rightarrow> Walker_Number s i)"

definition MemberName :: "bytes \<Rightarrow> nat \<Rightarrow> bool \<times> nat" where
  "MemberName s i =
     (let (name, i) = Walker_String s i in if name = None then (False, i) else Take (CHR '':'') s i)"

section \<open>A step that succeeds goes forward\<close>

lemma SkipSpace_le: "i \<le> SkipSpace s i"
  by (simp add: SkipSpace_def)

lemma Accept_forward: "Accept c s a = (True, b) \<Longrightarrow> a < b \<and> b \<le> length s"
  by (auto simp: Accept_def split: if_splits)

lemma Accept_either: "Accept c s a = (k, b) \<Longrightarrow> a \<le> length s \<Longrightarrow> a \<le> b \<and> b \<le> length s"
  by (auto simp: Accept_def split: if_splits)

lemma Take_forward: "Take c s a = (True, b) \<Longrightarrow> a < b \<and> b \<le> length s"
  using Accept_forward [of c s "SkipSpace s a" b] SkipSpace_le [of a s] by (simp add: Take_def)

lemma string_end_forward: "string_end s a = (True, b) \<Longrightarrow> a < b \<and> b \<le> length s"
proof (induction s a rule: string_end.induct)
  case (1 s a)
  then show ?case by (subst (asm) (2) string_end.simps) (force split: if_splits)
qed

lemma String_forward: "Walker_String s a = (Some name, b) \<Longrightarrow> a < b \<and> b \<le> length s"
  using SkipSpace_le [of a s]
  by (auto simp: Walker_String_def Let_def split: if_splits prod.splits dest!: string_end_forward)

lemma MemberName_forward: "MemberName s a = (True, b) \<Longrightarrow> a < b \<and> b \<le> length s"
  by (auto simp: MemberName_def split: prod.splits if_splits dest!: String_forward Take_forward)

lemma Digits_le: "a \<le> length s \<Longrightarrow> a + Digits s a \<le> length s"
  using length_takeWhile_le [of IsDigit "drop a s"] by (simp add: Digits_def)

lemma Walker_Number_forward: "Walker_Number s a = (True, b) \<Longrightarrow> a < b \<and> b \<le> length s"
proof -
  assume run: "Walker_Number s a = (True, b)"
  obtain m i1 where 1: "Accept (CHR ''-'') s a = (m, i1)" by fastforce
  obtain zero i2 where 2: "Accept (CHR ''0'') s i1 = (zero, i2)" by fastforce
  let ?d = "if zero then 0 else Digits s i2"
  obtain point i3 where 3: "Accept (CHR ''.'') s (i2 + ?d) = (point, i3)" by fastforce
  let ?e = "if point then Digits s i3 else 0"
  obtain small i4 where 4: "Accept (CHR ''e'') s (i3 + ?e) = (small, i4)" by fastforce
  obtain large i5 where 5: "(if small then (True, i4) else Accept (CHR ''E'') s i4) = (large, i5)" by fastforce
  obtain plus i6 where 6: "Accept (CHR ''+'') s i5 = (plus, i6)" by fastforce
  obtain minus i7 where 7: "(if plus then (True, i6) else Accept (CHR ''-'') s i6) = (minus, i7)" by fastforce
  from run have some: "zero \<or> Digits s i2 > 0"
    by (cases "Digits s i2 = 0") (auto simp: Walker_Number_def Let_def 1 2 split: if_splits)
  have le: "a \<le> length s"
  proof (rule ccontr)
    assume "\<not> a \<le> length s"
    then have "\<not> zero" "Digits s i2 = 0" using 1 2 by (auto simp: Accept_def Digits_def split: if_splits)
    with some show False by simp
  qed
  note i1 = Accept_either [OF 1 le]
  note i2 = Accept_either [OF 2] Accept_forward [of "CHR ''0''" s i1 i2]
  have d: "a < i2 + ?d \<and> i2 + ?d \<le> length s"
    using i1 i2 2 some Digits_le [of i2 s] by (cases zero) auto
  note i3 = Accept_either [OF 3]
  have e: "a < i3 + ?e \<and> i3 + ?e \<le> length s"
    using d i3 Digits_le [of i3 s] by (cases point) auto
  note i4 = Accept_either [OF 4]
  have i5: "a < i5 \<and> i5 \<le> length s" using e i4 5 Accept_either [of "CHR ''E''" s i4 large i5] by (cases small) auto
  note i6 = Accept_either [OF 6]
  have i7: "a < i7 \<and> i7 \<le> length s" using i5 i6 7 Accept_either [of "CHR ''-''" s i6 minus i7] by (cases plus) auto
  have "b = i5 \<or> b = i7 + Digits s i7"
    using run some unfolding Walker_Number_def Walker_Exponent_def Let_def 1 2 3 4 5 6 7 prod.case by (auto split: if_splits)
  with i5 i7 Digits_le [of i7 s] show ?thesis by auto
qed

lemma Walker_Scalar_forward: "Walker_Scalar s a = (True, b) \<Longrightarrow> a < b \<and> b \<le> length s"
  by (auto simp: Walker_Scalar_def starts_with_def split: if_splits dest!: Walker_Number_forward
      arg_cong [where f = length])

lemma Take_either: "(k, b) = Take c s a \<Longrightarrow> a \<le> b"
  using SkipSpace_le [of a s] by (auto simp: Take_def Accept_def split: if_splits)

lemma SkipSpace_inside: "\<not> length s \<le> SkipSpace s a \<Longrightarrow> a \<le> SkipSpace s a \<and> a < length s"
  using SkipSpace_le [of a s] by simp

lemmas steps_forward = Take_forward [OF sym] String_forward [OF sym] MemberName_forward [OF sym]
  Walker_Scalar_forward [OF sym]

section \<open>One value\<close>

text \<open>\<open>ended\<close> is where the loop stands: at the start of a value, or after one. The stack has one bit a level,
  set for an object.\<close>

function (sequential) Walker_Value :: "bool \<Rightarrow> bytes \<Rightarrow> nat \<Rightarrow> u64 \<Rightarrow> nat \<Rightarrow> bool \<times> nat" where
  "Walker_Value False s i objects depth =
     (let i = SkipSpace s i in
      if i \<ge> length s then (False, i)
      else if s ! i = CHR ''{'' \<or> s ! i = CHR ''['' then
        if depth \<ge> kMaxDepth then (False, i)
        else
          let object = (s ! i = CHR ''{'');
              objects = push_bit 1 objects OR (if object then 1 else 0);
              (closed, j) = Take (skip_close object) s (i + 1)
          in
          if closed then Walker_Value True s j (drop_bit 1 objects) depth
          else if object
          then let (named, j) = MemberName s j in
            if named then Walker_Value False s j objects (depth + 1) else (False, j)
          else Walker_Value False s j objects (depth + 1)
      else if s ! i = CHR 0x22 then
        let (name, j) = Walker_String s i in
        if name = None then (False, j) else Walker_Value True s j objects depth
      else
        let (good, j) = Walker_Scalar s i in
        if good then Walker_Value True s j objects depth else (False, j))"
| "Walker_Value True s i objects depth =
     (if depth = 0 then (True, i)
      else
        let object = (objects AND 1 = 1);
            (comma, j) = Take (CHR '','') s i
        in
        if comma
        then
          if object
          then let (named, j) = MemberName s j in
            if named then Walker_Value False s j objects depth else (False, j)
          else Walker_Value False s j objects depth
        else
          let (closed, j) = Take (skip_close object) s j in
          if closed then Walker_Value True s j (drop_bit 1 objects) (depth - 1) else (False, j))"
  by pat_completeness auto
termination
  by (relation "measure (\<lambda>(ended, s, i, objects, depth). length s - i)")
    (auto dest!: steps_forward dest!: Take_either [of False] dest: SkipSpace_inside)

declare Walker_Value.simps [simp del]

end
