(* ===== verification/WalkerFacts.thy ===== *)
theory WalkerFacts
  imports Walker
begin

text \<open>
  The walk against the parser: what the parser reads, the walk crosses, ending where the parser does, so
  the text it hands on for a member is the text of that member's value.
\<close>

section \<open>Positions and rests\<close>

text \<open>Where a rest of the text starts.\<close>

definition pos :: "bytes \<Rightarrow> bytes \<Rightarrow> nat" where
  "pos s r = length s - length r"

lemma pos_drop: "suffix r s \<Longrightarrow> drop (pos s r) s = r"
  by (auto simp: suffix_def pos_def)

lemma pos_le [simp]: "pos s r \<le> length s"
  by (simp add: pos_def)

lemma pos_end: "suffix r s \<Longrightarrow> pos s r < length s \<longleftrightarrow> r \<noteq> []"
  by (auto simp: suffix_def pos_def)

lemma pos_head: "suffix (c # t) s \<Longrightarrow> s ! pos s (c # t) = c \<and> pos s (c # t) < length s"
  by (auto simp: suffix_def pos_def nth_append)

lemma pos_step: "suffix (t @ r) s \<Longrightarrow> pos s r = pos s (t @ r) + length t"
  by (auto simp: suffix_def pos_def)

lemma pos_next: "suffix (c # t) s \<Longrightarrow> pos s t = Suc (pos s (c # t))"
  using pos_step [of "[c]" t s] by simp

lemma suffix_tl: "suffix (c # t) s \<Longrightarrow> suffix t s"
  by (rule suffix_ConsD)

lemma suffix_skip: "suffix r s \<Longrightarrow> suffix (SkipWhitespace r) s"
  unfolding SkipWhitespace_def using suffix_dropWhile suffix_order.trans by blast

lemma suffix_skip_next: "suffix r s \<Longrightarrow> SkipWhitespace r = c # t \<Longrightarrow> suffix (c # t) s \<and> suffix t s"
  by (metis suffix_skip suffix_ConsD)

section \<open>Steps\<close>

lemma SkipSpace_pos: "suffix r s \<Longrightarrow> SkipSpace s (pos s r) = pos s (SkipWhitespace r)"
  using pos_step [of "takeWhile is_space r" "dropWhile is_space r" s]
  by (simp add: SkipSpace_def SkipWhitespace_def pos_drop)

lemma Accept_pos:
  assumes "suffix r s"
  shows "Accept c s (pos s r) = (if take 1 r = [c] then (True, pos s (drop 1 r)) else (False, pos s r))"
proof (cases r)
  case Nil
  then show ?thesis by (simp add: Accept_def pos_def)
next
  case (Cons d t)
  with assms show ?thesis using pos_head [of d t s] pos_next [of d t s] by (simp add: Accept_def)
qed

lemma Take_pos:
  assumes "suffix r s"
  shows "Take c s (pos s r) =
    (if take 1 (SkipWhitespace r) = [c] then (True, pos s (drop 1 (SkipWhitespace r)))
     else (False, pos s (SkipWhitespace r)))"
  using Accept_pos [OF suffix_skip [OF assms]] by (simp add: Take_def SkipSpace_pos [OF assms])

lemma Take_here: "suffix r s \<Longrightarrow> SkipWhitespace r = c # t \<Longrightarrow> Take c s (pos s r) = (True, pos s t)"
  by (simp add: Take_pos)

lemma Digits_pos: "suffix r s \<Longrightarrow> Digits s (pos s r) = length (takeWhile IsDigit r) \<and>
    pos s r + Digits s (pos s r) = pos s (dropWhile IsDigit r) \<and> suffix (dropWhile IsDigit r) s"
  using pos_step [of "takeWhile IsDigit r" "dropWhile IsDigit r" s] suffix_order.trans [OF suffix_dropWhile]
  by (simp add: Digits_def pos_drop)

definition ended :: "bytes \<Rightarrow> bool" where
  "ended r \<longleftrightarrow> (case r of [] \<Rightarrow> True | c # _ \<Rightarrow> c = CHR '','' \<or> c = CHR ''}'' \<or> c = CHR '']'' \<or> is_space c)"

lemma Delimited_pos: "suffix r s \<Longrightarrow> Delimited s (pos s r) = ended r"
  using pos_head [of _ _ s] by (cases r) (fastforce simp: Delimited_def ended_def pos_def [of s "[]"])+

lemma ended_before: "SkipWhitespace r = c # t \<Longrightarrow> c = CHR '','' \<or> c = CHR ''}'' \<or> c = CHR '']'' \<Longrightarrow> ended r"
  by (cases r) (auto simp: ended_def SkipWhitespace_def split: if_splits)

section \<open>Strings\<close>

lemma string_end_plain:
  "suffix (c # t) s \<Longrightarrow> c \<noteq> CHR 0x22 \<Longrightarrow> c \<noteq> CHR 0x5C \<Longrightarrow>
     string_end s (pos s (c # t)) = string_end s (pos s t)"
  using pos_head [of c t s] pos_next [of c t s] by (simp add: string_end.simps [of s "pos s (c # t)"])

lemma string_end_escape:
  "suffix (CHR 0x5C # e # t) s \<Longrightarrow> string_end s (pos s (CHR 0x5C # e # t)) = string_end s (pos s t)"
  using pos_head [of "CHR 0x5C" "e # t" s] pos_next [of "CHR 0x5C" "e # t" s] pos_next [of e t s] suffix_tl
  by (fastforce simp: string_end.simps [of s "pos s (CHR 0x5C # e # t)"])

lemma hex_digit_plain: "hex_digit c = Some d \<Longrightarrow> c \<noteq> CHR 0x22 \<and> c \<noteq> CHR 0x5C"
  by (auto simp: hex_digit_def IsDigit_def less_eq_char_def)

lemma hex_value_plain: "hex_value ds v = Some n \<Longrightarrow> CHR 0x22 \<notin> set ds \<and> CHR 0x5C \<notin> set ds"
  by (induction ds arbitrary: v) (auto split: option.splits dest: hex_digit_plain)

lemma string_end_plains:
  "suffix (ds @ t) s \<Longrightarrow> CHR 0x22 \<notin> set ds \<Longrightarrow> CHR 0x5C \<notin> set ds \<Longrightarrow>
     string_end s (pos s (ds @ t)) = string_end s (pos s t)"
proof (induction ds)
  case (Cons d ds)
  then show ?case using string_end_plain [of d "ds @ t" s] suffix_tl [of d "ds @ t" s] by auto
qed simp

lemma ParseHex4_walk:
  assumes "ParseHex4 t = Inr (n, r)" "suffix t s"
  shows "string_end s (pos s t) = string_end s (pos s r) \<and> suffix r s \<and> suffix r t"
proof -
  from assms(1) have "hex_value (take 4 t) 0 = Some n" "r = drop 4 t"
    by (auto simp: ParseHex4_def split: if_splits option.splits)
  with string_end_plains [of "take 4 t" "drop 4 t" s] assms(2) hex_value_plain [of "take 4 t" 0 n]
    suffix_drop [of 4 t] suffix_order.trans [OF suffix_drop [of 4 t] assms(2)]
  show ?thesis by simp
qed

lemma ParseUnicodeEscape_walk:
  assumes "ParseUnicodeEscape out t = Inr (out', r)" "suffix t s"
  shows "string_end s (pos s t) = string_end s (pos s r) \<and> suffix r s \<and> suffix r t"
proof -
  from assms(1) obtain u t1 where 1: "ParseHex4 t = Inr (u, t1)"
    by (auto simp: ParseUnicodeEscape_def split: sum.splits prod.splits)
  note h1 = ParseHex4_walk [OF 1 assms(2)]
  show ?thesis
  proof (cases "r = t1")
    case False
    with assms(1) 1 obtain low where 2: "starts_with [CHR 0x5C, CHR ''u''] t1" "ParseHex4 (drop 2 t1) = Inr (low, r)"
      by (auto simp: ParseUnicodeEscape_def split: sum.splits prod.splits if_splits)
    then obtain t2 where t1: "t1 = CHR 0x5C # CHR ''u'' # t2"
      by (cases t1; cases "tl t1") (auto simp: starts_with_def)
    have "suffix t2 s" using h1 t1 suffix_tl [of "CHR ''u''" t2 s] suffix_tl [of "CHR 0x5C" "CHR ''u'' # t2" s] by simp
    from ParseHex4_walk [of t2 low r s] this 2(2) t1
    have w: "string_end s (pos s t2) = string_end s (pos s r)" "suffix r s" "suffix r t2" by simp_all
    have "suffix r t1" using w(3) t1 by (simp add: suffix_ConsI)
    then have "suffix r t" using h1 suffix_order.trans by metis
    with w h1 t1 string_end_escape [of "CHR ''u''" t2 s] show ?thesis by simp
  qed (use h1 in simp)
qed

lemma string_loop_walk:
  "string_loop out t = Inr (v, r) \<Longrightarrow> suffix t s \<Longrightarrow>
     string_end s (pos s t) = (True, pos s r) \<and> suffix r s \<and> suffix r t"
proof (induction out t arbitrary: v r rule: string_loop.induct)
  case (1 out t)
  note loop = "1.prems"(1) [unfolded string_loop.simps [of out t]]
  show ?case
  proof (cases t)
    case Nil
    with loop show ?thesis by simp
  next
    case (Cons c cs)
    note here = pos_head [of c cs s] pos_next [of c cs s]
    have cs: "suffix cs s" using "1.prems"(2) Cons suffix_tl by metis
    show ?thesis
    proof (cases "c = CHR 0x22")
      case True
      with loop Cons here "1.prems"(2) cs show ?thesis
        by (auto simp: string_end.simps [of s "pos s (CHR 0x22 # _)"] intro: suffix_ConsI)
    next
      case quote: False
      show ?thesis
      proof (cases "c = CHR 0x5C")
        case False
        with quote loop Cons have "string_loop (out @ [c]) cs = Inr (v, r)" "\<not> byte c < 0x20"
          by (auto split: if_splits)
        with "1.IH"(1) [OF Cons quote _ _ _ cs] False
        have "string_end s (pos s cs) = (True, pos s r)" "suffix r s" "suffix r cs" by simp_all
        with False quote "1.prems"(2) Cons string_end_plain [of c cs s]
        show ?thesis by (simp add: suffix_ConsI)
      next
        case True
        with loop Cons obtain e es where e: "cs = e # es" by (cases cs) auto
        have es: "suffix es s" using cs e suffix_tl by metis
        have step: "string_end s (pos s t) = string_end s (pos s es)"
          using string_end_escape [of e es s] "1.prems"(2) Cons True e by simp
        have "\<not> byte c < 0x20" using True by simp
        show ?thesis
        proof (cases "e = CHR ''u''")
          case u: True
          with loop Cons True e obtain out' r1 where p: "ParseUnicodeEscape out es = Inr (out', r1)"
            "string_loop out' r1 = Inr (v, r)" by (auto split: sum.splits)
          note w = ParseUnicodeEscape_walk [OF p(1) es]
          have "string_end s (pos s r1) = (True, pos s r) \<and> suffix r s \<and> suffix r r1"
            using "1.IH"(2) [OF Cons quote \<open>\<not> byte c < 0x20\<close> _ e u p(1) refl p(2)] w True by simp
          moreover from this w have "suffix r es" using suffix_order.trans by metis
          ultimately show ?thesis using w step Cons e by (simp add: suffix_ConsI)
        next
          case u: False
          with loop Cons True e obtain p where p: "plain_escape e = Some p" "string_loop (out @ [p]) es = Inr (v, r)"
            by (auto split: option.splits)
          have "string_end s (pos s es) = (True, pos s r) \<and> suffix r s \<and> suffix r es"
            using "1.IH"(3) [OF Cons quote \<open>\<not> byte c < 0x20\<close> _ e u p es] True by simp
          with step Cons e show ?thesis by (simp add: suffix_ConsI)
        qed
      qed
    qed
  qed
qed

section \<open>Numbers\<close>

lemma digits_taken: "take 1 r = [d] \<Longrightarrow> IsDigit d \<Longrightarrow> takeWhile IsDigit r \<noteq> []"
  by (cases r) auto

lemma number_frac_walk:
  assumes "number_frac t = Inr (b, r)" "suffix t s" "Accept (CHR ''.'') s (pos s t) = (point, i)"
  shows "(point \<longrightarrow> Digits s i \<noteq> 0) \<and> i + (if point then Digits s i else 0) = pos s r \<and> suffix r s \<and> suffix r t"
proof (cases "take 1 t = ''.''")
  case True
  then obtain cs where t: "t = CHR ''.'' # cs" by (cases t) auto
  from assms(1) t obtain c cs' where c: "cs = c # cs'" "IsDigit c" "r = dropWhile IsDigit cs"
    by (cases cs) (auto simp: number_frac_def split: if_splits)
  have cs: "suffix cs s" using assms(2) t suffix_tl by metis
  have "point" "i = pos s cs" using assms(3) Accept_pos [OF assms(2), of "CHR ''.''"] t by auto
  with Digits_pos [OF cs] c t suffix_dropWhile [of IsDigit cs] show ?thesis
    by (auto intro: suffix_ConsI)
next
  case False
  with assms Accept_pos [OF assms(2), of "CHR ''.''"] show ?thesis by (auto simp: number_frac_def)
qed

lemma Accept_either_pos:
  assumes "suffix t s" "Accept c s (pos s t) = (one, i)" "(if one then (True, i) else Accept d s i) = (some, j)"
  shows "some = (take 1 t = [c] \<or> take 1 t = [d]) \<and> j = pos s (if some then drop 1 t else t)"
  using assms Accept_pos [OF assms(1)] by (auto split: if_splits)

lemma number_exp_walk:
  assumes "number_exp b t = Inr (b', r)" "suffix t s"
  shows "Walker_Exponent s (pos s t) = (ended r, pos s r) \<and> suffix r s \<and> suffix r t"
proof -
  obtain small i where 1: "Accept (CHR ''e'') s (pos s t) = (small, i)" by fastforce
  obtain exponent j where 2: "(if small then (True, i) else Accept (CHR ''E'') s i) = (exponent, j)" by fastforce
  note e = Accept_either_pos [OF assms(2) 1 2]
  show ?thesis
  proof (cases "take 1 t = ''e'' \<or> take 1 t = ''E''")
    case False
    with assms e have "r = t" "\<not> exponent" "j = pos s t" by (auto simp: number_exp_def)
    with assms(2) show ?thesis by (simp add: Walker_Exponent_def 1 2 Delimited_pos)
  next
    case True
    let ?t1 = "drop 1 t"
    let ?t2 = "if take 1 ?t1 = ''+'' \<or> take 1 ?t1 = ''-'' then drop 1 ?t1 else ?t1"
    have t1: "suffix ?t1 s" using assms(2) suffix_order.trans [OF suffix_drop] by metis
    have t2: "suffix ?t2 s" using t1 suffix_order.trans [OF suffix_drop t1] by auto
    have t2t: "suffix ?t2 t" using suffix_drop [of 1 t] suffix_order.trans [OF suffix_drop suffix_drop [of 1 t]] by auto
    from e True have j: "exponent" "j = pos s ?t1" by auto
    obtain plus k where 3: "Accept (CHR ''+'') s j = (plus, k)" by fastforce
    obtain minus l where 4: "(if plus then (True, k) else Accept (CHR ''-'') s k) = (minus, l)" by fastforce
    from Accept_either_pos [OF t1 3 [unfolded j(2)] 4] have l: "l = pos s ?t2" by auto
    from assms(1) True obtain c cs where c: "?t2 = c # cs" "IsDigit c" "r = dropWhile IsDigit ?t2"
      unfolding number_exp_def Let_def by (cases ?t2) (auto split: if_splits)
    note d = Digits_pos [OF t2]
    have "Digits s l \<noteq> 0" using d c by (simp add: l)
    moreover have "l + Digits s l = pos s r" "suffix r s" using d c(3) by (simp_all add: l)
    moreover have "suffix r t" unfolding c(3) using suffix_order.trans [OF suffix_dropWhile t2t] .
    ultimately show ?thesis using j(1) by (simp add: Walker_Exponent_def 1 2 3 4 Delimited_pos)
  qed
qed

lemma ParseNumber_walk:
  assumes "ParseNumber t = Inr (v, r)" "suffix t s"
  shows "Walker_Number s (pos s t) = (ended r, pos s r) \<and> suffix r s \<and> suffix r t"
proof -
  define t1 where "t1 = (if take 1 t = ''-'' then drop 1 t else t)"
  have t1: "suffix t1 s" "suffix t1 t"
    using assms(2) suffix_drop [of 1 t] suffix_order.trans [OF suffix_drop assms(2)] by (simp_all add: t1_def)
  note number = assms(1) [unfolded ParseNumber_def Let_def, folded t1_def]
  from number obtain c cs where c: "t1 = c # cs" "IsDigit c" by (cases t1) (auto split: if_splits)
  let ?t2 = "if c = CHR ''0'' then cs else dropWhile IsDigit t1"
  have "suffix ?t2 t1" using c(1) suffix_dropWhile [of IsDigit t1] by (auto intro: suffix_ConsI)
  then have t2: "suffix ?t2 s" "suffix ?t2 t" using t1 suffix_order.trans by metis+
  from assms(1) c obtain b t3 b' where f: "number_frac ?t2 = Inr (b, t3)" "number_exp b t3 = Inr (b', r)"
  proof -
    have "(\<not> IsDigit c) = False" using c(2) by simp
    note run = number [unfolded c(1) list.case this if_False, folded c(1)]
    show thesis
    proof (cases "number_frac ?t2")
      case (Inl e)
      with run show thesis by simp
    next
      case (Inr p)
      obtain b t3 where p: "p = (b, t3)" by fastforce
      note run = run [unfolded Inr p sum.case prod.case]
      show thesis
      proof (cases "number_exp b t3")
        case (Inl e)
        with run show thesis by simp
      next
        case (Inr q)
        with run have "snd q = r" by (cases q) simp
        with Inr have "number_exp b t3 = Inr (fst q, r)" by (metis prod.collapse)
        with \<open>number_frac ?t2 = Inr p\<close> p that show thesis by blast
      qed
    qed
  qed
  obtain m i where 1: "Accept (CHR ''-'') s (pos s t) = (m, i)" by fastforce
  have i: "i = pos s t1" using 1 Accept_pos [OF assms(2), of "CHR ''-''"] by (auto simp: t1_def split: if_splits)
  obtain zero j where 2: "Accept (CHR ''0'') s i = (zero, j)" by fastforce
  have zero: "zero = (c = CHR ''0'')" "j = pos s (if zero then cs else t1)"
    using 2 Accept_pos [OF t1(1), of "CHR ''0''"] c(1) by (auto simp: i split: if_splits)
  have some: "zero \<or> Digits s j \<noteq> 0" "j + (if zero then 0 else Digits s j) = pos s ?t2"
    using zero Digits_pos [OF t1(1)] c by auto
  obtain point k where 3: "Accept (CHR ''.'') s (pos s ?t2) = (point, k)" by fastforce
  note fr = number_frac_walk [OF f(1) t2(1) 3]
  note ex = number_exp_walk [OF f(2)]
  have "Walker_Number s (pos s t) = Walker_Exponent s (pos s t3)"
    using some fr unfolding Walker_Number_def Let_def 1 2 prod.case some(2) 3 by auto
  moreover have "suffix r t" using ex fr t2 suffix_order.trans by metis
  ultimately show ?thesis using ex fr by simp
qed

section \<open>The bitstack\<close>

definition stack_of :: "u64 \<Rightarrow> nat \<Rightarrow> bool" where
  "stack_of objects depth \<longleftrightarrow> (\<forall>n. bit objects n \<longrightarrow> n < depth)"

definition pushed :: "u64 \<Rightarrow> bool \<Rightarrow> u64" where
  "pushed objects object = push_bit 1 objects OR (if object then 1 else 0)"

lemma empty_stack [simp]: "stack_of 0 d"
  by (simp add: stack_of_def)

lemma pushed_bit: "bit (pushed objects b) n \<longleftrightarrow> n < 64 \<and> (if n = 0 then b else bit objects (n - 1))"
proof -
  have "bit (push_bit 1 objects) n \<longleftrightarrow> n < 64 \<and> 1 \<le> n \<and> bit objects (n - 1)"
    unfolding bit_push_bit_iff by (auto dest: bit_imp_le_length)
  then show ?thesis unfolding pushed_def bit_or_iff by (auto simp: bit_1_iff)
qed

lemma pushed_stack: "stack_of objects d \<Longrightarrow> stack_of (pushed objects b) (d + 1)"
  by (auto simp: stack_of_def pushed_bit split: if_splits)

lemma pushed_popped:
  assumes "stack_of objects d" "d < kMaxDepth"
  shows "drop_bit 1 (pushed objects b) = objects"
proof (rule bit_word_eqI)
  fix n :: nat
  have "\<not> bit objects n" if "n \<ge> 63" using assms that by (auto simp: stack_of_def kMaxDepth_def)
  then show "bit (drop_bit 1 (pushed objects b)) n = bit objects n"
    by (cases "n < 63") (simp_all add: bit_drop_bit_eq pushed_bit)
qed

lemma pushed_top: "(pushed objects b AND 1 = 1) = b"
proof -
  have "pushed objects b AND 1 = of_bool b"
    by (rule bit_word_eqI) (auto simp: bit_and_iff bit_1_iff pushed_bit)
  then show ?thesis by simp
qed

section \<open>Scalars and names\<close>

lemma parse_scalar_walk:
  assumes "parse_scalar t = Inr (v, r)" "suffix t s" "take 1 t \<noteq> [CHR 0x22]"
  shows "Walker_Scalar s (pos s t) = (ended r, pos s r) \<and> suffix r s \<and> suffix r t"
proof (cases "\<exists>w \<in> {''null'', ''true'', ''false''}. take 1 t = take 1 w")
  case True
  then obtain w where w: "w \<in> {''true'', ''false'', ''null''}" "take 1 t = take 1 w" by blast
  with assms(1) have t: "t = w @ r"
  proof -
    have "starts_with w t" "r = drop (length w) t"
      using w assms(1) by (auto simp: parse_scalar_def map_sum_Inr_iff Literal_def split: if_splits)
    then show ?thesis by (metis append_take_drop_id starts_with_def)
  qed
  then have r: "suffix r s" "suffix r t" using assms(2) suffix_appendD by (auto simp: suffix_def)
  have "find (\<lambda>literal. starts_with literal t) [''true'', ''false'', ''null''] = Some w"
    using w(1) by (auto simp: t starts_with_def)
  moreover have "Delimited s (pos s t + length w) = ended r"
    using pos_step [of w r s] r(1) t assms(2) by (simp flip: Delimited_pos)
  ultimately show ?thesis using r pos_step [of w r s] t assms(2)
    by (simp add: Walker_Scalar_def pos_drop)
next
  case False
  with assms have n: "ParseNumber t = Inr (v, r)" by (auto simp: parse_scalar_def)
  have "find (\<lambda>literal. starts_with literal t) [''true'', ''false'', ''null''] = None"
    using False by (cases t) (auto simp: starts_with_def)
  with ParseNumber_walk [OF n assms(2)] assms(2) show ?thesis by (simp add: Walker_Scalar_def pos_drop)
qed

lemma ParseString_walk:
  assumes "ParseString t = Inr (v, r)" "take 1 t = [CHR 0x22]" "SkipWhitespace u = t" "suffix u s"
  shows "Walker_String s (pos s u) = (Some (take (length t - length r - 2) (tl t)), pos s r) \<and> suffix r s \<and> suffix r t"
proof -
  obtain cs where t: "t = CHR 0x22 # cs" using assms(2) by (cases t) auto
  have ts: "suffix t s" using suffix_skip [OF assms(4)] assms(3) by simp
  note here = pos_head [OF ts [unfolded t]] pos_next [OF ts [unfolded t]]
  have cs: "suffix cs s" using ts t suffix_tl by metis
  from assms(1) have loop: "string_loop [] cs = Inr (v, r)" by (simp add: ParseString_def t)
  note w = string_loop_walk [OF loop cs]
  have "pos s r - 1 - pos s cs = length t - length r - 2"
    using w cs by (auto simp: pos_def t suffix_def)
  moreover have "drop (Suc (pos s t)) s = cs" using pos_drop [OF cs] here(2) t by simp
  ultimately show ?thesis using here w assms(3, 4) t
    by (simp add: Walker_String_def SkipSpace_pos Let_def suffix_ConsI)
qed

lemma member_key_walk:
  assumes "member_key ms t = Inr (key, r)" "SkipWhitespace u = t" "suffix u s"
  obtains colon where "MemberName s (pos s u) = (True, pos s colon)" "SkipWhitespace colon = r" "suffix colon s" "suffix colon t"
proof -
  from assms(1) obtain s1 where p: "take 1 t = [CHR 0x22]" "ParseString t = Inr (key, s1)"
    "take 1 (SkipWhitespace s1) = '':''" "r = SkipWhitespace (drop 1 (SkipWhitespace s1))"
    by (auto simp: member_key_def Let_def split: if_splits sum.splits)
  note w = ParseString_walk [OF p(2, 1) assms(2, 3)]
  let ?colon = "drop 1 (SkipWhitespace s1)"
  have "MemberName s (pos s u) = (True, pos s ?colon)" using w p(3) by (simp add: MemberName_def Take_pos)
  moreover have "suffix ?colon s1" using suffix_skip [of s1 s1] suffix_order.trans [OF suffix_drop] by simp
  ultimately show thesis using that [of ?colon] p(4) w suffix_order.trans by metis
qed

section \<open>Values\<close>

declare One_nat_def [simp del]

lemma SkipWhitespace_idem [simp]: "SkipWhitespace (SkipWhitespace t) = SkipWhitespace t"
  by (cases "dropWhile is_space t") (auto simp: SkipWhitespace_def dropWhile_eq_Cons_conv)

lemma Value_skip:
  "suffix t s \<Longrightarrow> Walker_Value False s (pos s t) objects d = Walker_Value False s (pos s (SkipWhitespace t)) objects d"
  unfolding Walker_Value.simps(1) [of s "pos s t"] Walker_Value.simps(1) [of s "pos s (SkipWhitespace t)"]
  by (simp only: SkipSpace_pos suffix_skip SkipWhitespace_idem)

lemma parse_scalar_no_space: "parse_scalar t = Inr (v, r) \<Longrightarrow> SkipWhitespace t = t"
proof (cases t)
  case (Cons c cs)
  assume run: "parse_scalar t = Inr (v, r)"
  have "\<not> is_space c"
  proof
    assume "is_space c"
    then have "c = CHR '' '' \<or> c = CHR 0x09 \<or> c = CHR 0x0A \<or> c = CHR 0x0D" by (simp add: is_space_def)
    then have "parse_scalar (c # cs) = fail (c # cs) ''not a JSON value''"
      by (elim disjE) (simp_all add: parse_scalar_def ParseNumber_def IsDigit_byte)
    with run Cons show False by simp
  qed
  with Cons show ?thesis by (simp add: SkipWhitespace_def)
qed (simp add: SkipWhitespace_def)

text \<open>After a value inside a container: on to the next one, or out of it.\<close>

lemma ended_comma:
  assumes "suffix t s" "SkipWhitespace t = CHR '','' # u"
  shows "Walker_Value True s (pos s t) (pushed objects b) (d + 1) =
    (if b then let (named, j) = MemberName s (pos s u) in
       if named then Walker_Value False s j (pushed objects b) (d + 1) else (False, j)
     else Walker_Value False s (pos s u) (pushed objects b) (d + 1))"
  using Take_here [OF assms] by (simp add: Walker_Value.simps(2) [of s "pos s t"] pushed_top Suc_eq_plus1)

lemma ended_close:
  assumes "suffix t s" "SkipWhitespace t = skip_close b # u" "stack_of objects d" "d < kMaxDepth"
  shows "Walker_Value True s (pos s t) (pushed objects b) (d + 1) = Walker_Value True s (pos s u) objects d"
proof -
  have "Take (CHR '','') s (pos s t) = (False, pos s (SkipWhitespace t))"
    using Take_pos [OF assms(1)] assms(2) by (simp add: skip_close_def)
  moreover have "Take (skip_close b) s (pos s (SkipWhitespace t)) = (True, pos s u)"
    using Take_here [OF suffix_skip [OF assms(1)], of "skip_close b" u] assms(2) SkipWhitespace_idem [of t]
    by (simp del: SkipWhitespace_idem)
  ultimately show ?thesis
    by (simp add: Walker_Value.simps(2) [of s "pos s t"] pushed_top pushed_popped [OF assms(3, 4)])
qed

lemma value_opens:
  assumes "suffix t s" "take 1 t = [if b then CHR ''{'' else CHR ''['']" "d < kMaxDepth" "stack_of objects d"
  shows "Walker_Value False s (pos s t) objects d =
    (if take 1 (SkipWhitespace (drop 1 t)) = [skip_close b]
     then Walker_Value True s (pos s (drop 1 (SkipWhitespace (drop 1 t)))) objects d
     else if b then let (named, j) = MemberName s (pos s (SkipWhitespace (drop 1 t))) in
       if named then Walker_Value False s j (pushed objects b) (d + 1) else (False, j)
     else Walker_Value False s (pos s (SkipWhitespace (drop 1 t))) (pushed objects b) (d + 1))"
proof -
  obtain cs where t: "t = (if b then CHR ''{'' else CHR ''['') # cs" using assms(2) by (cases t) auto
  note here = pos_head [OF assms(1) [unfolded t]] pos_next [OF assms(1) [unfolded t]]
  have cs: "suffix cs s" using assms(1) t suffix_tl by metis
  have skip: "SkipSpace s (pos s t) = pos s t"
    using assms(1) t by (simp add: SkipSpace_pos) (simp add: SkipWhitespace_def is_space_def)
  have top: "(s ! pos s t = CHR ''{'') = b" "s ! pos s t = CHR ''{'' \<or> s ! pos s t = CHR ''[''"
    "\<not> length s \<le> pos s t" using here t by auto
  have "Take (skip_close b) s (pos s t + 1) =
      (if take 1 (SkipWhitespace cs) = [skip_close b] then (True, pos s (drop 1 (SkipWhitespace cs)))
       else (False, pos s (SkipWhitespace cs)))"
    using Take_pos [OF cs, of "skip_close b"] here t by (simp add: Suc_eq_plus1)
  with assms(3, 4) top t show ?thesis
    unfolding Walker_Value.simps(1) [of s "pos s t"] Let_def skip top(1) pushed_def [symmetric]
    by (cases b) (simp_all add: pushed_popped)
qed

text \<open>What the walk does from a rest of the text on to a later one.\<close>

definition crosses :: "nat \<Rightarrow> bytes \<Rightarrow> bytes \<Rightarrow> bool" where
  "crosses depth t r \<longleftrightarrow> suffix r t \<and> (\<forall>s objects d. suffix t s \<and> d \<le> depth \<and> stack_of objects d \<and> ended r \<longrightarrow>
     Walker_Value False s (pos s t) objects d = Walker_Value True s (pos s r) objects d)"

definition crosses_items :: "bool \<Rightarrow> nat \<Rightarrow> bytes \<Rightarrow> bytes \<Rightarrow> bool" where
  "crosses_items b depth t r \<longleftrightarrow> suffix r t \<and> (\<forall>s objects d. suffix t s \<and> d \<le> depth \<and> stack_of objects d \<longrightarrow>
     (if b then let (named, j) = MemberName s (pos s t) in
        if named then Walker_Value False s j (pushed objects b) (d + 1) else (False, j)
      else Walker_Value False s (pos s t) (pushed objects b) (d + 1)) = Walker_Value True s (pos s r) objects d)"

lemma suffix_trans: "suffix a b \<Longrightarrow> suffix b c \<Longrightarrow> suffix a c"
  by (rule suffix_order.trans)

lemma MemberName_skip: "suffix t s \<Longrightarrow> MemberName s (pos s t) = MemberName s (pos s (SkipWhitespace t))"
  by (simp add: MemberName_def Walker_String_def SkipSpace_pos suffix_skip)

lemma value_crosses:
  assumes "crosses depth t r" "suffix t s" "d \<le> depth" "stack_of objects d" "SkipWhitespace r = c # u"
    "c = CHR '','' \<or> c = skip_close b"
  shows "Walker_Value False s (pos s t) objects d = Walker_Value True s (pos s r) objects d"
proof -
  have "ended r" using ended_before [OF assms(5)] assms(6) by (auto simp: skip_close_def split: if_splits)
  with assms(1-4) show ?thesis by (simp add: crosses_def)
qed

text \<open>An item and what follows it.\<close>

lemma items_more:
  assumes "crosses (depth + 1) (SkipWhitespace t) r1" "SkipWhitespace r1 = CHR '','' # u" "crosses_items False depth u r"
  shows "crosses_items False depth t r"
proof -
  have sx: "suffix r1 t" using assms(1) suffix_skip [of t t] suffix_trans by (auto simp: crosses_def)
  have "suffix u r1" using suffix_skip_next [OF _ assms(2), of r1] by simp
  then have u: "suffix u t" using sx suffix_trans by blast
  have "suffix r t" using assms(3) u suffix_trans by (auto simp: crosses_items_def)
  moreover have "Walker_Value False s (pos s t) (pushed objects False) (d + 1) = Walker_Value True s (pos s r) objects d"
    if s: "suffix t s" "d \<le> depth" "stack_of objects d" for s objects d
  proof -
    have r1: "suffix r1 s" "suffix u s" using sx u s(1) suffix_trans by blast+
    have "Walker_Value False s (pos s t) (pushed objects False) (d + 1) =
        Walker_Value True s (pos s r1) (pushed objects False) (d + 1)"
      using value_crosses [OF assms(1) suffix_skip [OF s(1)] _ pushed_stack [OF s(3)] assms(2)] s
      by (simp add: Value_skip)
    with ended_comma [OF r1(1) assms(2), of objects False d] assms(3) r1 s show ?thesis
      by (simp add: crosses_items_def)
  qed
  ultimately show ?thesis by (simp add: crosses_items_def)
qed

lemma items_last:
  assumes "crosses (depth + 1) (SkipWhitespace t) r1" "SkipWhitespace r1 = CHR '']'' # r" "depth < kMaxDepth"
  shows "crosses_items False depth t r"
proof -
  have sx: "suffix r1 t" using assms(1) suffix_skip [of t t] suffix_trans by (auto simp: crosses_def)
  have "suffix r r1" using suffix_skip_next [OF _ assms(2), of r1] by simp
  then have "suffix r t" using sx suffix_trans by blast
  moreover have "Walker_Value False s (pos s t) (pushed objects False) (d + 1) = Walker_Value True s (pos s r) objects d"
    if s: "suffix t s" "d \<le> depth" "stack_of objects d" for s objects d
  proof -
    have r1: "suffix r1 s" using sx s(1) suffix_trans by blast
    have "Walker_Value False s (pos s t) (pushed objects False) (d + 1) =
        Walker_Value True s (pos s r1) (pushed objects False) (d + 1)"
      using value_crosses [OF assms(1) suffix_skip [OF s(1)] _ pushed_stack [OF s(3)] assms(2), where b = False] s
      by (simp add: Value_skip skip_close_def)
    with ended_close [OF r1, of False r objects d] assms s show ?thesis by (simp add: skip_close_def)
  qed
  ultimately show ?thesis by (simp add: crosses_items_def)
qed

lemma member_step:
  assumes name: "member_key ms (SkipWhitespace t) = Inr (key, t1)" and item: "crosses (depth + 1) t1 r1"
    and after: "SkipWhitespace r1 = c # u" "c = CHR '','' \<or> c = CHR ''}''"
  shows "suffix u t \<and> (\<forall>s objects d. suffix t s \<and> d \<le> depth \<and> stack_of objects d \<longrightarrow> suffix r1 s \<and>
    (let (named, j) = MemberName s (pos s t) in
       if named then Walker_Value False s j (pushed objects True) (d + 1) else (False, j)) =
    Walker_Value True s (pos s r1) (pushed objects True) (d + 1))"
proof -
  have skip: "suffix (SkipWhitespace t) t" using suffix_skip [of t t] by simp
  obtain colon where "SkipWhitespace colon = t1" "suffix colon (SkipWhitespace t)"
    using member_key_walk [OF name refl suffix_order.refl] by metis
  then have "suffix t1 t" using skip suffix_trans suffix_skip by metis
  then have r1: "suffix r1 t" using item suffix_trans by (auto simp: crosses_def)
  have u: "suffix u t" using suffix_skip_next [OF r1 after(1)] by simp
  moreover have "suffix r1 s \<and> (let (named, j) = MemberName s (pos s t) in
       if named then Walker_Value False s j (pushed objects True) (d + 1) else (False, j)) =
    Walker_Value True s (pos s r1) (pushed objects True) (d + 1)"
    if s: "suffix t s" "d \<le> depth" "stack_of objects d" for s objects d
  proof -
    obtain colon where colon: "MemberName s (pos s t) = (True, pos s colon)" "SkipWhitespace colon = t1" "suffix colon s"
      using member_key_walk [OF name refl s(1)] by metis
    have "Walker_Value False s (pos s colon) (pushed objects True) (d + 1) =
        Walker_Value False s (pos s t1) (pushed objects True) (d + 1)"
      using Value_skip [OF colon(3)] colon(2) by metis
    moreover have "suffix t1 s" using colon suffix_skip by metis
    ultimately show ?thesis
      using value_crosses [OF item _ _ pushed_stack [OF s(3)] after(1), where s = s and b = True] after(2) s colon(1)
        suffix_trans [OF r1 s(1)] by (simp add: skip_close_def)
  qed
  ultimately show ?thesis by blast
qed

lemma members_more:
  assumes "member_key ms (SkipWhitespace t) = Inr (key, t1)" "crosses (depth + 1) t1 r1"
    "SkipWhitespace r1 = CHR '','' # u" "crosses_items True depth u r"
  shows "crosses_items True depth t r"
proof -
  note step = member_step [OF assms(1-3)]
  have "suffix r t" using assms(4) step suffix_trans by (auto simp: crosses_items_def)
  moreover have "(let (named, j) = MemberName s (pos s t) in
       if named then Walker_Value False s j (pushed objects True) (d + 1) else (False, j)) =
      Walker_Value True s (pos s r) objects d"
    if s: "suffix t s" "d \<le> depth" "stack_of objects d" for s objects d
  proof -
    have "suffix u s" "suffix r1 s" using step s suffix_trans by blast+
    with ended_comma [of r1 s u objects True d] assms(3, 4) step s show ?thesis
      by (simp add: crosses_items_def)
  qed
  ultimately show ?thesis by (simp add: crosses_items_def)
qed

lemma members_last:
  assumes "member_key ms (SkipWhitespace t) = Inr (key, t1)" "crosses (depth + 1) t1 r1"
    "SkipWhitespace r1 = CHR ''}'' # r" "depth < kMaxDepth"
  shows "crosses_items True depth t r"
proof -
  note step = member_step [OF assms(1-3)]
  have "(let (named, j) = MemberName s (pos s t) in
       if named then Walker_Value False s j (pushed objects True) (d + 1) else (False, j)) =
      Walker_Value True s (pos s r) objects d"
    if s: "suffix t s" "d \<le> depth" "stack_of objects d" for s objects d
    using ended_close [of r1 s True r objects d] assms(3, 4) step s by (simp add: skip_close_def)
  with step show ?thesis by (simp add: crosses_items_def)
qed

lemma container_crosses:
  assumes t: "take 1 t = [if b then CHR ''{'' else CHR ''['']" and depth: "depth < kMaxDepth"
    and items: "if take 1 (SkipWhitespace (drop 1 t)) = [skip_close b] then r = drop 1 (SkipWhitespace (drop 1 t))
      else crosses_items b depth (SkipWhitespace (drop 1 t)) r"
  shows "crosses depth t r"
proof -
  let ?u = "SkipWhitespace (drop 1 t)"
  have u: "suffix ?u t" using suffix_skip [OF suffix_drop] .
  have "suffix r ?u" using items suffix_drop by (auto simp: crosses_items_def split: if_splits)
  then have "suffix r t" using u suffix_trans by blast
  moreover have "Walker_Value False s (pos s t) objects d = Walker_Value True s (pos s r) objects d"
    if s: "suffix t s" "d \<le> depth" "stack_of objects d" for s objects d
  proof -
    have "d < kMaxDepth" "suffix ?u s" using s depth u suffix_trans by (simp, blast)
    note opens = value_opens [OF s(1) t this(1) s(3)]
    show ?thesis
    proof (cases "take 1 ?u = [skip_close b]")
      case True
      with opens items show ?thesis by simp
    next
      case False
      with items have "crosses_items b depth ?u r" by simp
      from this [unfolded crosses_items_def] \<open>suffix ?u s\<close> s(2, 3)
      show ?thesis unfolding opens if_not_P [OF False] by blast
    qed
  qed
  ultimately show ?thesis by (simp add: crosses_def)
qed

lemma scalar_crosses:
  assumes "parse_scalar t = Inr (v, r)" "take 1 t \<noteq> ''[''" "take 1 t \<noteq> ''{''" "t \<noteq> []"
  shows "crosses depth t r"
proof (cases "take 1 t = [CHR 0x22]")
  case True
  then obtain cs where t: "t = CHR 0x22 # cs" by (cases t) auto
  from assms(1) True obtain w where p: "ParseString t = Inr (w, r)"
    by (auto simp: parse_scalar_def map_sum_Inr_iff)
  have skip: "SkipWhitespace t = t" using assms(1) by (rule parse_scalar_no_space)
  have "Walker_Value False s (pos s t) objects d = Walker_Value True s (pos s r) objects d" if "suffix t s" for s objects d
    using ParseString_walk [OF p True skip that] pos_head [of "CHR 0x22" cs s] that t skip
    by (simp add: Walker_Value.simps(1) [of s "pos s (CHR 0x22 # cs)"] SkipSpace_pos)
  moreover have "suffix r t" using ParseString_walk [OF p True skip suffix_order.refl] by simp
  ultimately show ?thesis by (simp add: crosses_def)
next
  case False
  have skip: "SkipWhitespace t = t" using assms(1) by (rule parse_scalar_no_space)
  obtain c cs where t: "t = c # cs" using assms(4) by (cases t) auto
  have "Walker_Value False s (pos s t) objects d = Walker_Value True s (pos s r) objects d"
    if "suffix t s" "ended r" for s objects d
    using parse_scalar_walk [OF assms(1) that(1) False] pos_head [of c cs s] that t skip False assms(2, 3)
    by (simp add: Walker_Value.simps(1) [of s "pos s (c # cs)"] SkipSpace_pos)
  moreover have "suffix r t" using parse_scalar_walk [OF assms(1) suffix_order.refl False] by simp
  ultimately show ?thesis by (simp add: crosses_def)
qed

lemma parse_crosses:
  "value_parse keep depth t v r \<Longrightarrow> keep = None \<Longrightarrow> crosses depth t r"
  "array_parse keep depth vs t v r \<Longrightarrow> keep = None \<Longrightarrow> depth < kMaxDepth \<Longrightarrow> crosses_items False depth t r"
  "object_parse keep depth ms t v r \<Longrightarrow> keep = None \<Longrightarrow> depth < kMaxDepth \<Longrightarrow> crosses_items True depth t r"
proof (induction rule: value_parse_array_parse_object_parse.inducts)
  case (scalar depth t v r)
  then show ?case by (intro scalar_crosses)
next
  case (empty_array depth t)
  then show ?case by (intro container_crosses [of t False]) (simp_all add: skip_close_def)
next
  case (array depth t v r)
  then show ?case by (intro container_crosses [of t False]) (simp_all add: skip_close_def)
next
  case (empty_object depth t)
  then show ?case by (intro container_crosses [of t True]) (simp_all add: skip_close_def)
next
  case (object depth t v r)
  then show ?case by (intro container_crosses [of t True]) (simp_all add: skip_close_def)
next
  case (array_more depth t v1 r1 u vs v r)
  then show ?case using items_more [of depth t r1 u r] by simp
next
  case (array_last depth t v1 r1 r vs)
  then show ?case using items_last [of depth t r1 r] by simp
next
  case (kept_more ms t key t1 depth v1 r1 u v r)
  then show ?case using members_more [of ms t key t1 depth r1 u r] by simp
next
  case (kept_last ms t key t1 depth v1 r1 r)
  then show ?case using members_last [of ms t key t1 depth r1 r] by simp
qed (simp_all add: Kept_def)

end
