(* ===== verification/JsonCut.thy ===== *)
theory JsonCut
  imports WalkerFacts
begin

text \<open>
  What a value's reader leaves behind does not matter to it: the text it consumed, read alone, gives the same
  value and nothing over. \<open>server_capabilities.cpp\<close> rests on this: it hands the slice the walk crossed to
  \<open>Parse\<close>.
\<close>

section \<open>What follows does not matter\<close>

text \<open>A reader that stops before the last part of its text reads the same without it.\<close>

definition cuts :: "(bytes \<Rightarrow> 'a pres) \<Rightarrow> bool" where
  "cuts f \<longleftrightarrow> (\<forall>p z x q. f (p @ z) = Inr (x, q @ z) \<longrightarrow> f p = Inr (x, q))"

lemma dropWhile_cut: "dropWhile P (p @ z) = q @ z \<Longrightarrow> dropWhile P p = q"
proof (cases "\<forall>x \<in> set p. P x")
  case True
  assume cut: "dropWhile P (p @ z) = q @ z"
  then have "dropWhile P z = q @ z" using True by (simp add: dropWhile_append2)
  then have "length (q @ z) \<le> length z" using length_dropWhile_le by metis
  then show ?thesis using True by (simp add: dropWhile_append2)
next
  case False
  assume "dropWhile P (p @ z) = q @ z"
  with False show ?thesis by (auto simp: dropWhile_append1)
qed

lemma skip_cut: "SkipWhitespace (p @ z) = q @ z \<Longrightarrow> SkipWhitespace p = q"
  unfolding SkipWhitespace_def by (rule dropWhile_cut)

lemma drop_cut: "drop n (p @ z) = q @ z \<Longrightarrow> n \<le> length (p @ z) \<Longrightarrow> n \<le> length p \<and> drop n p = q"
proof -
  assume cut: "drop n (p @ z) = q @ z" and n: "n \<le> length (p @ z)"
  from arg_cong [OF cut, of length] n have "n \<le> length p" by simp
  with cut show ?thesis by simp
qed

lemma head_cut: "c # t = p @ z \<Longrightarrow> t = q @ z \<Longrightarrow> p = c # q"
  by (cases p) (auto dest: arg_cong [where f = length])

lemma ParseHex4_cut: "cuts ParseHex4"
  unfolding cuts_def
proof (intro allI impI)
  fix p z x q assume run: "ParseHex4 (p @ z) = Inr (x, q @ z)"
  then have d: "drop 4 (p @ z) = q @ z" "4 \<le> length (p @ z)" "hex_value (take 4 (p @ z)) 0 = Some x"
    by (auto simp: ParseHex4_def split: if_splits option.splits)
  from drop_cut [OF d(1, 2)] d(3) show "ParseHex4 p = Inr (x, q)" by (simp add: ParseHex4_def)
qed

lemma cutsD: "cuts f \<Longrightarrow> f (p @ z) = Inr (x, q @ z) \<Longrightarrow> f p = Inr (x, q)"
  unfolding cuts_def by blast

text \<open>A rest that ends in \<open>z\<close>.\<close>

lemma suffix_tail: "suffix (q @ z) t \<Longrightarrow> \<exists>m. t = m @ z"
  by (metis append.assoc suffix_def)

lemma ParseHex4_suffix: "ParseHex4 t = Inr (n, r) \<Longrightarrow> suffix r t"
  using ParseHex4_walk [OF _ suffix_order.refl] by blast

lemma ParseUnicodeEscape_cut: "cuts (ParseUnicodeEscape out)"
  unfolding cuts_def
proof (intro allI impI)
  fix p z x q assume run: "ParseUnicodeEscape out (p @ z) = Inr (x, q @ z)"
  then obtain u s1 where 1: "ParseHex4 (p @ z) = Inr (u, s1)"
    by (auto simp: ParseUnicodeEscape_def split: sum.splits prod.splits)
  show "ParseUnicodeEscape out p = Inr (x, q)"
  proof (cases "0xD800 \<le> u \<and> u \<le> 0xDBFF")
    case True
    with run 1 obtain low where 2: "starts_with [CHR 0x5C, CHR ''u''] s1" "ParseHex4 (drop 2 s1) = Inr (low, q @ z)"
      "\<not> (low < 0xDC00 \<or> low > 0xDFFF)" "x = AppendUtf8 (0x10000 + push_bit 10 (u - 0xD800) + (low - 0xDC00)) out"
      by (auto simp: ParseUnicodeEscape_def split: sum.splits prod.splits if_splits)
    have l: "2 \<le> length s1" using 2(1) by (auto simp: starts_with_def dest: arg_cong [where f = length])
    obtain m where m: "drop 2 s1 = m @ z" using suffix_tail [OF ParseHex4_suffix [OF 2(2)]] by blast
    then have "suffix z s1" by (metis append_take_drop_id suffix_def append.assoc)
    then obtain m1 where m1: "s1 = m1 @ z" by (auto simp: suffix_def)
    note d = drop_cut [OF m [unfolded m1]] 
    have m1l: "2 \<le> length m1" "drop 2 m1 = m" using d l m1 by auto
    have "ParseHex4 p = Inr (u, m1)" using cutsD [OF ParseHex4_cut] 1 m1 by blast
    moreover have "starts_with [CHR 0x5C, CHR ''u''] m1" using 2(1) m1 m1l by (simp add: starts_with_def)
    moreover have "ParseHex4 (drop 2 m1) = Inr (low, q)" using cutsD [OF ParseHex4_cut, of m z low q] 2(2) m m1l by simp
    ultimately show ?thesis using True 2(3, 4) by (simp add: ParseUnicodeEscape_def)
  next
    case False
    with run 1 have "s1 = q @ z" "\<not> (0xDC00 \<le> u \<and> u \<le> 0xDFFF)" "x = AppendUtf8 u out"
      by (auto simp: ParseUnicodeEscape_def split: if_splits)
    with cutsD [OF ParseHex4_cut, of p z u q] 1 show ?thesis
      by (simp add: ParseUnicodeEscape_def if_not_P [OF False])
  qed
qed

lemma string_loop_suffix: "string_loop out t = Inr (v, r) \<Longrightarrow> suffix r t"
  using string_loop_walk [OF _ suffix_order.refl] by blast

lemma string_loop_cut: "string_loop out t = Inr (v, q @ z) \<Longrightarrow> t = p @ z \<Longrightarrow> string_loop out p = Inr (v, q)"
proof (induction out t arbitrary: v q p rule: string_loop.induct)
  case (1 out t)
  note loop = "1.prems"(1) [unfolded string_loop.simps [of out t]]
  have "p \<noteq> []" using string_loop_length [OF "1.prems"(1)] "1.prems"(2) by auto
  then obtain c cs where p: "p = c # cs" by (cases p) auto
  then have t: "t = c # (cs @ z)" using "1.prems"(2) by simp
  show ?case
  proof (cases "c = CHR 0x22")
    case True
    with loop t have "v = out" "q = cs" by auto
    with True p show ?thesis by (subst string_loop.simps) simp
  next
    case quote: False
    with loop t have plain: "\<not> byte c < 0x20" by (auto split: if_splits)
    show ?thesis
    proof (cases "c = CHR 0x5C")
      case False
      with loop t quote plain have "string_loop (out @ [c]) (cs @ z) = Inr (v, q @ z)" by simp
      from "1.IH"(1) [OF t quote plain False this refl] p False quote plain show ?thesis
        by (simp add: string_loop.simps [of out "c # cs"])
    next
      case True
      show ?thesis
      proof (cases cs)
        case Nil
        with loop t True quote plain have "length (q @ z) < length z"
          by (cases z) (auto split: sum.splits option.splits if_splits
              dest!: string_loop_length ParseUnicodeEscape_length)
        then show ?thesis by simp
      next
        case (Cons e es)
        with t have e: "cs @ z = e # (es @ z)" by simp
        show ?thesis
        proof (cases "e = CHR ''u''")
          case u: True
          with loop t True e obtain out' r where r: "ParseUnicodeEscape out (es @ z) = Inr (out', r)"
            "string_loop out' r = Inr (v, q @ z)" by (auto split: sum.splits)
          obtain m where m: "r = m @ z" using suffix_tail [OF string_loop_suffix [OF r(2)]] by blast
          have "string_loop out' m = Inr (v, q)"
            using "1.IH"(2) [OF t quote plain _ e u r(1) refl r(2) m] True by simp
          moreover have "ParseUnicodeEscape out es = Inr (out', m)"
            using cutsD [OF ParseUnicodeEscape_cut] r(1) m by blast
          ultimately show ?thesis using p Cons True u by (simp add: string_loop.simps [of out "CHR 0x5C # _"])
        next
          case u: False
          with loop t True e obtain b where b: "plain_escape e = Some b" "string_loop (out @ [b]) (es @ z) = Inr (v, q @ z)"
            by (auto split: option.splits)
          have "string_loop (out @ [b]) es = Inr (v, q)"
            using "1.IH"(3) [OF t quote plain _ e u b refl] True by simp
          then show ?thesis using p Cons True u b(1) by (simp add: string_loop.simps [of out "CHR 0x5C # _"])
        qed
      qed
    qed
  qed
qed

section \<open>Literals and numbers\<close>

lemma Literal_cut: "cuts (Literal w)"
  unfolding cuts_def
proof (intro allI impI)
  fix p z x q assume run: "Literal w (p @ z) = Inr (x, q @ z)"
  then have d: "take (length w) (p @ z) = w" "drop (length w) (p @ z) = q @ z"
    by (auto simp: Literal_def starts_with_def split: if_splits)
  have "length w \<le> length (p @ z)" using d(1) by (metis length_take min.cobounded1)
  from drop_cut [OF d(2) this] d(1) show "Literal w p = Inr (x, q)" by (simp add: Literal_def starts_with_def)
qed

lemma digits_cut:
  assumes cut: "dropWhile IsDigit (p @ z) = q @ z" and digit: "p @ z = c # t" "IsDigit c"
  shows "\<exists>cs. p = c # cs \<and> dropWhile IsDigit p = q"
proof (cases p)
  case Nil
  with cut digit have "dropWhile IsDigit t = q @ c # t" by simp
  then have "length (q @ c # t) \<le> length t" by (metis length_dropWhile_le)
  then show ?thesis by simp
next
  case (Cons d cs)
  with dropWhile_cut [OF cut] digit show ?thesis by simp
qed

lemma number_frac_cut: "cuts number_frac"
  unfolding cuts_def
proof (intro allI impI)
  fix p z x q assume run: "number_frac (p @ z) = Inr (x, q @ z)"
  show "number_frac p = Inr (x, q)"
  proof (cases "take 1 (p @ z) = ''.''")
    case True
    with run obtain c t where d: "drop 1 (p @ z) = c # t" "IsDigit c" "dropWhile IsDigit (c # t) = q @ z" "x = False"
      by (auto simp: number_frac_def split: list.splits if_splits)
    have "suffix (q @ z) (drop 1 (p @ z))" using d by (metis suffix_dropWhile)
    then obtain m where m: "drop 1 (p @ z) = m @ z" using suffix_tail by blast
    moreover have "1 \<le> length (p @ z)" using d(1) by (cases "p @ z") auto
    ultimately have p: "1 \<le> length p" "drop 1 p = m" using drop_cut by blast+
    obtain cs where "m = c # cs" "dropWhile IsDigit m = q" using digits_cut [of m z q c t] d m by auto
    moreover have "take 1 p = ''.''" using True p(1) by simp
    ultimately show ?thesis using d p(2) by (simp add: number_frac_def)
  next
    case False
    with run have "p = q" "x = True" by (auto simp: number_frac_def split: if_splits)
    moreover have "take 1 p \<noteq> ''.''" using False by (cases p) auto
    ultimately show ?thesis by (simp add: number_frac_def)
  qed
qed

definition unsign :: "bytes \<Rightarrow> bytes" where
  "unsign s = (if take 1 s = ''+'' \<or> take 1 s = ''-'' then drop 1 s else s)"

lemma unsign_suffix: "suffix (unsign s) s"
  by (simp add: unsign_def suffix_drop)

lemma unsign_cut: "unsign (p @ z) = m @ z \<Longrightarrow> m \<noteq> [] \<Longrightarrow> unsign p = m"
proof (cases p)
  case Nil
  assume "unsign (p @ z) = m @ z" "m \<noteq> []"
  moreover have "length (unsign z) \<le> length z" using unsign_suffix suffix_length_le by blast
  ultimately show ?thesis using Nil by (cases m) auto
next
  case (Cons c cs)
  assume "unsign (p @ z) = m @ z"
  with Cons show ?thesis by (cases "c = CHR ''+'' \<or> c = CHR ''-''") (auto simp: unsign_def)
qed

lemma number_exp_unsign:
  "number_exp b s = (if take 1 s = ''e'' \<or> take 1 s = ''E'' then
     (case unsign (drop 1 s) of [] \<Rightarrow> fail [] ''digit expected in the exponent''
      | c # cs \<Rightarrow> if \<not> IsDigit c then fail (unsign (drop 1 s)) ''digit expected in the exponent''
          else Inr (False, dropWhile IsDigit (unsign (drop 1 s)))) else Inr (b, s))"
  by (simp only: number_exp_def unsign_def Let_def)

lemma number_frac_suffix: "number_frac s = Inr (b, r) \<Longrightarrow> suffix r s"
proof -
  assume run: "number_frac s = Inr (b, r)"
  have "r = dropWhile IsDigit (drop 1 s) \<or> r = s"
    using run by (auto simp: number_frac_def split: if_splits list.splits)
  then show ?thesis using suffix_dropWhile [of IsDigit "drop 1 s"] suffix_drop [of 1 s] suffix_order.trans by blast
qed

lemma number_exp_suffix: "number_exp i s = Inr (b, r) \<Longrightarrow> suffix r s"
proof -
  assume run: "number_exp i s = Inr (b, r)"
  have "r = dropWhile IsDigit (unsign (drop 1 s)) \<or> r = s"
    using run by (auto simp: number_exp_unsign split: if_splits list.splits)
  then show ?thesis
    using suffix_dropWhile [of IsDigit "unsign (drop 1 s)"] unsign_suffix [of "drop 1 s"] suffix_drop [of 1 s]
      suffix_order.trans by blast
qed

lemma number_exp_cut: "cuts (number_exp b)"
  unfolding cuts_def
proof (intro allI impI)
  fix p z x q assume run: "number_exp b (p @ z) = Inr (x, q @ z)"
  show "number_exp b p = Inr (x, q)"
  proof (cases "take 1 (p @ z) = ''e'' \<or> take 1 (p @ z) = ''E''")
    case True
    let ?u = "unsign (drop 1 (p @ z))"
    from run True obtain c t where d: "?u = c # t" "IsDigit c" "dropWhile IsDigit (c # t) = q @ z" "x = False"
      by (auto simp: number_exp_unsign split: list.splits if_splits)
    have s: "suffix (q @ z) ?u" using d by (metis suffix_dropWhile)
    then obtain m where m: "?u = m @ z" using suffix_tail by blast
    obtain cs where cs: "m = c # cs" "dropWhile IsDigit m = q" using digits_cut [of m z q c t] d m by auto
    have "length (m @ z) \<le> length (drop 1 (p @ z))" using m unsign_suffix suffix_length_le by metis
    then obtain e es where p: "p = e # es" using cs by (cases p) auto
    have "unsign es = m" using unsign_cut [of es z m] m p cs by simp
    then show ?thesis using True p d cs by (simp add: number_exp_unsign)
  next
    case False
    with run have "p = q" "x = b" by (auto simp: number_exp_unsign split: if_splits)
    moreover have "\<not> (take 1 p = ''e'' \<or> take 1 p = ''E'')" using False by (cases p) auto
    ultimately show ?thesis by (simp add: number_exp_unsign)
  qed
qed

definition unminus :: "bytes \<Rightarrow> bytes" where
  "unminus s = (if take 1 s = ''-'' then drop 1 s else s)"

lemma unminus_suffix: "suffix (unminus s) s"
  by (simp add: unminus_def suffix_drop)

lemma unminus_cut: "unminus (p @ z) = m @ z \<Longrightarrow> m \<noteq> [] \<Longrightarrow> unminus p = m"
proof (cases p)
  case Nil
  assume "unminus (p @ z) = m @ z" "m \<noteq> []"
  moreover have "length (unminus z) \<le> length z" using unminus_suffix suffix_length_le by blast
  ultimately show ?thesis using Nil by (cases m) auto
next
  case (Cons c cs)
  assume "unminus (p @ z) = m @ z"
  with Cons show ?thesis by (cases "c = CHR ''-''") (auto simp: unminus_def)
qed

text \<open>The digits before the point, and the number in its parts.\<close>

definition whole_part :: "bytes \<Rightarrow> bytes" where
  "whole_part s = (if take 1 s = ''0'' then drop 1 s else dropWhile IsDigit s)"

lemma ParseNumber_parts:
  "ParseNumber s = Inr (v, r) \<longleftrightarrow>
    (\<exists>c cs b t b'. unminus s = c # cs \<and> IsDigit c \<and> number_frac (whole_part (unminus s)) = Inr (b, t) \<and>
       number_exp b t = Inr (b', r) \<and>
       v = VNumber (if b' then from_chars (take (length s - length r) s) else None))"
  unfolding ParseNumber_def Let_def unminus_def [symmetric] whole_part_def
  by (cases "unminus s") (auto split: sum.splits)

lemma whole_part_suffix: "suffix (whole_part s) s"
  by (simp add: whole_part_def suffix_drop suffix_dropWhile)

lemma whole_part_cut:
  assumes "whole_part (p @ z) = q @ z" "p @ z = c # t" "IsDigit c"
  shows "\<exists>cs. p = c # cs \<and> whole_part p = q"
proof (cases "c = CHR ''0''")
  case True
  with assms have "t = q @ z" by (simp add: whole_part_def)
  with assms(2) have "p = c # q" using head_cut [of c t p z q] by simp
  then show ?thesis using True by (simp add: whole_part_def)
next
  case False
  with assms digits_cut [of p z q c t] obtain cs where "p = c # cs" "dropWhile IsDigit p = q"
    by (auto simp: whole_part_def)
  with False show ?thesis by (simp add: whole_part_def)
qed

lemma ParseNumber_cut: "cuts ParseNumber"
  unfolding cuts_def
proof (intro allI impI)
  fix p z x q assume "ParseNumber (p @ z) = Inr (x, q @ z)"
  then obtain c cs b t b' where run: "unminus (p @ z) = c # cs" "IsDigit c"
    "number_frac (whole_part (unminus (p @ z))) = Inr (b, t)" "number_exp b t = Inr (b', q @ z)"
    "x = VNumber (if b' then from_chars (take (length (p @ z) - length (q @ z)) (p @ z)) else None)"
    unfolding ParseNumber_parts by blast
  obtain m3 where m3: "t = m3 @ z" using suffix_tail [OF number_exp_suffix [OF run(4)]] by blast
  obtain m2 where m2: "whole_part (unminus (p @ z)) = m2 @ z"
    using suffix_tail [OF number_frac_suffix [OF run(3), unfolded m3]] by blast
  obtain m1 where m1: "unminus (p @ z) = m1 @ z"
    using suffix_tail [of m2 z] whole_part_suffix [of "unminus (p @ z)"] m2 by metis
  obtain cs' where c: "m1 = c # cs'" "whole_part m1 = m2"
    using whole_part_cut [OF m2 [unfolded m1] run(1) [unfolded m1] run(2)] by blast
  have p: "unminus p = m1" using unminus_cut [OF m1] c by simp
  have "take (length (p @ z) - length (q @ z)) (p @ z) = take (length p - length q) p" by simp
  moreover have "number_frac m2 = Inr (b, m3)" using cutsD [OF number_frac_cut] run(3) m2 m3 by metis
  moreover have "number_exp b m3 = Inr (b', q)" using cutsD [OF number_exp_cut] run(4) m3 by metis
  ultimately show "ParseNumber p = Inr (x, q)"
    unfolding ParseNumber_parts using p c run(2, 5) by metis
qed

section \<open>Scalars and keys\<close>

lemma ParseString_cut:
  assumes "ParseString (p @ z) = Inr (v, q @ z)" "take 1 (p @ z) = [CHR 0x22]"
  shows "ParseString p = Inr (v, q) \<and> take 1 p = [CHR 0x22]"
proof -
  have loop: "string_loop [] (tl (p @ z)) = Inr (v, q @ z)" using assms(1) by (simp add: ParseString_def)
  obtain m where m: "tl (p @ z) = m @ z" using suffix_tail [OF string_loop_suffix [OF loop]] by blast
  have "p = CHR 0x22 # m" using assms(2) m by (cases "p @ z") (auto intro: head_cut)
  with string_loop_cut [OF loop m] show ?thesis by (simp add: ParseString_def)
qed

lemma take_cut: "p \<noteq> [] \<Longrightarrow> take 1 (p @ z) = take 1 p"
  by (cases p) auto

lemma map_cut: "cuts f \<Longrightarrow> cuts (\<lambda>s. map_sum id (apfst g) (f s))"
proof (unfold cuts_def, intro allI impI)
  fix p z x q
  assume f: "\<forall>p z x q. f (p @ z) = Inr (x, q @ z) \<longrightarrow> f p = Inr (x, q)"
    and run: "map_sum id (apfst g) (f (p @ z)) = Inr (x, q @ z)"
  from run obtain y where y: "f (p @ z) = Inr (y, q @ z)" "x = g y" by (cases "f (p @ z)") auto
  from f y(1) have "f p = Inr (y, q)" by blast
  with y(2) show "map_sum id (apfst g) (f p) = Inr (x, q)" by simp
qed

lemma parse_scalar_cut: "cuts parse_scalar"
  unfolding cuts_def
proof (intro allI impI)
  fix p z x q assume run: "parse_scalar (p @ z) = Inr (x, q @ z)"
  have "p \<noteq> []" using parse_scalar_length [OF run] by auto
  note head = take_cut [OF this, of z]
  note run = run [unfolded parse_scalar_def head]
  consider "take 1 p = ''n''" | "take 1 p = ''t''" | "take 1 p = ''f''" | "take 1 p = [CHR 0x22]"
    | "take 1 p \<noteq> ''n''" "take 1 p \<noteq> ''t''" "take 1 p \<noteq> ''f''" "take 1 p \<noteq> [CHR 0x22]" by blast
  then show "parse_scalar p = Inr (x, q)"
  proof cases
    case 1
    with run cutsD [OF map_cut [OF Literal_cut]] show ?thesis by (simp add: parse_scalar_def)
  next
    case 2
    with run cutsD [OF map_cut [OF Literal_cut]] show ?thesis by (simp add: parse_scalar_def)
  next
    case 3
    with run cutsD [OF map_cut [OF Literal_cut]] show ?thesis by (simp add: parse_scalar_def)
  next
    case 4
    with run obtain v where v: "ParseString (p @ z) = Inr (v, q @ z)" "x = VString v"
      by (cases "ParseString (p @ z)") auto
    with ParseString_cut [OF v(1)] 4 head show ?thesis by (simp add: parse_scalar_def)
  next
    case 5
    note else = if_not_P [OF 5(1)] if_not_P [OF 5(2)] if_not_P [OF 5(3)] if_not_P [OF 5(4)]
    show ?thesis using cutsD [OF ParseNumber_cut run [unfolded else]] unfolding parse_scalar_def else .
  qed
qed

lemma member_key_parts:
  "member_key ms s = Inr (key, r) \<longleftrightarrow> take 1 s = [CHR 0x22] \<and> key \<notin> fst ` set ms \<and>
     (\<exists>s1 t. ParseString s = Inr (key, s1) \<and> SkipWhitespace s1 = CHR '':'' # t \<and> r = SkipWhitespace t)"
proof (cases "ParseString s")
  case (Inr a)
  obtain k s1 where a: "a = (k, s1)" by fastforce
  show ?thesis
    by (cases "SkipWhitespace s1") (auto simp: member_key_def Let_def Inr a split: if_splits)
qed (simp add: member_key_def)

lemma SkipWhitespace_suffix: "suffix (SkipWhitespace s) s"
  by (simp add: SkipWhitespace_def suffix_dropWhile)

lemma member_key_cut: "cuts (member_key ms)"
  unfolding cuts_def
proof (intro allI impI)
  fix p z x q assume run: "member_key ms (p @ z) = Inr (x, q @ z)"
  then obtain s1 t where k: "take 1 (p @ z) = [CHR 0x22]" "x \<notin> fst ` set ms" "ParseString (p @ z) = Inr (x, s1)"
    "SkipWhitespace s1 = CHR '':'' # t" "q @ z = SkipWhitespace t" unfolding member_key_parts by blast
  obtain m where m: "t = m @ z" using suffix_tail [of q z t] SkipWhitespace_suffix [of t] k(5) by metis
  have c: "SkipWhitespace s1 = (CHR '':'' # m) @ z" using k(4) m by simp
  then obtain m1 where m1: "s1 = m1 @ z"
    using suffix_tail [of "CHR '':'' # m" z s1] SkipWhitespace_suffix [of s1] by metis
  have "ParseString p = Inr (x, m1)" "take 1 p = [CHR 0x22]"
    using ParseString_cut [of p z x m1] k(1, 3) m1 by auto
  moreover have "SkipWhitespace m1 = CHR '':'' # m" using skip_cut [of m1 z "CHR '':'' # m"] c m1 by simp
  moreover have "SkipWhitespace m = q" using skip_cut [of m z q] k(5) m by simp
  ultimately show "member_key ms p = Inr (x, q)" unfolding member_key_parts using k(2) by metis
qed

section \<open>Values\<close>

lemma Literal_suffix: "Literal w s = Inr (u, r) \<Longrightarrow> suffix r s"
  by (auto simp: Literal_def suffix_drop split: if_splits)

lemma ParseString_suffix: "ParseString s = Inr (v, r) \<Longrightarrow> suffix r s"
  using string_loop_suffix [of "[]" "drop 1 s" v r] suffix_drop [of 1 s] suffix_order.trans
  unfolding ParseString_def drop_Suc drop_0 One_nat_def by metis

lemma ParseNumber_suffix: "ParseNumber s = Inr (v, r) \<Longrightarrow> suffix r s"
  using ParseNumber_walk [OF _ suffix_order.refl] by blast

lemma map_rest: "map_sum id (apfst g) x = Inr (v, r) \<Longrightarrow> \<exists>y. x = Inr (y, r)"
  by (cases x) auto

lemma parse_scalar_suffix: "parse_scalar s = Inr (v, r) \<Longrightarrow> suffix r s"
  unfolding parse_scalar_def
  by (auto split: if_splits dest: Literal_suffix ParseString_suffix ParseNumber_suffix dest!: map_rest)

lemma member_key_suffix: "member_key ms s = Inr (key, r) \<Longrightarrow> suffix r s"
  unfolding member_key_parts
  using ParseString_suffix SkipWhitespace_suffix suffix_ConsI suffix_order.trans by metis

lemma skip_next_suffix: "SkipWhitespace s = c # t \<Longrightarrow> suffix t s"
  using SkipWhitespace_suffix [of s] suffix_ConsD by metis

lemma opened_suffix: "suffix (SkipWhitespace (drop 1 s)) s"
  using SkipWhitespace_suffix [of "drop 1 s"] suffix_drop [of 1 s] suffix_order.trans by blast

lemma parse_suffix:
  "value_parse keep depth t v r \<Longrightarrow> keep = None \<Longrightarrow> suffix r t"
  "array_parse keep depth vs t v r \<Longrightarrow> keep = None \<Longrightarrow> suffix r t"
  "object_parse keep depth ms t v r \<Longrightarrow> keep = None \<Longrightarrow> suffix r t"
proof (induction rule: value_parse_array_parse_object_parse.inducts)
  case (scalar depth s v r)
  then show ?case using parse_scalar_suffix by blast
next
  case (empty_array depth s)
  then show ?case using opened_suffix [of s] suffix_drop suffix_order.trans by blast
next
  case (array depth s v r)
  then show ?case using opened_suffix [of s] suffix_order.trans by blast
next
  case (empty_object depth s)
  then show ?case using opened_suffix [of s] suffix_drop suffix_order.trans by blast
next
  case (object depth s v r)
  then show ?case using opened_suffix [of s] suffix_order.trans by blast
next
  case (array_more depth s v1 s1 t vs v r)
  then show ?case using skip_next_suffix [of s1] SkipWhitespace_suffix [of s] suffix_order.trans by metis
next
  case (array_last depth s v1 s1 r vs)
  then show ?case using skip_next_suffix [of s1] SkipWhitespace_suffix [of s] suffix_order.trans by metis
next
  case (kept_more ms s key s1 depth v1 s2 t v r)
  then show ?case
    using skip_next_suffix [of s2] member_key_suffix [of ms "SkipWhitespace s" key s1] SkipWhitespace_suffix [of s]
      suffix_order.trans by metis
next
  case (kept_last ms s key s1 depth v1 s2 r)
  then show ?case
    using skip_next_suffix [of s2] member_key_suffix [of ms "SkipWhitespace s" key s1] SkipWhitespace_suffix [of s]
      suffix_order.trans by metis
qed (simp_all add: Kept_def)

lemma value_nonempty: "value_parse keep depth t v r \<Longrightarrow> t \<noteq> []"
  by (erule value_parse.cases) auto

lemma array_nonempty: "array_parse keep depth vs t v r \<Longrightarrow> t \<noteq> []"
  by (erule array_parse.cases) (use value_nonempty in \<open>fastforce simp: SkipWhitespace_def\<close>)+

lemma object_nonempty: "object_parse keep depth ms t v r \<Longrightarrow> t \<noteq> []"
  by (erule object_parse.cases) (auto simp: SkipWhitespace_def member_key_def)

text \<open>The three shapes a step has: an opening bracket, a separator or closing bracket, a key.\<close>

lemma opened_cut:
  assumes "take 1 (p @ z) = [c]" "SkipWhitespace (drop 1 (p @ z)) = q @ z"
  shows "take 1 p = [c] \<and> SkipWhitespace (drop 1 p) = q"
proof (cases p)
  case Nil
  with assms(1) have "length (drop 1 (p @ z)) < length z" by (cases z) auto
  moreover have "length (q @ z) \<le> length (drop 1 (p @ z))"
    using SkipWhitespace_length [of "drop 1 (p @ z)"] assms(2) by simp
  ultimately show ?thesis by simp
next
  case (Cons d ds)
  with assms skip_cut [of ds z q] show ?thesis by simp
qed

lemma tail_after: "suffix (q @ z) t \<Longrightarrow> SkipWhitespace s = c # t \<Longrightarrow>
    \<exists>m n. t = m @ z \<and> s = n @ z \<and> SkipWhitespace n = c # m"
proof -
  assume q: "suffix (q @ z) t" and s: "SkipWhitespace s = c # t"
  obtain m where m: "t = m @ z" using suffix_tail [OF q] by blast
  with s have c: "SkipWhitespace s = (c # m) @ z" by simp
  then obtain n where n: "s = n @ z" using suffix_tail SkipWhitespace_suffix by metis
  with skip_cut [of n z "c # m"] c m show ?thesis by blast
qed

lemma value_cut:
  "value_parse keep depth t v r \<Longrightarrow> keep = None \<Longrightarrow> t = p @ z \<Longrightarrow> r = q @ z \<Longrightarrow> d \<le> depth \<Longrightarrow>
     value_parse None d p v q"
  "array_parse keep depth vs t v r \<Longrightarrow> keep = None \<Longrightarrow> t = p @ z \<Longrightarrow> r = q @ z \<Longrightarrow> d \<le> depth \<Longrightarrow>
     array_parse None d vs p v q"
  "object_parse keep depth ms t v r \<Longrightarrow> keep = None \<Longrightarrow> t = p @ z \<Longrightarrow> r = q @ z \<Longrightarrow> d \<le> depth \<Longrightarrow>
     object_parse None d ms p v q"
proof (induction arbitrary: p q d and p q d and p q d rule: value_parse_array_parse_object_parse.inducts)
  case (scalar depth s v r)
  then have run: "parse_scalar p = Inr (v, q)" using cutsD [OF parse_scalar_cut] by blast
  then have "p \<noteq> []" using parse_scalar_length [OF run] by auto
  moreover from this have "take 1 p = take 1 s" using take_cut scalar.prems(2) by metis
  ultimately show ?case using scalar run by (intro value_parse_array_parse_object_parse.scalar) auto
next
  case (empty_array depth s)
  obtain m where m: "SkipWhitespace (drop 1 s) = CHR '']'' # m"
    using empty_array.hyps(3) by (cases "SkipWhitespace (drop 1 s)") auto
  with opened_cut [of p z "CHR ''[''" "CHR '']'' # q"] empty_array
  have "take 1 p = ''[''" "SkipWhitespace (drop 1 p) = CHR '']'' # q" by auto
  with empty_array value_parse_array_parse_object_parse.empty_array [of d p None] show ?case by simp
next
  case (array depth s v r)
  have "suffix (q @ z) (SkipWhitespace (drop 1 s))" using parse_suffix(2) array.IH(1) array.prems by blast
  then obtain m where m: "SkipWhitespace (drop 1 s) = m @ z" using suffix_tail by blast
  with opened_cut [of p z "CHR ''[''" m] array have p: "take 1 p = ''[''" "SkipWhitespace (drop 1 p) = m" by auto
  have items: "array_parse None d [] m v q" using array.IH(2) m array.prems by blast
  then have "m \<noteq> []" by (rule array_nonempty)
  then have "take 1 m \<noteq> '']''" using array.hyps(3) m take_cut by metis
  with value_parse_array_parse_object_parse.array [of d p None v q] p items array show ?case by simp
next
  case (empty_object depth s)
  obtain m where m: "SkipWhitespace (drop 1 s) = CHR ''}'' # m"
    using empty_object.hyps(3) by (cases "SkipWhitespace (drop 1 s)") auto
  with opened_cut [of p z "CHR ''{''" "CHR ''}'' # q"] empty_object
  have "take 1 p = ''{''" "SkipWhitespace (drop 1 p) = CHR ''}'' # q" by auto
  with empty_object value_parse_array_parse_object_parse.empty_object [of d p None] show ?case by simp
next
  case (object depth s v r)
  have "suffix (q @ z) (SkipWhitespace (drop 1 s))" using parse_suffix(3) object.IH(1) object.prems by blast
  then obtain m where m: "SkipWhitespace (drop 1 s) = m @ z" using suffix_tail by blast
  with opened_cut [of p z "CHR ''{''" m] object have p: "take 1 p = ''{''" "SkipWhitespace (drop 1 p) = m" by auto
  have items: "object_parse None d [] m v q" using object.IH(2) m object.prems by blast
  then have "m \<noteq> []" by (rule object_nonempty)
  then have "take 1 m \<noteq> ''}''" using object.hyps(3) m take_cut by metis
  with value_parse_array_parse_object_parse.object [of d p None v q] p items object show ?case by simp
next
  case (array_more depth s v1 s1 t vs v r)
  have "suffix (q @ z) t" using parse_suffix(2) array_more.IH(3) array_more.prems by blast
  from tail_after [OF this array_more.hyps] obtain m n where
    m: "t = m @ z" "s1 = n @ z" "SkipWhitespace n = CHR '','' # m" by blast
  obtain w where w: "SkipWhitespace s = w @ z"
    using suffix_tail parse_suffix(1) [OF array_more.IH(1)] array_more.prems(1) m(2) by metis
  then have "SkipWhitespace p = w" using skip_cut array_more.prems(2) by blast
  moreover have "value_parse None (d + 1) w v1 n" using array_more.IH(2) array_more.prems w m by simp
  moreover have "array_parse None d (vs @ [v1]) m v q" using array_more.IH(4) array_more.prems m by blast
  ultimately show ?case using value_parse_array_parse_object_parse.array_more m(3) by blast
next
  case (array_last depth s v1 s1 r vs)
  have "suffix (q @ z) r" using array_last.prems by simp
  from tail_after [OF this array_last.hyps] obtain m n where
    m: "r = m @ z" "s1 = n @ z" "SkipWhitespace n = CHR '']'' # m" by blast
  obtain w where w: "SkipWhitespace s = w @ z"
    using suffix_tail parse_suffix(1) [OF array_last.IH(1)] array_last.prems(1) m(2) by metis
  then have "SkipWhitespace p = w" using skip_cut array_last.prems(2) by blast
  moreover have "value_parse None (d + 1) w v1 n" using array_last.IH(2) array_last.prems w m by simp
  ultimately show ?case
    using value_parse_array_parse_object_parse.array_last [of None d p v1 n m vs] m array_last.prems(3) by simp
next
  case (kept_more ms s key s1 depth v1 s2 t v r)
  have "suffix (q @ z) t" using parse_suffix(3) kept_more.IH(4) kept_more.prems by blast
  from tail_after [OF this kept_more.hyps(2)] obtain m n where
    m: "t = m @ z" "s2 = n @ z" "SkipWhitespace n = CHR '','' # m" by blast
  obtain w where w: "s1 = w @ z"
    using suffix_tail parse_suffix(1) [OF kept_more.IH(2)] kept_more.prems(1) m(2) by metis
  obtain u where u: "SkipWhitespace s = u @ z"
    using suffix_tail member_key_suffix [OF kept_more.hyps(1)] w by metis
  then have "SkipWhitespace p = u" using skip_cut kept_more.prems(2) by blast
  moreover have "member_key ms u = Inr (key, w)" using cutsD [OF member_key_cut] kept_more.hyps(1) u w by metis
  moreover have "value_parse None (d + 1) w v1 n" using kept_more.IH(3) kept_more.prems w m by simp
  moreover have "object_parse None d (ms @ [(key, v1)]) m v q" using kept_more.IH(5) kept_more.prems m by blast
  ultimately show ?case
    using value_parse_array_parse_object_parse.kept_more [of ms p key w None d v1 n m v q] m(3) by (simp add: Kept_def)
next
  case (kept_last ms s key s1 depth v1 s2 r)
  have "suffix (q @ z) r" using kept_last.prems by simp
  from tail_after [OF this kept_last.hyps(2)] obtain m n where
    m: "r = m @ z" "s2 = n @ z" "SkipWhitespace n = CHR ''}'' # m" by blast
  obtain w where w: "s1 = w @ z"
    using suffix_tail parse_suffix(1) [OF kept_last.IH(2)] kept_last.prems(1) m(2) by metis
  obtain u where u: "SkipWhitespace s = u @ z"
    using suffix_tail member_key_suffix [OF kept_last.hyps(1)] w by metis
  then have "SkipWhitespace p = u" using skip_cut kept_last.prems(2) by blast
  moreover have "member_key ms u = Inr (key, w)" using cutsD [OF member_key_cut] kept_last.hyps(1) u w by metis
  moreover have "value_parse None (d + 1) w v1 n" using kept_last.IH(3) kept_last.prems w m by simp
  ultimately show ?case
    using value_parse_array_parse_object_parse.kept_last [of ms p key w None d v1 n m] m kept_last.prems(3)
    by (simp add: Kept_def)
qed (simp_all add: Kept_def)

end
