(* ===== verification/ServerCapabilities.thy ===== *)
theory ServerCapabilities
  imports JsonCut Auth Retry
begin

text \<open>
  What a RomM release can do, read off \<open>GET /api/heartbeat\<close> (\<open>core/src/server_capabilities.cpp\<close>): the member
  of the top level the walk finds, versions and their order, the flags a version turns on, and the call.
\<close>

section \<open>One member of the top level\<close>

lemma Walker_Value_le: "Walker_Value e s a objects d = (True, b) \<Longrightarrow> a \<le> b"
proof (induction e s a objects d arbitrary: b rule: Walker_Value.induct)
  case (1 s i objects depth)
  let ?i = "SkipSpace s i" and ?object = "s ! SkipSpace s i = CHR ''{''"
  have here: "i \<le> ?i" by (rule SkipSpace_le)
  note run = "1.prems" [unfolded Walker_Value.simps(1) [of s i] Let_def]
  have inside: "\<not> ?i \<ge> length s" using run by (auto split: if_splits)
  show ?case
  proof (cases "?object \<or> s ! ?i = CHR ''[''")
    case bracket: True
    with run inside have depth: "\<not> depth \<ge> kMaxDepth" by (auto split: if_splits)
    obtain closed j where t: "Take (skip_close ?object) s (?i + 1) = (closed, j)" by fastforce
    have j: "?i + 1 \<le> j" using Take_either [of closed j] t by metis
    note run = run [unfolded if_not_P [OF inside] if_P [OF bracket] if_not_P [OF depth] t prod.case]
    note IH = "1.IH"(1-3) [OF refl inside bracket depth refl refl t [symmetric] refl]
    show ?thesis
    proof (cases closed)
      case True
      have "j \<le> b" by (rule IH(1) [OF True]) (use run True in simp)
      with j here show ?thesis by simp
    next
      case open': False
      show ?thesis
      proof (cases ?object)
        case True
        obtain named k where m: "MemberName s j = (named, k)" by fastforce
        note run = run [unfolded if_not_P [OF open'] if_P [OF True] m prod.case]
        have named using run by (auto split: if_splits)
        have "k \<le> b" by (rule IH(2) [OF open' True m [symmetric] refl \<open>named\<close>]) (use run \<open>named\<close> True in simp)
        with MemberName_forward [of s j k] m \<open>named\<close> j here show ?thesis by simp
      next
        case False
        note run = run [unfolded if_not_P [OF open'] if_not_P [OF False]]
        have "j \<le> b" by (rule IH(3) [OF open' False]) (use run False in simp)
        with j here show ?thesis by simp
      qed
    qed
  next
    case plain: False
    note run = run [unfolded if_not_P [OF inside] if_not_P [OF plain]]
    show ?thesis
    proof (cases "s ! ?i = CHR 0x22")
      case True
      obtain name j where w: "Walker_String s ?i = (name, j)" by fastforce
      note run = run [unfolded if_P [OF True] w prod.case]
      then have "name \<noteq> None" by (auto split: if_splits)
      with run "1.IH"(4) [OF refl inside plain True w [symmetric] refl] String_forward [of s ?i _ j] w here
      show ?thesis by fastforce
    next
      case False
      obtain good j where w: "Walker_Scalar s ?i = (good, j)" by fastforce
      note run = run [unfolded if_not_P [OF False] w prod.case]
      then have good by (auto split: if_splits)
      with run "1.IH"(5) [OF refl inside plain False w [symmetric] refl] Walker_Scalar_forward [of s ?i j] w here
      show ?thesis by fastforce
    qed
  qed
next
  case (2 s i objects depth)
  let ?object = "objects AND 1 = 1"
  note run = "2.prems" [unfolded Walker_Value.simps(2) [of s i] Let_def]
  show ?case
  proof (cases "depth = 0")
    case True
    with run show ?thesis by simp
  next
    case deep: False
    obtain comma j where c: "Take (CHR '','') s i = (comma, j)" by fastforce
    have j: "i \<le> j" using Take_either [of comma j] c by metis
    note run = run [unfolded if_not_P [OF deep] c prod.case]
    note IH = "2.IH" [OF deep refl c [symmetric] refl]
    show ?thesis
    proof (cases comma)
      case comma: True
      show ?thesis
      proof (cases ?object)
        case True
        obtain named k where m: "MemberName s j = (named, k)" by fastforce
        note run = run [unfolded if_P [OF comma] if_P [OF True] m prod.case]
        have named using run by (auto split: if_splits)
        have "k \<le> b" by (rule IH(1) [OF comma True m [symmetric] refl \<open>named\<close>]) (use run \<open>named\<close> True in simp)
        with MemberName_forward [of s j k] m \<open>named\<close> j show ?thesis by simp
      next
        case False
        with run IH(2) [OF comma False] comma j show ?thesis by fastforce
      qed
    next
      case False
      obtain closed k where t: "Take (skip_close ?object) s j = (closed, k)" by fastforce
      note run = run [unfolded if_not_P [OF False] t prod.case]
      have closed using run by (auto split: if_splits)
      with run IH(3) [OF False t [symmetric] refl] Take_forward [of "skip_close ?object" s j k] t j show ?thesis by fastforce
    qed
  qed
qed

definition walk_fail :: "nat \<Rightarrow> bytes \<Rightarrow> Error" where
  "walk_fail i m = \<lparr>offset = i, field = [], message = m\<rparr>"

lemma member_forward:
  assumes "Walker_String s i = (Some name, j)" "Take (CHR '':'') s j = (True, k)"
    "Walker_Value False s (SkipSpace s k) 0 0 = (True, m)" "Take (CHR '','') s m = (True, n)"
  shows "i < n \<and> n \<le> length s"
  using String_forward [OF assms(1)] Take_forward [OF assms(2)] SkipSpace_le [of k s] Walker_Value_le [OF assms(3)]
    Take_forward [OF assms(4)] by linarith

text \<open>The members, from a name on: where the walk is after the closing brace, and the slice found.\<close>

function (sequential) top_members ::
  "bytes \<Rightarrow> bytes \<Rightarrow> nat \<Rightarrow> bytes option \<Rightarrow> Error + nat \<times> bytes option" where
  "top_members s key i found =
     (case Walker_String s i of
        (None, i) \<Rightarrow> Inl (walk_fail i ''expected a member name'')
      | (Some name, i) \<Rightarrow>
          let (colon, i) = Take (CHR '':'') s i in
          if \<not> colon then Inl (walk_fail i (''expected '' @ [CHR 0x27] @ '':'' @ [CHR 0x27] @ '' after a member name''))
          else
            let start = SkipSpace s i; (good, i) = Walker_Value False s start 0 0 in
            if \<not> good then Inl (walk_fail i ''a member's value ends early or does not balance'')
            else if name = key \<and> found \<noteq> None
            then Inl ((walk_fail start ''the member appears twice'')\<lparr>field := key\<rparr>)
            else
              let found = (if name = key then Some (take (i - start) (drop start s)) else found);
                  (comma, i) = Take (CHR '','') s i
              in
              if comma then top_members s key i found
              else
                let (closed, i) = Take (CHR ''}'') s i in
                if closed then Inr (i, found)
                else Inl (walk_fail i (''expected '' @ [CHR 0x27] @ '','' @ [CHR 0x27] @ '' or '' @
                  [CHR 0x27] @ ''}'' @ [CHR 0x27] @ '' between members'')))"
  by pat_completeness auto
termination
  by (relation "measure (\<lambda>(s, key, i, found). length s - i)")
    (auto dest!: member_forward [OF sym sym sym sym])

declare top_members.simps [simp del]

definition TopLevelMember :: "bytes \<Rightarrow> bytes \<Rightarrow> Error + bytes option" where
  "TopLevelMember s key =
     (let (opened, i) = Take (CHR ''{'') s 0 in
      if \<not> opened then Inl (walk_fail i ''the heartbeat is not a JSON object'')
      else
        let (closed, i) = Take (CHR ''}'') s i in
        case (if closed then Inr (i, None) else top_members s key i None) of
          Inl e \<Rightarrow> Inl e
        | Inr (i, found) \<Rightarrow>
            let i = SkipSpace s i in
            if i < length s then Inl (walk_fail i ''content after the heartbeat object'') else Inr found)"

section \<open>Versions\<close>

datatype Version = Version (major: int) (minor: int) (patch: int)

fun Version_less :: "Version \<Rightarrow> Version \<Rightarrow> bool" where
  "Version_less (Version a b c) (Version d e f) \<longleftrightarrow> a < d \<or> a = d \<and> (b < e \<or> b = e \<and> c < f)"

instantiation Version :: linorder
begin

definition less_Version :: "Version \<Rightarrow> Version \<Rightarrow> bool" where
  [simp]: "v < w \<longleftrightarrow> Version_less v w"

definition less_eq_Version :: "Version \<Rightarrow> Version \<Rightarrow> bool" where
  "less_eq_Version v w \<longleftrightarrow> v < w \<or> v = w"

instance
proof
  fix u v w :: Version
  show "v < w \<longleftrightarrow> v \<le> w \<and> \<not> w \<le> v" by (cases v; cases w) (auto simp: less_eq_Version_def)
  show "v \<le> v" by (simp add: less_eq_Version_def)
  show "u \<le> v \<Longrightarrow> v \<le> w \<Longrightarrow> u \<le> w" by (cases u; cases v; cases w) (auto simp: less_eq_Version_def)
  show "v \<le> w \<Longrightarrow> w \<le> v \<Longrightarrow> v = w" by (cases v; cases w) (auto simp: less_eq_Version_def)
  show "v \<le> w \<or> w \<le> v" by (cases v; cases w) (auto simp: less_eq_Version_def)
qed

end

definition kMaxComponent :: int where "kMaxComponent = 100000"
definition kMinimumVersion :: Version where "kMinimumVersion = Version 5 4 0"
definition kRelease53 :: Version where "kRelease53 = Version 5 3 0"
definition kRelease54 :: Version where "kRelease54 = Version 5 4 0"
definition kMaxVersionBytes :: nat where "kMaxVersionBytes = 32"
definition kMaxSystemBytes :: nat where "kMaxSystemBytes = 4 * 1024"

text \<open>\<open>std::from_chars\<close> into an \<open>int\<close>, on at most six characters: a sign it allows, then digits.\<close>

definition Component :: "bytes \<Rightarrow> int option" where
  "Component t =
     (if t = [] \<or> length t > 6 then None
      else
        let digits = (if take 1 t = ''-'' then drop 1 t else t);
            v = (if take 1 t = ''-'' then - int (nat_of_dec digits) else int (nat_of_dec digits))
        in if digits = [] \<or> \<not> list_all IsDigit digits \<or> v > kMaxComponent then None else Some v)"

function (sequential) version_parts :: "bytes \<Rightarrow> int list \<Rightarrow> int list option" where
  "version_parts t parts =
     (if length parts = 3 then None
      else case Component (takeWhile (\<lambda>c. c \<noteq> CHR ''.'') t) of
        None \<Rightarrow> None
      | Some n \<Rightarrow>
          (case dropWhile (\<lambda>c. c \<noteq> CHR ''.'') t of
             [] \<Rightarrow> Some (parts @ [n])
           | dot # rest \<Rightarrow> version_parts rest (parts @ [n])))"
  by pat_completeness auto
termination
proof (relation "measure (\<lambda>(t, parts). length t)")
  fix t :: bytes and parts :: "int list" and n dot rest
  assume "dropWhile (\<lambda>c. c \<noteq> CHR ''.'') t = dot # rest"
  with length_dropWhile_le [of "\<lambda>c. c \<noteq> CHR ''.''" t] show "((rest, parts @ [n]), t, parts) \<in> measure (\<lambda>(t, parts). length t)"
    by simp
qed simp

declare version_parts.simps [simp del]

definition ParseVersion :: "bytes \<Rightarrow> Version option" where
  "ParseVersion t =
     (let t = (if take 1 t = ''v'' \<or> take 1 t = ''V'' then drop 1 t else t);
          t = takeWhile (\<lambda>c. c \<noteq> CHR ''-'' \<and> c \<noteq> CHR ''+'') t
      in case version_parts t [] of
           Some [a, b] \<Rightarrow> Some (Version a b 0)
         | Some [a, b, c] \<Rightarrow> Some (Version a b c)
         | _ \<Rightarrow> None)"

definition Version_ToString :: "Version \<Rightarrow> bytes" where
  "Version_ToString v = to_string (major v) @ ''.'' @ to_string (minor v) @ ''.'' @ to_string (patch v)"

section \<open>What a release can do\<close>

record ServerCapabilities =
  caps_version :: bytes
  known :: bool
  supported :: bool
  takes_rom_ids :: bool
  slot_cap :: bool
  delete_action :: bool
  emulators_filter :: bool
  takes_restore_unlisted :: bool
  hash_baselines :: bool
  device_capabilities :: bool
  install_enabled :: bool

definition no_capabilities :: ServerCapabilities where
  "no_capabilities = \<lparr>caps_version = [], known = False, supported = False, takes_rom_ids = False, slot_cap = False,
     delete_action = False, emulators_filter = False, takes_restore_unlisted = False, hash_baselines = False,
     device_capabilities = False, install_enabled = False\<rparr>"

definition Infer :: "bytes \<Rightarrow> Version option \<Rightarrow> Version \<Rightarrow> ServerCapabilities" where
  "Infer t parsed lowest =
     (let version = (case parsed of Some v \<Rightarrow> v | None \<Rightarrow> Version kMaxComponent 0 0) in
      no_capabilities\<lparr>caps_version := t, known := parsed \<noteq> None, supported := version \<ge> lowest,
        takes_rom_ids := version \<ge> kRelease53, slot_cap := version \<ge> kRelease53, delete_action := version \<ge> kRelease54,
        emulators_filter := version \<ge> kRelease54, takes_restore_unlisted := version \<ge> kRelease54,
        hash_baselines := version \<ge> kRelease54, device_capabilities := version \<ge> kRelease54\<rparr>)"

definition CapabilitiesFor :: "bytes \<Rightarrow> Version \<Rightarrow> ServerCapabilities" where
  "CapabilitiesFor t lowest = Infer (take kMaxVersionBytes t) (ParseVersion t) lowest"

definition CapabilitiesFor_version :: "Version \<Rightarrow> ServerCapabilities" where
  "CapabilitiesFor_version v = Infer (Version_ToString v) (Some v) kMinimumVersion"

section \<open>The heartbeat\<close>

definition parsed_fail :: "'a \<Rightarrow> Error \<Rightarrow> bytes \<Rightarrow> 'a Parsed" where
  "parsed_fail v e where_it_is = \<lparr>parsed_value = v, parsed_error = e\<lparr>field := where_it_is\<rparr>\<rparr>"

definition ParseHeartbeatVersion :: "bytes \<Rightarrow> bytes Parsed" where
  "ParseHeartbeatVersion s =
     (case TopLevelMember s ''SYSTEM'' of
        Inl e \<Rightarrow> \<lparr>parsed_value = [], parsed_error = e\<rparr>
      | Inr None \<Rightarrow> \<lparr>parsed_value = [], parsed_error = no_error\<rparr>
      | Inr (Some system) \<Rightarrow>
          if length system > kMaxSystemBytes
          then parsed_fail [] (walk_fail 0 (''SYSTEM is '' @ to_string (int (length system)) @ '' bytes, past the '' @
            to_string (int kMaxSystemBytes) @ '' this client parses'')) ''SYSTEM''
          else
            let parsed = Parse system in
            if \<not> pr_ok parsed then parsed_fail [] (pr_error parsed) ''SYSTEM''
            else if Value_type (pr_value parsed) \<noteq> kObject
            then parsed_fail [] (walk_fail 0 (''expected an object, got '' @ Type_ToString (Value_type (pr_value parsed)))) ''SYSTEM''
            else
              (case Find (pr_value parsed) ''VERSION'' of
                 None \<Rightarrow> \<lparr>parsed_value = [], parsed_error = no_error\<rparr>
               | Some VNull \<Rightarrow> \<lparr>parsed_value = [], parsed_error = no_error\<rparr>
               | Some (VString v) \<Rightarrow> \<lparr>parsed_value = v, parsed_error = no_error\<rparr>
               | Some v \<Rightarrow> parsed_fail [] (walk_fail 0 (''expected a string, got '' @ Type_ToString (Value_type v))) ''SYSTEM.VERSION''))"

definition ParseHeartbeatInstall :: "bytes \<Rightarrow> bool Parsed" where
  "ParseHeartbeatInstall s =
     (case TopLevelMember s ''DEVICE_INSTALL'' of
        Inl e \<Rightarrow> \<lparr>parsed_value = False, parsed_error = e\<rparr>
      | Inr None \<Rightarrow> \<lparr>parsed_value = False, parsed_error = no_error\<rparr>
      | Inr (Some install) \<Rightarrow>
          (case TopLevelMember install ''ENABLED'' of
             Inl e \<Rightarrow> parsed_fail False e (''DEVICE_INSTALL'' @ (if field e = [] then [] else ''.'' @ field e))
           | Inr None \<Rightarrow> \<lparr>parsed_value = False, parsed_error = no_error\<rparr>
           | Inr (Some enabled) \<Rightarrow>
               if enabled = ''null'' then \<lparr>parsed_value = False, parsed_error = no_error\<rparr>
               else if enabled \<noteq> ''true'' \<and> enabled \<noteq> ''false''
               then parsed_fail False (walk_fail 0 ''expected a boolean'') ''DEVICE_INSTALL.ENABLED''
               else \<lparr>parsed_value = (enabled = ''true''), parsed_error = no_error\<rparr>))"

section \<open>The call\<close>

record Probe =
  pb_capabilities :: ServerCapabilities
  pb_transport :: HttpError
  pb_status :: int
  pb_shape :: Error
  pb_message :: bytes
  pb_attempts :: int

definition no_probe :: Probe where
  "no_probe = \<lparr>pb_capabilities = no_capabilities, pb_transport = Http_kNone, pb_status = 0, pb_shape = no_error,
     pb_message = [], pb_attempts = 0\<rparr>"

definition pb_ok :: "Probe \<Rightarrow> bool" where
  "pb_ok p \<longleftrightarrow> pb_transport p = Http_kNone \<and> pb_status p = 0 \<and> error_ok (pb_shape p)"

definition transient :: "Probe \<Rightarrow> bool" where
  "transient p \<longleftrightarrow> (pb_transport p \<noteq> Http_kNone \<and> pb_transport p \<noteq> Http_kInvalidRequest) \<or> TransientStatus (pb_status p)"

text \<open>What one answer comes to.\<close>

definition probed :: "Version \<Rightarrow> int \<Rightarrow> HttpResult \<Rightarrow> Probe" where
  "probed lowest attempt sent =
     (let probe = no_probe\<lparr>pb_attempts := attempt\<rparr> in
      if \<not> http_ok sent
      then probe\<lparr>pb_transport := http_error sent,
        pb_message := ''the server's version could not be read: '' @ HttpError_ToString (http_error sent) @ '' ('' @
          http_message sent @ '')''\<rparr>
      else if \<not> successful sent
      then probe\<lparr>pb_status := status (response sent),
        pb_message := ''the heartbeat was refused with status '' @ to_string (status (response sent))\<rparr>
      else
        let version = ParseHeartbeatVersion (body (response sent)) in
        if parsed_ok version
        then
          let install = ParseHeartbeatInstall (body (response sent))
          in probe\<lparr>pb_capabilities := (CapabilitiesFor (parsed_value version) lowest)
               \<lparr>install_enabled := parsed_ok install \<and> parsed_value install\<rparr>\<rparr>
        else probe\<lparr>pb_shape := parsed_error version,
          pb_message := ''the answer is not a RomM heartbeat: '' @ Describe (parsed_error version)\<rparr>)"

function read_server ::
  "'n Host \<Rightarrow> Version \<Rightarrow> Request \<Rightarrow> int \<Rightarrow> int \<Rightarrow> Backoff \<Rightarrow> 'n World \<Rightarrow> Probe \<times> 'n World" where
  "read_server host lowest request attempts attempt backoff w =
     (let (sent, w) = Send host request w;
          probe = probed lowest attempt sent
      in
      if pb_ok probe then (probe, w)
      else if \<not> transient probe \<or> pb_transport probe = Http_kCanceled \<or> attempt \<ge> attempts then (probe, w)
      else
        let (stop, w) = canceled host w in
        if stop then (probe, w)
        else
          let (i, w) = roll host w;
              (delay, backoff) = WaitToRetry i backoff;
              w = wait_ms host delay w
          in read_server host lowest request attempts (attempt + 1) backoff w)"
  by pat_completeness auto
termination
  by (relation "measure (\<lambda>(_, _, _, attempts, attempt, _). nat (attempts - attempt))") auto

declare read_server.simps [simp del]

record ProbePolicy = CallPolicy +
  pp_timeout :: int
  pp_max_attempts :: int

definition ReadServer :: "'n Host \<Rightarrow> bytes \<Rightarrow> ProbePolicy \<Rightarrow> Version \<Rightarrow> 'n World \<Rightarrow> Probe \<times> 'n World" where
  "ReadServer host base_url policy lowest w =
     (let (stop, w) = canceled host w in
      if stop
      then (no_probe\<lparr>pb_transport := Http_kCanceled,
          pb_message := ''the heartbeat was not asked: the caller cancelled first''\<rparr>, w)
      else
        let request = (new_Request Method_kGet (JoinUrl base_url ''/api/heartbeat''))
              \<lparr>req_headers := [\<lparr>h_name = ''Accept'', h_value = ''application/json''\<rparr>], req_timeout := pp_timeout policy\<rparr>
        in read_server host lowest request (if pp_max_attempts policy > 0 then pp_max_attempts policy else 1) 1
             (BackoffFor (CallPolicy.truncate policy)) w)"

end
