(* ===== verification/ServerFacts.thy ===== *)
theory ServerFacts
  imports ServerCapabilities
begin

text \<open>
  The walk against the parser: on a document \<open>Parse\<close> accepts, the member the walk cuts out is the one the
  parser has, value for value. Then versions written and read, and the laws of the call.
\<close>

section \<open>A name without an escape is its own spelling\<close>

lemma string_loop_spelled:
  "string_loop out t = Inr (v, r) \<Longrightarrow> CHR 0x5C \<notin> set (take (length t - length r - 1) t) \<Longrightarrow>
     v = out @ take (length t - length r - 1) t"
proof (induction out t arbitrary: v r rule: string_loop.induct)
  case (1 out t)
  note loop = "1.prems"(1) [unfolded string_loop.simps [of out t]]
  show ?case
  proof (cases t)
    case Nil
    with loop show ?thesis by simp
  next
    case (Cons c cs)
    show ?thesis
    proof (cases "c = CHR 0x22")
      case True
      with loop Cons show ?thesis by auto
    next
      case quote: False
      have left: "length r < length t" using string_loop_length [OF "1.prems"(1)] .
      have "length r < length cs \<or> c = CHR 0x22"
      proof (cases "c = CHR 0x5C")
        case False
        with quote loop Cons have "string_loop (out @ [c]) cs = Inr (v, r)" by (auto split: if_splits)
        then show ?thesis using string_loop_length by blast
      next
        case True
        with loop Cons obtain e es where e: "cs = e # es" by (cases cs) auto
        with loop Cons True show ?thesis
          by (auto split: if_splits sum.splits option.splits dest!: string_loop_length ParseUnicodeEscape_length)
      qed
      then have shorter: "length r < length cs" using quote by blast
      then have taken: "take (length t - length r - 1) t = c # take (length cs - length r - 1) cs"
        using Cons by (cases "length cs - length r") auto
      have slash: "c \<noteq> CHR 0x5C" "CHR 0x5C \<notin> set (take (length cs - length r - 1) cs)" using "1.prems"(2) taken by auto
      with quote loop Cons have plain: "string_loop (out @ [c]) cs = Inr (v, r)" "\<not> byte c < 0x20"
        by (auto split: if_splits)
      from "1.IH"(1) [OF Cons quote plain(2) slash(1) plain(1) slash(2)] taken show ?thesis by simp
    qed
  qed
qed

lemma ParseString_plain:
  assumes "ParseString t = Inr (v, r)" "take 1 t = [CHR 0x22]" "CHR 0x5C \<notin> set (take (length t - length r - 2) (tl t))"
  shows "v = take (length t - length r - 2) (tl t)"
proof -
  obtain cs where t: "t = CHR 0x22 # cs" using assms(2) by (cases t) auto
  with string_loop_spelled [of "[]" cs v r] assms show ?thesis by (simp add: ParseString_def)
qed

lemma head_no_space: "take 1 t = [c] \<Longrightarrow> \<not> is_space c \<Longrightarrow> SkipWhitespace t = t"
  by (cases t) (auto simp: SkipWhitespace_def)

lemma value_no_space: "value_parse keep depth t v r \<Longrightarrow> SkipWhitespace t = t"
  using head_no_space [of t "CHR ''[''"] head_no_space [of t "CHR ''{''"]
  by (elim value_parse.cases) (simp_all add: is_space_def parse_scalar_no_space)

section \<open>The members found\<close>

text \<open>The names of the root object as the parser reads them one after another: how the body spells each between
  its quotes, and the name that stands for.\<close>

function member_names :: "bytes \<Rightarrow> (bytes \<times> bytes) list" where
  "member_names t =
     (let t = SkipWhitespace t in
      if take 1 t \<noteq> [CHR 0x22] then []
      else case ParseString t of Inl e \<Rightarrow> []
        | Inr (name, r) \<Rightarrow>
            (take (length t - length r - 2) (tl t), name) #
            (case ParseValue None 1 (SkipWhitespace (drop 1 (SkipWhitespace r))) of Inl e \<Rightarrow> []
             | Inr (v, r) \<Rightarrow>
                 if take 1 (SkipWhitespace r) = '','' then member_names (drop 1 (SkipWhitespace r)) else []))"
  by pat_completeness auto
termination
proof (relation "measure length", goal_cases)
  case (2 t x p name r q v u)
  have "length u < length (SkipWhitespace (drop 1 (SkipWhitespace r)))" using 2 by (auto intro: ParseValue_length)
  moreover have "length r < length x" using 2 by (auto intro: ParseString_length)
  ultimately show ?case
    using 2(1) SkipWhitespace_length [of t] SkipWhitespace_length [of r] SkipWhitespace_length [of u]
      SkipWhitespace_length [of "drop 1 (SkipWhitespace r)"] by simp
qed simp

declare member_names.simps [simp del]

lemma member_names_space: "member_names (SkipWhitespace t) = member_names t"
  unfolding member_names.simps [of "SkipWhitespace t"] member_names.simps [of t] SkipWhitespace_idem ..

definition spellings :: "bytes \<Rightarrow> (bytes \<times> bytes) list" where
  "spellings s = member_names (drop 1 (SkipWhitespace s))"

definition found_in :: "(bytes \<times> bytes) list \<Rightarrow> (bytes \<times> Value) list \<Rightarrow> bytes \<Rightarrow> bytes option \<Rightarrow> bool" where
  "found_in ns ms key found \<longleftrightarrow> map snd ns = map fst ms \<and>
     (case found of
        Some part \<Rightarrow> pr_ok (Parse part) \<and> map_of ms key = Some (pr_value (Parse part)) \<and> (key, key) \<in> set ns
      | None \<Rightarrow> \<forall>raw. (raw, key) \<in> set ns \<longrightarrow> CHR 0x5C \<in> set raw)"

lemma part_parses:
  assumes v: "value_parse None 1 t v r" and s: "suffix t s"
  shows "pr_ok (Parse (take (pos s r - pos s t) (drop (pos s t) s))) \<and>
    pr_value (Parse (take (pos s r - pos s t) (drop (pos s t) s))) = v"
proof -
  have "suffix r t" using parse_suffix(1) v by blast
  then obtain m where m: "t = m @ r" by (auto simp: suffix_def)
  have "take (pos s r - pos s t) (drop (pos s t) s) = m"
    using pos_drop [OF s] pos_step [of m r s] s m by simp
  moreover have "value_parse None 0 m v []" using value_cut(1) [OF v refl, of m r "[]" 0] m by simp
  then have "ParseValue None 0 (SkipWhitespace m) = Inr (v, [])" using parse_iff value_no_space by metis
  ultimately show ?thesis using Parse_value [of m v "[]"] by (simp add: SkipWhitespace_def pr_ok_def error_ok_def no_error_def)
qed

lemma member_found:
  assumes k: "member_key ms (SkipWhitespace t) = Inr (k, s1)" and v: "value_parse None 1 s1 v1 s2"
    and next_one: "SkipWhitespace s2 = c # u" "c = CHR '','' \<or> c = CHR ''}''"
    and s: "suffix t s" and found: "found_in ns ms key found" and key: "CHR 0x5C \<notin> set key"
  obtains name i j where "Walker_String s (pos s t) = (Some name, i)" "Take (CHR '':'') s i = (True, j)"
    "SkipSpace s j = pos s s1" "Walker_Value False s (pos s s1) 0 0 = (True, pos s s2)" "suffix s2 s"
    "\<not> (name = key \<and> found \<noteq> None)"
    "found_in (ns @ [(name, k)]) (ms @ [(k, v1)]) key
       (if name = key then Some (take (pos s s2 - pos s s1) (drop (pos s s1) s)) else found)"
    "member_names t = (name, k) # (if c = CHR '','' then member_names u else [])"
proof -
  let ?t = "SkipWhitespace t"
  obtain s0 w where m: "take 1 ?t = [CHR 0x22]" "k \<notin> fst ` set ms" "ParseString ?t = Inr (k, s0)"
    "SkipWhitespace s0 = CHR '':'' # w" "s1 = SkipWhitespace w" using k unfolding member_key_parts by blast
  let ?name = "take (length ?t - length s0 - 2) (tl ?t)"
  note name = ParseString_walk [OF m(3, 1) refl s]
  have w: "suffix w s" using name m(4) suffix_skip_next by blast
  have s1: "suffix s1 s" using w suffix_skip m(5) by blast
  have s2: "suffix s2 s" using parse_suffix(1) [OF v refl] s1 suffix_order.trans by blast
  have e: "ended s2" using ended_before [OF next_one(1)] next_one(2) by blast
  have value_end: "Walker_Value False s (pos s s1) 0 0 = (True, pos s s2)"
    using parse_crosses(1) [OF v refl] s1 e empty_stack [of 0] unfolding crosses_def
    by (auto simp: Walker_Value.simps(2))
  have colon: "Take (CHR '':'') s (pos s s0) = (True, pos s w)" using Take_here name m(4) by blast
  have start: "SkipSpace s (pos s w) = pos s s1" using SkipSpace_pos [OF w] m(5) by simp
  have spelled: "k = key" if "?name = key" using ParseString_plain [OF m(3, 1)] that key by simp
  have slashed: "CHR 0x5C \<in> set ?name" if "k = key" "?name \<noteq> key"
    using ParseString_plain [OF m(3, 1)] that by metis
  have val: "ParseValue None 1 (SkipWhitespace (drop 1 (SkipWhitespace s0))) = Inr (v1, s2)"
    using v m(4, 5) by (simp add: parse_iff)
  have listed: "member_names t = (?name, k) # (if c = CHR '','' then member_names u else [])"
    unfolding member_names.simps [of t] Let_def m(3) sum.case prod.case val next_one(1) using m(1) by simp
  have once: "\<not> (?name = key \<and> found \<noteq> None)"
  proof
    assume both: "?name = key \<and> found \<noteq> None"
    then obtain part where "map_of ms key = Some (pr_value (Parse part))" using found by (auto simp: found_in_def)
    with spelled both m(2) show False by (metis map_of_SomeD fst_conv image_eqI)
  qed
  have "map_of (ms @ [(k, v1)]) key = Some v1" if "?name = key"
    using spelled [OF that] m(2) by (simp add: map_of_append map_add_def map_of_eq_None_iff [THEN iffD2] option.case_eq_if)
  moreover have "map_of (ms @ [(k, v1)]) key = map_of ms key" if "k \<noteq> key"
    using that by (simp add: map_add_def split: option.split)
  moreover have "map_of ms key = None" if "k = key" using m(2) that by (simp add: map_of_eq_None_iff)
  ultimately have "found_in (ns @ [(?name, k)]) (ms @ [(k, v1)]) key
     (if ?name = key then Some (take (pos s s2 - pos s s1) (drop (pos s s1) s)) else found)"
    using part_parses [OF v s1] found slashed spelled
    by (cases "?name = key"; cases "k = key") (auto simp: found_in_def split: option.splits)
  with that [of ?name "pos s s0" "pos s w"] name colon start value_end s2 once listed show thesis by blast
qed

lemma members_found:
  "value_parse keep depth t v r \<Longrightarrow> True"
  "array_parse keep depth vs t v r \<Longrightarrow> True"
  "object_parse keep depth ms t v r \<Longrightarrow> keep = None \<Longrightarrow> depth = 0 \<Longrightarrow> suffix t s \<Longrightarrow> found_in ns ms key found \<Longrightarrow>
     CHR 0x5C \<notin> set key \<Longrightarrow>
     \<exists>found' ms'. top_members s key (pos s t) found = Inr (pos s r, found') \<and> v = VObject ms' \<and>
       found_in (ns @ member_names t) ms' key found'"
proof (induction arbitrary: and and ns found rule: value_parse_array_parse_object_parse.inducts)
  case (kept_more ms t k s1 depth v1 s2 u v r)
  have v: "value_parse None 1 s1 v1 s2" using kept_more.IH(2) kept_more.prems by simp
  obtain name i j where m: "Walker_String s (pos s t) = (Some name, i)" "Take (CHR '':'') s i = (True, j)"
    "SkipSpace s j = pos s s1" "Walker_Value False s (pos s s1) 0 0 = (True, pos s s2)" "suffix s2 s"
    "\<not> (name = key \<and> found \<noteq> None)"
    "found_in (ns @ [(name, k)]) (ms @ [(k, v1)]) key
       (if name = key then Some (take (pos s s2 - pos s s1) (drop (pos s s1) s)) else found)"
    "member_names t = (name, k) # (if CHR '','' = CHR '','' then member_names u else [])"
    by (rule member_found [OF kept_more.hyps(1) v kept_more.hyps(2) disjI1 [OF refl] kept_more.prems(3-5)])
  have u: "suffix u s" using suffix_skip_next [OF m(5) kept_more.hyps(2)] by blast
  note comma = Take_here [OF m(5) kept_more.hyps(2)]
  show ?case
    using kept_more.IH(5) [OF kept_more.prems(1, 2) u m(7) kept_more.prems(5)] m(6, 8)
    by (cases "name = key"; subst top_members.simps)
      (simp_all add: m(1-4) comma if_not_P [OF m(6)] Let_def del: not_None_eq)
next
  case (kept_last ms t k s1 depth v1 s2 r)
  have v: "value_parse None 1 s1 v1 s2" using kept_last.IH(2) kept_last.prems by simp
  obtain name i j where m: "Walker_String s (pos s t) = (Some name, i)" "Take (CHR '':'') s i = (True, j)"
    "SkipSpace s j = pos s s1" "Walker_Value False s (pos s s1) 0 0 = (True, pos s s2)" "suffix s2 s"
    "\<not> (name = key \<and> found \<noteq> None)"
    "found_in (ns @ [(name, k)]) (ms @ [(k, v1)]) key
       (if name = key then Some (take (pos s s2 - pos s s1) (drop (pos s s1) s)) else found)"
    "member_names t = (name, k) # (if CHR ''}'' = CHR '','' then member_names r else [])"
    by (rule member_found [OF kept_last.hyps(1) v kept_last.hyps(2) disjI2 [OF refl] kept_last.prems(3-5)])
  obtain i' where comma: "Take (CHR '','') s (pos s s2) = (False, i')" "Take (CHR ''}'') s i' = (True, pos s r)"
    using Take_pos [OF m(5), of "CHR '',''"] kept_last.hyps(2) Take_here [of "SkipWhitespace s2" s]
      suffix_skip [OF m(5)] by simp
  show ?case
    using m(6-8)
    by (cases "name = key"; subst top_members.simps)
      (simp_all add: m(1-4) comma if_not_P [OF m(6)] Let_def del: not_None_eq)
qed (simp_all add: Kept_def)

lemma map_of_rest: "map_sum id (apfst g) x = Inr (v, r) \<Longrightarrow> \<exists>y. x = Inr (y, r) \<and> v = g y"
  by (cases x) auto

lemma scalar_is_no_object: "parse_scalar s \<noteq> Inr (VObject ms, r)"
  unfolding parse_scalar_def by (auto simp: ParseNumber_parts dest!: map_of_rest)

lemma array_is_array:
  "value_parse keep depth t v r \<Longrightarrow> True"
  "array_parse keep depth vs t v r \<Longrightarrow> \<exists>ws. v = VArray ws"
  "object_parse keep depth ms t v r \<Longrightarrow> True"
  by (induction rule: value_parse_array_parse_object_parse.inducts) auto

lemma object_crossed:
  assumes vp: "value_parse None 0 (SkipWhitespace s) (VObject ms) r" and key: "CHR 0x5C \<notin> set key"
  shows "\<exists>i found. Take (CHR ''{'') s 0 = (True, i) \<and> suffix r s \<and> found_in (spellings s) ms key found \<and>
    (let (closed, i) = Take (CHR ''}'') s i in if closed then Inr (i, None) else top_members s key i None) =
      (Inr (pos s r, found) :: Error + nat \<times> bytes option)"
proof -
  have start: "pos s s = 0" by (simp add: pos_def)
  let ?t = "SkipWhitespace s"
  have t: "suffix ?t s" by (rule SkipWhitespace_suffix)
  have r: "suffix r s" using parse_suffix(1) [OF vp refl] t suffix_order.trans by blast
  have opened: "Take (CHR ''{'') s 0 = (True, pos s (drop 1 ?t))" if "take 1 ?t = ''{''"
    using Take_pos [of s s "CHR ''{''"] that start by simp
  have after: "suffix (drop 1 ?t) s" using suffix_drop t suffix_order.trans by blast
  note close = Take_pos [OF after, of "CHR ''}''"]
  show ?thesis
    using vp
  proof (cases rule: value_parse.cases)
    case scalar
    then show ?thesis using scalar_is_no_object by blast
  next
    case empty_object
    have "spellings s = []"
      unfolding spellings_def member_names.simps [of "drop 1 ?t"] Let_def using empty_object by simp
    then have "found_in (spellings s) [] key None" by (simp add: found_in_def)
    with empty_object opened close r show ?thesis by auto
  next
    case object
    have "found_in [] [] key None" by (simp add: found_in_def)
    moreover have "suffix (SkipWhitespace (drop 1 ?t)) s" using suffix_skip [OF after] .
    ultimately obtain found where
      "top_members s key (pos s (SkipWhitespace (drop 1 ?t))) None = Inr (pos s r, found)"
      "found_in ([] @ member_names (SkipWhitespace (drop 1 ?t))) ms key found"
      using members_found(3) [OF object(4) refl refl _ _ key] by blast
    moreover have "member_names (SkipWhitespace (drop 1 ?t)) = spellings s"
      unfolding spellings_def by (rule member_names_space)
    ultimately show ?thesis using object opened close r by auto
  next
    case array
    then show ?thesis using array_is_array(2) by blast
  qed
qed

text \<open>C33: On a body \<open>Parse\<close> accepts as an object, \<open>TopLevelMember\<close> answers no error, and a slice exactly when
  the body has a member whose name is spelled as the key, without an escape: the slice parses on its own
  to the very value the document has under that key.  With no slice the document has no such key, or only
  as a name that is spelled with an escape, which the walk does not decode.\<close>

theorem TopLevelMember_agrees_with_Parse:
  assumes parsed: "pr_ok (Parse s)" "pr_value (Parse s) = VObject ms" and key: "CHR 0x5C \<notin> set key"
  shows "case TopLevelMember s key of
      Inl e \<Rightarrow> False
    | Inr None \<Rightarrow> (key, key) \<notin> set (spellings s) \<and>
        (Find (VObject ms) key = None \<or> (\<exists>raw. (raw, key) \<in> set (spellings s) \<and> CHR 0x5C \<in> set raw))
    | Inr (Some part) \<Rightarrow> (key, key) \<in> set (spellings s) \<and>
        pr_ok (Parse part) \<and> Find (VObject ms) key = Some (pr_value (Parse part))"
proof -
  obtain v r where v: "ParseValue None 0 (SkipWhitespace s) = Inr (v, r)" "SkipWhitespace r = []"
    using parsed(1) unfolding Parse_ok_iff by blast
  with parsed(2) have vp: "value_parse None 0 (SkipWhitespace s) (VObject ms) r"
    using Parse_value [OF v] parse_iff by simp
  obtain i found where top: "Take (CHR ''{'') s 0 = (True, i)" "suffix r s" "found_in (spellings s) ms key found"
    "(let (closed, i) = Take (CHR ''}'') s i in if closed then Inr (i, None) else top_members s key i None) =
        (Inr (pos s r, found) :: Error + nat \<times> bytes option)"
    using object_crossed [OF vp key] by blast
  have "SkipSpace s (pos s r) = length s" using SkipSpace_pos [OF top(2)] v(2) by (simp add: pos_def)
  with top have "TopLevelMember s key = Inr found"
    by (auto simp: TopLevelMember_def Let_def split: prod.splits if_splits)
  moreover have "map_of ms key = None \<or> (\<exists>raw. (raw, key) \<in> set (spellings s))"
  proof (rule disjCI)
    assume "\<not> (\<exists>raw. (raw, key) \<in> set (spellings s))"
    then have "key \<notin> set (map snd (spellings s))" by auto
    also have "map snd (spellings s) = map fst ms" using top(3) by (simp add: found_in_def)
    finally show "map_of ms key = None" by (simp add: map_of_eq_None_iff)
  qed
  ultimately show ?thesis using top(3) key by (cases found) (auto simp: found_in_def Find_def)
qed

definition sample_heartbeat :: bytes where
  "sample_heartbeat = ''{'' @ Quote ''a'' @ '': [1, '' @ Quote ''}'' @ ''], '' @ Quote ''SYSTEM'' @ '': { '' @
     Quote ''VERSION'' @ '': '' @ Quote ''5.4.0'' @ ''}, '' @ Quote ''b'' @ '': {'' @ Quote ''SYSTEM'' @ '':null}}''"

theorem TopLevelMember_agrees_with_Parse_witness:
  "case TopLevelMember sample_heartbeat ''SYSTEM'' of
      Inl e \<Rightarrow> False
    | Inr None \<Rightarrow> False
    | Inr (Some part) \<Rightarrow> pr_ok (Parse part) \<and>
        Find (pr_value (Parse sample_heartbeat)) ''SYSTEM'' = Some (pr_value (Parse part))"
proof -
  have v: "pr_value (Parse sample_heartbeat) = VObject (members (pr_value (Parse sample_heartbeat)))"
    "pr_ok (Parse sample_heartbeat)" "CHR 0x5C \<notin> set ''SYSTEM''" "(''SYSTEM'', ''SYSTEM'') \<in> set (spellings sample_heartbeat)"
    by code_simp+
  from TopLevelMember_agrees_with_Parse [OF v(2, 1, 3)] v(4) show ?thesis
    unfolding v(1) [symmetric] by (auto split: sum.splits option.splits)
qed

section \<open>Versions\<close>

lemma digits_no_stop: "list_all IsDigit ds \<Longrightarrow> c \<in> set ds \<Longrightarrow> c \<noteq> CHR ''.'' \<and> c \<noteq> CHR ''-'' \<and> c \<noteq> CHR ''+'' \<and>
    c \<noteq> CHR ''v'' \<and> c \<noteq> CHR ''V''"
  by (auto simp: list_all_iff IsDigit_byte)

lemma dec_of_nat_short: "n < 10 ^ k \<Longrightarrow> 0 < k \<Longrightarrow> length (dec_of_nat n) \<le> k"
proof (induction k arbitrary: n)
  case (Suc k)
  show ?case
  proof (cases "n < 10")
    case True
    then show ?thesis by (simp add: dec_of_nat.simps)
  next
    case False
    with Suc.prems have "n div 10 < 10 ^ k" "0 < k" by (auto simp: less_mult_imp_div_less intro: gr0I)
    with Suc.IH [of "n div 10"] False show ?thesis by (subst dec_of_nat.simps) simp
  qed
qed simp

lemma Component_to_string:
  assumes "0 \<le> n" "n \<le> kMaxComponent"
  shows "Component (to_string n) = Some n"
proof -
  have t: "to_string n = dec_of_nat (nat n)" using assms by (simp add: to_string_def)
  have digits: "list_all IsDigit (dec_of_nat (nat n))" by (rule dec_of_nat_digits)
  have some: "dec_of_nat (nat n) \<noteq> []" by (subst dec_of_nat.simps) simp
  have "length (dec_of_nat (nat n)) \<le> 6" using assms by (intro dec_of_nat_short) (simp_all add: kMaxComponent_def)
  moreover have "take 1 (dec_of_nat (nat n)) \<noteq> ''-''" using digits some by (cases "dec_of_nat (nat n)") (auto simp: IsDigit_byte)
  ultimately show ?thesis using digits some assms by (simp add: Component_def t)
qed

definition release_sized :: "Version \<Rightarrow> bool" where
  "release_sized v \<longleftrightarrow> list_all (\<lambda>n. 0 \<le> n \<and> n \<le> kMaxComponent) [major v, minor v, patch v]"

lemma to_string_digits: "0 \<le> n \<Longrightarrow> list_all IsDigit (to_string n) \<and> to_string n \<noteq> []"
  by (simp add: to_string_def dec_of_nat_digits)

lemma part_until_dot:
  assumes "0 \<le> n" "n \<le> kMaxComponent" "length parts < 3"
  shows "version_parts (to_string n @ CHR ''.'' # rest) parts = version_parts rest (parts @ [n])"
    "version_parts (to_string n) parts = Some (parts @ [n])"
proof -
  have d: "\<forall>c \<in> set (to_string n). c \<noteq> CHR ''.''"
    using to_string_digits [OF assms(1)] digits_no_stop [of "to_string n"] by blast
  then have pieces: "takeWhile (\<lambda>c. c \<noteq> CHR ''.'') (to_string n @ CHR ''.'' # rest) = to_string n"
    "dropWhile (\<lambda>c. c \<noteq> CHR ''.'') (to_string n @ CHR ''.'' # rest) = CHR ''.'' # rest"
    "takeWhile (\<lambda>c. c \<noteq> CHR ''.'') (to_string n) = to_string n" "dropWhile (\<lambda>c. c \<noteq> CHR ''.'') (to_string n) = []"
    by (simp_all add: takeWhile_append2 dropWhile_append2 takeWhile_eq_all_conv [THEN iffD2] dropWhile_eq_Nil_conv [THEN iffD2])
  have count: "(length parts = 3) = False" using assms(3) by simp
  note step = version_parts.simps [of _ parts] pieces count if_False Component_to_string [OF assms(1, 2)] option.case list.case
  show "version_parts (to_string n @ CHR ''.'' # rest) parts = version_parts rest (parts @ [n])"
    "version_parts (to_string n) parts = Some (parts @ [n])"
    by (simp_all only: step)
qed

lemma ParseVersion_ToString:
  assumes v: "release_sized v" and tail: "take 1 tail = ''-'' \<or> take 1 tail = ''+'' \<or> tail = []"
    and leading: "leading = [] \<or> leading = ''v'' \<or> leading = ''V''"
  shows "ParseVersion (leading @ Version_ToString v @ tail) = Some v"
proof -
  let ?s = "Version_ToString v"
  have n: "0 \<le> major v" "0 \<le> minor v" "0 \<le> patch v" "major v \<le> kMaxComponent" "minor v \<le> kMaxComponent"
    "patch v \<le> kMaxComponent" using v by (simp_all add: release_sized_def)
  note digits = to_string_digits [OF n(1)] to_string_digits [OF n(2)] to_string_digits [OF n(3)]
  have stop: "\<forall>c \<in> set ?s. c \<noteq> CHR ''-'' \<and> c \<noteq> CHR ''+''"
    using digits digits_no_stop unfolding Version_ToString_def set_append by fastforce
  have tail': "takeWhile (\<lambda>c. c \<noteq> CHR ''-'' \<and> c \<noteq> CHR ''+'') tail = []" using tail by (cases tail) auto
  have cut: "takeWhile (\<lambda>c. c \<noteq> CHR ''-'' \<and> c \<noteq> CHR ''+'') (?s @ tail) = ?s"
    using stop tail' takeWhile_append2 [of ?s "\<lambda>c. c \<noteq> CHR ''-'' \<and> c \<noteq> CHR ''+''" tail] by simp
  obtain c cs where s: "?s = c # cs" "IsDigit c"
    using digits(1) by (cases "to_string (major v)") (auto simp: Version_ToString_def)
  have "c \<noteq> CHR ''v''" "c \<noteq> CHR ''V''" using s(2) by (auto simp: IsDigit_byte)
  with leading s have "(if take 1 (leading @ ?s @ tail) = ''v'' \<or> take 1 (leading @ ?s @ tail) = ''V''
      then drop 1 (leading @ ?s @ tail) else leading @ ?s @ tail) = ?s @ tail" by auto
  moreover have "version_parts ?s [] = Some [major v, minor v, patch v]"
    using n by (simp add: Version_ToString_def part_until_dot)
  ultimately show ?thesis by (simp add: ParseVersion_def cut)
qed

text \<open>What a release is called is what it is judged by: a version written by \<open>ToString\<close>, with or without a
  leading v and whatever pre-release tail, is read back as itself, and then a server is supported exactly
  from the floor up, with the 5.4 features exactly from 5.4.0 up.\<close>

theorem release_is_judged_by_its_version:
  assumes "release_sized v" "take 1 tail = ''-'' \<or> take 1 tail = ''+'' \<or> tail = []"
    "leading = [] \<or> leading = ''v'' \<or> leading = ''V''"
  shows "ParseVersion (leading @ Version_ToString v @ tail) = Some v \<and>
    (let caps = CapabilitiesFor (leading @ Version_ToString v @ tail) lowest in
     (supported caps \<longleftrightarrow> lowest \<le> v) \<and> (delete_action caps \<longleftrightarrow> Version 5 4 0 \<le> v) \<and>
     (takes_rom_ids caps \<longleftrightarrow> Version 5 3 0 \<le> v) \<and> known caps)"
  using ParseVersion_ToString [OF assms]
  by (simp add: CapabilitiesFor_def Infer_def Let_def kRelease53_def kRelease54_def)

theorem release_is_judged_by_its_version_witness:
  "ParseVersion (''v'' @ Version_ToString (Version 5 4 1) @ ''-beta.2'') = Some (Version 5 4 1) \<and>
    (let caps = CapabilitiesFor (''v'' @ Version_ToString (Version 5 4 1) @ ''-beta.2'') kMinimumVersion in
     (supported caps \<longleftrightarrow> kMinimumVersion \<le> Version 5 4 1) \<and> (delete_action caps \<longleftrightarrow> Version 5 4 0 \<le> Version 5 4 1) \<and>
     (takes_rom_ids caps \<longleftrightarrow> Version 5 3 0 \<le> Version 5 4 1) \<and> known caps)"
  by (rule release_is_judged_by_its_version) (simp_all add: release_sized_def kMaxComponent_def)

section \<open>The call\<close>

interpretation probing: retried_call "\<lambda>host lowest request attempts attempt waited. read_server host lowest request attempts attempt"
  "\<lambda>lowest attempt waited sent. probed lowest attempt sent"
  "\<lambda>probe. \<not> pb_ok probe \<and> transient probe \<and> pb_transport probe \<noteq> Http_kCanceled"
  "\<lambda>attempt waited probe. probe"
  by unfold_locales (subst read_server.simps, auto simp: Let_def split: prod.split)

lemma probed_attempts [simp]: "pb_attempts (probed lowest attempt sent) = attempt"
  by (simp add: probed_def Let_def)

text \<open>Reading the server's version never touches the card and is bounded: on a transport that leaves the
  card alone the card is as it was, and no more requests are counted than the policy allows.\<close>

theorem ReadServer_is_bounded:
  assumes "off_card host" "ReadServer host base_url policy lowest w = (probe, w')"
  shows "card w' = card w \<and> pb_attempts probe \<in> {0..max 1 (pp_max_attempts policy)}"
proof -
  let ?n = "if pp_max_attempts policy > 0 then pp_max_attempts policy else 1"
  obtain stop w1 where c: "canceled host w = (stop, w1)" by fastforce
  note quiet = off_card_steps(2) [OF assms(1) c]
  show ?thesis
  proof (cases stop)
    case True
    with assms(2) c quiet show ?thesis by (auto simp: ReadServer_def no_probe_def pb_ok_def)
  next
    case False
    then obtain request where run: "read_server host lowest request ?n 1 (BackoffFor (CallPolicy.truncate policy)) w1 = (probe, w')"
      using assms(2) c by (auto simp: ReadServer_def Let_def)
    have "card w' = card w1" using probing.keeps_card [OF assms(1) run] .
    moreover have "1 \<le> ?n" by simp
    then obtain a where "1 \<le> a" "a \<le> ?n" "pb_attempts probe = a"
      using probing.attempts_bounded [OF order.refl _ run] by auto
    ultimately show ?thesis using quiet by (auto split: if_splits)
  qed
qed

end
