(* ===== verification/RomScope.thy ===== *)
theory RomScope
  imports SyncWire "HOL-Library.Multiset"
begin

text \<open>
  Which roms a tick asks about, and how it cuts them to the server's bound (\<open>core/src/rom_scope.cpp\<close>): the
  chunks are sorted, disjoint and small enough, and every save goes with its rom's chunk.
\<close>

section \<open>Chunks\<close>

record ScopeChunk =
  sc_rom_ids :: "int list"
  sc_saves :: "nat list"
  sc_restore :: bool

definition no_chunk :: ScopeChunk where
  "no_chunk = \<lparr>sc_rom_ids = [], sc_saves = [], sc_restore = False\<rparr>"

definition Normalised :: "int list \<Rightarrow> int list" where
  "Normalised ids = remdups_adj (sort (filter (\<lambda>i. 0 < i) ids))"

function AppendChunks :: "int list \<Rightarrow> bool \<Rightarrow> ScopeChunk list" where
  "AppendChunks ids restore =
     (if ids = [] then []
      else no_chunk\<lparr>sc_rom_ids := take kMaxNegotiateRomIds ids, sc_restore := restore\<rparr>
        # AppendChunks (drop kMaxNegotiateRomIds ids) restore)"
  by pat_completeness auto
termination
  by (relation "measure (\<lambda>(ids, _). length ids)") (auto simp: kMaxNegotiateRomIds_def)

declare AppendChunks.simps [simp del]

text \<open>\<open>binary_search\<close> over a sorted list is membership; the first chunk that has the rom, or the first of all.\<close>

fun home_of :: "ScopeChunk list \<Rightarrow> int \<Rightarrow> nat option" where
  "home_of [] rom = None"
| "home_of (c # cs) rom = (if List.member (sc_rom_ids c) rom then Some 0 else map_option Suc (home_of cs rom))"

definition place_save :: "nat \<Rightarrow> int \<Rightarrow> ScopeChunk list \<Rightarrow> ScopeChunk list" where
  "place_save index rom chunks =
     (let home = (case home_of chunks rom of Some i \<Rightarrow> i | None \<Rightarrow> 0)
      in chunks[home := (chunks ! home)\<lparr>sc_saves := sc_saves (chunks ! home) @ [index]\<rparr>])"

fun place_saves :: "nat \<Rightarrow> ClientSaveState list \<Rightarrow> ScopeChunk list \<Rightarrow> ScopeChunk list" where
  "place_saves index [] chunks = chunks"
| "place_saves index (save # saves) chunks = place_saves (index + 1) saves (place_save index (cs_rom_id save) chunks)"

definition ChunkScope :: "ClientSaveState list \<Rightarrow> int list \<Rightarrow> int list \<Rightarrow> ScopeChunk list" where
  "ChunkScope saves held restore =
     (let restoring = Normalised restore;
          ordinary = filter (\<lambda>i. \<not> List.member restoring i) (Normalised (held @ map cs_rom_id saves));
          chunks = AppendChunks ordinary False @ AppendChunks restoring True;
          chunks = (if chunks = [] then [no_chunk] else chunks)
      in place_saves 0 saves chunks)"

section \<open>What the chunks are\<close>

lemma distinct_remdups_sorted: "sorted xs \<Longrightarrow> distinct (remdups_adj (xs :: int list))"
  by (induction xs rule: remdups_adj.induct) (auto simp: less_le)

lemma Normalised_facts: "set (Normalised ids) = {i \<in> set ids. 0 < i} \<and> sorted (Normalised ids) \<and> distinct (Normalised ids)"
proof -
  have "sorted (Normalised ids)" by (simp add: Normalised_def)
  moreover have "distinct (Normalised ids)" by (simp add: Normalised_def distinct_remdups_sorted)
  ultimately show ?thesis by (auto simp: Normalised_def)
qed

lemma AppendChunks_facts:
  "concat (map sc_rom_ids (AppendChunks ids restore)) = ids \<and>
   (\<forall>c \<in> set (AppendChunks ids restore). sc_rom_ids c \<noteq> [] \<and> length (sc_rom_ids c) \<le> kMaxNegotiateRomIds \<and>
      sc_restore c = restore \<and> sc_saves c = [])"
proof (induction ids restore rule: AppendChunks.induct)
  case (1 ids restore)
  show ?case
  proof (cases "ids = []")
    case False
    have "take kMaxNegotiateRomIds ids \<noteq> []" using False by (simp add: kMaxNegotiateRomIds_def)
    then show ?thesis using 1 [OF False] False
      by (subst (1 2) AppendChunks.simps) (simp add: no_chunk_def)
  qed (simp add: AppendChunks.simps)
qed

text \<open>A chunk but for the saves placed in it.\<close>

definition roms_of :: "ScopeChunk list \<Rightarrow> (int list \<times> bool) list" where
  "roms_of chunks = map (\<lambda>c. (sc_rom_ids c, sc_restore c)) chunks"

lemma place_save_roms: "roms_of (place_save index rom chunks) = roms_of chunks"
proof -
  let ?h = "case home_of chunks rom of Some i \<Rightarrow> i | None \<Rightarrow> 0"
  show ?thesis
    by (cases "?h < length chunks")
      (simp_all add: roms_of_def place_save_def Let_def map_update list_update_same_conv list_update_beyond)
qed

lemma place_saves_roms: "roms_of (place_saves index saves chunks) = roms_of chunks"
  by (induction index saves chunks rule: place_saves.induct) (simp_all add: place_save_roms)

lemma roms_of_length: "roms_of xs = roms_of ys \<Longrightarrow> length xs = length ys"
  by (metis length_map roms_of_def)

lemma home_of_Some: "home_of chunks rom = Some i \<Longrightarrow> i < length chunks \<and> rom \<in> set (sc_rom_ids (chunks ! i))"
  by (induction chunks rom arbitrary: i rule: home_of.induct) (auto simp: split: if_splits)

lemma home_of_None: "home_of chunks rom = None \<longleftrightarrow> (\<forall>c \<in> set chunks. rom \<notin> set (sc_rom_ids c))"
  by (induction chunks rom rule: home_of.induct) auto

section \<open>Where the saves are\<close>

lemma mset_concat_update:
  "i < length xs \<Longrightarrow> mset (concat (map f (xs[i := y]))) + mset (f (xs ! i)) = mset (concat (map f xs)) + mset (f y)"
proof (induction xs arbitrary: i)
  case (Cons x xs)
  then show ?case by (cases i) (auto simp: ac_simps)
qed simp

definition home_index :: "ScopeChunk list \<Rightarrow> int \<Rightarrow> nat" where
  "home_index chunks rom = (case home_of chunks rom of Some i \<Rightarrow> i | None \<Rightarrow> 0)"

lemma home_index_less: "chunks \<noteq> [] \<Longrightarrow> home_index chunks rom < length chunks"
  using home_of_Some [of chunks rom] by (cases "home_of chunks rom") (auto simp: home_index_def)

lemma place_save_saves:
  assumes "chunks \<noteq> []"
  shows "mset (concat (map sc_saves (place_save index rom chunks))) = mset (concat (map sc_saves chunks)) + {#index#}"
proof -
  let ?h = "home_index chunks rom" let ?c = "(chunks ! ?h)\<lparr>sc_saves := sc_saves (chunks ! ?h) @ [index]\<rparr>"
  have "place_save index rom chunks = chunks[?h := ?c]" by (simp add: place_save_def home_index_def Let_def)
  with mset_concat_update [OF home_index_less [OF assms, of rom], of sc_saves ?c] show ?thesis by simp
qed

lemma place_save_not_Nil: "chunks \<noteq> [] \<Longrightarrow> place_save index rom chunks \<noteq> []"
  by (simp add: place_save_def Let_def)

lemma place_saves_saves:
  "chunks \<noteq> [] \<Longrightarrow> mset (concat (map sc_saves (place_saves index saves chunks))) =
     mset (concat (map sc_saves chunks)) + mset [index..<index + length saves]"
proof (induction index saves chunks rule: place_saves.induct)
  case (2 index save saves chunks)
  have "[index..<index + length (save # saves)] = index # [Suc index..<Suc index + length saves]"
    by (simp add: upt_conv_Cons del: upt_Suc)
  with 2 show ?case by (simp add: place_save_saves place_save_not_Nil)
qed simp

text \<open>A save is in a chunk that has its rom, unless no chunk has.\<close>

definition homed :: "ClientSaveState list \<Rightarrow> ScopeChunk list \<Rightarrow> bool" where
  "homed saves chunks \<longleftrightarrow> (\<forall>c \<in> set chunks. \<forall>i \<in> set (sc_saves c). cs_rom_id (saves ! i) \<in> set (sc_rom_ids c) \<or>
     cs_rom_id (saves ! i) \<notin> set (concat (map sc_rom_ids chunks)))"

lemma roms_of_concat: "roms_of xs = roms_of ys \<Longrightarrow> concat (map sc_rom_ids xs) = concat (map sc_rom_ids ys)"
proof -
  have "map sc_rom_ids zs = map fst (roms_of zs)" for zs by (simp add: roms_of_def)
  then show "roms_of xs = roms_of ys \<Longrightarrow> concat (map sc_rom_ids xs) = concat (map sc_rom_ids ys)" by simp
qed

lemma place_save_homed:
  assumes "chunks \<noteq> []" "homed saves chunks"
  shows "homed saves (place_save index (cs_rom_id (saves ! index)) chunks)"
proof -
  let ?rom = "cs_rom_id (saves ! index)" let ?h = "home_index chunks ?rom"
  let ?c = "(chunks ! ?h)\<lparr>sc_saves := sc_saves (chunks ! ?h) @ [index]\<rparr>"
  have p: "place_save index ?rom chunks = chunks[?h := ?c]" by (simp add: place_save_def home_index_def Let_def)
  have h: "?h < length chunks" by (rule home_index_less [OF assms(1)])
  have "?rom \<in> set (sc_rom_ids (chunks ! ?h)) \<or> ?rom \<notin> set (concat (map sc_rom_ids chunks))"
    using home_of_Some [of chunks ?rom] home_of_None [of chunks ?rom]
    by (cases "home_of chunks ?rom") (auto simp: home_index_def)
  then have c: "\<forall>i \<in> set (sc_saves ?c). cs_rom_id (saves ! i) \<in> set (sc_rom_ids ?c) \<or>
      cs_rom_id (saves ! i) \<notin> set (concat (map sc_rom_ids chunks))"
    using assms(2) nth_mem [OF h] unfolding homed_def by auto
  have roms: "set (concat (map sc_rom_ids (chunks[?h := ?c]))) = set (concat (map sc_rom_ids chunks))"
    using roms_of_concat [OF place_save_roms [of index ?rom chunks]] p by simp
  have "d = ?c \<or> d \<in> set chunks" if "d \<in> set (chunks[?h := ?c])" for d
    using that set_update_subset_insert by fastforce
  then show ?thesis using c assms(2) unfolding p homed_def roms by blast
qed

lemma place_saves_homed:
  "chunks \<noteq> [] \<Longrightarrow> homed all chunks \<Longrightarrow> saves = drop index all \<Longrightarrow> homed all (place_saves index saves chunks)"
proof (induction index saves chunks rule: place_saves.induct)
  case (2 index save saves chunks)
  from "2.prems"(3) have at: "save = all ! index" "saves = drop (index + 1) all"
    by (metis nth_via_drop, metis Suc_eq_plus1 drop_Suc list.sel(3) tl_drop)
  have "homed all (place_saves (index + 1) saves (place_save index (cs_rom_id save) chunks))"
    using "2.IH" [OF place_save_not_Nil [OF "2.prems"(1)] _ at(2)] place_save_homed [OF "2.prems"(1, 2), of index] at(1) by simp
  then show ?case by simp
qed simp

section \<open>The scope, cut up\<close>

text \<open>C13: A tick's scope is cut up without loss: every positive rom id of the card, of the saves or to restore
  is in exactly one chunk, no chunk is longer than the server takes and each is sorted; every save is in
  exactly one chunk, the one with its rom; and a chunk restores exactly when its roms are to be restored.\<close>

theorem scope_is_cut_up:
  "let chunks = ChunkScope saves held restore in
     mset (concat (map sc_rom_ids chunks)) =
       mset_set {i. (i \<in> set held \<union> cs_rom_id ` set saves \<union> set restore) \<and> 0 < i} \<and>
     mset (concat (map sc_saves chunks)) = mset [0..<length saves] \<and>
     list_all (\<lambda>c. length (sc_rom_ids c) \<le> kMaxNegotiateRomIds \<and> sorted (sc_rom_ids c) \<and>
       list_all (\<lambda>i. sc_restore c = (i \<in> set restore)) (sc_rom_ids c) \<and>
       list_all (\<lambda>i. cs_rom_id (saves ! i) \<in> set (sc_rom_ids c) \<or> cs_rom_id (saves ! i) \<le> 0) (sc_saves c)) chunks"
proof -
  let ?r = "Normalised restore" let ?n = "Normalised (held @ map cs_rom_id saves)"
  let ?o = "filter (\<lambda>i. \<not> List.member ?r i) ?n"
  let ?raw = "AppendChunks ?o False @ AppendChunks ?r True"
  define start where "start = (if ?raw = [] then [no_chunk] else ?raw)"
  define chunks where "chunks = ChunkScope saves held restore"
  have chunks: "chunks = place_saves 0 saves start" by (simp add: chunks_def ChunkScope_def Let_def start_def)
  have start: "start \<noteq> []" by (simp add: start_def)
  note o = AppendChunks_facts [of ?o False] and r = AppendChunks_facts [of ?r True]
  note rs = Normalised_facts [of restore] and ns = Normalised_facts [of "held @ map cs_rom_id saves"]
  have ids: "concat (map sc_rom_ids start) = ?o @ ?r" using o r by (auto simp: start_def no_chunk_def)
  have empty: "\<forall>c \<in> set start. sc_saves c = []" using o r by (auto simp: start_def no_chunk_def)
  have sorted_part: "sorted (sc_rom_ids c)" if "c \<in> set cs" "sorted (concat (map sc_rom_ids cs))" for c cs
    using that by (auto simp: in_set_conv_decomp sorted_append)
  have ids_within: "set (sc_rom_ids c) \<subseteq> set (concat (map sc_rom_ids cs))" if "c \<in> set cs" for c cs
    using that by auto
  have parts: "length (sc_rom_ids c) \<le> kMaxNegotiateRomIds \<and> sorted (sc_rom_ids c) \<and>
      (\<forall>i \<in> set (sc_rom_ids c). sc_restore c = (i \<in> set restore))" if c: "c \<in> set start" for c
  proof -
    consider "c = no_chunk" | "c \<in> set (AppendChunks ?o False)" | "c \<in> set (AppendChunks ?r True)"
      using c by (auto simp: start_def split: if_splits)
    then show ?thesis
    proof cases
      case 1
      then show ?thesis by (simp add: no_chunk_def)
    next
      case 2
      have "set (sc_rom_ids c) \<subseteq> set ?o" using ids_within [OF 2] unfolding conjunct1 [OF o] .
      moreover have "sorted ?o" using ns sorted_filter [of id] by (simp add: sorted_wrt_filter)
      ultimately show ?thesis using 2 o sorted_part [OF 2] rs ns by fastforce
    next
      case 3
      have "set (sc_rom_ids c) \<subseteq> set ?r" using ids_within [OF 3] unfolding conjunct1 [OF r] .
      then show ?thesis using 3 r sorted_part [OF 3] rs by fastforce
    qed
  qed
  have kept: "roms_of chunks = roms_of start" using chunks place_saves_roms by simp
  have part: "\<exists>d \<in> set start. sc_rom_ids c = sc_rom_ids d \<and> sc_restore c = sc_restore d" if "c \<in> set chunks" for c
  proof -
    have "(sc_rom_ids c, sc_restore c) \<in> set (roms_of start)" using that kept by (metis (no_types, lifting) image_eqI list.set_map roms_of_def)
    then show ?thesis by (auto simp: roms_of_def)
  qed
  have all: "concat (map sc_rom_ids chunks) = ?o @ ?r" using roms_of_concat [OF kept] ids by simp
  have "distinct (?o @ ?r)" using rs ns by auto
  moreover have "set (?o @ ?r) = {i. (i \<in> set held \<union> cs_rom_id ` set saves \<union> set restore) \<and> 0 < i}" using rs ns by auto
  ultimately have ids_all: "mset (concat (map sc_rom_ids chunks)) =
      mset_set {i. (i \<in> set held \<union> cs_rom_id ` set saves \<union> set restore) \<and> 0 < i}"
    unfolding all by (metis mset_set_set)
  have "homed saves start" using empty by (simp add: homed_def)
  then have "homed saves chunks" unfolding chunks by (rule place_saves_homed [OF start]) simp
  moreover have saves_all: "mset (concat (map sc_saves chunks)) = mset [0..<length saves]"
    unfolding chunks using place_saves_saves [OF start, of 0 saves] empty by simp
  moreover have "i < length saves" if "c \<in> set chunks" "i \<in> set (sc_saves c)" for c i
  proof -
    have "i \<in> set (concat (map sc_saves chunks))" using that by auto
    then have "i \<in> set [0..<length saves]" unfolding mset_eq_setD [OF saves_all] .
    then show ?thesis by simp
  qed
  ultimately have "cs_rom_id (saves ! i) \<in> set (sc_rom_ids c) \<or> cs_rom_id (saves ! i) \<le> 0"
    if "c \<in> set chunks" "i \<in> set (sc_saves c)" for c i
    using that rs ns unfolding homed_def all by (fastforce simp: not_less)
  then show ?thesis using ids_all saves_all parts part
    unfolding chunks_def [symmetric] Let_def list_all_iff by metis
qed

lemma ChunkScope_distinct: "distinct (concat (map sc_rom_ids (ChunkScope saves held restore)))"
proof -
  let ?r = "Normalised restore" let ?n = "Normalised (held @ map cs_rom_id saves)"
  let ?o = "filter (\<lambda>i. \<not> List.member ?r i) ?n"
  let ?raw = "AppendChunks ?o False @ AppendChunks ?r True"
  define start where "start = (if ?raw = [] then [no_chunk] else ?raw)"
  have "roms_of (ChunkScope saves held restore) = roms_of start"
    by (simp add: ChunkScope_def Let_def start_def place_saves_roms)
  moreover have "concat (map sc_rom_ids start) = ?o @ ?r"
    using AppendChunks_facts [of ?o False] AppendChunks_facts [of ?r True] by (auto simp: start_def no_chunk_def)
  ultimately have "concat (map sc_rom_ids (ChunkScope saves held restore)) = ?o @ ?r" using roms_of_concat by metis
  moreover have "distinct (?o @ ?r)"
    using Normalised_facts [of restore] Normalised_facts [of "held @ map cs_rom_id saves"] by auto
  ultimately show ?thesis by simp
qed

lemma ChunkScope_not_Nil: "ChunkScope saves held restore \<noteq> []"
proof -
  have "length (place_saves i saves chunks) = length chunks" for i saves chunks
    using roms_of_length [OF place_saves_roms] .
  then have "length (ChunkScope saves held restore) \<noteq> 0" by (simp add: ChunkScope_def Let_def)
  then show ?thesis by auto
qed

end
