(* ===== verification/SyncTick.thy ===== *)
theory SyncTick
  imports Scheduler RomScope SyncFinish SyncRecovery SyncResolve ServerCapabilities
begin

text \<open>
  One tick, in order (\<open>core/src/sync_tick.cpp\<close>): the sweep, the chunks of the scope asked one after another and
  each plan carried out, and what it all comes to for the schedule and for the gate on the pairing.
\<close>

section \<open>What a tick comes to\<close>

fun TickOutcome_ToString :: "TickOutcome \<Rightarrow> bytes" where
  "TickOutcome_ToString Tick_kCompleted = ''completed''"
| "TickOutcome_ToString Tick_kPartial = ''partial''"
| "TickOutcome_ToString Tick_kUnreported = ''unreported''"
| "TickOutcome_ToString Tick_kOffline = ''offline''"
| "TickOutcome_ToString Tick_kRefused = ''refused''"
| "TickOutcome_ToString Tick_kServerDisabled = ''server_disabled''"
| "TickOutcome_ToString Tick_kUnauthorized = ''unauthorized''"
| "TickOutcome_ToString Tick_kCanceled = ''canceled''"
| "TickOutcome_ToString Tick_kDisabled = ''disabled''"
| "TickOutcome_ToString Tick_kRescanNeeded = ''rescan_needed''"
| "TickOutcome_ToString Tick_kUnsupported = ''unsupported''"

fun OutcomeOf :: "NegotiateError \<Rightarrow> TickOutcome" where
  "OutcomeOf NegotiateError_kNone = Tick_kCompleted"
| "OutcomeOf NegotiateError_kCanceled = Tick_kCanceled"
| "OutcomeOf NegotiateError_kUnauthorized = Tick_kUnauthorized"
| "OutcomeOf NegotiateError_kForbidden = Tick_kUnauthorized"
| "OutcomeOf NegotiateError_kUnreachable = Tick_kOffline"
| "OutcomeOf NegotiateError_kServerError = Tick_kOffline"
| "OutcomeOf NegotiateError_kSyncDisabled = Tick_kServerDisabled"
| "OutcomeOf _ = Tick_kRefused"

definition SessionGone :: "CompleteError \<Rightarrow> bool" where
  "SessionGone e \<longleftrightarrow> e = Complete_kAlreadyCompleted \<or> e = Complete_kSuperseded \<or> e = Complete_kNoSuchSession"

definition OutcomeAfter :: "ExecutionReport \<Rightarrow> TickCompletion \<Rightarrow> TickOutcome" where
  "OutcomeAfter executed finished =
     (let e = co_error (tc_reported finished) in
      if er_canceled executed \<or> e = Complete_kCanceled then Tick_kCanceled
      else if er_unauthorized executed \<or> e = Complete_kUnauthorized \<or> e = Complete_kForbidden then Tick_kUnauthorized
      else if \<not> bs_ok (tc_stored finished) then Tick_kPartial
      else if \<not> co_ok (tc_reported finished) \<and> \<not> SessionGone e then Tick_kUnreported
      else if er_failed executed = 0 \<and> er_not_understood executed = 0 then Tick_kCompleted
      else Tick_kPartial)"

definition AnswerAfter :: "NegotiateError \<Rightarrow> ExecutionReport \<Rightarrow> TickCompletion \<Rightarrow> AuthAnswer" where
  "AnswerAfter asked executed finished =
     (let said = AnswerOf_complete (co_error (tc_reported finished)) in
      if said \<noteq> Answer_kSilent then said
      else if er_operations executed \<noteq> [] \<and> AnswerOf_operation (or_error (last (er_operations executed))) \<noteq> Answer_kSilent
      then AnswerOf_operation (or_error (last (er_operations executed)))
      else AnswerOf_negotiate asked)"

fun Severity :: "TickOutcome \<Rightarrow> int" where
  "Severity Tick_kCompleted = 0"
| "Severity Tick_kPartial = 1"
| "Severity Tick_kUnreported = 2"
| "Severity Tick_kUnauthorized = 3"
| "Severity Tick_kCanceled = 4"
| "Severity _ = 1"

definition Worse :: "TickOutcome \<Rightarrow> TickOutcome \<Rightarrow> TickOutcome" where
  "Worse left right = (if Severity right > Severity left then right else left)"

definition Halve :: "ScopeChunk \<Rightarrow> ClientSaveState list \<Rightarrow> ScopeChunk \<times> ScopeChunk" where
  "Halve chunk offered =
     (let middle = length (sc_rom_ids chunk) div 2;
          lower_ids = take middle (sc_rom_ids chunk); upper_ids = drop middle (sc_rom_ids chunk);
          in_upper = (\<lambda>index. List.member upper_ids (cs_rom_id (offered ! index)))
      in (\<lparr>sc_rom_ids = lower_ids, sc_saves = filter (\<lambda>i. \<not> in_upper i) (sc_saves chunk), sc_restore = sc_restore chunk\<rparr>,
          \<lparr>sc_rom_ids = upper_ids, sc_saves = filter in_upper (sc_saves chunk), sc_restore = sc_restore chunk\<rparr>))"

section \<open>One plan\<close>

text \<open>\<open>tk_cancel\<close> says whether the tick carries a token to cancel with; \<open>canceled\<close> of the host answers for it.\<close>

record 'n TickOptions =
  tk_enabled :: bool
  tk_recover_dirs :: "bytes list"
  tk_create_backup_dir :: bool
  tk_server :: ServerCapabilities
  tk_negotiate :: NegotiateOptions
  tk_execute :: "'n ExecuteOptions"
  tk_finish :: FinishOptions
  tk_rom_scope :: "int list option"
  tk_restore_roms :: "int list"
  tk_hold :: "('n World \<Rightarrow> bool \<times> 'n World) option"
  tk_on_plan :: "(SyncPlan \<Rightarrow> ExecutionReport \<Rightarrow> 'n World \<Rightarrow> 'n World) option"
  tk_cancel :: bool

record PlanRun =
  pn_executed :: ExecutionReport
  pn_resolved :: ResolveReport
  pn_finished :: TickCompletion
  pn_outcome :: TickOutcome
  pn_answer :: AuthAnswer

definition tick_execute :: "'n TickOptions \<Rightarrow> ClientSaveState list \<Rightarrow> 'n ExecuteOptions" where
  "tick_execute options offered =
     (tk_execute options)\<lparr>eo_send_content_hash := hash_baselines (tk_server options),
       eo_delete_action := delete_action (tk_server options), eo_reported := Some offered\<rparr>"

definition tick_resolve :: "'n TickOptions \<Rightarrow> NegotiateOptions \<Rightarrow> ClientSaveState list \<Rightarrow> 'n ResolveOptions" where
  "tick_resolve options negotiate offered =
     \<lparr>rs_rom_ids = takes_rom_ids (tk_server options), rs_hold = tk_hold options, rs_negotiate = negotiate,
       rs_execute = (tick_execute options offered)\<lparr>eo_delete_action := False\<rparr>,
       rs_complete = (fo_complete (tk_finish options))\<lparr>cp_cancel := tk_cancel options\<rparr>\<rparr>"

definition tick_finish :: "'n TickOptions \<Rightarrow> bool \<Rightarrow> FinishOptions" where
  "tick_finish options first =
     (let finish = (tk_finish options)\<lparr>fo_complete := (fo_complete (tk_finish options))\<lparr>cp_cancel := tk_cancel options\<rparr>\<rparr>
      in if first then finish else finish\<lparr>fo_play_sessions := []\<rparr>)"

text \<open>The run, \<open>*negotiated\<close>, \<open>*baseline\<close> and the table of declined operations.\<close>

definition CarryOut ::
  "'n Host \<Rightarrow> StoredToken \<Rightarrow> ClientSaveState list \<Rightarrow> ClientSaveState list \<Rightarrow> SaveTarget list \<Rightarrow> Negotiation \<Rightarrow>
     Baseline \<Rightarrow> 'n TickOptions \<Rightarrow> NegotiateOptions \<Rightarrow> bool \<Rightarrow> Declines option \<Rightarrow> 'n World \<Rightarrow>
     (PlanRun \<times> Negotiation \<times> Baseline \<times> Declines option) \<times> 'n World" where
  "CarryOut host token reported offered targets one baseline options negotiate first declines w =
     (let ((executed, declines), w) = ExecutePlan host token (neg_plan one) targets (tick_execute options offered) declines w;
          ((resolved, plan, executed, declines), w) = ResolveRefusedUploads host token offered targets baseline
            (neg_plan one) executed (tick_resolve options negotiate offered) declines w;
          ((finished, baseline), w) = FinishTick host token plan executed reported baseline (tick_finish options first) w
      in ((\<lparr>pn_executed = executed, pn_resolved = resolved, pn_finished = finished,
            pn_outcome = OutcomeAfter executed finished, pn_answer = AnswerAfter (neg_error one) executed finished\<rparr>,
          one\<lparr>neg_plan := plan\<rparr>, baseline, declines), w))"

section \<open>The tick\<close>

record Totals =
  tt_plans :: nat
  tt_completed :: nat
  tt_failed :: nat
  tt_declined :: nat
  tt_stored :: bool

record TickResult =
  tr_recovered :: RecoveryReport
  tr_negotiated :: Negotiation
  tr_executed :: ExecutionReport
  tr_resolved :: ResolveReport
  tr_finished :: TickCompletion
  tr_other_sessions :: "Completion list"
  tr_totals :: Totals
  tr_oversized_roms :: "int list"
  tr_unasked_roms :: "int list"
  tr_held :: bool
  tr_outcome :: TickOutcome
  tr_answer :: AuthAnswer
  tr_session_gone :: bool

definition nothing_finished :: TickCompletion where
  "nothing_finished = \<lparr>tc_stored = \<lparr>bs_error = Baseline_kNone, bs_message = [], bs_rows_written = 0, bs_skipped = []\<rparr>,
     tc_reported = complete_refuse Complete_kNone [], tc_counts = \<lparr>cc_completed = 0, cc_failed = 0\<rparr>,
     tc_play_sessions_sent = 0, tc_rows_advanced = 0, tc_rows_dropped = 0, tc_warnings = []\<rparr>"

definition no_tick :: TickResult where
  "no_tick = \<lparr>tr_recovered = empty_recovery, tr_negotiated = neg_refuse NegotiateError_kNone [], tr_executed = empty_report,
     tr_resolved = no_resolution, tr_finished = nothing_finished, tr_other_sessions = [],
     tr_totals = \<lparr>tt_plans = 0, tt_completed = 0, tt_failed = 0, tt_declined = 0, tt_stored = True\<rparr>,
     tr_oversized_roms = [], tr_unasked_roms = [], tr_held = False, tr_outcome = Tick_kCompleted,
     tr_answer = Answer_kSilent, tr_session_gone = False\<rparr>"

text \<open>The locals of the loop; \<open>ts_ended\<close> is the return out of the middle of it.\<close>

record TickState =
  ts_pending :: "ScopeChunk list"
  ts_baseline :: Baseline
  ts_outcome :: TickOutcome
  ts_answer :: AuthAnswer
  ts_attempts :: int
  ts_waited :: int
  ts_backup_made :: bool
  ts_left_out :: bool
  ts_result :: TickResult
  ts_declines :: "Declines option"
  ts_ended :: bool

abbreviation ts_plans :: "TickState \<Rightarrow> nat" where "ts_plans st \<equiv> tt_plans (tr_totals (ts_result st))"

definition unasked :: "ScopeChunk list \<Rightarrow> TickState \<Rightarrow> TickState" where
  "unasked chunks st = st\<lparr>ts_result := (ts_result st)
     \<lparr>tr_unasked_roms := tr_unasked_roms (ts_result st) @ concat (map sc_rom_ids chunks)\<rparr>\<rparr>"

definition stop_tick :: "TickState \<Rightarrow> TickState" where
  "stop_tick st = (unasked (ts_pending st) st)\<lparr>ts_pending := []\<rparr>"

text \<open>Between two plans: a shutdown, or a game launched.\<close>

definition asks_to_stop :: "'n Host \<Rightarrow> 'n TickOptions \<Rightarrow> TickState \<Rightarrow> 'n World \<Rightarrow> (TickState \<times> bool) \<times> 'n World" where
  "asks_to_stop host options st w =
     (if ts_plans st = 0 then ((st, False), w)
      else
        let (off, w) = canceled host w;
            (held, w) = (if off then (False, w) else case tk_hold options of None \<Rightarrow> (False, w) | Some hold \<Rightarrow> hold w);
            st = st\<lparr>ts_result := (ts_result st)\<lparr>tr_held := held\<rparr>\<rparr>
        in if off \<or> held
           then ((stop_tick (st\<lparr>ts_outcome := Worse (ts_outcome st) (if off then Tick_kCanceled else Tick_kPartial)\<rparr>), True), w)
           else ((st, False), w))"

text \<open>The last plan and its results are freed before the next chunk is asked about.\<close>

definition let_go :: "TickState \<Rightarrow> TickState" where
  "let_go st =
     (if ts_plans st = 0 then st
      else let r = ts_result st in st\<lparr>ts_result := r
        \<lparr>tr_negotiated := (tr_negotiated r)\<lparr>neg_plan := (neg_plan (tr_negotiated r))\<lparr>plan_operations := []\<rparr>\<rparr>,
         tr_executed := (tr_executed r)\<lparr>er_operations := [], er_warnings := []\<rparr>\<rparr>\<rparr>)"

definition ask_chunk ::
  "'n Host \<Rightarrow> StoredToken \<Rightarrow> ClientSaveState list \<Rightarrow> NegotiateOptions \<Rightarrow> bool \<Rightarrow> ScopeChunk \<Rightarrow> 'n World \<Rightarrow>
     Negotiation \<times> 'n World" where
  "ask_chunk host token offered negotiate scoped chunk w =
     (if \<not> scoped then Negotiate host token offered negotiate w
      else NegotiateRoms host token
        (if length (sc_saves chunk) = length offered then offered else map (\<lambda>i. offered ! i) (sc_saves chunk))
        (sc_rom_ids chunk) (negotiate\<lparr>np_restore_unlisted := sc_restore chunk\<rparr>) w)"

text \<open>A chunk whose plan is too large: cut in half, or one rom left out and named.\<close>

definition too_large :: "ScopeChunk \<Rightarrow> ClientSaveState list \<Rightarrow> TickState \<Rightarrow> TickState" where
  "too_large chunk offered st =
     (if length (sc_rom_ids chunk) > 1
      then let (lower, upper) = Halve chunk offered in st\<lparr>ts_pending := lower # upper # ts_pending st\<rparr>
      else unasked [chunk] (st\<lparr>ts_left_out := True,
        ts_result := (ts_result st)\<lparr>tr_oversized_roms := tr_oversized_roms (ts_result st) @ sc_rom_ids chunk\<rparr>\<rparr>))"

definition sorted_lists :: "TickResult \<Rightarrow> TickResult" where
  "sorted_lists r = r\<lparr>tr_oversized_roms := sort (tr_oversized_roms r), tr_unasked_roms := sort (tr_unasked_roms r)\<rparr>"

text \<open>A negotiation without a plan: before any plan ran it is the tick's end, after one the rest waits.\<close>

definition refused_chunk :: "ScopeChunk \<Rightarrow> Negotiation \<Rightarrow> TickState \<Rightarrow> TickState" where
  "refused_chunk chunk one st =
     (if ts_plans st = 0
      then
        let st = stop_tick (unasked [chunk] st);
            one = one\<lparr>neg_attempts := ts_attempts st, neg_waited := ts_waited st\<rparr>
        in st\<lparr>ts_ended := True, ts_result := sorted_lists ((ts_result st)\<lparr>tr_outcome := OutcomeOf (neg_error one),
             tr_answer := AnswerOf_negotiate (neg_error one), tr_negotiated := one\<rparr>)\<rparr>
      else
        let fell = OutcomeOf (neg_error one);
            st = st\<lparr>ts_outcome := Worse (ts_outcome st)
                  (if fell = Tick_kUnauthorized \<or> fell = Tick_kCanceled then fell else Tick_kPartial)\<rparr>;
            said = AnswerOf_negotiate (neg_error one);
            st = (if said \<noteq> Answer_kSilent then st\<lparr>ts_answer := said\<rparr> else st);
            st = stop_tick (unasked [chunk] st)
        in st\<lparr>ts_result := (ts_result st)\<lparr>tr_negotiated := one, tr_executed := empty_report\<rparr>\<rparr>)"

definition make_backup_dir :: "'n Host \<Rightarrow> 'n TickOptions \<Rightarrow> TickState \<Rightarrow> 'n World \<Rightarrow> TickState \<times> 'n World" where
  "make_backup_dir host options st w =
     (if \<not> ts_backup_made st \<and> tk_create_backup_dir options
      then
        let ((error, why), w) = CreateDirectory host (eo_backup_dir (tk_execute options)) w;
            st = st\<lparr>ts_backup_made := True\<rparr>; r = ts_result st; lines = rc_warnings (tr_recovered r)
        in if error \<noteq> MakeDirError_kNone \<and> length lines < kMaxRecoveryWarnings
           then (st\<lparr>ts_result := r\<lparr>tr_recovered := (tr_recovered r)\<lparr>rc_warnings := lines @ [''the backup directory '' @
               eo_backup_dir (tk_execute options) @ '' could not be created: '' @ why]\<rparr>\<rparr>\<rparr>, w)
           else (st, w)
      else (st, w))"

text \<open>A run folded into the tick.\<close>

definition fold_run :: "PlanRun \<Rightarrow> Negotiation \<Rightarrow> bool \<Rightarrow> TickState \<Rightarrow> TickState" where
  "fold_run run one first st =
     (let r = ts_result st; t = tr_totals r; executed = pn_executed run; finished = pn_finished run;
          r = r\<lparr>tr_totals := \<lparr>tt_plans = tt_plans t + 1, tt_completed = tt_completed t + er_completed executed,
              tt_failed = tt_failed t + er_failed executed, tt_declined = tt_declined t + er_declined executed,
              tt_stored = (tt_stored t \<and> bs_ok (tc_stored finished))\<rparr>\<rparr>;
          r = (if first
            then r\<lparr>tr_session_gone := SessionGone (co_error (tc_reported finished)), tr_finished := finished\<rparr>
            else r\<lparr>tr_other_sessions := tr_other_sessions r @ [tc_reported finished],
              tr_finished := (tr_finished r)\<lparr>tc_warnings := tc_warnings (tr_finished r) @ tc_warnings finished\<rparr>\<rparr>);
          r = r\<lparr>tr_negotiated := one, tr_executed := executed, tr_resolved := Accumulate (tr_resolved r) (pn_resolved run)\<rparr>;
          st = st\<lparr>ts_result := r, ts_outcome := Worse (ts_outcome st) (pn_outcome run),
            ts_answer := (if pn_answer run \<noteq> Answer_kSilent then pn_answer run else ts_answer st)\<rparr>
      in if pn_outcome run = Tick_kUnauthorized \<or> pn_outcome run = Tick_kCanceled then stop_tick st else st)"

definition carry_on ::
  "'n Host \<Rightarrow> StoredToken \<Rightarrow> ClientSaveState list \<Rightarrow> ClientSaveState list \<Rightarrow> SaveTarget list \<Rightarrow> 'n TickOptions \<Rightarrow>
     NegotiateOptions \<Rightarrow> Negotiation \<Rightarrow> TickState \<Rightarrow> 'n World \<Rightarrow> TickState \<times> 'n World" where
  "carry_on host token reported offered targets options negotiate one st w =
     (let first = (ts_plans st = 0);
          ((run, one, baseline, declines), w) = CarryOut host token reported offered targets one (ts_baseline st) options
            negotiate first (ts_declines st) w;
          w = (case tk_on_plan options of None \<Rightarrow> w | Some on_plan \<Rightarrow> on_plan (neg_plan one) (pn_executed run) w)
      in (fold_run run one first (st\<lparr>ts_baseline := baseline, ts_declines := declines\<rparr>), w))"

definition tick_step ::
  "'n Host \<Rightarrow> StoredToken \<Rightarrow> ClientSaveState list \<Rightarrow> ClientSaveState list \<Rightarrow> SaveTarget list \<Rightarrow> 'n TickOptions \<Rightarrow>
     NegotiateOptions \<Rightarrow> bool \<Rightarrow> TickState \<Rightarrow> 'n World \<Rightarrow> TickState \<times> 'n World" where
  "tick_step host token reported offered targets options negotiate scoped st w =
     (let ((st, halted), w) = asks_to_stop host options st w in
      if halted then (st, w)
      else case ts_pending st of
        [] \<Rightarrow> (st, w)
      | chunk # rest \<Rightarrow>
          let st = let_go (st\<lparr>ts_pending := rest\<rparr>);
              (one, w) = ask_chunk host token offered negotiate scoped chunk w;
              st = st\<lparr>ts_attempts := ts_attempts st + neg_attempts one, ts_waited := ts_waited st + neg_waited one\<rparr>
          in if scoped \<and> neg_error one = NegotiateError_kPlanTooLarge then (too_large chunk offered st, w)
             else if \<not> neg_ok one then (refused_chunk chunk one st, w)
             else
               let (st, w) = make_backup_dir host options st w
               in carry_on host token reported offered targets options negotiate one st w)"

text \<open>Halving a chunk makes the work left smaller.\<close>

definition work_left :: "ScopeChunk list \<Rightarrow> nat" where
  "work_left chunks = sum_list (map (\<lambda>c. 1 + 2 * (length (sc_rom_ids c) - 1)) chunks)"

lemma pending_simps [simp]:
  "ts_pending (unasked chunks st) = ts_pending st" "ts_pending (stop_tick st) = []" "ts_pending (let_go st) = ts_pending st"
  by (simp_all add: unasked_def stop_tick_def let_go_def Let_def)

lemma work_left_simps [simp]: "work_left [] = 0"
  "work_left (c # cs) = Suc (2 * (length (sc_rom_ids c) - 1)) + work_left cs"
  by (simp_all add: work_left_def)

lemma tick_step_pending:
  assumes "tick_step host token reported offered targets options negotiate scoped st w = (st', w')" "ts_pending st \<noteq> []"
  shows "work_left (ts_pending st') < work_left (ts_pending st)"
proof -
  obtain st1 halted w1 where 1: "asks_to_stop host options st w = ((st1, halted), w1)" by (metis prod.collapse)
  then have st1: "halted \<and> ts_pending st1 = [] \<or> \<not> halted \<and> ts_pending st1 = ts_pending st"
    by (auto simp: asks_to_stop_def Let_def split: if_splits prod.splits)
  obtain chunk rest where p: "ts_pending st = chunk # rest" using assms(2) by (cases "ts_pending st") auto
  show ?thesis
  proof (cases halted)
    case True
    with assms 1 st1 p show ?thesis by (simp add: tick_step_def)
  next
    case False
    with st1 p have p1: "ts_pending st1 = chunk # rest" by simp
    let ?st2 = "let_go (st1\<lparr>ts_pending := rest\<rparr>)"
    obtain one w2 where 2: "ask_chunk host token offered negotiate scoped chunk w1 = (one, w2)" by fastforce
    let ?st3 = "?st2\<lparr>ts_attempts := ts_attempts ?st2 + neg_attempts one, ts_waited := ts_waited ?st2 + neg_waited one\<rparr>"
    note run = assms(1) [unfolded tick_step_def 1 Let_def prod.case if_not_P [OF False] p1 list.case 2]
    consider "scoped \<and> neg_error one = NegotiateError_kPlanTooLarge"
      | "\<not> (scoped \<and> neg_error one = NegotiateError_kPlanTooLarge)" "\<not> neg_ok one"
      | "\<not> (scoped \<and> neg_error one = NegotiateError_kPlanTooLarge)" "neg_ok one" by blast
    then show ?thesis
    proof cases
      case 1
      with run have "st' = too_large chunk offered ?st3" by (simp split: if_splits)
      then show ?thesis using p by (auto simp: too_large_def Halve_def Let_def)
    next
      case 2
      with run have "st' = refused_chunk chunk one ?st3" by (simp split: if_splits)
      then show ?thesis using p by (auto simp: refused_chunk_def Let_def)
    next
      case 3
      obtain st4 w4 where 4: "make_backup_dir host options ?st3 w2 = (st4, w4)" by fastforce
      then have "ts_pending st4 = rest"
        by (auto simp: make_backup_dir_def Let_def split: if_splits prod.splits)
      moreover have "carry_on host token reported offered targets options negotiate one st4 w4 = (st', w')"
        using run 4 3 by (simp split: if_splits)
      then have "ts_pending st' = ts_pending st4 \<or> ts_pending st' = []"
        by (auto simp: carry_on_def fold_run_def Let_def split: if_splits prod.splits)
      ultimately show ?thesis using p by auto
    qed
  qed
qed

function tick_loop ::
  "'n Host \<Rightarrow> StoredToken \<Rightarrow> ClientSaveState list \<Rightarrow> ClientSaveState list \<Rightarrow> SaveTarget list \<Rightarrow> 'n TickOptions \<Rightarrow>
     NegotiateOptions \<Rightarrow> bool \<Rightarrow> TickState \<Rightarrow> 'n World \<Rightarrow> TickState \<times> 'n World" where
  "tick_loop host token reported offered targets options negotiate scoped st w =
     (if ts_pending st = [] then (st, w)
      else
        let (st, w) = tick_step host token reported offered targets options negotiate scoped st w
        in tick_loop host token reported offered targets options negotiate scoped st w)"
  by pat_completeness auto
termination
  by (relation "measure (\<lambda>(_, _, _, _, _, _, _, _, st, _). work_left (ts_pending st))")
    (auto simp: case_prod_beta tick_step_pending [OF surjective_pairing])

declare tick_loop.simps [simp del]

text \<open>A save the server deleted and the card kept is not offered while it holds the deleted bytes.\<close>

definition withheld :: "Baseline \<Rightarrow> ClientSaveState \<Rightarrow> bool" where
  "withheld previous save \<longleftrightarrow>
     (case Baseline_Find (state_key save) previous of
        None \<Rightarrow> False
      | Some row \<Rightarrow> sv_deleted_on_server row \<and> cs_content_hash save = Some (sv_content_hash row))"

definition offered_saves :: "Baseline \<Rightarrow> ClientSaveState list \<Rightarrow> ClientSaveState list" where
  "offered_saves previous reported =
     (if list_ex (withheld previous) reported then filter (\<lambda>s. \<not> withheld previous s) reported else reported)"

text \<open>The chunks to ask about; one that names no rom stands for a negotiation without a scope.\<close>

definition tick_scoped :: "'n TickOptions \<Rightarrow> bool" where
  "tick_scoped options \<longleftrightarrow> tk_rom_scope options \<noteq> None \<and> takes_rom_ids (tk_server options)"

definition tick_scope :: "'n TickOptions \<Rightarrow> ClientSaveState list \<Rightarrow> ScopeChunk list" where
  "tick_scope options offered =
     (if tick_scoped options
      then ChunkScope offered (the (tk_rom_scope options))
        (if takes_restore_unlisted (tk_server options) then tk_restore_roms options else [])
      else [no_chunk])"

definition first_state :: "ScopeChunk list \<Rightarrow> Baseline \<Rightarrow> TickResult \<Rightarrow> Declines option \<Rightarrow> TickState" where
  "first_state chunks previous result declines =
     \<lparr>ts_pending = chunks, ts_baseline = previous, ts_outcome = Tick_kCompleted, ts_answer = Answer_kSilent,
      ts_attempts = 0, ts_waited = 0, ts_backup_made = False, ts_left_out = False, ts_result = result,
      ts_declines = declines, ts_ended = False\<rparr>"

definition end_tick :: "'n TickOptions \<Rightarrow> TickState \<Rightarrow> TickResult \<times> Declines option" where
  "end_tick options st =
     (let r = ts_result st;
          r = r\<lparr>tr_negotiated := (tr_negotiated r)\<lparr>neg_attempts := ts_attempts st, neg_waited := ts_waited st\<rparr>\<rparr>;
          outcome = (if ts_left_out st then Worse (ts_outcome st) Tick_kPartial else ts_outcome st);
          r = sorted_lists r;
          declines = (case ts_declines st of
              None \<Rightarrow> None
            | Some d \<Rightarrow> Some (if ts_plans st > 0 \<and> outcome \<noteq> Tick_kCanceled \<and> outcome \<noteq> Tick_kUnauthorized
                then EndTick (tr_unasked_roms r) d else d))
      in (r\<lparr>tr_outcome := outcome, tr_answer := ts_answer st\<rparr>, declines))"

definition RunTick ::
  "'n Host \<Rightarrow> StoredToken \<Rightarrow> ClientSaveState list \<Rightarrow> SaveTarget list \<Rightarrow> Baseline \<Rightarrow> 'n TickOptions \<Rightarrow> Declines option \<Rightarrow>
     'n World \<Rightarrow> (TickResult \<times> Declines option) \<times> 'n World" where
  "RunTick host token reported targets previous options declines w =
     (if \<not> tk_enabled options then ((no_tick\<lparr>tr_outcome := Tick_kDisabled\<rparr>, declines), w)
      else
        let (off, w) = canceled host w in
        if off then ((no_tick\<lparr>tr_outcome := Tick_kCanceled\<rparr>, declines), w)
        else
          let (recovered, w) = RecoverStaging host (tk_recover_dirs options) w;
              result = no_tick\<lparr>tr_recovered := recovered\<rparr>
          in
          if rc_saves_restored recovered > 0 then ((result\<lparr>tr_outcome := Tick_kRescanNeeded\<rparr>, declines), w)
          else
            let (off, w) = canceled host w in
            if off then ((result\<lparr>tr_outcome := Tick_kCanceled\<rparr>, declines), w)
            else if \<not> supported (tk_server options) then ((result\<lparr>tr_outcome := Tick_kUnsupported\<rparr>, declines), w)
            else
              let offered = offered_saves previous reported;
                  (st, w) = tick_loop host token reported offered targets options (tk_negotiate options)
                    (tick_scoped options) (first_state (tick_scope options offered) previous result declines) w
              in if ts_ended st then ((ts_result st, ts_declines st), w) else (end_tick options st, w))"

end
