(* ===== verification/TickFacts.thy ===== *)
theory TickFacts
  imports SyncTick FinishFacts
begin

text \<open>
  What a tick promises whatever its plans hold: a tick that got no plan wrote nothing but what the sweep put
  right, a completed one left nothing out, and the roms it did not ask about are named once.
\<close>

section \<open>Halving\<close>

lemma filter_both: "mset (filter (\<lambda>x. \<not> P x) xs) + mset (filter P xs) = mset xs"
  by (induction xs) auto

lemma Halve_facts:
  "Halve chunk offered = (lower, upper) \<Longrightarrow>
     sc_rom_ids lower @ sc_rom_ids upper = sc_rom_ids chunk \<and>
     mset (sc_saves lower) + mset (sc_saves upper) = mset (sc_saves chunk) \<and>
     sc_restore lower = sc_restore chunk \<and> sc_restore upper = sc_restore chunk"
  by (auto simp: Halve_def Let_def filter_both simp del: mset_filter)

section \<open>The loop keeps what a step keeps\<close>

lemma tick_loop_keeps:
  assumes step: "\<And>st w st' w'. I st w \<Longrightarrow> ts_pending st \<noteq> [] \<Longrightarrow>
      tick_step host token reported offered targets options negotiate scoped st w = (st', w') \<Longrightarrow> I st' w'"
  shows "I st w \<Longrightarrow> tick_loop host token reported offered targets options negotiate scoped st w = (st', w') \<Longrightarrow>
    I st' w' \<and> ts_pending st' = []"
proof (induction st arbitrary: w rule: measure_induct_rule [where f = "\<lambda>st. work_left (ts_pending st)"])
  case (less st)
  show ?case
  proof (cases "ts_pending st = []")
    case True
    with less.prems show ?thesis by (simp add: tick_loop.simps)
  next
    case False
    obtain st1 w1 where 1: "tick_step host token reported offered targets options negotiate scoped st w = (st1, w1)"
      by fastforce
    have "tick_loop host token reported offered targets options negotiate scoped st1 w1 = (st', w')"
      using less.prems(2) False 1 by (simp add: tick_loop.simps [of host token reported offered targets options negotiate scoped st])
    with less.IH [OF tick_step_pending [OF 1 False] step [OF less.prems(1) False 1]] show ?thesis .
  qed
qed

text \<open>A step, in its parts.\<close>

lemma tick_step_cases:
  assumes run: "tick_step host token reported offered targets options negotiate scoped st w = (st', w')"
    and pending: "ts_pending st \<noteq> []"
  obtains (halted) "asks_to_stop host options st w = ((st', True), w')"
  | (asked) st1 w1 chunk rest one w2 st2 where
    "asks_to_stop host options st w = ((st1, False), w1)" "ts_pending st = chunk # rest" "ts_pending st1 = chunk # rest"
    "ask_chunk host token offered negotiate scoped chunk w1 = (one, w2)"
    "st2 = (let_go (st1\<lparr>ts_pending := rest\<rparr>))\<lparr>ts_attempts := ts_attempts st1 + neg_attempts one,
       ts_waited := ts_waited st1 + neg_waited one\<rparr>"
    "scoped \<and> neg_error one = NegotiateError_kPlanTooLarge \<and> (st', w') = (too_large chunk offered st2, w2) \<or>
     \<not> neg_ok one \<and> (st', w') = (refused_chunk chunk one st2, w2) \<or>
     neg_ok one \<and> (\<exists>st3 w3. make_backup_dir host options st2 w2 = (st3, w3) \<and>
       carry_on host token reported offered targets options negotiate one st3 w3 = (st', w'))"
proof -
  obtain st1 stop w1 where 1: "asks_to_stop host options st w = ((st1, stop), w1)" by (metis prod.collapse)
  show thesis
  proof (cases stop)
    case True
    with run 1 halted show thesis by (simp add: tick_step_def)
  next
    case False
    then have same: "ts_pending st1 = ts_pending st"
      using 1 by (auto simp: asks_to_stop_def Let_def split: if_splits prod.splits)
    obtain chunk rest where p: "ts_pending st = chunk # rest" using pending by (cases "ts_pending st") auto
    obtain one w2 where 2: "ask_chunk host token offered negotiate scoped chunk w1 = (one, w2)" by fastforce
    let ?st2 = "(let_go (st1\<lparr>ts_pending := rest\<rparr>))\<lparr>ts_attempts := ts_attempts st1 + neg_attempts one,
       ts_waited := ts_waited st1 + neg_waited one\<rparr>"
    have kept: "ts_attempts (let_go (st1\<lparr>ts_pending := rest\<rparr>)) = ts_attempts st1"
      "ts_waited (let_go (st1\<lparr>ts_pending := rest\<rparr>)) = ts_waited st1" by (simp_all add: let_go_def Let_def)
    note run = run [unfolded tick_step_def 1 Let_def prod.case if_not_P [OF False] same p list.case 2 kept]
    have "scoped \<and> neg_error one = NegotiateError_kPlanTooLarge \<and> (st', w') = (too_large chunk offered ?st2, w2) \<or>
     \<not> neg_ok one \<and> (st', w') = (refused_chunk chunk one ?st2, w2) \<or>
     neg_ok one \<and> (\<exists>st3 w3. make_backup_dir host options ?st2 w2 = (st3, w3) \<and>
       carry_on host token reported offered targets options negotiate one st3 w3 = (st', w'))"
    proof (cases "scoped \<and> neg_error one = NegotiateError_kPlanTooLarge")
      case True
      with run show ?thesis by simp
    next
      case False
      note run = run [unfolded if_not_P [OF False]]
      show ?thesis
      proof (cases "neg_ok one")
        case True
        with run show ?thesis by (auto split: prod.splits)
      next
        case False
        with run show ?thesis by simp
      qed
    qed
    then show thesis using asked [of st1 w1 chunk rest one w2 ?st2] 1 False p same 2 by simp
  qed
qed

section \<open>What the pieces of a step leave alone\<close>

abbreviation ts_unasked :: "TickState \<Rightarrow> int list" where "ts_unasked st \<equiv> tr_unasked_roms (ts_result st)"
abbreviation ts_oversized :: "TickState \<Rightarrow> int list" where "ts_oversized st \<equiv> tr_oversized_roms (ts_result st)"
abbreviation roms_in :: "ScopeChunk list \<Rightarrow> int multiset" where "roms_in chunks \<equiv> mset (concat (map sc_rom_ids chunks))"

lemma unasked_simps [simp]:
  "tr_totals (ts_result (unasked chunks st)) = tr_totals (ts_result st)" "ts_outcome (unasked chunks st) = ts_outcome st"
  "ts_left_out (unasked chunks st) = ts_left_out st" "ts_ended (unasked chunks st) = ts_ended st"
  "ts_declines (unasked chunks st) = ts_declines st" "ts_answer (unasked chunks st) = ts_answer st"
  "ts_oversized (unasked chunks st) = ts_oversized st" "tr_held (ts_result (unasked chunks st)) = tr_held (ts_result st)"
  "ts_unasked (unasked chunks st) = ts_unasked st @ concat (map sc_rom_ids chunks)"
  by (simp_all add: unasked_def)

lemma stop_tick_simps [simp]:
  "tr_totals (ts_result (stop_tick st)) = tr_totals (ts_result st)" "ts_outcome (stop_tick st) = ts_outcome st"
  "ts_left_out (stop_tick st) = ts_left_out st" "ts_ended (stop_tick st) = ts_ended st"
  "ts_declines (stop_tick st) = ts_declines st" "ts_answer (stop_tick st) = ts_answer st"
  "ts_oversized (stop_tick st) = ts_oversized st" "tr_held (ts_result (stop_tick st)) = tr_held (ts_result st)"
  "ts_unasked (stop_tick st) = ts_unasked st @ concat (map sc_rom_ids (ts_pending st))"
  by (simp_all add: stop_tick_def)

lemma let_go_simps [simp]:
  "tr_totals (ts_result (let_go st)) = tr_totals (ts_result st)" "ts_outcome (let_go st) = ts_outcome st"
  "ts_left_out (let_go st) = ts_left_out st" "ts_ended (let_go st) = ts_ended st" "ts_declines (let_go st) = ts_declines st"
  "ts_answer (let_go st) = ts_answer st" "ts_oversized (let_go st) = ts_oversized st"
  "tr_held (ts_result (let_go st)) = tr_held (ts_result st)" "ts_unasked (let_go st) = ts_unasked st"
  by (simp_all add: let_go_def Let_def)

definition same_course :: "TickState \<Rightarrow> TickState \<Rightarrow> bool" where
  "same_course st st' \<longleftrightarrow> ts_pending st' = ts_pending st \<and> tr_totals (ts_result st') = tr_totals (ts_result st) \<and>
     ts_outcome st' = ts_outcome st \<and> ts_left_out st' = ts_left_out st \<and> ts_ended st' = ts_ended st \<and>
     ts_declines st' = ts_declines st \<and> ts_answer st' = ts_answer st \<and> ts_oversized st' = ts_oversized st \<and>
     ts_unasked st' = ts_unasked st"

lemma make_backup_dir_same:
  "make_backup_dir host options st w = (st', w') \<Longrightarrow> same_course st st' \<and> tr_held (ts_result st') = tr_held (ts_result st)"
  by (auto simp: make_backup_dir_def same_course_def Let_def split: if_splits prod.splits)

lemma asks_to_stop_on:
  "asks_to_stop host options st w = ((st', False), w') \<Longrightarrow> same_course st st' \<and>
     (ts_plans st = 0 \<and> st' = st \<and> w' = w \<or> ts_plans st > 0 \<and> \<not> tr_held (ts_result st'))"
  by (auto simp: asks_to_stop_def same_course_def Let_def split: if_splits prod.splits)

lemma asks_to_stop_halts:
  "asks_to_stop host options st w = ((st', True), w') \<Longrightarrow> ts_plans st > 0 \<and> ts_plans st' = ts_plans st \<and>
     ts_pending st' = [] \<and> ts_unasked st' = ts_unasked st @ concat (map sc_rom_ids (ts_pending st)) \<and>
     ts_oversized st' = ts_oversized st \<and> ts_answer st' = ts_answer st \<and> ts_ended st' = ts_ended st \<and>
     ts_left_out st' = ts_left_out st \<and> (\<exists>o'. ts_outcome st' = Worse (ts_outcome st) o' \<and> (o' = Tick_kCanceled \<or> o' = Tick_kPartial))"
  by (auto simp: asks_to_stop_def Let_def split: if_splits prod.splits)

lemma Worse_completed: "Worse a b = Tick_kCompleted \<longleftrightarrow> a = Tick_kCompleted \<and> b = Tick_kCompleted"
  by (cases a; cases b) (simp_all add: Worse_def)

lemma OutcomeAfter_completed:
  "OutcomeAfter executed finished = Tick_kCompleted \<Longrightarrow> er_failed executed = 0 \<and> bs_ok (tc_stored finished)"
  by (auto simp: OutcomeAfter_def Let_def split: if_splits)

lemma AnswerAfter_says: "AnswerAfter NegotiateError_kNone executed finished \<noteq> Answer_kSilent"
  by (simp add: AnswerAfter_def Let_def)

lemma carry_on_facts:
  assumes "carry_on host token reported offered targets options negotiate one st w = (st', w')" "neg_ok one"
  shows "ts_plans st' = Suc (ts_plans st) \<and> ts_answer st' \<noteq> Answer_kSilent \<and> ts_left_out st' = ts_left_out st \<and>
    ts_ended st' = ts_ended st \<and> ts_oversized st' = ts_oversized st \<and> tr_held (ts_result st') = tr_held (ts_result st) \<and>
    (ts_pending st' = ts_pending st \<and> ts_unasked st' = ts_unasked st \<or>
     ts_pending st' = [] \<and> ts_unasked st' = ts_unasked st @ concat (map sc_rom_ids (ts_pending st)) \<and>
       ts_outcome st' \<noteq> Tick_kCompleted) \<and>
    (ts_outcome st' = Tick_kCompleted \<longrightarrow> ts_outcome st = Tick_kCompleted \<and>
       tt_failed (tr_totals (ts_result st')) = tt_failed (tr_totals (ts_result st)) \<and>
       tt_stored (tr_totals (ts_result st')) = tt_stored (tr_totals (ts_result st)))"
proof -
  obtain run one' baseline declines w1 where c: "CarryOut host token reported offered targets one (ts_baseline st) options
      negotiate (ts_plans st = 0) (ts_declines st) w = ((run, one', baseline, declines), w1)" by (metis prod.collapse)
  have none: "neg_error one = NegotiateError_kNone" using assms(2) by (simp add: neg_ok_def)
  have run: "pn_answer run \<noteq> Answer_kSilent"
    "pn_outcome run = OutcomeAfter (pn_executed run) (pn_finished run)"
    using c AnswerAfter_says none by (auto simp: CarryOut_def Let_def split: prod.splits)
  have st': "st' = fold_run run one' (ts_plans st = 0) (st\<lparr>ts_baseline := baseline, ts_declines := declines\<rparr>)"
    using assms(1) c by (auto simp: carry_on_def Let_def split: prod.splits)
  show ?thesis
    using run OutcomeAfter_completed [of "pn_executed run" "pn_finished run"] unfolding st'
    by (auto simp: fold_run_def Let_def Worse_completed)
qed

section \<open>The course of a tick\<close>

definition tick_inv :: "bool \<Rightarrow> int multiset \<Rightarrow> Card \<Rightarrow> Declines option \<Rightarrow> TickState \<Rightarrow> 'n World \<Rightarrow> bool" where
  "tick_inv q scope c d st w \<longleftrightarrow>
     (ts_plans st = 0 \<longrightarrow> (q \<longrightarrow> card w = c) \<and> ts_declines st = d \<and> roms_in (ts_pending st) + mset (ts_unasked st) = scope) \<and>
     roms_in (ts_pending st) + mset (ts_unasked st) \<subseteq># scope \<and> mset (ts_oversized st) \<subseteq># mset (ts_unasked st) \<and>
     (if ts_ended st
      then ts_plans st = 0 \<and> ts_pending st = [] \<and> sorted (ts_unasked st) \<and> sorted (ts_oversized st) \<and>
        tr_outcome (ts_result st) \<in> {Tick_kOffline, Tick_kRefused, Tick_kServerDisabled, Tick_kUnauthorized, Tick_kCanceled}
      else (ts_plans st > 0 \<longrightarrow> ts_answer st \<noteq> Answer_kSilent) \<and>
        ts_outcome st \<in> {Tick_kCompleted, Tick_kPartial, Tick_kUnreported, Tick_kUnauthorized, Tick_kCanceled} \<and>
        (ts_outcome st = Tick_kCompleted \<and> \<not> ts_left_out st \<longrightarrow> ts_unasked st = [] \<and>
           \<not> tr_held (ts_result st) \<and> tt_failed (tr_totals (ts_result st)) = 0 \<and>
           tt_stored (tr_totals (ts_result st)) \<and> (ts_pending st = [] \<longrightarrow> ts_plans st > 0)))"

lemma NegotiateWith_card:
  assumes "off_card host" "NegotiateWith host token saves rom_ids options w = (r, w')"
  shows "card w' = card w"
  using assms(2) negotiating.keeps_card [OF assms(1)] off_card_steps(2) [OF assms(1)]
  unfolding NegotiateWith_def Let_def
  by (auto split: if_splits option.splits prod.splits)

lemma ask_chunk_card: "off_card host \<Longrightarrow> ask_chunk host token offered negotiate scoped chunk w = (r, w') \<Longrightarrow> card w' = card w"
  by (auto simp: ask_chunk_def Negotiate_def NegotiateRoms_def dest: NegotiateWith_card split: if_splits)

lemma Worse_loop: "a \<in> {Tick_kCompleted, Tick_kPartial, Tick_kUnreported, Tick_kUnauthorized, Tick_kCanceled} \<Longrightarrow>
  b \<in> {Tick_kCompleted, Tick_kPartial, Tick_kUnreported, Tick_kUnauthorized, Tick_kCanceled} \<Longrightarrow>
  Worse a b \<in> {Tick_kCompleted, Tick_kPartial, Tick_kUnreported, Tick_kUnauthorized, Tick_kCanceled}"
  by (auto simp: Worse_def)

lemma OutcomeOf_refused: "e \<noteq> NegotiateError_kNone \<Longrightarrow>
    OutcomeOf e \<in> {Tick_kOffline, Tick_kRefused, Tick_kServerDisabled, Tick_kUnauthorized, Tick_kCanceled}"
  by (cases e) simp_all

lemma too_large_inv:
  assumes "tick_inv q scope c d (st\<lparr>ts_pending := chunk # rest\<rparr>) w" "ts_pending st = rest" "\<not> ts_ended st"
    "q \<longrightarrow> card w' = card w" "ts_plans st > 0 \<longrightarrow> \<not> tr_held (ts_result st)"
  shows "tick_inv q scope c d (too_large chunk offered st) w'"
proof (cases "length (sc_rom_ids chunk) > 1")
  case True
  obtain lower upper where h: "Halve chunk offered = (lower, upper)" by fastforce
  have both: "mset (sc_rom_ids chunk) = mset (sc_rom_ids lower) + mset (sc_rom_ids upper)"
    using Halve_facts [OF h] by (metis mset_append)
  with assms True h show ?thesis by (simp add: tick_inv_def too_large_def both add.assoc)
next
  case False
  have "mset (ts_oversized st) + mset (sc_rom_ids chunk) \<subseteq># mset (ts_unasked st) + mset (sc_rom_ids chunk)"
    using assms(1) by (auto simp: tick_inv_def)
  with assms False show ?thesis by (auto simp: tick_inv_def too_large_def ac_simps)
qed

lemma refused_chunk_inv:
  assumes "tick_inv q scope c d (st\<lparr>ts_pending := chunk # rest\<rparr>) w" "ts_pending st = rest" "\<not> ts_ended st"
    "q \<longrightarrow> card w' = card w" "\<not> neg_ok one"
  shows "tick_inv q scope c d (refused_chunk chunk one st) w'"
proof (cases "ts_plans st = 0")
  case True
  have "OutcomeOf (neg_error one) \<in> {Tick_kOffline, Tick_kRefused, Tick_kServerDisabled, Tick_kUnauthorized, Tick_kCanceled}"
    using OutcomeOf_refused assms(5) by (simp add: neg_ok_def)
  moreover have "mset (ts_oversized st) \<subseteq># mset (ts_unasked st) + mset (sc_rom_ids chunk) + roms_in rest"
    using assms(1) by (auto simp: tick_inv_def intro: subset_mset.trans)
  ultimately show ?thesis
    using assms True by (auto simp: tick_inv_def refused_chunk_def Let_def sorted_lists_def ac_simps)
next
  case False
  let ?fell = "OutcomeOf (neg_error one)"
  let ?to = "if ?fell = Tick_kUnauthorized \<or> ?fell = Tick_kCanceled then ?fell else Tick_kPartial"
  have worse: "Worse (ts_outcome st) ?to \<noteq> Tick_kCompleted"
    "Worse (ts_outcome st) ?to \<in> {Tick_kCompleted, Tick_kPartial, Tick_kUnreported, Tick_kUnauthorized, Tick_kCanceled}"
    using Worse_loop [of "ts_outcome st" ?to] assms(1, 3) by (auto simp: tick_inv_def Worse_completed)
  have "mset (ts_oversized st) \<subseteq># mset (ts_unasked st) + mset (sc_rom_ids chunk) + roms_in rest"
    using assms(1) by (auto simp: tick_inv_def intro: subset_mset.trans)
  then show ?thesis
    using assms False worse by (simp add: tick_inv_def refused_chunk_def Let_def ac_simps del: insert_iff)
qed

lemma OutcomeAfter_loop:
  "OutcomeAfter executed finished \<in> {Tick_kCompleted, Tick_kPartial, Tick_kUnreported, Tick_kUnauthorized, Tick_kCanceled}"
  by (simp add: OutcomeAfter_def Let_def)

lemma carry_on_outcome:
  assumes "carry_on host token reported offered targets options negotiate one st w = (st', w')"
    "ts_outcome st \<in> {Tick_kCompleted, Tick_kPartial, Tick_kUnreported, Tick_kUnauthorized, Tick_kCanceled}"
  shows "ts_outcome st' \<in> {Tick_kCompleted, Tick_kPartial, Tick_kUnreported, Tick_kUnauthorized, Tick_kCanceled}"
proof -
  obtain run one' baseline declines w1 where c: "CarryOut host token reported offered targets one (ts_baseline st) options
      negotiate (ts_plans st = 0) (ts_declines st) w = ((run, one', baseline, declines), w1)" by (metis prod.collapse)
  have "pn_outcome run = OutcomeAfter (pn_executed run) (pn_finished run)"
    using c by (auto simp: CarryOut_def Let_def split: prod.splits)
  then have "ts_outcome st' = Worse (ts_outcome st) (OutcomeAfter (pn_executed run) (pn_finished run))"
    using assms(1) c by (auto simp: carry_on_def fold_run_def Let_def split: prod.splits)
  then show ?thesis using Worse_loop [OF assms(2) OutcomeAfter_loop] by simp
qed

lemma tick_inv_same:
  assumes "tick_inv q scope c d st w" "same_course st st'" "ts_plans st = 0 \<longrightarrow> q \<longrightarrow> card w' = card w"
    "\<not> ts_ended st" "ts_plans st = 0 \<longrightarrow> tr_held (ts_result st') = tr_held (ts_result st)"
    "ts_plans st > 0 \<longrightarrow> \<not> tr_held (ts_result st')"
  shows "tick_inv q scope c d st' w'"
  using assms by (auto simp: tick_inv_def same_course_def)

lemma carry_on_inv:
  assumes inv: "tick_inv q scope c d (st\<lparr>ts_pending := chunk # rest\<rparr>) w" "ts_pending st = rest" "\<not> ts_ended st"
    and run: "carry_on host token reported offered targets options negotiate one st w' = (st', w'')" "neg_ok one"
  shows "tick_inv q scope c d st' w''"
proof -
  note facts = carry_on_facts [OF run] carry_on_outcome [OF run(1)]
  have sub: "roms_in rest + mset (ts_unasked st) \<subseteq># scope"
    using inv(1) by (auto simp: tick_inv_def ac_simps intro: subset_mset.trans [rotated])
  have big: "mset (ts_oversized st) \<subseteq># mset (ts_unasked st)" using inv(1) by (simp add: tick_inv_def)
  have clear: "ts_outcome st = Tick_kCompleted \<and> \<not> ts_left_out st \<longrightarrow> ts_unasked st = [] \<and>
      \<not> tr_held (ts_result st) \<and> tt_failed (tr_totals (ts_result st)) = 0 \<and> tt_stored (tr_totals (ts_result st))"
    and reached: "ts_outcome st \<in> {Tick_kCompleted, Tick_kPartial, Tick_kUnreported, Tick_kUnauthorized, Tick_kCanceled}"
    using inv(1, 3) by (simp_all add: tick_inv_def)
  note facts = facts(1) facts(2) [OF reached]
  from facts(1) consider "ts_pending st' = rest" "ts_unasked st' = ts_unasked st"
    | "ts_pending st' = []" "ts_unasked st' = ts_unasked st @ concat (map sc_rom_ids rest)" "ts_outcome st' \<noteq> Tick_kCompleted"
    using inv(2) by auto
  then show ?thesis
  proof cases
    case 1
    with facts sub big clear inv(3) show ?thesis by (simp add: tick_inv_def del: insert_iff)
  next
    case 2
    have "mset (ts_oversized st) \<subseteq># mset (ts_unasked st) + roms_in rest" using big by (auto intro: subset_mset.trans)
    with 2 facts sub inv(3) show ?thesis by (simp add: tick_inv_def ac_simps del: insert_iff)
  qed
qed

lemma tick_step_inv:
  assumes host: "q \<longrightarrow> off_card host" and inv: "tick_inv q scope c d st w" and pending: "ts_pending st \<noteq> []"
    and run: "tick_step host token reported offered targets options negotiate scoped st w = (st', w')"
  shows "tick_inv q scope c d st' w'"
proof -
  have going: "\<not> ts_ended st" using inv pending by (auto simp: tick_inv_def)
  from run pending show ?thesis
  proof (cases rule: tick_step_cases)
    case halted
    note h = asks_to_stop_halts [OF halted]
    then obtain o' where o': "ts_outcome st' = Worse (ts_outcome st) o'" "o' = Tick_kCanceled \<or> o' = Tick_kPartial" by blast
    have "ts_outcome st' \<in> {Tick_kCompleted, Tick_kPartial, Tick_kUnreported, Tick_kUnauthorized, Tick_kCanceled}"
      unfolding o'(1) using Worse_loop [of "ts_outcome st" o'] inv going o'(2) by (auto simp: tick_inv_def)
    moreover have "ts_outcome st' \<noteq> Tick_kCompleted" using o' by (auto simp: Worse_completed)
    moreover have "mset (ts_oversized st) \<subseteq># mset (ts_unasked st) + roms_in (ts_pending st)"
      using inv by (auto simp: tick_inv_def intro: subset_mset.trans)
    ultimately show ?thesis using inv going h by (simp add: tick_inv_def ac_simps del: insert_iff)
  next
    case (asked st1 w1 chunk rest one w2 st2)
    note on = asks_to_stop_on [OF asked(1)]
    have "card w1 = card w" if "ts_plans st = 0" using on that by auto
    then have inv1: "tick_inv q scope c d st1 w1" using on by (intro tick_inv_same [OF inv _ _ going]) auto
    have going1: "\<not> ts_ended st1" using going on by (auto simp: same_course_def)
    have w2: "q \<longrightarrow> card w2 = card w1" using ask_chunk_card host asked(4) by blast
    have st2: "ts_pending st2 = rest" "\<not> ts_ended st2" "ts_plans st2 = ts_plans st1" 
      "tr_held (ts_result st2) = tr_held (ts_result st1)" using asked(5) going1 by simp_all
    have inv2: "tick_inv q scope c d (st2\<lparr>ts_pending := chunk # rest\<rparr>) w1"
      using inv1 asked(3, 5) going1 by (simp add: tick_inv_def)
    have held: "ts_plans st2 > 0 \<longrightarrow> \<not> tr_held (ts_result st2)" using on st2 by (auto simp: same_course_def)
    from asked(6) consider "(st', w') = (too_large chunk offered st2, w2)"
      | "\<not> neg_ok one" "(st', w') = (refused_chunk chunk one st2, w2)"
      | st3 w3 where "neg_ok one" "make_backup_dir host options st2 w2 = (st3, w3)"
        "carry_on host token reported offered targets options negotiate one st3 w3 = (st', w')" by blast
    then show ?thesis
    proof cases
      case 1
      with too_large_inv [OF inv2 st2(1, 2) w2 held] show ?thesis by simp
    next
      case 2
      with refused_chunk_inv [OF inv2 st2(1, 2) w2] show ?thesis by simp
    next
      case 3
      note made = make_backup_dir_same [OF 3(2)]
      have "tick_inv q scope c d (st3\<lparr>ts_pending := chunk # rest\<rparr>) w1"
        using inv2 made st2 by (simp add: tick_inv_def same_course_def)
      moreover have "ts_pending st3 = rest" "\<not> ts_ended st3" using made st2 by (simp_all add: same_course_def)
      ultimately show ?thesis using carry_on_inv [OF _ _ _ 3(3) 3(1)] by blast
    qed
  qed
qed

lemma first_state_inv:
  assumes "chunks \<noteq> []" "q \<longrightarrow> card w = c" "tr_totals result = tr_totals no_tick" "tr_unasked_roms result = []"
    "tr_oversized_roms result = []" "\<not> tr_held result"
  shows "tick_inv q (roms_in chunks) c declines (first_state chunks previous result declines) w"
  using assms by (simp add: tick_inv_def first_state_def no_tick_def)

section \<open>How a tick ends\<close>

text \<open>The chunks of a tick, and the card its sweep leaves.\<close>

abbreviation scope_of :: "'n TickOptions \<Rightarrow> Baseline \<Rightarrow> ClientSaveState list \<Rightarrow> ScopeChunk list" where
  "scope_of options previous reported \<equiv> tick_scope options (offered_saves previous reported)"

abbreviation swept :: "'n Host \<Rightarrow> 'n TickOptions \<Rightarrow> 'n World \<Rightarrow> RecoveryReport \<times> 'n World" where
  "swept host options w \<equiv> RecoverStaging host (tk_recover_dirs options) (snd (canceled host w))"

lemma tick_scope_facts: "tick_scope options offered \<noteq> [] \<and> distinct (concat (map sc_rom_ids (tick_scope options offered)))"
  using ChunkScope_not_Nil ChunkScope_distinct by (simp add: tick_scope_def no_chunk_def)

text \<open>Where a tick can end: before it asks anything, in the middle of the loop, or past it.\<close>

lemma RunTick_cases:
  assumes host: "q \<longrightarrow> off_card host"
    and run: "RunTick host token reported targets previous options declines w = ((r, declines'), w')"
  obtains (disabled) "\<not> tk_enabled options" "r = no_tick\<lparr>tr_outcome := Tick_kDisabled\<rparr>" "w' = w" "declines' = declines"
  | (early) "tr_totals r = tr_totals no_tick" "tr_unasked_roms r = []" "tr_oversized_roms r = []" "declines' = declines"
      "tr_outcome r = Tick_kCanceled \<and> (q \<longrightarrow> card w' = card w) \<or>
       tr_outcome r \<in> {Tick_kRescanNeeded, Tick_kCanceled, Tick_kUnsupported} \<and>
         (q \<longrightarrow> card w' = card (snd (swept host options w)))"
  | (asked) st where "tick_inv q (roms_in (scope_of options previous reported)) (card (snd (swept host options w))) declines st w'"
      "ts_pending st = []" "r = (if ts_ended st then ts_result st else fst (end_tick options st))"
      "declines' = (if ts_ended st then ts_declines st else snd (end_tick options st))"
proof (cases "tk_enabled options")
  case False
  with run disabled show thesis by (simp add: RunTick_def)
next
  case True
  obtain off w1 where c: "canceled host w = (off, w1)" by fastforce
  obtain recovered w2 where s: "RecoverStaging host (tk_recover_dirs options) w1 = (recovered, w2)" by fastforce
  obtain off2 w3 where c2: "canceled host w2 = (off2, w3)" by fastforce
  have cards: "q \<longrightarrow> card w1 = card w" "q \<longrightarrow> card w3 = card w2" using off_card_steps(2) c c2 host by blast+
  have swept: "swept host options w = (recovered, w2)" using c s by simp
  let ?result = "no_tick\<lparr>tr_recovered := recovered\<rparr>" and ?offered = "offered_saves previous reported"
  let ?first = "first_state (tick_scope options ?offered) previous ?result declines"
  obtain st w4 where l: "tick_loop host token reported ?offered targets options (tk_negotiate options)
      (tick_scoped options) ?first w3 = (st, w4)" by fastforce
  note step = run [unfolded RunTick_def Let_def c prod.case s c2 l]
  show thesis
  proof (cases "off \<or> rc_saves_restored recovered > 0 \<or> off2 \<or> \<not> supported (tk_server options)")
    case before: True
    have "tr_totals r = tr_totals no_tick \<and> tr_unasked_roms r = [] \<and> tr_oversized_roms r = [] \<and> declines' = declines \<and>
      (tr_outcome r = Tick_kCanceled \<and> (q \<longrightarrow> card w' = card w) \<or>
       tr_outcome r \<in> {Tick_kRescanNeeded, Tick_kCanceled, Tick_kUnsupported} \<and>
         (q \<longrightarrow> card w' = card (snd (swept host options w))))"
      using step True before cards unfolding swept by (auto simp: no_tick_def split: if_splits)
    then show thesis using early by blast
  next
    case False
    have "tick_inv q (roms_in (tick_scope options ?offered)) (card w2) declines ?first w3"
      using tick_scope_facts [THEN conjunct1] cards(2) by (intro first_state_inv) (simp_all add: no_tick_def)
    from tick_loop_keeps [where I = "tick_inv q (roms_in (tick_scope options ?offered)) (card w2) declines",
        OF tick_step_inv [OF host] this l]
    have "tick_inv q (roms_in (tick_scope options ?offered)) (card w2) declines st w4" "ts_pending st = []" by auto
    moreover have "card w2 = card (snd (swept host options w))" using swept by simp
    moreover have w': "w' = w4" and
      ended: "(r, declines') = (if ts_ended st then (ts_result st, ts_declines st) else end_tick options st)"
      using step True False by (auto split: if_splits)
    moreover have "r = (if ts_ended st then ts_result st else fst (end_tick options st))"
      "declines' = (if ts_ended st then ts_declines st else snd (end_tick options st))"
      using ended by (auto split: if_splits dest: sym)
    ultimately show thesis using asked [of st] by simp
  qed
qed

text \<open>C12: What the outcome of a tick says about what it did, on a transport that leaves the card alone. A tick
  that was offline, refused or switched off by the server carried out no plan, left the card as its sweep
  did, kept its table of declined operations and names every rom of its scope as unasked; a disabled one
  touched nothing at all; a completed one asked about every rom, left none out, and of at least one plan
  no operation failed and the baseline was stored.\<close>

theorem outcome_says_what_was_done:
  assumes "off_card host"
    "RunTick host token reported targets previous options declines w = ((r, declines'), w')"
  shows "(case tr_outcome r of
      Tick_kCompleted \<Rightarrow> tr_unasked_roms r = [] \<and> tr_oversized_roms r = [] \<and> \<not> tr_held r \<and>
        tt_plans (tr_totals r) > 0 \<and> tt_failed (tr_totals r) = 0 \<and> tt_stored (tr_totals r)
    | Tick_kDisabled \<Rightarrow> w' = w \<and> declines' = declines
    | Tick_kUnsupported \<Rightarrow> card w' = card (snd (swept host options w)) \<and> tt_plans (tr_totals r) = 0 \<and> declines' = declines
    | Tick_kRescanNeeded \<Rightarrow> card w' = card (snd (swept host options w)) \<and> tt_plans (tr_totals r) = 0 \<and> declines' = declines
    | Tick_kPartial \<Rightarrow> True | Tick_kUnreported \<Rightarrow> True | Tick_kUnauthorized \<Rightarrow> True | Tick_kCanceled \<Rightarrow> True
    | _ \<Rightarrow> card w' = card (snd (swept host options w)) \<and> tt_plans (tr_totals r) = 0 \<and> declines' = declines \<and>
        mset (tr_unasked_roms r) = roms_in (scope_of options previous reported)) \<and>
    (if tt_plans (tr_totals r) = 0 then card w' \<in> {card w, card (snd (swept host options w))}
     else tr_answer r \<noteq> Answer_kSilent)"
proof (cases rule: RunTick_cases [OF impI [OF assms(1), of True] assms(2), case_names disabled early asked])
  case disabled
  then show ?thesis by (simp add: no_tick_def)
next
  case early
  then show ?thesis by (auto simp: no_tick_def)
next
  case (asked st)
  show ?thesis
  proof (cases "ts_ended st")
    case True
    with asked show ?thesis by (auto simp: tick_inv_def)
  next
    case False
    let ?o = "if ts_left_out st then Worse (ts_outcome st) Tick_kPartial else ts_outcome st"
    have r: "tr_outcome r = ?o" "tr_totals r = tr_totals (ts_result st)" "tr_unasked_roms r = sort (ts_unasked st)"
      "tr_oversized_roms r = sort (ts_oversized st)" "tr_held r = tr_held (ts_result st)" "tr_answer r = ts_answer st"
      using asked(3) False by (simp_all add: end_tick_def Let_def sorted_lists_def)
    have "?o \<in> {Tick_kCompleted, Tick_kPartial, Tick_kUnreported, Tick_kUnauthorized, Tick_kCanceled}"
      using asked(1) False Worse_loop [of "ts_outcome st" Tick_kPartial] by (auto simp: tick_inv_def)
    moreover have "ts_outcome st = Tick_kCompleted \<and> \<not> ts_left_out st" if "?o = Tick_kCompleted"
      using that by (auto simp: Worse_completed split: if_splits)
    moreover have "ts_oversized st = []" if "ts_unasked st = []" using asked(1) that by (simp add: tick_inv_def)
    ultimately show ?thesis
      using asked(1, 2) False unfolding r by (cases ?o) (auto simp: tick_inv_def)
  qed
qed

text \<open>The roms a tick did not ask about are told apart and named once: sorted, none twice, each of them in
  the scope of the tick, and the roms too large for a plan among them.\<close>

theorem unasked_roms_are_named_once:
  "let r = fst (fst (RunTick host token reported targets previous options declines w)) in
     sorted (tr_unasked_roms r) \<and> distinct (tr_unasked_roms r) \<and>
     set (tr_unasked_roms r) \<subseteq> set (concat (map sc_rom_ids (scope_of options previous reported))) \<and>
     set (tr_oversized_roms r) \<subseteq> set (tr_unasked_roms r)"
proof -
  obtain r declines' w' where run: "RunTick host token reported targets previous options declines w = ((r, declines'), w')"
    by (metis prod.collapse)
  have no_transport: "False \<longrightarrow> off_card host" by simp
  let ?all = "concat (map sc_rom_ids (scope_of options previous reported))"
  have all: "distinct ?all" using tick_scope_facts by blast
  have named: "distinct us \<and> set us \<subseteq> set ?all" if "mset us \<subseteq># mset ?all" for us
  proof -
    have "count (mset us) a = (if a \<in> set us then 1 else 0)" for a
    proof -
      have "count (mset ?all) a \<le> 1" using all by (simp add: distinct_count_atmost_1)
      then have "count (mset us) a \<le> 1" using mset_subset_eq_count [OF that, of a] by linarith
      moreover have "count (mset us) a > 0 \<longleftrightarrow> a \<in> set us" by simp
      ultimately show ?thesis by (auto split: if_split simp del: count_greater_zero_iff)
    qed
    then show ?thesis using set_mset_mono [OF that] by (simp add: distinct_count_atmost_1)
  qed
  have "sorted (tr_unasked_roms r) \<and> distinct (tr_unasked_roms r) \<and> set (tr_unasked_roms r) \<subseteq> set ?all \<and>
      set (tr_oversized_roms r) \<subseteq> set (tr_unasked_roms r)"
  proof (cases rule: RunTick_cases [OF no_transport run, case_names disabled early asked])
    case disabled
    then show ?thesis by (simp add: no_tick_def)
  next
    case early
    then show ?thesis by simp
  next
    case (asked st)
    then have some: "mset (ts_unasked st) \<subseteq># mset ?all" and big: "mset (ts_oversized st) \<subseteq># mset (ts_unasked st)"
      by (simp_all add: tick_inv_def)
    have large: "set (ts_oversized st) \<subseteq> set (ts_unasked st)" using set_mset_mono [OF big] by simp
    note facts = named [OF some] large
    show ?thesis
    proof (cases "ts_ended st")
      case True
      with asked facts show ?thesis by (simp add: tick_inv_def)
    next
      case False
      with asked facts show ?thesis by (simp add: end_tick_def Let_def sorted_lists_def)
    qed
  qed
  then show ?thesis by (simp add: run)
qed

definition sample_tick :: "HttpResult list TickOptions" where
  "sample_tick = \<lparr>tk_enabled = True, tk_recover_dirs = [], tk_create_backup_dir = True,
     tk_server = CapabilitiesFor_version kMinimumVersion, tk_negotiate = sample_options, tk_execute = sample_fetch,
     tk_finish = finish_options, tk_rom_scope = Some [9, 7, 7, 0], tk_restore_roms = [], tk_hold = None, tk_on_plan = None,
     tk_cancel = True\<rparr>"

definition refusing_world :: "HttpResult list World" where
  "refusing_world = \<lparr>card = sample_card, net = [answered_with 400 []]\<rparr>"

definition unpaired :: StoredToken where
  "unpaired = sample_token\<lparr>server_url := []\<rparr>"

lemma tick_loop_done: "ts_pending st = [] \<Longrightarrow>
    tick_loop host token reported offered targets options negotiate scoped st w = (st, w)"
  by (simp add: tick_loop.simps)

lemma tick_loop_more: "ts_pending st \<noteq> [] \<Longrightarrow>
    tick_loop host token reported offered targets options negotiate scoped st w =
      (let (st, w) = tick_step host token reported offered targets options negotiate scoped st w
       in tick_loop host token reported offered targets options negotiate scoped st w)"
  by (subst tick_loop.simps) simp

lemma four_parts: "p = ((fst (fst p), snd (fst p)), snd p)"
  by simp

lemma sample_scope: "tick_scope sample_tick [] = [\<lparr>sc_rom_ids = [7, 9], sc_saves = [], sc_restore = False\<rparr>]"
  by (simp add: tick_scope_def tick_scoped_def sample_tick_def CapabilitiesFor_version_def Infer_def kMinimumVersion_def
      kRelease53_def less_eq_Version_def ChunkScope_def Normalised_def AppendChunks.simps kMaxNegotiateRomIds_def
      no_chunk_def Let_def)

theorem outcome_says_what_was_done_witness:
  "let ((r, declines), w) = RunTick list_host unpaired [] [] no_baseline sample_tick None refusing_world in
     tr_outcome r = Tick_kRefused \<and> tt_plans (tr_totals r) = 0 \<and> mset (tr_unasked_roms r) = {#7, 9#} \<and>
     card w = sample_card"
proof -
  let ?run = "RunTick list_host unpaired [] [] no_baseline sample_tick None refusing_world"
  have host: "off_card list_host" by (simp add: off_card_def list_host_def)
  have offered: "offered_saves no_baseline [] = []" by (simp add: offered_saves_def)
  have sweep: "tk_recover_dirs sample_tick = []" "tk_enabled sample_tick" "supported (tk_server sample_tick)"
    by (simp_all add: sample_tick_def CapabilitiesFor_version_def Infer_def kMinimumVersion_def less_eq_Version_def Let_def)
  have o: "tr_outcome (fst (fst ?run)) = Tick_kRefused"
    by (simp add: RunTick_def RecoverStaging_def sweep_directories.simps sweep list_host_def offered sample_scope
        tick_loop_more tick_loop_done first_state_def tick_step_def asks_to_stop_def ask_chunk_def Negotiate_def
        NegotiateRoms_def NegotiateWith_def unpaired_def refused_chunk_def Let_def neg_refuse_def neg_ok_def
        sorted_lists_def no_tick_def empty_recovery_def unasked_def stop_tick_def let_go_def)
  from outcome_says_what_was_done [OF host four_parts, of unpaired "[]" "[]" no_baseline sample_tick None refusing_world]
  show ?thesis
    using o by (simp add: case_prod_beta offered sample_scope sweep RecoverStaging_def sweep_directories.simps
        list_host_def refusing_world_def)
qed

end
