(* ===== verification/Pairing.thy ===== *)
theory Pairing
  imports TokenStore Client
begin

text \<open>
  \<open>core/src/pairing.cpp\<close>: the conversation that ends in a token, one request at a time, and its state as the
  overlay reads it. The mutex is released while a request is out, so \<open>Begin\<close> and \<open>Poll\<close> are modelled as what they do
  before they send and what they do with the answer. Time points are nanoseconds of the steady clock.
\<close>

section \<open>The state as the overlay sees it\<close>

datatype PairingState = PairingState_kIdle | PairingState_kStarting | PairingState_kPending
  | PairingState_kApproved | PairingState_kDenied | PairingState_kExpired | PairingState_kFailed

definition kClientName :: bytes where "kClientName = ''rommsync-nx''"
definition kClientPlatform :: bytes where "kClientPlatform = ''switch''"

definition MinimumScopes :: "bytes list" where
  "MinimumScopes = [''me.read'', ''roms.read'', ''roms.user.read'', ''roms.user.write'', ''assets.read'',
     ''assets.write'', ''devices.read'', ''devices.write'', ''collections.read'', ''platforms.read'']"

record PairingConfig =
  pc_server_url :: bytes
  pc_client_device_identifier :: bytes
  pc_device_name :: bytes
  pc_requested_scopes :: "bytes list"
  pc_request_timeout :: int
  pc_max_poll_backoff :: int
  pc_max_rejected_polls :: int

definition new_PairingConfig :: PairingConfig where
  "new_PairingConfig = \<lparr>pc_server_url = [], pc_client_device_identifier = [],
     pc_device_name = ''rommsync-nx on Switch'', pc_requested_scopes = MinimumScopes,
     pc_request_timeout = kDefaultTimeout, pc_max_poll_backoff = 60, pc_max_rejected_polls = 3\<rparr>"

record PairingStatus =
  ps_state :: PairingState
  ps_user_code :: bytes
  ps_verification_url :: bytes
  ps_verification_url_complete :: bytes
  ps_expires_in :: int
  ps_polls :: int
  ps_message :: bytes

definition no_status :: PairingStatus where
  "no_status = \<lparr>ps_state = PairingState_kIdle, ps_user_code = [], ps_verification_url = [],
     ps_verification_url_complete = [], ps_expires_in = 0, ps_polls = 0, ps_message = []\<rparr>"

fun PairingState_ToString :: "PairingState \<Rightarrow> bytes" where
  "PairingState_ToString PairingState_kIdle = ''idle''"
| "PairingState_ToString PairingState_kStarting = ''starting''"
| "PairingState_ToString PairingState_kPending = ''pending''"
| "PairingState_ToString PairingState_kApproved = ''approved''"
| "PairingState_ToString PairingState_kDenied = ''denied''"
| "PairingState_ToString PairingState_kExpired = ''expired''"
| "PairingState_ToString PairingState_kFailed = ''failed''"

definition IsTerminal :: "PairingState \<Rightarrow> bool" where
  "IsTerminal s \<longleftrightarrow> s = PairingState_kApproved \<or> s = PairingState_kDenied \<or>
     s = PairingState_kExpired \<or> s = PairingState_kFailed"

definition kAllStates :: "PairingState list" where
  "kAllStates = [PairingState_kIdle, PairingState_kStarting, PairingState_kPending, PairingState_kApproved,
     PairingState_kDenied, PairingState_kExpired, PairingState_kFailed]"

definition kMaxCount :: int where "kMaxCount = 1000000"

text \<open>\<open>"key":\<close>.\<close>

definition quoted_key :: "bytes \<Rightarrow> bytes" where
  "quoted_key k = CHR 0x22 # k @ [CHR 0x22, CHR '':'']"

definition SerializePairingStatus :: "PairingStatus \<Rightarrow> bytes" where
  "SerializePairingStatus p =
     ''{'' @ quoted_key ''state'' @ Quote (PairingState_ToString (ps_state p)) @
     '','' @ quoted_key ''user_code'' @ Quote (ps_user_code p) @
     '','' @ quoted_key ''verification_url'' @ Quote (ps_verification_url p) @
     '','' @ quoted_key ''verification_url_complete'' @ Quote (ps_verification_url_complete p) @
     '','' @ quoted_key ''expires_in'' @ to_string (ps_expires_in p) @
     '','' @ quoted_key ''polls'' @ to_string (ps_polls p) @
     '','' @ quoted_key ''message'' @ Quote (ps_message p) @ ''}''"

text \<open>The two readers of a member: what they write through \<open>out\<close>, or what they write through \<open>error\<close>.\<close>

definition ReadText :: "Value \<Rightarrow> bytes \<Rightarrow> Error + bytes" where
  "ReadText object key =
     (case Find object key of
        None \<Rightarrow> Inr []
      | Some found \<Rightarrow>
          if Value_type found = kNull then Inr []
          else if Value_type found \<noteq> kString
          then Inl (no_error\<lparr>field := key, message := ''expected a string, got '' @ Type_ToString (Value_type found)\<rparr>)
          else Inr (string_of found))"

definition ReadCount :: "Value \<Rightarrow> bytes \<Rightarrow> Error + int" where
  "ReadCount object key =
     (case Find object key of
        None \<Rightarrow> Inl (no_error\<lparr>field := key, message := ''is missing''\<rparr>)
      | Some found \<Rightarrow>
          if \<not> is_integer found
          then Inl (no_error\<lparr>field := key, message := ''expected an integer, got '' @ Type_ToString (Value_type found)\<rparr>)
          else if integer found < 0 \<or> integer found > kMaxCount
          then Inl (no_error\<lparr>field := key, message := ''is not a plausible count''\<rparr>)
          else Inr (integer found))"

text \<open>The chain of \<open>||\<close>: the first reader that fails ends it.\<close>

definition and_then :: "'e + 'a \<Rightarrow> ('a \<Rightarrow> 'e + 'b) \<Rightarrow> 'e + 'b" where
  "and_then x f = (case x of Inl e \<Rightarrow> Inl e | Inr a \<Rightarrow> f a)"

lemma and_then_simps [simp]: "and_then (Inl e) f = Inl e" "and_then (Inr a) f = f a"
  by (simp_all add: and_then_def)

definition read_status :: "Value \<Rightarrow> Error + PairingStatus" where
  "read_status v =
     (if Value_type v \<noteq> kObject then Inl (no_error\<lparr>field := [], message := ''pair state: expected an object''\<rparr>)
      else
        and_then (ReadText v ''state'') (\<lambda>name.
          case find (\<lambda>s. name = PairingState_ToString s) kAllStates of
            None \<Rightarrow> Inl (no_error\<lparr>field := ''state'', message := ''is not a pairing state: '' @ name\<rparr>)
          | Some state \<Rightarrow>
        and_then (ReadText v ''user_code'') (\<lambda>code.
        and_then (ReadText v ''verification_url'') (\<lambda>url.
        and_then (ReadText v ''verification_url_complete'') (\<lambda>url_complete.
        and_then (ReadText v ''message'') (\<lambda>why.
        and_then (ReadCount v ''expires_in'') (\<lambda>left.
        and_then (ReadCount v ''polls'') (\<lambda>polls.
          Inr \<lparr>ps_state = state, ps_user_code = code, ps_verification_url = url,
            ps_verification_url_complete = url_complete, ps_expires_in = left, ps_polls = polls,
            ps_message = why\<rparr>))))))))"

definition ParsePairingStatus :: "bytes \<Rightarrow> PairingStatus Parsed" where
  "ParsePairingStatus t =
     (let document = Parse t in
      if \<not> pr_ok document then \<lparr>parsed_value = no_status, parsed_error = pr_error document\<rparr>
      else case read_status (pr_value document) of
        Inl e \<Rightarrow> \<lparr>parsed_value = no_status, parsed_error = e\<rparr>
      | Inr p \<Rightarrow> \<lparr>parsed_value = p, parsed_error = no_error\<rparr>)"

section \<open>The requests\<close>

definition kInitPath :: bytes where "kInitPath = ''/api/auth/device/init''"
definition kTokenPath :: bytes where "kTokenPath = ''/api/auth/device/token''"

text \<open>\<open>version()\<close> comes from the build and is an argument.\<close>

definition InitBody :: "bytes \<Rightarrow> PairingConfig \<Rightarrow> bytes" where
  "InitBody version config =
     ''{'' @ quoted_key ''client_device_identifier'' @ Quote (pc_client_device_identifier config) @
     '','' @ quoted_key ''name'' @ Quote (pc_device_name config) @
     '','' @ quoted_key ''client'' @ Quote kClientName @
     '','' @ quoted_key ''platform'' @ Quote kClientPlatform @
     '','' @ quoted_key ''client_version'' @ Quote version @
     '','' @ quoted_key ''requested_scopes'' @ QuoteArray (pc_requested_scopes config) @ ''}''"

definition TokenBody :: "bytes \<Rightarrow> bytes" where
  "TokenBody code = ''{'' @ quoted_key ''device_code'' @ Quote code @ ''}''"

definition JsonPost :: "bytes \<Rightarrow> bytes \<Rightarrow> int \<Rightarrow> Request" where
  "JsonPost url content timeout = (new_Request Method_kPost url)\<lparr>
     req_headers := [\<lparr>h_name = ''Content-Type'', h_value = ''application/json''\<rparr>,
       \<lparr>h_name = ''Accept'', h_value = ''application/json''\<rparr>],
     req_body := content, req_timeout := timeout\<rparr>"

definition ApiUrl :: "PairingConfig \<Rightarrow> bytes \<Rightarrow> bytes" where
  "ApiUrl config path = JoinUrl (pc_server_url config) path"

section \<open>The session\<close>

record Session =
  se_status :: PairingStatus
  se_init :: DeviceInitResponse
  se_token :: "DeviceTokenResponse option"
  se_deadline :: int
  se_next_poll :: int
  se_backoff :: Backoff
  se_rejected_polls :: int

definition new_Session :: Session where
  "new_Session = \<lparr>se_status = no_status, se_init = no_init_response, se_token = None, se_deadline = 0,
     se_next_poll = 0, se_backoff = make_Backoff default_BackoffConfig, se_rejected_polls = 0\<rparr>"

definition kPollJitter :: rat where "kPollJitter = 1/4"

text \<open>Nanoseconds of a second and of a millisecond.\<close>

definition ns_per_s :: int where "ns_per_s = 1000000000"
definition ns_per_ms :: int where "ns_per_ms = 1000000"

definition Session_Fail :: "bytes \<Rightarrow> Session \<Rightarrow> Session" where
  "Session_Fail why s =
     s\<lparr>se_status := (se_status s)\<lparr>ps_state := PairingState_kFailed, ps_message := why\<rparr>\<rparr>"

definition says :: "bytes \<Rightarrow> Session \<Rightarrow> Session" where
  "says why s = s\<lparr>se_status := (se_status s)\<lparr>ps_message := why\<rparr>\<rparr>"

text \<open>\<open>delay\<close> is milliseconds.\<close>

definition ScheduleIn :: "'n Host \<Rightarrow> int \<Rightarrow> Session \<Rightarrow> 'n World \<Rightarrow> Session \<times> 'n World" where
  "ScheduleIn host delay s w =
     (let interval = poll_interval (se_init s) * 1000;
          (t, w) = now host w
      in (s\<lparr>se_next_poll := t + (if delay < interval then interval else delay) * ns_per_ms\<rparr>, w))"

definition BackOff :: "'n Host \<Rightarrow> PairingConfig \<Rightarrow> Session \<Rightarrow> 'n World \<Rightarrow> Session \<times> 'n World" where
  "BackOff host config s w =
     (let b = Configure \<lparr>floor_ms = poll_interval (se_init s) * 1000,
            cap_ms = pc_max_poll_backoff config * 1000, jitter = kPollJitter\<rparr> (se_backoff s);
          (i, w) = roll host w;
          (delay, b) = Fail i b
      in ScheduleIn host delay (s\<lparr>se_backoff := b\<rparr>) w)"

definition init_request :: "bytes \<Rightarrow> PairingConfig \<Rightarrow> Request" where
  "init_request version config =
     JsonPost (ApiUrl config kInitPath) (InitBody version config) (pc_request_timeout config)"

definition token_request :: "PairingConfig \<Rightarrow> bytes \<Rightarrow> Request" where
  "token_request config code =
     JsonPost (ApiUrl config kTokenPath) (TokenBody code) (pc_request_timeout config)"

text \<open>\<open>Begin\<close> up to its request, which goes out exactly when the state is \<open>kStarting\<close>.\<close>

definition begin_attempt :: "'n Host \<Rightarrow> PairingConfig \<Rightarrow> Session \<Rightarrow> 'n World \<Rightarrow> Session \<times> 'n World" where
  "begin_attempt host config s w =
     (let (t, w) = now host w;
          s = s\<lparr>se_status := no_status, se_token := None, se_init := no_init_response,
            se_backoff := Succeed (se_backoff s), se_rejected_polls := 0, se_deadline := t, se_next_poll := t\<rparr>
      in
      if pc_server_url config = [] then (Session_Fail ''no server URL is configured'' s, w)
      else if pc_client_device_identifier config = []
      then (Session_Fail ''no client device identifier was derived'' s, w)
      else if pc_requested_scopes config = [] then (Session_Fail ''no scopes were requested'' s, w)
      else (s\<lparr>se_status := (se_status s)\<lparr>ps_state := PairingState_kStarting\<rparr>\<rparr>, w))"

definition begin_answered ::
  "'n Host \<Rightarrow> PairingConfig \<Rightarrow> HttpResult \<Rightarrow> Session \<Rightarrow> 'n World \<Rightarrow> Session \<times> 'n World" where
  "begin_answered host config result s w =
     (if \<not> http_ok result
      then (Session_Fail (''device init did not complete: '' @ HttpError_ToString (http_error result)) s, w)
      else if status (response result) = 429
      then (Session_Fail ''the server is rate limiting pairing requests (HTTP 429); try again in a minute'' s, w)
      else if \<not> successful result
      then (Session_Fail (''device init was refused: HTTP '' @ to_string (status (response result))) s, w)
      else
        let parsed = ParseDeviceInitResponse (body (response result)) in
        if \<not> parsed_ok parsed
        then (Session_Fail (''device init response: '' @ Describe (parsed_error parsed)) s, w)
        else
          let init = parsed_value parsed; (t, w) = now host w
          in (s\<lparr>se_init := init, se_deadline := t + lifetime init * ns_per_s, se_next_poll := t,
               se_status := (se_status s)\<lparr>ps_state := PairingState_kPending, ps_user_code := user_code init,
                 ps_verification_url := VerificationUrl init (pc_server_url config),
                 ps_verification_url_complete := VerificationUrlComplete init (pc_server_url config),
                 ps_expires_in := lifetime init\<rparr>\<rparr>, w))"

definition Session_Begin ::
  "'n Host \<Rightarrow> bytes \<Rightarrow> PairingConfig \<Rightarrow> Session \<Rightarrow> 'n World \<Rightarrow> Session \<times> 'n World" where
  "Session_Begin host version config s w =
     (let (s, w) = begin_attempt host config s w in
      if ps_state (se_status s) = PairingState_kFailed then (s, w)
      else
        let (result, w) = Send host (init_request version config) w
        in begin_answered host config result s w)"

definition ends :: "PairingState \<Rightarrow> bytes \<Rightarrow> Session \<Rightarrow> Session" where
  "ends state why s = s\<lparr>se_status := (se_status s)\<lparr>ps_state := state, ps_message := why\<rparr>\<rparr>"

definition runs_out :: "bytes \<Rightarrow> Session \<Rightarrow> Session" where
  "runs_out why s = s\<lparr>se_status := (se_status s)\<lparr>ps_state := PairingState_kExpired, ps_expires_in := 0,
     ps_message := why\<rparr>\<rparr>"

text \<open>\<open>Poll\<close> up to its request, and whether it goes out.\<close>

definition poll_due :: "'n Host \<Rightarrow> Session \<Rightarrow> 'n World \<Rightarrow> bool \<times> Session \<times> 'n World" where
  "poll_due host s w =
     (if ps_state (se_status s) \<noteq> PairingState_kPending then (False, s, w)
      else
        let (t, w) = now host w in
        if t \<ge> se_deadline s then (False, runs_out ''the code expired before anyone approved it'' s, w)
        else
          let (t, w) = now host w in
          if t < se_next_poll s then (False, s, w) else (True, s, w))"

definition backs_off ::
  "'n Host \<Rightarrow> PairingConfig \<Rightarrow> bytes \<Rightarrow> Session \<Rightarrow> 'n World \<Rightarrow> Session \<times> 'n World" where
  "backs_off host config why s w =
     (let (s, w) = BackOff host config s w in (says why s, w))"

text \<open>What is left when no verdict was recognised: a 401 or 403 is from something in front of RomM.\<close>

definition poll_rejected ::
  "'n Host \<Rightarrow> PairingConfig \<Rightarrow> int \<Rightarrow> Session \<Rightarrow> 'n World \<Rightarrow> Session \<times> 'n World" where
  "poll_rejected host config code s w =
     (if code = 401 \<or> code = 403 then
        let s = s\<lparr>se_rejected_polls := se_rejected_polls s + 1\<rparr> in
        if se_rejected_polls s < pc_max_rejected_polls config
        then backs_off host config (''the poll was rejected with HTTP '' @ to_string code @ ''; retrying'') s w
        else (Session_Fail (''the server kept rejecting the poll with HTTP '' @ to_string code @
               '' -- something in front of RomM is asking for credentials'') s, w)
      else (Session_Fail (''the server answered something this client does not understand: HTTP '' @
             to_string code) s, w))"

definition poll_granted :: "bytes \<Rightarrow> Session \<Rightarrow> Session" where
  "poll_granted content s =
     (let granted = ParseDeviceTokenResponse content in
      if \<not> parsed_ok granted
      then Session_Fail (''device token response: '' @ Describe (parsed_error granted)) s
      else ends PairingState_kApproved []
             (s\<lparr>se_token := Some (parsed_value granted), se_backoff := Succeed (se_backoff s), se_rejected_polls := 0\<rparr>))"

definition poll_answered ::
  "'n Host \<Rightarrow> PairingConfig \<Rightarrow> HttpResult \<Rightarrow> Session \<Rightarrow> 'n World \<Rightarrow> Session \<times> 'n World" where
  "poll_answered host config result s w =
     (let s = s\<lparr>se_status := (se_status s)\<lparr>ps_polls := ps_polls (se_status s) + 1\<rparr>\<rparr>;
          heard = s\<lparr>se_rejected_polls := 0\<rparr>;
          code = status (response result)
      in
      if \<not> http_ok result
      then backs_off host config
             (''poll did not complete: '' @ HttpError_ToString (http_error result) @ '', retrying'') heard w
      else case ClassifyTokenPoll code (body (response result)) of
        TokenPoll_kGranted \<Rightarrow> (poll_granted (body (response result)) s, w)
      | TokenPoll_kAuthorizationPending \<Rightarrow>
          ScheduleIn host (poll_interval (se_init s) * 1000)
            (says [] (heard\<lparr>se_backoff := Succeed (se_backoff s)\<rparr>)) w
      | TokenPoll_kSlowDown \<Rightarrow> backs_off host config ''the server asked us to poll more slowly'' heard w
      | TokenPoll_kRateLimited \<Rightarrow>
          backs_off host config ''the server is rate limiting us; backing off'' heard w
      | TokenPoll_kServerError \<Rightarrow>
          backs_off host config (''the server is unwell (HTTP '' @ to_string code @ ''); retrying'') heard w
      | TokenPoll_kAccessDenied \<Rightarrow>
          (ends PairingState_kDenied ''the code was refused in the web interface'' s, w)
      | TokenPoll_kExpiredToken \<Rightarrow> (runs_out ''the code expired or had already been used'' s, w)
      | TokenPoll_kUnrecognized \<Rightarrow> poll_rejected host config code s w)"

definition Session_Poll :: "'n Host \<Rightarrow> PairingConfig \<Rightarrow> Session \<Rightarrow> 'n World \<Rightarrow> Session \<times> 'n World" where
  "Session_Poll host config s w =
     (let (due, s, w) = poll_due host s w in
      if \<not> due then (s, w)
      else
        let (result, w) = Send host (token_request config (device_code (se_init s))) w
        in poll_answered host config result s w)"

definition Session_status :: "'n Host \<Rightarrow> Session \<Rightarrow> 'n World \<Rightarrow> PairingStatus \<times> 'n World" where
  "Session_status host s w =
     (let copy = se_status s in
      if ps_state copy = PairingState_kPending then
        let (t, w) = now host w
        in (copy\<lparr>ps_expires_in := (if t \<ge> se_deadline s then 0 else cdiv (se_deadline s - t) ns_per_s)\<rparr>, w)
      else (copy\<lparr>ps_expires_in := 0\<rparr>, w))"

definition Session_token :: "Session \<Rightarrow> DeviceTokenResponse option" where
  "Session_token s = (if ps_state (se_status s) = PairingState_kApproved then se_token s else None)"

definition next_poll_at :: "Session \<Rightarrow> int" where
  "next_poll_at s = se_next_poll s"

end
