(* ===== verification/PairingFacts.thy ===== *)
theory PairingFacts
  imports Pairing SyncNegotiate
begin

text \<open>
  What a pairing guarantees at every moment of its life, a request in flight or not: its pace, what its verdict rests
  on, and that what the overlay is shown crosses IPC unchanged.
\<close>

section \<open>The payload\<close>

definition status_document :: "PairingStatus \<Rightarrow> Value" where
  "status_document p = VObject
     [(''state'', VString (PairingState_ToString (ps_state p))), (''user_code'', VString (ps_user_code p)),
      (''verification_url'', VString (ps_verification_url p)),
      (''verification_url_complete'', VString (ps_verification_url_complete p)),
      (''expires_in'', VNumber (Some (ps_expires_in p))), (''polls'', VNumber (Some (ps_polls p))),
      (''message'', VString (ps_message p))]"

definition countable_status :: "PairingStatus \<Rightarrow> bool" where
  "countable_status p \<longleftrightarrow> 0 \<le> ps_expires_in p \<and> ps_expires_in p \<le> kMaxCount \<and>
     0 \<le> ps_polls p \<and> ps_polls p \<le> kMaxCount"

lemma quoted_key_Quote: "list_all (\<lambda>c. quote_byte c = [c]) k \<Longrightarrow> quoted_key k = Quote k @ [CHR '':'']"
proof -
  assume "list_all (\<lambda>c. quote_byte c = [c]) k"
  then have "concat (map quote_byte k) = k" by (induction k) simp_all
  then show ?thesis by (simp add: quoted_key_def Quote_def)
qed

lemma quoted_keys [simp]:
  "quoted_key ''state'' = Quote ''state'' @ '':''" "quoted_key ''user_code'' = Quote ''user_code'' @ '':''"
  "quoted_key ''verification_url'' = Quote ''verification_url'' @ '':''"
  "quoted_key ''verification_url_complete'' = Quote ''verification_url_complete'' @ '':''"
  "quoted_key ''expires_in'' = Quote ''expires_in'' @ '':''" "quoted_key ''polls'' = Quote ''polls'' @ '':''"
  "quoted_key ''message'' = Quote ''message'' @ '':''"
  by (rule quoted_key_Quote, code_simp)+

lemma status_render: "SerializePairingStatus p = render (status_document p)"
  by (simp add: SerializePairingStatus_def status_document_def)

lemma status_document_wf:
  assumes "countable_status p"
  shows "wf_at 0 (status_document p) \<and> exact (status_document p)"
  using assms
  by (simp add: countable_status_def status_document_def kMaxDepth_def in_int64_def kMaxCount_def)

lemma find_state: "find (\<lambda>s. PairingState_ToString st = PairingState_ToString s) kAllStates = Some st"
  by (cases st) (simp_all add: kAllStates_def)

lemma read_status_document:
  assumes "countable_status p"
  shows "read_status (status_document p) = Inr p"
  using assms
  by (simp add: read_status_def status_document_def ReadText_def ReadCount_def Find_def find_state is_integer_def
      integer_def string_of_def countable_status_def)

interpretation shown: stored_record status_document countable_status read_status Inr
  by unfold_locales (use status_document_wf read_status_document in blast)+

lemma status_crosses_ipc:
  assumes "countable_status p"
  shows "ParsePairingStatus (SerializePairingStatus p) = \<lparr>parsed_value = p, parsed_error = no_error\<rparr>"
  using shown.document_wf [OF assms] shown.decode_document [OF assms]
  by (simp add: ParsePairingStatus_def status_render render_parses pr_ok_def Let_def)

section \<open>A pairing, step by step\<close>

text \<open>A clock that never goes back, which is what \<open>steady_clock\<close> promises: \<open>tick\<close> is the time it is.\<close>

definition steady :: "'n Host \<Rightarrow> ('n World \<Rightarrow> int) \<Rightarrow> bool" where
  "steady host tick \<longleftrightarrow>
     (\<forall>w. tick w \<le> fst (now host w) \<and> fst (now host w) \<le> tick (snd (now host w))) \<and>
     (\<forall>r w. tick w \<le> tick (snd (Send host r w))) \<and> (\<forall>w. tick w \<le> tick (snd (roll host w)))"

lemma steady_steps:
  assumes "steady host tick"
  shows "now host w = (t, w') \<Longrightarrow> tick w \<le> t \<and> t \<le> tick w'"
    "Send host r w = (x, w') \<Longrightarrow> tick w \<le> tick w'" "roll host w = (i, w') \<Longrightarrow> tick w \<le> tick w'"
  using assms unfolding steady_def by (metis fst_conv snd_conv)+

text \<open>What is in flight, and a session's history: when the polls of the attempt were sent and what they were
  answered, the newest first. Other threads may run at any moment, and time pass.\<close>

datatype Flight = Landed | InitOut | PollOut

inductive pairing :: "'n Host \<Rightarrow> bytes \<Rightarrow> PairingConfig \<Rightarrow> ('n World \<Rightarrow> int) \<Rightarrow> Flight \<Rightarrow> Session \<Rightarrow> 'n World \<Rightarrow>
    int list \<Rightarrow> HttpResult list \<Rightarrow> bool"
  for host version config tick where
  created: "pairing host version config tick Landed new_Session w [] []"
| waits: "pairing host version config tick f s w sent replies \<Longrightarrow> tick w \<le> tick w' \<Longrightarrow>
    pairing host version config tick f s w' sent replies"
| begins: "pairing host version config tick Landed s w sent replies \<Longrightarrow>
    begin_attempt host config s w = (s', w') \<Longrightarrow>
    pairing host version config tick
      (if ps_state (se_status s') = PairingState_kFailed then Landed else InitOut) s' w' [] []"
| begun: "pairing host version config tick InitOut s w sent replies \<Longrightarrow>
    Send host (init_request version config) w = (result, w1) \<Longrightarrow>
    begin_answered host config result s w1 = (s', w') \<Longrightarrow>
    pairing host version config tick Landed s' w' sent replies"
| quiet: "pairing host version config tick Landed s w sent replies \<Longrightarrow>
    poll_due host s w = (False, s', w') \<Longrightarrow> pairing host version config tick Landed s' w' sent replies"
| polls: "pairing host version config tick Landed s w sent replies \<Longrightarrow>
    poll_due host s w = (True, s', w') \<Longrightarrow>
    pairing host version config tick PollOut s' w' (tick w' # sent) replies"
| answered: "pairing host version config tick PollOut s w sent replies \<Longrightarrow>
    Send host (token_request config (device_code (se_init s))) w = (result, w1) \<Longrightarrow>
    poll_answered host config result s w1 = (s', w') \<Longrightarrow>
    pairing host version config tick Landed s' w' sent (result # replies)"

text \<open>The whole calls are runs of these steps.\<close>

lemma Session_Begin_runs:
  assumes "pairing host version config tick Landed s w sent replies" "Session_Begin host version config s w = (s', w')"
  shows "pairing host version config tick Landed s' w' [] []"
proof -
  obtain s1 w1 where a: "begin_attempt host config s w = (s1, w1)" by fastforce
  show ?thesis
  proof (cases "ps_state (se_status s1) = PairingState_kFailed")
    case True
    with begins [OF assms(1) a] a assms(2) show ?thesis by (simp add: Session_Begin_def)
  next
    case False
    obtain result w2 where r: "Send host (init_request version config) w1 = (result, w2)" by fastforce
    have "pairing host version config tick InitOut s1 w1 [] []" using begins [OF assms(1) a] False by simp
    from begun [OF this r] False a r assms(2) show ?thesis by (simp add: Session_Begin_def)
  qed
qed

lemma Session_Poll_runs:
  assumes "pairing host version config tick Landed s w sent replies" "Session_Poll host config s w = (s', w')"
  obtains sent' replies' where "pairing host version config tick Landed s' w' sent' replies'"
proof -
  obtain due s1 w1 where a: "poll_due host s w = (due, s1, w1)" by (metis prod_cases3)
  show ?thesis
  proof (cases due)
    case False
    with quiet [OF assms(1)] a assms(2) that show ?thesis by (simp add: Session_Poll_def)
  next
    case True
    obtain result w2 where r: "Send host (token_request config (device_code (se_init s1))) w1 = (result, w2)"
      by fastforce
    have "pairing host version config tick PollOut s1 w1 (tick w1 # sent) replies"
      using polls [OF assms(1)] a True by simp
    from answered [OF this r] True a r assms(2) that show ?thesis by (simp add: Session_Poll_def)
  qed
qed

section \<open>What an answer does\<close>

definition rejects :: "HttpResult \<Rightarrow> bool" where
  "rejects r \<longleftrightarrow> http_ok r \<and> (status (response r) = 401 \<or> status (response r) = 403)"

definition verdict :: "HttpResult \<Rightarrow> TokenPoll" where
  "verdict r = ClassifyTokenPoll (status (response r)) (body (response r))"

definition keeps_going :: "HttpResult \<Rightarrow> bool" where
  "keeps_going r \<longleftrightarrow> \<not> http_ok r \<or> ShouldKeepPolling (verdict r) \<or> rejects r"

definition interval_ns :: "Session \<Rightarrow> int" where
  "interval_ns s = poll_interval (se_init s) * ns_per_s"

definition lifetime_ns :: "Session \<Rightarrow> int" where
  "lifetime_ns s = lifetime (se_init s) * ns_per_s"

abbreviation state_of :: "Session \<Rightarrow> PairingState" where
  "state_of s \<equiv> ps_state (se_status s)"

lemmas session_defs = Session_Fail_def says_def ends_def runs_out_def

lemma ScheduleIn_does:
  assumes "steady host tick" "ScheduleIn host delay s w = (s', w')"
  obtains n where "s' = s\<lparr>se_next_poll := n\<rparr>" "tick w + interval_ns s \<le> n" "tick w \<le> tick w'"
proof -
  obtain t w1 where t: "now host w = (t, w1)" by fastforce
  from assms(2) t have "w' = w1" by (simp add: ScheduleIn_def Let_def)
  moreover have "tick w \<le> t \<and> t \<le> tick w1" by (rule steady_steps(1) [OF assms(1) t])
  moreover have "interval_ns s \<le> (if delay < poll_interval (se_init s) * 1000
      then poll_interval (se_init s) * 1000 else delay) * ns_per_ms"
    by (simp add: interval_ns_def ns_per_s_def ns_per_ms_def)
  ultimately show ?thesis using that assms(2) t by (auto simp: ScheduleIn_def Let_def)
qed

text \<open>What waiting for another poll leaves of a session.\<close>

definition still_waits :: "Session \<Rightarrow> int \<Rightarrow> Session \<Rightarrow> bool" where
  "still_waits s t s' \<longleftrightarrow> se_init s' = se_init s \<and> se_deadline s' = se_deadline s \<and> se_token s' = se_token s \<and>
     state_of s' = state_of s \<and> ps_polls (se_status s') = ps_polls (se_status s) \<and>
     se_rejected_polls s' = se_rejected_polls s \<and> t + interval_ns s \<le> se_next_poll s'"

lemma backs_off_does:
  assumes host: "steady host tick" and run: "backs_off host config why s w = (s', w')"
  shows "still_waits s (tick w) s' \<and> tick w \<le> tick w'"
proof -
  obtain i w1 where r: "roll host w = (i, w1)" by fastforce
  let ?b = "Configure \<lparr>floor_ms = poll_interval (se_init s) * 1000,
            cap_ms = pc_max_poll_backoff config * 1000, jitter = kPollJitter\<rparr> (se_backoff s)"
  obtain delay b where f: "Fail i ?b = (delay, b)" by fastforce
  obtain s2 w2 where c: "ScheduleIn host delay (s\<lparr>se_backoff := b\<rparr>) w1 = (s2, w2)" by fastforce
  from ScheduleIn_does [OF host c] obtain n where n: "s2 = s\<lparr>se_backoff := b, se_next_poll := n\<rparr>"
    "tick w1 + interval_ns s \<le> n" "tick w1 \<le> tick w2" by (auto simp: interval_ns_def)
  with run r f c steady_steps(3) [OF host r] show ?thesis
    by (auto simp: backs_off_def BackOff_def says_def still_waits_def)
qed

text \<open>An answer either leaves the pairing waiting, or is its verdict.\<close>

definition decided :: "PairingConfig \<Rightarrow> HttpResult \<Rightarrow> Session \<Rightarrow> Session \<Rightarrow> bool" where
  "decided config r s s' \<longleftrightarrow>
     (case state_of s' of
        PairingState_kApproved \<Rightarrow>
          http_ok r \<and> verdict r = TokenPoll_kGranted \<and> parsed_ok (ParseDeviceTokenResponse (body (response r))) \<and>
          se_token s' = Some (parsed_value (ParseDeviceTokenResponse (body (response r))))
      | PairingState_kDenied \<Rightarrow> http_ok r \<and> verdict r = TokenPoll_kAccessDenied
      | PairingState_kExpired \<Rightarrow> http_ok r \<and> verdict r = TokenPoll_kExpiredToken
      | PairingState_kFailed \<Rightarrow>
          (if rejects r then pc_max_rejected_polls config \<le> se_rejected_polls s + 1
           else http_ok r \<and> (verdict r = TokenPoll_kUnrecognized \<or>
             verdict r = TokenPoll_kGranted \<and> \<not> parsed_ok (ParseDeviceTokenResponse (body (response r)))))
      | _ \<Rightarrow> False)"

lemma rejects_unrecognized: "rejects r \<Longrightarrow> verdict r = TokenPoll_kUnrecognized"
  by (auto simp: rejects_def verdict_def ClassifyTokenPoll_def)

lemma poll_answered_does:
  assumes host: "steady host tick" and run: "poll_answered host config r s w = (s', w')" and pending: "state_of s = PairingState_kPending"
    and none: "se_token s = None"
  shows "tick w \<le> tick w' \<and> se_init s' = se_init s \<and> se_deadline s' = se_deadline s \<and>
    ps_polls (se_status s') = ps_polls (se_status s) + 1 \<and>
    (if state_of s' = PairingState_kPending
     then keeps_going r \<and> tick w + interval_ns s \<le> se_next_poll s' \<and> se_token s' = None \<and>
       (if rejects r then se_rejected_polls s' = se_rejected_polls s + 1 \<and> se_rejected_polls s' < pc_max_rejected_polls config
        else se_rejected_polls s' = 0)
     else decided config r s s' \<and> (se_token s' \<noteq> None \<longrightarrow> state_of s' = PairingState_kApproved))"
proof -
  let ?s = "s\<lparr>se_status := (se_status s)\<lparr>ps_polls := ps_polls (se_status s) + 1\<rparr>\<rparr>"
  let ?heard = "?s\<lparr>se_rejected_polls := 0\<rparr>"
  have backs: ?thesis if "backs_off host config why ?heard w = (s', w')" "keeps_going r" "\<not> rejects r" for why
    using backs_off_does [OF host that(1)] that(2,3) pending none by (auto simp: still_waits_def interval_ns_def)
  show ?thesis
  proof (cases "http_ok r")
    case False
    with run show ?thesis by (intro backs) (auto simp: poll_answered_def Let_def keeps_going_def rejects_def)
  next
    case ok: True
    have nr: "\<not> rejects r" if "verdict r \<noteq> TokenPoll_kUnrecognized" using that rejects_unrecognized by blast
    note run = run [unfolded poll_answered_def Let_def verdict_def [symmetric]]
    show ?thesis
    proof (cases "verdict r")
      case TokenPoll_kGranted
      with run ok nr pending none show ?thesis
        by (auto simp: poll_granted_def session_defs decided_def Let_def split: if_splits)
    next
      case TokenPoll_kAuthorizationPending
      with run ok have "ScheduleIn host (poll_interval (se_init ?s) * 1000)
          (says [] (?heard\<lparr>se_backoff := Succeed (se_backoff ?s)\<rparr>)) w = (s', w')" by simp
      from ScheduleIn_does [OF host this] obtain n where
        n: "s' = (says [] (?heard\<lparr>se_backoff := Succeed (se_backoff ?s)\<rparr>))\<lparr>se_next_poll := n\<rparr>"
        "tick w + interval_ns s \<le> n" "tick w \<le> tick w'" by (auto simp: says_def interval_ns_def)
      moreover have "\<not> rejects r" "keeps_going r"
        using TokenPoll_kAuthorizationPending nr by (simp_all add: keeps_going_def ShouldKeepPolling_def)
      ultimately show ?thesis using pending none by (simp add: says_def)
    next
      case TokenPoll_kSlowDown
      with run ok nr show ?thesis by (intro backs) (auto simp: keeps_going_def ShouldKeepPolling_def)
    next
      case TokenPoll_kRateLimited
      with run ok nr show ?thesis by (intro backs) (auto simp: keeps_going_def ShouldKeepPolling_def)
    next
      case TokenPoll_kServerError
      with run ok nr show ?thesis by (intro backs) (auto simp: keeps_going_def ShouldKeepPolling_def)
    next
      case TokenPoll_kAccessDenied
      with run ok none show ?thesis by (auto simp: session_defs decided_def)
    next
      case TokenPoll_kExpiredToken
      with run ok none show ?thesis by (auto simp: session_defs decided_def)
    next
      case u: TokenPoll_kUnrecognized
      with run ok have p: "poll_rejected host config (status (response r)) ?s w = (s', w')" by simp
      show ?thesis
      proof (cases "rejects r")
        case False
        with p ok have "s' = Session_Fail (''the server answered something this client does not understand: HTTP '' @
            to_string (status (response r))) ?s \<and> w' = w" by (simp add: poll_rejected_def rejects_def)
        with False u ok none show ?thesis by (simp add: Session_Fail_def decided_def)
      next
        case True
        let ?t = "?s\<lparr>se_rejected_polls := se_rejected_polls ?s + 1\<rparr>"
        show ?thesis
        proof (cases "se_rejected_polls ?t < pc_max_rejected_polls config")
          case more: True
          with p True obtain why where "backs_off host config why ?t w = (s', w')"
            by (auto simp: poll_rejected_def rejects_def)
          from backs_off_does [OF host this] True more pending none show ?thesis
            by (auto simp: still_waits_def interval_ns_def keeps_going_def)
        next
          case False
          with p True obtain why where "s' = Session_Fail why ?t" "w' = w"
            by (fastforce simp: poll_rejected_def rejects_def Let_def)
          with True False none show ?thesis by (simp add: Session_Fail_def decided_def)
        qed
      qed
    qed
  qed
qed

section \<open>The invariant\<close>

text \<open>The pace: what is known of the moments the polls of this attempt were sent.\<close>

definition paced :: "Flight \<Rightarrow> Session \<Rightarrow> int \<Rightarrow> int list \<Rightarrow> bool" where
  "paced f s t sent \<longleftrightarrow>
     sorted_wrt (\<lambda>b a. a + interval_ns s \<le> b) sent \<and> (\<forall>b \<in> set sent. se_deadline s - lifetime_ns s \<le> b) \<and>
     (int (length sent) - 2) * interval_ns s < lifetime_ns s \<and>
     (state_of s = PairingState_kPending \<longrightarrow>
        se_deadline s - lifetime_ns s \<le> t \<and> (\<forall>b \<in> set sent. b \<le> t) \<and>
        (f = Landed \<longrightarrow> (\<forall>b \<in> set sent. b + interval_ns s \<le> se_next_poll s)))"

text \<open>What the state rests on: which answer was the verdict, and that no other was one.\<close>

definition rests_on :: "PairingConfig \<Rightarrow> Session \<Rightarrow> int \<Rightarrow> HttpResult list \<Rightarrow> bool" where
  "rests_on config s t replies \<longleftrightarrow>
     list_all keeps_going (tl replies) \<and>
     (case state_of s of
        PairingState_kIdle \<Rightarrow> replies = []
      | PairingState_kStarting \<Rightarrow> replies = [] \<and> se_rejected_polls s = 0
      | PairingState_kPending \<Rightarrow>
          list_all keeps_going replies \<and> se_rejected_polls s = int (length (takeWhile rejects replies)) \<and>
          (se_rejected_polls s = 0 \<or> se_rejected_polls s < pc_max_rejected_polls config)
      | PairingState_kApproved \<Rightarrow>
          (case replies of [] \<Rightarrow> False
           | r # _ \<Rightarrow> http_ok r \<and> verdict r = TokenPoll_kGranted \<and>
               parsed_ok (ParseDeviceTokenResponse (body (response r))) \<and>
               se_token s = Some (parsed_value (ParseDeviceTokenResponse (body (response r)))))
      | PairingState_kDenied \<Rightarrow>
          (case replies of [] \<Rightarrow> False | r # _ \<Rightarrow> http_ok r \<and> verdict r = TokenPoll_kAccessDenied)
      | PairingState_kExpired \<Rightarrow>
          list_all keeps_going replies \<and> se_deadline s \<le> t \<or>
          (case replies of [] \<Rightarrow> False | r # _ \<Rightarrow> http_ok r \<and> verdict r = TokenPoll_kExpiredToken)
      | PairingState_kFailed \<Rightarrow>
          (case replies of [] \<Rightarrow> True
           | r # _ \<Rightarrow>
               if rejects r then pc_max_rejected_polls config \<le> int (length (takeWhile rejects replies))
               else http_ok r \<and> (verdict r = TokenPoll_kUnrecognized \<or>
                 verdict r = TokenPoll_kGranted \<and> \<not> parsed_ok (ParseDeviceTokenResponse (body (response r))))))"

definition flies :: "Flight \<Rightarrow> Session \<Rightarrow> int list \<Rightarrow> HttpResult list \<Rightarrow> bool" where
  "flies f s sent replies \<longleftrightarrow>
     (f = InitOut) = (state_of s = PairingState_kStarting) \<and> (f = PollOut \<longrightarrow> state_of s = PairingState_kPending) \<and>
     (se_token s = None) = (state_of s \<noteq> PairingState_kApproved) \<and>
     ps_polls (se_status s) = int (length replies) \<and>
     length sent = length replies + (if f = PollOut then 1 else 0)"

definition pairing_inv :: "PairingConfig \<Rightarrow> Flight \<Rightarrow> Session \<Rightarrow> int \<Rightarrow> int list \<Rightarrow> HttpResult list \<Rightarrow> bool" where
  "pairing_inv config f s t sent replies \<longleftrightarrow> flies f s sent replies \<and> paced f s t sent \<and> rests_on config s t replies"

lemma interval_positive: "ns_per_s \<le> interval_ns s" "interval_ns s \<le> lifetime_ns s" "lifetime_ns s \<le> 3600 * ns_per_s"
  using poll_interval_bounds [of "se_init s"] by (simp_all add: interval_ns_def lifetime_ns_def ns_per_s_def)

lemma nothing_sent: "paced f s t [] = (state_of s = PairingState_kPending \<longrightarrow> se_deadline s - lifetime_ns s \<le> t)"
  using interval_positive [of s] by (auto simp: paced_def ns_per_s_def)

lemma created_inv: "pairing_inv config Landed new_Session t [] []"
  by (simp add: pairing_inv_def flies_def nothing_sent rests_on_def new_Session_def no_status_def)

lemma waits_inv: "pairing_inv config f s t sent replies \<Longrightarrow> t \<le> t' \<Longrightarrow> pairing_inv config f s t' sent replies"
  by (auto simp: pairing_inv_def paced_def rests_on_def split: PairingState.splits)

lemma begins_inv:
  assumes "begin_attempt host config s w = (s', w')"
  shows "pairing_inv config (if state_of s' = PairingState_kFailed then Landed else InitOut) s' t [] []"
proof -
  obtain u w1 where "now host w = (u, w1)" by fastforce
  with assms have "se_token s' = None \<and> ps_polls (se_status s') = 0 \<and> se_rejected_polls s' = 0 \<and>
      (state_of s' = PairingState_kFailed \<or> state_of s' = PairingState_kStarting)"
    by (auto simp: begin_attempt_def Session_Fail_def Let_def no_status_def split: if_splits)
  then show ?thesis by (auto simp: pairing_inv_def flies_def nothing_sent rests_on_def)
qed

lemma begun_inv:
  assumes host: "steady host tick" and inv: "pairing_inv config InitOut s t sent replies"
    and run: "begin_answered host config result s w = (s', w')"
  shows "pairing_inv config Landed s' (tick w') sent replies"
proof -
  from inv have starting: "state_of s = PairingState_kStarting" by (simp add: pairing_inv_def flies_def)
  with inv have none: "replies = []" "sent = []" "se_token s = None" "ps_polls (se_status s) = 0"
    "se_rejected_polls s = 0"
    by (auto simp: pairing_inv_def flies_def rests_on_def)
  obtain u w1 where u: "now host w = (u, w1)" by fastforce
  consider (fails) why where "s' = Session_Fail why s"
    | (pends) "state_of s' = PairingState_kPending" "se_token s' = se_token s" "ps_polls (se_status s') = ps_polls (se_status s)"
      "se_deadline s' = u + lifetime_ns s'" "w' = w1" "se_rejected_polls s' = se_rejected_polls s"
    using run u by (fastforce simp: begin_answered_def Let_def lifetime_ns_def split: if_splits)
  then show ?thesis
  proof cases
    case fails
    with none show ?thesis by (simp add: pairing_inv_def flies_def nothing_sent rests_on_def Session_Fail_def)
  next
    case pends
    with none steady_steps(1) [OF host u] inv show ?thesis
      by (auto simp: pairing_inv_def flies_def nothing_sent rests_on_def)
  qed
qed

lemma poll_due_does:
  assumes host: "steady host tick" and run: "poll_due host s w = (due, s', w')"
  shows "tick w \<le> tick w' \<and>
    (if due then s' = s \<and> state_of s = PairingState_kPending \<and> tick w < se_deadline s \<and> se_next_poll s \<le> tick w'
     else s' = s \<or> state_of s = PairingState_kPending \<and> se_deadline s \<le> tick w' \<and>
       (\<exists>why. s' = runs_out why s))"
proof (cases "state_of s = PairingState_kPending")
  case False
  with run show ?thesis by (auto simp: poll_due_def)
next
  case True
  obtain t1 w1 where t1: "now host w = (t1, w1)" by fastforce
  obtain t2 w2 where t2: "now host w1 = (t2, w2)" by fastforce
  note run [unfolded poll_due_def t1 Let_def prod.case t2]
  with True steady_steps(1) [OF host t1] steady_steps(1) [OF host t2] show ?thesis
    by (auto split: if_splits)
qed

lemma quiet_inv:
  assumes host: "steady host tick" and inv: "pairing_inv config Landed s (tick w) sent replies"
    and run: "poll_due host s w = (False, s', w')"
  shows "pairing_inv config Landed s' (tick w') sent replies"
proof -
  note does = poll_due_does [OF host run]
  then consider (same) "s' = s" | (out) why where "state_of s = PairingState_kPending" "se_deadline s \<le> tick w'"
      "s' = runs_out why s" by auto
  then show ?thesis
  proof cases
    case same
    with waits_inv [OF inv] does show ?thesis by simp
  next
    case out
    have "interval_ns s' = interval_ns s" "lifetime_ns s' = lifetime_ns s"
      by (simp_all add: out runs_out_def interval_ns_def lifetime_ns_def)
    with inv out show ?thesis
      by (auto simp: pairing_inv_def flies_def paced_def rests_on_def runs_out_def)
  qed
qed

text \<open>Sends an interval apart: the newest is that many intervals after the beginning.\<close>

lemma spread:
  fixes d :: int
  assumes "sorted_wrt (\<lambda>b a. a + d \<le> b) sent" "\<forall>b \<in> set sent. begun \<le> b" "sent \<noteq> []"
  shows "begun + (int (length sent) - 1) * d \<le> hd sent"
  using assms
proof (induction sent)
  case (Cons b sent)
  then show ?case by (cases sent) (auto simp: algebra_simps)
qed simp

lemma polls_inv:
  assumes host: "steady host tick" and inv: "pairing_inv config Landed s (tick w) sent replies"
    and run: "poll_due host s w = (True, s', w')"
  shows "pairing_inv config PollOut s' (tick w') (tick w' # sent) replies"
proof -
  from poll_due_does [OF host run] have does: "s' = s" "state_of s = PairingState_kPending"
    "tick w < se_deadline s" "se_next_poll s \<le> tick w'" "tick w \<le> tick w'" by auto
  from inv have p: "paced Landed s (tick w) sent" by (simp add: pairing_inv_def)
  have apart: "a + interval_ns s \<le> tick w'" if "a \<in> set sent" for a
    using p does that by (fastforce simp: paced_def)
  have room: "(int (length (tick w' # sent)) - 2) * interval_ns s < lifetime_ns s"
  proof (cases "sent = []")
    case True
    then show ?thesis using interval_positive [of s] by (simp add: ns_per_s_def)
  next
    case False
    have "se_deadline s - lifetime_ns s + (int (length sent) - 1) * interval_ns s \<le> hd sent"
      using p False by (intro spread) (auto simp: paced_def)
    also have "hd sent \<le> tick w" using p does False by (simp add: paced_def)
    finally show ?thesis using does by simp
  qed
  have "paced PollOut s (tick w') (tick w' # sent)"
    unfolding paced_def using p apart room does interval_positive [of s] by (fastforce simp: paced_def ns_per_s_def)
  with inv does waits_inv [OF inv does(5)] show ?thesis by (simp add: pairing_inv_def flies_def)
qed

lemma answered_inv:
  assumes host: "steady host tick" and inv: "pairing_inv config PollOut s t sent replies" and t: "t \<le> tick w"
    and run: "poll_answered host config r s w = (s', w')"
  shows "pairing_inv config Landed s' (tick w') sent (r # replies)"
proof -
  from inv have f: "state_of s = PairingState_kPending" "se_token s = None"
    "ps_polls (se_status s) = int (length replies)" "length sent = Suc (length replies)"
    by (auto simp: pairing_inv_def flies_def)
  from inv f have on: "list_all keeps_going replies" "se_rejected_polls s = int (length (takeWhile rejects replies))"
    by (auto simp: pairing_inv_def rests_on_def)
  from inv have p: "paced PollOut s t sent" by (simp add: pairing_inv_def)
  note does = poll_answered_does [OF host run f(1,2)]
  then have same: "interval_ns s' = interval_ns s" "lifetime_ns s' = lifetime_ns s" "se_deadline s' = se_deadline s"
    "ps_polls (se_status s') = ps_polls (se_status s) + 1" "tick w \<le> tick w'"
    by (simp_all add: interval_ns_def lifetime_ns_def)
  show ?thesis
  proof (cases "state_of s' = PairingState_kPending")
    case True
    with does have going: "keeps_going r" "tick w + interval_ns s \<le> se_next_poll s'" "se_token s' = None"
      "if rejects r then se_rejected_polls s' = se_rejected_polls s + 1 \<and>
         se_rejected_polls s' < pc_max_rejected_polls config else se_rejected_polls s' = 0" by (auto split: if_splits)
    have "paced Landed s' (tick w') sent"
      using p f(1) going(2) True t same by (fastforce simp: paced_def)
    moreover have "rests_on config s' (tick w') (r # replies)"
      using going on True by (auto simp: rests_on_def split: if_splits)
    ultimately show ?thesis using f same going(3) True by (simp add: pairing_inv_def flies_def)
  next
    case False
    with does have d: "decided config r s s'" "se_token s' \<noteq> None \<longrightarrow> state_of s' = PairingState_kApproved" by simp_all
    have "rests_on config s' (tick w') (r # replies)"
      using d(1) on by (auto simp: rests_on_def decided_def split: PairingState.splits if_splits)
    moreover have "paced Landed s' (tick w') sent" using p False same by (simp add: paced_def)
    moreover have "flies Landed s' sent (r # replies)"
      using d f same False by (auto simp: flies_def decided_def split: PairingState.splits)
    ultimately show ?thesis by (simp add: pairing_inv_def)
  qed
qed

lemma pairing_invariant:
  assumes host: "steady host tick" and run: "pairing host version config tick f s w sent replies"
  shows "pairing_inv config f s (tick w) sent replies"
  using run
proof (induction rule: pairing.induct)
  case (begun s w sent replies result w1 s' w')
  show ?case
    by (rule begun_inv [OF host begun.IH begun.hyps(3)])
next
  case (answered s w sent replies result w1 s' w')
  show ?case
    by (rule answered_inv [OF host answered.IH steady_steps(2) [OF host answered.hyps(2)] answered.hyps(3)])
next
  case (created w)
  show ?case by (rule created_inv)
next
  case (waits f s w sent replies w')
  then show ?case by (blast intro: waits_inv)
next
  case (begins s w sent replies s' w')
  then show ?case by (blast intro: begins_inv)
next
  case (quiet s w sent replies s' w')
  then show ?case by (blast intro: quiet_inv [OF host])
next
  case (polls s w sent replies s' w')
  then show ?case by (blast intro: polls_inv [OF host])
qed

section \<open>A pairing that is approved\<close>

definition sample_init :: bytes where
  "sample_init = render (VObject [(''device_code'', VString ''dc''), (''user_code'', VString ''ABCD''),
     (''verification_path'', VString ''/pair''), (''verification_path_complete'', VString ''/pair?c=ABCD''),
     (''expires_in'', VNumber (Some 600)), (''interval'', VNumber (Some 5))])"

definition pairing_host :: "int Host" where
  "pairing_host = \<lparr>Send = (\<lambda>_ w. (answered_with 200 (if net w = 0 then sample_init else sample_grant), w\<lparr>net := net w + 2\<rparr>)),
     Download = (\<lambda>_ _ w. (answered_with 200 [], w)), canceled = (\<lambda>w. (False, w)),
     wait_ms = (\<lambda>_ w. w), roll = (\<lambda>w. ((Some 0, 0), w)), now = (\<lambda>w. (net w, w)), Resolve = id,
     ListDirectory = (\<lambda>_ _. no_listing), CreateDirectory = (\<lambda>_ w. ((MakeDirError_kNone, []), w)),
     RemoveEmptyDirectory = (\<lambda>_ w. w)\<rparr>"

definition paired_config :: PairingConfig where
  "paired_config = new_PairingConfig\<lparr>pc_server_url := ''http://romm'', pc_client_device_identifier := ''c''\<rparr>"

lemma pairing_host_steady: "steady pairing_host net"
  by (simp add: steady_def pairing_host_def)

lemma sample_init_parses: "ParseDeviceInitResponse sample_init = \<lparr>parsed_value = \<lparr>device_code = ''dc'', user_code = ''ABCD'',
    verification_path = ''/pair'', verification_path_complete = ''/pair?c=ABCD'', expires_in = 600, interval = 5\<rparr>,
    parsed_error = no_error\<rparr>"
  by code_simp

lemma sample_pairing:
  obtains s w where "pairing pairing_host version paired_config net Landed s w [2] [answered_with 200 sample_grant]"
    "state_of s = PairingState_kApproved"
proof -
  let ?w = "\<lparr>card = undefined, net = 0 :: int\<rparr>"
  let ?c = paired_config and ?h = pairing_host
  obtain s1 w1 where b: "begin_attempt ?h ?c new_Session ?w = (s1, w1)" by fastforce
  then have s1: "state_of s1 = PairingState_kStarting" "net w1 = 0"
    by (auto simp: begin_attempt_def pairing_host_def paired_config_def new_PairingConfig_def MinimumScopes_def)
  have p1: "pairing ?h version ?c net InitOut s1 w1 [] []"
    using pairing.begins [OF pairing.created b] s1 by simp
  obtain s2 w2 where a: "begin_answered ?h ?c (answered_with 200 sample_init) s1 (w1\<lparr>net := 2\<rparr>) = (s2, w2)" by fastforce
  then have s2: "state_of s2 = PairingState_kPending" "net w2 = 2" "se_next_poll s2 = 2" "2 < se_deadline s2"
    by (auto simp: begin_answered_def answered_with_def sample_init_parses http_ok_def successful_def parsed_ok_def
        pairing_host_def lifetime_def Clamp_seconds_def kMinPairingLifetime_def kMaxPairingLifetime_def ns_per_s_def Let_def)
  have p2: "pairing ?h version ?c net Landed s2 w2 [] []"
    by (rule pairing.begun [OF p1 _ a]) (simp add: pairing_host_def s1)
  have due: "poll_due ?h s2 w2 = (True, s2, w2)"
    using s2 by (simp add: poll_due_def pairing_host_def)
  have p3: "pairing ?h version ?c net PollOut s2 w2 [2] []"
    using pairing.polls [OF p2 due] s2 by simp
  obtain s3 w3 where g: "poll_answered ?h ?c (answered_with 200 sample_grant) s2 (w2\<lparr>net := 4\<rparr>) = (s3, w3)" by fastforce
  then have "state_of s3 = PairingState_kApproved"
    using conjunct1 [OF sample_grant_parses]
    by (auto simp: poll_answered_def answered_with_def http_ok_def ClassifyTokenPoll_def poll_granted_def ends_def)
  moreover have "pairing ?h version ?c net Landed s3 w3 [2] [answered_with 200 sample_grant]"
    by (rule pairing.answered [OF p3 _ g]) (simp add: pairing_host_def s2)
  ultimately show ?thesis using that by blast
qed

section \<open>Properties\<close>

text \<open>C23: Whatever is called in whatever order and whatever the server answers, two polls of one attempt are never
  closer than the interval the server asked for (RomM answers a faster loop \<open>slow_down\<close> for good), and a code
  is polled at most as often as its life has intervals, and one more: at most 3,601 times.\<close>

theorem pairing_is_paced:
  assumes "steady host tick" "pairing host version config tick f s w sent replies"
  shows "sorted_wrt (\<lambda>later earlier. earlier + poll_interval (se_init s) * ns_per_s \<le> later) sent \<and>
    (int (length sent) - 2) * poll_interval (se_init s) < lifetime (se_init s) \<and> length sent \<le> 3601"
proof -
  have p: "paced f s (tick w) sent" using pairing_invariant [OF assms] by (simp add: pairing_inv_def)
  then have sorted: "sorted_wrt (\<lambda>later earlier. earlier + poll_interval (se_init s) * ns_per_s \<le> later) sent"
    by (simp add: paced_def interval_ns_def)
  from p have "ns_per_s * ((int (length sent) - 2) * poll_interval (se_init s)) < ns_per_s * lifetime (se_init s)"
    by (simp add: paced_def interval_ns_def lifetime_ns_def mult.assoc mult.commute mult.left_commute)
  then have less: "(int (length sent) - 2) * poll_interval (se_init s) < lifetime (se_init s)"
    by (simp add: ns_per_s_def)
  have "length sent \<le> 3601"
  proof (rule ccontr)
    assume "\<not> length sent \<le> 3601"
    then have "3600 \<le> int (length sent) - 2" by simp
    then have "3600 * 1 \<le> (int (length sent) - 2) * poll_interval (se_init s)"
      using poll_interval_bounds [of "se_init s"] by (intro mult_mono) auto
    with less poll_interval_bounds [of "se_init s"] show False by linarith
  qed
  with sorted less show ?thesis by blast
qed

theorem pairing_is_paced_witness:
  "\<exists>s. state_of s = PairingState_kApproved \<and>
    sorted_wrt (\<lambda>later earlier. earlier + poll_interval (se_init s) * ns_per_s \<le> later) [2] \<and>
    (int (length [2 :: int]) - 2) * poll_interval (se_init s) < lifetime (se_init s) \<and> length [2 :: int] \<le> 3601"
  by (rule sample_pairing [of "''1.0''"]) (use pairing_is_paced [OF pairing_host_steady] in blast)

text \<open>C22: A pairing ends on a verdict and on nothing else. Every answer before the newest one said to go on; a
  session that is pending heard nothing else, and fewer rejections in a row than the budget; a token is the one of
  a readable grant that was the newest answer; a code is expired because its time is up or the server said so.\<close>

theorem pairing_rests_on_its_answers:
  assumes "steady host tick" "pairing host version config tick f s w sent replies"
  shows "rests_on config s (tick w) replies \<and>
    (case Session_token s of None \<Rightarrow> state_of s \<noteq> PairingState_kApproved
     | Some granted \<Rightarrow> state_of s = PairingState_kApproved \<and> f = Landed \<and> usable (dt_access_token granted))"
proof -
  from pairing_invariant [OF assms] have inv: "rests_on config s (tick w) replies" "flies f s sent replies"
    by (simp_all add: pairing_inv_def)
  then have "usable (dt_access_token granted)" if "Session_token s = Some granted" for granted
    using that grant_usable by (fastforce simp: Session_token_def rests_on_def split: if_splits list.splits)
  moreover have "f = Landed" if "state_of s = PairingState_kApproved"
    using inv(2) that by (cases f) (auto simp: flies_def)
  ultimately show ?thesis using inv
    by (auto simp: Session_token_def flies_def split: option.splits if_splits)
qed

theorem pairing_rests_on_its_answers_witness:
  "\<exists>s (w :: int World). state_of s = PairingState_kApproved \<and>
    rests_on paired_config s (net w) [answered_with 200 sample_grant] \<and>
    (case Session_token s of None \<Rightarrow> state_of s \<noteq> PairingState_kApproved
     | Some granted \<Rightarrow> state_of s = PairingState_kApproved \<and> Landed = Landed \<and> usable (dt_access_token granted))"
proof (rule sample_pairing [of "''1.0''"])
  fix s w
  assume run: "pairing pairing_host ''1.0'' paired_config net Landed s w [2] [answered_with 200 sample_grant]"
    and approved: "state_of s = PairingState_kApproved"
  show ?thesis
    by (intro exI, rule conjI [OF approved pairing_rests_on_its_answers [OF pairing_host_steady run]])
qed

text \<open>C24: Whatever moment the overlay asks at, a request in flight or not, what it is shown of the pairing is decoded
  from the payload exactly as it was encoded: the countdown and the count of polls never leave what the decoder
  takes for plausible.\<close>

theorem shown_pairing_crosses_ipc:
  assumes "steady host tick" "pairing host version config tick f s w sent replies"
    and shown: "Session_status host s w = (p, w')"
  shows "ParsePairingStatus (SerializePairingStatus p) = \<lparr>parsed_value = p, parsed_error = no_error\<rparr>"
proof (rule status_crosses_ipc)
  from pairing_invariant [OF assms(1,2)] have inv: "paced f s (tick w) sent" "flies f s sent replies"
    by (simp_all add: pairing_inv_def)
  from pairing_is_paced [OF assms(1,2)] have "length sent \<le> 3601" by blast
  with inv(2) have polls: "0 \<le> ps_polls (se_status s) \<and> ps_polls (se_status s) \<le> kMaxCount"
    by (auto simp: flies_def kMaxCount_def split: if_splits)
  show "countable_status p"
  proof (cases "state_of s = PairingState_kPending")
    case False
    with shown polls show ?thesis by (auto simp: Session_status_def countable_status_def kMaxCount_def)
  next
    case True
    obtain t w1 where t: "now host w = (t, w1)" by fastforce
    have "se_deadline s - t \<le> 3600 * ns_per_s"
      using inv(1) True steady_steps(1) [OF assms(1) t] interval_positive(3) [of s] by (simp add: paced_def)
    then have "0 \<le> se_deadline s - t \<Longrightarrow> cdiv (se_deadline s - t) ns_per_s \<le> 3600 \<and>
        0 \<le> cdiv (se_deadline s - t) ns_per_s"
      using zdiv_mono1 [of "se_deadline s - t" "3600 * ns_per_s" ns_per_s]
      by (simp add: ns_per_s_def pos_imp_zdiv_nonneg_iff)
    with shown t True polls show ?thesis
      by (auto simp: Session_status_def countable_status_def kMaxCount_def Let_def split: if_splits)
  qed
qed

theorem shown_pairing_crosses_ipc_witness:
  "\<exists>p. ps_state p = PairingState_kApproved \<and>
    ParsePairingStatus (SerializePairingStatus p) = \<lparr>parsed_value = p, parsed_error = no_error\<rparr>"
proof (rule sample_pairing [of "''1.0''"])
  fix s w
  assume run: "pairing pairing_host ''1.0'' paired_config net Landed s w [2] [answered_with 200 sample_grant]"
    and approved: "state_of s = PairingState_kApproved"
  obtain p w' where p: "Session_status pairing_host s w = (p, w')" by fastforce
  with approved have "ps_state p = PairingState_kApproved" by (auto simp: Session_status_def)
  with shown_pairing_crosses_ipc [OF pairing_host_steady run p] show ?thesis by blast
qed

end
