(* ===== verification/Identity.thy ===== *)
theory Identity
  imports TokenStore Hashes
begin

text \<open>
  \<open>core/src/device_identity.cpp\<close>: the identifier the server knows this console by, derived once, kept in a small
  file, and read back at every boot.
\<close>

section \<open>The record\<close>

datatype IdentitySource = IdentitySource_kDerived | IdentitySource_kRandom | IdentitySource_kUnknown

fun IdentitySource_ToString :: "IdentitySource \<Rightarrow> bytes" where
  "IdentitySource_ToString IdentitySource_kDerived = ''derived''"
| "IdentitySource_ToString IdentitySource_kRandom = ''random''"
| "IdentitySource_ToString IdentitySource_kUnknown = ''unknown''"

datatype IdentityError = IdentityError_kNone | IdentityError_kNoSeed | IdentityError_kMalformed
  | IdentityError_kPersistFailed | IdentityError_kUnreadable

fun IdentityError_ToString :: "IdentityError \<Rightarrow> bytes" where
  "IdentityError_ToString IdentityError_kNone = ''none''"
| "IdentityError_ToString IdentityError_kNoSeed = ''no_seed''"
| "IdentityError_ToString IdentityError_kMalformed = ''malformed''"
| "IdentityError_ToString IdentityError_kPersistFailed = ''persist_failed''"
| "IdentityError_ToString IdentityError_kUnreadable = ''unreadable''"

record DeviceIdentity =
  di_identifier :: bytes
  di_source :: IdentitySource

definition new_identity :: DeviceIdentity where
  "new_identity = \<lparr>di_identifier = [], di_source = IdentitySource_kRandom\<rparr>"

record IdentitySeed =
  sd_stable :: bytes
  sd_entropy :: bytes

record DerivedIdentity =
  dv_value :: DeviceIdentity
  dv_error :: IdentityError
  dv_message :: bytes

definition no_derived :: DerivedIdentity where
  "no_derived = \<lparr>dv_value = new_identity, dv_error = IdentityError_kNone, dv_message = []\<rparr>"

definition dv_ok :: "DerivedIdentity \<Rightarrow> bool" where
  "dv_ok d \<longleftrightarrow> dv_error d = IdentityError_kNone"

definition kAllSources :: "IdentitySource list" where
  "kAllSources = [IdentitySource_kDerived, IdentitySource_kRandom]"

definition kIdentitySalt :: bytes where "kIdentitySalt = ''rommsync-nx/client-device-identifier/v1''"
definition kDeviceIdentifierPrefix :: bytes where "kDeviceIdentifierPrefix = ''nx-''"
definition kDeviceIdentifierHexChars :: nat where "kDeviceIdentifierHexChars = 32"

definition kDeviceIdentifierLength :: nat where
  "kDeviceIdentifierLength = length kDeviceIdentifierPrefix + kDeviceIdentifierHexChars"

definition kMinimumEntropyBytes :: nat where "kMinimumEntropyBytes = 16"
definition kMinimumStableChars :: nat where "kMinimumStableChars = 8"

section \<open>Deriving\<close>

definition Wear :: "bytes \<Rightarrow> bytes" where
  "Wear material =
     kDeviceIdentifierPrefix @
     Sha256Hex (kIdentitySalt @ [CHR 0x00] @ material) (kDeviceIdentifierHexChars div 2)"

definition IsDeviceIdentifier :: "bytes \<Rightarrow> bool" where
  "IsDeviceIdentifier s \<longleftrightarrow>
     length s = kDeviceIdentifierLength \<and>
     take (length kDeviceIdentifierPrefix) s = kDeviceIdentifierPrefix \<and>
     list_all (\<lambda>c. (CHR ''0'' \<le> c \<and> c \<le> CHR ''9'') \<or> (CHR ''a'' \<le> c \<and> c \<le> CHR ''f''))
       (drop (length kDeviceIdentifierPrefix) s)"

definition DeriveDeviceIdentity :: "IdentitySeed \<Rightarrow> DerivedIdentity" where
  "DeriveDeviceIdentity seed =
     (if length (sd_stable seed) \<ge> kMinimumStableChars
      then no_derived\<lparr>dv_value := \<lparr>di_identifier = Wear (sd_stable seed), di_source = IdentitySource_kDerived\<rparr>\<rparr>
      else if length (sd_entropy seed) < kMinimumEntropyBytes
      then no_derived\<lparr>dv_error := IdentityError_kNoSeed, dv_message :=
        ''a stable console value of '' @ to_string (int (length (sd_stable seed))) @
        '' characters is below the '' @ to_string (int kMinimumStableChars) @
        '' a real one has, and '' @ to_string (int (length (sd_entropy seed))) @
        '' bytes of entropy is below the '' @ to_string (int kMinimumEntropyBytes) @
        '' needed to mint one instead''\<rparr>
      else no_derived\<lparr>dv_value := \<lparr>di_identifier = Wear (sd_entropy seed), di_source = IdentitySource_kRandom\<rparr>\<rparr>)"

section \<open>Its text\<close>

definition SerializeDeviceIdentity :: "DeviceIdentity \<Rightarrow> bytes" where
  "SerializeDeviceIdentity identity =
     ''{'' @ [CHR 0x22] @ ''client_device_identifier'' @ [CHR 0x22, CHR '':''] @ Quote (di_identifier identity) @
     '','' @ [CHR 0x22] @ ''source'' @ [CHR 0x22, CHR '':''] @
     Quote (IdentitySource_ToString (di_source identity)) @ ''}''"

text \<open>The record of a document that parsed.\<close>

definition read_identity :: "Value \<Rightarrow> DerivedIdentity" where
  "read_identity v =
     (let (identifier, reader) = Required_string ''client_device_identifier'' (make_Reader v ''device identity record'') in
      if \<not> Reader_ok reader
      then no_derived\<lparr>dv_error := IdentityError_kMalformed, dv_message := Describe (rd_error reader)\<rparr>
      else if \<not> IsDeviceIdentifier (into [] identifier)
      then no_derived\<lparr>dv_error := IdentityError_kMalformed,
             dv_message := ''field client_device_identifier: is not an identifier this client wrote''\<rparr>
      else
        let (named, _) = Required_string ''source'' (make_Reader v ''device identity record'');
            source = (case named of
              None \<Rightarrow> IdentitySource_kUnknown
            | Some name \<Rightarrow>
                (case find (\<lambda>one. name = IdentitySource_ToString one) kAllSources of
                   None \<Rightarrow> IdentitySource_kUnknown | Some one \<Rightarrow> one))
        in no_derived\<lparr>dv_value := \<lparr>di_identifier = into [] identifier, di_source = source\<rparr>\<rparr>)"

definition ParseDeviceIdentity :: "bytes \<Rightarrow> DerivedIdentity" where
  "ParseDeviceIdentity t =
     (let document = Parse t in
      if \<not> pr_ok document
      then no_derived\<lparr>dv_error := IdentityError_kMalformed, dv_message := Describe (pr_error document)\<rparr>
      else read_identity (pr_value document))"

section \<open>Its file\<close>

record IdentityResult =
  id_value :: DeviceIdentity
  id_error :: IdentityError
  id_message :: bytes
  id_created :: bool

definition no_identity :: IdentityResult where
  "no_identity = \<lparr>id_value = new_identity, id_error = IdentityError_kNone, id_message = [], id_created = False\<rparr>"

definition id_ok :: "IdentityResult \<Rightarrow> bool" where
  "id_ok r \<longleftrightarrow> id_error r = IdentityError_kNone"

definition Identity_ReadRecord :: "bytes \<Rightarrow> Card \<Rightarrow> (DerivedIdentity \<times> ReadError) \<times> Card" where
  "Identity_ReadRecord path w =
     (let (got, w) = ReadFile path w in
      (if \<not> rr_ok got
       then (no_derived\<lparr>dv_error := (if rr_error got = ReadError_kUnreadable then IdentityError_kUnreadable
               else IdentityError_kMalformed), dv_message := rr_message got\<rparr>, rr_error got)
       else (ParseDeviceIdentity (rr_contents got), rr_error got), w))"

text \<open>The look under the previous name, and putting back what it found.\<close>

definition fall_back ::
  "bytes \<Rightarrow> DerivedIdentity \<Rightarrow> ReadError \<Rightarrow> Card \<Rightarrow> (DerivedIdentity \<times> ReadError) \<times> Card" where
  "fall_back path existing how w =
     (if \<not> dv_ok existing \<and> how \<noteq> ReadError_kUnreadable then
        let ((previous, _), w) = Identity_ReadRecord (PreviousPathFor path) w in
        if dv_ok previous then
          let (_, w) = WriteAtomically path (SerializeDeviceIdentity (dv_value previous)) w
          in ((previous, ReadError_kNone), w)
        else ((existing, how), w)
      else ((existing, how), w))"

definition mint :: "bytes \<Rightarrow> IdentitySeed \<Rightarrow> Card \<Rightarrow> IdentityResult \<times> Card" where
  "mint path seed w =
     (let fresh = DeriveDeviceIdentity seed in
      if \<not> dv_ok fresh then (no_identity\<lparr>id_error := dv_error fresh, id_message := dv_message fresh\<rparr>, w)
      else
        let (written, w) = WriteAtomically path (SerializeDeviceIdentity (dv_value fresh)) w in
        if \<not> wr_ok written
        then (no_identity\<lparr>id_error := IdentityError_kPersistFailed, id_message := wr_message written\<rparr>, w)
        else (no_identity\<lparr>id_value := dv_value fresh, id_created := True\<rparr>, w))"

definition LoadOrCreateDeviceIdentity :: "bytes \<Rightarrow> IdentitySeed \<Rightarrow> Card \<Rightarrow> IdentityResult \<times> Card" where
  "LoadOrCreateDeviceIdentity path seed w =
     (let ((existing, how), w) = Identity_ReadRecord path w;
          ((existing, how), w) = fall_back path existing how w
      in
      if dv_ok existing then (no_identity\<lparr>id_value := dv_value existing\<rparr>, w)
      else if how = ReadError_kUnreadable
      then (no_identity\<lparr>id_error := IdentityError_kUnreadable, id_message := dv_message existing\<rparr>, w)
      else mint path seed w)"

definition ForgetDeviceIdentity :: "bytes \<Rightarrow> Card \<Rightarrow> bool \<times> Card" where
  "ForgetDeviceIdentity path w = Shred path w"

section \<open>Shape and round trip\<close>

lemma length_Sha256: "length (Sha256 d) = 32"
  by (simp add: Sha256_def bytes_be_def Let_def split: prod.splits)

lemma hex_lower: "n < 16 \<Longrightarrow> (CHR ''0'' \<le> kDigits ! n \<and> kDigits ! n \<le> CHR ''9'') \<or> (CHR ''a'' \<le> kDigits ! n \<and> kDigits ! n \<le> CHR ''f'')"
proof -
  have "\<forall>n \<in> set [0..<16]. (CHR ''0'' \<le> kDigits ! n \<and> kDigits ! n \<le> CHR ''9'') \<or> (CHR ''a'' \<le> kDigits ! n \<and> kDigits ! n \<le> CHR ''f'')"
    by code_simp
  then show "n < 16 \<Longrightarrow> ?thesis" by simp
qed

lemma ToHex_shape:
  "length (ToHex bs) = 2 * length bs \<and>
   list_all (\<lambda>c. (CHR ''0'' \<le> c \<and> c \<le> CHR ''9'') \<or> (CHR ''a'' \<le> c \<and> c \<le> CHR ''f'')) (ToHex bs)"
proof (induction bs)
  case (Cons c bs)
  have "drop_bit 4 (byte c) < 16" "byte c AND 0x0F < (16 :: nat)"
    using of_char_of [of "byte c"] take_bit_eq_mask [of 4 "byte c"]
    by (simp_all add: drop_bit_eq_div take_bit_eq_mod mask_eq_exp_minus_1 less_mult_imp_div_less)
  with Cons hex_lower show ?case by (simp add: ToHex_def)
qed (simp add: ToHex_def)

lemma Wear_shape: "IsDeviceIdentifier (Wear m)"
  using ToHex_shape [of "take 16 (Sha256 (kIdentitySalt @ [CHR 0x00] @ m))"]
  by (simp add: IsDeviceIdentifier_def Wear_def Sha256Hex_def kDeviceIdentifierLength_def kDeviceIdentifierPrefix_def
      kDeviceIdentifierHexChars_def length_Sha256)

lemma derived_shape: "dv_ok (DeriveDeviceIdentity seed) \<Longrightarrow> IsDeviceIdentifier (di_identifier (dv_value (DeriveDeviceIdentity seed)))"
  by (auto simp: DeriveDeviceIdentity_def dv_ok_def Wear_shape split: if_splits)

definition identity_document :: "DeviceIdentity \<Rightarrow> Value" where
  "identity_document i = VObject [(''client_device_identifier'', VString (di_identifier i)),
     (''source'', VString (IdentitySource_ToString (di_source i)))]"

lemma identity_render: "SerializeDeviceIdentity i = render (identity_document i)"
proof -
  have "Quote ''client_device_identifier'' = CHR 0x22 # ''client_device_identifier'' @ [CHR 0x22]"
    "Quote ''source'' = CHR 0x22 # ''source'' @ [CHR 0x22]"
    by code_simp+
  then show ?thesis by (simp add: SerializeDeviceIdentity_def identity_document_def)
qed

lemma identifier_usable:
  assumes "IsDeviceIdentifier s"
  shows "usable s"
proof -
  have "CHR 0x00 \<notin> set (take 3 s)" using assms
    by (auto simp: IsDeviceIdentifier_def kDeviceIdentifierPrefix_def numeral_3_eq_3)
  moreover have "CHR 0x00 \<notin> set (drop 3 s)"
    using assms by (auto simp: IsDeviceIdentifier_def kDeviceIdentifierPrefix_def list_all_iff less_eq_char_def numeral_3_eq_3)
  moreover have "s = take 3 s @ drop 3 s" by simp
  ultimately have "CHR 0x00 \<notin> set s" by (metis Un_iff set_append)
  with assms show ?thesis by (auto simp: usable_def IsDeviceIdentifier_def kDeviceIdentifierLength_def kDeviceIdentifierHexChars_def)
qed

definition known :: "DeviceIdentity \<Rightarrow> DerivedIdentity" where
  "known i = no_derived\<lparr>dv_value := i\<rparr>"

lemma read_identity_document:
  assumes "IsDeviceIdentifier (di_identifier i)"
  shows "read_identity (identity_document i) = known i"
proof -
  let ?v = "identity_document i"
  have "Find ?v ''client_device_identifier'' = Some (VString (di_identifier i))"
    "Find ?v ''source'' = Some (VString (IdentitySource_ToString (di_source i)))"
    by (simp_all add: Find_def identity_document_def)
  moreover have "usable (IdentitySource_ToString (di_source i))" by (cases "di_source i") (simp_all add: usable_def)
  moreover have "make_Reader ?v ''device identity record'' = reading ?v" by (simp add: identity_document_def)
  ultimately show ?thesis
    using Required_reading(1) identifier_usable [OF assms] assms
    by (cases "di_source i") (simp_all add: read_identity_def known_def no_derived_def kAllSources_def)
qed

interpretation identity_record: stored_record identity_document "\<lambda>i. IsDeviceIdentifier (di_identifier i)"
  read_identity known
  by unfold_locales (simp_all add: read_identity_document, simp add: identity_document_def kMaxDepth_def)

lemma identity_round_trip:
  assumes "IsDeviceIdentifier (di_identifier i)"
  shows "ParseDeviceIdentity (SerializeDeviceIdentity i) = known i"
  using identity_record.document_wf [OF assms] identity_record.decode_document [OF assms]
  by (simp add: ParseDeviceIdentity_def identity_render render_parses pr_ok_def)

lemma parsed_shape:
  "dv_ok (ParseDeviceIdentity t) \<Longrightarrow> IsDeviceIdentifier (di_identifier (dv_value (ParseDeviceIdentity t))) \<and>
    ParseDeviceIdentity t = known (dv_value (ParseDeviceIdentity t))"
  by (auto simp: ParseDeviceIdentity_def read_identity_def known_def no_derived_def dv_ok_def Let_def split: if_splits prod.splits)

section \<open>One identity for the life of the card\<close>

text \<open>A card that never says of a file that it is not there when it is; it may refuse anything else.\<close>

definition honest :: "CardAnswer \<Rightarrow> bool" where
  "honest a = (case a of Does \<Rightarrow> True | Refuses e \<Rightarrow> \<not> Absent e | TakesOnly _ e \<Rightarrow> \<not> Absent e)"

lemma read_loop_same: "read_loop chunk rest got w = (r, w') \<Longrightarrow> chunk > 0 \<Longrightarrow>
    same w w' \<and> (list_all honest (answers w) \<longrightarrow> list_all honest (answers w'))"
proof (induction chunk rest got w arbitrary: w' rule: read_loop.induct)
  case (1 chunk rest got w)
  obtain f w1 where w1: "ReadFails w = (f, w1)" by fastforce
  then have s: "same w w1" "list_all honest (answers w) \<longrightarrow> list_all honest (answers w1)"
    using ReadFails_effect [OF w1]
    by (auto simp: ReadFails_def next_answer_def split: list.splits prod.splits CardAnswer.splits)
  show ?case
  proof (cases "f \<or> rest = []")
    case True
    with "1.prems" w1 s show ?thesis by (subst (asm) read_loop.simps) (auto split: if_splits)
  next
    case False
    have "read_loop chunk rest got w = read_loop chunk (drop chunk rest) (got @ take chunk rest) w1"
      by (subst read_loop.simps) (use w1 False "1.prems"(2) in simp)
    with "1.prems"(1) have "read_loop chunk (drop chunk rest) (got @ take chunk rest) w1 = (r, w')" by metis
    then have "same w1 w' \<and> (list_all honest (answers w1) \<longrightarrow> list_all honest (answers w'))"
      using "1.IH" [OF w1 [symmetric] refl] False "1.prems"(2) by blast
    with s show ?thesis by (auto simp: same_def)
  qed
qed

lemma ReadFile_does:
  assumes run: "ReadFile path w = (r, w')"
  shows "same w w' \<and> (rr_ok r \<longrightarrow> (\<exists>f. files w path = Some f \<and> rr_contents r = data f)) \<and>
    (list_all honest (answers w) \<longrightarrow> list_all honest (answers w') \<and>
      (rr_error r = ReadError_kMissing \<longrightarrow> files w path = None))"
proof -
  obtain source w1 where o: "OpenForReading path w = (source, w1)" by fastforce
  note opened = OpenForReading_effect [OF o]
  have h: "list_all honest (answers w) \<longrightarrow> list_all honest (answers w1) \<and>
      (\<forall>e. source = Inl e \<longrightarrow> Absent e \<longrightarrow> files w path = None)"
    using o by (auto simp: OpenForReading_def next_answer_def honest_def
        split: list.splits CardAnswer.splits option.splits)
  show ?thesis
  proof (cases source)
    case (Inl e)
    with run o opened h show ?thesis by (auto simp: ReadFile_def rr_ok_def split: if_splits)
  next
    case (Inr d)
    obtain got failed w2 where l: "read_loop 512 d [] w1 = ((got, failed), w2)" by (metis prod.exhaust)
    have "same w w2" "list_all honest (answers w) \<longrightarrow> list_all honest (answers w2)"
      using read_loop_same [OF l] opened h by (auto simp: same_def)
    moreover have "got = d" if "\<not> failed" using read_loop_whole [of 512 d "[]" w1 got w2] l that by simp
    ultimately show ?thesis using run o Inr l opened
      by (cases failed) (auto simp: ReadFile_def rr_ok_def)
  qed
qed

text \<open>A card on which a boot finds \<open>i\<close>.\<close>

definition names :: "bytes \<Rightarrow> DeviceIdentity \<Rightarrow> (bytes \<rightharpoonup> File) \<Rightarrow> bool" where
  "names path i fs \<longleftrightarrow>
     (case recoverable path fs of None \<Rightarrow> False | Some f \<Rightarrow> on_card f \<and> ParseDeviceIdentity (data f) = known i)"

lemma known_ok [simp]: "dv_ok (known i)" "dv_value (known i) = i"
  by (simp_all add: known_def no_derived_def dv_ok_def)

lemma next_boot:
  assumes "names path i fs"
  shows "fst (LoadOrCreateDeviceIdentity path seed (after_cut torn fs)) = no_identity\<lparr>id_value := i\<rparr>"
proof -
  let ?w = "after_cut torn fs"
  have h: "answers ?w = []" by (simp add: after_cut_def)
  obtain f where f: "recoverable path fs = Some f" "on_card f" "ParseDeviceIdentity (data f) = known i"
    using assms by (auto simp: names_def split: option.splits)
  have r: "recoverable path (files ?w) = Some f"
    using recoverable_cut(1) [OF f(1,2)] by (simp add: after_cut_def)
  show ?thesis
  proof (cases "files ?w path")
    case (Some g)
    with r f show ?thesis
      by (simp add: LoadOrCreateDeviceIdentity_def Identity_ReadRecord_def ReadFile_healthy [OF h] rr_ok_def
          fall_back_def recoverable_def)
  next
    case None
    with r f have "files ?w (PreviousPathFor path) = Some f" by (simp add: recoverable_def)
    then have previous: "Identity_ReadRecord (PreviousPathFor path) ?w = ((known i, ReadError_kNone), ?w)"
      using f by (simp add: Identity_ReadRecord_def ReadFile_healthy [OF h] rr_ok_def)
    obtain e where missing: "Identity_ReadRecord path ?w = ((e, ReadError_kMissing), ?w)" "\<not> dv_ok e"
      using None by (simp add: Identity_ReadRecord_def ReadFile_healthy [OF h] rr_ok_def dv_ok_def)
    obtain wr w2 where "WriteAtomically path (SerializeDeviceIdentity i) ?w = (wr, w2)" by fastforce
    with previous missing have "fall_back path e ReadError_kMissing ?w = ((known i, ReadError_kNone), w2)"
      by (simp add: fall_back_def)
    with missing show ?thesis by (simp add: LoadOrCreateDeviceIdentity_def)
  qed
qed

lemma written_names:
  assumes run: "WriteAtomically path (SerializeDeviceIdentity i) w = (r, w')" and path: "file_path path" "file_sync w"
    and i: "IsDeviceIdentifier (di_identifier i)"
  shows "leaves (\<lambda>fs. recoverable path fs = recoverable path (files w) \<or> names path i fs) w w' \<and>
    (wr_ok r \<longrightarrow> names path i (files w'))"
proof -
  let ?new = "Some \<lparr>data = SerializeDeviceIdentity i, on_card = True\<rparr>"
  have c: "commits path ?new w (wr_ok r) w'"
    using one_piece.WriteStaged_commits [OF run [unfolded WriteAtomically_def] path(1)] path(2) by simp
  have new: "names path i fs" if "recoverable path fs = ?new" for fs
    using that identity_round_trip [OF i] by (simp add: names_def)
  have "leaves (\<lambda>fs. recoverable path fs = recoverable path (files w) \<or> names path i fs) w w'"
    by (rule leaves_mono [OF conjunct1 [OF c [unfolded commits_def]]]) (use new in auto)
  moreover have "names path i (files w')" if "wr_ok r"
    using c that new by (simp add: commits_def recoverable_def)
  ultimately show ?thesis by blast
qed

lemma names_stored:
  assumes "recoverable path (files w) = Some f" "on_card f" "dv_ok (ParseDeviceIdentity (data f))"
  shows "names path (dv_value (ParseDeviceIdentity (data f))) (files w)"
  using assms parsed_shape [of "data f"] by (simp add: names_def)

lemma kept_on_the_way:
  assumes "leaves (\<lambda>fs. recoverable path fs = recoverable path (files w) \<or> names path i fs) w w'" "names path i (files w)"
    "fs \<in> insert (files w') (set (seen w') - set (seen w))"
  shows "names path i fs"
proof -
  have "recoverable path fs = recoverable path (files w) \<or> names path i fs"
    using leaves_seen [OF assms(1)] leaves_files [OF assms(1)] assms(3) by blast
  with assms(2) show ?thesis by (auto simp: names_def)
qed

text \<open>C25: A console that has an identity keeps it, on a card whose sync hook is installed and that never answers of a
  file that is there that it is not (\<open>honest\<close>): whatever a boot's seed would derive, whatever else the card
  refuses to read or to write, and whenever the power is cut, the boot mints no other, answers with that one or
  with an error, and every boot after it finds it. It also relies on a record left under its previous name only,
  by an interrupted write, being readable: C26 is what happens otherwise. Without the hook nothing is promised
  of a power cut.\<close>

theorem a_console_keeps_its_identity:
  assumes run: "LoadOrCreateDeviceIdentity path seed w = (r, w')" and path: "file_path path" "file_sync w"
    and stored: "recoverable path (files w) = Some f" "on_card f" "dv_ok (ParseDeviceIdentity (data f))"
    and card: "list_all honest (answers w)"
    and previous: "files w path = None \<Longrightarrow> rr_ok (fst (ReadFile (PreviousPathFor path) (snd (ReadFile path w))))"
    and at: "fs \<in> insert (files w') (set (seen w') - set (seen w))"
  shows "let i = dv_value (ParseDeviceIdentity (data f)) in
    (if id_ok r then id_value r = i else True) \<and> \<not> id_created r \<and>
    fst (LoadOrCreateDeviceIdentity path seed' (after_cut torn fs)) = no_identity\<lparr>id_value := i\<rparr>"
proof -
  obtain i where i: "IsDeviceIdentifier (di_identifier i)" "ParseDeviceIdentity (data f) = known i"
    using parsed_shape [OF stored(3)] by blast
  then have names: "names path i (files w)" using names_stored [OF stored] by simp
  obtain got w1 where read: "ReadFile path w = (got, w1)" by fastforce
  note does = ReadFile_does [OF read]
  obtain got2 w2 where read2: "ReadFile (PreviousPathFor path) w1 = (got2, w2)" by fastforce
  note does2 = ReadFile_does [OF read2]
  consider (ok) "rr_ok got" | (unreadable) "rr_error got = ReadError_kUnreadable" | (missing) "rr_error got = ReadError_kMissing"
    by (cases "rr_error got") (auto simp: rr_ok_def)
  then have "(if id_ok r then id_value r = i else True) \<and> \<not> id_created r \<and>
      leaves (\<lambda>fs. recoverable path fs = recoverable path (files w) \<or> names path i fs) w w'"
  proof cases
    case ok
    with does obtain g where "files w path = Some g" "rr_contents got = data g" by blast
    with stored(1) have "rr_contents got = data f" by (simp add: recoverable_def)
    with run read ok i(2) have "r = no_identity\<lparr>id_value := i\<rparr>" "w' = w1"
      by (simp_all add: LoadOrCreateDeviceIdentity_def Identity_ReadRecord_def fall_back_def split: prod.splits)
    with does show ?thesis by (auto simp: no_identity_def intro: same_leaves)
  next
    case unreadable
    with run read have "\<not> id_ok r" "\<not> id_created r" "w' = w1"
      by (auto simp: LoadOrCreateDeviceIdentity_def Identity_ReadRecord_def fall_back_def rr_ok_def dv_ok_def
          id_ok_def no_identity_def)
    with does show ?thesis by (auto intro: same_leaves)
  next
    case missing
    with does card have none: "files w path = None" by blast
    with previous read read2 have "rr_ok got2" by simp
    with does does2 stored(1) none have "rr_contents got2 = data f"
      by (auto simp: recoverable_def same_def)
    with read2 \<open>rr_ok got2\<close> i(2)
    have prev: "Identity_ReadRecord (PreviousPathFor path) w1 = ((known i, rr_error got2), w2)"
      by (simp add: Identity_ReadRecord_def)
    obtain e where e: "Identity_ReadRecord path w = ((e, ReadError_kMissing), w1)" "\<not> dv_ok e"
      using read missing by (simp add: Identity_ReadRecord_def rr_ok_def dv_ok_def)
    obtain wr w3 where wr: "WriteAtomically path (SerializeDeviceIdentity i) w2 = (wr, w3)" by fastforce
    have "r = no_identity\<lparr>id_value := i\<rparr>" "w' = w3"
      using run e prev wr by (simp_all add: LoadOrCreateDeviceIdentity_def fall_back_def)
    moreover have "same w w2" using does does2 by (simp add: same_def)
    moreover from this have "leaves (\<lambda>fs. recoverable path fs = recoverable path (files w) \<or> names path i fs) w2 w3"
      using written_names [OF wr path(1) _ i(1)] path(2) by (simp add: same_def)
    ultimately show ?thesis
      by (auto simp: no_identity_def intro: leaves_trans [OF same_leaves])
  qed
  with kept_on_the_way [OF _ names at] next_boot [of path i fs seed' torn] show ?thesis by (simp add: Let_def i(2))
qed

lemma Identity_ReadRecord_same: "Identity_ReadRecord path w = (r, w') \<Longrightarrow> same w w'"
  using ReadFile_does by (auto simp: Identity_ReadRecord_def split: prod.splits)

lemma fall_back_same:
  assumes "fall_back path existing how w = ((existing2, how2), w')" "\<not> dv_ok existing2"
  shows "same w w'"
proof -
  obtain p h w1 where p: "Identity_ReadRecord (PreviousPathFor path) w = ((p, h), w1)" by (metis prod.exhaust)
  with assms Identity_ReadRecord_same [OF p] show ?thesis
    by (auto simp: fall_back_def same_def split: if_splits prod.splits)
qed

text \<open>A minted identity is the one every later boot finds, and has the shape the server is sent.\<close>

theorem a_minted_identity_is_kept:
  assumes run: "LoadOrCreateDeviceIdentity path seed w = (r, w')" and path: "file_path path" "file_sync w"
    and created: "id_created r"
  shows "id_value r = dv_value (DeriveDeviceIdentity seed) \<and> IsDeviceIdentifier (di_identifier (id_value r)) \<and>
    fst (LoadOrCreateDeviceIdentity path seed' (after_cut torn (files w'))) = no_identity\<lparr>id_value := id_value r\<rparr>"
proof -
  let ?fresh = "DeriveDeviceIdentity seed"
  obtain existing how w1 where a: "Identity_ReadRecord path w = ((existing, how), w1)" by (metis prod.exhaust)
  obtain existing2 how2 w2 where b: "fall_back path existing how w1 = ((existing2, how2), w2)" by (metis prod.exhaust)
  obtain wr w3 where c: "WriteAtomically path (SerializeDeviceIdentity (dv_value ?fresh)) w2 = (wr, w3)" by fastforce
  from run a b c created have m: "\<not> dv_ok existing2" "dv_ok ?fresh" "wr_ok wr" "w' = w3" "id_value r = dv_value ?fresh"
    by (auto simp: LoadOrCreateDeviceIdentity_def mint_def no_identity_def Let_def split: if_splits)
  have "same w w2" using Identity_ReadRecord_same [OF a] fall_back_same [OF b m(1)] by (simp add: same_def)
  with path have "file_sync w2" by (simp add: same_def)
  then have "names path (dv_value ?fresh) (files w')"
    using written_names [OF c path(1) _ derived_shape [OF m(2)]] m by blast
  with next_boot [of path "dv_value ?fresh" "files w'" seed' torn] derived_shape [OF m(2)] m(5) show ?thesis by simp
qed

definition old_identity :: DeviceIdentity where
  "old_identity = \<lparr>di_identifier = ''nx-'' @ replicate 32 (CHR ''0''), di_source = IdentitySource_kDerived\<rparr>"

definition interrupted_card :: Card where
  "interrupted_card = \<lparr>files = [PreviousPathFor ''/a'' \<mapsto> \<lparr>data = SerializeDeviceIdentity old_identity, on_card = True\<rparr>],
     seen = [], answers = [Does, Refuses (Errno_other 5)], rename_replaces = False, file_sync = True\<rparr>"

definition random_seed :: IdentitySeed where
  "random_seed = \<lparr>sd_stable = [], sd_entropy = replicate 16 (CHR ''e'')\<rparr>"

lemma old_identity_shape: "IsDeviceIdentifier (di_identifier old_identity)"
  by code_simp

text \<open>C26: With a sync hook installed, let the record be under its previous name only, where an interrupted write
  leaves it, and let the card
  refuse to open it there, for a reason other than its being absent, and answer everything after that. The boot
  takes this for having no identity: whenever the seed derives one, it mints it over the one the console has, and
  every boot after it answers with the new one. \<open>device_identity.hpp\<close> says a record that cannot be read never
  leads to that.\<close>

theorem an_unreadable_previous_is_minted_over:
  assumes old: "names path old (files w)" "files w path = None" and path: "file_path path" "file_sync w"
    and card: "answers w = [Does, Refuses e]" "\<not> Absent e"
    and seed: "dv_ok (DeriveDeviceIdentity seed)"
    and run: "LoadOrCreateDeviceIdentity path seed w = (r, w')"
  shows "id_created r \<and> id_value r = dv_value (DeriveDeviceIdentity seed) \<and>
    fst (LoadOrCreateDeviceIdentity path seed' (after_cut torn (files w'))) =
      no_identity\<lparr>id_value := dv_value (DeriveDeviceIdentity seed)\<rparr>"
proof -
  let ?fresh = "DeriveDeviceIdentity seed" and ?w1 = "w\<lparr>answers := [Refuses e]\<rparr>" and ?w2 = "w\<lparr>answers := []\<rparr>"
  have "ReadFile path w = (\<lparr>rr_contents = [], rr_error = ReadError_kMissing,
      rr_message = Describe_path path ''does not exist''\<rparr>, ?w1)"
    using old(2) card(1) by (simp add: ReadFile_def OpenForReading_def next_answer_def)
  then obtain d where first: "Identity_ReadRecord path w = ((d, ReadError_kMissing), ?w1)" "\<not> dv_ok d"
    by (simp add: Identity_ReadRecord_def rr_ok_def dv_ok_def)
  have "ReadFile (PreviousPathFor path) ?w1 = (\<lparr>rr_contents = [], rr_error = ReadError_kUnreadable,
      rr_message = Describe_path (PreviousPathFor path) ''could not be opened''\<rparr>, ?w2)"
    using card(2) by (simp add: ReadFile_def OpenForReading_def next_answer_def)
  then have "fall_back path d ReadError_kMissing ?w1 = ((d, ReadError_kMissing), ?w2)"
    using first(2) by (simp add: fall_back_def Identity_ReadRecord_def rr_ok_def dv_ok_def)
  with first have all: "LoadOrCreateDeviceIdentity path seed w = mint path seed ?w2"
    by (simp add: LoadOrCreateDeviceIdentity_def)
  obtain wr w3 where wr: "WriteAtomically path (SerializeDeviceIdentity (dv_value ?fresh)) ?w2 = (wr, w3)"
    by fastforce
  have ok: "wr_ok wr"
    using one_piece.write_then_read [OF _ path(1) wr [unfolded WriteAtomically_def]] by simp
  have new: "names path (dv_value ?fresh) (files w3)"
    using written_names [OF wr path(1) _ derived_shape [OF seed]] ok path(2) by simp
  have "mint path seed ?w2 = (no_identity\<lparr>id_value := dv_value ?fresh, id_created := True\<rparr>, w3)"
    using seed wr ok by (simp add: mint_def)
  with run all have "r = no_identity\<lparr>id_value := dv_value ?fresh, id_created := True\<rparr>" "w' = w3" by simp_all
  with next_boot [OF new] show ?thesis by simp
qed

theorem an_unreadable_previous_is_minted_over_witness:
  "names ''/a'' old_identity (files interrupted_card) \<and>
   fst (LoadOrCreateDeviceIdentity ''/a'' random_seed (after_cut (\<lambda>_ _. ''torn'')
      (files (snd (LoadOrCreateDeviceIdentity ''/a'' random_seed interrupted_card))))) =
     no_identity\<lparr>id_value := dv_value (DeriveDeviceIdentity random_seed)\<rparr> \<and>
   dv_value (DeriveDeviceIdentity random_seed) \<noteq> old_identity"
proof -
  have old: "names ''/a'' old_identity (files interrupted_card)" "files interrupted_card ''/a'' = None"
    by (simp_all add: names_def recoverable_def interrupted_card_def PreviousPathFor_def
        identity_round_trip [OF old_identity_shape])
  have fresh: "dv_ok (DeriveDeviceIdentity random_seed)"
    "di_source (dv_value (DeriveDeviceIdentity random_seed)) = IdentitySource_kRandom"
    by (simp_all add: DeriveDeviceIdentity_def random_seed_def kMinimumStableChars_def kMinimumEntropyBytes_def
        no_derived_def dv_ok_def)
  then have "dv_value (DeriveDeviceIdentity random_seed) \<noteq> old_identity" by (auto simp: old_identity_def)
  with old an_unreadable_previous_is_minted_over [OF old sample_path(1) _ _ _ fresh(1) surjective_pairing,
      of "Errno_other 5" random_seed "\<lambda>_ _. ''torn''"]
  show ?thesis by (simp add: interrupted_card_def)
qed

theorem a_console_keeps_its_identity_witness:
  "fst (LoadOrCreateDeviceIdentity ''/a'' random_seed (after_cut (\<lambda>_ _. ''torn'')
      (files (snd (LoadOrCreateDeviceIdentity ''/a'' random_seed (interrupted_card\<lparr>answers := []\<rparr>)))))) =
    no_identity\<lparr>id_value := old_identity\<rparr>"
proof -
  let ?w = "interrupted_card\<lparr>answers := []\<rparr>" and ?f = "\<lparr>data = SerializeDeviceIdentity old_identity, on_card = True\<rparr>"
  have h: "answers ?w = []" by simp
  have f: "recoverable ''/a'' (files ?w) = Some ?f" "files ?w ''/a'' = None" "files ?w (PreviousPathFor ''/a'') = Some ?f"
    by (simp_all add: recoverable_def interrupted_card_def PreviousPathFor_def)
  have p: "ParseDeviceIdentity (data ?f) = known old_identity"
    by (simp add: identity_round_trip [OF old_identity_shape])
  have "rr_ok (fst (ReadFile (PreviousPathFor ''/a'') (snd (ReadFile ''/a'' ?w))))"
    using f by (simp add: ReadFile_healthy [OF h] rr_ok_def)
  then show ?thesis
    using a_console_keeps_its_identity [OF surjective_pairing sample_path(1) _ f(1) _ _ _ _ insertI1, of random_seed
        random_seed "\<lambda>_ _. ''torn''"] p
    by (simp add: interrupted_card_def Let_def)
qed

end
