(* ===== verification/Registration.thy ===== *)
theory Registration
  imports AuthGate SyncNegotiate
begin

text \<open>
  \<open>core/src/device_registration.cpp\<close>: the device every call is scoped by, confirmed by its cached id or found again
  by the identifier it was paired with.
\<close>

section \<open>Device records\<close>

record DeviceRecord =
  dr_id :: bytes
  dr_name :: bytes
  dr_platform :: bytes
  dr_client :: bytes
  dr_client_device_identifier :: bytes
  dr_sync_enabled :: bool

definition no_device :: DeviceRecord where
  "no_device = \<lparr>dr_id = [], dr_name = [], dr_platform = [], dr_client = [], dr_client_device_identifier = [],
     dr_sync_enabled = True\<rparr>"

definition Device_ReadText :: "Value \<Rightarrow> bytes \<Rightarrow> Error + bytes" where
  "Device_ReadText object key =
     (case Find object key of
        None \<Rightarrow> Inl (no_error\<lparr>field := key, message := ''is missing''\<rparr>)
      | Some found \<Rightarrow>
          if Value_type found = kNull then Inr []
          else if Value_type found \<noteq> kString
          then Inl (no_error\<lparr>field := key,
            message := ''expected a string or null, got '' @ Type_ToString (Value_type found)\<rparr>)
          else if CHR 0x00 \<in> set (string_of found)
          then Inl (no_error\<lparr>field := key, message := ''contains an embedded NUL''\<rparr>)
          else Inr (string_of found))"

definition ReadDevice :: "Value \<Rightarrow> DeviceRecord Parsed" where
  "ReadDevice v =
     (let reader = make_Reader v ''device record'';
          (identifier, reader) = Required_string ''id'' reader;
          (enabled, reader) = Required_bool ''sync_enabled'' reader
      in
      if \<not> Reader_ok reader then \<lparr>parsed_value = no_device, parsed_error = rd_error reader\<rparr>
      else case Device_ReadText v ''name'' of
        Inl e \<Rightarrow> \<lparr>parsed_value = no_device, parsed_error = e\<rparr>
      | Inr name \<Rightarrow>
        (case Device_ReadText v ''platform'' of
          Inl e \<Rightarrow> \<lparr>parsed_value = no_device, parsed_error = e\<rparr>
        | Inr platform \<Rightarrow>
          (case Device_ReadText v ''client'' of
            Inl e \<Rightarrow> \<lparr>parsed_value = no_device, parsed_error = e\<rparr>
          | Inr client \<Rightarrow>
            (case Device_ReadText v ''client_device_identifier'' of
              Inl e \<Rightarrow> \<lparr>parsed_value = no_device, parsed_error = e\<rparr>
            | Inr own \<Rightarrow>
                \<lparr>parsed_value = \<lparr>dr_id = into [] identifier, dr_name = name, dr_platform = platform, dr_client = client,
                   dr_client_device_identifier = own, dr_sync_enabled = into True enabled\<rparr>,
                 parsed_error = no_error\<rparr>))))"

definition ParseDeviceRecord :: "bytes \<Rightarrow> DeviceRecord Parsed" where
  "ParseDeviceRecord content =
     (let document = Parse content in
      if \<not> pr_ok document then \<lparr>parsed_value = no_device, parsed_error = pr_error document\<rparr>
      else ReadDevice (pr_value document))"

text \<open>The callbacks of the two lists.\<close>

definition keep_device :: "DeviceRecord list each" where
  "keep_device element index devices =
     (let device = ReadDevice element in
      (parsed_error device, if parsed_ok device then devices @ [parsed_value device] else devices))"

definition ParseDeviceList :: "bytes \<Rightarrow> DeviceRecord list Parsed" where
  "ParseDeviceList content =
     (let (devices, document) = ParseEach None content [] keep_device ''device list'' [] in
      if \<not> pr_ok document then \<lparr>parsed_value = [], parsed_error = pr_error document\<rparr>
      else \<lparr>parsed_value = devices, parsed_error = no_error\<rparr>)"

record DeviceSearch =
  ds_device :: "DeviceRecord option"
  ds_matches :: nat

definition no_search :: DeviceSearch where
  "no_search = \<lparr>ds_device = None, ds_matches = 0\<rparr>"

definition search_device :: "bytes \<Rightarrow> DeviceSearch each" where
  "search_device identifier element index search =
     (let device = ReadDevice element in
      if \<not> parsed_ok device then (parsed_error device, search)
      else
        (no_error,
         if identifier \<noteq> [] \<and> dr_client_device_identifier (parsed_value device) = identifier then
           let search = search\<lparr>ds_matches := ds_matches search + 1\<rparr> in
           if ds_matches search = 1 then search\<lparr>ds_device := Some (parsed_value device)\<rparr> else search
         else search))"

definition FindInDeviceList :: "bytes \<Rightarrow> bytes \<Rightarrow> DeviceSearch Parsed" where
  "FindInDeviceList content identifier =
     (let (search, document) = ParseEach None content [] (search_device identifier) ''device list'' no_search in
      if \<not> pr_ok document then \<lparr>parsed_value = no_search, parsed_error = pr_error document\<rparr>
      else \<lparr>parsed_value = search, parsed_error = no_error\<rparr>)"

text \<open>The loop of \<open>FindByIdentifier\<close>: \<open>None\<close> for its early return.\<close>

fun find_only :: "bytes \<Rightarrow> DeviceRecord option \<Rightarrow> DeviceRecord list \<Rightarrow> DeviceRecord option" where
  "find_only identifier found [] = found"
| "find_only identifier found (d # ds) =
     (if dr_client_device_identifier d \<noteq> identifier then find_only identifier found ds
      else if found \<noteq> None then None
      else find_only identifier (Some d) ds)"

definition FindByIdentifier :: "DeviceRecord list \<Rightarrow> bytes \<Rightarrow> DeviceRecord option" where
  "FindByIdentifier devices identifier = (if identifier = [] then None else find_only identifier None devices)"

section \<open>States and errors\<close>

datatype RegistrationState = RegistrationState_kUnpaired | RegistrationState_kUnregistered
  | RegistrationState_kRegistered

fun RegistrationState_ToString :: "RegistrationState \<Rightarrow> bytes" where
  "RegistrationState_ToString RegistrationState_kUnpaired = ''unpaired''"
| "RegistrationState_ToString RegistrationState_kUnregistered = ''unregistered''"
| "RegistrationState_ToString RegistrationState_kRegistered = ''registered''"

definition StateOf :: "StoredToken \<Rightarrow> RegistrationState" where
  "StateOf token =
     (if access_token token = [] \<or> server_url token = [] then RegistrationState_kUnpaired
      else if device_id token = [] then RegistrationState_kUnregistered
      else RegistrationState_kRegistered)"

datatype RegistrationError = Reg_kNone | Reg_kNotRegistered | Reg_kUnauthorized | Reg_kForbidden | Reg_kNoSuchDevice
  | Reg_kAmbiguous | Reg_kSyncDisabled | Reg_kUnreachable | Reg_kServerError | Reg_kMalformed

fun RegistrationError_ToString :: "RegistrationError \<Rightarrow> bytes" where
  "RegistrationError_ToString Reg_kNone = ''none''"
| "RegistrationError_ToString Reg_kNotRegistered = ''not_registered''"
| "RegistrationError_ToString Reg_kUnauthorized = ''unauthorized''"
| "RegistrationError_ToString Reg_kForbidden = ''forbidden''"
| "RegistrationError_ToString Reg_kNoSuchDevice = ''no_such_device''"
| "RegistrationError_ToString Reg_kAmbiguous = ''ambiguous''"
| "RegistrationError_ToString Reg_kSyncDisabled = ''sync_disabled''"
| "RegistrationError_ToString Reg_kUnreachable = ''unreachable''"
| "RegistrationError_ToString Reg_kServerError = ''server_error''"
| "RegistrationError_ToString Reg_kMalformed = ''malformed''"

definition Registration_ShouldRetry :: "RegistrationError \<Rightarrow> bool" where
  "Registration_ShouldRetry e \<longleftrightarrow> e = Reg_kUnreachable \<or> e = Reg_kServerError"

definition Registration_NeedsPairing :: "RegistrationError \<Rightarrow> bool" where
  "Registration_NeedsPairing e \<longleftrightarrow> e = Reg_kNotRegistered \<or> e = Reg_kUnauthorized \<or> e = Reg_kForbidden \<or> e = Reg_kNoSuchDevice"

definition Registration_AnswerOf :: "RegistrationError \<Rightarrow> AuthAnswer" where
  "Registration_AnswerOf e =
     (case e of Reg_kUnauthorized \<Rightarrow> Answer_kRejected
      | Reg_kForbidden \<Rightarrow> Answer_kForbidden
      | Reg_kNone \<Rightarrow> Answer_kAccepted
      | Reg_kSyncDisabled \<Rightarrow> Answer_kAccepted
      | Reg_kAmbiguous \<Rightarrow> Answer_kAccepted
      | _ \<Rightarrow> Answer_kSilent)"

record Registration =
  rg_device :: DeviceRecord
  rg_error :: RegistrationError
  rg_message :: bytes

definition rg_ok :: "Registration \<Rightarrow> bool" where
  "rg_ok r \<longleftrightarrow> rg_error r = Reg_kNone"

definition Registration_Fail :: "RegistrationError \<Rightarrow> bytes \<Rightarrow> Registration" where
  "Registration_Fail e why = \<lparr>rg_device = no_device, rg_error = e, rg_message = why\<rparr>"

section \<open>The calls\<close>

definition kDevicesPath :: bytes where "kDevicesPath = ''/api/devices''"

definition AuthedGet :: "bytes \<Rightarrow> bytes \<Rightarrow> int \<Rightarrow> Request" where
  "AuthedGet url credential timeout = (new_Request Method_kGet url)\<lparr>
     req_headers := [\<lparr>h_name = ''Accept'', h_value = ''application/json''\<rparr>,
       \<lparr>h_name = ''Authorization'', h_value = ''Bearer '' @ credential\<rparr>], req_timeout := timeout\<rparr>"

definition Refused_registration :: "HttpResult \<Rightarrow> bytes \<Rightarrow> Registration option" where
  "Refused_registration result what =
     (let code = status (response result) in
      if \<not> http_ok result
      then Some (Registration_Fail Reg_kUnreachable (what @ '' did not complete: '' @ HttpError_ToString (http_error result)))
      else if code = 401
      then Some (Registration_Fail Reg_kUnauthorized (what @ '' was rejected: HTTP 401; the token has been revoked''))
      else if code = 403
      then Some (Registration_Fail Reg_kForbidden
             (what @ '' was rejected: HTTP 403; this pairing was not granted the scopes it needs''))
      else if TransientStatus code
      then Some (Registration_Fail Reg_kServerError
             (what @ '': HTTP '' @ to_string code @ (if code = 429 then ''; the server is rate limiting'' else [])))
      else if \<not> successful result
      then Some (Registration_Fail Reg_kMalformed (what @ '' was refused: HTTP '' @ to_string code))
      else None)"

definition Accept_device :: "DeviceRecord \<Rightarrow> Registration" where
  "Accept_device device =
     (if \<not> dr_sync_enabled device
      then Registration_Fail Reg_kSyncDisabled ''sync is turned off for this device in RomM; turn it back on there''
      else \<lparr>rg_device = device, rg_error = Reg_kNone, rg_message = []\<rparr>)"

text \<open>What an answer about one device comes to.\<close>

definition confirmed :: "StoredToken \<Rightarrow> HttpResult \<Rightarrow> Registration" where
  "confirmed token result =
     (if http_ok result \<and> status (response result) = 404
      then Registration_Fail Reg_kNoSuchDevice ''the device lookup: the server has no such device (HTTP 404)''
      else case Refused_registration result ''the device lookup'' of
        Some refused \<Rightarrow> refused
      | None \<Rightarrow>
          let parsed = ParseDeviceRecord (body (response result)) in
          if \<not> parsed_ok parsed
          then Registration_Fail Reg_kMalformed (''device response: '' @ Describe (parsed_error parsed))
          else if dr_id (parsed_value parsed) \<noteq> device_id token
          then Registration_Fail Reg_kMalformed ''the server answered about a different device than the one asked about''
          else Accept_device (parsed_value parsed))"

definition ConfirmRegistration ::
  "'n Host \<Rightarrow> StoredToken \<Rightarrow> int \<Rightarrow> 'n World \<Rightarrow> Registration \<times> 'n World" where
  "ConfirmRegistration host token timeout w =
     (if StateOf token = RegistrationState_kUnpaired
      then (Registration_Fail Reg_kNotRegistered ''this console is not paired'', w)
      else if device_id token = []
      then (Registration_Fail Reg_kNotRegistered
              ''the stored token names no device; this console is paired but not registered'', w)
      else if \<not> IsUrlPathSegment (device_id token)
      then (Registration_Fail Reg_kMalformed ''the stored device id is not a value that can be put in a URL'', w)
      else
        let (result, w) = Send host (AuthedGet (JoinUrl (server_url token) (kDevicesPath @ ''/'' @ device_id token))
              (access_token token) timeout) w
        in (confirmed token result, w))"

text \<open>What an answer that lists the devices comes to.\<close>

definition searched :: "bytes \<Rightarrow> HttpResult \<Rightarrow> Registration" where
  "searched identifier result =
     (case Refused_registration result ''the device list'' of
        Some refused \<Rightarrow> refused
      | None \<Rightarrow>
          let parsed = FindInDeviceList (body (response result)) identifier; search = parsed_value parsed in
          if \<not> parsed_ok parsed
          then Registration_Fail Reg_kMalformed (''device list: '' @ Describe (parsed_error parsed))
          else if ds_matches search = 1 then Accept_device (the (ds_device search))
          else if ds_matches search > 1
          then Registration_Fail Reg_kAmbiguous
                 (''this server has '' @ to_string (int (ds_matches search)) @
                  '' devices for this console; remove the extra ones in RomM'')
          else Registration_Fail Reg_kNoSuchDevice ''no device on this server belongs to this console'')"

definition FindRegistration ::
  "'n Host \<Rightarrow> StoredToken \<Rightarrow> bytes \<Rightarrow> int \<Rightarrow> 'n World \<Rightarrow> Registration \<times> 'n World" where
  "FindRegistration host token identifier timeout w =
     (if StateOf token = RegistrationState_kUnpaired
      then (Registration_Fail Reg_kNotRegistered ''this console is not paired'', w)
      else if identifier = []
      then (Registration_Fail Reg_kNotRegistered
              ''no client device identifier was derived, so no device can be found'', w)
      else
        let (result, w) = Send host (AuthedGet (JoinUrl (server_url token) kDevicesPath) (access_token token) timeout) w
        in (searched identifier result, w))"

definition ResolveRegistration ::
  "'n Host \<Rightarrow> StoredToken \<Rightarrow> bytes \<Rightarrow> int \<Rightarrow> 'n World \<Rightarrow> Registration \<times> 'n World" where
  "ResolveRegistration host token identifier timeout w =
     (let (first, w) = ConfirmRegistration host token timeout w in
      if rg_ok first \<or> (rg_error first \<noteq> Reg_kNotRegistered \<and> rg_error first \<noteq> Reg_kNoSuchDevice) then (first, w)
      else
        let (found, w) = FindRegistration host token identifier timeout w in
        (if \<not> rg_ok found \<and> rg_error found \<noteq> rg_error first
         then found\<lparr>rg_message := rg_message found @ '' (after '' @ rg_message first @ '')''\<rparr>
         else found, w))"

text \<open>The store's answer, the token the caller is left with, and the card.\<close>

definition CacheDeviceId ::
  "bytes \<Rightarrow> StoredToken \<Rightarrow> Registration \<Rightarrow> Card \<Rightarrow> (StoreResult \<times> StoredToken) \<times> Card" where
  "CacheDeviceId path token registration w =
     (if \<not> rg_ok registration
      then ((\<lparr>sr_error = StoreError_kUnusableToken,
              sr_message = path @ '': refusing to cache a device id that was never confirmed''\<rparr>, token), w)
      else if device_id token = dr_id (rg_device registration)
      then ((\<lparr>sr_error = StoreError_kNone, sr_message = []\<rparr>, token), w)
      else
        let updated = token\<lparr>device_id := dr_id (rg_device registration)\<rparr>;
            (written, w) = SaveToken path updated w
        in ((written, if sr_error written = StoreError_kNone then token\<lparr>device_id := dr_id (rg_device registration)\<rparr>
                      else token), w))"

section \<open>Two callbacks over one list\<close>

text \<open>Callbacks that refuse the same elements and keep their states related read a document alike.\<close>

definition alike :: "('a \<Rightarrow> 'b \<Rightarrow> bool) \<Rightarrow> 'a each \<Rightarrow> 'b each \<Rightarrow> bool" where
  "alike R f g \<longleftrightarrow> (\<forall>v i a b. R a b \<longrightarrow>
     (if error_ok (fst (g v i b)) then error_ok (fst (f v i a)) else fst (f v i a) = fst (g v i b)) \<and>
     R (snd (f v i a)) (snd (g v i b)))"

definition same_run :: "('a \<Rightarrow> 'b \<Rightarrow> bool) \<Rightarrow> 'a \<times> 'c \<Rightarrow> 'b \<times> 'c \<Rightarrow> bool" where
  "same_run R x y \<longleftrightarrow> R (fst x) (fst y) \<and> snd x = snd y"

lemma same_run_pair [simp]: "same_run R (a, r) (b, q) \<longleftrightarrow> R a b \<and> r = q"
  by (simp add: same_run_def)

lemma each_items_alike:
  "alike R f g \<Longrightarrow> R a b \<Longrightarrow>
     same_run R (each_items keep f depth index a s) (each_items keep g depth index b s)"
proof (induction keep f depth index a s arbitrary: b rule: each_items.induct)
  case (1 keep f depth index a s)
  show ?case
  proof (cases "ParseValue keep (depth + 1) (SkipWhitespace s)")
    case (Inl e)
    with "1.prems" show ?thesis by (simp add: each_items.simps [of keep _ depth index _ s])
  next
    case (Inr p)
    obtain v s1 where p: "p = (v, s1)" by fastforce
    from "1.prems" have step: "if error_ok (fst (g v index b)) then error_ok (fst (f v index a))
        else fst (f v index a) = fst (g v index b)" "R (snd (f v index a)) (snd (g v index b))"
      by (simp_all add: alike_def)
    note run = each_items.simps [of keep f depth index a s] each_items.simps [of keep g depth index b s] Inr p
    consider (refused) "\<not> error_ok (fst (g v index b))" | (nothing) "error_ok (fst (g v index b))" "SkipWhitespace s1 = []"
      | (more) t where "error_ok (fst (g v index b))" "SkipWhitespace s1 = CHR '','' # t"
      | (last) c t where "error_ok (fst (g v index b))" "SkipWhitespace s1 = c # t" "c \<noteq> CHR '',''"
      by (cases "error_ok (fst (g v index b))"; cases "SkipWhitespace s1"; cases "hd (SkipWhitespace s1) = CHR '',''") auto
    then show ?thesis
    proof cases
      case more
      have "same_run R (each_items keep f depth (index + 1) (snd (f v index a)) t)
          (each_items keep g depth (index + 1) (snd (g v index b)) t)"
        by (rule "1.IH" [OF Inr p [symmetric] _ more(2) refl "1.prems"(1) step(2)]) (use step more in simp_all)
      with run step more show ?thesis by simp
    qed (use run step in simp_all)
  qed
qed

lemma ParseEach_alike:
  assumes "alike R f g" "R a b"
  shows "same_run R (ParseEach None content [] f context a) (ParseEach None content [] g context b)"
proof -
  have "same_run R (Parser_ParseEach None [] f 0 a s) (Parser_ParseEach None [] g 0 b s)" for s
    using each_items_alike [OF assms] assms(2) by (simp add: Parser_ParseEach_def Let_def)
  then show ?thesis
    using assms(2) by (simp add: ParseEach_def Let_def same_run_def split_beta)
qed

section \<open>One row kept of a list\<close>

definition search_of :: "bytes \<Rightarrow> DeviceRecord list \<Rightarrow> DeviceSearch" where
  "search_of identifier devices =
     (let own = filter (\<lambda>d. identifier \<noteq> [] \<and> dr_client_device_identifier d = identifier) devices
      in \<lparr>ds_device = (if own = [] then None else Some (hd own)), ds_matches = length own\<rparr>)"

lemma search_alike: "alike (\<lambda>devices search. search = search_of identifier devices) keep_device (search_device identifier)"
  by (auto simp: alike_def keep_device_def search_device_def search_of_def Let_def parsed_ok_def no_error_def error_ok_def
      split: list.splits)

lemma find_only_search:
  "find_only identifier found ds =
     (let own = filter (\<lambda>d. dr_client_device_identifier d = identifier) ds in
      case found of None \<Rightarrow> (if length own = 1 then Some (hd own) else None)
      | Some d \<Rightarrow> (if own = [] then Some d else None))"
  by (induction ds arbitrary: found) (auto simp: Let_def split: option.splits)

lemma FindByIdentifier_search:
  "FindByIdentifier devices identifier =
     (if ds_matches (search_of identifier devices) = 1 then ds_device (search_of identifier devices) else None)"
  by (auto simp: FindByIdentifier_def find_only_search search_of_def Let_def)

lemma search_agrees:
  "FindInDeviceList content identifier =
     (let devices = ParseDeviceList content in
      if parsed_ok devices then \<lparr>parsed_value = search_of identifier (parsed_value devices), parsed_error = no_error\<rparr>
      else \<lparr>parsed_value = no_search, parsed_error = parsed_error devices\<rparr>)"
proof -
  obtain devices d1 where l: "ParseEach None content [] keep_device ''device list'' [] = (devices, d1)" by fastforce
  obtain search d2 where f: "ParseEach None content [] (search_device identifier) ''device list'' no_search = (search, d2)"
    by fastforce
  have "no_search = search_of identifier []" by (simp add: no_search_def search_of_def)
  then have "same_run (\<lambda>devices search. search = search_of identifier devices) (devices, d1) (search, d2)"
    unfolding l [symmetric] f [symmetric] by (intro ParseEach_alike search_alike)
  then have "search = search_of identifier devices" "d1 = d2" by simp_all
  then show ?thesis
    using l f by (simp add: FindInDeviceList_def ParseDeviceList_def parsed_ok_def pr_ok_def no_error_def error_ok_def)
qed

section \<open>The device a console is\<close>

lemma Required_bool_ok:
  assumes "Required_bool key rd = (x, rd')" "Reader_ok rd'"
  shows "rd' = rd \<and> Reader_ok rd"
proof -
  obtain m rd1 where l: "Lookup key rd = (m, rd1)" by fastforce
  from assms l Lookup_ok [OF l] show ?thesis
    by (auto simp: Required_bool_def split: option.splits if_splits)
qed

lemma Device_ReadText_refuses: "Device_ReadText v key = Inl e \<Longrightarrow> \<not> error_ok e"
  by (auto simp: Device_ReadText_def error_ok_def no_error_def split: option.splits if_splits)

lemma ReadDevice_usable:
  assumes "parsed_ok (ReadDevice v)"
  shows "usable (dr_id (parsed_value (ReadDevice v)))"
proof -
  obtain a rd1 where a: "Required_string ''id'' (make_Reader v ''device record'') = (a, rd1)" by fastforce
  obtain b rd2 where b: "Required_bool ''sync_enabled'' rd1 = (b, rd2)" by fastforce
  note run = ReadDevice_def [of v, unfolded Let_def a b prod.case]
  have ok: "Reader_ok rd2" using assms run by (auto simp: parsed_ok_def Reader_ok_def split: if_splits)
  with Required_bool_ok [OF b] have "Reader_ok rd1" by simp
  then obtain s where "a = Some s" "usable s" using Required_string_ok [OF a] by blast
  then have "usable (into [] a)" by simp
  with run ok assms show ?thesis
    by (simp add: parsed_ok_def Device_ReadText_refuses split: sum.splits)
qed

lemma accepted: "rg_ok (Accept_device d) \<Longrightarrow> dr_sync_enabled d \<and> rg_device (Accept_device d) = d"
  by (auto simp: Accept_device_def Registration_Fail_def rg_ok_def split: if_splits)

lemma not_ok_Fail [simp]: "e \<noteq> Reg_kNone \<Longrightarrow> \<not> rg_ok (Registration_Fail e why)"
  by (simp add: rg_ok_def Registration_Fail_def)

lemma refused_not_ok: "Refused_registration result what = Some r \<Longrightarrow> \<not> rg_ok r"
  by (auto simp: Refused_registration_def Let_def split: if_splits)

lemma none_is_successful: "Refused_registration result what = None \<Longrightarrow> successful result"
  by (auto simp: Refused_registration_def Let_def split: if_splits)

text \<open>What the server said when it was asked about the token's device, and when it was asked for the list.\<close>

definition server_confirms :: "'n Host \<Rightarrow> StoredToken \<Rightarrow> int \<Rightarrow> 'n World \<Rightarrow> DeviceRecord \<Rightarrow> bool" where
  "server_confirms host token timeout w d \<longleftrightarrow>
     (let answer = fst (Send host (AuthedGet (JoinUrl (server_url token) (''/api/devices/'' @ device_id token))
            (access_token token) timeout) w);
          device = ParseDeviceRecord (body (response answer))
      in device_id token \<noteq> [] \<and> successful answer \<and> parsed_ok device \<and> d = parsed_value device \<and>
         dr_id d = device_id token)"

definition server_lists_only :: "'n Host \<Rightarrow> StoredToken \<Rightarrow> bytes \<Rightarrow> int \<Rightarrow> 'n World \<Rightarrow> DeviceRecord \<Rightarrow> bool" where
  "server_lists_only host token identifier timeout w d \<longleftrightarrow>
     (let answer = fst (Send host (AuthedGet (JoinUrl (server_url token) ''/api/devices'')
            (access_token token) timeout) w);
          devices = ParseDeviceList (body (response answer))
      in identifier \<noteq> [] \<and> successful answer \<and> parsed_ok devices \<and>
         filter (\<lambda>x. dr_client_device_identifier x = identifier) (parsed_value devices) = [d])"

lemma confirmed_by_server:
  assumes "ConfirmRegistration host token timeout w = (r, w')" "rg_ok r"
  shows "dr_sync_enabled (rg_device r) \<and> server_confirms host token timeout w (rg_device r)"
proof -
  obtain answer w1 where send: "Send host (AuthedGet (JoinUrl (server_url token) (''/api/devices/'' @ device_id token))
      (access_token token) timeout) w = (answer, w1)" by fastforce
  with assms have r: "r = confirmed token answer" "device_id token \<noteq> []"
    by (auto simp: ConfirmRegistration_def kDevicesPath_def split: if_splits)
  then have ok: "rg_ok (confirmed token answer)" using assms(2) by simp
  then have none: "Refused_registration answer ''the device lookup'' = None"
    using refused_not_ok by (cases "Refused_registration answer ''the device lookup''") (auto simp: confirmed_def split: if_splits)
  show ?thesis
    unfolding server_confirms_def send fst_conv Let_def r(1)
    using ok none_is_successful [OF none] accepted r(2) by (auto simp: confirmed_def none Let_def split: if_splits)
qed

lemma searched_is:
  assumes "rg_ok (searched identifier result)"
  shows "dr_sync_enabled (rg_device (searched identifier result)) \<and> successful result \<and> identifier \<noteq> [] \<and>
    (let devices = ParseDeviceList (body (response result)) in
     parsed_ok devices \<and> filter (\<lambda>x. dr_client_device_identifier x = identifier) (parsed_value devices) =
       [rg_device (searched identifier result)])"
proof -
  let ?devices = "ParseDeviceList (body (response result))"
  note search = search_agrees [of "body (response result)" "identifier"]
  have none: "Refused_registration result ''the device list'' = None"
    using assms refused_not_ok by (cases "Refused_registration result ''the device list''") (auto simp: searched_def)
  note run = searched_def [of "identifier" result, unfolded none option.case Let_def search]
  have ok: "parsed_ok ?devices" using assms run by (auto simp: parsed_ok_def split: if_splits)
  let ?own = "filter (\<lambda>x. identifier \<noteq> [] \<and> dr_client_device_identifier x = identifier) (parsed_value ?devices)"
  have "length ?own = 1"
    using assms run ok by (auto simp: parsed_ok_def search_of_def Let_def split: if_splits)
  then obtain d where d: "?own = [d]" by (cases ?own) auto
  then have "identifier \<noteq> []" by auto
  moreover have "searched identifier result = Accept_device d"
    using run ok d by (simp add: parsed_ok_def search_of_def)
  ultimately show ?thesis
    using assms accepted [of d] ok d none_is_successful [OF none] by (simp add: Let_def)
qed

lemma found_by_server:
  assumes "FindRegistration host token identifier timeout w = (r, w')" "rg_ok r"
  shows "dr_sync_enabled (rg_device r) \<and> server_lists_only host token identifier timeout w (rg_device r)"
proof -
  obtain answer w1 where send: "Send host (AuthedGet (JoinUrl (server_url token) ''/api/devices'')
      (access_token token) timeout) w = (answer, w1)" by fastforce
  with assms have r: "r = searched identifier answer"
    by (auto simp: FindRegistration_def kDevicesPath_def split: if_splits)
  then have "rg_ok (searched identifier answer)" using assms(2) by simp
  from searched_is [OF this] show ?thesis by (simp add: r server_lists_only_def send Let_def)
qed

lemma listed_usable:
  assumes "server_lists_only host token identifier timeout w d"
  shows "usable (dr_id d)"
proof -
  obtain content where c: "parsed_ok (ParseDeviceList content)"
    "filter (\<lambda>x. dr_client_device_identifier x = identifier) (parsed_value (ParseDeviceList content)) = [d]"
    using assms by (auto simp: server_lists_only_def Let_def)
  let ?R = "\<lambda>a b. a = b \<and> list_all (\<lambda>d. usable (dr_id d)) a"
  have "alike ?R keep_device keep_device"
    by (auto simp: alike_def keep_device_def Let_def ReadDevice_usable)
  from ParseEach_alike [OF this, of "[]" "[]" content "''device list''"]
  have "list_all (\<lambda>d. usable (dr_id d)) (fst (ParseEach None content [] keep_device ''device list'' []))"
    by (simp add: same_run_def)
  moreover have "d \<in> set (parsed_value (ParseDeviceList content))"
    using c(2) by (metis filter_is_subset list.set_intros(1) subsetD)
  ultimately show ?thesis
    using c(1) by (auto simp: ParseDeviceList_def parsed_ok_def pr_ok_def list_all_iff split: prod.splits if_splits)
qed

text \<open>C28: The search that keeps one row of the list, whatever the server sends as one, comes to what the list
  parsed whole and then searched comes to: the first row of the identifier and how many there are, or the same
  refusal, of a row this console is not as well as of its own.\<close>

theorem search_is_the_list_searched:
  "FindInDeviceList content identifier =
     (let devices = ParseDeviceList content in
      if parsed_ok devices then \<lparr>parsed_value = search_of identifier (parsed_value devices), parsed_error = no_error\<rparr>
      else \<lparr>parsed_value = no_search, parsed_error = parsed_error devices\<rparr>)"
  by (rule search_agrees)

text \<open>C27: What a console takes for its registration is what the server it asked says it is: the device the token
  names, in a successful answer to the request for that device, or, when it has no such device to ask about or the
  server has none, the one and only row with the console's identifier in a successful answer to the request for the
  list. Sync is on for it. Once cached, on a card that answers, the next boot loads the token with that device's id
  and nothing else changed.\<close>

theorem a_console_takes_its_own_device:
  assumes run: "ResolveRegistration host token identifier timeout w = (r, w')" and ok: "rg_ok r"
    and card: "answers c = []" "file_path path" "can_be_read token"
    and stored: "fst (LoadToken path c) = \<lparr>lt_value = token, lt_error = StoreError_kNone, lt_message = []\<rparr>"
    and cache: "CacheDeviceId path token r c = ((sr, token'), c')"
  shows "dr_sync_enabled (rg_device r) \<and>
    (case ConfirmRegistration host token timeout w of (first, w1) \<Rightarrow>
       if rg_error first = Reg_kNotRegistered \<or> rg_error first = Reg_kNoSuchDevice
       then server_lists_only host token identifier timeout w1 (rg_device r)
       else server_confirms host token timeout w (rg_device r)) \<and>
    fst (LoadToken path c') = \<lparr>lt_value = token\<lparr>device_id := dr_id (rg_device r)\<rparr>, lt_error = StoreError_kNone, lt_message = []\<rparr>"
proof -
  obtain first w1 where one: "ConfirmRegistration host token timeout w = (first, w1)" by fastforce
  obtain found w2 where two: "FindRegistration host token identifier timeout w1 = (found, w2)" by fastforce
  let ?asked = "rg_error first = Reg_kNotRegistered \<or> rg_error first = Reg_kNoSuchDevice"
  have r: "if ?asked then r = found \<and> rg_ok found else r = first \<and> rg_ok first"
    using run ok one two by (auto simp: ResolveRegistration_def rg_ok_def split: if_splits)
  have own: "dr_sync_enabled (rg_device r) \<and>
    (if ?asked then server_lists_only host token identifier timeout w1 (rg_device r)
     else server_confirms host token timeout w (rg_device r))"
    using r confirmed_by_server [OF one] found_by_server [OF two] by (cases ?asked) simp_all
  show ?thesis
  proof (cases "device_id token = dr_id (rg_device r)")
    case True
    with cache ok have "c' = c" by (simp add: CacheDeviceId_def)
    with True stored own one show ?thesis by simp
  next
    case False
    with own have ?asked by (auto simp: server_confirms_def Let_def split: if_splits)
    with own have "usable (dr_id (rg_device r))" using listed_usable by metis
    with card(3) have readable: "can_be_read (token\<lparr>device_id := dr_id (rg_device r)\<rparr>)"
      by (simp add: can_be_read_def Usable_usable)
    obtain written where "SaveToken path (token\<lparr>device_id := dr_id (rg_device r)\<rparr>) c = (written, c')"
      using cache ok False by (auto simp: CacheDeviceId_def split: prod.splits)
    with saved_token_loads [OF card(1,2) readable] own one show ?thesis by simp
  qed
qed

section \<open>A device found again\<close>

definition own_row :: DeviceRecord where
  "own_row = \<lparr>dr_id = ''e'', dr_name = [], dr_platform = [], dr_client = [], dr_client_device_identifier = ''nx-1'',
     dr_sync_enabled = True\<rparr>"

definition sample_devices :: bytes where
  "sample_devices = render (VArray [VObject [(''id'', VString ''e''), (''sync_enabled'', VBool True), (''name'', VNull),
     (''platform'', VNull), (''client'', VNull), (''client_device_identifier'', VString ''nx-1'')]])"

lemma sample_devices_found:
  "FindInDeviceList sample_devices ''nx-1'' =
     \<lparr>parsed_value = \<lparr>ds_device = Some own_row, ds_matches = 1\<rparr>, parsed_error = no_error\<rparr>"
  by code_simp

definition gone_and_found :: "HttpResult list World" where
  "gone_and_found = \<lparr>card = paired_card, net = [answered_with 404 [], answered_with 200 sample_devices]\<rparr>"

lemma sample_registration:
  "fst (ResolveRegistration list_host sample_token ''nx-1'' 30000 gone_and_found) =
     \<lparr>rg_device = own_row, rg_error = Reg_kNone, rg_message = []\<rparr>"
proof -
  have one: "ConfirmRegistration list_host sample_token 30000 gone_and_found =
      (Registration_Fail Reg_kNoSuchDevice ''the device lookup: the server has no such device (HTTP 404)'',
       gone_and_found\<lparr>net := [answered_with 200 sample_devices]\<rparr>)"
    by (simp add: ConfirmRegistration_def StateOf_def sample_token_def IsUrlPathSegment_def unreserved_def less_eq_char_def
        list_host_def gone_and_found_def confirmed_def answered_with_def http_ok_def)
  have "searched ''nx-1'' (answered_with 200 sample_devices) = Accept_device own_row"
    by (simp add: searched_def Refused_registration_def answered_with_def http_ok_def TransientStatus_def successful_def
        sample_devices_found parsed_ok_def no_error_def error_ok_def)
  then have two: "fst (FindRegistration list_host sample_token ''nx-1'' 30000 (gone_and_found\<lparr>net := [answered_with 200 sample_devices]\<rparr>)) =
      \<lparr>rg_device = own_row, rg_error = Reg_kNone, rg_message = []\<rparr>"
    by (simp add: FindRegistration_def StateOf_def sample_token_def list_host_def Accept_device_def own_row_def)
  then show ?thesis
    by (simp add: ResolveRegistration_def one split_beta rg_ok_def Registration_Fail_def)
qed

theorem a_console_takes_its_own_device_witness:
  "fst (LoadToken ''/a'' (snd (CacheDeviceId ''/a'' sample_token \<lparr>rg_device = own_row, rg_error = Reg_kNone, rg_message = []\<rparr>
      (paired_card\<lparr>answers := []\<rparr>)))) =
    \<lparr>lt_value = sample_token\<lparr>device_id := ''e''\<rparr>, lt_error = StoreError_kNone, lt_message = []\<rparr>"
proof -
  let ?r = "\<lparr>rg_device = own_row, rg_error = Reg_kNone, rg_message = []\<rparr>"
  obtain w' where run: "ResolveRegistration list_host sample_token ''nx-1'' 30000 gone_and_found = (?r, w')"
    using sample_registration by (metis prod.collapse)
  obtain sr token' c' where cache: "CacheDeviceId ''/a'' sample_token ?r (paired_card\<lparr>answers := []\<rparr>) = ((sr, token'), c')"
    by (metis prod.exhaust)
  have readable: "can_be_read sample_token" by code_simp
  have stored: "fst (LoadToken ''/a'' (paired_card\<lparr>answers := []\<rparr>)) =
      \<lparr>lt_value = sample_token, lt_error = StoreError_kNone, lt_message = []\<rparr>"
    by (rule LoadToken_recoverable [OF _ readable, of _ _ "\<lparr>data = SerializeStoredToken sample_token @ [CHR 0x0A], on_card = True\<rparr>"])
      (simp_all add: paired_card_def recoverable_def)
  from a_console_takes_its_own_device [OF run _ _ sample_path(1) readable stored cache] cache show ?thesis
    by (simp add: rg_ok_def own_row_def)
qed

end
