(* ===== verification/Spec2Isabelle.thy ===== *)
theory Spec2Isabelle
  imports Scheduler SyncSafety StateDbRoundtrip FileSystem FinishFacts SyncRecovery ResolveFacts ServerFacts TickFacts
    PairingFacts Identity Registration
begin

text \<open>
  A verification development for rommsync-nx, a save synchroniser for a console. What is modelled is
  its platform-independent core, \<open>src/core\<close>: the code that decides and the code that touches the card.

  The program. A background process runs a \<^emph>\<open>tick\<close> when its scheduler says so. A tick sweeps what an
  interrupted one left beside the saves, lists the saves, sends the server what it holds, reads back a
  plan, executes the plan one operation at a time, asks again about the uploads the server refused,
  moves the rows of its baseline forward, stores them, and closes the session. Between ticks it keeps a
  token, a baseline and a verdict on the pairing in small files of the card.

  How the code is modelled. A struct is a record and an enum a datatype with the constructors of the
  source; a C++ string is a list of bytes (type \<open>bytes\<close>); a 64-bit value whose wrap-around matters is a
  word, other integers are \<open>int\<close> or \<open>nat\<close> with the range the code keeps them in; an error is a value;
  a loop is recursion. Code that reads or writes the card, the network or a clock is a function from a
  state to a result and a state. Three of these states are used: the \<open>Card\<close> of theory AtomicFile
  (files, what was flushed, every state the card has been in, and a stream of answers with which the
  card may refuse any call), the \<open>Host\<close> of theory Client (transport, clock, random rolls,
  cancellation, path resolution and directory listings as arguments of the model, since they are
  platform code outside \<open>src/core\<close>) and the \<open>World\<close> (a card and the host's own state).

  The theories and the code, in the order of their imports.

  \<^item> Prelude: the named collections, the generic lemmas on lists, options and digits; \<open>bytes\<close>.
  \<^item> Backoff: \<open>backoff.cpp\<close>. Its generator, the wait of the n-th failure and its band.
  \<^item> Json, JsonRoundtrip, JsonRender: \<open>json.cpp\<close>. The recursive parser with its depth bound, the
    streaming parser, the parser that keeps some members, the reader of typed fields and the writer.
    What is quoted is read back; streaming and keeping agree with plain parsing, up to one byte that
    streaming takes for a brace; what is accepted is well formed. The function \<open>render\<close> of JsonRender is a
    device of the proofs and no code of the program: each real writer is shown to write what it writes.
  \<^item> AtomicFile: \<open>atomic_file.cpp\<close>, \<open>disk.cpp\<close>, \<open>disk.hpp\<close>. Reading within a bound, staging, committing by two
    renames, copying, removing. At every moment of a write the old record or the new one is there,
    also after a power cut.
  \<^item> Auth, TokenStore, AuthGate: \<open>auth.cpp\<close>, \<open>token_store.cpp\<close>, \<open>auth_gate.cpp\<close>. The answers of the pairing, the
    token's text and file, and when a run of rejections stops the ticks.
  \<^item> Pairing, PairingFacts: \<open>pairing.cpp\<close>. \<open>Begin\<close> and \<open>Poll\<close> split where the mutex is released, as steps of the
    relation \<open>pairing\<close>, its invariant, and the status the overlay reads.
  \<^item> Identity, Registration: \<open>device_identity.cpp\<close>, \<open>device_registration.cpp\<close>. The identifier a console keeps, and
    the device it finds again on the server.
  \<^item> Http: the parts of \<open>http.cpp\<close> the core calls: addresses, query values, errors, partial paths.
  \<^item> Scheduler: \<open>scheduler.cpp\<close>, as a state machine with a step relation and its reachable invariant.
  \<^item> Hashes: \<open>md5.cpp\<close>, \<open>sha1.cpp\<close>, \<open>sha256.cpp\<close> and \<open>hash_file.hpp\<close>: digests over 32-bit words, of bytes, of
    pieces and of a file.
  \<^item> Timestamps, SyncWire: \<open>sync.cpp\<close>. Civil dates, timestamps, and the request a tick sends.
  \<^item> Client, Retry: the calls to a host, and the locale \<open>retried_call\<close> every retried call interprets.
  \<^item> Walker, WalkerFacts, JsonCut, ServerCapabilities, ServerFacts: \<open>server_capabilities.cpp\<close>. The walk to one
    member of a heartbeat, against the parser; versions and what a release can do; the call.
  \<^item> SyncNegotiate: \<open>sync_negotiate.cpp\<close>. The plan and the call that fetches it.
  \<^item> SyncExecute, SyncReport, SyncSafety: \<open>sync_execute.cpp\<close>. Each operation of a plan, the report, and what
    the card holds at every moment.
  \<^item> OrderedMap, StateDb, StateDbRoundtrip: \<open>state_db.cpp\<close>. The baseline, its rows, its text and its file.
  \<^item> FileSystem: \<open>file_system.cpp\<close>, and \<open>ResolveOnCard\<close> of \<open>sysmodule/source/card.cpp\<close>. Directories listed
    once; paths split, joined, and resolved on the console's card.
  \<^item> SyncComplete: \<open>sync_complete.cpp\<close>. Closing the session, with the play time it carries.
  \<^item> SyncFinish, FinishFacts: \<open>sync_finish.cpp\<close>. The baseline moved forward, trimmed, stored; then the report.
  \<^item> SyncRecovery: \<open>sync_recovery.cpp\<close>. The sweep at the start of a tick.
  \<^item> SyncResolve, ResolveFacts: \<open>sync_resolve.cpp\<close>. The second negotiation, and its run merged into the
    plan and its report.
  \<^item> RomScope: \<open>rom_scope.cpp\<close>. The roms of a tick, cut to the server's bound.
  \<^item> SyncTick, TickFacts: \<open>sync_tick.cpp\<close>. The tick as a whole, over the parts above: its loop as a step on
    the locals of \<open>RunTick\<close>, with what is left to ask as the measure, and what its outcome says.

  Interfaces. A locale states what one part relies on in another, and is interpreted on the model's own
  definitions by the part that provides it: the retried call, the ordered tables of the baseline, the
  record files, the chunked digests. Their laws are proved once and used through the interpretation.

  Bounds and termination. Every loop of the source that ends by its data is a recursive function with a
  measure, so it returns by construction; no definition takes fuel. A retried call is bounded by its
  number of attempts, the parser by its depth of sixteen, a baseline by its rows and its bytes.

  The card. A call of the card may fail whenever the stream of answers says so; theorems that need a
  card that answers say \<open>answers c = []\<close>. A power cut keeps what was flushed and any part of the rest; what
  is promised of one rests on a sync hook (\<open>file_sync\<close>), as the code's own documents say.
  Whether a rename replaces its destination differs between Horizon and POSIX and is a field of the card.

  Not modelled. Threads, allocation failures and the size of the heap. In \<open>src/core\<close>: the configuration
  file, discovery and placement of saves, save states and conflict records, the download queue, IPC and the
  models behind the overlay's screens, and log files. Outside it: \<open>src/sysmodule\<close> (but for the resolution of
  paths), \<open>src/overlay\<close> and \<open>src/host\<close>, which call libnx, libcurl and
  POSIX. What a placement callback decides is an argument of the executor.
\<close>

end
